(* ===== verification/Prelude.thy ===== *)
theory Prelude
  imports Main "HOL-Library.Word" "HOL-Library.Monad_Syntax"
begin

text \<open>
  Shared vocabulary of the development.

  A C function that may fail to return is a function into \<open>option\<close>: \<open>None\<close> means that the call
  does not return normally, because an \<open>assert\<close> fails, because the code reads or writes outside
  an array, or because it enters an endless loop.  Every model threads its state explicitly, and
  the \<open>do\<close> notation of \<open>HOL-Library.Monad_Syntax\<close> sequences the steps that may fail.

  Unsigned C integers are natural numbers; where an operation of the code can leave the range of
  its type, the model writes the reduction with \<open>u8\<close>, \<open>u32\<close> or \<open>u64\<close>.  Conversions from \<open>int\<close>
  to an unsigned type are \<open>u8i\<close> and \<open>u32i\<close>.

  The theory collects the array access primitives, the conversions, the search loop that
  several components share and the facts about them.
\<close>

named_theorems c_simps \<open>equations of the C primitives\<close>
named_theorems inv_defs \<open>definitions of the component invariants\<close>

section \<open>Fixed-width integers\<close>

definition u8 :: "nat \<Rightarrow> nat" where
  "u8 n = n mod 2 ^ 8"

definition u32 :: "nat \<Rightarrow> nat" where
  "u32 n = n mod 2 ^ 32"

definition u64 :: "nat \<Rightarrow> nat" where
  "u64 n = n mod 2 ^ 64"

definition u8i :: "int \<Rightarrow> nat" where
  "u8i i = nat (i mod 2 ^ 8)"

definition u32i :: "int \<Rightarrow> nat" where
  "u32i i = nat (i mod 2 ^ 32)"

text \<open>An unsigned 32-bit value read as a signed one.\<close>

definition s32 :: "nat \<Rightarrow> int" where
  "s32 n = (if u32 n < 2 ^ 31 then int (u32 n) else int (u32 n) - 2 ^ 32)"

lemma u8_id [simp]: "n < 256 \<Longrightarrow> u8 n = n"
  by (simp add: u8_def)

lemma u32_id [simp]: "n < 4294967296 \<Longrightarrow> u32 n = n"
  by (simp add: u32_def)

lemma u64_id [simp]: "n < 18446744073709551616 \<Longrightarrow> u64 n = n"
  by (simp add: u64_def)

lemma u8_less [simp]: "u8 n < 256"
  by (simp add: u8_def)

lemma u32_less [simp]: "u32 n < 4294967296"
  by (simp add: u32_def)

lemma u64_less [simp]: "u64 n < 18446744073709551616"
  by (simp add: u64_def)

lemma u8i_of_nat [simp]: "n < 256 \<Longrightarrow> u8i (int n) = n"
  by (simp add: u8i_def)

lemma u32i_of_nat [simp]: "n < 4294967296 \<Longrightarrow> u32i (int n) = n"
  by (simp add: u32i_def)

section \<open>Assertions and array accesses\<close>

definition c_assert :: "bool \<Rightarrow> unit option" where
  "c_assert b = (if b then Some () else None)"

definition rd :: "'a list \<Rightarrow> nat \<Rightarrow> 'a option" where
  "rd xs i = (if i < length xs then Some (xs ! i) else None)"

definition wr :: "'a list \<Rightarrow> nat \<Rightarrow> 'a \<Rightarrow> 'a list option" where
  "wr xs i v = (if i < length xs then Some (xs[i := v]) else None)"

definition modify :: "'a list \<Rightarrow> nat \<Rightarrow> ('a \<Rightarrow> 'a) \<Rightarrow> 'a list option" where
  "modify xs i f = (if i < length xs then Some (xs[i := f (xs ! i)]) else None)"

lemma c_assert_simps [simp, c_simps]:
  "c_assert True = Some ()"
  "c_assert False = None"
  by (simp_all add: c_assert_def)

lemma c_assert_Some [simp, c_simps]: "c_assert b = Some u \<longleftrightarrow> b"
  by (simp add: c_assert_def)

lemma rd_in [simp, c_simps]: "i < length xs \<Longrightarrow> rd xs i = Some (xs ! i)"
  by (simp add: rd_def)

lemma rd_out [simp, c_simps]: "length xs \<le> i \<Longrightarrow> rd xs i = None"
  by (simp add: rd_def)

lemma rd_Some_iff [c_simps]: "rd xs i = Some x \<longleftrightarrow> i < length xs \<and> xs ! i = x"
  by (auto simp: rd_def)

lemma wr_in [simp, c_simps]: "i < length xs \<Longrightarrow> wr xs i v = Some (xs[i := v])"
  by (simp add: wr_def)

lemma wr_out [simp, c_simps]: "length xs \<le> i \<Longrightarrow> wr xs i v = None"
  by (simp add: wr_def)

lemma wr_Some_iff [c_simps]: "wr xs i v = Some ys \<longleftrightarrow> i < length xs \<and> ys = xs[i := v]"
  by (auto simp: wr_def)

lemma modify_in [simp, c_simps]: "i < length xs \<Longrightarrow> modify xs i f = Some (xs[i := f (xs ! i)])"
  by (simp add: modify_def)

lemma modify_out [simp, c_simps]: "length xs \<le> i \<Longrightarrow> modify xs i f = None"
  by (simp add: modify_def)

lemma modify_Some_iff [c_simps]:
  "modify xs i f = Some ys \<longleftrightarrow> i < length xs \<and> ys = xs[i := f (xs ! i)]"
  by (auto simp: modify_def)

lemma rd_wr [c_simps]: "wr xs i v = Some ys \<Longrightarrow> rd ys j = (if j = i then Some v else rd xs j)"
  by (auto simp: rd_def wr_def split: if_splits)

section \<open>Growing and shrinking an array\<close>

text \<open>\<open>realloc\<close>: the common prefix is kept and new cells hold \<open>z\<close>.\<close>

definition realloc_to :: "'a \<Rightarrow> nat \<Rightarrow> 'a list \<Rightarrow> 'a list" where
  "realloc_to z n xs = take n xs @ replicate (n - length xs) z"

lemma length_realloc_to [simp]: "length (realloc_to z n xs) = n"
  by (simp add: realloc_to_def)

lemma take_realloc_to [simp]:
  "k \<le> n \<Longrightarrow> k \<le> length xs \<Longrightarrow> take k (realloc_to z n xs) = take k xs"
  by (simp add: realloc_to_def min_def)

lemma nth_realloc_to [simp]: "i < n \<Longrightarrow> i < length xs \<Longrightarrow> realloc_to z n xs ! i = xs ! i"
  by (simp add: realloc_to_def nth_append)

section \<open>The search loop\<close>

text \<open>
  \<open>for (i = i0; i < n; i++) if (P(get(i))) return i;\<close> as the code writes it in
  \<open>cpool_check\<close>, \<open>chash_get_entry\<close> and \<open>client_watch_find\<close>.  The outer \<open>None\<close> is a failed
  access, the inner one is "not found".
\<close>

function for_find :: "(nat \<Rightarrow> 'a option) \<Rightarrow> ('a \<Rightarrow> bool) \<Rightarrow> nat \<Rightarrow> nat \<Rightarrow> nat option option" where
  "for_find get P i n =
     (if i < n
      then (case get i of
              None \<Rightarrow> None
            | Some x \<Rightarrow> if P x then Some (Some i) else for_find get P (Suc i) n)
      else Some None)"
  by pat_completeness auto
termination
  by (relation "measure (\<lambda>(get, P, i, n). n - i)") auto

declare for_find.simps [simp del]

lemma for_find_spec:
  assumes "\<And>k. k < n \<Longrightarrow> get k = Some (xs ! k)"
  shows "\<exists>r. for_find get P i n = Some r \<and>
    (case r of None \<Rightarrow> \<forall>k. i \<le> k \<longrightarrow> k < n \<longrightarrow> \<not> P (xs ! k)
     | Some j \<Rightarrow> i \<le> j \<and> j < n \<and> P (xs ! j) \<and> (\<forall>k. i \<le> k \<longrightarrow> k < j \<longrightarrow> \<not> P (xs ! k)))"
  using assms
proof (induction get P i n rule: for_find.induct)
  case (1 get P i n)
  show ?case
  proof (cases "i < n \<and> \<not> P (xs ! i)")
    case True
    have eq: "for_find get P i n = for_find get P (Suc i) n"
      using True "1.prems" by (simp add: for_find.simps [of get P i n])
    have lift: "i \<le> k \<Longrightarrow> k = i \<or> Suc i \<le> k" for k by auto
    from True "1.prems" "1.IH" [of "xs ! i"] obtain r where
      "for_find get P (Suc i) n = Some r" and
      "case r of None \<Rightarrow> \<forall>k. Suc i \<le> k \<longrightarrow> k < n \<longrightarrow> \<not> P (xs ! k)
       | Some j \<Rightarrow> Suc i \<le> j \<and> j < n \<and> P (xs ! j) \<and> (\<forall>k. Suc i \<le> k \<longrightarrow> k < j \<longrightarrow> \<not> P (xs ! k))"
      by auto
    with eq True lift show ?thesis by (fastforce split: option.splits)
  next
    case False
    with "1.prems" show ?thesis by (auto simp: for_find.simps [of get P i n])
  qed
qed

lemma for_find_cases:
  assumes "\<And>k. k < n \<Longrightarrow> get k = Some (xs ! k)"
  obtains (miss) "for_find get P 0 n = Some None" "\<forall>k < n. \<not> P (xs ! k)"
  | (hit) i where "for_find get P 0 n = Some (Some i)" "i < n" "P (xs ! i)"
      "\<forall>j < i. \<not> P (xs ! j)"
proof -
  from for_find_spec [of n get xs P 0, OF assms] obtain r where
    "for_find get P 0 n = Some r" and
    "case r of None \<Rightarrow> \<forall>k. 0 \<le> k \<longrightarrow> k < n \<longrightarrow> \<not> P (xs ! k)
     | Some j \<Rightarrow> 0 \<le> j \<and> j < n \<and> P (xs ! j) \<and> (\<forall>k. 0 \<le> k \<longrightarrow> k < j \<longrightarrow> \<not> P (xs ! k))"
    by auto
  then show thesis by (cases r) (auto intro: miss hit)
qed

section \<open>Counted loops\<close>

text \<open>
  \<open>for (i = a; i < b; i++) body\<close> with \<open>is = [a..<b]\<close>: the body maps the index and the state to
  the next state, and a failure in it is a failure of the loop.
\<close>

primrec for_each :: "'i list \<Rightarrow> ('i \<Rightarrow> 's \<Rightarrow> 's option) \<Rightarrow> 's \<Rightarrow> 's option" where
  "for_each [] body s = Some s"
| "for_each (i # is) body s = (case body i s of None \<Rightarrow> None | Some s' \<Rightarrow> for_each is body s')"

lemma for_each_append:
  "for_each (is @ js) body s = for_each is body s \<bind> for_each js body"
  by (induction "is" arbitrary: s) (auto split: option.splits)

lemma for_each_total:
  assumes "P s" and "\<And>i t. i \<in> set is \<Longrightarrow> P t \<Longrightarrow> \<exists>u. body i t = Some u \<and> P u"
  shows "\<exists>u. for_each is body s = Some u \<and> P u"
  using assms
proof (induction "is" arbitrary: s)
  case Nil
  then show ?case by simp
next
  case (Cons i "is")
  from Cons.prems obtain u where "body i s = Some u" "P u" by fastforce
  with Cons.IH [of u] Cons.prems(2) show ?case by auto
qed

lemma for_each_invariant:
  assumes "for_each is body s = Some u" and "P s"
    and "\<And>i t t'. i \<in> set is \<Longrightarrow> P t \<Longrightarrow> body i t = Some t' \<Longrightarrow> P t'"
  shows "P u"
  using assms
proof (induction "is" arbitrary: s)
  case Nil
  then show ?case by simp
next
  case (Cons i "is")
  from Cons.prems(1) obtain t where "body i s = Some t" "for_each is body t = Some u"
    by (auto split: option.splits)
  with Cons.IH [of t] Cons.prems show ?case by (metis list.set_intros)
qed

section \<open>Facts on lists\<close>

lemma nth_map_the_take:
  "i < n \<Longrightarrow> n \<le> length xs \<Longrightarrow> map the (take n xs) ! i = the (xs ! i)"
  by simp

lemma take_Suc_upd [simp]:
  "n < length xs \<Longrightarrow> take (Suc n) (xs[n := v]) = take n xs @ [v]"
  by (simp add: take_Suc_conv_app_nth)

lemma list_all_updI:
  "i < length xs \<Longrightarrow> list_all P xs \<Longrightarrow> P v \<Longrightarrow> list_all P (xs[i := v])"
  by (auto simp: list_all_length nth_list_update)

lemma nth_upd_neq [simp]: "i \<noteq> j \<Longrightarrow> xs[i := v] ! j = xs ! j"
  by simp

section \<open>Association lists\<close>

lemma map_of_upd_index:
  assumes "distinct (map fst xs)" and "i < length xs" and "fst (xs ! i) = k"
  shows "map_of (xs[i := (k, x)]) = (map_of xs)(k \<mapsto> x)"
  using assms
proof (induction xs arbitrary: i)
  case Nil
  then show ?case by simp
next
  case (Cons y ys)
  show ?case
  proof (cases i)
    case 0
    with Cons.prems show ?thesis by (cases y) auto
  next
    case (Suc j)
    with Cons.prems have "fst (ys ! j) = k" "j < length ys" by auto
    then have "k \<in> fst ` set ys" by (metis image_eqI nth_mem)
    moreover have "fst y \<notin> fst ` set ys" using Cons.prems(1) by simp
    ultimately have "fst y \<noteq> k" by blast
    with Suc Cons show ?thesis by (cases y) (auto simp: fun_upd_twist)
  qed
qed

lemma map_of_del_index:
  assumes "distinct (map fst xs)" and "i < length xs" and "fst (xs ! i) = k"
  shows "map_of (take i xs @ drop (Suc i) xs) = (map_of xs)(k := None) \<and>
    distinct (map fst (take i xs @ drop (Suc i) xs))"
  using assms
proof (induction xs arbitrary: i)
  case Nil
  then show ?case by simp
next
  case (Cons y ys)
  show ?case
  proof (cases i)
    case 0
    with Cons.prems have "map_of ys k = None" by (auto simp: map_of_eq_None_iff)
    with 0 Cons.prems show ?thesis by (cases y) (auto simp: fun_upd_idem)
  next
    case (Suc j)
    with Cons.prems have "fst (ys ! j) = k" "j < length ys" by auto
    then have "k \<in> fst ` set ys" by (metis image_eqI nth_mem)
    moreover have "fst y \<notin> fst ` set ys" using Cons.prems(1) by simp
    ultimately have "fst y \<noteq> k" by blast
    moreover have "set (take j ys) \<union> set (drop (Suc j) ys) \<subseteq> set ys"
      by (auto dest: in_set_takeD in_set_dropD)
    ultimately show ?thesis
      using Suc Cons by (cases y) (auto simp: fun_upd_twist)
  qed
qed

section \<open>Bytes\<close>

text \<open>The four bytes of an unsigned word, least significant first.\<close>

definition le_bytes :: "nat \<Rightarrow> nat list" where
  "le_bytes n = [n mod 256, n div 256 mod 256, n div 65536 mod 256, n div 16777216 mod 256]"

fun le_value :: "nat list \<Rightarrow> nat" where
  "le_value [] = 0"
| "le_value (b # bs) = b + 256 * le_value bs"

text \<open>\<open>memcpy (dst + off, src, n)\<close>; a copy that leaves one of the blocks is \<open>None\<close>.\<close>

definition copy_bytes :: "nat list \<Rightarrow> nat \<Rightarrow> nat list \<Rightarrow> nat \<Rightarrow> nat list option" where
  "copy_bytes dst off src n =
     (if n = 0 then Some dst
      else if off + n \<le> length dst \<and> n \<le> length src then Some (take off dst @ take n src @ drop (off + n) dst)
      else None)"

lemma length_le_bytes [simp]: "length (le_bytes n) = 4"
  by (simp add: le_bytes_def)

lemma le_roundtrip: "n < 4294967296 \<Longrightarrow> le_value (le_bytes n) = n"
proof -
  assume n: "n < 4294967296"
  define a b c where "a = n div 256" and "b = a div 256" and "c = b div 256"
  have "n div 65536 = b" "n div 16777216 = c" by (simp_all add: a_def b_def c_def div_mult2_eq [symmetric])
  moreover have "c < 256" using n by (simp add: a_def b_def c_def div_mult2_eq [symmetric] less_mult_imp_div_less)
  ultimately show ?thesis
    using mult_div_mod_eq [of 256 n] mult_div_mod_eq [of 256 a] mult_div_mod_eq [of 256 b]
    unfolding le_bytes_def a_def [symmetric] b_def [symmetric] c_def [symmetric] by simp
qed

end
