(* ===== verification/Interfaces.thy ===== *)
theory Interfaces
  imports Prelude
begin

text \<open>
  The contracts between components, as locales.  Each fixes the operations a client calls and
  assumes what the provider promises; the lemmas inside follow from the promises alone.  The
  theories of the providers interpret them on the models of the code:
  \<open>vector\<close> on \<open>cvector.c\<close> (theory \<open>Cvector\<close>), \<open>id_pool\<close> on \<open>cpool.c\<close> (theory \<open>Cpool\<close>)
  and on the capability slots of \<open>cspace.c\<close> (theory \<open>Walloc\<close>),
  \<open>bounded_fifo\<close> on \<open>cqueue.c\<close> (theory \<open>Cqueue\<close>), \<open>key_store\<close> on \<open>chash.c\<close> (theory
  \<open>Chash\<close>), on the watch list of \<open>proc_client_watch.c\<close> (theory \<open>Watch\<close>) and on the
  registrations of \<open>nameserv.c\<close> (theory \<open>Nameserv\<close>), \<open>slot_table\<close> on the scheduling table of \<open>deployment.h\<close> (theory \<open>Sched\<close>).
\<close>

section \<open>Growable vectors\<close>

locale vector =
  fixes inv :: "'v \<Rightarrow> bool"
    and elems :: "'v \<Rightarrow> 'a list"
    and count :: "'v \<Rightarrow> nat"
    and get :: "'v \<Rightarrow> nat \<Rightarrow> 'a option"
    and put :: "'v \<Rightarrow> nat \<Rightarrow> 'a \<Rightarrow> 'v option"
    and add :: "'v \<Rightarrow> 'a \<Rightarrow> ('v \<times> nat) option"
    and del :: "'v \<Rightarrow> nat \<Rightarrow> 'v option"
  assumes count_elems: "inv v \<Longrightarrow> count v = length (elems v)"
    and get_elems: "inv v \<Longrightarrow> get v i = rd (elems v) i"
    and put_elems: "inv v \<Longrightarrow> i < length (elems v) \<Longrightarrow>
      \<exists>w. put v i x = Some w \<and> inv w \<and> elems w = (elems v)[i := x]"
    and add_elems: "inv v \<Longrightarrow>
      \<exists>w. add v x = Some (w, length (elems v)) \<and> inv w \<and> elems w = elems v @ [x]"
    and del_elems: "inv v \<Longrightarrow> i < length (elems v) \<Longrightarrow>
      \<exists>w. del v i = Some w \<and> inv w \<and> elems w = take i (elems v) @ drop (Suc i) (elems v)"
begin

lemma get_in: "inv v \<Longrightarrow> i < length (elems v) \<Longrightarrow> get v i = Some (elems v ! i)"
  by (simp add: get_elems)

lemma find_cases:
  assumes "inv v"
  obtains (miss) "for_find (get v) P 0 (count v) = Some None" "\<forall>x \<in> set (elems v). \<not> P x"
  | (hit) i where "for_find (get v) P 0 (count v) = Some (Some i)" "i < length (elems v)"
      "P (elems v ! i)" "\<forall>j < i. \<not> P (elems v ! j)"
proof -
  have g: "\<And>k. k < count v \<Longrightarrow> get v k = Some (elems v ! k)"
    using assms by (simp add: count_elems get_elems)
  show thesis
  proof (rule for_find_cases [of "count v" "get v" "elems v" P])
    fix k assume "k < count v"
    then show "get v k = Some (elems v ! k)" by (rule g)
  next
    assume "for_find (get v) P 0 (count v) = Some None" "\<forall>k < count v. \<not> P (elems v ! k)"
    with assms show thesis by (intro miss) (auto simp: count_elems in_set_conv_nth)
  next
    fix i assume "for_find (get v) P 0 (count v) = Some (Some i)" "i < count v" "P (elems v ! i)"
      "\<forall>j < i. \<not> P (elems v ! j)"
    with assms show thesis by (intro hit) (auto simp: count_elems)
  qed
qed

lemma add_then_del_last:
  assumes "inv v"
  shows "\<exists>w u. add v x = Some (w, length (elems v)) \<and> get w (length (elems v)) = Some x \<and>
     del w (length (elems v)) = Some u \<and> inv u \<and> elems u = elems v"
proof -
  from add_elems [OF assms, of x] obtain w where
    w: "add v x = Some (w, length (elems v))" "inv w" "elems w = elems v @ [x]" by auto
  from del_elems [OF w(2), of "length (elems v)"] w(3) obtain u where
    u: "del w (length (elems v)) = Some u" "inv u" "elems u = elems v" by auto
  with w show ?thesis by (auto simp: get_elems)
qed

end

section \<open>Pools of identifiers\<close>

text \<open>
  A pool hands out identifiers from a range and takes them back; \<open>live p\<close> are the identifiers
  handed out and not returned.  \<open>alloc\<close> answers 0 when the pool is exhausted.
\<close>

locale id_pool =
  fixes inv :: "'p \<Rightarrow> bool"
    and live :: "'p \<Rightarrow> nat set"
    and range :: "'p \<Rightarrow> nat set"
    and alloc :: "'p \<Rightarrow> ('p \<times> nat) option"
    and free :: "'p \<Rightarrow> nat \<Rightarrow> 'p option"
  assumes zero_reserved: "inv p \<Longrightarrow> 0 \<notin> range p"
    and live_range: "inv p \<Longrightarrow> live p \<subseteq> range p"
    and alloc_total: "inv p \<Longrightarrow> \<exists>q i. alloc p = Some (q, i)"
    and alloc_inv: "inv p \<Longrightarrow> alloc p = Some (q, i) \<Longrightarrow> inv q \<and> range q = range p"
    and alloc_fresh: "inv p \<Longrightarrow> alloc p = Some (q, i) \<Longrightarrow> i \<noteq> 0 \<Longrightarrow>
      i \<in> range p \<and> i \<notin> live p \<and> live q = insert i (live p)"
    and alloc_full: "inv p \<Longrightarrow> alloc p = Some (q, 0) \<Longrightarrow> live p = range p \<and> live q = live p"
    and free_live: "inv p \<Longrightarrow> i \<in> live p \<Longrightarrow>
      \<exists>q. free p i = Some q \<and> inv q \<and> range q = range p \<and> live q = live p - {i}"
begin

text \<open>A run of \<open>n\<close> allocations, newest identifier first; it stops at the first failure.\<close>

primrec alloc_run :: "nat \<Rightarrow> 'p \<Rightarrow> ('p \<times> nat list) option" where
  "alloc_run 0 p = Some (p, [])"
| "alloc_run (Suc n) p =
     (case alloc_run n p of
        None \<Rightarrow> None
      | Some (q, is) \<Rightarrow> (case alloc q of
            None \<Rightarrow> None
          | Some (r, i) \<Rightarrow> if i = 0 then None else Some (r, i # is)))"

lemma alloc_run_distinct:
  "inv p \<Longrightarrow> alloc_run n p = Some (q, is) \<Longrightarrow>
   inv q \<and> range q = range p \<and> distinct is \<and> length is = n \<and> set is \<inter> live p = {} \<and>
   set is \<subseteq> range p \<and> live q = set is \<union> live p"
proof (induction n arbitrary: q "is")
  case 0
  then show ?case by simp
next
  case (Suc n)
  from Suc.prems(2) obtain q' is' i where
    run: "alloc_run n p = Some (q', is')" and al: "alloc q' = Some (q, i)" and
    i: "i \<noteq> 0" "is = i # is'"
    by (auto split: option.splits if_splits prod.splits)
  have IH: "inv q' \<and> range q' = range p \<and> distinct is' \<and> length is' = n \<and> set is' \<inter> live p = {} \<and>
      set is' \<subseteq> range p \<and> live q' = set is' \<union> live p"
    by (rule Suc.IH [OF Suc.prems(1) run])
  with alloc_fresh [OF _ al i(1)] alloc_inv [OF _ al] i(2) show ?case by auto
qed

lemma free_then_alloc_live:
  assumes "inv p" and "i \<in> live p" and "free p i = Some q" and "alloc q = Some (r, j)"
    and "finite (range p)"
  shows "j \<noteq> 0 \<and> inv r \<and> j \<notin> live p - {i}"
proof -
  from free_live [OF assms(1,2)] assms(3) have q: "inv q" "range q = range p" "live q = live p - {i}"
    by auto
  have "j \<noteq> 0"
  proof
    assume "j = 0"
    with assms(4) alloc_full [OF q(1)] have "live q = range q" by auto
    with q live_range [OF assms(1)] assms(2) show False by auto
  qed
  with alloc_fresh [OF q(1) assms(4)] alloc_inv [OF q(1) assms(4)] q(3) show ?thesis by auto
qed

end

section \<open>Bounded queues\<close>

locale bounded_fifo =
  fixes inv :: "'q \<Rightarrow> bool"
    and items :: "'q \<Rightarrow> 'a list"
    and cap :: "'q \<Rightarrow> nat"
    and push :: "'q \<Rightarrow> 'a \<Rightarrow> ('q \<times> bool) option"
    and pop :: "'q \<Rightarrow> ('q \<times> 'a option) option"
  assumes push_room: "inv q \<Longrightarrow> length (items q) < cap q \<Longrightarrow>
      \<exists>r. push q x = Some (r, True) \<and> inv r \<and> cap r = cap q \<and> items r = items q @ [x]"
    and push_full: "inv q \<Longrightarrow> cap q \<le> length (items q) \<Longrightarrow> push q x = Some (q, False)"
    and pop_item: "inv q \<Longrightarrow> items q = y # ys \<Longrightarrow>
      \<exists>r. pop q = Some (r, Some y) \<and> inv r \<and> cap r = cap q \<and> items r = ys"
    and pop_empty: "inv q \<Longrightarrow> items q = [] \<Longrightarrow> pop q = Some (q, None)"
begin

primrec push_all :: "'q \<Rightarrow> 'a list \<Rightarrow> 'q option" where
  "push_all q [] = Some q"
| "push_all q (x # xs) =
     (case push q x of Some (r, True) \<Rightarrow> push_all r xs | _ \<Rightarrow> None)"

primrec pop_n :: "'q \<Rightarrow> nat \<Rightarrow> ('q \<times> 'a list) option" where
  "pop_n q 0 = Some (q, [])"
| "pop_n q (Suc n) =
     (case pop q of
        Some (r, Some x) \<Rightarrow> (case pop_n r n of Some (t, xs) \<Rightarrow> Some (t, x # xs) | None \<Rightarrow> None)
      | _ \<Rightarrow> None)"

lemma push_all_items:
  "inv q \<Longrightarrow> length (items q) + length xs \<le> cap q \<Longrightarrow>
   \<exists>r. push_all q xs = Some r \<and> inv r \<and> cap r = cap q \<and> items r = items q @ xs"
proof (induction xs arbitrary: q)
  case Nil
  then show ?case by simp
next
  case (Cons x xs)
  from Cons.prems push_room [of q x] obtain r where
    r: "push q x = Some (r, True)" "inv r" "cap r = cap q" "items r = items q @ [x]" by auto
  with Cons.IH [of r] Cons.prems show ?case by auto
qed

lemma pop_n_items:
  "inv q \<Longrightarrow> items q = xs @ ys \<Longrightarrow>
   \<exists>r. pop_n q (length xs) = Some (r, xs) \<and> inv r \<and> cap r = cap q \<and> items r = ys"
proof (induction xs arbitrary: q)
  case Nil
  then show ?case by simp
next
  case (Cons x xs)
  from Cons.prems pop_item [of q x "xs @ ys"] obtain r where
    r: "pop q = Some (r, Some x)" "inv r" "cap r = cap q" "items r = xs @ ys" by auto
  from Cons.IH [OF r(2,4)] r(1,3) show ?case by auto
qed

lemma fifo_order:
  assumes "inv q" and "items q = []" and "length xs \<le> cap q"
  shows "\<exists>r t. push_all q xs = Some r \<and> pop_n r (length xs) = Some (t, xs) \<and> items t = []"
proof -
  from push_all_items [OF assms(1), of xs] assms(2,3) obtain r where
    r: "push_all q xs = Some r" "inv r" "items r = xs" by auto
  from pop_n_items [OF r(2), of xs "[]"] r(3) obtain t where
    "pop_n r (length xs) = Some (t, xs)" "items t = []" by auto
  with r(1) show ?thesis by blast
qed

end

section \<open>Keyed stores\<close>

text \<open>\<open>key\<close> and \<open>valid\<close> are the keys and the values the store accepts.\<close>

locale key_store =
  fixes inv :: "'t \<Rightarrow> bool"
    and lookup :: "'t \<Rightarrow> 'k \<Rightarrow> 'a option"
    and get :: "'t \<Rightarrow> 'k \<Rightarrow> 'a option option"
    and put :: "'t \<Rightarrow> 'k \<Rightarrow> 'a \<Rightarrow> 't option"
    and del :: "'t \<Rightarrow> 'k \<Rightarrow> 't option"
    and key :: "'k \<Rightarrow> bool"
    and valid :: "'a \<Rightarrow> bool"
  assumes get_lookup: "inv t \<Longrightarrow> key k \<Longrightarrow> get t k = Some (lookup t k)"
    and put_lookup: "inv t \<Longrightarrow> key k \<Longrightarrow> valid x \<Longrightarrow>
      \<exists>u. put t k x = Some u \<and> inv u \<and> lookup u = (lookup t)(k \<mapsto> x)"
    and del_lookup: "inv t \<Longrightarrow> key k \<Longrightarrow>
      \<exists>u. del t k = Some u \<and> inv u \<and> lookup u = (lookup t)(k := None)"
begin

primrec put_all :: "'t \<Rightarrow> ('k \<times> 'a) list \<Rightarrow> 't option" where
  "put_all t [] = Some t"
| "put_all t (kx # kxs) =
     (case put t (fst kx) (snd kx) of None \<Rightarrow> None | Some u \<Rightarrow> put_all u kxs)"

lemma put_all_lookup:
  "inv t \<Longrightarrow> \<forall>kx \<in> set kxs. key (fst kx) \<and> valid (snd kx) \<Longrightarrow>
   \<exists>u. put_all t kxs = Some u \<and> inv u \<and> lookup u = (lookup t) ++ map_of (rev kxs)"
proof (induction kxs arbitrary: t)
  case Nil
  then show ?case by simp
next
  case (Cons kx kxs)
  from Cons.prems put_lookup [of t "fst kx" "snd kx"] obtain u where
    u: "put t (fst kx) (snd kx) = Some u" "inv u" "lookup u = (lookup t)(fst kx \<mapsto> snd kx)"
    by auto
  from Cons.IH [OF u(2)] Cons.prems(2) obtain w where
    w: "put_all u kxs = Some w" "inv w" "lookup w = lookup u ++ map_of (rev kxs)" by auto
  have "lookup u ++ map_of (rev kxs) = lookup t ++ map_of (rev (kx # kxs))"
    unfolding u(3) by (cases kx) simp
  with u(1) w show ?case by (intro exI [of _ w]) simp
qed

end

section \<open>Cyclic time slots\<close>

text \<open>
  A table of slot lengths repeated for ever, one round per frame.  Slot activations are
  numbered from 0; activation \<open>j\<close> uses entry \<open>j mod length len\<close> of the table and lasts from
  \<open>start_of j\<close> (inclusive) to \<open>start_of (Suc j)\<close> (exclusive).
\<close>

locale slot_table =
  fixes len :: "nat list"
    and frame :: nat
  assumes table: "len \<noteq> []"
    and lengths: "x \<in> set len \<Longrightarrow> 0 < x"
    and total: "sum_list len = frame"
begin

primrec start_of :: "nat \<Rightarrow> nat" where
  "start_of 0 = 0"
| "start_of (Suc j) = start_of j + len ! (j mod length len)"

definition in_slot :: "nat \<Rightarrow> nat \<Rightarrow> bool" where
  "in_slot j n \<longleftrightarrow> start_of j \<le> n \<and> n < start_of (Suc j)"

lemma entry_pos: "0 < len ! (j mod length len)"
  using table by (intro lengths) simp

lemma start_less: "i < j \<Longrightarrow> start_of i < start_of j"
  by (rule lift_Suc_mono_less [of start_of]) (use entry_pos in auto)

lemma start_mono: "i \<le> j \<Longrightarrow> start_of i \<le> start_of j"
  using start_less by (cases "i = j") (auto simp: le_less)

lemma in_slot_unique: "in_slot i n \<Longrightarrow> in_slot j n \<Longrightarrow> i = j"
proof (rule ccontr)
  assume "in_slot i n" "in_slot j n" "i \<noteq> j"
  then show False
    using start_mono [of "Suc i" j] start_mono [of "Suc j" i]
    by (cases "i < j") (auto simp: in_slot_def)
qed

lemma in_slot_tick:
  assumes "in_slot j n"
  shows "in_slot (if start_of (Suc j) \<le> Suc n then Suc j else j) (Suc n)"
  using assms start_less [of "Suc j" "Suc (Suc j)"] by (auto simp: in_slot_def)

lemma start_prefix: "i \<le> length len \<Longrightarrow>
  start_of (length len * m + i) = start_of (length len * m) + sum_list (take i len)"
  by (induction i) (auto simp: take_Suc_conv_app_nth)

lemma start_frame: "start_of (length len * m) = m * frame"
proof (induction m)
  case 0
  then show ?case by simp
next
  case (Suc m)
  have "start_of (length len * Suc m) = start_of (length len * m + length len)"
    by (simp add: algebra_simps)
  also have "\<dots> = m * frame + frame"
    using start_prefix [of "length len" m] Suc.IH total by simp
  finally show ?case by simp
qed

text \<open>The end of activation \<open>j\<close> reaches the end of its frame only when \<open>j\<close> is the last of it.\<close>

lemma frame_boundary:
  "(j div length len + 1) * frame \<le> start_of (Suc j) \<longleftrightarrow> Suc j mod length len = 0"
proof -
  let ?k = "length len"
  have k: "0 < ?k" using table by simp
  have split: "Suc j \<le> ?k * (j div ?k + 1)"
    using k by (metis Suc_eq_plus1 Suc_leI dividend_less_times_div mult_Suc_right add.commute)
  have eq: "Suc j mod ?k = 0 \<longleftrightarrow> Suc j = ?k * (j div ?k + 1)"
  proof
    assume "Suc j mod ?k = 0"
    then show "Suc j = ?k * (j div ?k + 1)"
      using k by (metis Suc_eq_plus1 div_Suc mult_div_mod_eq add.right_neutral)
  next
    assume "Suc j = ?k * (j div ?k + 1)"
    then show "Suc j mod ?k = 0" by (metis mod_mult_self1_is_0)
  qed
  show ?thesis
  proof (cases "Suc j = ?k * (j div ?k + 1)")
    case True
    then have "start_of (Suc j) = start_of (?k * (j div ?k + 1))" by (rule arg_cong)
    also have "\<dots> = (j div ?k + 1) * frame" by (rule start_frame)
    finally have "(j div ?k + 1) * frame \<le> start_of (Suc j)" by simp
    with True eq show ?thesis by blast
  next
    case False
    with split have "start_of (Suc j) < start_of (?k * (j div ?k + 1))"
      by (intro start_less) simp
    then have "start_of (Suc j) < (j div ?k + 1) * frame" by (simp only: start_frame)
    with eq False show ?thesis by simp
  qed
qed

end

end
