(* ===== verification/Cvector.thy ===== *)
theory Cvector
  imports Interfaces
begin

text \<open>
  \<open>libdatastruct/src/cvector.c\<close>: the growable array on which the pools, tables and watch lists
  of the process server are built.

  The backing store \<open>v->data\<close> is a list of cells of length \<open>v->size\<close>; a cell is \<open>None\<close> until it is
  written, and the null pointer is the empty list.  The heap is a parameter \<open>mem\<close>: \<open>mem n\<close> says
  whether \<open>kmalloc\<close> or \<open>krealloc\<close> serves a request of \<open>n\<close> bytes.  Pointers have four bytes.
\<close>

section \<open>Model\<close>

definition CVECTOR_INIT_SIZE :: nat where
  "CVECTOR_INIT_SIZE = 4"

definition CVECTOR_RESIZE_CHECK_FREQ :: int where
  "CVECTOR_RESIZE_CHECK_FREQ = 16"

definition item_size :: nat where
  "item_size = 4"

text \<open>A heap that serves every request.\<close>

abbreviation heap_ok :: "nat \<Rightarrow> bool" where
  "heap_ok \<equiv> (\<lambda>_. True)"

record 'a cvector =
  cv_data :: "'a option list"
  cv_size :: nat
  cv_count :: nat
  cv_nextResize :: int

definition cvector_init :: "'a cvector" where
  "cvector_init =
     \<lparr>cv_data = [], cv_size = 0, cv_count = 0, cv_nextResize = CVECTOR_RESIZE_CHECK_FREQ\<rparr>"

definition cvector_count :: "'a cvector \<Rightarrow> nat" where
  "cvector_count v = cv_count v"

definition cvector_delete_resize :: "(nat \<Rightarrow> bool) \<Rightarrow> 'a cvector \<Rightarrow> 'a cvector" where
  "cvector_delete_resize mem v =
     (let v' = v\<lparr>cv_nextResize := cv_nextResize v - 1\<rparr> in
      if cv_nextResize v > 0 then v'
      else if (cv_count v' + 2) * 2 < cv_size v' then
        (let n = cv_count v' + 2 in
         v'\<lparr>cv_size := n,
            cv_data := (if mem (item_size * n) then realloc_to None n (cv_data v') else []),
            cv_nextResize := CVECTOR_RESIZE_CHECK_FREQ\<rparr>)
      else v')"

definition cvector_add :: "(nat \<Rightarrow> bool) \<Rightarrow> 'a cvector \<Rightarrow> 'a \<Rightarrow> ('a cvector \<times> nat) option" where
  "cvector_add mem v e =
     do {
       v1 \<leftarrow> (if cv_size v = 0
              then do {
                c_assert (mem (item_size * CVECTOR_INIT_SIZE));
                Some (v\<lparr>cv_size := CVECTOR_INIT_SIZE,
                        cv_data := replicate CVECTOR_INIT_SIZE None\<rparr>)
              }
              else Some v);
       v2 \<leftarrow> (if cv_size v1 \<le> cv_count v1
              then do {
                c_assert (mem (item_size * (cv_size v1 * 2)));
                Some (v1\<lparr>cv_size := cv_size v1 * 2,
                         cv_data := realloc_to None (cv_size v1 * 2) (cv_data v1)\<rparr>)
              }
              else Some v1);
       d \<leftarrow> wr (cv_data v2) (cv_count v2) (Some e);
       Some (v2\<lparr>cv_data := d, cv_count := cv_count v2 + 1\<rparr>, cv_count v2)
     }"

definition cvector_set :: "'a cvector \<Rightarrow> nat \<Rightarrow> 'a \<Rightarrow> 'a cvector option" where
  "cvector_set v index e =
     do {
       c_assert (index < cv_count v);
       d \<leftarrow> wr (cv_data v) index (Some e);
       Some (v\<lparr>cv_data := d\<rparr>)
     }"

definition cvector_get :: "'a cvector \<Rightarrow> nat \<Rightarrow> 'a option" where
  "cvector_get v index =
     do {
       c_assert (index < cv_count v);
       cell \<leftarrow> rd (cv_data v) index;
       cell
     }"

text \<open>The loop \<open>for (i = index; i < count - 1; i++) data[i] = data[i + 1]\<close>, \<open>k\<close> rounds of it.\<close>

fun cvector_shift :: "'a option list \<Rightarrow> nat \<Rightarrow> nat \<Rightarrow> 'a option list option" where
  "cvector_shift d i 0 = Some d"
| "cvector_shift d i (Suc k) =
     do {
       x \<leftarrow> rd d (i + 1);
       d' \<leftarrow> wr d i x;
       cvector_shift d' (i + 1) k
     }"

definition cvector_delete :: "(nat \<Rightarrow> bool) \<Rightarrow> 'a cvector \<Rightarrow> nat \<Rightarrow> 'a cvector option" where
  "cvector_delete mem v index =
     do {
       c_assert (index < cv_count v);
       d \<leftarrow> cvector_shift (cv_data v) index (cv_count v - 1 - index);
       Some (cvector_delete_resize mem (v\<lparr>cv_data := d, cv_count := cv_count v - 1\<rparr>))
     }"

definition cvector_free :: "'a cvector \<Rightarrow> 'a cvector" where
  "cvector_free v = cvector_init"

definition cvector_reset :: "'a cvector \<Rightarrow> 'a cvector" where
  "cvector_reset v = v\<lparr>cv_count := 0\<rparr>"

section \<open>Invariant and abstraction\<close>

text \<open>The store has \<open>size\<close> cells, of which the first \<open>count\<close> are written.\<close>

definition cv_inv :: "'a cvector \<Rightarrow> bool" where
  "cv_inv v \<longleftrightarrow> length (cv_data v) = cv_size v \<and> cv_count v \<le> cv_size v \<and>
     (\<forall>i < cv_count v. cv_data v ! i \<noteq> None)"

definition cv_list :: "'a cvector \<Rightarrow> 'a list" where
  "cv_list v = map the (take (cv_count v) (cv_data v))"

lemmas cv_defs = cv_inv_def cv_list_def

lemma cv_list_length: "cv_inv v \<Longrightarrow> length (cv_list v) = cv_count v"
  by (simp add: cv_defs)

lemma cv_list_nth: "cv_inv v \<Longrightarrow> i < cv_count v \<Longrightarrow> cv_data v ! i = Some (cv_list v ! i)"
  by (auto simp: cv_defs)

lemma cv_list_eqI:
  assumes "length (cv_data v) = cv_size v" and "cv_count v = length xs" and "length xs \<le> cv_size v"
    and "\<And>i. i < length xs \<Longrightarrow> cv_data v ! i = Some (xs ! i)"
  shows "cv_inv v \<and> cv_list v = xs"
  using assms by (auto simp: cv_defs intro!: nth_equalityI)

lemma cvector_init_inv [simp]: "cv_inv cvector_init" "cv_list cvector_init = []"
  by (simp_all add: cv_defs cvector_init_def)

lemma cvector_free_inv [simp]: "cv_inv (cvector_free v)" "cv_list (cvector_free v) = []"
  by (simp_all add: cvector_free_def)

lemma cvector_reset_inv: "cv_inv v \<Longrightarrow> cv_inv (cvector_reset v) \<and> cv_list (cvector_reset v) = []"
  by (simp add: cv_defs cvector_reset_def)

section \<open>Each operation on the abstract list\<close>

lemma cvector_get_list: "cv_inv v \<Longrightarrow> cvector_get v i = rd (cv_list v) i"
  by (auto simp: cvector_get_def cv_list_length cv_list_nth cv_inv_def c_assert_def rd_def)

lemma cvector_set_list:
  assumes "cv_inv v" and "i < length (cv_list v)"
  shows "\<exists>w. cvector_set v i x = Some w \<and> cv_inv w \<and> cv_list w = (cv_list v)[i := x]"
proof -
  have i: "i < cv_count v" "i < length (cv_data v)"
    using assms by (auto simp: cv_defs)
  let ?w = "v\<lparr>cv_data := (cv_data v)[i := Some x]\<rparr>"
  have "cv_inv ?w \<and> cv_list ?w = (cv_list v)[i := x]"
    by (rule cv_list_eqI)
      (use assms in \<open>auto simp: cv_list_length cv_inv_def cv_list_nth nth_list_update\<close>)
  with i show ?thesis by (simp add: cvector_set_def)
qed

lemma cvector_set_out: "cv_inv v \<Longrightarrow> length (cv_list v) \<le> i \<Longrightarrow> cvector_set v i x = None"
  by (simp add: cvector_set_def cv_list_length c_assert_def)

text \<open>The two growth steps of \<open>cvector_add\<close> make room for one more cell.\<close>

lemma cvector_add_grow:
  assumes "cv_inv v" and "cvector_add mem v e = Some (w, i)"
  shows "i = cv_count v \<and> cv_inv w \<and> cv_list w = cv_list v @ [e]"
proof -
  from assms have i: "i = cv_count v" and cnt: "cv_count w = cv_count v + 1"
    and sz: "length (cv_data w) = cv_size w" "cv_count v < cv_size w"
    and old: "\<And>k. k < cv_count v \<Longrightarrow> cv_data w ! k = cv_data v ! k"
    and new: "cv_data w ! cv_count v = Some e"
    by (auto simp: cvector_add_def cv_inv_def c_simps bind_eq_Some_conv
        CVECTOR_INIT_SIZE_def split: if_splits)
  have "cv_inv w \<and> cv_list w = cv_list v @ [e]"
    by (rule cv_list_eqI)
      (use assms(1) cnt sz old new in
        \<open>auto simp: cv_list_length cv_list_nth nth_append less_Suc_eq\<close>)
  with i show ?thesis by simp
qed

lemma cvector_add_total:
  assumes "cv_inv v"
  shows "\<exists>w. cvector_add heap_ok v e = Some (w, cv_count v)"
  using assms by (auto simp: cvector_add_def cv_inv_def CVECTOR_INIT_SIZE_def)

lemma cvector_add_list:
  assumes "cv_inv v"
  shows "\<exists>w. cvector_add heap_ok v x = Some (w, length (cv_list v)) \<and> cv_inv w \<and>
    cv_list w = cv_list v @ [x]"
proof -
  from cvector_add_total [OF assms] obtain w where w: "cvector_add heap_ok v x = Some (w, cv_count v)"
    by blast
  with cvector_add_grow [OF assms w] assms show ?thesis by (simp add: cv_list_length)
qed

lemma cvector_shift_spec:
  "i + k < length d \<Longrightarrow>
   \<exists>d'. cvector_shift d i k = Some d' \<and> length d' = length d \<and>
     (\<forall>j. j < i \<longrightarrow> d' ! j = d ! j) \<and> (\<forall>j. i \<le> j \<longrightarrow> j < i + k \<longrightarrow> d' ! j = d ! Suc j)"
proof (induction k arbitrary: d i)
  case 0
  then show ?case by simp
next
  case (Suc k)
  let ?d = "d[i := d ! Suc i]"
  have "\<exists>d'. cvector_shift ?d (i + 1) k = Some d' \<and> length d' = length ?d \<and>
     (\<forall>j. j < i + 1 \<longrightarrow> d' ! j = ?d ! j) \<and>
     (\<forall>j. i + 1 \<le> j \<longrightarrow> j < i + 1 + k \<longrightarrow> d' ! j = ?d ! Suc j)"
    using Suc.prems by (intro Suc.IH) simp
  then obtain d' where d': "cvector_shift ?d (i + 1) k = Some d'" "length d' = length ?d"
    "\<And>j. j < i + 1 \<Longrightarrow> d' ! j = ?d ! j"
    "\<And>j. i + 1 \<le> j \<Longrightarrow> j < i + 1 + k \<Longrightarrow> d' ! j = ?d ! Suc j"
    by blast
  have "d' ! j = d ! Suc j" if "i \<le> j" "j < i + Suc k" for j
    using that d'(3) [of j] d'(4) [of j] Suc.prems by (cases "j = i") auto
  with d' Suc.prems show ?case by auto
qed

lemma cvector_delete_resize_list:
  assumes "cv_inv v"
  shows "cv_inv (cvector_delete_resize heap_ok v) \<and>
    cv_list (cvector_delete_resize heap_ok v) = cv_list v"
  using assms by (auto simp: cvector_delete_resize_def cv_defs Let_def)

lemma cvector_delete_list:
  assumes "cv_inv v" and "i < length (cv_list v)"
  shows "\<exists>w. cvector_delete heap_ok v i = Some w \<and> cv_inv w \<and>
    cv_list w = take i (cv_list v) @ drop (Suc i) (cv_list v)"
proof -
  let ?n = "cv_count v - 1 - i"
  have i: "i < cv_count v" "i + ?n < length (cv_data v)"
    using assms by (auto simp: cv_defs)
  from cvector_shift_spec [OF i(2)] obtain d' where
    d': "cvector_shift (cv_data v) i ?n = Some d'" "length d' = length (cv_data v)"
    "\<And>j. j < i \<Longrightarrow> d' ! j = cv_data v ! j"
    "\<And>j. i \<le> j \<Longrightarrow> j < i + ?n \<Longrightarrow> d' ! j = cv_data v ! Suc j" by blast
  let ?u = "v\<lparr>cv_data := d', cv_count := cv_count v - 1\<rparr>"
  let ?xs = "take i (cv_list v) @ drop (Suc i) (cv_list v)"
  have "cv_data ?u ! j = Some (?xs ! j)" if "j < length ?xs" for j
    using that assms i(1) d'(3) [of j] d'(4) [of j]
    by (cases "j < i") (auto simp: cv_list_length cv_list_nth nth_append min_def)
  then have "cv_inv ?u \<and> cv_list ?u = ?xs"
    by (intro cv_list_eqI) (use assms i(1) d'(2) in \<open>auto simp: cv_list_length cv_inv_def min_def\<close>)
  with cvector_delete_resize_list [of ?u] d'(1) i(1) show ?thesis
    by (simp add: cvector_delete_def)
qed

lemma cvector_count_list: "cv_inv v \<Longrightarrow> cvector_count v = length (cv_list v)"
  by (simp add: cvector_count_def cv_list_length)

interpretation cv: vector cv_inv cv_list cvector_count cvector_get cvector_set
  "cvector_add heap_ok" "cvector_delete heap_ok"
  by unfold_locales
    (simp_all add: cvector_count_list cvector_get_list cvector_set_list cvector_add_list
      cvector_delete_list)

text \<open>Capacity after an insertion: at least 4 cells, and doubling keeps it below twice the use.\<close>

lemma cvector_add_size:
  assumes "cv_inv v" and "cvector_add mem v e = Some (w, i)"
  shows "cv_size w \<le> max (cv_size v) (max 4 (2 * cv_count v))"
  using assms
  by (auto simp: cvector_add_def cv_inv_def c_simps bind_eq_Some_conv
      CVECTOR_INIT_SIZE_def split: if_splits)

text \<open>
  C33 (the vector refines a list).  On a well-formed vector the operations are those of the list of
  its elements: reading, writing, appending (with the index of the new element) and deletion by
  shifting the tail.  They return whenever the index is in range and memory is available, and they
  keep the vector well formed; reading and writing out of range abort.
\<close>

theorem cvector_refines_list:
  assumes "cv_inv v"
  shows "cvector_count v = length (cv_list v) \<and> cvector_get v i = rd (cv_list v) i \<and>
    (\<exists>w. cvector_add heap_ok v x = Some (w, length (cv_list v)) \<and> cv_inv w \<and>
       cv_list w = cv_list v @ [x]) \<and>
    (if i < length (cv_list v)
     then (\<exists>w. cvector_set v i x = Some w \<and> cv_inv w \<and> cv_list w = (cv_list v)[i := x]) \<and>
       (\<exists>w. cvector_delete heap_ok v i = Some w \<and> cv_inv w \<and>
          cv_list w = take i (cv_list v) @ drop (Suc i) (cv_list v))
     else cvector_set v i x = None)"
  using cv.count_elems [OF assms] cv.get_elems [OF assms, of i] cv.add_elems [OF assms, of x]
    cv.put_elems [OF assms, of i x] cv.del_elems [OF assms, of i] cvector_set_out [OF assms, of i x]
  by auto

theorem cvector_refines_list_witness:
  "\<exists>w. cvector_add heap_ok cvector_init (7 :: nat) = Some (w, 0) \<and> cv_list w = [7]"
  using cvector_refines_list [of cvector_init 0 7] by auto

end
