(* ===== verification/Cqueue.thy ===== *)
theory Cqueue
  imports Cvector
begin

text \<open>
  \<open>libdatastruct/src/cqueue.c\<close>: a bounded first-in first-out queue in a circular array.  \<open>top\<close> is the
  next free cell and \<open>count\<close> the number of queued items; the oldest item sits \<open>count\<close> cells below
  \<open>top\<close>.  The model keeps the 32-bit reductions of the code; \<open>cqueue_pop\<close> answers \<open>None\<close> where the
  code answers the null pointer.
\<close>

section \<open>Model\<close>

record 'a cqueue =
  cq_data :: "'a option list"
  cq_top :: nat
  cq_count :: nat
  cq_maxSize :: nat

text \<open>The size given to \<open>kmalloc\<close> is a 32-bit product.\<close>

definition cqueue_init :: "(nat \<Rightarrow> bool) \<Rightarrow> nat \<Rightarrow> 'a cqueue option" where
  "cqueue_init mem maxSize =
     do {
       c_assert (mem (u32 (item_size * maxSize)));
       Some \<lparr>cq_data = replicate (u32 (item_size * maxSize) div item_size) None,
             cq_top = 0, cq_count = 0, cq_maxSize = maxSize\<rparr>
     }"

definition cqueue_push :: "'a cqueue \<Rightarrow> 'a \<Rightarrow> ('a cqueue \<times> bool) option" where
  "cqueue_push q e =
     (if cq_count q \<ge> cq_maxSize q then Some (q, False)
      else do {
        d \<leftarrow> wr (cq_data q) (cq_top q) (Some e);
        Some (q\<lparr>cq_data := d, cq_top := u32 (cq_top q + 1) mod cq_maxSize q,
                cq_count := u32 (cq_count q + 1)\<rparr>, True)
      })"

definition cqueue_bot :: "'a cqueue \<Rightarrow> nat" where
  "cqueue_bot q =
     (if cq_top q \<ge> cq_count q then cq_top q - cq_count q
      else cq_maxSize q - (cq_count q - cq_top q))"

definition cqueue_pop :: "'a cqueue \<Rightarrow> ('a cqueue \<times> 'a option) option" where
  "cqueue_pop q =
     (if cq_count q = 0 then Some (q, None)
      else do {
        c_assert (cqueue_bot q < cq_maxSize q);
        cell \<leftarrow> rd (cq_data q) (cqueue_bot q);
        item \<leftarrow> cell;
        Some (q\<lparr>cq_count := cq_count q - 1\<rparr>, Some item)
      })"

definition cqueue_size :: "'a cqueue \<Rightarrow> nat" where
  "cqueue_size q = cq_count q"

definition cqueue_free :: "'a cqueue \<Rightarrow> 'a cqueue" where
  "cqueue_free q = \<lparr>cq_data = [], cq_top = 0, cq_count = 0, cq_maxSize = 0\<rparr>"

section \<open>Invariant and abstraction\<close>

definition cq_idx :: "'a cqueue \<Rightarrow> nat \<Rightarrow> nat" where
  "cq_idx q k = (cqueue_bot q + k) mod cq_maxSize q"

definition cq_inv :: "'a cqueue \<Rightarrow> bool" where
  "cq_inv q \<longleftrightarrow> length (cq_data q) = cq_maxSize q \<and> cq_maxSize q < 2 ^ 32 \<and>
     cq_count q \<le> cq_maxSize q \<and> (0 < cq_maxSize q \<longrightarrow> cq_top q < cq_maxSize q) \<and>
     (\<forall>k < cq_count q. cq_data q ! cq_idx q k \<noteq> None)"

definition cq_items :: "'a cqueue \<Rightarrow> 'a list" where
  "cq_items q = map (\<lambda>k. the (cq_data q ! cq_idx q k)) [0..<cq_count q]"

lemma wrap_down: "d \<le> t \<Longrightarrow> (t + M - d) mod M = (t - d) mod M" for M :: nat
proof -
  assume "d \<le> t"
  then have "t + M - d = (t - d) + M" by simp
  then show ?thesis by (simp only: mod_add_self2)
qed

lemma length_cq_items [simp]: "length (cq_items q) = cq_count q"
  by (simp add: cq_items_def)

lemma cq_items_nth: "k < cq_count q \<Longrightarrow> cq_items q ! k = the (cq_data q ! cq_idx q k)"
  by (simp add: cq_items_def)

lemma cqueue_bot_less:
  "cq_inv q \<Longrightarrow> 0 < cq_maxSize q \<Longrightarrow> cqueue_bot q \<le> cq_maxSize q \<and>
     (0 < cq_count q \<longrightarrow> cqueue_bot q < cq_maxSize q)"
  by (auto simp: cq_inv_def cqueue_bot_def)

text \<open>The position of item \<open>k\<close>, counted from \<open>top\<close>.\<close>

lemma cq_idx_top:
  assumes "cq_top q < cq_maxSize q" and "cq_count q \<le> cq_maxSize q"
  shows "cq_idx q k = (cq_top q + (cq_maxSize q - cq_count q) + k) mod cq_maxSize q"
proof -
  have "cqueue_bot q mod cq_maxSize q = (cq_top q + (cq_maxSize q - cq_count q)) mod cq_maxSize q"
  proof (cases "cq_count q \<le> cq_top q")
    case True
    with assms wrap_down [OF True, of "cq_maxSize q"] show ?thesis
      by (simp add: cqueue_bot_def)
  next
    case False
    with assms show ?thesis by (simp add: cqueue_bot_def)
  qed
  then show ?thesis unfolding cq_idx_def by (metis mod_add_left_eq)
qed

lemma cq_idx_neq_top:
  assumes "cq_top q < cq_maxSize q" and "cq_count q < cq_maxSize q" and "k < cq_count q"
  shows "cq_idx q k \<noteq> cq_top q"
proof -
  let ?M = "cq_maxSize q" and ?d = "cq_count q - k"
  have eq: "cq_top q + (?M - cq_count q) + k = cq_top q + ?M - ?d" using assms by simp
  have "(cq_top q + ?M - ?d) mod ?M = (if ?d \<le> cq_top q then cq_top q - ?d else cq_top q + ?M - ?d)"
  proof (cases "?d \<le> cq_top q")
    case True
    with assms wrap_down [OF True, of ?M] show ?thesis by (simp del: diff_diff_right)
  next
    case False
    with assms show ?thesis by simp
  qed
  then have "cq_idx q k = (if ?d \<le> cq_top q then cq_top q - ?d else cq_top q + ?M - ?d)"
    using assms by (simp add: cq_idx_top eq)
  with assms show ?thesis by (auto split: if_splits)
qed

lemma cq_idx_0: "cq_inv q \<Longrightarrow> 0 < cq_count q \<Longrightarrow> cq_idx q 0 = cqueue_bot q"
  using cqueue_bot_less [of q] by (auto simp: cq_idx_def cq_inv_def)

lemma cq_itemsI:
  assumes "length xs = cq_count q"
    and "\<And>k. k < cq_count q \<Longrightarrow> cq_data q ! cq_idx q k = Some (xs ! k)"
  shows "cq_items q = xs \<and> (\<forall>k < cq_count q. cq_data q ! cq_idx q k \<noteq> None)"
  using assms by (auto intro!: nth_equalityI simp: cq_items_nth)

lemma cqueue_push_cells:
  assumes inv: "cq_inv q" and room: "cq_count q < cq_maxSize q"
    and r: "r = q\<lparr>cq_data := (cq_data q)[cq_top q := Some x],
                  cq_top := u32 (cq_top q + 1) mod cq_maxSize q, cq_count := u32 (cq_count q + 1)\<rparr>"
  shows "cq_count r = Suc (cq_count q) \<and> (\<forall>k \<le> cq_count q. cq_data r ! cq_idx r k =
     (if k < cq_count q then cq_data q ! cq_idx q k else Some x))"
proof -
  let ?M = "cq_maxSize q"
  have M: "?M < 2 ^ 32" "cq_top q < ?M" "length (cq_data q) = ?M"
    using inv room by (auto simp: cq_inv_def)
  then have cnt: "cq_count r = Suc (cq_count q)" and top: "cq_top r = (cq_top q + 1) mod ?M"
    and Mr: "cq_maxSize r = ?M" and dat: "cq_data r = (cq_data q)[cq_top q := Some x]"
    using room by (simp_all add: r)
  have idx: "cq_idx r k = cq_idx q k" for k
  proof -
    have "cq_idx r k = ((cq_top q + 1) mod ?M + (?M - Suc (cq_count q)) + k) mod ?M"
      using M room by (simp add: cq_idx_top cnt top Mr)
    also have "\<dots> = (cq_top q + 1 + (?M - Suc (cq_count q)) + k) mod ?M"
      by (metis mod_add_left_eq add.assoc)
    also have "cq_top q + 1 + (?M - Suc (cq_count q)) + k = cq_top q + (?M - cq_count q) + k"
      using room by simp
    finally show ?thesis using M room by (simp add: cq_idx_top)
  qed
  have at_top: "cq_idx q (cq_count q) = cq_top q"
    using M room by (simp add: cq_idx_top)
  have off_top: "cq_idx q k \<noteq> cq_top q" if "k < cq_count q" for k
    using M room that by (simp add: cq_idx_neq_top)
  have "cq_data r ! cq_idx r k = cq_data q ! cq_idx q k" if "k < cq_count q" for k
    using off_top [OF that] by (simp add: idx dat)
  moreover have "cq_data r ! cq_idx r (cq_count q) = Some x"
    using M by (simp add: idx dat at_top)
  ultimately show ?thesis using cnt by (simp add: le_less)
qed

lemma cqueue_push_items:
  assumes inv: "cq_inv q" and room: "length (cq_items q) < cq_maxSize q"
  shows "\<exists>r. cqueue_push q x = Some (r, True) \<and> cq_inv r \<and> cq_maxSize r = cq_maxSize q \<and>
    cq_items r = cq_items q @ [x]"
proof -
  let ?r = "q\<lparr>cq_data := (cq_data q)[cq_top q := Some x],
      cq_top := u32 (cq_top q + 1) mod cq_maxSize q, cq_count := u32 (cq_count q + 1)\<rparr>"
  have room': "cq_count q < cq_maxSize q" using room by simp
  note cells = cqueue_push_cells [OF inv room', of ?r x, OF refl]
  have "cq_items ?r = cq_items q @ [x] \<and> (\<forall>k < cq_count ?r. cq_data ?r ! cq_idx ?r k \<noteq> None)"
  proof (rule cq_itemsI)
    show "length (cq_items q @ [x]) = cq_count ?r" using cells by simp
    fix k assume "k < cq_count ?r"
    with cells inv show "cq_data ?r ! cq_idx ?r k = Some ((cq_items q @ [x]) ! k)"
      by (auto simp: nth_append cq_items_nth cq_inv_def less_Suc_eq_le)
  qed
  moreover have "cq_top q < length (cq_data q)" "u32 (cq_top q + 1) mod cq_maxSize q < cq_maxSize q"
    using inv room' by (auto simp: cq_inv_def)
  ultimately show ?thesis
    using inv room' cells by (simp add: cqueue_push_def cq_inv_def)
qed

lemma cqueue_push_full:
  "cq_inv q \<Longrightarrow> cq_maxSize q \<le> length (cq_items q) \<Longrightarrow> cqueue_push q x = Some (q, False)"
  by (simp add: cqueue_push_def)

lemma cqueue_pop_items:
  assumes inv: "cq_inv q" and items: "cq_items q = y # ys"
  shows "\<exists>r. cqueue_pop q = Some (r, Some y) \<and> cq_inv r \<and> cq_maxSize r = cq_maxSize q \<and>
    cq_items r = ys"
proof -
  let ?r = "q\<lparr>cq_count := cq_count q - 1\<rparr>"
  let ?M = "cq_maxSize q"
  have cnt: "cq_count q = Suc (length ys)"
    using items length_cq_items [of q] by simp
  have M: "0 < ?M" "cq_top q < ?M" "length (cq_data q) = ?M"
    using inv cnt by (auto simp: cq_inv_def)
  have bot: "cqueue_bot q < ?M" using cqueue_bot_less [OF inv M(1)] cnt by simp
  have idx: "cq_idx ?r k = cq_idx q (Suc k)" for k
    using M cnt inv by (simp add: cq_idx_top cq_inv_def Suc_diff_Suc)
  have cell: "cq_data q ! cq_idx q k = Some ((y # ys) ! k)" if "k < cq_count q" for k
    using that inv cq_items_nth [OF that] items by (auto simp: cq_inv_def)
  have "cq_items ?r = ys \<and> (\<forall>k < cq_count ?r. cq_data ?r ! cq_idx ?r k \<noteq> None)"
    by (rule cq_itemsI) (use cnt idx cell in auto)
  moreover have "cq_data q ! cqueue_bot q = Some y"
    using cell [of 0] cq_idx_0 [OF inv] cnt by simp
  ultimately show ?thesis
    using inv M bot cnt by (simp add: cqueue_pop_def cq_inv_def)
qed

lemma cqueue_pop_empty: "cq_inv q \<Longrightarrow> cq_items q = [] \<Longrightarrow> cqueue_pop q = Some (q, None)"
  using length_cq_items [of q] by (simp add: cqueue_pop_def)

interpretation cq: bounded_fifo cq_inv cq_items cq_maxSize cqueue_push cqueue_pop
  by unfold_locales
    (simp_all add: cqueue_push_items cqueue_push_full cqueue_pop_items cqueue_pop_empty)

lemma cqueue_init_items:
  assumes "maxSize < 2 ^ 30"
  shows "\<exists>q. cqueue_init heap_ok maxSize = Some q \<and> cq_inv q \<and> cq_maxSize q = maxSize \<and>
    cq_items q = []"
  using assms by (simp add: cqueue_init_def cq_inv_def cq_items_def item_size_def)

lemma cqueue_free_items: "cq_inv (cqueue_free q) \<and> cq_items (cqueue_free q) = []"
  by (simp add: cqueue_free_def cq_inv_def cq_items_def)



end
