(* ===== verification/Cbpool.thy ===== *)
theory Cbpool
  imports Cvector
begin

text \<open>
  \<open>libdatastruct/src/cbpool.c\<close>: a bitmap allocator of contiguous ranges.  Bit \<open>j mod 32\<close> of tile
  \<open>j div 32\<close> is set while object \<open>j\<close> is in use.  Tiles are 32-bit words.
\<close>

unbundle bit_operations_syntax

section \<open>Model\<close>

definition CBPOOL_INVALID :: nat where
  "CBPOOL_INVALID = 2 ^ 32 - 1"

record cbpool =
  cb_size :: nat
  cb_size_ntiles :: nat
  cb_bitmap :: "32 word list"

definition cbpool_init_static :: "nat \<Rightarrow> nat \<Rightarrow> cbpool option" where
  "cbpool_init_static sz bufferSize =
     (let ntiles = sz div 32 + 1 in
      do {
        c_assert (u32 (ntiles * 4) \<le> bufferSize);
        Some \<lparr>cb_size = sz, cb_size_ntiles = ntiles, cb_bitmap = replicate ntiles 0\<rparr>
      })"

definition cbpool_init :: "(nat \<Rightarrow> bool) \<Rightarrow> nat \<Rightarrow> cbpool option" where
  "cbpool_init mem sz =
     (let ntiles = sz div 32 + 1 in
      do {
        c_assert (mem (u32 (ntiles * 4)));
        Some \<lparr>cb_size = sz, cb_size_ntiles = ntiles, cb_bitmap = replicate ntiles 0\<rparr>
      })"

definition cbpool_check_single :: "cbpool \<Rightarrow> nat \<Rightarrow> bool option" where
  "cbpool_check_single p obj =
     (let idx = obj div 32 in
      do {
        c_assert (idx < cb_size_ntiles p);
        b \<leftarrow> rd (cb_bitmap p) idx;
        Some (b AND push_bit (obj mod 32) 1 \<noteq> 0)
      })"

definition cbpool_set_single :: "cbpool \<Rightarrow> nat \<Rightarrow> bool \<Rightarrow> cbpool option" where
  "cbpool_set_single p obj val =
     (let idx = obj div 32 in
      do {
        c_assert (idx < cb_size_ntiles p);
        bm \<leftarrow> modify (cb_bitmap p) idx
               (\<lambda>b. if val then b OR push_bit (obj mod 32) 1
                    else b AND NOT (push_bit (obj mod 32) 1));
        Some (p\<lparr>cb_bitmap := bm\<rparr>)
      })"

text \<open>\<open>for (j = j0; \<dots>; j++) cbpool_set_single(p, j, val)\<close>, \<open>k\<close> rounds.\<close>

fun cbpool_set_run :: "cbpool \<Rightarrow> nat \<Rightarrow> nat \<Rightarrow> bool \<Rightarrow> cbpool option" where
  "cbpool_set_run p j 0 val = Some p"
| "cbpool_set_run p j (Suc k) val =
     do {
       q \<leftarrow> cbpool_set_single p j val;
       cbpool_set_run q (j + 1) k val
     }"

text \<open>The scan of \<open>cbpool_alloc_internal\<close> from index \<open>i\<close> with \<open>freesz\<close> free objects seen last.\<close>

partial_function (option) cbpool_scan ::
  "cbpool \<Rightarrow> nat \<Rightarrow> int \<Rightarrow> int \<Rightarrow> bool \<Rightarrow> int \<Rightarrow> nat \<Rightarrow> (cbpool \<times> nat) option" where
  "cbpool_scan p sz ed inc lt i freesz =
     (if (if lt then i < ed else i \<ge> ed) then
        do {
          c \<leftarrow> cbpool_check_single p (u32i i);
          if \<not> c then
            (if u32 (freesz + 1) \<ge> sz then
               (let sta = u32i (i - int (u32 (freesz + 1) - 1)) in
                do {
                  q \<leftarrow> cbpool_set_run p sta (u32i i + 1 - sta) True;
                  Some (q, sta)
                })
             else cbpool_scan p sz ed inc lt (i + inc) (u32 (freesz + 1)))
          else cbpool_scan p sz ed inc lt (i + inc) 0
        }
      else Some (p, CBPOOL_INVALID))"

definition cbpool_alloc_internal ::
  "cbpool \<Rightarrow> nat \<Rightarrow> int \<Rightarrow> int \<Rightarrow> int \<Rightarrow> bool \<Rightarrow> (cbpool \<times> nat) option" where
  "cbpool_alloc_internal p sz st ed inc lt =
     (if sz = 0 then Some (p, CBPOOL_INVALID) else cbpool_scan p sz ed inc lt st 0)"

definition cbpool_alloc :: "cbpool \<Rightarrow> nat \<Rightarrow> (cbpool \<times> nat) option" where
  "cbpool_alloc p sz = cbpool_alloc_internal p sz 0 (s32 (cb_size p)) 1 True"

definition cbpool_free :: "cbpool \<Rightarrow> nat \<Rightarrow> nat \<Rightarrow> cbpool option" where
  "cbpool_free p obj sz =
     (if sz = 0 then Some p
      else
        (let end0 = u32 (obj + sz);
             end1 = (if end0 \<ge> cb_size p then u32 (cb_size p + (2 ^ 32 - 1)) else end0)
         in cbpool_set_run p obj (end1 - obj) False))"

section \<open>Invariant and abstraction\<close>

definition cb_inv :: "cbpool \<Rightarrow> bool" where
  "cb_inv p \<longleftrightarrow> cb_size p < 2 ^ 31 \<and> cb_size_ntiles p = cb_size p div 32 + 1 \<and>
     length (cb_bitmap p) = cb_size_ntiles p"

definition cb_used :: "cbpool \<Rightarrow> nat \<Rightarrow> bool" where
  "cb_used p j \<longleftrightarrow> bit (cb_bitmap p ! (j div 32)) (j mod 32)"

lemma cb_tile: "cb_inv p \<Longrightarrow> j \<le> cb_size p \<Longrightarrow> j div 32 < length (cb_bitmap p)"
  by (auto simp: cb_inv_def intro!: div_le_mono le_imp_less_Suc)

lemma cbpool_init_used:
  assumes "sz < 2 ^ 31"
  shows "\<exists>p. cbpool_init heap_ok sz = Some p \<and> cb_inv p \<and> cb_size p = sz \<and>
    (\<forall>j \<le> sz. \<not> cb_used p j)"
proof -
  have "j div 32 < Suc (sz div 32)" if "j \<le> sz" for j
    using that by (auto intro!: div_le_mono le_imp_less_Suc)
  then have "replicate (Suc (sz div 32)) (0 :: 32 word) ! (j div 32) = 0" if "j \<le> sz" for j
    using that by (intro nth_replicate)
  with assms show ?thesis
    by (simp add: cbpool_init_def Let_def cb_inv_def cb_used_def del: replicate_Suc)
qed

lemma cbpool_check_single_used:
  assumes "cb_inv p" and "j \<le> cb_size p"
  shows "cbpool_check_single p j = Some (cb_used p j)"
  using cb_tile [OF assms] assms
  by (simp add: cbpool_check_single_def cb_used_def cb_inv_def push_bit_eq_mult
      and_exp_eq_0_iff_not_bit)

lemma cbpool_set_single_used:
  assumes inv: "cb_inv p" and j: "j \<le> cb_size p"
  shows "\<exists>q. cbpool_set_single p j val = Some q \<and> cb_inv q \<and> cb_size q = cb_size p \<and>
    (\<forall>k. cb_used q k = (if k = j then val else cb_used p k))"
proof -
  let ?f = "\<lambda>b :: 32 word. if val then b OR push_bit (j mod 32) 1
      else b AND NOT (push_bit (j mod 32) 1)"
  let ?q = "p\<lparr>cb_bitmap := (cb_bitmap p)[j div 32 := ?f (cb_bitmap p ! (j div 32))]\<rparr>"
  note tile = cb_tile [OF inv j]
  have f: "bit (?f b) n = (if n = j mod 32 then val else bit b n)" if "n < 32" for b n
    using that by (auto simp: bit_simps push_bit_eq_mult)
  have "cb_used ?q k = (if k = j then val else cb_used p k)" for k
  proof (cases "k div 32 = j div 32")
    case True
    then have "k = j \<longleftrightarrow> k mod 32 = j mod 32"
      by (metis div_mult_mod_eq)
    with True tile f [of "k mod 32" "cb_bitmap p ! (j div 32)"] show ?thesis
      by (simp add: cb_used_def)
  next
    case False
    then have "k \<noteq> j" by auto
    with False show ?thesis by (simp add: cb_used_def)
  qed
  moreover have "cbpool_set_single p j val = Some ?q"
    using tile inv by (simp add: cbpool_set_single_def cb_inv_def Let_def)
  ultimately show ?thesis using inv by (simp add: cb_inv_def)
qed

lemma cbpool_set_run_used:
  "cb_inv p \<Longrightarrow> j + k \<le> Suc (cb_size p) \<Longrightarrow>
   \<exists>q. cbpool_set_run p j k val = Some q \<and> cb_inv q \<and> cb_size q = cb_size p \<and>
     (\<forall>x. cb_used q x = (if j \<le> x \<and> x < j + k then val else cb_used p x))"
proof (induction k arbitrary: p j)
  case 0
  then show ?case by auto
next
  case (Suc k)
  from cbpool_set_single_used [OF Suc.prems(1), of j val] Suc.prems(2) obtain q where
    q: "cbpool_set_single p j val = Some q" "cb_inv q" "cb_size q = cb_size p"
    "\<And>x. cb_used q x = (if x = j then val else cb_used p x)" by auto
  from Suc.IH [OF q(2), of "j + 1"] q(3) Suc.prems(2) obtain r where
    r: "cbpool_set_run q (j + 1) k val = Some r" "cb_inv r" "cb_size r = cb_size p"
    "\<And>x. cb_used r x = (if j + 1 \<le> x \<and> x < j + 1 + k then val else cb_used q x)" by auto
  with q show ?case by auto
qed

section \<open>First fit\<close>

text \<open>\<open>a\<close> starts a free range of \<open>n\<close> objects inside the pool.\<close>

definition cb_fits :: "cbpool \<Rightarrow> nat \<Rightarrow> nat \<Rightarrow> bool" where
  "cb_fits p n a \<longleftrightarrow> a + n \<le> cb_size p \<and> (\<forall>j. a \<le> j \<longrightarrow> j < a + n \<longrightarrow> \<not> cb_used p j)"

text \<open>
  State of the scan at index \<open>i\<close>: the last \<open>f\<close> objects are free, the one before them is in use
  or does not exist, and no earlier range fits.
\<close>

definition cb_scan_inv :: "cbpool \<Rightarrow> nat \<Rightarrow> nat \<Rightarrow> nat \<Rightarrow> bool" where
  "cb_scan_inv p n i f \<longleftrightarrow> f \<le> i \<and> f < n \<and> (\<forall>j. i - f \<le> j \<longrightarrow> j < i \<longrightarrow> \<not> cb_used p j) \<and>
     (\<forall>a. a < i - f \<longrightarrow> \<not> cb_fits p n a)"

lemma cb_scan_used:
  assumes "cb_scan_inv p n i f" and "cb_used p i"
  shows "cb_scan_inv p n (Suc i) 0"
proof -
  have "\<not> cb_fits p n a" if "a < Suc i" for a
  proof (cases "a < i - f")
    case True
    with assms show ?thesis by (simp add: cb_scan_inv_def)
  next
    case False
    with that assms have "a \<le> i" "i < a + n" by (auto simp: cb_scan_inv_def)
    with assms(2) show ?thesis by (auto simp: cb_fits_def)
  qed
  with assms(1) show ?thesis by (simp add: cb_scan_inv_def)
qed

lemma cb_scan_free:
  assumes "cb_scan_inv p n i f" and "\<not> cb_used p i" and "Suc f < n"
  shows "cb_scan_inv p n (Suc i) (Suc f)"
  using assms by (auto simp: cb_scan_inv_def less_Suc_eq)

lemma cb_scan_end:
  assumes "cb_scan_inv p n i f" and "cb_size p \<le> i"
  shows "\<not> cb_fits p n a"
  using assms by (cases "a < i - f") (auto simp: cb_scan_inv_def cb_fits_def)

lemma cb_scan_hit:
  assumes "cb_scan_inv p n i f" and "\<not> cb_used p i" and "Suc f = n" and "i < cb_size p"
  shows "cb_fits p n (i - f) \<and> (\<forall>a < i - f. \<not> cb_fits p n a)"
  using assms by (auto simp: cb_scan_inv_def cb_fits_def less_Suc_eq)

definition cb_alloc_spec :: "cbpool \<Rightarrow> nat \<Rightarrow> cbpool \<Rightarrow> nat \<Rightarrow> bool" where
  "cb_alloc_spec p n q a \<longleftrightarrow>
     (if \<exists>a. cb_fits p n a
      then cb_fits p n a \<and> (\<forall>b < a. \<not> cb_fits p n b) \<and> cb_inv q \<and> cb_size q = cb_size p \<and>
        (\<forall>x. cb_used q x = (a \<le> x \<and> x < a + n \<or> cb_used p x))
      else q = p \<and> a = CBPOOL_INVALID)"

lemma cbpool_scan_first_fit:
  assumes "cb_inv p" and "0 < n" and "n < 2 ^ 31" and "i \<le> cb_size p" and "cb_scan_inv p n i f"
  shows "\<exists>q a. cbpool_scan p n (int (cb_size p)) 1 True (int i) f = Some (q, a) \<and>
    cb_alloc_spec p n q a"
  using assms(4,5)
proof (induction "cb_size p - i" arbitrary: i f)
  case 0
  then have "\<not> cb_fits p n a" for a using cb_scan_end [of p n i f] by simp
  with 0 show ?case by (subst cbpool_scan.simps) (simp add: cb_alloc_spec_def)
next
  case (Suc d)
  have i: "i < cb_size p" "u32i (int i) = i" "f < n"
    using Suc.hyps(2) Suc.prems assms(1) by (auto simp: cb_inv_def cb_scan_inv_def)
  have f: "u32 (f + 1) = Suc f" using i assms(3) by simp
  have chk: "cbpool_check_single p i = Some (cb_used p i)"
    using cbpool_check_single_used [OF assms(1), of i] i(1) by simp
  consider (used) "cb_used p i" | (more) "\<not> cb_used p i" "Suc f < n" | (hit) "\<not> cb_used p i" "Suc f = n"
    using i(3) by linarith
  then show ?case
  proof cases
    case used
    from Suc.hyps(1) [of "Suc i" 0] Suc.hyps(2) cb_scan_used [OF Suc.prems(2) used] i(1)
    show ?thesis
      by (subst cbpool_scan.simps) (simp add: chk i used add.commute)
  next
    case more
    from Suc.hyps(1) [of "Suc i" "Suc f"] Suc.hyps(2) cb_scan_free [OF Suc.prems(2) more] i(1)
    show ?thesis using more f
      by (subst cbpool_scan.simps) (simp add: chk i add.commute)
  next
    case hit
    have le: "f \<le> i" using Suc.prems(2) by (simp add: cb_scan_inv_def)
    have "i - f < 4294967296" using i(1) assms(1) by (auto simp: cb_inv_def)
    then have sta: "u32i (int i - int f) = i - f"
      using le by (simp flip: of_nat_diff)
    from cbpool_set_run_used [OF assms(1), of "i - f" n True] i(1) hit(2) le obtain q where
      q: "cbpool_set_run p (i - f) n True = Some q" "cb_inv q" "cb_size q = cb_size p"
      "\<And>x. cb_used q x = (if i - f \<le> x \<and> x < i - f + n then True else cb_used p x)" by auto
    have "int n - 1 = int f" using hit(2) by auto
    then have sta': "u32i (int i - (int n - 1)) = i - f" by (simp add: sta)
    have "i + 1 - (i - f) = n" using hit(2) le by auto
    then have "cbpool_scan p n (int (cb_size p)) 1 True (int i) f = Some (q, i - f)"
      using f hit i sta' q(1) by (subst cbpool_scan.simps) (simp add: chk Let_def)
    moreover have "cb_alloc_spec p n q (i - f)"
      using cb_scan_hit [OF Suc.prems(2) hit i(1)] q by (auto simp: cb_alloc_spec_def)
    ultimately show ?thesis by blast
  qed
qed

lemma cbpool_alloc_first_fit:
  assumes "cb_inv p" and "0 < n" and "n < 2 ^ 31"
  shows "\<exists>q a. cbpool_alloc p n = Some (q, a) \<and> cb_alloc_spec p n q a"
proof -
  have "cb_scan_inv p n 0 0" using assms(2) by (simp add: cb_scan_inv_def)
  from cbpool_scan_first_fit [OF assms _ this] show ?thesis
    using assms(1,2) by (simp add: cbpool_alloc_def cbpool_alloc_internal_def s32_def cb_inv_def)
qed

section \<open>Release\<close>

lemma cbpool_free_inside:
  assumes "cb_inv p" and "a + n < cb_size p"
  shows "\<exists>q. cbpool_free p a n = Some q \<and> cb_inv q \<and> cb_size q = cb_size p \<and>
    (\<forall>x. cb_used q x = (cb_used p x \<and> \<not> (a \<le> x \<and> x < a + n)))"
proof (cases "n = 0")
  case True
  with assms show ?thesis by (simp add: cbpool_free_def)
next
  case False
  have "u32 (a + n) = a + n" using assms by (simp add: cb_inv_def)
  with False assms cbpool_set_run_used [of p a n False] show ?thesis
    by (auto simp: cbpool_free_def Let_def)
qed

text \<open>A range that ends at the end of the pool keeps its last object.\<close>

lemma cbpool_free_tail:
  assumes "cb_inv p" and "a + n = cb_size p" and "0 < n"
  shows "\<exists>q. cbpool_free p a n = Some q \<and> cb_inv q \<and> cb_size q = cb_size p \<and>
    (\<forall>x. cb_used q x = (cb_used p x \<and> \<not> (a \<le> x \<and> x < cb_size p - 1)))"
proof -
  have "u32 (a + n) = cb_size p" using assms by (simp add: cb_inv_def)
  moreover have "u32 (cb_size p + (2 ^ 32 - 1)) = cb_size p - 1"
  proof -
    have "cb_size p + (2 ^ 32 - 1) = (cb_size p - 1) + 2 ^ 32" using assms by simp
    then have "u32 (cb_size p + (2 ^ 32 - 1)) = u32 (cb_size p - 1)"
      by (simp only: u32_def mod_add_self2)
    moreover have "cb_size p - 1 < 4294967296" using assms(1) by (auto simp: cb_inv_def)
    ultimately show ?thesis by simp
  qed
  ultimately have eq: "cbpool_free p a n = cbpool_set_run p a (cb_size p - 1 - a) False"
    using assms by (simp add: cbpool_free_def Let_def)
  have len: "a + (cb_size p - 1 - a) = cb_size p - 1" "cb_size p - 1 \<le> Suc (cb_size p)"
    using assms by auto
  from cbpool_set_run_used [OF assms(1), of a "cb_size p - 1 - a" False] len obtain q where
    "cbpool_set_run p a (cb_size p - 1 - a) False = Some q" "cb_inv q" "cb_size q = cb_size p"
    "\<And>x. cb_used q x = (if a \<le> x \<and> x < cb_size p - 1 then False else cb_used p x)"
    by auto
  with eq show ?thesis by auto
qed

text \<open>
  First fit.  An allocation returns the least start of a run of \<open>n\<close> free objects, marks
  exactly that run as used, and fails exactly when there is no such run.  Freeing a run inside the
  pool undoes the allocation, but a run that ends at the end of the pool keeps its last object
  marked for ever.
\<close>

theorem cbpool_first_fit:
  assumes inv: "cb_inv p" and n: "0 < n" "n < 2 ^ 31"
  shows "\<exists>q a. cbpool_alloc p n = Some (q, a) \<and> cb_alloc_spec p n q a \<and>
    (a + n < cb_size p \<longrightarrow> (\<exists>r. cbpool_free q a n = Some r \<and> (\<forall>x. cb_used r x = cb_used p x))) \<and>
    (a + n = cb_size p \<longrightarrow> (\<exists>r. cbpool_free q a n = Some r \<and>
       (\<forall>x. cb_used r x = (cb_used p x \<or> x = cb_size p - 1))))"
proof -
  from cbpool_alloc_first_fit [OF assms] obtain q a where
    q: "cbpool_alloc p n = Some (q, a)" "cb_alloc_spec p n q a" by blast
  have free: "\<not> cb_used p x" if "a + n \<le> cb_size p" "a \<le> x" "x < a + n" for x
    using q(2) that inv by (auto simp: cb_alloc_spec_def cb_fits_def cb_inv_def CBPOOL_INVALID_def split: if_splits)
  have used: "cb_inv q" "cb_size q = cb_size p" "cb_used q x = (a \<le> x \<and> x < a + n \<or> cb_used p x)"
    if "a + n \<le> cb_size p" for x
    using q(2) that inv by (auto simp: cb_alloc_spec_def cb_inv_def CBPOOL_INVALID_def split: if_splits)
  have "\<exists>r. cbpool_free q a n = Some r \<and> (\<forall>x. cb_used r x = cb_used p x)" if "a + n < cb_size p"
    using that cbpool_free_inside [of q a n] used free by fastforce
  moreover have "\<exists>r. cbpool_free q a n = Some r \<and> (\<forall>x. cb_used r x = (cb_used p x \<or> x = cb_size p - 1))"
    if e: "a + n = cb_size p"
  proof -
    from cbpool_free_tail [of q a n] used e n(1) obtain r where
      r: "cbpool_free q a n = Some r" "\<forall>x. cb_used r x = (cb_used q x \<and> \<not> (a \<le> x \<and> x < cb_size p - 1))"
      by auto
    have range: "a \<le> x \<and> x < a + n \<longleftrightarrow> a \<le> x \<and> x < cb_size p - 1 \<or> x = cb_size p - 1" for x
      using e n(1) by linarith
    have "cb_used r x = (cb_used p x \<or> x = cb_size p - 1)" for x
      unfolding spec [OF r(2), of x] used(3) [OF eq_imp_le [OF e], of x] range
      using free [OF eq_imp_le [OF e], of x] range [of x] by auto
    with r(1) show ?thesis by blast
  qed
  ultimately show ?thesis using q by blast
qed

theorem cbpool_first_fit_witness:
  "\<exists>p q a. cbpool_init heap_ok 40 = Some p \<and> cbpool_alloc p 3 = Some (q, a) \<and> cb_alloc_spec p 3 q a"
proof -
  from cbpool_init_used [of 40] obtain p where "cbpool_init heap_ok 40 = Some p" "cb_inv p" by auto
  with cbpool_first_fit [of p 3] show ?thesis by auto
qed

end
