(* ===== verification/Deployment.thy ===== *)
theory Deployment
  imports Prelude
begin

text \<open>
  The data of the partition layer of the process server
  (\<open>apps/process_server/src/system/partition\<close>): the generated configuration
  \<open>deployment.h\<close>, the enumerations of \<open>sched.h\<close> and \<open>partition.h\<close>, the structures
  \<open>struct partition\<close> and \<open>struct process\<close>, and the global variables of \<open>sched.c\<close> and
  \<open>partition.c\<close> as one record \<open>sched_state\<close>.  The field \<open>kcalls\<close> is not a variable of the
  code: it records the \<open>seL4_TCB_Suspend\<close> and \<open>seL4_TCB_Resume\<close> calls made, oldest first.
\<close>

section \<open>Configuration\<close>

definition POK_CONFIG_NB_THREADS :: nat where "POK_CONFIG_NB_THREADS = 5"
definition POK_CONFIG_NB_PARTITIONS :: nat where "POK_CONFIG_NB_PARTITIONS = 2"
definition POK_CONFIG_PARTITIONS_NTHREADS :: "nat list" where
  "POK_CONFIG_PARTITIONS_NTHREADS = [2, 3]"
definition CONFIG_PCB_OFFSET :: nat where "CONFIG_PCB_OFFSET = 3"
definition pok_sched_slots :: "nat list" where "pok_sched_slots = [1000, 1000]"
definition POK_CONFIG_SCHEDULING_MAJOR_FRAME :: nat where
  "POK_CONFIG_SCHEDULING_MAJOR_FRAME = 2000"
definition pok_sched_slots_allocation :: "nat list" where "pok_sched_slots_allocation = [0, 1]"
definition POK_CONFIG_SCHEDULING_NBSLOTS :: nat where "POK_CONFIG_SCHEDULING_NBSLOTS = 2"

definition names :: "string list" where
  "names = [''fileserv/hello_world'', ''fileserv/hello_world1'', ''fileserv/hello_world2'',
    ''fileserv/hello_world3'', ''fileserv/hello_world4'']"
definition prio_array :: "nat list" where "prio_array = [100, 100, 100, 100, 100]"
definition period_array :: "nat list" where "period_array = [1000, 1000, 1000, 1000, 1000]"
definition time_array :: "nat list" where "time_array = [1000, 1000, 1000, 1000, 1000]"
definition main_array :: "nat list" where "main_array = [0, 2]"
definition main_name :: "string list" where
  "main_name = [''fileserv/hello_world'', ''fileserv/hello_world2'']"

definition IDLE_THREAD :: nat where "IDLE_THREAD = POK_CONFIG_NB_THREADS"
definition KERNEL_THREAD :: nat where "KERNEL_THREAD = POK_CONFIG_NB_THREADS + 1"

lemmas config_defs = POK_CONFIG_NB_THREADS_def POK_CONFIG_NB_PARTITIONS_def
  POK_CONFIG_PARTITIONS_NTHREADS_def CONFIG_PCB_OFFSET_def pok_sched_slots_def
  POK_CONFIG_SCHEDULING_MAJOR_FRAME_def pok_sched_slots_allocation_def
  POK_CONFIG_SCHEDULING_NBSLOTS_def prio_array_def period_array_def time_array_def
  main_array_def main_name_def names_def IDLE_THREAD_def KERNEL_THREAD_def

section \<open>Enumerations\<close>

datatype pok_sched_t = POK_SCHED_FIFO | POK_SCHED_RR | POK_SCHED_GLOBAL_TIMESLICE
  | POK_SCHED_RMS | POK_SCHED_EDF | POK_SCHED_LLF | POK_SCHED_STATIC

definition POK_CONFIG_PARTITIONS_SCHEDULER :: "pok_sched_t list" where
  "POK_CONFIG_PARTITIONS_SCHEDULER = [POK_SCHED_RR, POK_SCHED_RR]"

datatype pok_state_t = POK_STATE_STOPPED | POK_STATE_RUNNABLE | POK_STATE_WAITING
  | POK_STATE_LOCK | POK_STATE_WAIT_NEXT_ACTIVATION | POK_STATE_DELAYED_START

text \<open>
  The six named modes, and any other integer the enumeration variable can hold: the zero of the
  uninitialised array, and what a client sends as the argument of a mode change.
\<close>

datatype pok_partition_mode_t = PART_MODE_COLD_START | PART_MODE_WARM_START
  | PART_MODE_NORMAL | PART_MODE_IDLE | PART_MODE_RESTART | PART_MODE_STOPPED
  | PART_MODE_VALUE nat

definition part_mode_of :: "nat \<Rightarrow> pok_partition_mode_t" where
  "part_mode_of n =
     (if n = 1 then PART_MODE_COLD_START else if n = 2 then PART_MODE_WARM_START
      else if n = 3 then PART_MODE_NORMAL else if n = 4 then PART_MODE_IDLE
      else if n = 5 then PART_MODE_RESTART else if n = 6 then PART_MODE_STOPPED
      else PART_MODE_VALUE n)"

primrec part_mode_num :: "pok_partition_mode_t \<Rightarrow> nat" where
  "part_mode_num PART_MODE_COLD_START = 1"
| "part_mode_num PART_MODE_WARM_START = 2"
| "part_mode_num PART_MODE_NORMAL = 3"
| "part_mode_num PART_MODE_IDLE = 4"
| "part_mode_num PART_MODE_RESTART = 5"
| "part_mode_num PART_MODE_STOPPED = 6"
| "part_mode_num (PART_MODE_VALUE n) = n"

primrec pok_state_num :: "pok_state_t \<Rightarrow> nat" where
  "pok_state_num POK_STATE_STOPPED = 0"
| "pok_state_num POK_STATE_RUNNABLE = 1"
| "pok_state_num POK_STATE_WAITING = 2"
| "pok_state_num POK_STATE_LOCK = 3"
| "pok_state_num POK_STATE_WAIT_NEXT_ACTIVATION = 4"
| "pok_state_num POK_STATE_DELAYED_START = 5"

datatype start_condition = NORMAL_START | PARTITION_RESTART | HM_MODULE_RESTART
  | HM_PARTITION_RESTART

datatype pok_ret_t = POK_ERRNO_OK | POK_ERRNO_EINVAL | POK_ERRNO_UNAVAILABLE | POK_ERRNO_PARAM
  | POK_ERRNO_TOOMANY | POK_ERRNO_EPERM | POK_ERRNO_EXISTS | POK_ERRNO_ERANGE | POK_ERRNO_EDOM
  | POK_ERRNO_HUGE_VAL | POK_ERRNO_EFAULT | POK_ERRNO_THREAD | POK_ERRNO_THREADATTR
  | POK_ERRNO_TIME | POK_ERRNO_PARTITION_ATTR | POK_ERRNO_PORT | POK_ERRNO_NOTFOUND
  | POK_ERRNO_DIRECTION | POK_ERRNO_SIZE | POK_ERRNO_DISCIPLINE | POK_ERRNO_PORTPART
  | POK_ERRNO_EMPTY | POK_ERRNO_KIND | POK_ERRNO_FULL | POK_ERRNO_READY | POK_ERRNO_TIMEOUT
  | POK_ERRNO_MODE | POK_ERRNO_LOCKOBJ_UNAVAILABLE | POK_ERRNO_LOCKOBJ_NOTREADY
  | POK_ERRNO_LOCKOBJ_KIND | POK_ERRNO_LOCKOBJ_POLICY | POK_ERRNO_PARTITION_MODE
  | POK_ERRNO_PARTITION

primrec pok_ret_num :: "pok_ret_t \<Rightarrow> nat" where
  "pok_ret_num POK_ERRNO_OK = 0"
| "pok_ret_num POK_ERRNO_EINVAL = 1"
| "pok_ret_num POK_ERRNO_UNAVAILABLE = 2"
| "pok_ret_num POK_ERRNO_PARAM = 3"
| "pok_ret_num POK_ERRNO_TOOMANY = 5"
| "pok_ret_num POK_ERRNO_EPERM = 6"
| "pok_ret_num POK_ERRNO_EXISTS = 7"
| "pok_ret_num POK_ERRNO_ERANGE = 8"
| "pok_ret_num POK_ERRNO_EDOM = 9"
| "pok_ret_num POK_ERRNO_HUGE_VAL = 10"
| "pok_ret_num POK_ERRNO_EFAULT = 11"
| "pok_ret_num POK_ERRNO_THREAD = 49"
| "pok_ret_num POK_ERRNO_THREADATTR = 50"
| "pok_ret_num POK_ERRNO_TIME = 100"
| "pok_ret_num POK_ERRNO_PARTITION_ATTR = 200"
| "pok_ret_num POK_ERRNO_PORT = 301"
| "pok_ret_num POK_ERRNO_NOTFOUND = 302"
| "pok_ret_num POK_ERRNO_DIRECTION = 303"
| "pok_ret_num POK_ERRNO_SIZE = 304"
| "pok_ret_num POK_ERRNO_DISCIPLINE = 305"
| "pok_ret_num POK_ERRNO_PORTPART = 307"
| "pok_ret_num POK_ERRNO_EMPTY = 308"
| "pok_ret_num POK_ERRNO_KIND = 309"
| "pok_ret_num POK_ERRNO_FULL = 311"
| "pok_ret_num POK_ERRNO_READY = 310"
| "pok_ret_num POK_ERRNO_TIMEOUT = 250"
| "pok_ret_num POK_ERRNO_MODE = 251"
| "pok_ret_num POK_ERRNO_LOCKOBJ_UNAVAILABLE = 500"
| "pok_ret_num POK_ERRNO_LOCKOBJ_NOTREADY = 501"
| "pok_ret_num POK_ERRNO_LOCKOBJ_KIND = 502"
| "pok_ret_num POK_ERRNO_LOCKOBJ_POLICY = 503"
| "pok_ret_num POK_ERRNO_PARTITION_MODE = 601"
| "pok_ret_num POK_ERRNO_PARTITION = 401"

text \<open>The two function pointers of the structures: an unset pointer is the null pointer.\<close>

datatype sched_fn = Null_sched | Fn_pok_sched_part_rr
datatype entry_fn = Null_entry | Fn_pok_arch_idle

section \<open>Structures\<close>

record partition =
  part_index :: nat
  part_name :: string
  part_mode :: pok_partition_mode_t
  part_lock_level :: nat
  part_start_cond :: start_condition
  part_low :: nat
  part_high :: nat
  part_thread_index :: nat
  part_nthreads :: nat
  part_sched :: pok_sched_t
  part_sched_func :: sched_fn
  part_period :: nat
  part_activation :: nat
  part_prev_thread :: nat
  part_current_thread :: nat
  part_thread_main :: nat
  part_thread_main_entry :: nat
  part_memory_size :: nat

record process =
  proc_status :: pok_state_t
  proc_partition :: nat
  proc_prio :: nat
  proc_base_priority :: nat
  proc_entrypoint :: entry_fn
  proc_timecap :: nat
  proc_period :: nat
  proc_deadline :: nat
  proc_remaining :: nat
  proc_next_activation :: nat
  proc_end_time :: nat
  proc_wakeup_time :: nat
  proc_part :: "nat option"
  proc_need_suspend :: int
  proc_index :: int
  proc_name :: string
  proc_ktcb :: nat
  proc_vspace :: nat
  proc_cspace :: nat
  proc_periodic :: int

datatype tcb_call = TCB_Suspend nat | TCB_Resume nat

record sched_state =
  part_array :: "partition list"
  proc_array :: "process list"
  current_partition :: nat
  pok_tick_counter :: nat
  next_deadline :: nat
  next_major_frame :: nat
  current_slot :: nat
  current_thread :: nat
  kcalls :: "tcb_call list"

section \<open>The state before any initialisation\<close>

text \<open>Static storage is zero; \<open>current_thread\<close> has the initialiser \<open>IDLE_THREAD\<close>.\<close>

definition zero_partition :: partition where
  "zero_partition = \<lparr>part_index = 0, part_name = [], part_mode = PART_MODE_VALUE 0,
     part_lock_level = 0, part_start_cond = NORMAL_START, part_low = 0, part_high = 0,
     part_thread_index = 0, part_nthreads = 0, part_sched = POK_SCHED_FIFO,
     part_sched_func = Null_sched, part_period = 0, part_activation = 0, part_prev_thread = 0,
     part_current_thread = 0, part_thread_main = 0, part_thread_main_entry = 0,
     part_memory_size = 0\<rparr>"

definition zero_process :: process where
  "zero_process = \<lparr>proc_status = POK_STATE_STOPPED, proc_partition = 0, proc_prio = 0,
     proc_base_priority = 0, proc_entrypoint = Null_entry, proc_timecap = 0, proc_period = 0,
     proc_deadline = 0, proc_remaining = 0, proc_next_activation = 0, proc_end_time = 0,
     proc_wakeup_time = 0, proc_part = None, proc_need_suspend = 0, proc_index = 0,
     proc_name = [], proc_ktcb = 0, proc_vspace = 0, proc_cspace = 0, proc_periodic = 0\<rparr>"

definition boot_state :: sched_state where
  "boot_state = \<lparr>part_array = replicate POK_CONFIG_NB_PARTITIONS zero_partition,
     proc_array = replicate (POK_CONFIG_NB_THREADS + 2) zero_process,
     current_partition = 0, pok_tick_counter = 0, next_deadline = 0, next_major_frame = 0,
     current_slot = 0, current_thread = IDLE_THREAD, kcalls = []\<rparr>"

section \<open>Access to the arrays\<close>

definition upd_proc :: "nat \<Rightarrow> (process \<Rightarrow> process) \<Rightarrow> sched_state \<Rightarrow> sched_state option" where
  "upd_proc i f s = do { ps \<leftarrow> modify (proc_array s) i f; Some (s\<lparr>proc_array := ps\<rparr>) }"

definition upd_part :: "nat \<Rightarrow> (partition \<Rightarrow> partition) \<Rightarrow> sched_state \<Rightarrow> sched_state option" where
  "upd_part i f s = do { ps \<leftarrow> modify (part_array s) i f; Some (s\<lparr>part_array := ps\<rparr>) }"

lemma upd_proc_in [simp, c_simps]:
  "i < length (proc_array s) \<Longrightarrow>
   upd_proc i f s = Some (s\<lparr>proc_array := (proc_array s)[i := f (proc_array s ! i)]\<rparr>)"
  by (simp add: upd_proc_def)

lemma upd_part_in [simp, c_simps]:
  "i < length (part_array s) \<Longrightarrow>
   upd_part i f s = Some (s\<lparr>part_array := (part_array s)[i := f (part_array s ! i)]\<rparr>)"
  by (simp add: upd_part_def)

lemma upd_proc_Some [c_simps]:
  "upd_proc i f s = Some t \<longleftrightarrow>
   i < length (proc_array s) \<and> t = s\<lparr>proc_array := (proc_array s)[i := f (proc_array s ! i)]\<rparr>"
  by (auto simp: upd_proc_def modify_def)

lemma upd_part_Some [c_simps]:
  "upd_part i f s = Some t \<longleftrightarrow>
   i < length (part_array s) \<and> t = s\<lparr>part_array := (part_array s)[i := f (part_array s ! i)]\<rparr>"
  by (auto simp: upd_part_def modify_def)

end
