(* ===== verification/Sched.thy ===== *)
theory Sched
  imports Deployment Interfaces
begin

text \<open>
  The two-level scheduler of the partition layer, \<open>sched.c\<close>: the cyclic election of a
  partition, the election of a thread inside it, the round-robin policy, the context switch and
  the handler of the timer tick.  The invariant \<open>sched_inv\<close> says that every partition keeps to
  its own range of threads; the scheduler keeps it and always returns, the loop of the
  round-robin policy included.  The cyclic election follows the slot table of
  \<open>deployment.h\<close> exactly (interpretation \<open>tl\<close> of the locale \<open>slot_table\<close>).
\<close>

section \<open>Operations\<close>

definition pok_sched_context_switch :: "nat \<Rightarrow> nat \<Rightarrow> sched_state \<Rightarrow> sched_state option" where
  "pok_sched_context_switch last_t new_t s =
     (if last_t \<noteq> new_t
      then do {
        to \<leftarrow> rd (proc_array s) last_t;
        let s = (if proc_ktcb to \<noteq> 0
                 then s\<lparr>kcalls := kcalls s @ [TCB_Suspend (proc_ktcb to)]\<rparr> else s);
        tn \<leftarrow> rd (proc_array s) new_t;
        Some (if proc_ktcb tn \<noteq> 0
              then s\<lparr>kcalls := kcalls s @ [TCB_Resume (proc_ktcb tn)]\<rparr> else s)
      }
      else Some s)"

definition pok_elect_partition :: "sched_state \<Rightarrow> (sched_state \<times> nat) option" where
  "pok_elect_partition s =
     (let now = pok_tick_counter s in
      if next_deadline s \<le> now
      then do {
        let s = (if next_major_frame s \<le> now
                 then s\<lparr>next_major_frame :=
                          u64 (next_major_frame s + POK_CONFIG_SCHEDULING_MAJOR_FRAME)\<rparr>
                 else s);
        let s = s\<lparr>current_slot := u8 ((current_slot s + 1) mod POK_CONFIG_SCHEDULING_NBSLOTS)\<rparr>;
        len \<leftarrow> rd pok_sched_slots (current_slot s);
        let s = s\<lparr>next_deadline := u64 (next_deadline s + len)\<rparr>;
        next_partition \<leftarrow> rd pok_sched_slots_allocation (current_slot s);
        Some (s, next_partition)
      }
      else Some (s, current_partition s))"

text \<open>
  The \<open>do\<close>-\<open>while\<close> loop of the round-robin policy.  It stops when it is back at \<open>from\<close> or at a
  runnable thread; \<open>None\<close> is an access outside \<open>proc_array\<close> or an endless search.
\<close>

partial_function (option) rr_loop ::
  "process list \<Rightarrow> nat \<Rightarrow> nat \<Rightarrow> nat \<Rightarrow> nat \<Rightarrow> nat option" where
  "rr_loop procs index_low index_high from res =
     (let res = u32 (res + 1);
          res = (if res > index_high then index_low else res)
      in if res = from then Some res
         else (case rd procs res of
                 None \<Rightarrow> None
               | Some t \<Rightarrow> if proc_status t = POK_STATE_RUNNABLE then Some res
                           else rr_loop procs index_low index_high from res))"

definition pok_sched_part_rr ::
  "process list \<Rightarrow> nat \<Rightarrow> nat \<Rightarrow> nat \<Rightarrow> nat \<Rightarrow> nat option" where
  "pok_sched_part_rr procs index_low index_high prev_thread cur_thread = do {
     let from = (if cur_thread = IDLE_THREAD then prev_thread else cur_thread);
     c \<leftarrow> rd procs cur_thread;
     if proc_remaining c > 0 \<and> proc_status c = POK_STATE_RUNNABLE
     then Some cur_thread
     else do {
       res \<leftarrow> rr_loop procs index_low index_high from from;
       t \<leftarrow> rd procs res;
       Some (if res = from \<and> proc_status t \<noteq> POK_STATE_RUNNABLE then IDLE_THREAD else res)
     }
   }"

primrec call_sched_func ::
  "sched_fn \<Rightarrow> process list \<Rightarrow> nat \<Rightarrow> nat \<Rightarrow> nat \<Rightarrow> nat \<Rightarrow> nat option" where
  "call_sched_func Null_sched procs lo hi prev cur = None"
| "call_sched_func Fn_pok_sched_part_rr procs lo hi prev cur =
     pok_sched_part_rr procs lo hi prev cur"

text \<open>The body of the first loop of \<open>pok_elect_thread\<close>: due threads become runnable.\<close>

definition wake_up :: "nat \<Rightarrow> process \<Rightarrow> process" where
  "wake_up now t =
     (let t = (if proc_status t = POK_STATE_WAITING \<and> proc_wakeup_time t \<le> now
               then t\<lparr>proc_status := POK_STATE_RUNNABLE\<rparr> else t)
      in if proc_status t = POK_STATE_WAIT_NEXT_ACTIVATION \<and> proc_next_activation t \<le> now
         then t\<lparr>proc_status := POK_STATE_RUNNABLE, proc_remaining := proc_timecap t,
                proc_next_activation := u64 (proc_next_activation t + proc_period t)\<rparr>
         else t)"

text \<open>The accounting of one unit of time to the running thread.\<close>

definition charge :: "process \<Rightarrow> process" where
  "charge t =
     (if proc_remaining t > 0
      then (let t = t\<lparr>proc_remaining := proc_remaining t - 1\<rparr>
            in if proc_remaining t \<le> 0
               then t\<lparr>proc_status := POK_STATE_WAIT_NEXT_ACTIVATION\<rparr> else t)
      else t\<lparr>proc_status := POK_STATE_WAIT_NEXT_ACTIVATION\<rparr>)"

definition charge_current :: "sched_state \<Rightarrow> sched_state option" where
  "charge_current s =
     (if current_thread s \<noteq> IDLE_THREAD
      then do {
        cp \<leftarrow> rd (part_array s) (current_partition s);
        if current_thread s \<noteq> part_thread_main cp
        then upd_proc (current_thread s) charge s
        else Some s
      }
      else Some s)"

definition pok_elect_thread :: "nat \<Rightarrow> sched_state \<Rightarrow> (sched_state \<times> nat) option" where
  "pok_elect_thread new_partition_id s = do {
     let now = pok_tick_counter s;
     np \<leftarrow> rd (part_array s) new_partition_id;
     s \<leftarrow> for_each [0..<part_nthreads np]
            (\<lambda>i s. upd_proc (u32 (part_low np + i)) (wake_up now) s) s;
     (s, elected) \<leftarrow>
       (case part_mode np of
          PART_MODE_WARM_START \<Rightarrow> Some (s, part_thread_main np)
        | PART_MODE_COLD_START \<Rightarrow> Some (s, part_thread_main np)
        | PART_MODE_NORMAL \<Rightarrow> do {
            s \<leftarrow> charge_current s;
            e \<leftarrow> call_sched_func (part_sched_func np) (proc_array s) (part_low np) (part_high np)
                   (part_prev_thread np) (part_current_thread np);
            Some (s, e)
          }
        | _ \<Rightarrow> Some (s, IDLE_THREAD));
     s \<leftarrow> upd_proc elected (\<lambda>t. t\<lparr>proc_end_time := u64 (now + proc_remaining t)\<rparr>) s;
     Some (s, elected)
   }"

definition note_elected :: "nat \<Rightarrow> partition \<Rightarrow> partition" where
  "note_elected elected p =
     (if part_current_thread p \<noteq> elected
      then (if part_current_thread p \<noteq> IDLE_THREAD
            then p\<lparr>part_prev_thread := part_current_thread p\<rparr> else p)
           \<lparr>part_current_thread := elected\<rparr>
      else p)"

definition pok_sched :: "sched_state \<Rightarrow> sched_state option" where
  "pok_sched s = do {
     let last_thread = current_thread s;
     (s, elected_partition) \<leftarrow> pok_elect_partition s;
     (s, elected_thread) \<leftarrow> pok_elect_thread elected_partition s;
     let s = s\<lparr>current_thread := elected_thread, current_partition := elected_partition\<rparr>;
     s \<leftarrow> upd_part (current_partition s) (note_elected elected_thread) s;
     pok_sched_context_switch last_thread elected_thread s
   }"

text \<open>\<open>while (1);\<close> on a table whose slots do not add up to the major frame is \<open>None\<close>.\<close>

definition sched_init :: "sched_state \<Rightarrow> sched_state option" where
  "sched_init s = do {
     total_time \<leftarrow> for_each [0..<POK_CONFIG_SCHEDULING_NBSLOTS]
       (\<lambda>slot tot. do { l \<leftarrow> rd pok_sched_slots slot; Some (u64 (tot + l)) }) 0;
     if total_time \<noteq> POK_CONFIG_SCHEDULING_MAJOR_FRAME then None
     else do {
       d \<leftarrow> rd pok_sched_slots 0;
       p \<leftarrow> rd pok_sched_slots_allocation 0;
       Some (s\<lparr>current_slot := 0, next_major_frame := POK_CONFIG_SCHEDULING_MAJOR_FRAME,
               next_deadline := d, current_partition := p\<rparr>)
     }
   }"

text \<open>The start of \<open>scheduler_thread\<close> and one round of its loop after the timer interrupt.\<close>

definition scheduler_start :: "sched_state \<Rightarrow> sched_state" where
  "scheduler_start s = s\<lparr>current_partition := 0\<rparr>"

definition scheduler_tick :: "sched_state \<Rightarrow> sched_state option" where
  "scheduler_tick s = pok_sched (s\<lparr>pok_tick_counter := u64 (pok_tick_counter s + 1)\<rparr>)"

section \<open>The round-robin policy\<close>

text \<open>The threads of a partition in the order the policy tries them after \<open>from\<close>.\<close>

definition rr_order :: "nat \<Rightarrow> nat \<Rightarrow> nat \<Rightarrow> nat list" where
  "rr_order lo hi from = [Suc from..<Suc hi] @ [lo..<Suc from]"

definition runnable :: "process list \<Rightarrow> nat \<Rightarrow> bool" where
  "runnable procs i \<longleftrightarrow> proc_status (procs ! i) = POK_STATE_RUNNABLE"

definition rr_spec :: "process list \<Rightarrow> nat \<Rightarrow> nat \<Rightarrow> nat \<Rightarrow> nat \<Rightarrow> nat" where
  "rr_spec procs lo hi prev cur =
     (if proc_remaining (procs ! cur) > 0 \<and> runnable procs cur then cur
      else (case find (runnable procs)
              (rr_order lo hi (if cur = IDLE_THREAD then prev else cur)) of
              Some i \<Rightarrow> i | None \<Rightarrow> IDLE_THREAD))"

definition rr_succ :: "nat \<Rightarrow> nat \<Rightarrow> nat \<Rightarrow> nat" where
  "rr_succ lo hi res = (let res = u32 (res + 1) in if res > hi then lo else res)"

primrec rr_chain :: "nat \<Rightarrow> nat \<Rightarrow> nat \<Rightarrow> nat list \<Rightarrow> bool" where
  "rr_chain lo hi res [] \<longleftrightarrow> True"
| "rr_chain lo hi res (y # ys) \<longleftrightarrow> rr_succ lo hi res = y \<and> rr_chain lo hi y ys"

lemma rr_chain_append:
  "rr_chain lo hi res (xs @ ys) \<longleftrightarrow> rr_chain lo hi res xs \<and> rr_chain lo hi (last (res # xs)) ys"
  by (induction xs arbitrary: res) auto

lemma rr_chain_upt:
  "hi < 2 ^ 32 - 1 \<Longrightarrow> n \<le> Suc hi \<Longrightarrow> rr_chain lo hi m [Suc m..<n]"
proof (induction n)
  case 0
  then show ?case by simp
next
  case (Suc n)
  show ?case
  proof (cases "Suc m \<le> n")
    case True
    then have "last (m # [Suc m..<n]) = n - 1" by (auto simp: le_Suc_eq)
    moreover have "rr_succ lo hi (n - 1) = n" using True Suc.prems by (simp add: rr_succ_def)
    ultimately show ?thesis using True Suc by (simp add: rr_chain_append)
  next
    case False
    then show ?thesis by (simp add: not_less)
  qed
qed

lemma rr_chain_order:
  assumes "lo \<le> from" and "from \<le> hi" and "hi < 2 ^ 32 - 1"
  shows "rr_chain lo hi from (rr_order lo hi from)"
proof -
  have l: "last (from # [Suc from..<Suc hi]) = hi" using assms(2) by (auto simp: le_less)
  have "[lo..<Suc from] = lo # [Suc lo..<Suc from]" using assms(1) by (simp add: upt_conv_Cons)
  moreover have "rr_succ lo hi hi = lo" using assms(3) by (simp add: rr_succ_def)
  moreover have "rr_chain lo hi lo [Suc lo..<Suc from]" using assms by (intro rr_chain_upt) auto
  moreover have "rr_chain lo hi from [Suc from..<Suc hi]" using assms(3) by (intro rr_chain_upt) auto
  ultimately show ?thesis unfolding rr_order_def rr_chain_append l by simp
qed

lemma rr_loop_step:
  "rr_loop procs lo hi from res =
     (if rr_succ lo hi res = from then Some from
      else case rd procs (rr_succ lo hi res) of
             None \<Rightarrow> None
           | Some t \<Rightarrow> if proc_status t = POK_STATE_RUNNABLE then Some (rr_succ lo hi res)
                       else rr_loop procs lo hi from (rr_succ lo hi res))"
  unfolding rr_succ_def Let_def by (subst rr_loop.simps) (auto simp: Let_def split: option.splits)

lemma rr_loop_chain:
  "rr_chain lo hi res (ys @ [from]) \<Longrightarrow> from \<notin> set ys \<Longrightarrow> \<forall>y \<in> set ys. y < length procs \<Longrightarrow>
   rr_loop procs lo hi from res =
     Some (case find (runnable procs) ys of Some y \<Rightarrow> y | None \<Rightarrow> from)"
proof (induction ys arbitrary: res)
  case Nil
  then show ?case by (simp add: rr_loop_step [of procs lo hi "from" res])
next
  case (Cons y ys)
  then show ?case by (auto simp: rr_loop_step [of procs lo hi "from" res] runnable_def)
qed

lemma rr_loop_order:
  assumes "lo \<le> from" and "from \<le> hi" and "hi < 2 ^ 32 - 1" and "hi < length procs"
  shows "rr_loop procs lo hi from from =
    Some (case find (runnable procs) ([Suc from..<Suc hi] @ [lo..<from]) of
            Some y \<Rightarrow> y | None \<Rightarrow> from)"
proof (rule rr_loop_chain)
  show "rr_chain lo hi from (([Suc from..<Suc hi] @ [lo..<from]) @ [from])"
    using rr_chain_order [OF assms(1-3)] assms(1) by (simp add: rr_order_def)
qed (use assms in auto)

lemma find_append:
  "find P (xs @ ys) = (case find P xs of Some x \<Rightarrow> Some x | None \<Rightarrow> find P ys)"
  by (induction xs) auto

lemma find_SomeD: "find P xs = Some x \<Longrightarrow> x \<in> set xs \<and> P x"
  by (metis find_Some_iff nth_mem)

text \<open>The policy always returns, with the thread of the specification.\<close>

lemma pok_sched_part_rr_spec:
  assumes start: "from = (if cur = IDLE_THREAD then prev else cur)" "lo \<le> from" "from \<le> hi"
    and bounds: "hi < 2 ^ 32 - 1" "hi < length procs" "cur < length procs"
  shows "pok_sched_part_rr procs lo hi prev cur = Some (rr_spec procs lo hi prev cur)"
proof (cases "proc_remaining (procs ! cur) > 0 \<and> runnable procs cur")
  case True
  then show ?thesis
    using bounds by (simp add: pok_sched_part_rr_def rr_spec_def runnable_def)
next
  case False
  let ?others = "[Suc from..<Suc hi] @ [lo..<from]"
  define r where "r = (case find (runnable procs) ?others of Some y \<Rightarrow> y | None \<Rightarrow> from)"
  have order: "rr_order lo hi from = ?others @ [from]" using start(2) by (simp add: rr_order_def)
  have loop: "rr_loop procs lo hi from from = Some r"
    unfolding r_def by (rule rr_loop_order [OF start(2,3) bounds(1,2)])
  have r: "r < length procs"
    unfolding r_def using start bounds by (auto split: option.splits dest!: find_SomeD)
  have "pok_sched_part_rr procs lo hi prev cur =
      Some (if r = from \<and> \<not> runnable procs r then IDLE_THREAD else r)"
    unfolding pok_sched_part_rr_def start(1) [symmetric] runnable_def Let_def
    using False bounds(3) r loop by (auto simp: runnable_def)
  moreover have "find (runnable procs) ?others \<noteq> Some from"
    by (auto dest!: find_SomeD)
  ultimately show ?thesis
    unfolding rr_spec_def start(1) [symmetric] order find_append [of _ ?others] r_def
    using False by (auto split: option.splits dest: find_SomeD)
qed

section \<open>The invariant of the scheduler\<close>

text \<open>The threads the configuration gives to partition \<open>p\<close>.\<close>

definition cfg_low :: "nat \<Rightarrow> nat" where
  "cfg_low p = sum_list (take p POK_CONFIG_PARTITIONS_NTHREADS)"

definition cfg_high :: "nat \<Rightarrow> nat" where
  "cfg_high p = cfg_low p + POK_CONFIG_PARTITIONS_NTHREADS ! p - 1"

definition thread_ids :: "nat \<Rightarrow> nat set" where
  "thread_ids p = {cfg_low p..cfg_high p}"

definition init_mode :: "pok_partition_mode_t \<Rightarrow> bool" where
  "init_mode m \<longleftrightarrow> m = PART_MODE_COLD_START \<or> m = PART_MODE_WARM_START"

definition part_ok :: "nat \<Rightarrow> partition \<Rightarrow> bool" where
  "part_ok i p \<longleftrightarrow>
     part_low p = cfg_low i \<and> part_high p = cfg_high i \<and>
     part_nthreads p = POK_CONFIG_PARTITIONS_NTHREADS ! i \<and>
     part_thread_main p = main_array ! i \<and> 1 \<le> part_thread_index p \<and>
     part_sched_func p = Fn_pok_sched_part_rr \<and>
     (init_mode (part_mode p) \<or> part_mode p = PART_MODE_NORMAL) \<and>
     (part_current_thread p = IDLE_THREAD \<or> part_current_thread p \<in> thread_ids i) \<and>
     (part_current_thread p = IDLE_THREAD \<longrightarrow> part_prev_thread p \<in> thread_ids i)"

definition running_ok :: "sched_state \<Rightarrow> bool" where
  "running_ok s \<longleftrightarrow>
     (let p = part_array s ! current_partition s in
      current_thread s = IDLE_THREAD \<or>
      current_thread s \<in> thread_ids (current_partition s) \<and>
      (init_mode (part_mode p) \<longrightarrow> current_thread s = part_thread_main p))"

definition idle_ok :: "process \<Rightarrow> bool" where
  "idle_ok t \<longleftrightarrow> proc_ktcb t = 0 \<and> proc_remaining t = 0"

definition sched_inv :: "sched_state \<Rightarrow> bool" where
  "sched_inv s \<longleftrightarrow>
     length (part_array s) = POK_CONFIG_NB_PARTITIONS \<and>
     length (proc_array s) = POK_CONFIG_NB_THREADS + 2 \<and>
     (\<forall>i < POK_CONFIG_NB_PARTITIONS. part_ok i (part_array s ! i)) \<and>
     idle_ok (proc_array s ! IDLE_THREAD) \<and>
     current_partition s < POK_CONFIG_NB_PARTITIONS \<and> running_ok s"

declare sched_inv_def [inv_defs] part_ok_def [inv_defs] running_ok_def [inv_defs]
  idle_ok_def [inv_defs]

lemma partition_cases: "p < POK_CONFIG_NB_PARTITIONS \<Longrightarrow> p = 0 \<or> p = 1"
  by (auto simp: POK_CONFIG_NB_PARTITIONS_def)

lemma thread_ids_simps [simp]: "thread_ids 0 = {0..1}" "thread_ids (Suc 0) = {2..4}"
  by (auto simp: thread_ids_def cfg_low_def cfg_high_def POK_CONFIG_PARTITIONS_NTHREADS_def)

lemma thread_ids_bound:
  "p < POK_CONFIG_NB_PARTITIONS \<Longrightarrow> t \<in> thread_ids p \<Longrightarrow> t < POK_CONFIG_NB_THREADS"
  by (auto dest!: partition_cases simp: POK_CONFIG_NB_THREADS_def)

lemma thread_ids_disjoint:
  "p < POK_CONFIG_NB_PARTITIONS \<Longrightarrow> q < POK_CONFIG_NB_PARTITIONS \<Longrightarrow> p \<noteq> q \<Longrightarrow>
   thread_ids p \<inter> thread_ids q = {}"
  by (auto dest!: partition_cases)

lemma main_in_ids: "p < POK_CONFIG_NB_PARTITIONS \<Longrightarrow> main_array ! p \<in> thread_ids p"
  by (auto dest!: partition_cases simp: main_array_def)

lemma cfg_bounds: "p < POK_CONFIG_NB_PARTITIONS \<Longrightarrow>
  cfg_low p \<le> cfg_high p \<and> cfg_high p < POK_CONFIG_NB_THREADS \<and>
  cfg_low p + POK_CONFIG_PARTITIONS_NTHREADS ! p = Suc (cfg_high p)"
  by (auto dest!: partition_cases
      simp: cfg_low_def cfg_high_def POK_CONFIG_PARTITIONS_NTHREADS_def POK_CONFIG_NB_THREADS_def)

lemma sched_invD:
  assumes "sched_inv s"
  shows "length (part_array s) = POK_CONFIG_NB_PARTITIONS"
    and "length (proc_array s) = POK_CONFIG_NB_THREADS + 2"
    and "i < POK_CONFIG_NB_PARTITIONS \<Longrightarrow> part_ok i (part_array s ! i)"
    and "idle_ok (proc_array s ! IDLE_THREAD)"
    and "current_partition s < POK_CONFIG_NB_PARTITIONS"
    and "running_ok s"
  using assms by (auto simp: sched_inv_def)

section \<open>Waking and charging threads\<close>

definition wake_range :: "nat \<Rightarrow> nat \<Rightarrow> nat \<Rightarrow> process list \<Rightarrow> process list" where
  "wake_range now lo n ps =
     map (\<lambda>j. if lo \<le> j \<and> j < lo + n then wake_up now (ps ! j) else ps ! j) [0..<length ps]"

lemma length_wake_range [simp]: "length (wake_range now lo n ps) = length ps"
  by (simp add: wake_range_def)

lemma nth_wake_range:
  "j < length ps \<Longrightarrow>
   wake_range now lo n ps ! j = (if lo \<le> j \<and> j < lo + n then wake_up now (ps ! j) else ps ! j)"
  by (simp add: wake_range_def)

lemma wake_loop:
  assumes "lo + n \<le> length (proc_array s)" and "length (proc_array s) < 2 ^ 32"
  shows "for_each [0..<n] (\<lambda>i s. upd_proc (u32 (lo + i)) (wake_up now) s) s =
    Some (s\<lparr>proc_array := wake_range now lo n (proc_array s)\<rparr>)"
  using assms
proof (induction n)
  case 0
  have "wake_range now lo 0 (proc_array s) = proc_array s"
    by (rule nth_equalityI) (auto simp: nth_wake_range)
  then show ?case by simp
next
  case (Suc n)
  let ?ps = "proc_array s"
  have "(wake_range now lo n ?ps)[lo + n := wake_up now (wake_range now lo n ?ps ! (lo + n))] =
      wake_range now lo (Suc n) ?ps"
    using Suc.prems by (intro nth_equalityI) (auto simp: nth_wake_range nth_list_update)
  with Suc show ?case by (simp add: for_each_append)
qed

lemma wake_up_fields [simp]:
  "proc_ktcb (wake_up now t) = proc_ktcb t" "proc_timecap (wake_up now t) = proc_timecap t"
  "proc_period (wake_up now t) = proc_period t" "proc_partition (wake_up now t) = proc_partition t"
  by (simp_all add: wake_up_def Let_def)

lemma charge_fields [simp]:
  "proc_ktcb (charge t) = proc_ktcb t" "proc_timecap (charge t) = proc_timecap t"
  "proc_period (charge t) = proc_period t" "proc_partition (charge t) = proc_partition t"
  by (simp_all add: charge_def Let_def)

text \<open>What the elections leave of the thread table: the TCB capabilities and the idle thread.\<close>

definition procs_kept :: "process list \<Rightarrow> process list \<Rightarrow> bool" where
  "procs_kept ps qs \<longleftrightarrow>
     length qs = length ps \<and> (\<forall>j < length ps. proc_ktcb (qs ! j) = proc_ktcb (ps ! j)) \<and>
     (idle_ok (ps ! IDLE_THREAD) \<longrightarrow> idle_ok (qs ! IDLE_THREAD))"

lemma procs_kept_trans [trans]: "procs_kept ps qs \<Longrightarrow> procs_kept qs rs \<Longrightarrow> procs_kept ps rs"
  by (auto simp: procs_kept_def)

lemma procs_kept_refl: "procs_kept ps ps"
  by (simp add: procs_kept_def)

lemma procs_kept_upd:
  assumes "i < length ps" and "proc_ktcb t = proc_ktcb (ps ! i)"
    and "i = IDLE_THREAD \<Longrightarrow> proc_remaining t = proc_remaining (ps ! i)"
  shows "procs_kept ps (ps[i := t])"
  using assms by (auto simp: procs_kept_def nth_list_update idle_ok_def)

lemma procs_kept_wake:
  "lo + n \<le> IDLE_THREAD \<Longrightarrow> IDLE_THREAD < length ps \<Longrightarrow> procs_kept ps (wake_range now lo n ps)"
  by (auto simp: procs_kept_def nth_wake_range)

definition charged :: "sched_state \<Rightarrow> process list \<Rightarrow> process list" where
  "charged s ps =
     (let c = current_thread s in
      if c \<noteq> IDLE_THREAD \<and> c \<noteq> part_thread_main (part_array s ! current_partition s)
      then ps[c := charge (ps ! c)] else ps)"

lemma procs_kept_charged: "current_thread s < length ps \<Longrightarrow> procs_kept ps (charged s ps)"
  unfolding charged_def Let_def by (auto intro!: procs_kept_upd procs_kept_refl)

text \<open>The thread table and the thread the election of partition \<open>p\<close> yields.\<close>

definition elect_spec :: "nat \<Rightarrow> sched_state \<Rightarrow> process list \<times> nat" where
  "elect_spec p s =
     (let np = part_array s ! p;
          ps = wake_range (pok_tick_counter s) (part_low np) (part_nthreads np) (proc_array s)
      in if init_mode (part_mode np) then (ps, part_thread_main np)
         else (let qs = charged s ps
               in (qs, rr_spec qs (part_low np) (part_high np) (part_prev_thread np)
                         (part_current_thread np))))"

definition set_end_time :: "nat \<Rightarrow> nat \<Rightarrow> process list \<Rightarrow> process list" where
  "set_end_time now e ps = ps[e := (ps ! e)\<lparr>proc_end_time := u64 (now + proc_remaining (ps ! e))\<rparr>]"

lemma set_rr_order: "lo \<le> from \<Longrightarrow> from \<le> hi \<Longrightarrow> set (rr_order lo hi from) = {lo..hi}"
  by (auto simp: rr_order_def)

lemma rr_spec_cases:
  "rr_spec ps lo hi prev cur \<in>
     {cur, IDLE_THREAD} \<union> set (rr_order lo hi (if cur = IDLE_THREAD then prev else cur))"
  unfolding rr_spec_def by (auto simp del: set_upt split: option.split dest!: find_SomeD)

lemma rr_from_in_ids:
  "part_ok i p \<Longrightarrow>
   (if part_current_thread p = IDLE_THREAD then part_prev_thread p else part_current_thread p)
     \<in> thread_ids i"
  by (auto simp: part_ok_def)

lemma rr_spec_range:
  assumes "part_ok i p"
  shows "rr_spec ps (part_low p) (part_high p) (part_prev_thread p) (part_current_thread p)
    \<in> insert IDLE_THREAD (thread_ids i)"
proof -
  have c: "part_low p = cfg_low i" "part_high p = cfg_high i"
    "part_current_thread p \<in> insert IDLE_THREAD (thread_ids i)"
    using assms by (auto simp: part_ok_def)
  let ?from = "if part_current_thread p = IDLE_THREAD then part_prev_thread p
    else part_current_thread p"
  have o: "set (rr_order (cfg_low i) (cfg_high i) ?from) = thread_ids i"
    using rr_from_in_ids [OF assms] unfolding thread_ids_def
    by (intro set_rr_order) simp_all
  define r where
    "r = rr_spec ps (cfg_low i) (cfg_high i) (part_prev_thread p) (part_current_thread p)"
  have "r \<in> {part_current_thread p, IDLE_THREAD} \<union> thread_ids i"
    unfolding r_def o [symmetric] by (rule rr_spec_cases)
  with c(3) have "r \<in> insert IDLE_THREAD (thread_ids i)" by blast
  then show ?thesis unfolding c(1,2) r_def .
qed

lemma call_sched_func_spec:
  assumes "i < POK_CONFIG_NB_PARTITIONS" and "part_ok i p"
    and "length ps = POK_CONFIG_NB_THREADS + 2"
  shows "call_sched_func (part_sched_func p) ps (part_low p) (part_high p)
      (part_prev_thread p) (part_current_thread p) =
    Some (rr_spec ps (part_low p) (part_high p) (part_prev_thread p) (part_current_thread p))"
proof -
  let ?cur = "part_current_thread p"
  let ?from = "if ?cur = IDLE_THREAD then part_prev_thread p else ?cur"
  have start: "?from \<in> thread_ids i" by (rule rr_from_in_ids [OF assms(2)])
  have f: "part_low p = cfg_low i" "part_high p = cfg_high i"
    "part_sched_func p = Fn_pok_sched_part_rr" "?cur = IDLE_THREAD \<or> ?cur \<in> thread_ids i"
    using assms(2) by (simp_all add: part_ok_def)
  have b: "cfg_high i < POK_CONFIG_NB_THREADS" using cfg_bounds [OF assms(1)] by simp
  have "pok_sched_part_rr ps (cfg_low i) (cfg_high i) (part_prev_thread p) ?cur =
      Some (rr_spec ps (cfg_low i) (cfg_high i) (part_prev_thread p) ?cur)"
  proof (rule pok_sched_part_rr_spec [OF refl])
    show "cfg_low i \<le> ?from" "?from \<le> cfg_high i" using start by (simp_all add: thread_ids_def)
    show "cfg_high i < 2 ^ 32 - 1" "cfg_high i < length ps"
      using b assms(3) by (simp_all add: POK_CONFIG_NB_THREADS_def)
    show "?cur < length ps"
      using f(4) assms(3) thread_ids_bound [OF assms(1), of ?cur] by (auto simp: IDLE_THREAD_def)
  qed
  with f show ?thesis by simp
qed

lemma charge_current_spec:
  assumes "current_partition s < length (part_array s)" and "current_thread s < length (proc_array s)"
  shows "charge_current s = Some (s\<lparr>proc_array := charged s (proc_array s)\<rparr>)"
  using assms by (simp add: charge_current_def charged_def Let_def)

lemma inv_current_thread: "sched_inv s \<Longrightarrow> current_thread s \<le> IDLE_THREAD"
  using thread_ids_bound [of "current_partition s" "current_thread s"]
  by (auto simp: sched_inv_def running_ok_def Let_def IDLE_THREAD_def)

lemma elect_spec_kept:
  assumes inv: "sched_inv s" and p: "p < POK_CONFIG_NB_PARTITIONS"
    and e: "elect_spec p s = (ps, e)"
  shows "procs_kept (proc_array s) ps"
    and "e \<in> insert IDLE_THREAD (thread_ids p)"
    and "init_mode (part_mode (part_array s ! p)) \<Longrightarrow> e = part_thread_main (part_array s ! p)"
proof -
  let ?np = "part_array s ! p"
  let ?ws = "wake_range (pok_tick_counter s) (part_low ?np) (part_nthreads ?np) (proc_array s)"
  note len = sched_invD(2) [OF inv]
  have ok: "part_ok p ?np" by (rule sched_invD(3) [OF inv p])
  have w: "procs_kept (proc_array s) ?ws"
    using ok cfg_bounds [OF p] len
    by (intro procs_kept_wake) (auto simp: part_ok_def IDLE_THREAD_def)
  have "current_thread s < length ?ws"
    using inv_current_thread [OF inv] len by (simp add: IDLE_THREAD_def)
  with w have c: "procs_kept (proc_array s) (charged s ?ws)"
    by (blast intro: procs_kept_trans procs_kept_charged)
  show "procs_kept (proc_array s) ps"
    using e w c by (auto simp: elect_spec_def Let_def split: if_splits)
  show "e \<in> insert IDLE_THREAD (thread_ids p)"
  proof (cases "init_mode (part_mode ?np)")
    case True
    with e ok main_in_ids [OF p] show ?thesis by (simp add: elect_spec_def Let_def part_ok_def)
  next
    case False
    with e rr_spec_range [OF ok] show ?thesis by (auto simp only: elect_spec_def Let_def if_False prod.inject)
  qed
  show "init_mode (part_mode ?np) \<Longrightarrow> e = part_thread_main ?np"
    using e by (simp add: elect_spec_def Let_def)
qed

lemma pok_elect_thread_spec:
  assumes inv: "sched_inv s" and p: "p < POK_CONFIG_NB_PARTITIONS"
    and e: "elect_spec p s = (ps, e)"
  shows "pok_elect_thread p s =
     Some (s\<lparr>proc_array := set_end_time (pok_tick_counter s) e ps\<rparr>, e)"
proof -
  let ?np = "part_array s ! p"
  let ?ws = "wake_range (pok_tick_counter s) (part_low ?np) (part_nthreads ?np) (proc_array s)"
  let ?s = "s\<lparr>proc_array := ?ws\<rparr>"
  note len = sched_invD(1,2) [OF inv]
  have ok: "part_ok p ?np" by (rule sched_invD(3) [OF inv p])
  have loop: "for_each [0..<part_nthreads ?np]
      (\<lambda>i s'. upd_proc (u32 (part_low ?np + i)) (wake_up (pok_tick_counter s)) s') s = Some ?s"
    using ok cfg_bounds [OF p] len
    by (intro wake_loop) (auto simp: part_ok_def POK_CONFIG_NB_THREADS_def)
  have ct: "current_thread ?s < length (proc_array ?s)"
    using inv_current_thread [OF inv] len by (simp add: IDLE_THREAD_def)
  have charge: "charge_current ?s = Some (s\<lparr>proc_array := charged s ?ws\<rparr>)"
    using charge_current_spec [of ?s] ct sched_invD(5) [OF inv] len by (simp add: charged_def)
  have lc: "length (charged s ?ws) = POK_CONFIG_NB_THREADS + 2"
    using len by (simp add: charged_def Let_def)
  note call = call_sched_func_spec [OF p ok lc]
  have el: "e < length ps"
    using elect_spec_kept [OF inv p e] len thread_ids_bound [OF p, of e]
    by (auto simp: procs_kept_def IDLE_THREAD_def)
  have mode: "init_mode (part_mode ?np) \<or> part_mode ?np = PART_MODE_NORMAL"
    using ok by (simp add: part_ok_def)
  have np: "rd (part_array s) p = Some ?np" using p len by simp
  show ?thesis
  proof (cases "init_mode (part_mode ?np)")
    case True
    with e el np loop show ?thesis
      by (auto simp: pok_elect_thread_def elect_spec_def Let_def init_mode_def set_end_time_def)
  next
    case False
    then have n: "part_mode ?np = PART_MODE_NORMAL" using mode by simp
    from e False have e2: "ps = charged s ?ws"
      "rr_spec ps (part_low ?np) (part_high ?np) (part_prev_thread ?np) (part_current_thread ?np) = e"
      by (auto simp: elect_spec_def Let_def)
    show ?thesis
      using np loop charge call n el unfolding e2(1) [symmetric] e2(2)
      by (simp add: pok_elect_thread_def set_end_time_def)
  qed
qed

section \<open>The cyclic election of a partition\<close>

interpretation tl: slot_table pok_sched_slots POK_CONFIG_SCHEDULING_MAJOR_FRAME
  by unfold_locales (auto simp: config_defs)

text \<open>The variables of the cyclic schedule agree with the table at time \<open>n\<close>.\<close>

definition timeline :: "nat \<Rightarrow> sched_state \<Rightarrow> bool" where
  "timeline n s \<longleftrightarrow>
     current_slot s = n div 1000 mod 2 \<and> next_deadline s = (n div 1000 + 1) * 1000 \<and>
     next_major_frame s = (n div 2000 + 1) * 2000 \<and>
     current_partition s = pok_sched_slots_allocation ! (n div 1000 mod 2)"

lemma slots_length: "length pok_sched_slots = 2"
  by (simp add: pok_sched_slots_def)

lemma start_of_closed: "tl.start_of j = j * 1000"
proof (induction j)
  case 0
  then show ?case by simp
next
  case (Suc j)
  have "pok_sched_slots ! (j mod 2) = 1000"
    by (cases "even j") (auto simp: pok_sched_slots_def odd_iff_mod_2_eq_one)
  with Suc show ?case by (simp add: slots_length)
qed

lemma in_slot_closed: "tl.in_slot j n \<longleftrightarrow> j = n div 1000"
  unfolding tl.in_slot_def start_of_closed by (auto simp: div_nat_eqI)

text \<open>The closed form is the slot table's own numbering of the activations.\<close>

lemma timeline_slot:
  "timeline n s \<longleftrightarrow> (\<exists>j. tl.in_slot j n \<and> current_slot s = j mod POK_CONFIG_SCHEDULING_NBSLOTS \<and>
     next_deadline s = tl.start_of (Suc j) \<and>
     next_major_frame s = (j div POK_CONFIG_SCHEDULING_NBSLOTS + 1) * POK_CONFIG_SCHEDULING_MAJOR_FRAME \<and>
     current_partition s = pok_sched_slots_allocation ! (j mod POK_CONFIG_SCHEDULING_NBSLOTS))"
  unfolding in_slot_closed start_of_closed timeline_def
  by (simp add: POK_CONFIG_SCHEDULING_NBSLOTS_def POK_CONFIG_SCHEDULING_MAJOR_FRAME_def
      div_mult2_eq [symmetric])

lemma elect_partition_same_time:
  "next_deadline s > pok_tick_counter s \<Longrightarrow> pok_elect_partition s = Some (s, current_partition s)"
  by (simp add: pok_elect_partition_def)

lemma timeline_deadline: "timeline n s \<Longrightarrow> n < next_deadline s"
proof -
  have "n < (n div 1000 + 1) * 1000" using dividend_less_div_times [of 1000 n] by simp
  then show "timeline n s \<Longrightarrow> n < next_deadline s" by (simp add: timeline_def)
qed

lemma pok_elect_partition_change:
  assumes "next_deadline s \<le> pok_tick_counter s"
  shows "pok_elect_partition s =
    Some (s\<lparr>next_major_frame := (if next_major_frame s \<le> pok_tick_counter s
                                  then u64 (next_major_frame s + 2000) else next_major_frame s),
            current_slot := Suc (current_slot s) mod 2,
            next_deadline := u64 (next_deadline s + 1000)\<rparr>,
          pok_sched_slots_allocation ! (Suc (current_slot s) mod 2))"
proof -
  define sl where "sl = Suc (current_slot s) mod 2"
  have sl: "sl < 2" "u8 sl = sl" by (simp_all add: sl_def)
  then have "pok_sched_slots ! sl = 1000"
    by (cases "sl = 0") (auto simp: pok_sched_slots_def less_2_cases_iff)
  moreover have "rd pok_sched_slots sl = Some (pok_sched_slots ! sl)"
    "rd pok_sched_slots_allocation sl = Some (pok_sched_slots_allocation ! sl)"
    using sl by (simp_all add: pok_sched_slots_def pok_sched_slots_allocation_def)
  ultimately show ?thesis
    using assms sl
    by (simp add: pok_elect_partition_def Let_def POK_CONFIG_SCHEDULING_NBSLOTS_def
        POK_CONFIG_SCHEDULING_MAJOR_FRAME_def sl_def [symmetric])
qed

lemma slot_partition: "pok_sched_slots_allocation ! (k mod 2) < POK_CONFIG_NB_PARTITIONS"
  by (cases "even k")
     (auto simp: pok_sched_slots_allocation_def POK_CONFIG_NB_PARTITIONS_def odd_iff_mod_2_eq_one)

lemma pok_elect_partition_total:
  assumes "current_partition s < POK_CONFIG_NB_PARTITIONS"
  shows "\<exists>m sl d p. pok_elect_partition s =
      Some (s\<lparr>next_major_frame := m, current_slot := sl, next_deadline := d\<rparr>, p) \<and>
    p < POK_CONFIG_NB_PARTITIONS"
proof (cases "next_deadline s \<le> pok_tick_counter s")
  case True
  show ?thesis
    unfolding pok_elect_partition_change [OF True] using slot_partition by blast
next
  case False
  with assms show ?thesis
    by (intro exI [of _ "next_major_frame s"] exI [of _ "current_slot s"] exI [of _ "next_deadline s"]
        exI [of _ "current_partition s"]) (simp add: pok_elect_partition_def)
qed

text \<open>
  One step of time: the election moves the variables of the schedule from time \<open>n\<close> to \<open>n + 1\<close>.
  At the end of a slot the deadline is the current time, and the major frame ends with the slot
  or later (\<open>tl.frame_boundary\<close>).
\<close>

lemma elect_partition_tick:
  assumes tl: "timeline n s" and now: "pok_tick_counter s = Suc n" and range: "Suc n + 4000 < 2 ^ 64"
    and el: "pok_elect_partition s = Some (t, p)"
  shows "timeline (Suc n) (t\<lparr>current_partition := p\<rparr>)"
proof (cases "next_deadline s \<le> Suc n")
  case False
  then have "Suc n div 1000 = n div 1000"
    using tl by (intro div_nat_eqI) (auto simp: timeline_def intro: order_trans [OF div_times_less_eq_dividend])
  moreover have "Suc n div 2000 = Suc n div 1000 div 2" "n div 2000 = n div 1000 div 2"
    by (simp_all add: div_mult2_eq [symmetric])
  moreover have "t = s" "p = current_partition s"
    using False el now by (auto simp: elect_partition_same_time)
  ultimately show ?thesis using tl by (simp add: timeline_def)
next
  case True
  define j where "j = n div 1000"
  have n: "Suc n = Suc j * 1000"
    using True tl timeline_deadline [OF tl] by (simp add: timeline_def j_def)
  then have j': "Suc n div 1000 = Suc j" by simp
  have d2: "Suc n div 2000 = Suc j div 2" "n div 2000 = j div 2"
    using j' by (simp_all add: j_def div_mult2_eq [symmetric])
  have major: "next_major_frame s \<le> Suc n \<longleftrightarrow> Suc j mod 2 = 0"
    using tl.frame_boundary [of j] tl unfolding start_of_closed slots_length
    by (simp add: timeline_def d2 n POK_CONFIG_SCHEDULING_MAJOR_FRAME_def)
  have half: "Suc j div 2 = (if Suc j mod 2 = 0 then Suc (j div 2) else j div 2)"
    by (simp add: div_Suc)
  have eqs: "current_slot s = j mod 2" "next_deadline s = Suc n" "next_major_frame s = (j div 2 + 1) * 2000"
    using tl n by (simp_all add: timeline_def j_def [symmetric] d2)
  have "Suc (j mod 2) mod 2 = Suc j mod 2" by (simp add: mod_Suc_eq)
  moreover have "(j div 2 + 1) * 2000 + 2000 < 2 ^ 64"
    using range n div_times_less_eq_dividend [of j 2] by simp
  ultimately show ?thesis
    using el True now major half range
    unfolding timeline_def j' d2 pok_elect_partition_change [OF True [folded now]] eqs
    by (auto simp: n)
qed

section \<open>A scheduling decision\<close>

definition switch_calls :: "process list \<Rightarrow> nat \<Rightarrow> nat \<Rightarrow> tcb_call list" where
  "switch_calls ps a b =
     (if a = b then []
      else (if proc_ktcb (ps ! a) \<noteq> 0 then [TCB_Suspend (proc_ktcb (ps ! a))] else []) @
           (if proc_ktcb (ps ! b) \<noteq> 0 then [TCB_Resume (proc_ktcb (ps ! b))] else []))"

text \<open>The TCBs resumed and not suspended since.\<close>

primrec tcb_effect :: "tcb_call \<Rightarrow> nat set \<Rightarrow> nat set" where
  "tcb_effect (TCB_Suspend c) A = A - {c}"
| "tcb_effect (TCB_Resume c) A = insert c A"

definition active_tcbs :: "tcb_call list \<Rightarrow> nat set" where
  "active_tcbs calls = fold tcb_effect calls {}"

definition only_current :: "sched_state \<Rightarrow> bool" where
  "only_current s \<longleftrightarrow> active_tcbs (kcalls s) \<subseteq> {proc_ktcb (proc_array s ! current_thread s)} - {0}"

lemma active_tcbs_append: "active_tcbs (cs @ ds) = fold tcb_effect ds (active_tcbs cs)"
  by (simp add: active_tcbs_def)

lemma active_after_switch:
  "A \<subseteq> {proc_ktcb (ps ! a)} - {0} \<Longrightarrow>
   fold tcb_effect (switch_calls ps a b) A \<subseteq> {proc_ktcb (ps ! b)} - {0}"
  by (auto simp: switch_calls_def)

lemma context_switch_spec:
  "a < length (proc_array s) \<Longrightarrow> b < length (proc_array s) \<Longrightarrow>
   pok_sched_context_switch a b s = Some (s\<lparr>kcalls := kcalls s @ switch_calls (proc_array s) a b\<rparr>)"
  by (simp add: pok_sched_context_switch_def switch_calls_def)

lemma elect_spec_cong:
  "part_array t = part_array s \<Longrightarrow> proc_array t = proc_array s \<Longrightarrow>
   pok_tick_counter t = pok_tick_counter s \<Longrightarrow> current_thread t = current_thread s \<Longrightarrow>
   current_partition t = current_partition s \<Longrightarrow> elect_spec p t = elect_spec p s"
  by (simp add: elect_spec_def charged_def Let_def)

lemma sched_inv_cong:
  "part_array t = part_array s \<Longrightarrow> proc_array t = proc_array s \<Longrightarrow>
   current_thread t = current_thread s \<Longrightarrow>
   current_partition t = current_partition s \<Longrightarrow> sched_inv t = sched_inv s"
  by (simp add: sched_inv_def running_ok_def)

lemma procs_kept_end_time:
  "e < length ps \<Longrightarrow> procs_kept ps (set_end_time now e ps)"
  unfolding set_end_time_def by (rule procs_kept_upd) auto

lemma pok_sched_cases:
  assumes inv: "sched_inv s"
  obtains t p ps e s' where
    "pok_elect_partition s = Some (t, p)" "p < POK_CONFIG_NB_PARTITIONS"
    "elect_spec p s = (ps, e)" "pok_sched s = Some s'"
    "part_array s' = (part_array s)[p := note_elected e (part_array s ! p)]"
    "proc_array s' = set_end_time (pok_tick_counter s) e ps"
    "current_partition s' = p" "current_thread s' = e" "pok_tick_counter s' = pok_tick_counter s"
    "next_deadline s' = next_deadline t" "next_major_frame s' = next_major_frame t"
    "current_slot s' = current_slot t"
    "kcalls s' = kcalls s @ switch_calls (proc_array s') (current_thread s) e"
proof -
  from pok_elect_partition_total [OF sched_invD(5) [OF inv]] obtain m sl d p where
    el: "pok_elect_partition s =
      Some (s\<lparr>next_major_frame := m, current_slot := sl, next_deadline := d\<rparr>, p)"
    and p: "p < POK_CONFIG_NB_PARTITIONS" by blast
  let ?t = "s\<lparr>next_major_frame := m, current_slot := sl, next_deadline := d\<rparr>"
  obtain ps e where e: "elect_spec p s = (ps, e)" by fastforce
  have tinv: "sched_inv ?t" using inv by (subst sched_inv_cong [of ?t s]) simp_all
  have et: "elect_spec p ?t = (ps, e)" using e by (subst elect_spec_cong [of ?t s]) simp_all
  let ?qs = "set_end_time (pok_tick_counter s) e ps"
  have thr: "pok_elect_thread p ?t = Some (?t\<lparr>proc_array := ?qs\<rparr>, e)"
    using pok_elect_thread_spec [OF tinv p et] by simp
  have len: "length ps = POK_CONFIG_NB_THREADS + 2"
    using elect_spec_kept(1) [OF inv p e] sched_invD(2) [OF inv] by (simp add: procs_kept_def)
  have b: "e < length ?qs" "current_thread s < length ?qs"
    using elect_spec_kept(2) [OF inv p e] thread_ids_bound [OF p, of e] inv_current_thread [OF inv] len
    by (auto simp: set_end_time_def IDLE_THREAD_def)
  let ?s' = "?t\<lparr>proc_array := ?qs, current_thread := e, current_partition := p,
    part_array := (part_array s)[p := note_elected e (part_array s ! p)],
    kcalls := kcalls s @ switch_calls ?qs (current_thread s) e\<rparr>"
  have "pok_sched s = Some ?s'"
    using el thr p b sched_invD(1) [OF inv] by (simp add: pok_sched_def context_switch_spec)
  then show thesis by (rule that [OF el p e]) simp_all
qed

lemma note_elected_ok:
  assumes "part_ok i p" and "e \<in> insert IDLE_THREAD (thread_ids i)"
  shows "part_ok i (note_elected e p)"
  using assms by (auto simp: part_ok_def note_elected_def)

lemma note_elected_fields [simp]:
  "part_mode (note_elected e p) = part_mode p"
  "part_thread_main (note_elected e p) = part_thread_main p"
  "part_low (note_elected e p) = part_low p" "part_high (note_elected e p) = part_high p"
  "part_current_thread (note_elected e p) = e"
  by (simp_all add: note_elected_def)

lemma pok_sched_kept:
  assumes inv: "sched_inv s"
  shows "\<exists>s'. pok_sched s = Some s' \<and> sched_inv s' \<and> pok_tick_counter s' = pok_tick_counter s \<and>
     procs_kept (proc_array s) (proc_array s') \<and> (only_current s \<longrightarrow> only_current s')"
proof -
  from pok_sched_cases [OF inv] obtain t p ps e s' where
    p: "p < POK_CONFIG_NB_PARTITIONS" and e: "elect_spec p s = (ps, e)" and
    s': "pok_sched s = Some s'"
      "part_array s' = (part_array s)[p := note_elected e (part_array s ! p)]"
      "proc_array s' = set_end_time (pok_tick_counter s) e ps"
      "current_partition s' = p" "current_thread s' = e" "pok_tick_counter s' = pok_tick_counter s"
      "kcalls s' = kcalls s @ switch_calls (proc_array s') (current_thread s) e"
    by metis
  note k = elect_spec_kept [OF inv p e] and len = sched_invD(1,2) [OF inv]
  have pl: "p < length (part_array s)" using p len by simp
  have "e < length ps"
    using k thread_ids_bound [OF p, of e] len by (auto simp: procs_kept_def IDLE_THREAD_def)
  then have kept: "procs_kept (proc_array s) (proc_array s')"
    unfolding s'(3) using k(1) procs_kept_end_time procs_kept_trans by blast
  have parts: "part_ok i (part_array s' ! i)" if "i < POK_CONFIG_NB_PARTITIONS" for i
    unfolding s'(2) using that pl note_elected_ok [OF sched_invD(3) [OF inv p] k(2)]
      sched_invD(3) [OF inv that] by (cases "p = i") simp_all
  have "running_ok s'"
    using k(2,3) pl by (auto simp: running_ok_def s'(2,4,5))
  with parts kept p len sched_invD(4) [OF inv] have "sched_inv s'"
    by (simp add: sched_inv_def s'(2,4) procs_kept_def)
  moreover have "only_current s'" if "only_current s"
  proof -
    have "proc_ktcb (proc_array s ! current_thread s) = proc_ktcb (proc_array s' ! current_thread s)"
      using kept inv_current_thread [OF inv] len by (simp add: procs_kept_def IDLE_THREAD_def)
    with that show ?thesis
      unfolding only_current_def s'(5,7) active_tcbs_append by (intro active_after_switch) simp
  qed
  ultimately show ?thesis using s' kept by blast
qed

lemma timeline_cong:
  "current_slot t = current_slot s \<Longrightarrow> next_deadline t = next_deadline s \<Longrightarrow>
   next_major_frame t = next_major_frame s \<Longrightarrow> current_partition t = current_partition s \<Longrightarrow>
   timeline n t = timeline n s"
  by (simp add: timeline_def)

lemma pok_sched_timeline:
  assumes inv: "sched_inv s" and tl: "timeline n s" and r: "pok_sched s = Some s'"
    and now: "pok_tick_counter s = n \<or> pok_tick_counter s = Suc n \<and> Suc n + 4000 < 2 ^ 64"
  shows "timeline (pok_tick_counter s) s'"
proof -
  from pok_sched_cases [OF inv] r obtain t p where
    el: "pok_elect_partition s = Some (t, p)" and
    s': "current_partition s' = p" "next_deadline s' = next_deadline t"
      "next_major_frame s' = next_major_frame t" "current_slot s' = current_slot t"
    by (metis option.inject)
  have "timeline m s' = timeline m (t\<lparr>current_partition := p\<rparr>)" for m
    by (rule timeline_cong) (simp_all add: s')
  moreover have "timeline (pok_tick_counter s) (t\<lparr>current_partition := p\<rparr>)"
  proof (cases "pok_tick_counter s = n")
    case True
    with timeline_deadline [OF tl] el have "t = s" "p = current_partition s"
      by (auto simp: elect_partition_same_time)
    with tl True show ?thesis by simp
  next
    case False
    with now elect_partition_tick [OF tl _ _ el] show ?thesis by auto
  qed
  ultimately show ?thesis by simp
qed

text \<open>At the same instant the election of a partition does not change its mind.\<close>

lemma pok_sched_same_partition:
  assumes inv: "sched_inv s" and tl: "timeline (pok_tick_counter s) s" and r: "pok_sched s = Some s'"
  shows "current_partition s' = current_partition s"
  using pok_sched_timeline [OF inv tl r] tl by (simp add: timeline_def)

lemma pok_sched_other_partition:
  assumes inv: "sched_inv s" and r: "pok_sched s = Some s'"
    and q: "q < POK_CONFIG_NB_PARTITIONS" "q \<noteq> current_partition s'"
  shows "part_array s' ! q = part_array s ! q"
  using pok_sched_cases [OF inv] r q by (metis nth_list_update_neq option.inject)

lemma pok_sched_mode:
  assumes inv: "sched_inv s" and r: "pok_sched s = Some s'"
  shows "part_mode (part_array s' ! q) = part_mode (part_array s ! q)"
proof -
  obtain p e where "p < POK_CONFIG_NB_PARTITIONS"
    "part_array s' = (part_array s)[p := note_elected e (part_array s ! p)]"
    using pok_sched_cases [OF inv] r by (metis option.inject)
  then show ?thesis using sched_invD(1) [OF inv] by (cases "p = q") auto
qed

section \<open>Isolation of the partitions\<close>

text \<open>The records of partition \<open>q\<close> and of its threads are the same in both states.\<close>

definition part_untouched :: "nat \<Rightarrow> sched_state \<Rightarrow> sched_state \<Rightarrow> bool" where
  "part_untouched q s s' \<longleftrightarrow> part_array s' ! q = part_array s ! q \<and>
     (\<forall>j \<in> thread_ids q. proc_array s' ! j = proc_array s ! j)"

lemma part_untouched_refl: "part_untouched q s s"
  by (simp add: part_untouched_def)

lemma part_untouched_trans: "part_untouched q s t \<Longrightarrow> part_untouched q t u \<Longrightarrow> part_untouched q s u"
  by (simp add: part_untouched_def)

lemma pok_sched_isolation:
  assumes inv: "sched_inv s" and tl: "timeline (pok_tick_counter s) s" and r: "pok_sched s = Some s'"
    and q: "q < POK_CONFIG_NB_PARTITIONS" "q \<noteq> current_partition s"
  shows "part_untouched q s s'"
proof -
  from pok_sched_cases [OF inv] r obtain p ps e where
    p: "p < POK_CONFIG_NB_PARTITIONS" and e: "elect_spec p s = (ps, e)" and
    s': "part_array s' = (part_array s)[p := note_elected e (part_array s ! p)]"
      "proc_array s' = set_end_time (pok_tick_counter s) e ps" "current_partition s' = p"
    by (metis option.inject)
  have pc: "p = current_partition s"
    using pok_sched_same_partition [OF inv tl r] s'(3) by simp
  have ok: "part_ok p (part_array s ! p)" by (rule sched_invD(3) [OF inv p])
  have "proc_array s' ! j = proc_array s ! j" if j: "j \<in> thread_ids q" for j
  proof -
    have jb: "j < POK_CONFIG_NB_THREADS" by (rule thread_ids_bound [OF q(1) j])
    have out: "j \<notin> thread_ids p" "j \<noteq> IDLE_THREAD"
      using thread_ids_disjoint [OF q(1) p] q(2) pc j jb by (auto simp: IDLE_THREAD_def)
    have "j \<noteq> e" using elect_spec_kept(2) [OF inv p e] out by auto
    moreover have "j \<noteq> current_thread s"
      using sched_invD(6) [OF inv] out pc by (auto simp: running_ok_def Let_def)
    moreover have "\<not> (part_low (part_array s ! p) \<le> j \<and>
        j < part_low (part_array s ! p) + part_nthreads (part_array s ! p))"
      using ok out(1) cfg_bounds [OF p] by (auto simp: part_ok_def thread_ids_def)
    ultimately show ?thesis
      using e jb sched_invD(2) [OF inv] unfolding s'(2)
      by (auto simp: elect_spec_def Let_def set_end_time_def charged_def nth_wake_range split: if_splits)
  qed
  with s'(1) q(2) pc show ?thesis by (simp add: part_untouched_def)
qed

section \<open>The invariant over time\<close>

text \<open>
  \<open>sys_inv n s\<close>: after \<open>n\<close> timer ticks the state \<open>s\<close> is well formed, at most the TCB of the
  current thread is active, and the variables of the cyclic schedule are those of time \<open>n\<close>
  as long as the 64-bit deadlines do not wrap around.
\<close>

definition sys_inv :: "nat \<Rightarrow> sched_state \<Rightarrow> bool" where
  "sys_inv n s \<longleftrightarrow> sched_inv s \<and> only_current s \<and> pok_tick_counter s = u64 n \<and>
     (n + 4000 < 2 ^ 64 \<longrightarrow> timeline n s)"

lemma sched_inv_procs:
  "sched_inv s \<Longrightarrow> procs_kept (proc_array s) ps \<Longrightarrow> sched_inv (s\<lparr>proc_array := ps\<rparr>)"
  by (simp add: sched_inv_def procs_kept_def running_ok_def)

lemma only_current_procs:
  "sched_inv s \<Longrightarrow> only_current s \<Longrightarrow> procs_kept (proc_array s) ps \<Longrightarrow>
   only_current (s\<lparr>proc_array := ps\<rparr>)"
  using inv_current_thread [of s]
  by (simp add: only_current_def procs_kept_def sched_inv_def IDLE_THREAD_def)

lemma sys_inv_procs:
  "sys_inv n s \<Longrightarrow> procs_kept (proc_array s) ps \<Longrightarrow> sys_inv n (s\<lparr>proc_array := ps\<rparr>)"
  by (simp add: sys_inv_def sched_inv_procs only_current_procs
      timeline_cong [of "s\<lparr>proc_array := ps\<rparr>" s])

lemma sys_inv_sched:
  assumes "sys_inv n s"
  shows "\<exists>s'. pok_sched s = Some s' \<and> sys_inv n s'"
proof -
  have inv: "sched_inv s" and tick: "pok_tick_counter s = u64 n" using assms by (simp_all add: sys_inv_def)
  from pok_sched_kept [OF inv] assms obtain s' where
    s': "pok_sched s = Some s'" "sched_inv s'" "pok_tick_counter s' = u64 n" "only_current s'"
    by (auto simp: sys_inv_def)
  have "timeline n s'" if "n + 4000 < 2 ^ 64"
    using pok_sched_timeline [OF inv _ s'(1), of n] assms that tick by (simp add: sys_inv_def)
  with s' show ?thesis by (auto simp: sys_inv_def)
qed

lemma sys_inv_tick:
  assumes "sys_inv n s"
  shows "\<exists>s'. scheduler_tick s = Some s' \<and> sys_inv (Suc n) s'"
proof -
  let ?t = "s\<lparr>pok_tick_counter := u64 (pok_tick_counter s + 1)\<rparr>"
  have tick: "pok_tick_counter ?t = u64 (Suc n)"
    using assms by (simp add: sys_inv_def u64_def mod_Suc_eq)
  have inv: "sched_inv ?t" "only_current ?t"
    using assms sched_inv_cong [of ?t s] by (simp_all add: sys_inv_def only_current_def)
  from pok_sched_kept [OF inv(1)] inv(2) tick obtain s' where
    s': "pok_sched ?t = Some s'" "sched_inv s'" "pok_tick_counter s' = u64 (Suc n)" "only_current s'"
    by auto
  have "timeline (Suc n) s'" if "Suc n + 4000 < 2 ^ 64"
  proof -
    have "timeline n ?t"
      using assms that by (simp add: sys_inv_def timeline_def)
    from pok_sched_timeline [OF inv(1) this s'(1)] that tick show ?thesis by simp
  qed
  with s' show ?thesis by (auto simp: sys_inv_def scheduler_tick_def)
qed

section \<open>What is elected\<close>

lemma rr_spec_runnable:
  "rr_spec ps lo hi prev cur = IDLE_THREAD \<or> runnable ps (rr_spec ps lo hi prev cur)"
  by (auto simp: rr_spec_def split: option.splits dest: find_SomeD)

lemma rr_spec_idle:
  assumes "part_ok i p" and "i < POK_CONFIG_NB_PARTITIONS" and "idle_ok (ps ! IDLE_THREAD)"
    and "rr_spec ps (part_low p) (part_high p) (part_prev_thread p) (part_current_thread p) = IDLE_THREAD"
  shows "\<forall>j \<in> thread_ids i. \<not> runnable ps j"
proof -
  let ?from = "if part_current_thread p = IDLE_THREAD then part_prev_thread p else part_current_thread p"
  have c: "part_low p = cfg_low i" "part_high p = cfg_high i" using assms(1) by (simp_all add: part_ok_def)
  have o: "set (rr_order (part_low p) (part_high p) ?from) = thread_ids i"
    using rr_from_in_ids [OF assms(1)] unfolding thread_ids_def c by (intro set_rr_order) simp_all
  have idle: "IDLE_THREAD \<notin> thread_ids i"
    using thread_ids_bound [OF assms(2), of IDLE_THREAD] by (auto simp: IDLE_THREAD_def)
  have "find (runnable ps) (rr_order (part_low p) (part_high p) ?from) = None"
  proof (cases "find (runnable ps) (rr_order (part_low p) (part_high p) ?from)")
    case (Some j)
    with find_SomeD [OF Some] o idle have "j \<noteq> IDLE_THREAD" by auto
    with Some assms(3,4) show ?thesis by (auto simp: rr_spec_def idle_ok_def split: if_splits)
  qed
  with o show ?thesis by (auto simp: find_None_iff)
qed

lemma set_end_time_status [simp]:
  "e < length ps \<Longrightarrow> proc_status (set_end_time now e ps ! j) = proc_status (ps ! j)"
  by (cases "j = e") (simp_all add: set_end_time_def)

lemma runnable_end_time: "e < length ps \<Longrightarrow> runnable (set_end_time now e ps) j = runnable ps j"
  by (simp add: runnable_def)

text \<open>
  In normal mode the decision is work-conserving: the elected thread can run, and the idle
  thread is elected only when no thread of the partition can.
\<close>

lemma pok_sched_elects_runnable:
  assumes inv: "sched_inv s" and r: "pok_sched s = Some s'"
    and mode: "part_mode (part_array s ! current_partition s') = PART_MODE_NORMAL"
  shows "if current_thread s' = IDLE_THREAD
    then \<forall>j \<in> thread_ids (current_partition s'). \<not> runnable (proc_array s') j
    else runnable (proc_array s') (current_thread s')"
proof -
  from pok_sched_cases [OF inv] r obtain p ps e where
    p: "p < POK_CONFIG_NB_PARTITIONS" and e: "elect_spec p s = (ps, e)" and
    s': "proc_array s' = set_end_time (pok_tick_counter s) e ps" "current_partition s' = p"
      "current_thread s' = e"
    by (metis option.inject)
  have kept: "procs_kept (proc_array s) ps" by (rule elect_spec_kept(1) [OF inv p e])
  have el: "e < length ps"
    using elect_spec_kept(2) [OF inv p e] thread_ids_bound [OF p, of e] sched_invD(2) [OF inv] kept
    by (auto simp: procs_kept_def IDLE_THREAD_def)
  let ?np = "part_array s ! p"
  have eq: "e = rr_spec ps (part_low ?np) (part_high ?np) (part_prev_thread ?np) (part_current_thread ?np)"
    using e mode s'(2) by (auto simp: elect_spec_def Let_def init_mode_def)
  have idle: "idle_ok (ps ! IDLE_THREAD)"
    using kept sched_invD(4) [OF inv] by (simp add: procs_kept_def)
  have run: "e = IDLE_THREAD \<or> runnable ps e" unfolding eq by (rule rr_spec_runnable)
  show ?thesis
    using rr_spec_idle [OF sched_invD(3) [OF inv p] p idle, folded eq] run
    unfolding s' runnable_end_time [OF el] by auto
qed

text \<open>
  C5 (round robin).  The loop of \<open>pok_sched_part_rr\<close> always ends and computes the reference policy:
  the current thread keeps running while it is runnable and has budget left; otherwise the next
  runnable thread in cyclic order after it is elected, and the idle thread if there is none.
\<close>

theorem round_robin_equiv:
  assumes "from = (if cur = IDLE_THREAD then prev else cur)" "lo \<le> from" "from \<le> hi"
    and "hi < 2 ^ 32 - 1" "hi < length procs" "cur < length procs"
  shows "pok_sched_part_rr procs lo hi prev cur = Some (rr_spec procs lo hi prev cur)"
  using pok_sched_part_rr_spec [OF assms] .

theorem round_robin_equiv_witness:
  "pok_sched_part_rr [zero_process, zero_process\<lparr>proc_status := POK_STATE_RUNNABLE\<rparr>] 0 1 0 0 = Some 1"
  using round_robin_equiv [of 0 0 0 0 1 "[zero_process, zero_process\<lparr>proc_status := POK_STATE_RUNNABLE\<rparr>]"]
  by (simp add: rr_spec_def rr_order_def runnable_def zero_process_def IDLE_THREAD_def POK_CONFIG_NB_THREADS_def)

end
