(* ===== verification/Refos.thy ===== *)
theory Refos
  imports Prelude
begin

text \<open>
  Definitions shared by the RefOS services of the process server: the error codes of
  \<open>refos/error.h\<close>, the page arithmetic of \<open>refos/refos.h\<close> and the badge space of
  \<open>process_server/src/badge.h\<close>.
\<close>

datatype refos_error = ESUCCESS | ENOMEM | EINVALID | EUNKNOWNCLIENT | EINVALIDPARAM
  | ESERVERNOTFOUND | EINVALIDWINDOW | ESERVICEUNAVAILABLE | EACCESSDENIED | EUNMAPFIRST
  | EFILENOTFOUND | EENDOFFILE | EDEVICENOTFOUND | ENOPARAMBUFFER | EUNIMPLEMENTED | EDELEGATED

definition REFOS_PAGE_SIZE :: nat where "REFOS_PAGE_SIZE = 4096"

definition REFOS_PAGE_ALIGN :: "nat \<Rightarrow> nat" where
  "REFOS_PAGE_ALIGN x = x - x mod REFOS_PAGE_SIZE"

definition refos_round_up_npages :: "nat \<Rightarrow> nat" where
  "refos_round_up_npages sz =
     sz div REFOS_PAGE_SIZE + (if sz mod REFOS_PAGE_SIZE \<noteq> 0 then 1 else 0)"

text \<open>Reserved slots of the capability space.\<close>

definition REFOS_CSPACE :: nat where "REFOS_CSPACE = 2"
definition REFOS_CSPACE_DEPTH :: nat where "REFOS_CSPACE_DEPTH = 32"
definition REFOS_THREAD_CAP_RECV :: nat where "REFOS_THREAD_CAP_RECV = 6"

text \<open>The permissions of a process (\<open>process.h\<close>).\<close>

definition PROCESS_PERMISSION_DEVICE_MAP :: nat where "PROCESS_PERMISSION_DEVICE_MAP = 1"
definition PROCESS_PERMISSION_DEVICE_IRQ :: nat where "PROCESS_PERMISSION_DEVICE_IRQ = 2"
definition PROCESS_PERMISSION_DEVICE_IOPORT :: nat where "PROCESS_PERMISSION_DEVICE_IOPORT = 4"

section \<open>Badge space\<close>

definition PID_NULL :: nat where "PID_NULL = 0"
definition PID_MAX :: nat where "PID_MAX = 2048"
definition PID_BADGE_BASE :: nat where "PID_BADGE_BASE = 3"
definition PID_BADGE_END :: nat where "PID_BADGE_END = PID_BADGE_BASE + PID_MAX"
definition PID_LIVENESS_BADGE_BASE :: nat where "PID_LIVENESS_BADGE_BASE = PID_BADGE_END"
definition PID_LIVENESS_BADGE_END :: nat where
  "PID_LIVENESS_BADGE_END = PID_LIVENESS_BADGE_BASE + PID_MAX"
definition W_MAX_WINDOWS :: nat where "W_MAX_WINDOWS = 8192"
definition W_MAX_ASSOCIATED_WINDOWS :: nat where "W_MAX_ASSOCIATED_WINDOWS = 2048"
definition W_BADGE_BASE :: nat where "W_BADGE_BASE = PID_LIVENESS_BADGE_END"
definition W_BADGE_END :: nat where "W_BADGE_END = W_BADGE_BASE + W_MAX_WINDOWS"
definition RAM_DATASPACE_MAX_NUM_DATASPACE :: nat where "RAM_DATASPACE_MAX_NUM_DATASPACE = 8192"
definition RAM_DATASPACE_BADGE_BASE :: nat where "RAM_DATASPACE_BADGE_BASE = W_BADGE_END"
definition RAM_DATASPACE_BADGE_END :: nat where
  "RAM_DATASPACE_BADGE_END = RAM_DATASPACE_BADGE_BASE + RAM_DATASPACE_MAX_NUM_DATASPACE"

lemmas badge_defs = PID_MAX_def PID_BADGE_BASE_def PID_BADGE_END_def PID_LIVENESS_BADGE_BASE_def
  PID_LIVENESS_BADGE_END_def W_MAX_WINDOWS_def W_BADGE_BASE_def W_BADGE_END_def
  RAM_DATASPACE_MAX_NUM_DATASPACE_def RAM_DATASPACE_BADGE_BASE_def RAM_DATASPACE_BADGE_END_def

text \<open>The classification of a badge (\<open>dispatcher.h\<close>).\<close>

definition dispatcher_badge_PID :: "nat \<Rightarrow> bool" where
  "dispatcher_badge_PID badge \<longleftrightarrow> badge \<ge> PID_BADGE_BASE \<and> badge < PID_BADGE_END"

definition dispatcher_badge_liveness :: "nat \<Rightarrow> bool" where
  "dispatcher_badge_liveness badge \<longleftrightarrow>
     badge \<ge> PID_LIVENESS_BADGE_BASE \<and> badge < PID_LIVENESS_BADGE_END"

definition dispatcher_badge_window :: "nat \<Rightarrow> bool" where
  "dispatcher_badge_window badge \<longleftrightarrow> badge \<ge> W_BADGE_BASE \<and> badge < W_BADGE_END"

definition dispatcher_badge_dspace :: "nat \<Rightarrow> bool" where
  "dispatcher_badge_dspace badge \<longleftrightarrow>
     badge \<ge> RAM_DATASPACE_BADGE_BASE \<and> badge < RAM_DATASPACE_BADGE_END"

section \<open>Page arithmetic\<close>

lemma npages_cover: "sz \<le> refos_round_up_npages sz * REFOS_PAGE_SIZE"
proof -
  define q r where "q = sz div 4096" and "r = sz mod 4096"
  have "sz = q * 4096 + r" "r < 4096" by (simp_all add: q_def r_def)
  then show ?thesis
    by (auto simp: refos_round_up_npages_def REFOS_PAGE_SIZE_def q_def [symmetric] r_def [symmetric])
qed

lemma npages_least: "sz \<le> k * REFOS_PAGE_SIZE \<Longrightarrow> refos_round_up_npages sz \<le> k"
proof -
  assume a: "sz \<le> k * REFOS_PAGE_SIZE"
  have d: "sz = REFOS_PAGE_SIZE * (sz div REFOS_PAGE_SIZE) + sz mod REFOS_PAGE_SIZE" by simp
  show ?thesis
  proof (cases "sz mod REFOS_PAGE_SIZE = 0")
    case True
    with a d show ?thesis by (simp add: refos_round_up_npages_def REFOS_PAGE_SIZE_def)
  next
    case False
    then have "REFOS_PAGE_SIZE * (sz div REFOS_PAGE_SIZE) < sz" using d by linarith
    with a have "sz div REFOS_PAGE_SIZE < k" by (simp add: REFOS_PAGE_SIZE_def)
    with False show ?thesis by (simp add: refos_round_up_npages_def)
  qed
qed

lemma page_align_bounds:
  "REFOS_PAGE_ALIGN x \<le> x" "x < REFOS_PAGE_ALIGN x + REFOS_PAGE_SIZE"
  by (auto simp: REFOS_PAGE_ALIGN_def REFOS_PAGE_SIZE_def)

lemma page_align_div: "REFOS_PAGE_ALIGN x = REFOS_PAGE_SIZE * (x div REFOS_PAGE_SIZE)"
  by (simp add: REFOS_PAGE_ALIGN_def minus_mod_eq_mult_div)

end
