(* ===== verification/Partition.thy ===== *)
theory Partition
  imports Sched Refos
begin

text \<open>
  Initialisation of the partitions and threads (\<open>partition.c\<close>, \<open>partinit.c\<close>), the creation of
  a thread and the change of a partition's mode.

  Two services of the process server are arguments here: \<open>load\<close> is \<open>proc_load_direct\<close> (the
  result is the C error code) and \<open>tcb\<close> is \<open>get_tcb_cptr_from_pid\<close> on the process table of
  the moment (\<open>None\<close>: there is no such process or thread, and the C code dereferences a null
  pointer).
\<close>

type_synonym loader = "string \<Rightarrow> nat \<Rightarrow> string \<Rightarrow> nat \<Rightarrow> nat \<Rightarrow> int"
type_synonym tcb_table = "nat \<Rightarrow> nat \<Rightarrow> nat option"


section \<open>Initialisation\<close>

definition partition_setup_scheduler :: "nat \<Rightarrow> sched_state \<Rightarrow> sched_state option" where
  "partition_setup_scheduler pid s =
     upd_part pid (\<lambda>p. p\<lparr>part_sched_func := Fn_pok_sched_part_rr\<rparr>) s"

definition init_idle_thread :: "sched_state \<Rightarrow> sched_state option" where
  "init_idle_thread s = upd_proc IDLE_THREAD (\<lambda>t. t\<lparr>
     proc_period := 0, proc_deadline := 0, proc_timecap := 0, proc_next_activation := 0,
     proc_remaining := 0, proc_wakeup_time := 0, proc_entrypoint := Fn_pok_arch_idle,
     proc_base_priority := 0, proc_status := POK_STATE_RUNNABLE, proc_ktcb := 0,
     proc_name := ''IDLE_THREAD''\<rparr>) s"

definition init_kernel_thread :: "sched_state \<Rightarrow> sched_state option" where
  "init_kernel_thread s = upd_proc KERNEL_THREAD (\<lambda>t. t\<lparr>
     proc_prio := 0, proc_base_priority := 0, proc_status := POK_STATE_RUNNABLE,
     proc_next_activation := 0\<rparr>) s"

definition setup_main_thread :: "loader \<Rightarrow> nat \<Rightarrow> nat \<Rightarrow> sched_state \<Rightarrow> sched_state option" where
  "setup_main_thread load tid part_id s = do {
     s \<leftarrow> upd_proc tid (\<lambda>t. t\<lparr>
       proc_prio := 1, proc_base_priority := 1, proc_period := 0, proc_next_activation := 0,
       proc_timecap := 0, proc_remaining := 0, proc_status := POK_STATE_RUNNABLE,
       proc_wakeup_time := 0, proc_partition := u8 part_id\<rparr>) s;
     n \<leftarrow> rd main_name part_id;
     t \<leftarrow> rd (proc_array s) tid;
     c_assert (load ''selfloader'' (proc_prio t) n PID_NULL
       (PROCESS_PERMISSION_DEVICE_IRQ + PROCESS_PERMISSION_DEVICE_MAP +
        PROCESS_PERMISSION_DEVICE_IOPORT) = 0);
     Some s
   }"

definition setup_main_thread_ktcb :: "tcb_table \<Rightarrow> nat \<Rightarrow> nat \<Rightarrow> sched_state \<Rightarrow> sched_state option" where
  "setup_main_thread_ktcb tcb proc_id part_id s = do {
     c \<leftarrow> tcb (part_id + CONFIG_PCB_OFFSET) 0;
     upd_proc proc_id (\<lambda>t. t\<lparr>proc_ktcb := c\<rparr>) s
   }"

definition tcb_suspend :: "nat \<Rightarrow> sched_state \<Rightarrow> sched_state" where
  "tcb_suspend c s = s\<lparr>kcalls := kcalls s @ [TCB_Suspend c]\<rparr>"

text \<open>One round of the loop of \<open>partition_init\<close>; \<open>threads_index\<close> is the local variable.\<close>

definition partition_init_one ::
  "loader \<Rightarrow> tcb_table \<Rightarrow> nat \<Rightarrow> nat \<times> sched_state \<Rightarrow> (nat \<times> sched_state) option" where
  "partition_init_one load tcb i ts = do {
     let (threads_index, s) = ts;
     nt \<leftarrow> rd POK_CONFIG_PARTITIONS_NTHREADS i;
     s \<leftarrow> upd_part i (\<lambda>p. p\<lparr>part_index := u8 nt, part_nthreads := nt\<rparr>) s;
     s \<leftarrow> partition_setup_scheduler i s;
     k \<leftarrow> rd POK_CONFIG_PARTITIONS_SCHEDULER i;
     mid \<leftarrow> rd main_array i;
     s \<leftarrow> upd_part i (\<lambda>p. p\<lparr>part_lock_level := 0, part_low := threads_index,
            part_high := u32i (int threads_index + int (part_nthreads p) - 1),
            part_thread_index := 1, part_sched := k, part_activation := 0, part_period := 0,
            part_current_thread := IDLE_THREAD, part_prev_thread := IDLE_THREAD,
            part_mode := PART_MODE_WARM_START, part_start_cond := NORMAL_START,
            part_thread_main := mid, part_thread_main_entry := 0\<rparr>) s;
     p \<leftarrow> rd (part_array s) i;
     let threads_index = part_high p + 1;
     s \<leftarrow> upd_part i (\<lambda>p. p\<lparr>part_current_thread := part_thread_main p\<rparr>) s;
     s \<leftarrow> setup_main_thread load mid i s;
     s \<leftarrow> setup_main_thread_ktcb tcb mid i s;
     t \<leftarrow> rd (proc_array s) mid;
     c_assert (proc_ktcb t \<noteq> 0);
     Some (threads_index, tcb_suspend (proc_ktcb t) s)
   }"

definition partition_init :: "loader \<Rightarrow> tcb_table \<Rightarrow> sched_state \<Rightarrow> sched_state option" where
  "partition_init load tcb s =
     map_option snd (for_each [0..<POK_CONFIG_NB_PARTITIONS] (partition_init_one load tcb) (0, s))"

definition process_init_one :: "nat \<Rightarrow> sched_state \<Rightarrow> sched_state option" where
  "process_init_one i s = do {
     n \<leftarrow> rd names i;
     pr \<leftarrow> rd prio_array i;
     pe \<leftarrow> rd period_array i;
     tc \<leftarrow> rd time_array i;
     upd_proc i (\<lambda>t. t\<lparr>
       proc_name := n, proc_index := int i, proc_status := POK_STATE_STOPPED,
       proc_prio := pr, proc_base_priority := pr, proc_entrypoint := Null_entry,
       proc_deadline := 0, proc_period := pe, proc_timecap := tc, proc_remaining := tc,
       proc_next_activation := pe, proc_end_time := 0, proc_wakeup_time := 0\<rparr>) s
   }"

definition process_init :: "sched_state \<Rightarrow> sched_state option" where
  "process_init s = do {
     s \<leftarrow> init_idle_thread s;
     s \<leftarrow> init_kernel_thread s;
     for_each [0..<POK_CONFIG_NB_THREADS] process_init_one s
   }"

definition spawn_system_process :: "loader \<Rightarrow> unit option" where
  "spawn_system_process load = do {
     c_assert (load ''console_server'' 252 '''' PID_NULL
       (PROCESS_PERMISSION_DEVICE_IRQ + PROCESS_PERMISSION_DEVICE_MAP +
        PROCESS_PERMISSION_DEVICE_IOPORT) = 0);
     c_assert (load ''file_server'' 250 '''' PID_NULL 0 = 0)
   }"

text \<open>
  \<open>system_init\<close> up to the creation of the scheduler thread, and the first assignment of that
  thread.  The initialisation of the ports is in theory \<open>Port\<close>; it touches no variable of the
  scheduler.
\<close>

definition system_init :: "loader \<Rightarrow> tcb_table \<Rightarrow> sched_state \<Rightarrow> sched_state option" where
  "system_init load tcb s = do {
     spawn_system_process load;
     s \<leftarrow> partition_init load tcb s;
     s \<leftarrow> process_init s;
     s \<leftarrow> sched_init s;
     Some (scheduler_start s)
   }"

section \<open>Creation of a thread\<close>

definition pok_partition_thread_create ::
  "tcb_table \<Rightarrow> nat \<Rightarrow> sched_state \<Rightarrow> (sched_state \<times> pok_ret_t \<times> nat option) option" where
  "pok_partition_thread_create tcb partition_id s = do {
     p \<leftarrow> rd (part_array s) partition_id;
     if part_mode p \<noteq> PART_MODE_COLD_START \<and> part_mode p \<noteq> PART_MODE_WARM_START
     then Some (s, POK_ERRNO_MODE, None)
     else if part_thread_index p > part_high p then Some (s, POK_ERRNO_TOOMANY, None)
     else do {
       let tid = u32 (part_low p + part_thread_index p);
       s \<leftarrow> upd_part partition_id (\<lambda>p. p\<lparr>part_thread_index := u32 (part_thread_index p + 1)\<rparr>) s;
       pr \<leftarrow> rd prio_array tid;
       pe \<leftarrow> rd period_array tid;
       tc \<leftarrow> rd time_array tid;
       s \<leftarrow> upd_proc tid (\<lambda>t. t\<lparr>
         proc_prio := pr, proc_base_priority := pr, proc_period := pe,
         proc_next_activation := pe, proc_timecap := tc, proc_remaining := tc,
         proc_status := POK_STATE_RUNNABLE, proc_wakeup_time := 0,
         proc_partition := current_partition s\<rparr>) s;
       cp \<leftarrow> rd (part_array s) (current_partition s);
       c \<leftarrow> tcb (current_partition s + CONFIG_PCB_OFFSET) (u32i (int tid - int (part_low cp)));
       s \<leftarrow> upd_proc tid (\<lambda>t. t\<lparr>proc_ktcb := c\<rparr>) s;
       c_assert (c > 0);
       Some (tcb_suspend c s, POK_ERRNO_OK, Some tid)
     }
   }"

section \<open>Change of mode\<close>

text \<open>The body of the loop of \<open>pok_partition_set_mode\<close>; a period of \<open>-1\<close> is an aperiodic thread.\<close>

definition start_delayed :: "nat \<Rightarrow> nat \<Rightarrow> process \<Rightarrow> process" where
  "start_delayed now activation t =
     (if proc_status t = POK_STATE_DELAYED_START
      then (if proc_period t = 2 ^ 64 - 1
            then (let t = t\<lparr>proc_status := (if proc_wakeup_time t = 0 then POK_STATE_RUNNABLE
                                          else POK_STATE_WAITING)\<rparr>;
                      t = t\<lparr>proc_wakeup_time := u64 (proc_wakeup_time t + now)\<rparr>
                  in t\<lparr>proc_end_time := u64 (proc_wakeup_time t + proc_timecap t)\<rparr>)
            else (let t = t\<lparr>proc_next_activation :=
                        u64 (proc_wakeup_time t + POK_CONFIG_SCHEDULING_MAJOR_FRAME + activation)\<rparr>
                  in t\<lparr>proc_end_time := u64 (proc_next_activation t + proc_timecap t),
                       proc_status := POK_STATE_WAIT_NEXT_ACTIVATION\<rparr>))
      else t)"

definition pok_partition_set_mode ::
  "nat \<Rightarrow> pok_partition_mode_t \<Rightarrow> sched_state \<Rightarrow> (sched_state \<times> pok_ret_t) option" where
  "pok_partition_set_mode pid mode s =
     (case mode of
        PART_MODE_NORMAL \<Rightarrow> do {
          cp \<leftarrow> rd (part_array s) (current_partition s);
          if current_thread s \<noteq> part_thread_main cp then Some (s, POK_ERRNO_PARTITION_MODE)
          else do {
            s \<leftarrow> upd_part pid (\<lambda>p. p\<lparr>part_mode := mode\<rparr>) s;
            p \<leftarrow> rd (part_array s) pid;
            cp \<leftarrow> rd (part_array s) (current_partition s);
            s \<leftarrow> for_each [0..<part_nthreads p]
                   (\<lambda>i s. upd_proc (u32 (part_low cp + i))
                            (start_delayed (pok_tick_counter s) (part_activation cp)) s) s;
            s \<leftarrow> upd_proc (part_thread_main p) (\<lambda>t. t\<lparr>proc_status := POK_STATE_STOPPED\<rparr>) s;
            s \<leftarrow> pok_sched s;
            Some (s, POK_ERRNO_OK)
          }
        }
      | _ \<Rightarrow> Some (s, POK_ERRNO_PARTITION_MODE))"

section \<open>The state after start-up\<close>

lemma nthreads_pos:
  "i < POK_CONFIG_NB_PARTITIONS \<Longrightarrow>
   u32i (int (cfg_low i) + int (POK_CONFIG_PARTITIONS_NTHREADS ! i) - 1) = cfg_high i"
  by (auto dest!: partition_cases
      simp: cfg_low_def cfg_high_def POK_CONFIG_PARTITIONS_NTHREADS_def u32i_def)

lemma cfg_low_Suc: "i < POK_CONFIG_NB_PARTITIONS \<Longrightarrow> cfg_low (Suc i) = cfg_high i + 1"
  by (auto dest!: partition_cases
      simp: cfg_low_def cfg_high_def POK_CONFIG_PARTITIONS_NTHREADS_def)

lemma config_rd:
  assumes "i < POK_CONFIG_NB_PARTITIONS"
  shows "rd POK_CONFIG_PARTITIONS_NTHREADS i = Some (POK_CONFIG_PARTITIONS_NTHREADS ! i)"
    "rd POK_CONFIG_PARTITIONS_SCHEDULER i = Some POK_SCHED_RR"
    "rd main_array i = Some (main_array ! i)"
    "rd main_name i = Some (main_name ! i)"
  using assms by (auto dest!: partition_cases
      simp: POK_CONFIG_PARTITIONS_NTHREADS_def POK_CONFIG_PARTITIONS_SCHEDULER_def main_array_def main_name_def)

text \<open>Every program the start-up loads is loaded without an error.\<close>

definition loads_ok :: "loader \<Rightarrow> bool" where
  "loads_ok load \<longleftrightarrow> (\<forall>image prio args parent perms. load image prio args parent perms = 0)"

lemma partition_init_one_spec:
  assumes load: "loads_ok load"
    and tcb: "tcb (i + CONFIG_PCB_OFFSET) 0 = Some c" "c \<noteq> 0"
    and i: "i < POK_CONFIG_NB_PARTITIONS"
    and len: "length (part_array s) = POK_CONFIG_NB_PARTITIONS"
      "length (proc_array s) = POK_CONFIG_NB_THREADS + 2"
  shows "\<exists>p t. partition_init_one load tcb i (cfg_low i, s) =
      Some (cfg_low (Suc i), s\<lparr>part_array := (part_array s)[i := p],
        proc_array := (proc_array s)[main_array ! i := t],
        kcalls := kcalls s @ [TCB_Suspend c]\<rparr>) \<and> part_ok i p \<and> init_mode (part_mode p)"
proof -
  have m: "main_array ! i < length (proc_array s)"
    using thread_ids_bound [OF i main_in_ids [OF i]] len by simp
  let ?p = "(part_array s ! i)\<lparr>part_index := u8 (POK_CONFIG_PARTITIONS_NTHREADS ! i),
    part_nthreads := POK_CONFIG_PARTITIONS_NTHREADS ! i, part_sched_func := Fn_pok_sched_part_rr,
    part_lock_level := 0, part_low := cfg_low i, part_high := cfg_high i,
    part_thread_index := 1, part_sched := POK_SCHED_RR, part_activation := 0, part_period := 0,
    part_prev_thread := IDLE_THREAD,
    part_mode := PART_MODE_WARM_START, part_start_cond := NORMAL_START,
    part_thread_main := main_array ! i, part_thread_main_entry := 0,
    part_current_thread := main_array ! i\<rparr>"
  have "main_array ! i \<noteq> IDLE_THREAD"
    using thread_ids_bound [OF i main_in_ids [OF i]] by (simp add: IDLE_THREAD_def)
  then have ok: "part_ok i ?p"
    using main_in_ids [OF i] by (simp add: part_ok_def init_mode_def)
  have "\<exists>t. partition_init_one load tcb i (cfg_low i, s) =
      Some (cfg_low (Suc i), s\<lparr>part_array := (part_array s)[i := ?p],
        proc_array := (proc_array s)[main_array ! i := t],
        kcalls := kcalls s @ [TCB_Suspend c]\<rparr>)"
    using i len m tcb nthreads_pos [OF i] cfg_low_Suc [OF i]
    by (simp add: partition_init_one_def partition_setup_scheduler_def setup_main_thread_def
        setup_main_thread_ktcb_def tcb_suspend_def config_rd [OF i] load [unfolded loads_ok_def]) (rule exI, rule refl)
  with ok show ?thesis by (auto simp: init_mode_def)
qed

lemma partition_init_spec:
  assumes load: "loads_ok load"
    and tcb: "tcb 3 0 = Some c" "tcb 4 0 = Some d" "c \<noteq> 0" "d \<noteq> 0"
  shows "\<exists>parts ps. partition_init load tcb boot_state = Some (boot_state\<lparr>part_array := parts,
      proc_array := ps, kcalls := [TCB_Suspend c, TCB_Suspend d]\<rparr>) \<and>
    length parts = POK_CONFIG_NB_PARTITIONS \<and> length ps = POK_CONFIG_NB_THREADS + 2 \<and>
    (\<forall>i < POK_CONFIG_NB_PARTITIONS. part_ok i (parts ! i))"
proof -
  have r: "[0..<POK_CONFIG_NB_PARTITIONS] = [0, Suc 0]"
    by (simp add: POK_CONFIG_NB_PARTITIONS_def upt_rec)
  have off: "tcb (0 + CONFIG_PCB_OFFSET) 0 = Some c" "tcb (Suc 0 + CONFIG_PCB_OFFSET) 0 = Some d"
    using tcb by (simp_all add: CONFIG_PCB_OFFSET_def)
  have nb: "0 < POK_CONFIG_NB_PARTITIONS" "Suc 0 < POK_CONFIG_NB_PARTITIONS"
    by (simp_all add: POK_CONFIG_NB_PARTITIONS_def)
  have len: "length (part_array boot_state) = POK_CONFIG_NB_PARTITIONS"
    "length (proc_array boot_state) = POK_CONFIG_NB_THREADS + 2" "kcalls boot_state = []"
    by (simp_all add: boot_state_def)
  have low0: "(0, boot_state) = (cfg_low 0, boot_state)" by (simp add: cfg_low_def)
  from partition_init_one_spec [where tcb = tcb, OF load off(1) tcb(3) nb(1) len(1,2)] len(3) obtain p t where
    one: "partition_init_one load tcb 0 (cfg_low 0, boot_state) = Some (cfg_low (Suc 0),
      boot_state\<lparr>part_array := (part_array boot_state)[0 := p],
        proc_array := (proc_array boot_state)[main_array ! 0 := t], kcalls := [TCB_Suspend c]\<rparr>)"
    and p: "part_ok 0 p" by auto
  let ?s = "boot_state\<lparr>part_array := (part_array boot_state)[0 := p],
    proc_array := (proc_array boot_state)[main_array ! 0 := t], kcalls := [TCB_Suspend c]\<rparr>"
  have len': "length (part_array ?s) = POK_CONFIG_NB_PARTITIONS"
    "length (proc_array ?s) = POK_CONFIG_NB_THREADS + 2" using len by simp_all
  from partition_init_one_spec [where tcb = tcb, OF load off(2) tcb(4) nb(2) len'] obtain q u where
    two: "partition_init_one load tcb (Suc 0) (cfg_low (Suc 0), ?s) = Some (cfg_low (Suc (Suc 0)),
      ?s\<lparr>part_array := (part_array ?s)[Suc 0 := q],
        proc_array := (proc_array ?s)[main_array ! Suc 0 := u], kcalls := [TCB_Suspend c, TCB_Suspend d]\<rparr>)"
    and q: "part_ok (Suc 0) q" by auto
  have "\<forall>i < POK_CONFIG_NB_PARTITIONS. part_ok i ((part_array boot_state)[0 := p, Suc 0 := q] ! i)"
  proof (intro allI impI)
    fix i assume "i < POK_CONFIG_NB_PARTITIONS"
    then consider "i = 0" | "i = Suc 0" using partition_cases by fastforce
    then show "part_ok i ((part_array boot_state)[0 := p, Suc 0 := q] ! i)"
      using p q nb len(1) by cases simp_all
  qed
  with one two len show ?thesis
    unfolding partition_init_def r low0
    by (intro exI [of _ "(part_array boot_state)[0 := p, Suc 0 := q]"]
        exI [of _ "(proc_array boot_state)[main_array ! 0 := t, main_array ! Suc 0 := u]"]) simp
qed

lemma process_init_spec:
  assumes len: "length (proc_array s) = POK_CONFIG_NB_THREADS + 2"
  shows "\<exists>ps. process_init s = Some (s\<lparr>proc_array := ps\<rparr>) \<and>
    length ps = POK_CONFIG_NB_THREADS + 2 \<and> idle_ok (ps ! IDLE_THREAD) \<and>
    (\<forall>i < POK_CONFIG_NB_THREADS. proc_status (ps ! i) = POK_STATE_STOPPED)"
proof -
  let ?ok = "\<lambda>n t. \<exists>ps. t = s\<lparr>proc_array := ps\<rparr> \<and> length ps = POK_CONFIG_NB_THREADS + 2 \<and>
    idle_ok (ps ! IDLE_THREAD) \<and> (\<forall>i < n. proc_status (ps ! i) = POK_STATE_STOPPED)"
  have idle: "\<exists>t. do { s \<leftarrow> init_idle_thread s; init_kernel_thread s } = Some t \<and> ?ok 0 t"
    using len by (simp add: init_idle_thread_def init_kernel_thread_def IDLE_THREAD_def
        KERNEL_THREAD_def idle_ok_def)
       (intro exI conjI, rule refl, simp_all)
  have one: "\<exists>u. process_init_one i t = Some u \<and> ?ok (Suc i) u"
    if "?ok i t" "i < POK_CONFIG_NB_THREADS" for i t
  proof -
    from that obtain ps where ps: "t = s\<lparr>proc_array := ps\<rparr>" "length ps = POK_CONFIG_NB_THREADS + 2"
      "idle_ok (ps ! IDLE_THREAD)" "\<forall>i' < i. proc_status (ps ! i') = POK_STATE_STOPPED" by auto
    have "\<exists>x. process_init_one i t = Some (t\<lparr>proc_array := ps[i := x]\<rparr>) \<and> proc_status x = POK_STATE_STOPPED"
      using ps that(2)
      by (simp add: process_init_one_def names_def prio_array_def period_array_def time_array_def
          POK_CONFIG_NB_THREADS_def) (intro exI conjI, rule refl, simp_all)
    with ps that(2) show ?thesis
      by (fastforce simp: IDLE_THREAD_def less_Suc_eq)
  qed
  have loop: "\<exists>u. for_each [0..<n] process_init_one t = Some u \<and> ?ok n u"
    if "?ok 0 t" "n \<le> POK_CONFIG_NB_THREADS" for n t
    using that(2)
  proof (induction n)
    case 0
    then show ?case using that(1) by simp
  next
    case (Suc n)
    then obtain u where "for_each [0..<n] process_init_one t = Some u" "?ok n u" by auto
    with one [of u n] Suc.prems show ?case by (auto simp: for_each_append)
  qed
  from idle obtain t where
    t: "do { s \<leftarrow> init_idle_thread s; init_kernel_thread s } = Some t" "?ok 0 t" by blast
  from loop [OF t(2) order_refl] t(1) show ?thesis
    unfolding process_init_def by (auto simp: bind_eq_Some_conv)
qed

lemma sched_init_spec:
  "sched_init s = Some (s\<lparr>current_slot := 0, next_major_frame := 2000, next_deadline := 1000,
     current_partition := 0\<rparr>)"
  by (simp add: sched_init_def config_defs upt_rec)

lemma system_init_inv:
  assumes load: "loads_ok load"
    and tcb: "tcb 3 0 = Some c" "tcb 4 0 = Some d" "c \<noteq> 0" "d \<noteq> 0"
  shows "\<exists>s. system_init load tcb boot_state = Some s \<and> sched_inv s \<and> timeline 0 s \<and>
    only_current s \<and> pok_tick_counter s = 0 \<and>
    (\<forall>i < POK_CONFIG_NB_THREADS. proc_status (proc_array s ! i) = POK_STATE_STOPPED)"
proof -
  have spawn: "spawn_system_process load = Some ()" by (simp add: spawn_system_process_def load [unfolded loads_ok_def])
  from partition_init_spec [where tcb = tcb, OF load tcb] obtain parts ps where
    p: "partition_init load tcb boot_state = Some (boot_state\<lparr>part_array := parts,
      proc_array := ps, kcalls := [TCB_Suspend c, TCB_Suspend d]\<rparr>)"
    "length parts = POK_CONFIG_NB_PARTITIONS" "length ps = POK_CONFIG_NB_THREADS + 2"
    "\<forall>i < POK_CONFIG_NB_PARTITIONS. part_ok i (parts ! i)" by blast
  let ?s = "boot_state\<lparr>part_array := parts, proc_array := ps, kcalls := [TCB_Suspend c, TCB_Suspend d]\<rparr>"
  from process_init_spec [of ?s] p(3) obtain qs where
    q: "process_init ?s = Some (?s\<lparr>proc_array := qs\<rparr>)" "length qs = POK_CONFIG_NB_THREADS + 2"
      "idle_ok (qs ! IDLE_THREAD)" "\<forall>i < POK_CONFIG_NB_THREADS. proc_status (qs ! i) = POK_STATE_STOPPED"
    by auto
  let ?u = "?s\<lparr>proc_array := qs, current_slot := 0, next_major_frame := 2000, next_deadline := 1000,
     current_partition := 0\<rparr>"
  have "system_init load tcb boot_state = Some ?u"
    using spawn p(1) q(1) by (simp add: system_init_def sched_init_spec scheduler_start_def)
  moreover have "sched_inv ?u"
    using p(2,4) q(2,3) by (simp add: sched_inv_def running_ok_def boot_state_def POK_CONFIG_NB_PARTITIONS_def)
  moreover have "timeline 0 ?u" by (simp add: timeline_def pok_sched_slots_allocation_def)
  moreover have "only_current ?u" by (simp add: only_current_def active_tcbs_def)
  ultimately show ?thesis using q(4) by (intro exI [of _ ?u]) (simp add: boot_state_def)
qed

section \<open>Mode changes and thread creation keep the invariant\<close>

lemma start_delayed_fields [simp]:
  "proc_ktcb (start_delayed now a t) = proc_ktcb t"
  "proc_remaining (start_delayed now a t) = proc_remaining t"
  by (simp_all add: start_delayed_def Let_def)

lemma delayed_loop:
  assumes "lo + n \<le> length (proc_array s)" and "length (proc_array s) < 2 ^ 32"
  shows "\<exists>ps. for_each [0..<n] (\<lambda>i s. upd_proc (u32 (lo + i)) (start_delayed (pok_tick_counter s) a) s) s =
      Some (s\<lparr>proc_array := ps\<rparr>) \<and> procs_kept (proc_array s) ps \<and>
      (\<forall>j. j < lo \<or> lo + n \<le> j \<or> proc_status (proc_array s ! j) \<noteq> POK_STATE_DELAYED_START \<longrightarrow> ps ! j = proc_array s ! j)"
proof -
  let ?P = "\<lambda>t. \<exists>ps. t = s\<lparr>proc_array := ps\<rparr> \<and> procs_kept (proc_array s) ps \<and>
    (\<forall>j. j < lo \<or> lo + n \<le> j \<or> proc_status (proc_array s ! j) \<noteq> POK_STATE_DELAYED_START \<longrightarrow> ps ! j = proc_array s ! j)"
  have "\<exists>u. for_each [0..<n] (\<lambda>i s. upd_proc (u32 (lo + i)) (start_delayed (pok_tick_counter s) a) s) s =
      Some u \<and> ?P u"
  proof (rule for_each_total [where P = ?P])
    show "?P s" by (intro exI [of _ "proc_array s"]) (simp add: procs_kept_refl)
  next
    fix i t assume i: "i \<in> set [0..<n]" and "?P t"
    then obtain ps where t: "t = s\<lparr>proc_array := ps\<rparr>" "procs_kept (proc_array s) ps"
      "\<forall>j. j < lo \<or> lo + n \<le> j \<or> proc_status (proc_array s ! j) \<noteq> POK_STATE_DELAYED_START \<longrightarrow> ps ! j = proc_array s ! j" by blast
    have b: "lo + i < length ps" using i assms t(2) by (simp add: procs_kept_def)
    let ?qs = "ps[lo + i := start_delayed (pok_tick_counter t) a (ps ! (lo + i))]"
    have "procs_kept ps ?qs" using b by (intro procs_kept_upd) simp_all
    then have k: "procs_kept (proc_array s) ?qs" by (rule procs_kept_trans [OF t(2)])
    have "upd_proc (u32 (lo + i)) (start_delayed (pok_tick_counter t) a) t = Some (s\<lparr>proc_array := ?qs\<rparr>)"
      using i assms b t(1) by simp
    moreover have "?qs ! j = proc_array s ! j"
      if "j < lo \<or> lo + n \<le> j \<or> proc_status (proc_array s ! j) \<noteq> POK_STATE_DELAYED_START" for j
    proof (cases "j = lo + i")
      case True
      with that i have "proc_status (proc_array s ! j) \<noteq> POK_STATE_DELAYED_START" by auto
      with t(3) b True show ?thesis by (simp add: start_delayed_def)
    next
      case False
      with t(3) that show ?thesis by auto
    qed
    ultimately show "\<exists>u. upd_proc (u32 (lo + i)) (start_delayed (pok_tick_counter t) a) t = Some u \<and> ?P u"
      using k by blast
  qed
  then show ?thesis by blast
qed

lemma sched_inv_mode:
  assumes "sched_inv s" and "pid < POK_CONFIG_NB_PARTITIONS"
  shows "sched_inv (s\<lparr>part_array := (part_array s)[pid := (part_array s ! pid)\<lparr>part_mode := PART_MODE_NORMAL\<rparr>]\<rparr>)"
  using assms
  by (auto simp: sched_inv_def part_ok_def running_ok_def init_mode_def nth_list_update Let_def)

lemma sys_inv_mode:
  assumes "sys_inv n s" and "pid < POK_CONFIG_NB_PARTITIONS"
  shows "sys_inv n (s\<lparr>part_array := (part_array s)[pid := (part_array s ! pid)\<lparr>part_mode := PART_MODE_NORMAL\<rparr>]\<rparr>)"
  using assms sched_inv_mode [of s pid] by (simp add: sys_inv_def only_current_def timeline_def)

text \<open>The change to normal mode by the main thread, and every refused change.\<close>

lemma set_mode_prepared:
  assumes inv: "sys_inv n s" and main: "current_thread s = part_thread_main (part_array s ! current_partition s)"
  shows "\<exists>t. (\<forall>s'. pok_sched t = Some s' \<longrightarrow>
      pok_partition_set_mode (current_partition s) PART_MODE_NORMAL s = Some (s', POK_ERRNO_OK)) \<and>
    sys_inv n t \<and> current_partition t = current_partition s \<and>
    part_mode (part_array t ! current_partition s) = PART_MODE_NORMAL \<and>
    (\<forall>q < POK_CONFIG_NB_PARTITIONS. q \<noteq> current_partition s \<longrightarrow> part_untouched q s t) \<and>
    current_thread t = current_thread s \<and>
    (\<forall>j. proc_status (proc_array s ! j) \<noteq> POK_STATE_DELAYED_START \<longrightarrow>
      proc_status (proc_array t ! j) \<in> {proc_status (proc_array s ! j), POK_STATE_STOPPED})"
proof -
  let ?p = "current_partition s"
  have si: "sched_inv s" using inv by (simp add: sys_inv_def)
  note len = sched_invD(1,2) [OF si] and cp = sched_invD(5) [OF si]
  let ?np = "(part_array s ! ?p)\<lparr>part_mode := PART_MODE_NORMAL\<rparr>"
  let ?s1 = "s\<lparr>part_array := (part_array s)[?p := ?np]\<rparr>"
  have inv1: "sys_inv n ?s1" by (rule sys_inv_mode [OF inv cp])
  have ok: "part_ok ?p (part_array s ! ?p)" by (rule sched_invD(3) [OF si cp])
  have range: "part_low ?np + part_nthreads ?np \<le> length (proc_array ?s1)" "length (proc_array ?s1) < 2 ^ 32"
    using ok cfg_bounds [OF cp] len by (simp_all add: part_ok_def POK_CONFIG_NB_THREADS_def)
  from delayed_loop [OF range, of "part_activation ?np"] obtain ps where
    ps: "for_each [0..<part_nthreads ?np] (\<lambda>i s. upd_proc (u32 (part_low ?np + i))
           (start_delayed (pok_tick_counter s) (part_activation ?np)) s) ?s1 =
         Some (?s1\<lparr>proc_array := ps\<rparr>)" "procs_kept (proc_array ?s1) ps"
      "\<forall>j. j < part_low ?np \<or> part_low ?np + part_nthreads ?np \<le> j \<or>
        proc_status (proc_array ?s1 ! j) \<noteq> POK_STATE_DELAYED_START \<longrightarrow> ps ! j = proc_array ?s1 ! j"
    by blast
  let ?m = "part_thread_main ?np"
  let ?qs = "ps[?m := (ps ! ?m)\<lparr>proc_status := POK_STATE_STOPPED\<rparr>]"
  have mi: "?m \<in> thread_ids ?p" using ok main_in_ids [OF cp] by (simp add: part_ok_def)
  have m: "?m < length ps"
    using thread_ids_bound [OF cp mi] ps(2) len by (simp add: procs_kept_def)
  have "procs_kept ps ?qs" using m by (intro procs_kept_upd) simp_all
  with ps(2) have "procs_kept (proc_array ?s1) ?qs" by (blast intro: procs_kept_trans)
  from sys_inv_procs [OF inv1 this] have t: "sys_inv n (?s1\<lparr>proc_array := ?qs\<rparr>)" .
  have "?qs ! j = proc_array s ! j" if "j \<notin> thread_ids ?p" for j
    using that ps(3) ok mi cfg_bounds [OF cp] by (auto simp: part_ok_def thread_ids_def)
  then have "part_untouched q s (?s1\<lparr>proc_array := ?qs\<rparr>)"
    if "q < POK_CONFIG_NB_PARTITIONS" "q \<noteq> ?p" for q
    using that thread_ids_disjoint [OF that(1) cp that(2)] by (auto simp: part_untouched_def)
  moreover have "proc_status (?qs ! j) \<in> {proc_status (proc_array s ! j), POK_STATE_STOPPED}"
    if "proc_status (proc_array s ! j) \<noteq> POK_STATE_DELAYED_START" for j
    using that ps(3) m by (cases "j = ?m") auto
  ultimately show ?thesis
    using cp len main ps(1) m t
    by (intro exI [of _ "?s1\<lparr>proc_array := ?qs\<rparr>"]) (simp add: pok_partition_set_mode_def)
qed

lemma set_mode_normal:
  assumes "sys_inv n s" and "current_thread s = part_thread_main (part_array s ! current_partition s)"
  shows "\<exists>s'. pok_partition_set_mode (current_partition s) PART_MODE_NORMAL s = Some (s', POK_ERRNO_OK) \<and>
    sys_inv n s'"
  using set_mode_prepared [OF assms] sys_inv_sched by blast

lemma set_mode_refused:
  assumes inv: "sched_inv s"
    and "mode \<noteq> PART_MODE_NORMAL \<or> current_thread s \<noteq> part_thread_main (part_array s ! current_partition s)"
  shows "pok_partition_set_mode pid mode s = Some (s, POK_ERRNO_PARTITION_MODE)"
  using assms(2) sched_invD(1,5) [OF inv]
  by (cases mode) (auto simp: pok_partition_set_mode_def)

text \<open>Creation of a thread.\<close>

lemma create_refused:
  assumes "p < length (part_array s)"
  shows "\<not> init_mode (part_mode (part_array s ! p)) \<Longrightarrow>
      pok_partition_thread_create tcb p s = Some (s, POK_ERRNO_MODE, None)"
    and "init_mode (part_mode (part_array s ! p)) \<Longrightarrow>
      part_thread_index (part_array s ! p) > part_high (part_array s ! p) \<Longrightarrow>
      pok_partition_thread_create tcb p s = Some (s, POK_ERRNO_TOOMANY, None)"
  using assms by (auto simp: pok_partition_thread_create_def init_mode_def)

definition created :: "nat \<Rightarrow> nat \<Rightarrow> process \<Rightarrow> process" where
  "created cp c t = t\<lparr>proc_prio := 100, proc_base_priority := 100, proc_period := 1000,
     proc_next_activation := 1000, proc_timecap := 1000, proc_remaining := 1000,
     proc_status := POK_STATE_RUNNABLE, proc_wakeup_time := 0, proc_partition := cp, proc_ktcb := c\<rparr>"

lemma thread_config:
  "i < POK_CONFIG_NB_THREADS \<Longrightarrow>
   rd prio_array i = Some 100 \<and> rd period_array i = Some 1000 \<and> rd time_array i = Some 1000"
  by (auto simp: config_defs less_Suc_eq numeral_eq_Suc)

lemma create_eval:
  assumes "p < length (part_array s)" and "current_partition s < length (part_array s)"
    and mode: "init_mode (part_mode (part_array s ! p))"
    and room: "part_thread_index (part_array s ! p) \<le> part_high (part_array s ! p)"
    and i: "i = part_low (part_array s ! p) + part_thread_index (part_array s ! p)"
      "i < POK_CONFIG_NB_THREADS" "i < length (proc_array s)"
    and lo: "lo = part_low (part_array s ! current_partition s)"
  shows "pok_partition_thread_create tcb p s =
    (case tcb (current_partition s + CONFIG_PCB_OFFSET) (u32i (int i - int lo)) of
       None \<Rightarrow> None
     | Some c \<Rightarrow> if c = 0 then None
         else Some (s\<lparr>part_array := (part_array s)[p := (part_array s ! p)\<lparr>part_thread_index :=
                Suc (part_thread_index (part_array s ! p))\<rparr>],
              proc_array := (proc_array s)[i := created (current_partition s) c (proc_array s ! i)],
              kcalls := kcalls s @ [TCB_Suspend c]\<rparr>, POK_ERRNO_OK, Some i))"
proof -
  have u: "u32 i = i" "u32 (part_thread_index (part_array s ! p) + 1) = Suc (part_thread_index (part_array s ! p))"
    using i by (simp_all add: POK_CONFIG_NB_THREADS_def)
  have low: "part_low ((part_array s)[p := (part_array s ! p)\<lparr>part_thread_index := k\<rparr>] ! current_partition s) = lo" for k
    using assms(1) lo by (simp add: nth_list_update)
  show ?thesis
    using assms(1-4) i u low thread_config [OF i(2)]
    by (auto simp: pok_partition_thread_create_def init_mode_def created_def tcb_suspend_def
        c_assert_def i(1) [symmetric] split: option.split)
qed

lemma create_cases:
  assumes inv: "sched_inv s" and p: "p < POK_CONFIG_NB_PARTITIONS"
    and r: "pok_partition_thread_create tcb p s = Some (s', ret, r)"
  obtains (refused) "s' = s" "r = None" "ret = POK_ERRNO_MODE \<or> ret = POK_ERRNO_TOOMANY"
  | (ok) i c where "ret = POK_ERRNO_OK" "r = Some i" "i \<in> thread_ids p"
      "i = part_low (part_array s ! p) + part_thread_index (part_array s ! p)"
      "i \<noteq> current_thread s" "c > 0" "init_mode (part_mode (part_array s ! p))"
      "s' = s\<lparr>part_array := (part_array s)[p := (part_array s ! p)\<lparr>part_thread_index :=
                Suc (part_thread_index (part_array s ! p))\<rparr>],
              proc_array := (proc_array s)[i := created (current_partition s) c (proc_array s ! i)],
              kcalls := kcalls s @ [TCB_Suspend c]\<rparr>"
proof -
  let ?p = "part_array s ! p"
  note len = sched_invD(1,2) [OF inv] and cp = sched_invD(5) [OF inv]
  have wf: "part_ok p ?p" by (rule sched_invD(3) [OF inv p])
  show thesis
  proof (cases "init_mode (part_mode ?p) \<and> part_thread_index ?p \<le> part_high ?p")
    case False
    have pl: "p < length (part_array s)" using p len by simp
    from False create_refused [OF pl, of tcb] r
    have "s' = s \<and> r = None \<and> (ret = POK_ERRNO_MODE \<or> ret = POK_ERRNO_TOOMANY)"
      by (cases "init_mode (part_mode ?p)") auto
    then show thesis by (intro refused) auto
  next
    case True
    let ?i = "part_low ?p + part_thread_index ?p"
    have hi: "part_high ?p < POK_CONFIG_NB_THREADS" "part_low ?p < POK_CONFIG_NB_THREADS"
      using wf cfg_bounds [OF p] by (auto simp: part_ok_def)
    with True have w: "u32 ?i = ?i" "u32 (part_thread_index ?p + 1) = Suc (part_thread_index ?p)"
      by (auto simp: POK_CONFIG_NB_THREADS_def)
    have g: "part_mode ?p = PART_MODE_COLD_START \<or> part_mode ?p = PART_MODE_WARM_START"
      using True by (simp add: init_mode_def)
    have lt: "?i < POK_CONFIG_NB_THREADS"
    proof (rule ccontr)
      assume "\<not> ?thesis"
      then have "rd prio_array ?i = None" by (simp add: prio_array_def POK_CONFIG_NB_THREADS_def)
      with r True g w p len show False
        by (auto simp: pok_partition_thread_create_def bind_eq_Some_conv split: if_splits)
    qed
    have ids: "?i \<in> thread_ids p \<and> ?i \<noteq> part_thread_main ?p"
      using wf True lt p
      by (auto dest!: partition_cases simp: part_ok_def cfg_low_def cfg_high_def main_array_def
          POK_CONFIG_PARTITIONS_NTHREADS_def POK_CONFIG_NB_THREADS_def)
    have ne: "?i \<noteq> current_thread s"
    proof
      assume eq: "?i = current_thread s"
      have "?i \<noteq> IDLE_THREAD" using lt by (simp add: IDLE_THREAD_def)
      with eq sched_invD(6) [OF inv] ids have "p = current_partition s"
        using thread_ids_disjoint [OF p cp] by (auto simp: running_ok_def Let_def)
      with eq ids True sched_invD(6) [OF inv] \<open>?i \<noteq> IDLE_THREAD\<close> show False
        by (auto simp: running_ok_def Let_def)
    qed
    have bounds: "p < length (part_array s)" "current_partition s < length (part_array s)"
      "?i < length (proc_array s)" using p cp lt len by simp_all
    from r obtain c where "ret = POK_ERRNO_OK" "r = Some ?i" "c > 0"
      "s' = s\<lparr>part_array := (part_array s)[p := ?p\<lparr>part_thread_index := Suc (part_thread_index ?p)\<rparr>],
        proc_array := (proc_array s)[?i := created (current_partition s) c (proc_array s ! ?i)],
        kcalls := kcalls s @ [TCB_Suspend c]\<rparr>"
      unfolding create_eval [OF bounds(1,2) conjunct1 [OF True] conjunct2 [OF True] refl lt bounds(3) refl]
      by (auto split: option.splits if_splits)
    then show thesis using True ids ne by (intro ok) auto
  qed
qed

lemma sys_inv_create:
  assumes inv: "sys_inv n s" and p: "p < POK_CONFIG_NB_PARTITIONS"
    and r: "pok_partition_thread_create tcb p s = Some (s', ret, r)"
  shows "sys_inv n s'"
proof -
  have si: "sched_inv s" using inv by (simp add: sys_inv_def)
  show ?thesis
  proof (cases rule: create_cases [OF si p r])
    case 1
    with inv show ?thesis by simp
  next
    case (2 i c)
    have i: "i < POK_CONFIG_NB_THREADS" by (rule thread_ids_bound [OF p 2(3)])
    have "sched_inv s'"
      using si p i unfolding 2(8)
      by (auto simp: sched_inv_def part_ok_def running_ok_def nth_list_update Let_def IDLE_THREAD_def)
    moreover have "only_current s'"
      using inv 2(5) unfolding 2(8)
      by (auto simp: sys_inv_def only_current_def active_tcbs_append)
    moreover have "timeline n s' = timeline n s" unfolding 2(8) by (rule timeline_cong) simp_all
    ultimately show ?thesis using inv 2(8) by (simp add: sys_inv_def)
  qed
qed

text \<open>
  The guard of the creation compares the number of threads of the partition, which counts from
  its first thread, with \<open>high\<close>, which counts from thread 0.  In a partition that does not start
  at thread 0 it lets an index past the configuration tables through.
\<close>

lemma create_out_of_table:
  assumes inv: "sched_inv s" and p: "p < POK_CONFIG_NB_PARTITIONS"
    and mode: "init_mode (part_mode (part_array s ! p))"
    and room: "part_thread_index (part_array s ! p) \<le> part_high (part_array s ! p)"
    and over: "POK_CONFIG_NB_THREADS \<le> part_low (part_array s ! p) + part_thread_index (part_array s ! p)"
  shows "pok_partition_thread_create tcb p s = None"
proof -
  let ?i = "part_low (part_array s ! p) + part_thread_index (part_array s ! p)"
  have "part_high (part_array s ! p) < POK_CONFIG_NB_THREADS" "part_low (part_array s ! p) < POK_CONFIG_NB_THREADS"
    using sched_invD(3) [OF inv p] cfg_bounds [OF p] by (auto simp: part_ok_def)
  with room have "u32 ?i = ?i" by (simp add: POK_CONFIG_NB_THREADS_def)
  moreover have "rd prio_array ?i = None" using over by (simp add: prio_array_def POK_CONFIG_NB_THREADS_def)
  ultimately show ?thesis
    using mode room p sched_invD(1) [OF inv]
    by (auto simp: pok_partition_thread_create_def init_mode_def)
qed

end
