(* ===== verification/Proc_Server.thy ===== *)
theory Proc_Server
  imports Partition
begin

text \<open>
  The message loop of the process server (\<open>main.c\<close>) as far as it drives the partition layer:
  the handler of the APEX messages, and the runs of the system as an inductive relation whose
  steps are timer ticks and messages.  The tick runs in the scheduler thread and the handler in
  the main thread of the server; each is one step here.
\<close>

definition SYS_GIVE_UP :: nat where "SYS_GIVE_UP = 0xabcd"
definition SYS_SET_PARTITION_MODE :: nat where "SYS_SET_PARTITION_MODE = 0xf001"
definition SYS_STOP_SELF :: nat where "SYS_STOP_SELF = 0xf002"
definition SYS_SUSPEND_SELF :: nat where "SYS_SUSPEND_SELF = 0xf003"
definition SYS_SET_PRIORITY :: nat where "SYS_SET_PRIORITY = 0xf004"
definition SYS_SUSPEND :: nat where "SYS_SUSPEND = 0xf005"
definition SYS_RESUME :: nat where "SYS_RESUME = 0xf006"

lemmas sys_labels = SYS_GIVE_UP_def SYS_SET_PARTITION_MODE_def SYS_STOP_SELF_def
  SYS_SUSPEND_SELF_def SYS_SET_PRIORITY_def SYS_SUSPEND_def SYS_RESUME_def

text \<open>The message registers the handler reads.\<close>

record message =
  mr0 :: nat
  mr1 :: nat
  mr2 :: nat

text \<open>
  The dispatchers behind the APEX messages are the argument \<open>dispatch\<close>: generated code and the
  handlers of the other services.
\<close>

definition proc_server_handle_message ::
  "(sched_state \<Rightarrow> sched_state option) \<Rightarrow> message \<Rightarrow> sched_state \<Rightarrow> sched_state option" where
  "proc_server_handle_message dispatch msg s =
     (let label = mr0 msg in
      if label = SYS_GIVE_UP then do {
        s \<leftarrow> upd_proc (current_thread s)
               (\<lambda>t. t\<lparr>proc_status := POK_STATE_WAIT_NEXT_ACTIVATION, proc_remaining := 0\<rparr>) s;
        pok_sched s
      }
      else if label = SYS_SET_PARTITION_MODE then do {
        (s, ret) \<leftarrow> pok_partition_set_mode (current_partition s) (part_mode_of (mr1 msg)) s;
        c_assert (ret = POK_ERRNO_OK);
        Some s
      }
      else if label = SYS_STOP_SELF then do {
        s \<leftarrow> upd_proc (current_thread s) (\<lambda>t. t\<lparr>proc_status := POK_STATE_STOPPED\<rparr>) s;
        pok_sched s
      }
      else if label = SYS_SUSPEND_SELF then do {
        s \<leftarrow> upd_proc (current_thread s) (\<lambda>t. t\<lparr>proc_status := POK_STATE_STOPPED\<rparr>) s;
        pok_sched s
      }
      else if label = SYS_SET_PRIORITY then do {
        let tid = u32 (mr1 msg);
        cp \<leftarrow> rd (part_array s) (current_partition s);
        if part_low cp > tid \<or> part_high cp < tid then Some s
        else do {
          s \<leftarrow> upd_proc tid (\<lambda>t. t\<lparr>proc_wakeup_time := pok_tick_counter s,
                                   proc_prio := u8 (mr2 msg)\<rparr>) s;
          pok_sched s
        }
      }
      else if label = SYS_SUSPEND then do {
        let tid = u32 (mr1 msg);
        cp \<leftarrow> rd (part_array s) (current_partition s);
        if part_low cp > tid \<or> part_high cp < tid then Some s
        else do {
          s \<leftarrow> upd_proc tid (\<lambda>t. t\<lparr>proc_status := POK_STATE_STOPPED\<rparr>) s;
          pok_sched s
        }
      }
      else if label = SYS_RESUME then do {
        let tid = u32 (mr1 msg);
        cp \<leftarrow> rd (part_array s) (current_partition s);
        if part_low cp > tid \<or> part_high cp < tid then Some s
        else do {
          s \<leftarrow> upd_proc tid (\<lambda>t. t\<lparr>proc_wakeup_time := pok_tick_counter s,
                                   proc_status := POK_STATE_RUNNABLE\<rparr>) s;
          pok_sched s
        }
      }
      else dispatch s)"

text \<open>
  Of the dispatched services only \<open>proc_clone\<close> reaches the partition layer, through the creation
  of a thread in the current partition, whose result it ignores.
\<close>

definition dispatch_none :: "sched_state \<Rightarrow> sched_state option" where
  "dispatch_none s = Some s"

definition dispatch_clone :: "tcb_table \<Rightarrow> sched_state \<Rightarrow> sched_state option" where
  "dispatch_clone tcb s = do {
     (s, ret, tid) \<leftarrow> pok_partition_thread_create tcb (current_partition s) s;
     Some s
   }"

text \<open>\<open>reach n s\<close>: the system can be in state \<open>s\<close> after \<open>n\<close> timer ticks.\<close>

inductive reach :: "nat \<Rightarrow> sched_state \<Rightarrow> bool" where
  boot: "loads_ok load \<Longrightarrow> tcb 3 0 = Some c \<Longrightarrow> tcb 4 0 = Some d \<Longrightarrow> c \<noteq> 0 \<Longrightarrow> d \<noteq> 0 \<Longrightarrow>
    system_init load tcb boot_state = Some s \<Longrightarrow> reach 0 s"
| tick: "reach n s \<Longrightarrow> scheduler_tick s = Some s' \<Longrightarrow> reach (Suc n) s'"
| message: "reach n s \<Longrightarrow> proc_server_handle_message dispatch_none msg s = Some s' \<Longrightarrow> reach n s'"
| clone: "reach n s \<Longrightarrow> proc_server_handle_message (dispatch_clone tcb) msg s = Some s' \<Longrightarrow>
    reach n s'"

section \<open>The handler keeps the invariant\<close>

text \<open>What every branch of the handler but the mode change does: one thread record, then a decision.\<close>

lemma sys_inv_upd_sched:
  assumes inv: "sys_inv n s" and i: "i < length (proc_array s)"
    and f: "proc_ktcb (f (proc_array s ! i)) = proc_ktcb (proc_array s ! i)"
    and r: "i = IDLE_THREAD \<Longrightarrow> proc_remaining (f (proc_array s ! i)) = 0"
  shows "\<exists>s'. do { s \<leftarrow> upd_proc i f s; pok_sched s } = Some s' \<and> sys_inv n s'"
proof -
  have "idle_ok (proc_array s ! IDLE_THREAD)" using inv by (simp add: sys_inv_def sched_inv_def)
  then have "procs_kept (proc_array s) ((proc_array s)[i := f (proc_array s ! i)])"
    using i f r by (intro procs_kept_upd) (auto simp: idle_ok_def)
  from sys_inv_sched [OF sys_inv_procs [OF inv this]] i show ?thesis by simp
qed

lemma inv_current_bound: "sys_inv n s \<Longrightarrow> current_thread s < length (proc_array s)"
  using inv_current_thread [of s] by (simp add: sys_inv_def sched_inv_def IDLE_THREAD_def)

lemma current_part_rd:
  assumes "sys_inv n s"
  shows "rd (part_array s) (current_partition s) = Some (part_array s ! current_partition s)"
    and "part_high (part_array s ! current_partition s) < IDLE_THREAD"
proof -
  have inv: "sched_inv s" using assms by (simp add: sys_inv_def)
  note cp = sched_invD(5) [OF inv]
  show "rd (part_array s) (current_partition s) = Some (part_array s ! current_partition s)"
    using cp sched_invD(1) [OF inv] by simp
  show "part_high (part_array s ! current_partition s) < IDLE_THREAD"
    using sched_invD(3) [OF inv cp] cfg_bounds [OF cp] by (simp add: part_ok_def IDLE_THREAD_def)
qed

lemma part_mode_of_normal: "part_mode_of m = PART_MODE_NORMAL \<longleftrightarrow> m = 3"
  by (simp add: part_mode_of_def)

text \<open>Every branch returns in a good state, except a refused change of mode.\<close>

lemma handle_message_total:
  assumes inv: "sys_inv n s"
    and dispatch: "\<exists>s'. dispatch s = Some s' \<and> sys_inv n s'"
    and ok: "mr0 msg = SYS_SET_PARTITION_MODE \<Longrightarrow>
      mr1 msg = 3 \<and> current_thread s = part_thread_main (part_array s ! current_partition s)"
  shows "\<exists>s'. proc_server_handle_message dispatch msg s = Some s' \<and> sys_inv n s'"
proof -
  note cur = inv_current_bound [OF inv]
  note cp = current_part_rd [OF inv]
  have idle: "proc_remaining (proc_array s ! IDLE_THREAD) = 0"
    using inv by (simp add: sys_inv_def sched_inv_def idle_ok_def)
  have len: "IDLE_THREAD < length (proc_array s)"
    using inv by (simp add: sys_inv_def sched_inv_def IDLE_THREAD_def)
  have self: "\<exists>s'. do { s \<leftarrow> upd_proc (current_thread s) f s; pok_sched s } = Some s' \<and> sys_inv n s'"
    if "\<And>t. proc_ktcb (f t) = proc_ktcb t" "\<And>t. proc_remaining t = 0 \<Longrightarrow> proc_remaining (f t) = 0" for f
    using sys_inv_upd_sched [OF inv cur, of f] that idle by metis
  have other: "\<exists>s'. do { s \<leftarrow> upd_proc (u32 (mr1 msg)) f s; pok_sched s } = Some s' \<and> sys_inv n s'"
    if "\<not> (part_low (part_array s ! current_partition s) > u32 (mr1 msg) \<or>
            part_high (part_array s ! current_partition s) < u32 (mr1 msg))"
      "\<And>t. proc_ktcb (f t) = proc_ktcb t" for f
    using sys_inv_upd_sched [OF inv, of "u32 (mr1 msg)" f] that cp(2) len by auto
  have mode: "\<exists>s'. pok_partition_set_mode (current_partition s) (part_mode_of (mr1 msg)) s =
      Some (s', POK_ERRNO_OK) \<and> sys_inv n s'" if "mr0 msg = SYS_SET_PARTITION_MODE"
    using set_mode_normal [OF inv] ok [OF that] by (auto simp: part_mode_of_def)
  show ?thesis
    unfolding proc_server_handle_message_def Let_def
    using self [of "\<lambda>t. t\<lparr>proc_status := POK_STATE_WAIT_NEXT_ACTIVATION, proc_remaining := 0\<rparr>"]
      self [of "\<lambda>t. t\<lparr>proc_status := POK_STATE_STOPPED\<rparr>"]
      other [of "\<lambda>t. t\<lparr>proc_wakeup_time := pok_tick_counter s, proc_prio := u8 (mr2 msg)\<rparr>"]
      other [of "\<lambda>t. t\<lparr>proc_status := POK_STATE_STOPPED\<rparr>"]
      other [of "\<lambda>t. t\<lparr>proc_wakeup_time := pok_tick_counter s, proc_status := POK_STATE_RUNNABLE\<rparr>"]
      mode dispatch inv cp(1)
    by auto
qed

lemma handle_message_mode_refused:
  assumes inv: "sched_inv s" and label: "mr0 msg = SYS_SET_PARTITION_MODE"
    and no: "mr1 msg \<noteq> 3 \<or> current_thread s \<noteq> part_thread_main (part_array s ! current_partition s)"
  shows "proc_server_handle_message dispatch msg s = None"
  using set_mode_refused [OF inv, of "part_mode_of (mr1 msg)"] label no
  by (auto simp: proc_server_handle_message_def part_mode_of_normal sys_labels)

lemma sys_inv_message:
  assumes inv: "sys_inv n s" and r: "proc_server_handle_message dispatch msg s = Some s'"
    and dispatch: "\<And>t. dispatch s = Some t \<Longrightarrow> sys_inv n t"
  shows "sys_inv n s'"
proof (cases "mr0 msg \<in> {SYS_GIVE_UP, SYS_SET_PARTITION_MODE, SYS_STOP_SELF, SYS_SUSPEND_SELF,
      SYS_SET_PRIORITY, SYS_SUSPEND, SYS_RESUME}")
  case True
  have si: "sched_inv s" using inv by (simp add: sys_inv_def)
  have eq: "proc_server_handle_message dispatch_none msg s = Some s'"
    using r True by (auto simp: proc_server_handle_message_def)
  have "mr0 msg = SYS_SET_PARTITION_MODE \<Longrightarrow>
      mr1 msg = 3 \<and> current_thread s = part_thread_main (part_array s ! current_partition s)"
    using handle_message_mode_refused [OF si] eq by (metis option.distinct(1))
  from handle_message_total [OF inv _ this, of dispatch_none] inv eq show ?thesis
    by (auto simp: dispatch_none_def)
next
  case False
  then show ?thesis using r dispatch by (auto simp: proc_server_handle_message_def)
qed

text \<open>The invariant holds in every reachable state, by rule induction.\<close>

lemma reach_sys_inv: "reach n s \<Longrightarrow> sys_inv n s"
proof (induction rule: reach.induct)
  case (boot load tcb c d s)
  from system_init_inv [where tcb = tcb, OF boot(1-5)] boot(6) show ?case
    by (auto simp: sys_inv_def)
next
  case (tick n s s')
  then show ?case using sys_inv_tick by fastforce
next
  case (message n s msg s')
  then show ?case using sys_inv_message by (fastforce simp: dispatch_none_def)
next
  case (clone n s tcb msg s')
  have cp: "current_partition s < POK_CONFIG_NB_PARTITIONS"
    using clone.IH by (simp add: sys_inv_def sched_inv_def)
  have "sys_inv n t" if "dispatch_clone tcb s = Some t" for t
    using that sys_inv_create [OF clone.IH cp] by (auto simp: dispatch_clone_def bind_eq_Some_conv)
  with sys_inv_message [OF clone.IH clone.hyps(2)] show ?case by blast
qed

section \<open>Isolation of the partitions\<close>

lemma upd_sched_isolation:
  assumes inv: "sys_inv n s" and n: "n + 4000 < 2 ^ 64"
    and i: "i < length (proc_array s)" "i \<notin> thread_ids q"
    and f: "proc_ktcb (f (proc_array s ! i)) = proc_ktcb (proc_array s ! i)"
      "i = IDLE_THREAD \<Longrightarrow> proc_remaining (f (proc_array s ! i)) = 0"
    and r: "do { s \<leftarrow> upd_proc i f s; pok_sched s } = Some s'"
    and q: "q < POK_CONFIG_NB_PARTITIONS" "q \<noteq> current_partition s"
  shows "part_untouched q s s'"
proof -
  let ?t = "s\<lparr>proc_array := (proc_array s)[i := f (proc_array s ! i)]\<rparr>"
  have "idle_ok (proc_array s ! IDLE_THREAD)" using inv by (simp add: sys_inv_def sched_inv_def)
  then have "procs_kept (proc_array s) ((proc_array s)[i := f (proc_array s ! i)])"
    using i f by (intro procs_kept_upd) (auto simp: idle_ok_def)
  then have "sys_inv n ?t" by (rule sys_inv_procs [OF inv])
  then have t: "sched_inv ?t" "timeline (pok_tick_counter ?t) ?t" using n by (simp_all add: sys_inv_def)
  have "pok_sched ?t = Some s'" using r i by simp
  from pok_sched_isolation [OF t this q(1)] q(2) have "part_untouched q ?t s'" by simp
  moreover have "part_untouched q s ?t" using i(2) by (auto simp: part_untouched_def intro!: nth_list_update_neq)
  ultimately show ?thesis by (rule part_untouched_trans [rotated])
qed

lemma create_isolation:
  assumes inv: "sys_inv n s" and r: "dispatch_clone tcb s = Some s'"
    and q: "q < POK_CONFIG_NB_PARTITIONS" "q \<noteq> current_partition s"
  shows "part_untouched q s s'"
proof -
  have si: "sched_inv s" using inv by (simp add: sys_inv_def)
  note cp = sched_invD(5) [OF si]
  from r obtain ret tid where c: "pok_partition_thread_create tcb (current_partition s) s = Some (s', ret, tid)"
    by (auto simp: dispatch_clone_def bind_eq_Some_conv)
  show ?thesis
  proof (cases rule: create_cases [OF si cp c])
    case 1
    then show ?thesis by (simp add: part_untouched_refl)
  next
    case (2 i c)
    then show ?thesis
      using q thread_ids_disjoint [OF q(1) cp q(2)]
      by (auto simp: part_untouched_def intro!: nth_list_update_neq)
  qed
qed

lemma message_isolation:
  assumes inv: "sys_inv n s" and n: "n + 4000 < 2 ^ 64"
    and r: "proc_server_handle_message dispatch msg s = Some s'"
    and q: "q < POK_CONFIG_NB_PARTITIONS" "q \<noteq> current_partition s"
    and d: "\<And>t. dispatch s = Some t \<Longrightarrow> part_untouched q s t"
  shows "part_untouched q s s'"
proof -
  have si: "sched_inv s" using inv by (simp add: sys_inv_def)
  note cp = sched_invD(5) [OF si]
  have ok: "part_ok (current_partition s) (part_array s ! current_partition s)"
    by (rule sched_invD(3) [OF si cp])
  note cpr = current_part_rd [OF inv] and cur = inv_current_bound [OF inv]
  have idle: "proc_remaining (proc_array s ! IDLE_THREAD) = 0" "IDLE_THREAD < length (proc_array s)"
    using si by (simp_all add: sched_inv_def idle_ok_def IDLE_THREAD_def)
  have curq: "current_thread s \<notin> thread_ids q"
    using sched_invD(6) [OF si] thread_ids_disjoint [OF q(1) cp q(2)] thread_ids_bound [OF q(1), of "current_thread s"]
    by (auto simp: running_ok_def Let_def IDLE_THREAD_def)
  have self: "part_untouched q s s'"
    if "do { s \<leftarrow> upd_proc (current_thread s) f s; pok_sched s } = Some s'"
      "\<And>t. proc_ktcb (f t) = proc_ktcb t" "\<And>t. proc_remaining t = 0 \<Longrightarrow> proc_remaining (f t) = 0" for f
    using upd_sched_isolation [OF inv n cur curq, of f s'] that q idle by metis
  let ?i = "u32 (mr1 msg)"
  have other: "part_untouched q s s'"
    if "do { s \<leftarrow> upd_proc ?i f s; pok_sched s } = Some s'"
      "\<not> (part_low (part_array s ! current_partition s) > ?i \<or> part_high (part_array s ! current_partition s) < ?i)"
      "\<And>t. proc_ktcb (f t) = proc_ktcb t" for f
  proof -
    have "?i \<in> thread_ids (current_partition s)" using that(2) ok by (auto simp: part_ok_def thread_ids_def)
    then have "?i \<notin> thread_ids q" "?i < length (proc_array s)" "?i \<noteq> IDLE_THREAD"
      using thread_ids_disjoint [OF q(1) cp q(2)] thread_ids_bound [OF cp, of ?i] idle(2)
      by (auto simp: IDLE_THREAD_def) 
    with upd_sched_isolation [OF inv n, of ?i q f s'] that q show ?thesis by blast
  qed
  have mode: "part_untouched q s s'"
    if "pok_partition_set_mode (current_partition s) (part_mode_of (mr1 msg)) s = Some (s', POK_ERRNO_OK)"
  proof -
    have "part_mode_of (mr1 msg) = PART_MODE_NORMAL \<and>
        current_thread s = part_thread_main (part_array s ! current_partition s)"
      using that set_mode_refused [OF si, where mode = "part_mode_of (mr1 msg)" and pid = "current_partition s"]
      by fastforce
    with set_mode_prepared [OF inv] that obtain t where
      t: "\<forall>s'. pok_sched t = Some s' \<longrightarrow>
        pok_partition_set_mode (current_partition s) PART_MODE_NORMAL s = Some (s', POK_ERRNO_OK)"
      "sys_inv n t" "current_partition t = current_partition s" "part_untouched q s t"
      using q by blast
    from sys_inv_sched [OF t(2)] obtain u where u: "pok_sched t = Some u" by blast
    with t(1) that \<open>part_mode_of (mr1 msg) = PART_MODE_NORMAL \<and> _\<close> have "u = s'" by simp
    have "sched_inv t" "timeline (pok_tick_counter t) t" using t(2) n by (simp_all add: sys_inv_def)
    from pok_sched_isolation [OF this u q(1)] q(2) t(3,4) \<open>u = s'\<close> show ?thesis
      by (metis part_untouched_trans)
  qed
  show ?thesis
    using r d mode self other cpr(1) part_untouched_refl [of q s]
    unfolding proc_server_handle_message_def Let_def
    by (auto simp: bind_eq_Some_conv simp del: upd_proc_in split: if_splits)
qed

section \<open>Stopping oneself\<close>

text \<open>A thread that stops itself, seen through the following decision.\<close>

lemma stop_self_status:
  assumes inv: "sys_inv n s" and n: "n + 4000 < 2 ^ 64"
    and label: "mr0 msg = SYS_STOP_SELF \<or> mr0 msg = SYS_SUSPEND_SELF"
    and mode: "part_mode (part_array s ! current_partition s) = PART_MODE_NORMAL"
    and cur: "current_thread s \<noteq> IDLE_THREAD"
      "current_thread s \<noteq> part_thread_main (part_array s ! current_partition s)"
    and r: "proc_server_handle_message dispatch msg s = Some s'"
  shows "proc_status (proc_array s' ! current_thread s) =
    (if proc_remaining (proc_array s ! current_thread s) \<le> 1
     then POK_STATE_WAIT_NEXT_ACTIVATION else POK_STATE_STOPPED)"
proof -
  let ?c = "current_thread s"
  let ?t = "s\<lparr>proc_array := (proc_array s)[?c := (proc_array s ! ?c)\<lparr>proc_status := POK_STATE_STOPPED\<rparr>]\<rparr>"
  note cb = inv_current_bound [OF inv]
  have "procs_kept (proc_array s) (proc_array ?t)" using cb by (auto intro: procs_kept_upd)
  from sys_inv_procs [OF inv this] have it: "sched_inv ?t" "timeline (pok_tick_counter ?t) ?t"
    using n by (simp_all add: sys_inv_def)
  have rt: "pok_sched ?t = Some s'"
    using r label cb by (auto simp: proc_server_handle_message_def sys_labels)
  from pok_sched_cases [OF it(1)] rt obtain p ps e where
    p: "p < POK_CONFIG_NB_PARTITIONS" and e: "elect_spec p ?t = (ps, e)" and
    s': "proc_array s' = set_end_time (pok_tick_counter ?t) e ps" "current_partition s' = p"
    by (metis option.inject)
  have pc: "p = current_partition s" using pok_sched_same_partition [OF it rt] s'(2) by simp
  have kept: "procs_kept (proc_array ?t) ps" by (rule elect_spec_kept(1) [OF it(1) p e])
  have el: "e < length ps"
    using elect_spec_kept(2) [OF it(1) p e] thread_ids_bound [OF p, of e] sched_invD(2) [OF it(1)] kept
    by (auto simp: procs_kept_def IDLE_THREAD_def)
  let ?w = "wake_range (pok_tick_counter s) (part_low (part_array s ! p)) (part_nthreads (part_array s ! p)) (proc_array ?t)"
  have wc: "?w ! ?c = (proc_array s ! ?c)\<lparr>proc_status := POK_STATE_STOPPED\<rparr>"
    using cb by (simp add: nth_wake_range wake_up_def Let_def)
  have "ps = charged ?t ?w"
    using e mode pc by (auto simp: elect_spec_def Let_def init_mode_def)
  moreover have "charged ?t ?w ! ?c = charge (?w ! ?c)"
    using cur cb by (simp add: charged_def Let_def)
  ultimately have "ps ! ?c = charge ((proc_array s ! ?c)\<lparr>proc_status := POK_STATE_STOPPED\<rparr>)"
    by (simp only: wc)
  then show ?thesis
    unfolding s'(1) set_end_time_status [OF el] by (auto simp: charge_def Let_def)
qed

end
