(* ===== verification/Port.thy ===== *)
theory Port
  imports Deployment
begin

text \<open>
  Sampling ports: \<open>system/partition/port.c\<close> and the three sampling handlers of
  \<open>dispatchers/proc_syscall.c\<close>.  The state is the array \<open>pok_ports\<close>; the current partition and
  the tick counter are read from the scheduler's state.

  A message buffer is a list of bytes, a null pointer is \<open>None\<close>.  The block that \<open>malloc\<close>
  returns is an argument: any bytes, or \<open>None\<close> when there is no memory.
\<close>

section \<open>Model\<close>

subsection \<open>Configuration\<close>

definition POK_CONFIG_NB_PORTS :: nat where "POK_CONFIG_NB_PORTS = 2"
definition POK_CONFIG_PARTITIONS_PORTS :: "nat list" where "POK_CONFIG_PARTITIONS_PORTS = [0, 1]"
definition pok_ports_names :: "string list" where "pok_ports_names = [''dataout'', ''datain'']"
definition pok_ports_identifiers :: "nat list" where "pok_ports_identifiers = [0, 1]"
definition pok_ports_nb_destinations :: "nat list" where "pok_ports_nb_destinations = [1, 0]"
definition POK_PORT_MAX_SIZE :: nat where "POK_PORT_MAX_SIZE = 512"
definition POK_PORT_DIRECTION_IN :: nat where "POK_PORT_DIRECTION_IN = 1"
definition POK_PORT_DIRECTION_OUT :: nat where "POK_PORT_DIRECTION_OUT = 2"
definition POK_PORT_KIND_SAMPLING :: nat where "POK_PORT_KIND_SAMPLING = 2"
definition POK_PORT_KIND_INVALID :: nat where "POK_PORT_KIND_INVALID = 10"
definition pok_ports_kind :: "nat list" where
  "pok_ports_kind = [POK_PORT_KIND_SAMPLING, POK_PORT_KIND_SAMPLING]"

lemmas port_config_defs = POK_CONFIG_NB_PORTS_def POK_CONFIG_PARTITIONS_PORTS_def
  pok_ports_names_def pok_ports_identifiers_def pok_ports_nb_destinations_def
  POK_PORT_MAX_SIZE_def POK_PORT_DIRECTION_IN_def POK_PORT_DIRECTION_OUT_def
  POK_PORT_KIND_SAMPLING_def POK_PORT_KIND_INVALID_def pok_ports_kind_def

subsection \<open>State\<close>

record pok_port =
  port_partition :: nat
  port_index :: nat
  port_full :: bool
  port_size :: nat
  port_off_b :: nat
  port_off_e :: nat
  port_direction :: nat
  port_ready :: bool
  port_empty :: bool
  port_kind :: nat
  port_refresh :: nat
  port_last_receive :: nat
  port_must_be_flushed :: bool
  port_data :: "nat list option"

definition zero_port :: pok_port where
  "zero_port = \<lparr>port_partition = 0, port_index = 0, port_full = False, port_size = 0,
     port_off_b = 0, port_off_e = 0, port_direction = 0, port_ready = False, port_empty = False,
     port_kind = 0, port_refresh = 0, port_last_receive = 0, port_must_be_flushed = False,
     port_data = None\<rparr>"

subsection \<open>Operations\<close>

definition port_init_one :: "pok_port \<Rightarrow> pok_port" where
  "port_init_one q = q\<lparr>port_size := 0, port_off_b := 0, port_off_e := 0, port_empty := True,
     port_full := False, port_index := 0, port_ready := False,
     port_kind := POK_PORT_KIND_INVALID, port_last_receive := 0,
     port_must_be_flushed := False\<rparr>"

definition port_init :: "pok_port list \<Rightarrow> pok_port list option" where
  "port_init ports =
     for_each [0..<POK_CONFIG_NB_PORTS] (\<lambda>i ports. modify ports i port_init_one) ports"

definition pok_own_port :: "nat \<Rightarrow> nat \<Rightarrow> bool option" where
  "pok_own_port part port =
     (if port > POK_CONFIG_NB_PORTS then Some False
      else do {
        owner \<leftarrow> rd POK_CONFIG_PARTITIONS_PORTS port;
        Some (owner = part)
      })"

text \<open>The loop over the port names from index \<open>i\<close>; the identifier is the second component.\<close>

function sampling_id_loop :: "nat \<Rightarrow> string \<Rightarrow> nat \<Rightarrow> (pok_ret_t \<times> nat option) option" where
  "sampling_id_loop part name i =
     (if i < POK_CONFIG_NB_PORTS then do {
        n \<leftarrow> rd pok_ports_names i;
        k \<leftarrow> rd pok_ports_kind i;
        if name = n \<and> k = POK_PORT_KIND_SAMPLING then do {
          own \<leftarrow> pok_own_port part i;
          Some (if \<not> own then (POK_ERRNO_PORT, None) else (POK_ERRNO_OK, Some i))
        }
        else sampling_id_loop part name (Suc i)
      }
      else Some (POK_ERRNO_NOTFOUND, None))"
  by pat_completeness auto
termination
  by (relation "measure (\<lambda>(part, name, i). POK_CONFIG_NB_PORTS - i)") auto

declare sampling_id_loop.simps [simp del]

definition pok_port_sampling_id :: "nat \<Rightarrow> string \<Rightarrow> (pok_ret_t \<times> nat option) option" where
  "pok_port_sampling_id part name = sampling_id_loop part name 0"

definition port_opened :: "nat list option \<Rightarrow> nat \<Rightarrow> nat \<Rightarrow> nat \<Rightarrow> nat \<Rightarrow> nat \<Rightarrow> pok_port \<Rightarrow> pok_port"
  where
  "port_opened block part ident sz direction kind q =
     q\<lparr>port_index := ident, port_off_b := 0, port_off_e := 0, port_size := sz,
       port_full := False, port_partition := part, port_direction := direction,
       port_ready := True, port_kind := kind, port_data := block\<rparr>"

text \<open>
  The result is the new array, the return code and the value stored through \<open>id\<close>, if one is.
  \<open>block\<close> is what \<open>malloc(size)\<close> returns.
\<close>

definition pok_port_create ::
  "(nat \<Rightarrow> nat list option) \<Rightarrow> nat \<Rightarrow> string \<Rightarrow> nat \<Rightarrow> nat \<Rightarrow> nat \<Rightarrow> pok_port list \<Rightarrow>
   (pok_port list \<times> pok_ret_t \<times> nat option) option" where
  "pok_port_create block part name sz direction kind ports =
     (if sz > POK_PORT_MAX_SIZE then Some (ports, POK_ERRNO_PORT, None)
      else if direction \<noteq> POK_PORT_DIRECTION_IN \<and> direction \<noteq> POK_PORT_DIRECTION_OUT
      then Some (ports, POK_ERRNO_PORT, None)
      else if kind \<noteq> POK_PORT_KIND_SAMPLING then Some (ports, POK_ERRNO_EINVAL, None)
      else do {
        (ret, found) \<leftarrow> pok_port_sampling_id part name;
        case found of
          None \<Rightarrow> Some (ports, ret, None)
        | Some gid \<Rightarrow> do {
            q \<leftarrow> rd ports gid;
            if port_ready q then Some (ports, POK_ERRNO_EXISTS, Some gid)
            else do {
              ident \<leftarrow> rd pok_ports_identifiers gid;
              ports \<leftarrow> modify ports gid (port_opened (block sz) part ident sz direction kind);
              Some (ports, POK_ERRNO_OK, Some gid)
            }
          }
      })"

text \<open>\<open>memcpy\<close>: nothing for no bytes; otherwise both blocks have to hold \<open>n\<close> bytes.\<close>

definition memcpy :: "nat list option \<Rightarrow> nat list option \<Rightarrow> nat \<Rightarrow> nat list option option" where
  "memcpy dst src n =
     (if n = 0 then Some dst
      else do {
        d \<leftarrow> dst;
        b \<leftarrow> src;
        c_assert (n \<le> length d \<and> n \<le> length b);
        Some (Some (take n b @ drop n d))
      })"

text \<open>
  The buffer \<open>temp\<close> of \<open>pok_port_get\<close> has \<open>size + 1\<close> cells, and the terminator goes to cell
  \<open>size + 1\<close>; the message is printed and not handed to the caller.
\<close>

definition pok_port_get :: "nat \<Rightarrow> nat \<Rightarrow> pok_port list \<Rightarrow> pok_ret_t option" where
  "pok_port_get pid sz ports = do {
     q \<leftarrow> rd ports pid;
     if port_kind q = POK_PORT_KIND_SAMPLING then
       (if port_empty q then Some POK_ERRNO_EMPTY
        else if sz > port_size q then Some POK_ERRNO_SIZE
        else do {
          copied \<leftarrow> memcpy (Some (replicate (sz + 1) 0)) (port_data q) sz;
          temp \<leftarrow> copied;
          temp \<leftarrow> wr temp (sz + 1) 0;
          Some POK_ERRNO_OK
        })
     else Some POK_ERRNO_EINVAL
   }"

definition pok_port_write ::
  "nat \<Rightarrow> nat \<Rightarrow> nat list option \<Rightarrow> nat \<Rightarrow> pok_port list \<Rightarrow> (pok_port list \<times> pok_ret_t) option"
  where
  "pok_port_write now pid data sz ports = do {
     dest \<leftarrow> rd pok_ports_nb_destinations pid;
     q \<leftarrow> rd ports pid;
     if port_kind q = POK_PORT_KIND_SAMPLING then do {
       d \<leftarrow> rd ports dest;
       if sz > port_size d then Some (ports, POK_ERRNO_SIZE)
       else do {
         buf \<leftarrow> memcpy (port_data d) data sz;
         ports \<leftarrow> modify ports dest
           (\<lambda>d. d\<lparr>port_data := buf, port_empty := False, port_last_receive := u32 now\<rparr>);
         Some (ports, POK_ERRNO_OK)
       }
     }
     else Some (ports, POK_ERRNO_EINVAL)
   }"

subsection \<open>The handlers of the process server\<close>

text \<open>An array access with an index of type \<open>int\<close>.\<close>

definition rdi :: "'a list \<Rightarrow> int \<Rightarrow> 'a option" where
  "rdi xs i = (if i < 0 then None else rd xs (nat i))"

text \<open>
  The call of \<open>pok_port_create\<close> is followed by \<open>while(1);\<close>: the handler does not return, and
  with it the process server.  Its effect on the ports is lost with it.
\<close>

definition proc_port_sampling_create_handler ::
  "(nat \<Rightarrow> nat list option) \<Rightarrow> sched_state \<Rightarrow> string \<Rightarrow> int \<Rightarrow> int \<Rightarrow> int \<Rightarrow> pok_port list \<Rightarrow>
   (pok_port list \<times> pok_ret_t) option" where
  "proc_port_sampling_create_handler block s name sz core period ports = do {
     created \<leftarrow> pok_port_create block (current_partition s) name (u32i sz) (u32i core)
       POK_PORT_KIND_SAMPLING ports;
     None
   }"

definition proc_port_sampling_write_handler ::
  "sched_state \<Rightarrow> int \<Rightarrow> nat list option \<Rightarrow> int \<Rightarrow> pok_port list \<Rightarrow>
   (pok_port list \<times> pok_ret_t) option" where
  "proc_port_sampling_write_handler s ident data len ports =
     (if data = None then Some (ports, POK_ERRNO_EINVAL)
      else if ident > int POK_CONFIG_NB_PORTS then Some (ports, POK_ERRNO_EINVAL)
      else do {
        own \<leftarrow> pok_own_port (current_partition s) (u8i ident);
        if \<not> own then Some (ports, POK_ERRNO_PORT)
        else do {
          q \<leftarrow> rdi ports ident;
          if \<not> port_ready q then Some (ports, POK_ERRNO_EINVAL)
          else if u32i len > port_size q then Some (ports, POK_ERRNO_EINVAL)
          else if port_direction q \<noteq> POK_PORT_DIRECTION_OUT
          then Some (ports, POK_ERRNO_DIRECTION)
          else do {
            (ports, ignored) \<leftarrow>
              pok_port_write (pok_tick_counter s) (u8i ident) data (u32i len) ports;
            ports \<leftarrow> modify ports (nat ident) (\<lambda>q. q\<lparr>port_must_be_flushed := True\<rparr>);
            Some (ports, POK_ERRNO_OK)
          }
        }
      })"

text \<open>The two values written through \<open>len\<close> and \<open>valid\<close> are \<open>None\<close> when none is written.\<close>

definition proc_port_sampling_read_handler ::
  "sched_state \<Rightarrow> int \<Rightarrow> nat list option \<Rightarrow> pok_port list \<Rightarrow>
   (pok_ret_t \<times> (nat \<times> bool) option) option" where
  "proc_port_sampling_read_handler s ident data ports =
     (if data = None then Some (POK_ERRNO_EINVAL, None)
      else if ident > int POK_CONFIG_NB_PORTS then Some (POK_ERRNO_EINVAL, None)
      else do {
        own \<leftarrow> pok_own_port (current_partition s) (u8i ident);
        if \<not> own then Some (POK_ERRNO_PORT, None)
        else do {
          q \<leftarrow> rdi ports ident;
          if \<not> port_ready q then Some (POK_ERRNO_PORT, None)
          else if port_kind q \<noteq> POK_PORT_KIND_SAMPLING then Some (POK_ERRNO_EINVAL, None)
          else if port_direction q \<noteq> POK_PORT_DIRECTION_IN then Some (POK_ERRNO_MODE, None)
          else do {
            ret \<leftarrow> pok_port_get (u8i ident) (port_size q) ports;
            if ret = POK_ERRNO_EMPTY then Some (POK_ERRNO_EMPTY, Some (0, False))
            else Some (POK_ERRNO_OK, Some (port_size q,
              \<not> u32 (port_last_receive q + port_refresh q) < pok_tick_counter s))
          }
        }
      })"

section \<open>Invariant\<close>

text \<open>
  An open port is a sampling port with a size within the limit, one of the two directions, and
  a buffer of that size (or none when the allocation failed).  A closed one has no room.
\<close>

definition port_ok :: "pok_port \<Rightarrow> bool" where
  "port_ok q \<longleftrightarrow>
     (if port_ready q
      then port_kind q = POK_PORT_KIND_SAMPLING \<and> port_size q \<le> POK_PORT_MAX_SIZE \<and>
        port_direction q \<in> {POK_PORT_DIRECTION_IN, POK_PORT_DIRECTION_OUT} \<and>
        (\<forall>b. port_data q = Some b \<longrightarrow> length b = port_size q)
      else port_kind q = POK_PORT_KIND_INVALID \<and> port_size q = 0)"

definition port_inv :: "pok_port list \<Rightarrow> bool" where
  "port_inv ports \<longleftrightarrow> length ports = POK_CONFIG_NB_PORTS \<and> (\<forall>q \<in> set ports. port_ok q)"

lemma port_inv_nth: "port_inv ports \<Longrightarrow> i < 2 \<Longrightarrow> i < length ports \<and> port_ok (ports ! i)"
  by (simp add: port_inv_def POK_CONFIG_NB_PORTS_def)

lemma port_inv_update: "port_inv ports \<Longrightarrow> port_ok q \<Longrightarrow> port_inv (ports[i := q])"
  by (auto simp: port_inv_def dest: set_update_subset_insert [THEN subsetD])

lemma port_init_inv:
  assumes "length ports = POK_CONFIG_NB_PORTS"
  shows "\<exists>ports'. port_init ports = Some ports' \<and> port_inv ports' \<and> (\<forall>q \<in> set ports'. \<not> port_ready q)"
proof -
  from assms obtain a b where "ports = [a, b]"
    by (auto simp: POK_CONFIG_NB_PORTS_def numeral_2_eq_2 length_Suc_conv)
  then show ?thesis
    by (simp add: port_init_def POK_CONFIG_NB_PORTS_def upt_rec modify_def port_inv_def port_ok_def
        port_init_one_def)
qed

section \<open>Ownership and lookup\<close>

lemma pok_own_port_eq:
  "pok_own_port p i = (if i = 2 then None else Some (i < 2 \<and> i = p))"
  by (auto simp: pok_own_port_def port_config_defs rd_def nth_Cons' split: if_splits)

lemma pok_port_sampling_id_eq:
  "pok_port_sampling_id p name =
     Some (if name = ''dataout'' then (if p = 0 then (POK_ERRNO_OK, Some 0) else (POK_ERRNO_PORT, None))
       else if name = ''datain'' then (if p = 1 then (POK_ERRNO_OK, Some 1) else (POK_ERRNO_PORT, None))
       else (POK_ERRNO_NOTFOUND, None))"
  by (simp add: pok_port_sampling_id_def sampling_id_loop.simps pok_own_port_eq port_config_defs
      rd_def)

section \<open>Creation\<close>

definition create_accepts :: "nat \<Rightarrow> string \<Rightarrow> nat \<Rightarrow> nat \<Rightarrow> nat \<Rightarrow> bool" where
  "create_accepts p name sz direction kind \<longleftrightarrow> sz \<le> POK_PORT_MAX_SIZE \<and>
     (direction = POK_PORT_DIRECTION_IN \<or> direction = POK_PORT_DIRECTION_OUT) \<and>
     kind = POK_PORT_KIND_SAMPLING \<and> p < POK_CONFIG_NB_PORTS \<and> name = pok_ports_names ! p"

lemma pok_port_create_accept:
  assumes "port_inv ports" and "create_accepts p name sz direction kind"
  shows "pok_port_create block p name sz direction kind ports =
    (if port_ready (ports ! p) then Some (ports, POK_ERRNO_EXISTS, Some p)
     else Some (ports[p := port_opened (block sz) p p sz direction kind (ports ! p)],
       POK_ERRNO_OK, Some p))"
proof -
  have "p = 0 \<or> p = 1" using assms(2) by (auto simp: create_accepts_def POK_CONFIG_NB_PORTS_def)
  moreover have "p < length ports" using assms by (simp add: create_accepts_def port_inv_def)
  ultimately show ?thesis using assms(2)
    by (auto simp: pok_port_create_def create_accepts_def pok_port_sampling_id_eq port_config_defs)
qed

lemma pok_port_create_refuse:
  assumes "\<not> create_accepts p name sz direction kind"
  shows "\<exists>e. pok_port_create block p name sz direction kind ports = Some (ports, e, None) \<and>
    e \<in> {POK_ERRNO_PORT, POK_ERRNO_EINVAL, POK_ERRNO_NOTFOUND}"
  using assms
  by (auto simp: pok_port_create_def create_accepts_def pok_port_sampling_id_eq port_config_defs
      split: if_splits)

lemma port_opened_ok:
  assumes "create_accepts p name sz direction kind" "\<And>b. block sz = Some b \<Longrightarrow> length b = sz"
  shows "port_ok (port_opened (block sz) p i sz direction kind q)"
  using assms by (auto simp: port_ok_def port_opened_def create_accepts_def)

section \<open>Transfer\<close>

lemma memcpy_Some:
  "memcpy dst src n = Some r \<longleftrightarrow> (n = 0 \<and> r = dst) \<or>
     (0 < n \<and> (\<exists>d b. dst = Some d \<and> src = Some b \<and> n \<le> length d \<and> n \<le> length b \<and>
       r = Some (take n b @ drop n d)))"
  by (auto simp: memcpy_def bind_eq_Some_conv)

lemma pok_port_get_not_ok: "pok_port_get pid sz ports \<noteq> Some POK_ERRNO_OK"
proof
  assume "pok_port_get pid sz ports = Some POK_ERRNO_OK"
  then obtain q :: pok_port and temp t where "memcpy (Some (replicate (sz + 1) 0)) (port_data q) sz = Some (Some temp)"
    and "wr temp (sz + 1) 0 = Some t"
    by (auto simp: pok_port_get_def bind_eq_Some_conv split: if_splits)
  then show False by (auto simp: memcpy_Some wr_Some_iff)
qed

lemma pok_port_get_cases:
  assumes "pid < length ports" "port_kind (ports ! pid) = POK_PORT_KIND_SAMPLING"
    and "pok_port_get pid (port_size (ports ! pid)) ports = Some ret"
  shows "ret = POK_ERRNO_EMPTY"
  using assms pok_port_get_not_ok [of pid "port_size (ports ! pid)" ports]
  by (auto simp: pok_port_get_def bind_eq_Some_conv split: if_splits)

lemma write_handler_ok:
  assumes "proc_port_sampling_write_handler s ident (Some m) len ports = Some (ports', POK_ERRNO_OK)"
    and "port_inv ports"
  defines "p \<equiv> current_partition s" and "d \<equiv> 1 - current_partition s" and "n \<equiv> u32i len"
  shows "p < 2" "ident = int p" "port_ready (ports ! p)" "n \<le> port_size (ports ! p)"
    "port_direction (ports ! p) = POK_PORT_DIRECTION_OUT"
    "\<exists>r. pok_port_write (pok_tick_counter s) p (Some m) n ports = Some r \<and>
       ports' = (fst r)[p := (fst r ! p)\<lparr>port_must_be_flushed := True\<rparr>]"
  using assms(1,2)
  by (auto simp: proc_port_sampling_write_handler_def p_def n_def rdi_def pok_own_port_eq
      bind_eq_Some_conv rd_Some_iff modify_Some_iff u8i_def port_inv_def POK_CONFIG_NB_PORTS_def
      split: if_splits)


lemma port_write_cases:
  assumes "port_inv ports" "p < 2" "port_ready (ports ! p)"
  shows "pok_port_write now p data n ports =
    (if n > port_size (ports ! (1 - p)) then Some (ports, POK_ERRNO_SIZE)
     else do {
       buf \<leftarrow> memcpy (port_data (ports ! (1 - p))) data n;
       Some (ports[1 - p := (ports ! (1 - p))\<lparr>port_data := buf, port_empty := False,
         port_last_receive := u32 now\<rparr>], POK_ERRNO_OK)
     })"
proof -
  have "p = 0 \<or> p = 1" using assms(2) by auto
  moreover have "port_kind (ports ! p) = POK_PORT_KIND_SAMPLING" "length ports = 2"
    using port_inv_nth [OF assms(1,2)] assms(1,3)
    by (auto simp: port_ok_def port_inv_def POK_CONFIG_NB_PORTS_def)
  ultimately show ?thesis
    by (auto simp: pok_port_write_def pok_ports_nb_destinations_def)
qed

lemma port_write_inv:
  assumes "port_inv ports" "p < 2" "port_ready (ports ! p)"
    and "pok_port_write now p data n ports = Some (ports', r)"
  shows "port_inv ports'"
proof -
  have ok: "port_ok (ports ! (1 - p))" using port_inv_nth [OF assms(1), of "1 - p"] by simp
  have "port_ok ((ports ! (1 - p))\<lparr>port_data := buf, port_empty := False, port_last_receive := u32 now\<rparr>)"
    if "memcpy (port_data (ports ! (1 - p))) data n = Some buf" for buf
    using ok that by (auto simp: port_ok_def memcpy_Some)
  with assms show ?thesis
    by (auto simp: port_write_cases bind_eq_Some_conv intro: port_inv_update split: if_splits)
qed

lemma write_handler_inv:
  assumes inv: "port_inv ports" and w: "proc_port_sampling_write_handler s ident data len ports = Some (ports', r)"
  shows "port_inv ports'"
proof (cases "r = POK_ERRNO_OK \<and> data \<noteq> None")
  case True
  then obtain m where w: "proc_port_sampling_write_handler s ident (Some m) len ports = Some (ports', POK_ERRNO_OK)"
    using w by auto
  note f = write_handler_ok [OF w inv]
  from f(6) obtain q e where q: "pok_port_write (pok_tick_counter s) (current_partition s) (Some m) (u32i len) ports = Some (q, e)"
    "ports' = q[current_partition s := (q ! current_partition s)\<lparr>port_must_be_flushed := True\<rparr>]" by auto
  from port_write_inv [OF inv f(1,3) q(1)] have "port_inv q" .
  moreover have "port_ok ((q ! current_partition s)\<lparr>port_must_be_flushed := True\<rparr>)"
    using port_inv_nth [OF \<open>port_inv q\<close> f(1)] by (auto simp: port_ok_def)
  ultimately show ?thesis using q(2) by (auto intro: port_inv_update)
next
  case False
  with w inv show ?thesis
    by (auto simp: proc_port_sampling_write_handler_def bind_eq_Some_conv split: if_splits)
qed


lemma write_handler_effect:
  assumes inv: "port_inv ports"
    and w: "proc_port_sampling_write_handler s ident (Some m) len ports = Some (ports', POK_ERRNO_OK)"
  defines "p \<equiv> current_partition s" and "d \<equiv> 1 - current_partition s" and "n \<equiv> u32i len"
  shows "n \<le> port_size (ports ! d) \<Longrightarrow> 0 < n \<Longrightarrow>
      \<not> port_empty (ports' ! d) \<and> port_last_receive (ports' ! d) = u32 (pok_tick_counter s) \<and>
      (\<exists>old. port_data (ports ! d) = Some old \<and>
         port_data (ports' ! d) = Some (take n m @ drop n old) \<and> n \<le> length m)"
    and "port_size (ports ! d) < n \<Longrightarrow> ports' = ports[p := (ports ! p)\<lparr>port_must_be_flushed := True\<rparr>]"
proof -
  note f = write_handler_ok [OF w inv]
  have pd: "p < 2" "p \<noteq> d" "d < 2" "length ports = 2"
    using f(1) inv by (cases "current_partition s"; simp add: p_def d_def port_inv_def POK_CONFIG_NB_PORTS_def)+
  from f(6) obtain q e where q: "pok_port_write (pok_tick_counter s) p (Some m) n ports = Some (q, e)"
    "ports' = q[p := (q ! p)\<lparr>port_must_be_flushed := True\<rparr>]" by (auto simp: p_def n_def)
  note q(1) [unfolded port_write_cases [OF inv f(1,3), folded p_def], folded d_def p_def]
  note pw = this [unfolded p_def, folded d_def, folded p_def]
  show "n \<le> port_size (ports ! d) \<Longrightarrow> 0 < n \<Longrightarrow>
      \<not> port_empty (ports' ! d) \<and> port_last_receive (ports' ! d) = u32 (pok_tick_counter s) \<and>
      (\<exists>old. port_data (ports ! d) = Some old \<and>
         port_data (ports' ! d) = Some (take n m @ drop n old) \<and> n \<le> length m)"
    using pw q(2) pd by (auto simp: bind_eq_Some_conv memcpy_Some)
  show "port_size (ports ! d) < n \<Longrightarrow> ports' = ports[p := (ports ! p)\<lparr>port_must_be_flushed := True\<rparr>]"
    using pw q(2) by simp
qed

section \<open>Properties\<close>


definition demo_ports :: "pok_port list" where
  "demo_ports = [port_init_one zero_port, port_init_one zero_port]"

definition demo_block :: "nat \<Rightarrow> nat list option" where
  "demo_block n = Some (replicate n 0)"

definition demo_open :: "nat \<Rightarrow> pok_port list" where
  "demo_open n = [port_opened (demo_block 4) 0 0 4 POK_PORT_DIRECTION_OUT POK_PORT_KIND_SAMPLING
     (port_init_one zero_port), port_opened (demo_block n) 1 1 n POK_PORT_DIRECTION_IN
     POK_PORT_KIND_SAMPLING (port_init_one zero_port)]"

lemma demo_ports_inv: "port_inv demo_ports" "n \<le> 512 \<Longrightarrow> port_inv (demo_open n)"
  by (simp_all add: port_inv_def port_ok_def demo_ports_def demo_open_def demo_block_def
      port_opened_def port_init_one_def port_config_defs)




text \<open>
  Receiving from a sampling port.  The read handler never answers \<open>OK\<close>: once the guards
  are passed and a message is there, the terminator of the copy is written one cell past the
  end of its buffer.  No message reaches a partition.
\<close>

theorem sampling_read_never_ok:
  "proc_port_sampling_read_handler s ident data ports \<noteq> Some (POK_ERRNO_OK, r)"
  using pok_port_get_cases [of "u8i ident" ports]
  by (auto simp: proc_port_sampling_read_handler_def bind_eq_Some_conv pok_own_port_eq rdi_def
      u8i_def rd_Some_iff POK_CONFIG_NB_PORTS_def split: if_splits)

end
