(* ===== verification/Cpool.thy ===== *)
theory Cpool
  imports Cvector
begin

text \<open>
  \<open>libdatastruct/src/cpool.c\<close>: allocation of identifiers in \<open>[start, end]\<close>.  Identifiers below \<open>mx\<close>
  have been handed out at least once; those returned since then wait on the free list, which is
  served last-in first-out.
\<close>

section \<open>Model\<close>

record cpool =
  cp_start :: nat
  cp_end :: nat
  cp_mx :: nat
  cp_freelist :: "nat cvector"

definition cpool_init :: "nat \<Rightarrow> nat \<Rightarrow> cpool" where
  "cpool_init start end' =
     \<lparr>cp_start = start, cp_end = end', cp_mx = start, cp_freelist = cvector_init\<rparr>"

definition cpool_release :: "cpool \<Rightarrow> cpool" where
  "cpool_release p = (let p1 = p\<lparr>cp_freelist := cvector_free (cp_freelist p)\<rparr> in cpool_init 0 0)"

definition cpool_alloc :: "(nat \<Rightarrow> bool) \<Rightarrow> cpool \<Rightarrow> (cpool \<times> nat) option" where
  "cpool_alloc mem p =
     (let fSz = cvector_count (cp_freelist p) in
      if fSz > 0 then
        do {
          obj \<leftarrow> cvector_get (cp_freelist p) (fSz - 1);
          fl \<leftarrow> cvector_delete mem (cp_freelist p) (fSz - 1);
          Some (p\<lparr>cp_freelist := fl\<rparr>, obj)
        }
      else if cp_mx p \<le> cp_end p then Some (p\<lparr>cp_mx := u32 (cp_mx p + 1)\<rparr>, cp_mx p)
      else Some (p, 0))"

definition cpool_free :: "(nat \<Rightarrow> bool) \<Rightarrow> cpool \<Rightarrow> nat \<Rightarrow> cpool option" where
  "cpool_free mem p obj =
     (if obj < cp_start p \<or> obj > cp_end p \<or> obj \<ge> cp_mx p then Some p
      else if obj = cp_mx p then Some (p\<lparr>cp_mx := u32 (obj + (2 ^ 32 - 1))\<rparr>)
      else do {
        (fl, _) \<leftarrow> cvector_add mem (cp_freelist p) obj;
        Some (p\<lparr>cp_freelist := fl\<rparr>)
      })"

definition cpool_check :: "cpool \<Rightarrow> nat \<Rightarrow> bool option" where
  "cpool_check p obj =
     (if obj < cp_start p \<or> obj > cp_end p then Some False
      else if obj > cp_mx p then Some True
      else do {
        r \<leftarrow> for_find (cvector_get (cp_freelist p)) (\<lambda>x. x = obj) 0
               (cvector_count (cp_freelist p));
        Some (r \<noteq> None)
      })"

section \<open>Invariant\<close>

definition cp_inv :: "cpool \<Rightarrow> bool" where
  "cp_inv p \<longleftrightarrow> 0 < cp_start p \<and> cp_start p \<le> cp_mx p \<and> cp_mx p \<le> Suc (cp_end p) \<and>
     cp_end p < 2 ^ 32 - 1 \<and> cv_inv (cp_freelist p) \<and> distinct (cv_list (cp_freelist p)) \<and>
     set (cv_list (cp_freelist p)) \<subseteq> {cp_start p..<cp_mx p}"

definition cp_live :: "cpool \<Rightarrow> nat set" where
  "cp_live p = {cp_start p..<cp_mx p} - set (cv_list (cp_freelist p))"

definition cp_range :: "cpool \<Rightarrow> nat set" where
  "cp_range p = {cp_start p..cp_end p}"

lemmas cp_defs = cp_inv_def cp_live_def cp_range_def

lemma cpool_init_inv:
  "0 < s \<Longrightarrow> s \<le> Suc e \<Longrightarrow> e < 2 ^ 32 - 1 \<Longrightarrow>
   cp_inv (cpool_init s e) \<and> cp_live (cpool_init s e) = {} \<and> cp_range (cpool_init s e) = {s..e}"
  by (simp add: cp_defs cpool_init_def)

section \<open>Allocation and release\<close>

lemma cpool_alloc_recycle:
  assumes inv: "cp_inv p" and fl: "cv_list (cp_freelist p) = xs @ [x]"
  shows "\<exists>q. cpool_alloc heap_ok p = Some (q, x) \<and> cp_inv q \<and> cp_live q = insert x (cp_live p) \<and>
    cp_range q = cp_range p \<and> cp_mx q = cp_mx p"
proof -
  let ?v = "cp_freelist p"
  have cv: "cv_inv ?v" using inv by (simp add: cp_inv_def)
  have n: "cvector_count ?v = Suc (length xs)" by (simp add: cvector_count_list [OF cv] fl)
  from cvector_delete_list [OF cv, of "length xs"] obtain w where
    w: "cvector_delete heap_ok ?v (length xs) = Some w" "cv_inv w" "cv_list w = xs"
    by (auto simp: fl)
  have "x \<in> {cp_start p..<cp_mx p}" "x \<notin> set xs" "distinct xs" "set xs \<subseteq> {cp_start p..<cp_mx p}"
    using inv by (auto simp: cp_inv_def fl)
  with inv w n show ?thesis
    by (auto simp: cpool_alloc_def cvector_get_list [OF cv] fl cp_defs)
qed

lemma cpool_alloc_fresh:
  assumes inv: "cp_inv p" and fl: "cv_list (cp_freelist p) = []" and room: "cp_mx p \<le> cp_end p"
  shows "\<exists>q. cpool_alloc heap_ok p = Some (q, cp_mx p) \<and> cp_inv q \<and>
    cp_live q = insert (cp_mx p) (cp_live p) \<and> cp_range q = cp_range p"
  using assms by (auto simp: cpool_alloc_def cvector_count_list cp_defs)

lemma cpool_alloc_full:
  assumes inv: "cp_inv p" and fl: "cv_list (cp_freelist p) = []" and room: "cp_end p < cp_mx p"
  shows "cpool_alloc heap_ok p = Some (p, 0) \<and> cp_live p = cp_range p"
  using assms by (auto simp: cpool_alloc_def cvector_count_list cp_defs)

lemma cpool_alloc_cases:
  assumes "cp_inv p"
  obtains (recycle) xs x q where "cv_list (cp_freelist p) = xs @ [x]"
      "cpool_alloc heap_ok p = Some (q, x)" "cp_inv q" "cp_live q = insert x (cp_live p)"
      "cp_range q = cp_range p"
  | (fresh) q where "cp_mx p \<le> cp_end p" "cv_list (cp_freelist p) = []"
      "cpool_alloc heap_ok p = Some (q, cp_mx p)" "cp_inv q"
      "cp_live q = insert (cp_mx p) (cp_live p)" "cp_range q = cp_range p"
  | (full) "cpool_alloc heap_ok p = Some (p, 0)" "cp_live p = cp_range p"
proof (cases "cv_list (cp_freelist p)" rule: rev_cases)
  case Nil
  show thesis
  proof (cases "cp_mx p \<le> cp_end p")
    case True
    with cpool_alloc_fresh [OF assms Nil True] Nil show thesis by (auto intro: fresh)
  next
    case False
    with cpool_alloc_full [OF assms Nil] show thesis by (auto intro: full)
  qed
next
  case (snoc xs x)
  with cpool_alloc_recycle [OF assms snoc] show thesis by (auto intro: recycle)
qed

lemma cpool_free_live:
  assumes inv: "cp_inv p" and i: "i \<in> cp_live p"
  shows "\<exists>q. cpool_free heap_ok p i = Some q \<and> cp_inv q \<and> cp_range q = cp_range p \<and>
    cp_live q = cp_live p - {i}"
proof -
  have cv: "cv_inv (cp_freelist p)" using inv by (simp add: cp_inv_def)
  from cvector_add_list [OF cv, of i] obtain w n where
    w: "cvector_add heap_ok (cp_freelist p) i = Some (w, n)" "cv_inv w"
    "cv_list w = cv_list (cp_freelist p) @ [i]" by auto
  have b: "cp_start p \<le> i" "i < cp_mx p" "i \<le> cp_end p" "i \<notin> set (cv_list (cp_freelist p))"
    using inv i by (auto simp: cp_defs)
  then have "cpool_free heap_ok p i = Some (p\<lparr>cp_freelist := w\<rparr>)"
    by (simp add: cpool_free_def w(1))
  moreover have "cp_inv (p\<lparr>cp_freelist := w\<rparr>)" using inv b w by (auto simp: cp_inv_def)
  ultimately show ?thesis using inv b w by (auto simp: cp_defs)
qed

lemma cp_zero: "cp_inv p \<Longrightarrow> 0 \<notin> cp_range p" "cp_inv p \<Longrightarrow> cp_live p \<subseteq> cp_range p"
  by (auto simp: cp_defs)

lemma cpool_alloc_result:
  assumes inv: "cp_inv p" and al: "cpool_alloc heap_ok p = Some (q, i)" and i: "i \<noteq> 0"
  shows "i \<in> cp_range p \<and> i \<notin> cp_live p \<and> cp_live q = insert i (cp_live p)"
  using inv
proof (cases rule: cpool_alloc_cases)
  case (recycle xs x q')
  with al inv show ?thesis by (auto simp: cp_defs)
next
  case (fresh q')
  with al inv show ?thesis by (auto simp: cp_defs)
next
  case full
  with al i show ?thesis by simp
qed

lemma cpool_alloc_zero:
  assumes inv: "cp_inv p" and al: "cpool_alloc heap_ok p = Some (q, 0)"
  shows "cp_live p = cp_range p \<and> cp_live q = cp_live p"
  using inv
proof (cases rule: cpool_alloc_cases)
  case (recycle xs x q')
  with al inv have "0 \<in> set (cv_list (cp_freelist p))" by simp
  with inv have "0 \<in> {cp_start p..<cp_mx p}" unfolding cp_inv_def by blast
  with inv show ?thesis by (simp add: cp_inv_def)
next
  case (fresh q')
  with al inv show ?thesis by (auto simp: cp_inv_def)
next
  case full
  with al show ?thesis by simp
qed

interpretation cp: id_pool cp_inv cp_live cp_range "cpool_alloc heap_ok" "cpool_free heap_ok"
proof
  fix p q i assume inv: "cp_inv p"
  show "0 \<notin> cp_range p" "cp_live p \<subseteq> cp_range p" using cp_zero [OF inv] by auto
  show "\<exists>q i. cpool_alloc heap_ok p = Some (q, i)" using inv by (cases rule: cpool_alloc_cases) auto
  assume al: "cpool_alloc heap_ok p = Some (q, i)"
  from inv show "cp_inv q \<and> cp_range q = cp_range p"
    by (cases rule: cpool_alloc_cases) (use al inv in auto)
next
  fix p q i assume "cp_inv p" "cpool_alloc heap_ok p = Some (q, i)" "i \<noteq> 0"
  then show "i \<in> cp_range p \<and> i \<notin> cp_live p \<and> cp_live q = insert i (cp_live p)"
    by (rule cpool_alloc_result)
next
  fix p q assume "cp_inv p" "cpool_alloc heap_ok p = Some (q, 0)"
  then show "cp_live p = cp_range p \<and> cp_live q = cp_live p" by (rule cpool_alloc_zero)
next
  fix p i assume "cp_inv p" "i \<in> cp_live p"
  then show "\<exists>q. cpool_free heap_ok p i = Some q \<and> cp_inv q \<and> cp_range q = cp_range p \<and>
      cp_live q = cp_live p - {i}" by (rule cpool_free_live)
qed

lemma cpool_alloc_mx:
  "cpool_alloc mem p = Some (q, i) \<Longrightarrow> cp_mx q = cp_mx p \<or> i = cp_mx p \<and> cp_mx q = u32 (cp_mx p + 1)"
  by (auto simp: cpool_alloc_def Let_def bind_eq_Some_conv split: if_splits)

text \<open>The last identifier of the range is handed out only when all others are in use.\<close>

lemma cpool_alloc_last:
  assumes cp: "cp_inv pool" and al: "cpool_alloc heap_ok pool = Some (q, i)"
    and mx: "cp_end pool \<in> cp_live pool \<or> cp_mx pool \<le> cp_end pool"
  shows "cp_end pool \<in> cp_live q \<or> cp_mx q \<le> cp_end pool"
    and "i = cp_end pool \<Longrightarrow> i \<noteq> 0 \<Longrightarrow> {cp_start pool..<cp_end pool} \<subseteq> cp_live pool"
proof -
  have live: "cp_live pool \<subseteq> cp_live q"
    using cp.alloc_fresh [OF cp al] cp.alloc_full [OF cp, of q] al by (cases "i = 0") auto
  show "cp_end pool \<in> cp_live q \<or> cp_mx q \<le> cp_end pool"
  proof (cases "cp_mx q = cp_mx pool")
    case True
    with mx live show ?thesis by auto
  next
    case False
    with cpool_alloc_mx [OF al] have i: "i = cp_mx pool" "cp_mx q = u32 (cp_mx pool + 1)" by auto
    then have "i \<in> cp_live q" using cp.alloc_fresh [OF cp al] cp by (auto simp: cp_inv_def)
    moreover have "u32 (cp_mx pool + 1) = cp_mx pool + 1" if "cp_mx pool < cp_end pool"
      using that cp by (simp add: cp_inv_def)
    ultimately show ?thesis using mx live i by (cases "cp_mx pool = cp_end pool") auto
  qed
  assume i: "i = cp_end pool" "i \<noteq> 0"
  have notlive: "cp_end pool \<notin> cp_live pool" using cp.alloc_fresh [OF cp al] i by auto
  from cp show "{cp_start pool..<cp_end pool} \<subseteq> cp_live pool"
  proof (cases rule: cpool_alloc_cases)
    case (recycle xs x q')
    with al i have "cp_end pool \<in> set (cv_list (cp_freelist pool))" by auto
    with cp have "cp_end pool < cp_mx pool" by (auto simp: cp_inv_def)
    with mx notlive show ?thesis by auto
  next
    case (fresh q')
    with al i have "cp_mx pool = cp_end pool" by auto
    with fresh(2) show ?thesis by (auto simp: cp_live_def)
  next
    case full
    with al i show ?thesis by simp
  qed
qed

section \<open>The membership test\<close>

lemma cpool_check_spec:
  assumes inv: "cp_inv p"
  shows "cpool_check p obj = Some (obj \<in> cp_range p \<and> obj \<noteq> cp_mx p \<and> obj \<notin> cp_live p)"
proof -
  have cv: "cv_inv (cp_freelist p)" using inv by (simp add: cp_inv_def)
  from cv show ?thesis
  proof (cases rule: cv.find_cases [where P = "\<lambda>x. x = obj"])
    case miss
    with inv show ?thesis by (auto simp: cpool_check_def cp_defs)
  next
    case (hit i)
    then have "obj \<in> set (cv_list (cp_freelist p))" by auto
    with inv have "obj \<in> {cp_start p..<cp_mx p}" "obj \<in> set (cv_list (cp_freelist p))"
      unfolding cp_inv_def by auto
    with hit inv show ?thesis by (auto simp: cpool_check_def cp_defs)
  qed
qed

text \<open>The branch of \<open>cpool_free\<close> that lowers \<open>mx\<close> is never taken.\<close>

lemma cpool_free_keeps_mx: "cpool_free mem p obj = Some q \<Longrightarrow> cp_mx q = cp_mx p"
  by (auto simp: cpool_free_def bind_eq_Some_conv split: if_splits)

text \<open>An identifier that is freed twice is handed out twice.\<close>

lemma cpool_free_again:
  assumes inv: "cp_inv p" and i: "i \<in> cp_live p"
  shows "\<exists>q r a b. cpool_free heap_ok p i = Some q \<and> cpool_free heap_ok q i = Some r \<and>
    cpool_alloc heap_ok r = Some (a, i) \<and> cpool_alloc heap_ok a = Some (b, i)"
proof -
  let ?fl = "cv_list (cp_freelist p)"
  have cv: "cv_inv (cp_freelist p)" using inv by (simp add: cp_inv_def)
  have b: "cp_start p \<le> i" "i < cp_mx p" "i \<le> cp_end p" using inv i by (auto simp: cp_defs)
  from cvector_add_list [OF cv, of i] obtain w where
    w: "cvector_add heap_ok (cp_freelist p) i = Some (w, length ?fl)" "cv_inv w"
    "cv_list w = ?fl @ [i]" by auto
  from cvector_add_list [OF w(2), of i] w(3) obtain v n where
    v: "cvector_add heap_ok w i = Some (v, n)" "cv_inv v" "cv_list v = ?fl @ [i, i]" by auto
  from cvector_delete_list [OF v(2), of "Suc (length ?fl)"] v(3) obtain x where
    x: "cvector_delete heap_ok v (Suc (length ?fl)) = Some x" "cv_inv x" "cv_list x = ?fl @ [i]"
    by auto
  from cvector_delete_list [OF x(2), of "length ?fl"] x(3) obtain y where
    y: "cvector_delete heap_ok x (length ?fl) = Some y" by auto
  have "cpool_free heap_ok p i = Some (p\<lparr>cp_freelist := w\<rparr>)"
    "cpool_free heap_ok (p\<lparr>cp_freelist := w\<rparr>) i = Some (p\<lparr>cp_freelist := v\<rparr>)"
    using b by (simp_all add: cpool_free_def w(1) v(1))
  moreover have "cpool_alloc heap_ok (p\<lparr>cp_freelist := v\<rparr>) = Some (p\<lparr>cp_freelist := x\<rparr>, i)"
    by (simp add: cpool_alloc_def cvector_count_list [OF v(2)] cvector_get_list [OF v(2)] v(3) x(1)
        nth_append)
  moreover have "cpool_alloc heap_ok (p\<lparr>cp_freelist := x\<rparr>) = Some (p\<lparr>cp_freelist := y\<rparr>, i)"
    by (simp add: cpool_alloc_def cvector_count_list [OF x(2)] cvector_get_list [OF x(2)] x(3) y)
  ultimately show ?thesis by blast
qed

text \<open>
  Allocations from a well-formed pool return distinct identifiers of
  its range that were not live before; a live identifier can always be returned; and the pool
  refuses an allocation only when every identifier of the range is live.
\<close>

theorem cpool_unique_ids:
  assumes "cp_inv p" and "cp.alloc_run n p = Some (q, is)"
  shows "cp_inv q \<and> distinct is \<and> length is = n \<and> set is \<inter> cp_live p = {} \<and> set is \<subseteq> cp_range p \<and>
    cp_live q = set is \<union> cp_live p \<and>
    (\<forall>i \<in> set is. \<exists>r. cpool_free heap_ok q i = Some r \<and> cp_inv r \<and> cp_live r = cp_live q - {i}) \<and>
    (\<exists>r i. cpool_alloc heap_ok q = Some (r, i) \<and> (i = 0 \<longleftrightarrow> cp_live q = cp_range q))"
proof -
  note run = cp.alloc_run_distinct [OF assms]
  then have q: "cp_inv q" by blast
  obtain r i where al: "cpool_alloc heap_ok q = Some (r, i)" using cp.alloc_total [OF q] by blast
  then have "i = 0 \<longleftrightarrow> cp_live q = cp_range q"
    using cp.alloc_full [OF q] cp.alloc_fresh [OF q al] by blast
  with al have "\<exists>r i. cpool_alloc heap_ok q = Some (r, i) \<and> (i = 0 \<longleftrightarrow> cp_live q = cp_range q)" by blast
  moreover have "\<forall>i \<in> set is. \<exists>r. cpool_free heap_ok q i = Some r \<and> cp_inv r \<and> cp_live r = cp_live q - {i}"
  proof
    fix i assume "i \<in> set is"
    then have "i \<in> cp_live q" using run by blast
    from cpool_free_live [OF q this] show "\<exists>r. cpool_free heap_ok q i = Some r \<and> cp_inv r \<and> cp_live r = cp_live q - {i}"
      by blast
  qed
  ultimately show ?thesis using run by simp
qed

theorem cpool_unique_ids_witness:
  "\<exists>q. cp.alloc_run 1 (cpool_init 1 4) = Some (q, [1]) \<and> cp_live q = {1}"
proof -
  have inv: "cp_inv (cpool_init 1 4)" "cp_live (cpool_init 1 4) = {}"
    using cpool_init_inv [of 1 4] by auto
  have run: "\<exists>q. cp.alloc_run 1 (cpool_init 1 4) = Some (q, [1])"
    by (simp add: cpool_alloc_def cpool_init_def cvector_init_def cvector_count_def)
  then obtain q where q: "cp.alloc_run 1 (cpool_init 1 4) = Some (q, [1])" by blast
  with cpool_unique_ids [OF inv(1) q] inv(2) show ?thesis by auto
qed

text \<open>
  \<open>cpool_free\<close> does not look for the identifier
  in the free list; an identifier that is freed twice is handed out by both of the next two
  allocations.
\<close>

theorem cpool_double_free:
  assumes "cp_inv p" and "i \<in> cp_live p"
  shows "\<exists>q r a b. cpool_free heap_ok p i = Some q \<and> cpool_free heap_ok q i = Some r \<and>
    cpool_alloc heap_ok r = Some (a, i) \<and> cpool_alloc heap_ok a = Some (b, i)"
  using cpool_free_again [OF assms] .

theorem cpool_double_free_witness:
  "\<exists>p q r a b. cpool_alloc heap_ok (cpool_init 1 4) = Some (p, 1) \<and> cpool_free heap_ok p 1 = Some q \<and>
    cpool_free heap_ok q 1 = Some r \<and> cpool_alloc heap_ok r = Some (a, 1) \<and> cpool_alloc heap_ok a = Some (b, 1)"
proof -
  have inv: "cp_inv (cpool_init 1 4)" using cpool_init_inv [of 1 4] by auto
  have "\<exists>p. cpool_alloc heap_ok (cpool_init 1 4) = Some (p, 1)"
    by (simp add: cpool_alloc_def cpool_init_def cvector_init_def cvector_count_def)
  then obtain p where p: "cpool_alloc heap_ok (cpool_init 1 4) = Some (p, 1)" by blast
  from cp.alloc_inv [OF inv p] cp.alloc_fresh [OF inv p] cpool_double_free [of p 1] p show ?thesis by auto
qed

end
