(* ===== verification/Coat.thy ===== *)
theory Coat
  imports Cpool
begin

text \<open>
  \<open>libdatastruct/src/coat.c\<close>: the object allocation table.  An identifier comes from a \<open>cpool\<close>; the
  object it names sits in a vector at the index of the identifier, \<open>None\<close> being the null pointer.
  Objects are made and destroyed by callbacks, which may be missing and which act on the state of
  the server that owns the table (\<open>'e\<close>).  The destructor may fail an assertion of its own.
\<close>

section \<open>Model\<close>

definition COAT_INVALID_ID :: int where
  "COAT_INVALID_ID = -1"

definition C_EBADF :: int where
  "C_EBADF = 9"

record ('a, 'e) coat =
  oat_expand :: "('a option cvector \<Rightarrow> 'a option cvector option) option"
  oat_create :: "(nat \<Rightarrow> nat list \<Rightarrow> 'e \<Rightarrow> 'a option \<times> 'e) option"
  oat_delete :: "('a \<Rightarrow> 'e \<Rightarrow> 'e option) option"
  oat_pool :: cpool
  oat_table :: "'a option cvector"

definition coat_init :: "('a, 'e) coat \<Rightarrow> nat \<Rightarrow> nat \<Rightarrow> ('a, 'e) coat option" where
  "coat_init t start end' =
     do {
       c_assert (start \<noteq> 0);
       Some (t\<lparr>oat_pool := cpool_init start end', oat_table := cvector_init\<rparr>)
     }"

text \<open>The loop of \<open>coat_release\<close> over the table, \<open>k\<close> entries from index \<open>i\<close>.\<close>

fun coat_release_objs :: "('a, 'e) coat \<Rightarrow> nat \<Rightarrow> nat \<Rightarrow> 'e \<Rightarrow> 'e option" where
  "coat_release_objs t i 0 e = Some e"
| "coat_release_objs t i (Suc k) e =
     do {
       obj \<leftarrow> cvector_get (oat_table t) i;
       e' \<leftarrow> (case (obj, oat_delete t) of
               (Some x, Some del) \<Rightarrow> del x e
             | _ \<Rightarrow> Some e);
       coat_release_objs t (i + 1) k e'
     }"

definition coat_release :: "('a, 'e) coat \<Rightarrow> 'e \<Rightarrow> (('a, 'e) coat \<times> 'e) option" where
  "coat_release t e =
     do {
       e' \<leftarrow> coat_release_objs t 0 (cvector_count (oat_table t)) e;
       Some (t\<lparr>oat_table := cvector_free (oat_table t), oat_pool := cpool_release (oat_pool t)\<rparr>, e')
     }"

text \<open>The loop that grows the table until it has a cell for \<open>id\<close>.\<close>

partial_function (option) coat_grow ::
  "(nat \<Rightarrow> bool) \<Rightarrow> ('a, 'e) coat \<Rightarrow> nat \<Rightarrow> 'a option cvector \<Rightarrow> 'a option cvector option" where
  "coat_grow mem t oid tbl =
     (if cvector_count tbl \<le> oid
      then (case oat_expand t of
              Some expand \<Rightarrow> do { tbl' \<leftarrow> expand tbl; coat_grow mem t oid tbl' }
            | None \<Rightarrow> do { r \<leftarrow> cvector_add mem tbl None; coat_grow mem t oid (fst r) })
      else Some tbl)"

text \<open>The code after the label \<open>error\<close>.\<close>

definition coat_alloc_error ::
  "(nat \<Rightarrow> bool) \<Rightarrow> ('a, 'e) coat \<Rightarrow> nat \<Rightarrow> 'e \<Rightarrow> (('a, 'e) coat \<times> 'e \<times> int \<times> 'a option) option" where
  "coat_alloc_error mem t oid e =
     do {
       pool \<leftarrow> (if oid \<noteq> 0 then cpool_free mem (oat_pool t) oid else Some (oat_pool t));
       Some (t\<lparr>oat_pool := pool\<rparr>, e, COAT_INVALID_ID, None)
     }"

definition coat_alloc ::
  "(nat \<Rightarrow> bool) \<Rightarrow> ('a, 'e) coat \<Rightarrow> nat list \<Rightarrow> 'e \<Rightarrow> (('a, 'e) coat \<times> 'e \<times> int \<times> 'a option) option"
where
  "coat_alloc mem t arg e =
     do {
       (pool, oid) \<leftarrow> cpool_alloc mem (oat_pool t);
       let t1 = t\<lparr>oat_pool := pool\<rparr>;
       (if oid = 0 \<or> s32 oid = COAT_INVALID_ID then coat_alloc_error mem t1 oid e
        else do {
          tbl \<leftarrow> coat_grow mem t1 oid (oat_table t1);
          let t2 = t1\<lparr>oat_table := tbl\<rparr>;
          obj \<leftarrow> cvector_get tbl oid;
          (case (obj, oat_create t2) of
             (None, Some create) \<Rightarrow>
               (case create oid arg e of
                  (None, e') \<Rightarrow> coat_alloc_error mem t2 oid e'
                | (Some x, e') \<Rightarrow> do {
                    tbl' \<leftarrow> cvector_set tbl oid (Some x);
                    Some (t2\<lparr>oat_table := tbl'\<rparr>, e', s32 oid, Some x)
                  })
           | _ \<Rightarrow> Some (t2, e, s32 oid, obj))
        })
     }"

definition coat_get :: "('a, 'e) coat \<Rightarrow> int \<Rightarrow> 'a option option" where
  "coat_get t oid =
     (let u = u32i oid in
      if u < cp_start (oat_pool t) \<or> u \<ge> cp_end (oat_pool t) \<or> u \<ge> cvector_count (oat_table t)
      then Some None
      else cvector_get (oat_table t) u)"

definition coat_free ::
  "(nat \<Rightarrow> bool) \<Rightarrow> ('a, 'e) coat \<Rightarrow> int \<Rightarrow> 'e \<Rightarrow> (('a, 'e) coat \<times> 'e \<times> int) option" where
  "coat_free mem t oid e =
     do {
       isfree \<leftarrow> cpool_check (oat_pool t) (u32i oid);
       (if isfree then Some (t, e, - C_EBADF)
        else do {
          r \<leftarrow> (case oat_delete t of
                  None \<Rightarrow> Some (Some e)
                | Some del \<Rightarrow> do {
                    obj \<leftarrow> coat_get t oid;
                    (case obj of
                       None \<Rightarrow> Some None
                     | Some x \<Rightarrow> map_option Some (del x e))
                  });
          (case r of
             None \<Rightarrow> Some (t, e, - C_EBADF)
           | Some e' \<Rightarrow> do {
               tbl \<leftarrow> cvector_set (oat_table t) (u32i oid) None;
               pool \<leftarrow> cpool_free mem (oat_pool t) (u32i oid);
               Some (t\<lparr>oat_table := tbl, oat_pool := pool\<rparr>, e', 0)
             })
        })
     }"

section \<open>Invariant\<close>

text \<open>
  Tables as the process server sets them up: no \<open>oat_expand\<close>, both other callbacks present.  The
  cells that hold an object are exactly those of the live identifiers.
\<close>

definition coat_inv :: "('a, 'e) coat \<Rightarrow> bool" where
  "coat_inv t \<longleftrightarrow> cp_inv (oat_pool t) \<and> cp_end (oat_pool t) < 2 ^ 31 \<and> cv_inv (oat_table t) \<and>
     oat_expand t = None \<and> oat_create t \<noteq> None \<and> oat_delete t \<noteq> None \<and>
     (\<forall>i. i \<in> cp_live (oat_pool t) \<longleftrightarrow>
        i < length (cv_list (oat_table t)) \<and> cv_list (oat_table t) ! i \<noteq> None)"

text \<open>The object of an identifier.\<close>

definition coat_obj :: "('a, 'e) coat \<Rightarrow> nat \<Rightarrow> 'a option" where
  "coat_obj t i =
     (if i < length (cv_list (oat_table t)) then cv_list (oat_table t) ! i else None)"

lemma coat_inv_live: "coat_inv t \<Longrightarrow> i \<in> cp_live (oat_pool t) \<longleftrightarrow> coat_obj t i \<noteq> None"
  by (simp add: coat_inv_def coat_obj_def)

lemma cp_range_u32: "cp_inv p \<Longrightarrow> i \<in> cp_range p \<Longrightarrow> i < 4294967295 \<and> i \<noteq> 0"
  by (auto simp: cp_defs)

lemma cp_range_end: "cp_range p = cp_range q \<Longrightarrow> i \<in> cp_range q \<Longrightarrow> cp_end p = cp_end q"
  by (auto simp: cp_range_def Icc_eq_Icc)

lemma coat_range_int:
  assumes "coat_inv t" and "i \<in> cp_range (oat_pool t)"
  shows "s32 i = int i" "u32i (int i) = i" "s32 i \<noteq> COAT_INVALID_ID" "i \<noteq> 0"
proof -
  have "i < 2 ^ 31" "0 < i" using assms by (auto simp: coat_inv_def cp_defs)
  then show "s32 i = int i" "u32i (int i) = i" "s32 i \<noteq> COAT_INVALID_ID" "i \<noteq> 0"
    by (simp_all add: s32_def COAT_INVALID_ID_def)
qed

lemma coat_init_inv:
  assumes "oat_expand t = None" "oat_create t \<noteq> None" "oat_delete t \<noteq> None"
    and "0 < s" "s \<le> Suc n" "n < 2 ^ 31"
  shows "\<exists>u. coat_init t s n = Some u \<and> coat_inv u \<and> (\<forall>i. coat_obj u i = None) \<and>
    cp_range (oat_pool u) = {s..n}"
  using assms cpool_init_inv [of s n]
  by (simp add: coat_init_def coat_inv_def coat_obj_def) (simp add: cpool_init_def)

lemma coat_grow_total:
  assumes "oat_expand t = None" and "cv_inv tbl"
  shows "\<exists>tbl' k. coat_grow heap_ok t i tbl = Some tbl' \<and> cv_inv tbl' \<and>
    i < length (cv_list tbl') \<and> cv_list tbl' = cv_list tbl @ replicate k None"
  using assms(2)
proof (induction "Suc i - length (cv_list tbl)" arbitrary: tbl)
  case 0
  then show ?case
    by (subst coat_grow.simps) (auto simp: cvector_count_list intro: exI [of _ 0])
next
  case (Suc d)
  from cvector_add_list [OF Suc.prems, of None] obtain v n where
    v: "cvector_add heap_ok tbl None = Some (v, n)" "cv_inv v" "cv_list v = cv_list tbl @ [None]"
    by auto
  have "d = Suc i - length (cv_list v)" using Suc.hyps(2) v(3) by simp
  from Suc.hyps(1) [OF this v(2)] v(3) obtain tbl' k where
    "coat_grow heap_ok t i v = Some tbl'" "cv_inv tbl'" "i < length (cv_list tbl')"
    "cv_list tbl' = cv_list tbl @ [None] @ replicate k None" by auto
  with Suc.hyps(2) Suc.prems v assms(1) show ?case
    by (subst coat_grow.simps)
      (auto simp: cvector_count_list replicate_append_same intro!: exI [of _ "Suc k"])
qed

section \<open>Lookup, allocation, release\<close>

lemma coat_get_obj:
  assumes "coat_inv t" and "i < 2 ^ 31"
  shows "coat_get t (int i) = Some (if i < cp_end (oat_pool t) then coat_obj t i else None)"
proof (cases "coat_obj t i")
  case None
  with assms show ?thesis
    by (auto simp: coat_get_def coat_inv_def coat_obj_def cvector_count_list cvector_get_list Let_def)
next
  case (Some x)
  with assms coat_inv_live [OF assms(1), of i] have "i \<in> cp_live (oat_pool t)" by simp
  then have "cp_start (oat_pool t) \<le> i" by (simp add: cp_live_def)
  with assms Some show ?thesis
    by (auto simp: coat_get_def coat_inv_def coat_obj_def cvector_count_list cvector_get_list Let_def
        split: if_splits)
qed

lemma coat_alloc_full:
  assumes inv: "coat_inv t" and full: "cp_live (oat_pool t) = cp_range (oat_pool t)"
  shows "\<exists>u. coat_alloc heap_ok t arg e = Some (u, e, COAT_INVALID_ID, None)"
proof -
  have cp: "cp_inv (oat_pool t)" using inv by (simp add: coat_inv_def)
  from cp.alloc_total [OF cp] obtain p i where al: "cpool_alloc heap_ok (oat_pool t) = Some (p, i)"
    by auto
  have "i = 0" using cp.alloc_fresh [OF cp al] full by blast
  with al show ?thesis by (simp add: coat_alloc_def coat_alloc_error_def)
qed

lemma coat_alloc_grown:
  assumes inv: "coat_inv t" and al: "cpool_alloc heap_ok (oat_pool t) = Some (p, i)" and i: "i \<noteq> 0"
  obtains tbl where "coat_grow heap_ok (t\<lparr>oat_pool := p\<rparr>) i (oat_table t) = Some tbl" "cv_inv tbl"
    "i < length (cv_list tbl)" "cv_list tbl ! i = None"
    "\<And>j. (if j < length (cv_list tbl) then cv_list tbl ! j else None) = coat_obj t j"
proof -
  have cp: "cp_inv (oat_pool t)" using inv by (simp add: coat_inv_def)
  from cp.alloc_fresh [OF cp al i] have "i \<notin> cp_live (oat_pool t)" by blast
  then have none: "coat_obj t i = None" using coat_inv_live [OF inv, of i] by simp
  from coat_grow_total [of "t\<lparr>oat_pool := p\<rparr>" "oat_table t" i] inv obtain tbl k where
    tbl: "coat_grow heap_ok (t\<lparr>oat_pool := p\<rparr>) i (oat_table t) = Some tbl" "cv_inv tbl"
    "i < length (cv_list tbl)" "cv_list tbl = cv_list (oat_table t) @ replicate k None"
    by (auto simp: coat_inv_def)
  have cells: "(if j < length (cv_list tbl) then cv_list tbl ! j else None) = coat_obj t j" for j
    by (auto simp: tbl(4) nth_append coat_obj_def)
  have "cv_list tbl ! i = None" using cells [of i] tbl(3) none by simp
  from tbl(1-3) this cells show thesis by (rule that)
qed

lemma coat_alloc_object:
  assumes inv: "coat_inv t" and room: "cp_live (oat_pool t) \<noteq> cp_range (oat_pool t)"
    and cr: "oat_create t = Some create" and ok: "\<And>i. \<exists>x e'. create i arg e = (Some x, e')"
  shows "\<exists>u e' i x. coat_alloc heap_ok t arg e = Some (u, e', int i, Some x) \<and>
    create i arg e = (Some x, e') \<and> i \<in> cp_range (oat_pool t) \<and> coat_obj t i = None \<and>
    coat_inv u \<and> cp_range (oat_pool u) = cp_range (oat_pool t) \<and> oat_delete u = oat_delete t \<and>
    cpool_alloc heap_ok (oat_pool t) = Some (oat_pool u, i) \<and>
    (\<forall>j. coat_obj u j = (if j = i then Some x else coat_obj t j))"
proof -
  have cp: "cp_inv (oat_pool t)" using inv by (simp add: coat_inv_def)
  from cp.alloc_total [OF cp] obtain p i where al: "cpool_alloc heap_ok (oat_pool t) = Some (p, i)"
    by auto
  have i: "i \<noteq> 0" using cp.alloc_full [OF cp] al room by auto
  note fresh = cp.alloc_fresh [OF cp al i] and p = cp.alloc_inv [OF cp al]
  note conv = coat_range_int [OF inv, of i]
  obtain x e' where x: "create i arg e = (Some x, e')" using ok by blast
  from coat_alloc_grown [OF inv al i] obtain tbl where
    tbl: "coat_grow heap_ok (t\<lparr>oat_pool := p\<rparr>) i (oat_table t) = Some tbl" "cv_inv tbl"
    "i < length (cv_list tbl)" "cv_list tbl ! i = None"
    "\<And>j. (if j < length (cv_list tbl) then cv_list tbl ! j else None) = coat_obj t j" by metis
  from cvector_set_list [OF tbl(2,3), of "Some x"] obtain v where
    v: "cvector_set tbl i (Some x) = Some v" "cv_inv v" "cv_list v = (cv_list tbl)[i := Some x]"
    by auto
  let ?u = "t\<lparr>oat_pool := p, oat_table := v\<rparr>"
  have obj: "coat_obj ?u j = (if j = i then Some x else coat_obj t j)" for j
    using tbl(3) tbl(5) [of j] by (auto simp: coat_obj_def v(3) split: if_splits)
  have "cp_end p < 2 ^ 31" using cp_range_end [of p "oat_pool t" i] p fresh inv
    by (simp add: coat_inv_def)
  moreover have "j \<in> cp_live p \<longleftrightarrow> coat_obj ?u j \<noteq> None" for j
    using fresh obj [of j] coat_inv_live [OF inv, of j] by auto
  ultimately have "coat_inv ?u"
    using inv v(2) p by (auto simp: coat_inv_def coat_obj_def)
  moreover have "coat_alloc heap_ok t arg e = Some (?u, e', int i, Some x)"
    using al i conv fresh tbl cvector_get_list [OF tbl(2), of i] v cr x
    by (simp add: coat_alloc_def)
  moreover have "coat_obj t i = None" using fresh coat_inv_live [OF inv, of i] by simp
  ultimately show ?thesis
    using obj fresh p x al
    by (intro exI [of _ ?u] exI [of _ e'] exI [of _ i] exI [of _ x] conjI) simp_all
qed

lemma coat_free_object:
  assumes inv: "coat_inv t" and obj: "coat_obj t i = Some x" and lt: "i < cp_end (oat_pool t)"
    and dl: "oat_delete t = Some del" and ok: "del x e = Some e'"
  shows "\<exists>u. coat_free heap_ok t (int i) e = Some (u, e', 0) \<and> coat_inv u \<and>
    cp_range (oat_pool u) = cp_range (oat_pool t) \<and> cp_mx (oat_pool u) = cp_mx (oat_pool t) \<and>
    (\<forall>j. coat_obj u j = (if j = i then None else coat_obj t j))"
proof -
  have cp: "cp_inv (oat_pool t)" and cv: "cv_inv (oat_table t)" using inv by (simp_all add: coat_inv_def)
  have live: "i \<in> cp_live (oat_pool t)" using coat_inv_live [OF inv, of i] obj by simp
  then have rng: "i \<in> cp_range (oat_pool t)" using cp_zero(2) [OF cp] by auto
  note conv = coat_range_int [OF inv rng]
  have i31: "i < 2 ^ 31" using rng inv by (auto simp: cp_range_def coat_inv_def)
  have chk: "cpool_check (oat_pool t) i = Some False" using live by (simp add: cpool_check_spec [OF cp])
  have get: "coat_get t (int i) = Some (Some x)" using coat_get_obj [OF inv i31] obj lt by simp
  have len: "i < length (cv_list (oat_table t))" using obj by (auto simp: coat_obj_def split: if_splits)
  from cvector_set_list [OF cv len, of None] obtain v where
    v: "cvector_set (oat_table t) i None = Some v" "cv_inv v"
    "cv_list v = (cv_list (oat_table t))[i := None]" by auto
  from cp.free_live [OF cp live] obtain p where
    p: "cpool_free heap_ok (oat_pool t) i = Some p" "cp_inv p" "cp_range p = cp_range (oat_pool t)"
    "cp_live p = cp_live (oat_pool t) - {i}" by auto
  let ?u = "t\<lparr>oat_table := v, oat_pool := p\<rparr>"
  have objs: "coat_obj ?u j = (if j = i then None else coat_obj t j)" for j
    by (auto simp: coat_obj_def v(3) nth_list_update)
  have "cp_end p < 2 ^ 31" using cp_range_end [OF p(3) rng] inv by (simp add: coat_inv_def)
  moreover have "j \<in> cp_live p \<longleftrightarrow> coat_obj ?u j \<noteq> None" for j
    using p(4) objs [of j] coat_inv_live [OF inv, of j] by auto
  ultimately have "coat_inv ?u" using inv v(2) p(2) by (auto simp: coat_inv_def coat_obj_def)
  moreover have "coat_free heap_ok t (int i) e = Some (?u, e', 0)"
    using chk get dl ok v(1) p(1) conv by (simp add: coat_free_def)
  moreover have "cp_mx p = cp_mx (oat_pool t)"
    using p(1) by (auto simp: cpool_free_def bind_eq_Some_conv split: if_splits)
  ultimately show ?thesis using objs p(3) by auto
qed

text \<open>An identifier equal to \<open>end\<close> is handed out by the pool but never found again.\<close>

lemma coat_get_last:
  assumes "coat_inv t" and "i = cp_end (oat_pool t)"
  shows "coat_get t (int i) = Some None"
  using assms coat_get_obj [OF assms(1), of i] by (simp add: coat_inv_def)

text \<open>
  C31 (object table).  While an identifier is free, an allocation stores the object the callback
  creates under a fresh identifier of the range and leaves every other object where it was; the
  object is found again under its identifier and freeing it restores the table, unless the
  identifier is the last one of the range: that one is handed out, but never found.
\<close>

theorem coat_alloc_get_free:
  assumes inv: "coat_inv t" and room: "cp_live (oat_pool t) \<noteq> cp_range (oat_pool t)"
    and cr: "oat_create t = Some create" and ok: "\<And>i. \<exists>x e'. create i arg e = (Some x, e')"
    and dl: "oat_delete t = Some del" and del: "\<And>x e. \<exists>e'. del x e = Some e'"
  shows "\<exists>u e' i x. coat_alloc heap_ok t arg e = Some (u, e', int i, Some x) \<and> coat_inv u \<and>
    i \<in> cp_range (oat_pool t) \<and> coat_obj t i = None \<and>
    (\<forall>j. coat_obj u j = (if j = i then Some x else coat_obj t j)) \<and>
    (if i < cp_end (oat_pool u)
     then coat_get u (int i) = Some (Some x) \<and>
       (\<exists>w e''. coat_free heap_ok u (int i) e' = Some (w, e'', 0) \<and> coat_inv w \<and>
          (\<forall>j. coat_obj w j = coat_obj t j))
     else coat_get u (int i) = Some None)"
proof -
  from coat_alloc_object [OF inv room cr ok] obtain u e' i x where
    u: "coat_alloc heap_ok t arg e = Some (u, e', int i, Some x)" "i \<in> cp_range (oat_pool t)"
      "coat_obj t i = None" "coat_inv u" "cp_range (oat_pool u) = cp_range (oat_pool t)"
      "oat_delete u = oat_delete t" "\<forall>j. coat_obj u j = (if j = i then Some x else coat_obj t j)"
    by metis
  have "i < 2 ^ 31" using u(2) inv by (auto simp: coat_inv_def cp_range_def)
  note get = coat_get_obj [OF u(4) this]
  have "\<exists>w e''. coat_free heap_ok u (int i) e' = Some (w, e'', 0) \<and> coat_inv w \<and>
      (\<forall>j. coat_obj w j = coat_obj t j)" if "i < cp_end (oat_pool u)"
  proof -
    obtain e'' where "del x e' = Some e''" using del by blast
    moreover have "coat_obj u i = Some x" "oat_delete u = Some del" using u(6,7) dl by simp_all
    ultimately obtain w where "coat_free heap_ok u (int i) e' = Some (w, e'', 0)" "coat_inv w"
      "\<forall>j. coat_obj w j = (if j = i then None else coat_obj u j)"
      using coat_free_object [OF u(4), of i x del e' e''] \<open>i < cp_end (oat_pool u)\<close> by auto
    then show ?thesis using u(3,7) by auto
  qed
  with u get show ?thesis by fastforce
qed

definition demo_oat :: "(nat, nat) coat" where
  "demo_oat = \<lparr>oat_expand = None, oat_create = Some (\<lambda>i arg e. (Some (i + length arg), e)),
     oat_delete = Some (\<lambda>x e. Some (e + x)), oat_pool = cpool_init 1 4, oat_table = cvector_init\<rparr>"

theorem coat_alloc_get_free_witness:
  "\<exists>t u e' i x. coat_init demo_oat 1 4 = Some t \<and> coat_alloc heap_ok t [] 0 = Some (u, e', int i, Some x) \<and>
    coat_obj u i = Some x"
proof -
  from coat_init_inv [of demo_oat 1 4] obtain t where
    t: "coat_init demo_oat 1 4 = Some t" "coat_inv t" "\<forall>i. coat_obj t i = None" "cp_range (oat_pool t) = {1..4}"
    by (auto simp: demo_oat_def)
  have "cp_live (oat_pool t) = {}" using coat_inv_live [OF t(2)] t(3) by auto
  moreover have "oat_create t = oat_create demo_oat" "oat_delete t = oat_delete demo_oat"
    using t(1) by (auto simp: coat_init_def demo_oat_def)
  ultimately show ?thesis
    using t(1,4) coat_alloc_get_free [OF t(2), of "\<lambda>i arg e. (Some (i + length arg), e)" "[]" 0 "\<lambda>x e. Some (e + x)"]
    by (auto simp: demo_oat_def)
qed

end
