(* ===== verification/Pid.thy ===== *)
theory Pid
  imports Cpool Refos
begin

text \<open>
  \<open>process_server/src/system/process/pid.c\<close>: the table of process control blocks, indexed by
  process identifiers that come from a \<open>cpool\<close>.  The type \<open>'p\<close> of the control blocks is that of
  the client; a fresh block is zeroed memory, the argument \<open>zero\<close>.
\<close>

section \<open>Model\<close>

definition PID_START :: nat where "PID_START = 1"

record 'p pid_list =
  pl_pids :: cpool
  pl_pcbs :: "'p option list"

definition pid_init :: "'p pid_list" where
  "pid_init = \<lparr>pl_pids = cpool_init PID_START PID_MAX, pl_pcbs = replicate PID_MAX None\<rparr>"

text \<open>\<open>pcb_mem\<close>: the allocation of the control block succeeds.\<close>

definition pid_alloc ::
  "(nat \<Rightarrow> bool) \<Rightarrow> bool \<Rightarrow> 'p \<Rightarrow> 'p pid_list \<Rightarrow> ('p pid_list \<times> nat) option" where
  "pid_alloc mem pcb_mem zero p = do {
     (pool, pid) \<leftarrow> cpool_alloc mem (pl_pids p);
     let p = p\<lparr>pl_pids := pool\<rparr>;
     if pid < PID_START \<or> pid \<ge> PID_MAX then Some (p, 0)
     else do {
       old \<leftarrow> rd (pl_pcbs p) pid;
       c_assert (old = None);
       if \<not> pcb_mem then do {
         pool \<leftarrow> cpool_free mem (pl_pids p) pid;
         Some (p\<lparr>pl_pids := pool\<rparr>, 0)
       }
       else do {
         pcbs \<leftarrow> wr (pl_pcbs p) pid (Some zero);
         Some (p\<lparr>pl_pcbs := pcbs\<rparr>, pid)
       }
     }
   }"

definition pid_free :: "(nat \<Rightarrow> bool) \<Rightarrow> 'p pid_list \<Rightarrow> nat \<Rightarrow> 'p pid_list option" where
  "pid_free mem p pid =
     (if pid < PID_START \<or> pid \<ge> PID_MAX then Some p
      else do {
        old \<leftarrow> rd (pl_pcbs p) pid;
        if old = None then Some p
        else do {
          pcbs \<leftarrow> wr (pl_pcbs p) pid None;
          pool \<leftarrow> cpool_free mem (pl_pids p) pid;
          Some (p\<lparr>pl_pcbs := pcbs, pl_pids := pool\<rparr>)
        }
      })"

definition pid_get_pcb :: "'p pid_list \<Rightarrow> nat \<Rightarrow> 'p option option" where
  "pid_get_pcb p pid =
     (if pid < PID_START \<or> pid \<ge> PID_MAX then Some None else rd (pl_pcbs p) pid)"

definition pid_get_badge :: "nat \<Rightarrow> nat option" where
  "pid_get_badge pid = do {
     c_assert (\<not> (pid < PID_START \<or> pid \<ge> PID_MAX));
     Some (pid + PID_BADGE_BASE)
   }"

definition pid_get_pcb_from_badge :: "'p pid_list \<Rightarrow> nat \<Rightarrow> 'p option option" where
  "pid_get_pcb_from_badge p badge =
     (if badge < PID_BADGE_BASE then Some None else pid_get_pcb p (badge - PID_BADGE_BASE))"

definition pid_get_liveness_badge :: "nat \<Rightarrow> nat option" where
  "pid_get_liveness_badge pid = do {
     c_assert (\<not> (pid < PID_START \<or> pid \<ge> PID_MAX));
     Some (pid + PID_LIVENESS_BADGE_BASE)
   }"

text \<open>
  The callback of an iteration may change the table, its own entry included, and the state of
  the server: it maps the process identifier and the state to the next state.  \<open>lst\<close> reads the
  table from the state.
\<close>

definition pid_iterate ::
  "('s \<Rightarrow> 'p pid_list) \<Rightarrow> (nat \<Rightarrow> 's \<Rightarrow> 's option) \<Rightarrow> 's \<Rightarrow> 's option" where
  "pid_iterate lst callback =
     for_each [PID_START..<PID_MAX] (\<lambda>i s. do {
       pcb \<leftarrow> pid_get_pcb (lst s) i;
       if pcb \<noteq> None then callback i s else Some s
     })"

section \<open>Invariant\<close>

text \<open>
  The identifiers in use are those with a control block; the pool may also have lost the
  identifier \<open>PID_MAX\<close>, which it hands out and \<open>pid_alloc\<close> refuses.
\<close>

definition pid_inv :: "'p pid_list \<Rightarrow> bool" where
  "pid_inv p \<longleftrightarrow> cp_inv (pl_pids p) \<and> cp_range (pl_pids p) = {PID_START..PID_MAX} \<and>
     length (pl_pcbs p) = PID_MAX \<and>
     (\<forall>i < PID_MAX. i \<in> cp_live (pl_pids p) \<longleftrightarrow> pl_pcbs p ! i \<noteq> None) \<and>
     (PID_MAX \<in> cp_live (pl_pids p) \<or> cp_mx (pl_pids p) \<le> PID_MAX)"

definition pid_pcb :: "'p pid_list \<Rightarrow> nat \<Rightarrow> 'p option" where
  "pid_pcb p i = (if i < PID_MAX \<and> i < length (pl_pcbs p) then pl_pcbs p ! i else None)"

lemma pid_init_inv: "pid_inv pid_init" "pid_pcb pid_init i = None"
  using cpool_init_inv [of PID_START PID_MAX]
  by (auto simp: pid_inv_def pid_init_def pid_pcb_def PID_START_def PID_MAX_def cpool_init_def)

lemma pid_get_pcb_eq: "pid_inv p \<Longrightarrow> pid_get_pcb p i = Some (pid_pcb p i)"
proof -
  assume inv: "pid_inv p"
  have "0 \<notin> cp_live (pl_pids p)" using inv by (auto simp: pid_inv_def cp_defs)
  then have "pl_pcbs p ! 0 = None" using inv by (auto simp: pid_inv_def PID_MAX_def)
  with inv show ?thesis
    by (cases "i = 0") (auto simp: pid_get_pcb_def pid_inv_def pid_pcb_def PID_START_def PID_MAX_def)
qed

section \<open>Allocation and release\<close>

lemma pool_max_alloc:
  assumes cp: "cp_inv pool" and range: "cp_range pool = {PID_START..PID_MAX}"
    and al: "cpool_alloc heap_ok pool = Some (q, i)"
    and mx: "PID_MAX \<in> cp_live pool \<or> cp_mx pool \<le> PID_MAX"
  shows "PID_MAX \<in> cp_live q \<or> cp_mx q \<le> PID_MAX"
    and "i = PID_MAX \<Longrightarrow> {PID_START..<PID_MAX} \<subseteq> cp_live pool"
proof -
  have "cp_start pool = PID_START" "cp_end pool = PID_MAX"
    using range cp by (auto simp: cp_defs PID_START_def PID_MAX_def Icc_eq_Icc)
  with cpool_alloc_last [OF cp al] mx show "PID_MAX \<in> cp_live q \<or> cp_mx q \<le> PID_MAX"
    and "i = PID_MAX \<Longrightarrow> {PID_START..<PID_MAX} \<subseteq> cp_live pool"
    by (simp_all add: PID_MAX_def)
qed

lemma pid_alloc_spec:
  assumes inv: "pid_inv p"
  shows "\<exists>q i. pid_alloc heap_ok True zero p = Some (q, i) \<and> pid_inv q \<and>
    (if i = 0 then (\<forall>j. pid_pcb q j = pid_pcb p j) \<and> (\<forall>j \<in> {PID_START..<PID_MAX}. pid_pcb p j \<noteq> None)
     else i \<in> {PID_START..<PID_MAX} \<and> pid_pcb p i = None \<and>
       (\<forall>j. pid_pcb q j = (if j = i then Some zero else pid_pcb p j)))"
proof -
  have cp: "cp_inv (pl_pids p)" and range: "cp_range (pl_pids p) = {PID_START..PID_MAX}"
    and len: "length (pl_pcbs p) = PID_MAX"
    and live: "\<And>i. i < PID_MAX \<Longrightarrow> i \<in> cp_live (pl_pids p) \<longleftrightarrow> pl_pcbs p ! i \<noteq> None"
    and mx: "PID_MAX \<in> cp_live (pl_pids p) \<or> cp_mx (pl_pids p) \<le> PID_MAX"
    using inv by (auto simp: pid_inv_def)
  from cp.alloc_total [OF cp] obtain pool i where
    al: "cpool_alloc heap_ok (pl_pids p) = Some (pool, i)" by blast
  note pool = cp.alloc_inv [OF cp al] and pmx = pool_max_alloc [OF cp range al mx]
  show ?thesis
  proof (cases "i = 0")
    case True
    with cp.alloc_full [OF cp] al have full: "cp_live (pl_pids p) = cp_range (pl_pids p)"
      "cp_live pool = cp_live (pl_pids p)" by auto
    have "pid_alloc heap_ok True zero p = Some (p\<lparr>pl_pids := pool\<rparr>, 0)"
      using al True by (simp add: pid_alloc_def PID_START_def)
    with full pool range len live pmx(1) show ?thesis
      by (intro exI [of _ "p\<lparr>pl_pids := pool\<rparr>"] exI [of _ 0])
         (auto simp: pid_inv_def pid_pcb_def)
  next
    case False
    note fresh = cp.alloc_fresh [OF cp al False]
    show ?thesis
    proof (cases "i < PID_MAX")
      case True
      have i: "PID_START \<le> i" using fresh range by auto
      have none: "pl_pcbs p ! i = None" using live [OF True] fresh by auto
      let ?q = "p\<lparr>pl_pids := pool, pl_pcbs := (pl_pcbs p)[i := Some zero]\<rparr>"
      have "pid_alloc heap_ok True zero p = Some (?q, i)"
        using al True i none len by (simp add: pid_alloc_def)
      moreover have "pid_inv ?q"
        using pool range len live fresh True pmx(1) by (auto simp: pid_inv_def nth_list_update)
      ultimately show ?thesis
        using False i True none len
        by (intro exI [of _ ?q] exI [of _ i]) (auto simp: pid_pcb_def)
    next
      case max: False
      have "i = PID_MAX" using max fresh range by auto
      have "pid_alloc heap_ok True zero p = Some (p\<lparr>pl_pids := pool\<rparr>, 0)"
        using al max by (simp add: pid_alloc_def)
      moreover have "pid_inv (p\<lparr>pl_pids := pool\<rparr>)"
        using pool range len live fresh \<open>i = PID_MAX\<close> pmx(1) by (auto simp: pid_inv_def)
      moreover have "\<forall>j \<in> {PID_START..<PID_MAX}. pid_pcb p j \<noteq> None"
        using pmx(2) [OF \<open>i = PID_MAX\<close>] live len by (auto simp: pid_pcb_def)
      ultimately show ?thesis
        by (intro exI [of _ "p\<lparr>pl_pids := pool\<rparr>"] exI [of _ 0]) (simp add: pid_pcb_def)
    qed
  qed
qed

lemma pid_free_spec:
  assumes inv: "pid_inv p" and i: "pid_pcb p i \<noteq> None"
  shows "\<exists>q. pid_free heap_ok p i = Some q \<and> pid_inv q \<and>
    (\<forall>j. pid_pcb q j = (if j = i then None else pid_pcb p j))"
proof -
  have len: "length (pl_pcbs p) = PID_MAX" and lt: "i < PID_MAX" "pl_pcbs p ! i \<noteq> None"
    using inv i by (auto simp: pid_inv_def pid_pcb_def split: if_splits)
  have cp: "cp_inv (pl_pids p)" and live: "i \<in> cp_live (pl_pids p)"
    using inv lt by (auto simp: pid_inv_def)
  then have "PID_START \<le> i" using cp_zero [OF cp] inv by (auto simp: pid_inv_def)
  from cp.free_live [OF cp live] obtain pool where
    pool: "cpool_free heap_ok (pl_pids p) i = Some pool" "cp_inv pool"
      "cp_range pool = cp_range (pl_pids p)" "cp_live pool = cp_live (pl_pids p) - {i}" by blast
  let ?q = "p\<lparr>pl_pcbs := (pl_pcbs p)[i := None], pl_pids := pool\<rparr>"
  obtain y where "pl_pcbs p ! i = Some y" using lt(2) by blast
  then have "pid_free heap_ok p i = Some ?q"
    using \<open>PID_START \<le> i\<close> lt len pool(1) by (simp add: pid_free_def)
  moreover have "pid_inv ?q"
    using inv pool lt cpool_free_keeps_mx [OF pool(1)] by (auto simp: pid_inv_def nth_list_update)
  ultimately show ?thesis using lt len by (intro exI [of _ ?q]) (auto simp: pid_pcb_def)
qed

lemma pid_free_none:
  "pid_inv p \<Longrightarrow> pid_pcb p i = None \<Longrightarrow> pid_free heap_ok p i = Some p"
  using pid_get_pcb_eq [of p i]
  by (auto simp: pid_free_def pid_get_pcb_def pid_inv_def split: if_splits)

text \<open>Without memory for the control block the identifier goes back to the pool.\<close>

lemma pid_alloc_no_memory:
  assumes inv: "pid_inv p"
  shows "\<exists>q. pid_alloc heap_ok False zero p = Some (q, 0) \<and> pid_inv q \<and>
    (\<forall>j. pid_pcb q j = pid_pcb p j)"
proof -
  from pid_alloc_spec [OF inv, of undefined] obtain q i where
    al: "pid_alloc heap_ok True undefined p = Some (q, i)" "pid_inv q"
    "if i = 0 then (\<forall>j. pid_pcb q j = pid_pcb p j) \<and> (\<forall>j \<in> {PID_START..<PID_MAX}. pid_pcb p j \<noteq> None)
     else i \<in> {PID_START..<PID_MAX} \<and> pid_pcb p i = None \<and>
       (\<forall>j. pid_pcb q j = (if j = i then Some undefined else pid_pcb p j))" by blast
  show ?thesis
  proof (cases "i = 0")
    case True
    from al(1) True obtain pool b where
      "cpool_alloc heap_ok (pl_pids p) = Some (pool, b)" "b < PID_START \<or> PID_MAX \<le> b"
      "q = p\<lparr>pl_pids := pool\<rparr>"
      by (auto simp: pid_alloc_def bind_eq_Some_conv Let_def PID_START_def split: if_splits)
    then have "pid_alloc heap_ok False zero p = Some (q, 0)" by (simp add: pid_alloc_def)
    with True al show ?thesis by auto
  next
    case False
    with al(2,3) have "pid_pcb q i \<noteq> None" by simp
    from pid_free_spec [OF al(2) this] obtain r where
      r: "pid_free heap_ok q i = Some r" "pid_inv r"
      "\<forall>j. pid_pcb r j = (if j = i then None else pid_pcb q j)" by blast
    from al(1) False obtain pool where
      pool: "cpool_alloc heap_ok (pl_pids p) = Some (pool, i)" "q = p\<lparr>pl_pids := pool, pl_pcbs := (pl_pcbs p)[i := Some undefined]\<rparr>"
      "\<not> (i < PID_START \<or> PID_MAX \<le> i)" "i < length (pl_pcbs p)" "pl_pcbs p ! i = None"
      by (auto simp: pid_alloc_def bind_eq_Some_conv c_simps Let_def split: if_splits)
    from r(1) pool(2-4) obtain pool' where
      p': "cpool_free heap_ok pool i = Some pool'" "r = p\<lparr>pl_pcbs := (pl_pcbs p)[i := None], pl_pids := pool'\<rparr>"
      by (auto simp: pid_free_def bind_eq_Some_conv)
    have "(pl_pcbs p)[i := None] = pl_pcbs p" using pool(5) by (metis list_update_id)
    with p' have req: "r = p\<lparr>pl_pids := pool'\<rparr>" by simp
    have "pid_alloc heap_ok False zero p = Some (r, 0)"
      using pool p'(1) unfolding req by (simp add: pid_alloc_def)
    moreover have "pid_pcb r j = pid_pcb p j" for j
      unfolding req by (simp add: pid_pcb_def)
    ultimately show ?thesis using r(2) by blast
  qed
qed

section \<open>Badges\<close>

text \<open>A badge made for a process leads back to its control block, and to nothing else.\<close>

lemma pid_badge_roundtrip:
  "pid_get_badge pid = Some b \<Longrightarrow>
   pid_get_pcb_from_badge p b = pid_get_pcb p pid \<and> dispatcher_badge_PID b"
  by (auto simp: pid_get_badge_def pid_get_pcb_from_badge_def dispatcher_badge_PID_def bind_eq_Some_conv
      badge_defs PID_START_def)

lemma pid_liveness_badge:
  "pid_get_liveness_badge pid = Some b \<Longrightarrow>
   b - PID_LIVENESS_BADGE_BASE = pid \<and> dispatcher_badge_liveness b \<and> \<not> dispatcher_badge_PID b"
  by (auto simp: pid_get_liveness_badge_def dispatcher_badge_liveness_def dispatcher_badge_PID_def
      bind_eq_Some_conv badge_defs PID_START_def)

lemma badge_classes_disjoint:
  "dispatcher_badge_PID b \<Longrightarrow> \<not> dispatcher_badge_liveness b \<and> \<not> dispatcher_badge_window b \<and>
     \<not> dispatcher_badge_dspace b"
  "dispatcher_badge_liveness b \<Longrightarrow> \<not> dispatcher_badge_window b \<and> \<not> dispatcher_badge_dspace b"
  "dispatcher_badge_window b \<Longrightarrow> \<not> dispatcher_badge_dspace b"
  by (auto simp: dispatcher_badge_PID_def dispatcher_badge_liveness_def dispatcher_badge_window_def
      dispatcher_badge_dspace_def badge_defs)

text \<open>
  C24 (process identifiers).  Allocation either hands out an identifier between \<open>PID_START\<close> and
  \<open>PID_MAX - 1\<close> that no process has and stores an empty control block under it, or reports failure
  only when all of them are taken; releasing the identifier restores the table, and an allocation
  that runs out of memory leaves it unchanged.
\<close>

theorem pid_allocation:
  assumes inv: "pid_inv p"
  shows "\<exists>q i. pid_alloc heap_ok True zero p = Some (q, i) \<and> pid_inv q \<and>
    (if i = 0 then (\<forall>j. pid_pcb q j = pid_pcb p j) \<and> (\<forall>j \<in> {PID_START..<PID_MAX}. pid_pcb p j \<noteq> None)
     else i \<in> {PID_START..<PID_MAX} \<and> pid_pcb p i = None \<and>
       (\<forall>j. pid_get_pcb q j = Some (if j = i then Some zero else pid_pcb p j)) \<and>
       (\<exists>r. pid_free heap_ok q i = Some r \<and> pid_inv r \<and> (\<forall>j. pid_pcb r j = pid_pcb p j))) \<and>
    (\<exists>r. pid_alloc heap_ok False zero p = Some (r, 0) \<and> pid_inv r \<and> (\<forall>j. pid_pcb r j = pid_pcb p j))"
proof -
  from pid_alloc_spec [OF inv, of zero] obtain q i where
    q: "pid_alloc heap_ok True zero p = Some (q, i)" "pid_inv q"
    "if i = 0 then (\<forall>j. pid_pcb q j = pid_pcb p j) \<and> (\<forall>j \<in> {PID_START..<PID_MAX}. pid_pcb p j \<noteq> None)
     else i \<in> {PID_START..<PID_MAX} \<and> pid_pcb p i = None \<and>
       (\<forall>j. pid_pcb q j = (if j = i then Some zero else pid_pcb p j))" by blast
  have "\<exists>r. pid_free heap_ok q i = Some r \<and> pid_inv r \<and> (\<forall>j. pid_pcb r j = pid_pcb p j)" if "i \<noteq> 0"
    using pid_free_spec [OF q(2), of i] q(3) that by fastforce
  with q pid_get_pcb_eq [OF q(2)] pid_alloc_no_memory [OF inv, of zero] show ?thesis by auto
qed

theorem pid_allocation_witness:
  "\<exists>q i. pid_alloc heap_ok True (9 :: nat) pid_init = Some (q, i) \<and> i \<in> {PID_START..<PID_MAX} \<and>
    pid_get_pcb q i = Some (Some 9)"
proof -
  have "\<not> (\<forall>j \<in> {PID_START..<PID_MAX}. pid_pcb (pid_init :: nat pid_list) j \<noteq> None)"
    by (auto simp: pid_init_inv(2) PID_START_def PID_MAX_def)
  with pid_allocation [OF pid_init_inv(1), of "9 :: nat"] show ?thesis by (auto split: if_splits)
qed

text \<open>
  C25 (badges).  The badge made for a process is recognised as a process badge and leads back to the
  control block of that process; its liveness badge is recognised as such; and the ranges of the
  process, liveness, window and dataspace badges are disjoint, so no badge is taken for another kind.
\<close>

theorem badge_classes:
  assumes "PID_START \<le> pid" and "pid < PID_MAX"
  shows "\<exists>b l. pid_get_badge pid = Some b \<and> pid_get_liveness_badge pid = Some l \<and>
    pid_get_pcb_from_badge p b = pid_get_pcb p pid \<and> dispatcher_badge_PID b \<and>
    l - PID_LIVENESS_BADGE_BASE = pid \<and> dispatcher_badge_liveness l \<and>
    length (filter (\<lambda>f. f b) [dispatcher_badge_PID, dispatcher_badge_liveness, dispatcher_badge_window,
      dispatcher_badge_dspace]) = 1 \<and>
    length (filter (\<lambda>f. f badge) [dispatcher_badge_PID, dispatcher_badge_liveness, dispatcher_badge_window,
      dispatcher_badge_dspace]) \<le> 1"
proof -
  have g: "pid_get_badge pid = Some (pid + PID_BADGE_BASE)"
    "pid_get_liveness_badge pid = Some (pid + PID_LIVENESS_BADGE_BASE)"
    using assms by (simp_all add: pid_get_badge_def pid_get_liveness_badge_def)
  note b = pid_badge_roundtrip [OF g(1), of p] and l = pid_liveness_badge [OF g(2)]
  with badge_classes_disjoint [of badge] badge_classes_disjoint(1) [of "pid + PID_BADGE_BASE"] g
  show ?thesis by auto
qed

theorem badge_classes_witness:
  "\<exists>b l. pid_get_badge 5 = Some b \<and> pid_get_liveness_badge 5 = Some l \<and> dispatcher_badge_PID b"
  using badge_classes [of 5 "pid_init :: nat pid_list" 8] by (auto simp: PID_START_def PID_MAX_def)

end
