(* ===== verification/Window_Assoc.thy ===== *)
theory Window_Assoc
  imports Refos
begin

text \<open>
  The window association list of a process (\<open>system/memserv/window.c\<close>, second half): which
  window covers which range of the address space.  The array is sorted by offset when a search
  needs it, and the search is a binary search.

  The array is a list of the allocated cells, of which the first \<open>numIndex\<close> are in use; the null
  pointer is the empty list.  \<open>kmalloc\<close> and \<open>krealloc\<close> are asserted to succeed; whether they do
  is the argument \<open>mem\<close>, by number of cells.  \<open>qsort\<close> is the sorting of the C library: its result
  is the sorted permutation, which is unique when the offsets are distinct.
\<close>

section \<open>Model\<close>

definition W_INITIAL_SIZE :: nat where "W_INITIAL_SIZE = 4"

record w_associated_window =
  aw_winID :: int
  aw_offset :: nat
  aw_size :: nat

record w_associated_windowlist =
  aw_associated :: "w_associated_window list"
  aw_vectorSize :: nat
  aw_numIndex :: nat
  aw_updated :: bool

definition zero_assoc :: w_associated_window where
  "zero_assoc = \<lparr>aw_winID = 0, aw_offset = 0, aw_size = 0\<rparr>"

definition w_associate_update :: "w_associated_windowlist \<Rightarrow> w_associated_windowlist" where
  "w_associate_update aw =
     aw\<lparr>aw_associated := sort_key aw_offset (take (aw_numIndex aw) (aw_associated aw))
          @ drop (aw_numIndex aw) (aw_associated aw),
        aw_updated := True\<rparr>"

definition w_associate_reserve ::
  "(nat \<Rightarrow> bool) \<Rightarrow> w_associated_windowlist \<Rightarrow> nat \<Rightarrow> w_associated_windowlist option" where
  "w_associate_reserve mem aw num =
     (if num < aw_vectorSize aw then Some aw
      else if aw_vectorSize aw = 0 \<or> aw_associated aw = [] then do {
        let n = (if num < W_INITIAL_SIZE then W_INITIAL_SIZE else num);
        c_assert (mem n);
        Some (aw\<lparr>aw_vectorSize := n, aw_associated := replicate n zero_assoc\<rparr>)
      }
      else do {
        let n = u32 (aw_vectorSize aw * 2 + 1);
        c_assert (mem n);
        Some (aw\<lparr>aw_vectorSize := n, aw_associated := realloc_to zero_assoc n (aw_associated aw)\<rparr>)
      })"

definition w_associate_clear ::
  "(nat \<Rightarrow> bool) \<Rightarrow> w_associated_windowlist \<Rightarrow> w_associated_windowlist option" where
  "w_associate_clear mem aw =
     w_associate_reserve mem
       (aw\<lparr>aw_numIndex := 0, aw_associated := [], aw_vectorSize := 0, aw_updated := True\<rparr>)
       W_INITIAL_SIZE"

definition w_associate_init ::
  "(nat \<Rightarrow> bool) \<Rightarrow> w_associated_windowlist \<Rightarrow> w_associated_windowlist option" where
  "w_associate_init mem aw = w_associate_clear mem (aw\<lparr>aw_associated := []\<rparr>)"

definition w_associate ::
  "(nat \<Rightarrow> bool) \<Rightarrow> w_associated_windowlist \<Rightarrow> int \<Rightarrow> nat \<Rightarrow> nat \<Rightarrow>
   (w_associated_windowlist \<times> refos_error) option" where
  "w_associate mem aw winID offset sz = do {
     c_assert (winID \<noteq> 0);
     c_assert (winID > 0 \<and> winID < int W_MAX_WINDOWS);
     if aw_numIndex aw \<ge> W_MAX_ASSOCIATED_WINDOWS then Some (aw, ENOMEM)
     else do {
       aw \<leftarrow> w_associate_reserve mem aw (aw_numIndex aw + 1);
       arr \<leftarrow> wr (aw_associated aw) (aw_numIndex aw)
         \<lparr>aw_winID = winID, aw_offset = offset, aw_size = sz\<rparr>;
       Some (aw\<lparr>aw_associated := arr, aw_numIndex := aw_numIndex aw + 1, aw_updated := False\<rparr>,
         ESUCCESS)
     }
   }"

text \<open>
  The loop of \<open>w_unassociate\<close>: the last entry moves into the place of a removed one, and the
  loop goes on behind that place.
\<close>

function unassociate_loop ::
  "int \<Rightarrow> nat \<Rightarrow> w_associated_window list \<Rightarrow> nat \<Rightarrow> (w_associated_window list \<times> nat) option" where
  "unassociate_loop winID i arr num =
     (if i < num then do {
        w \<leftarrow> rd arr i;
        if aw_winID w = winID then do {
          w' \<leftarrow> rd arr (num - 1);
          arr \<leftarrow> wr arr i w';
          unassociate_loop winID (i + 1) arr (num - 1)
        }
        else unassociate_loop winID (i + 1) arr num
      }
      else Some (arr, num))"
  by pat_completeness auto
termination
  by (relation "measure (\<lambda>(winID, i, arr, num). num - i)") auto

declare unassociate_loop.simps [simp del]

definition w_unassociate ::
  "w_associated_windowlist \<Rightarrow> int \<Rightarrow> w_associated_windowlist option" where
  "w_unassociate aw winID = do {
     (arr, num) \<leftarrow> unassociate_loop winID 0 (aw_associated aw) (aw_numIndex aw);
     Some (aw\<lparr>aw_associated := arr, aw_numIndex := num\<rparr>)
   }"

definition w_associate_window_contains :: "w_associated_window \<Rightarrow> nat \<Rightarrow> bool" where
  "w_associate_window_contains w addr \<longleftrightarrow>
     aw_offset w \<le> addr \<and> u32 (aw_offset w + aw_size w) > addr"

text \<open>The \<open>while (1)\<close> of the binary search, from the interval \<open>startIndex\<close>, \<open>endIndex\<close>.\<close>

function find_index_loop ::
  "w_associated_window list \<Rightarrow> nat \<Rightarrow> nat \<Rightarrow> nat \<Rightarrow> nat \<Rightarrow> int option" where
  "find_index_loop arr num addr startIndex endIndex =
     (let currentIndex = (startIndex + endIndex) div 2 in
      if startIndex \<ge> endIndex then Some (-1 - int currentIndex)
      else do {
        c_assert (currentIndex < num);
        w \<leftarrow> rd arr currentIndex;
        if w_associate_window_contains w addr then Some (int currentIndex)
        else if aw_offset w \<le> addr
        then find_index_loop arr num addr (currentIndex + 1) endIndex
        else find_index_loop arr num addr startIndex currentIndex
      })"
  by pat_completeness auto
termination
  by (relation "measure (\<lambda>(arr, num, addr, s, e). e - s)") auto

declare find_index_loop.simps [simp del]

definition resort :: "w_associated_windowlist \<Rightarrow> w_associated_windowlist" where
  "resort aw = (if \<not> aw_updated aw then w_associate_update aw else aw)"

definition w_associate_find_index ::
  "w_associated_windowlist \<Rightarrow> nat \<Rightarrow> (w_associated_windowlist \<times> int) option" where
  "w_associate_find_index aw addr = do {
     let aw = resort aw;
     r \<leftarrow> find_index_loop (aw_associated aw) (aw_numIndex aw) addr 0 (aw_numIndex aw);
     Some (aw, r)
   }"

definition w_associate_find ::
  "w_associated_windowlist \<Rightarrow> nat \<Rightarrow>
   (w_associated_windowlist \<times> w_associated_window option) option" where
  "w_associate_find aw addr = do {
     (aw, r) \<leftarrow> w_associate_find_index aw addr;
     if r < 0 then Some (aw, None)
     else do {
       w \<leftarrow> rd (aw_associated aw) (nat r);
       Some (aw, Some w)
     }
   }"

definition w_associate_find_winID ::
  "w_associated_windowlist \<Rightarrow> int \<Rightarrow>
   (w_associated_windowlist \<times> w_associated_window option) option" where
  "w_associate_find_winID aw winID = do {
     let aw = resort aw;
     r \<leftarrow> for_find (rd (aw_associated aw)) (\<lambda>w. aw_winID w = winID) 0 (aw_numIndex aw);
     case r of
       None \<Rightarrow> Some (aw, None)
     | Some i \<Rightarrow> do {
         w \<leftarrow> rd (aw_associated aw) i;
         Some (aw, Some w)
       }
   }"

definition w_associate_check ::
  "w_associated_windowlist \<Rightarrow> nat \<Rightarrow> nat \<Rightarrow> (w_associated_windowlist \<times> bool) option" where
  "w_associate_check aw offset sz = do {
     (aw, r1) \<leftarrow> w_associate_find_index aw offset;
     if r1 \<ge> 0 then Some (aw, False)
     else do {
       (aw, r2) \<leftarrow> w_associate_find_index aw (u32i (int offset + int sz - 1));
       if r2 \<ge> 0 then Some (aw, False)
       else Some (aw, r1 = r2)
     }
   }"

definition w_associate_find_range ::
  "w_associated_windowlist \<Rightarrow> nat \<Rightarrow> nat \<Rightarrow>
   (w_associated_windowlist \<times> w_associated_window option) option" where
  "w_associate_find_range aw offset sz = do {
     (aw, r1) \<leftarrow> w_associate_find_index aw offset;
     if r1 < 0 then Some (aw, None)
     else do {
       (aw, r2) \<leftarrow> w_associate_find_index aw (u32i (int offset + int sz - 1));
       if r2 < 0 then Some (aw, None)
       else if r1 \<noteq> r2 then Some (aw, None)
       else do {
         w \<leftarrow> rd (aw_associated aw) (nat r1);
         Some (aw, Some w)
       }
     }
   }"

section \<open>Disjoint windows\<close>

definition wins :: "w_associated_windowlist \<Rightarrow> w_associated_window list" where
  "wins aw = take (aw_numIndex aw) (aw_associated aw)"

definition covers :: "w_associated_window \<Rightarrow> nat \<Rightarrow> bool" where
  "covers w addr \<longleftrightarrow> aw_offset w \<le> addr \<and> addr < aw_offset w + aw_size w"

definition win_ok :: "w_associated_window \<Rightarrow> bool" where
  "win_ok w \<longleftrightarrow> 0 < aw_size w \<and> aw_offset w + aw_size w < 2 ^ 32"

definition apart :: "w_associated_window \<Rightarrow> w_associated_window \<Rightarrow> bool" where
  "apart v w \<longleftrightarrow> aw_offset v + aw_size v \<le> aw_offset w \<or> aw_offset w + aw_size w \<le> aw_offset v"

definition layout_ok :: "w_associated_window list \<Rightarrow> bool" where
  "layout_ok ws \<longleftrightarrow> distinct ws \<and> (\<forall>w \<in> set ws. win_ok w) \<and>
     (\<forall>v \<in> set ws. \<forall>w \<in> set ws. v \<noteq> w \<longrightarrow> apart v w)"

definition in_order :: "w_associated_window list \<Rightarrow> bool" where
  "in_order ws \<longleftrightarrow> sorted (map aw_offset ws)"

definition assoc_inv :: "w_associated_windowlist \<Rightarrow> bool" where
  "assoc_inv aw \<longleftrightarrow> aw_numIndex aw \<le> aw_vectorSize aw \<and> length (aw_associated aw) = aw_vectorSize aw \<and>
     0 < aw_vectorSize aw \<and> aw_vectorSize aw \<le> 2 ^ 16 \<and> layout_ok (wins aw) \<and>
     distinct (map aw_winID (wins aw))"

lemma contains_covers: "win_ok w \<Longrightarrow> w_associate_window_contains w addr = covers w addr"
  by (simp add: w_associate_window_contains_def covers_def win_ok_def)

lemma separated:
  assumes "layout_ok ws" "in_order ws" "i < j" "j < length ws"
  shows "aw_offset (ws ! i) + aw_size (ws ! i) \<le> aw_offset (ws ! j)"
proof -
  have "ws ! i \<noteq> ws ! j" "ws ! i \<in> set ws" "ws ! j \<in> set ws"
    using assms by (auto simp: layout_ok_def nth_eq_iff_index_eq)
  then have "apart (ws ! i) (ws ! j)" "0 < aw_size (ws ! j)"
    using assms(1) by (auto simp: layout_ok_def win_ok_def)
  moreover have "aw_offset (ws ! i) \<le> aw_offset (ws ! j)"
    using assms(2-4) by (auto simp: in_order_def sorted_iff_nth_mono)
  ultimately show ?thesis by (auto simp: apart_def)
qed

section \<open>The binary search\<close>

definition search_result :: "w_associated_window list \<Rightarrow> nat \<Rightarrow> int \<Rightarrow> bool" where
  "search_result ws addr r \<longleftrightarrow>
     (if 0 \<le> r then nat r < length ws \<and> covers (ws ! nat r) addr
      else r = -1 - int (length (filter (\<lambda>w. aw_offset w \<le> addr) ws)) \<and>
        (\<forall>w \<in> set ws. \<not> covers w addr))"

lemma count_prefix:
  assumes "k \<le> length ws" "\<And>i. i < k \<Longrightarrow> P (ws ! i)" "\<And>i. k \<le> i \<Longrightarrow> i < length ws \<Longrightarrow> \<not> P (ws ! i)"
  shows "length (filter P ws) = k"
proof -
  have "filter P (take k ws) = take k ws" "filter P (drop k ws) = []"
    using assms by (auto simp: filter_id_conv filter_empty_conv in_set_conv_nth)
  then show ?thesis
    using assms(1) by (metis append_Nil2 append_take_drop_id filter_append length_take min.absorb2)
qed

lemma find_index_loop_spec:
  assumes "layout_ok ws" "in_order ws" "n = length ws" "arr = ws @ rest" "s \<le> e" "e \<le> n"
    and "\<And>i. i < s \<Longrightarrow> aw_offset (ws ! i) \<le> addr \<and> \<not> covers (ws ! i) addr"
    and "\<And>i. e \<le> i \<Longrightarrow> i < n \<Longrightarrow> addr < aw_offset (ws ! i)"
  shows "\<exists>r. find_index_loop arr n addr s e = Some r \<and> search_result ws addr r"
  using assms
proof (induction arr n addr s e rule: find_index_loop.induct)
  case (1 arr n addr s e)
  let ?c = "(s + e) div 2"
  note order = separated [OF "1.prems"(1,2)]
  show ?case
  proof (cases "s < e")
    case False
    with "1.prems" have "s = e" by simp
    have "length (filter (\<lambda>w. aw_offset w \<le> addr) ws) = e"
      using "1.prems" \<open>s = e\<close> by (intro count_prefix) (auto simp: not_le)
    moreover have "\<not> covers (ws ! i) addr" if "i < length ws" for i
      using "1.prems"(3) "1.prems"(7) [of i] "1.prems"(8) [of i] \<open>s = e\<close> that
      by (cases "i < s") (auto simp: covers_def)
    moreover have "find_index_loop arr n addr s e = Some (-1 - int e)"
      using \<open>s = e\<close> by (simp add: find_index_loop.simps [of arr n addr e e])
    ultimately show ?thesis by (auto simp: search_result_def in_set_conv_nth)
  next
    case True
    then have c: "s \<le> ?c" "?c < e" "?c < length ws" using "1.prems"(3,6) by auto
    have w: "win_ok (ws ! ?c)" using "1.prems"(1) c by (auto simp: layout_ok_def)
    have eq: "find_index_loop arr n addr s e =
      (if covers (ws ! ?c) addr then Some (int ?c)
       else if aw_offset (ws ! ?c) \<le> addr then find_index_loop arr n addr (?c + 1) e
       else find_index_loop arr n addr s ?c)"
      using True c "1.prems"(3,4) contains_covers [OF w]
      by (subst find_index_loop.simps) (simp add: Let_def rd_def nth_append)
    consider "covers (ws ! ?c) addr" | (up) "\<not> covers (ws ! ?c) addr" "aw_offset (ws ! ?c) \<le> addr"
      | (down) "\<not> covers (ws ! ?c) addr" "\<not> aw_offset (ws ! ?c) \<le> addr" by blast
    then show ?thesis
    proof cases
      case 1
      with eq c show ?thesis by (simp add: search_result_def)
    next
      case up
      have "aw_offset (ws ! i) \<le> addr \<and> \<not> covers (ws ! i) addr" if "i < ?c + 1" for i
        using order [of i ?c] that up c by (cases "i = ?c") (auto simp: covers_def)
      with "1.IH"(1) [of ?c "()" "ws ! ?c"] "1.prems" c up eq True w show ?thesis
        by (auto simp: rd_def nth_append contains_covers)
    next
      case down
      have "addr < aw_offset (ws ! i)" if "?c \<le> i" "i < n" for i
        using order [of ?c i] that down "1.prems"(3) by (cases "i = ?c") auto
      with "1.IH"(2) [of ?c "()" "ws ! ?c"] "1.prems" c down eq True w show ?thesis
        by (auto simp: rd_def nth_append contains_covers)
    qed
  qed
qed


definition sorted_inv :: "w_associated_windowlist \<Rightarrow> bool" where
  "sorted_inv aw \<longleftrightarrow> assoc_inv aw \<and> (aw_updated aw \<longrightarrow> in_order (wins aw))"

lemma resort_wins:
  assumes "assoc_inv aw"
  shows "aw_associated (resort aw) = wins (resort aw) @ drop (aw_numIndex aw) (aw_associated aw)"
    "aw_numIndex (resort aw) = aw_numIndex aw" "length (wins (resort aw)) = aw_numIndex aw"
    "set (wins (resort aw)) = set (wins aw)" "layout_ok (wins (resort aw))"
    "distinct (map aw_winID (wins (resort aw)))"
proof -
  have len: "length (wins aw) = aw_numIndex aw" using assms by (simp add: assoc_inv_def wins_def)
  have w: "wins (resort aw) = (if aw_updated aw then wins aw else sort_key aw_offset (wins aw))"
    using len by (simp add: resort_def w_associate_update_def wins_def)
  show "distinct (map aw_winID (wins (resort aw)))"
    using assms by (simp add: w assoc_inv_def distinct_map)
  show "aw_associated (resort aw) = wins (resort aw) @ drop (aw_numIndex aw) (aw_associated aw)"
    by (simp add: w) (simp add: resort_def w_associate_update_def wins_def)
  show "aw_numIndex (resort aw) = aw_numIndex aw"
    by (simp add: resort_def w_associate_update_def)
  show "length (wins (resort aw)) = aw_numIndex aw" "set (wins (resort aw)) = set (wins aw)"
    "layout_ok (wins (resort aw))"
    using w len assms by (auto simp: layout_ok_def assoc_inv_def)
qed

lemma resort_inv:
  assumes "sorted_inv aw"
  shows "sorted_inv (resort aw)" "aw_updated (resort aw)" "in_order (wins (resort aw))"
    "resort (resort aw) = resort aw"
proof -
  have inv: "assoc_inv aw" using assms by (simp add: sorted_inv_def)
  note r = resort_wins [OF inv]
  show up: "aw_updated (resort aw)" by (simp add: resort_def w_associate_update_def)
  then show "resort (resort aw) = resort aw" by (simp add: resort_def)
  show ord: "in_order (wins (resort aw))"
    using assms inv by (auto simp: resort_def w_associate_update_def wins_def in_order_def sorted_inv_def
        assoc_inv_def)
  have "aw_vectorSize (resort aw) = aw_vectorSize aw \<and> length (aw_associated (resort aw)) = length (aw_associated aw)"
    using inv by (simp add: resort_def w_associate_update_def assoc_inv_def)
  with r ord inv show "sorted_inv (resort aw)" by (simp add: sorted_inv_def assoc_inv_def)
qed

lemma find_index_spec:
  assumes "sorted_inv aw"
  shows "\<exists>r. w_associate_find_index aw addr = Some (resort aw, r) \<and>
    search_result (wins (resort aw)) addr r"
proof -
  have inv: "assoc_inv aw" using assms by (simp add: sorted_inv_def)
  note r = resort_wins [OF inv]
  from find_index_loop_spec [OF r(5) resort_inv(3) [OF assms] _ r(1), of "aw_numIndex aw" 0 "aw_numIndex aw" addr]
  obtain res where "find_index_loop (aw_associated (resort aw)) (aw_numIndex aw) addr 0 (aw_numIndex aw) = Some res"
    "search_result (wins (resort aw)) addr res"
    using r(3) by auto
  then show ?thesis by (simp add: w_associate_find_index_def Let_def r(2))
qed

lemma covers_unique:
  "layout_ok ws \<Longrightarrow> v \<in> set ws \<Longrightarrow> w \<in> set ws \<Longrightarrow> covers v a \<Longrightarrow> covers w a \<Longrightarrow> v = w"
  by (force simp: layout_ok_def covers_def apart_def)

lemma find_spec:
  assumes "sorted_inv aw"
  shows "\<exists>r. w_associate_find aw addr = Some (resort aw, r) \<and>
    (case r of None \<Rightarrow> \<forall>w \<in> set (wins aw). \<not> covers w addr
     | Some w \<Rightarrow> w \<in> set (wins aw) \<and> covers w addr)"
proof -
  have inv: "assoc_inv aw" using assms by (simp add: sorted_inv_def)
  note r = resort_wins [OF inv]
  from find_index_spec [OF assms, of addr] obtain i where
    i: "w_associate_find_index aw addr = Some (resort aw, i)" "search_result (wins (resort aw)) addr i"
    by blast
  show ?thesis
  proof (cases "0 \<le> i")
    case True
    then have n: "nat i < length (wins (resort aw))" "covers (wins (resort aw) ! nat i) addr"
      using i(2) by (auto simp: search_result_def)
    then have "rd (aw_associated (resort aw)) (nat i) = Some (wins (resort aw) ! nat i)"
      by (subst r(1)) (simp add: rd_def nth_append)
    moreover have "wins (resort aw) ! nat i \<in> set (wins aw)" using n(1) r(4) nth_mem by blast
    ultimately show ?thesis using True i(1) n by (simp add: w_associate_find_def)
  next
    case False
    with i r(4) show ?thesis by (auto simp: w_associate_find_def search_result_def)
  qed
qed

lemma length_filter_eq_iff:
  assumes "\<And>x. x \<in> set xs \<Longrightarrow> P x \<Longrightarrow> Q x"
  shows "length (filter P xs) = length (filter Q xs) \<longleftrightarrow> (\<forall>x \<in> set xs. Q x \<longrightarrow> P x)"
  using assms
proof (induction xs)
  case (Cons x xs)
  have "filter P xs = filter P (filter Q xs)"
    using Cons.prems by (auto simp: filter_filter intro!: filter_cong)
  then have "length (filter P xs) \<le> length (filter Q xs)" using length_filter_le [of P "filter Q xs"] by simp
  with Cons show ?case by auto
qed simp

lemma check_spec:
  assumes "sorted_inv aw" "0 < sz" "offset + sz \<le> 2 ^ 32"
  shows "w_associate_check aw offset sz = Some (resort aw,
    \<forall>w \<in> set (wins aw). \<forall>a. offset \<le> a \<and> a < offset + sz \<longrightarrow> \<not> covers w a)"
proof -
  let ?ws = "wins (resort aw)" and ?e = "offset + sz - 1"
  have inv: "assoc_inv aw" using assms by (simp add: sorted_inv_def)
  note r = resort_wins [OF inv]
  have e: "u32i (int offset + int sz - 1) = ?e"
    using assms(2,3) by (simp add: u32i_def of_nat_diff)
  from find_index_spec [OF assms(1), of offset] obtain i where
    i: "w_associate_find_index aw offset = Some (resort aw, i)" "search_result ?ws offset i" by blast
  from find_index_spec [OF resort_inv(1) [OF assms(1)], of ?e] obtain j where
    j: "w_associate_find_index (resort aw) ?e = Some (resort aw, j)" "search_result ?ws ?e j"
    using resort_inv(4) [OF assms(1)] by auto
  have hit: "\<exists>w \<in> set (wins aw). covers w a" if "search_result ?ws a k" "0 \<le> k" for a k
    using that r(4) by (auto simp: search_result_def)
  have miss: "\<forall>w \<in> set (wins aw). \<not> covers w a" if "search_result ?ws a k" "\<not> 0 \<le> k" for a k
    using that r(4) by (auto simp: search_result_def)
  have ends: "offset \<le> ?e" "?e < offset + sz" "offset < offset + sz" using assms(2) by auto
  show ?thesis
  proof (cases "0 \<le> i \<or> 0 \<le> j")
    case True
    then have "\<exists>w \<in> set (wins aw). \<exists>a. offset \<le> a \<and> a < offset + sz \<and> covers w a"
      using hit [OF i(2)] hit [OF j(2)] ends by blast
    with True i(1) j(1) e show ?thesis by (auto simp: w_associate_check_def)
  next
    case False
    define le where "le = (\<lambda>a (w :: w_associated_window). aw_offset w \<le> a)"
    have "i = j \<longleftrightarrow> length (filter (le offset) ?ws) = length (filter (le ?e) ?ws)"
      using False i(2) j(2) by (auto simp: search_result_def le_def)
    also have "\<dots> \<longleftrightarrow> (\<forall>w \<in> set ?ws. le ?e w \<longrightarrow> le offset w)"
      using ends by (intro length_filter_eq_iff) (auto simp: le_def)
    also have "\<dots> \<longleftrightarrow> (\<forall>w \<in> set (wins aw). \<forall>a. offset \<le> a \<and> a < offset + sz \<longrightarrow> \<not> covers w a)"
      unfolding r(4)
    proof (intro ball_cong refl)
      fix w assume w: "w \<in> set (wins aw)"
      then have "win_ok w" using inv by (auto simp: assoc_inv_def layout_ok_def)
      moreover have "\<not> covers w offset" "\<not> covers w ?e" using w miss [OF i(2)] miss [OF j(2)] False by auto
      ultimately show "(le ?e w \<longrightarrow> le offset w) =
          (\<forall>a. offset \<le> a \<and> a < offset + sz \<longrightarrow> \<not> covers w a)"
        using ends by (auto simp: le_def covers_def win_ok_def dest: spec [of _ "aw_offset w"])
    qed
    finally show ?thesis using False i(1) j(1) e by (auto simp: w_associate_check_def)
  qed
qed


lemma find_range_spec:
  assumes "sorted_inv aw" "0 < sz" "offset + sz \<le> 2 ^ 32"
  shows "\<exists>r. w_associate_find_range aw offset sz = Some (resort aw, r) \<and>
    (\<forall>w. r = Some w \<longleftrightarrow> w \<in> set (wins aw) \<and> (\<forall>a. offset \<le> a \<and> a < offset + sz \<longrightarrow> covers w a))"
proof -
  let ?ws = "wins (resort aw)" and ?e = "offset + sz - 1"
  have inv: "assoc_inv aw" using assms by (simp add: sorted_inv_def)
  note r = resort_wins [OF inv]
  have e: "u32i (int offset + int sz - 1) = ?e"
    using assms(2,3) by (simp add: u32i_def of_nat_diff)
  have ends: "offset \<le> ?e" "?e < offset + sz" "offset < offset + sz" using assms(2) by auto
  have both: "(\<forall>a. offset \<le> a \<and> a < offset + sz \<longrightarrow> covers w a) \<longleftrightarrow> covers w offset \<and> covers w ?e" for w
    using ends by (auto simp: covers_def)
  from find_index_spec [OF assms(1), of offset] obtain i where
    i: "w_associate_find_index aw offset = Some (resort aw, i)" "search_result ?ws offset i" by blast
  from find_index_spec [OF resort_inv(1) [OF assms(1)], of ?e] obtain j where
    j: "w_associate_find_index (resort aw) ?e = Some (resort aw, j)" "search_result ?ws ?e j"
    using resort_inv(4) [OF assms(1)] by auto
  have uniq: "v = ?ws ! nat k" if "v \<in> set (wins aw)" "covers v a" "search_result ?ws a k" for v a k
    using that r(4,5) covers_unique [OF r(5), of v "?ws ! nat k" a] nth_mem [of "nat k" ?ws]
    by (auto simp: search_result_def split: if_splits)
  show ?thesis
  proof (cases "0 \<le> i \<and> i = j")
    case True
    then have n: "nat i < length ?ws" "covers (?ws ! nat i) offset" "covers (?ws ! nat i) ?e"
      using i(2) j(2) by (auto simp: search_result_def)
    then have "rd (aw_associated (resort aw)) (nat i) = Some (?ws ! nat i)"
      by (subst r(1)) (simp add: rd_def nth_append)
    moreover have "?ws ! nat i \<in> set (wins aw)" using n(1) r(4) nth_mem by blast
    moreover have "?ws ! nat i = w \<longleftrightarrow> w \<in> set (wins aw) \<and> covers w offset \<and> covers w ?e" for w
      using uniq [OF _ _ i(2)] n calculation(2) by blast
    ultimately show ?thesis
      using True i(1) j(1) unfolding both by (auto simp: w_associate_find_range_def e)
  next
    case False
    have "\<not> (covers w offset \<and> covers w ?e)" if w: "w \<in> set (wins aw)" for w
    proof
      assume c: "covers w offset \<and> covers w ?e"
      with w i(2) j(2) r(4) have pos: "0 \<le> i" "0 \<le> j" by (auto simp: search_result_def split: if_splits)
      with i(2) j(2) have lt: "nat i < length ?ws" "nat j < length ?ws" by (auto simp: search_result_def)
      have "?ws ! nat i = ?ws ! nat j" using uniq [OF w _ i(2)] uniq [OF w _ j(2)] c by metis
      then have "nat i = nat j" using r(5) lt by (auto simp: layout_ok_def nth_eq_iff_index_eq)
      with False pos show False by auto
    qed
    then show ?thesis
      using False i(1) j(1) unfolding both by (auto simp: w_associate_find_range_def e)
  qed
qed

section \<open>Adding and removing a window\<close>

lemma reserve_spec:
  assumes "assoc_inv aw" "\<And>n. mem n" "aw_numIndex aw < 2048"
  shows "\<exists>aw'. w_associate_reserve mem aw (aw_numIndex aw + 1) = Some aw' \<and> assoc_inv aw' \<and>
    wins aw' = wins aw \<and> aw_numIndex aw' = aw_numIndex aw \<and> aw_updated aw' = aw_updated aw \<and>
    aw_numIndex aw < length (aw_associated aw')"
proof -
  have "aw_associated aw \<noteq> []" using assms(1) by (auto simp: assoc_inv_def)
  then show ?thesis using assms
    by (auto simp: w_associate_reserve_def assoc_inv_def Let_def wins_def)
qed

lemma associate_spec:
  assumes inv: "assoc_inv aw" and mem: "\<And>n. mem n" and room: "aw_numIndex aw < W_MAX_ASSOCIATED_WINDOWS"
    and id: "0 < winID" "winID < int W_MAX_WINDOWS" "winID \<notin> aw_winID ` set (wins aw)"
    and new: "w = \<lparr>aw_winID = winID, aw_offset = offset, aw_size = sz\<rparr>" "win_ok w"
    and apart: "\<And>v. v \<in> set (wins aw) \<Longrightarrow> apart v w"
  shows "\<exists>aw'. w_associate mem aw winID offset sz = Some (aw', ESUCCESS) \<and> sorted_inv aw' \<and>
    wins aw' = wins aw @ [w]"
proof -
  from reserve_spec [where mem = mem, OF inv mem] room obtain a where
    a: "w_associate_reserve mem aw (aw_numIndex aw + 1) = Some a" "assoc_inv a" "wins a = wins aw"
      "aw_numIndex a = aw_numIndex aw" "aw_numIndex aw < length (aw_associated a)"
    by (auto simp: W_MAX_ASSOCIATED_WINDOWS_def)
  define a' where "a' = a\<lparr>aw_associated := (aw_associated a)[aw_numIndex aw := w],
    aw_numIndex := aw_numIndex aw + 1, aw_updated := False\<rparr>"
  have wins': "wins a' = wins aw @ [w]"
    using a(3,4,5) by (simp add: a'_def wins_def take_Suc_conv_app_nth)
  have "w \<notin> set (wins aw)" using id(3) new(1) by (force simp: image_iff)
  then have "layout_ok (wins aw @ [w])"
    using inv new(2) apart by (auto simp: assoc_inv_def layout_ok_def apart_def)
  moreover have "distinct (map aw_winID (wins aw @ [w]))"
    using inv id(3) new(1) by (auto simp: assoc_inv_def)
  ultimately have "sorted_inv a'"
    using a(2,4,5) wins' by (simp add: sorted_inv_def assoc_inv_def) (simp add: a'_def)
  moreover have "w_associate mem aw winID offset sz = Some (a', ESUCCESS)"
    using a(1,4,5) room id(1,2) new(1) by (simp add: w_associate_def a'_def)
  ultimately show ?thesis using wins' by blast
qed

lemma unassociate_none:
  assumes "\<And>k. i \<le> k \<Longrightarrow> k < num \<Longrightarrow> aw_winID (arr ! k) \<noteq> winID" "num \<le> length arr"
  shows "unassociate_loop winID i arr num = Some (arr, num)"
  using assms
proof (induction winID i arr num rule: unassociate_loop.induct)
  case (1 winID i arr num)
  then show ?case by (cases "i < num") (simp_all add: unassociate_loop.simps [of winID i arr num])
qed

lemma unassociate_hit:
  assumes "i \<le> p" "p < num" "num \<le> length arr" "aw_winID (arr ! p) = winID"
    and "\<And>k. i \<le> k \<Longrightarrow> k < num \<Longrightarrow> k \<noteq> p \<Longrightarrow> aw_winID (arr ! k) \<noteq> winID"
  shows "unassociate_loop winID i arr num = Some (arr[p := arr ! (num - 1)], num - 1)"
  using assms
proof (induction winID i arr num rule: unassociate_loop.induct)
  case (1 winID i arr num)
  show ?case
  proof (cases "i = p")
    case True
    have "unassociate_loop winID (i + 1) (arr[i := arr ! (num - 1)]) (num - 1) =
        Some (arr[i := arr ! (num - 1)], num - 1)"
      using "1.prems" True by (intro unassociate_none) auto
    with "1.prems" True show ?thesis by (subst unassociate_loop.simps) simp
  next
    case False
    with "1.prems" "1.IH"(2) [of "arr ! i"] show ?thesis
      by (simp add: unassociate_loop.simps [of winID i arr num])
  qed
qed


lemma swap_out:
  assumes "p < n" "n \<le> length xs" "distinct (map f (take n xs))"
  shows "set (take (n - 1) (xs[p := xs ! (n - 1)])) = set (take n xs) - {xs ! p}"
    and "distinct (map f (take (n - 1) (xs[p := xs ! (n - 1)])))"
proof -
  obtain m where m: "n = Suc m" using assms(1) by (cases n) auto
  define ys where "ys = take m xs"
  have ys: "take n xs = ys @ [xs ! m]" "length ys = m" using assms(2) m by (simp_all add: ys_def take_Suc_conv_app_nth)
  have upd: "take (n - 1) (xs[p := xs ! (n - 1)]) = ys[p := xs ! m]"
    using m by (simp add: ys_def take_update_swap)
  have d: "distinct (map f ys)" "f (xs ! m) \<notin> f ` set ys" "distinct ys" "xs ! m \<notin> set ys"
    using assms(3) ys by (auto simp: distinct_map)
  show "set (take (n - 1) (xs[p := xs ! (n - 1)])) = set (take n xs) - {xs ! p}"
  proof (cases "p = m")
    case False
    then have "p < m" "ys ! p = xs ! p" "xs ! p \<in> set ys"
      using assms(1) m ys(2) nth_mem [of p ys] by (auto simp: ys_def)
    then show ?thesis using d(3,4) ys unfolding upd by (auto simp: set_update_distinct)
  qed (use d(4) ys upd in \<open>simp add: list_update_beyond\<close>)
  show "distinct (map f (take (n - 1) (xs[p := xs ! (n - 1)])))"
    unfolding upd map_update using d(1,2) by (auto intro: distinct_list_update)
qed

lemma unassociate_spec:
  assumes inv: "assoc_inv aw"
  shows "\<exists>aw'. w_unassociate aw winID = Some aw' \<and> assoc_inv aw' \<and>
    set (wins aw') = {w \<in> set (wins aw). aw_winID w \<noteq> winID} \<and> aw_updated aw' = aw_updated aw"
proof (cases "\<exists>p < aw_numIndex aw. aw_winID (aw_associated aw ! p) = winID")
  case False
  have "unassociate_loop winID 0 (aw_associated aw) (aw_numIndex aw) = Some (aw_associated aw, aw_numIndex aw)"
    using False inv by (intro unassociate_none) (auto simp: assoc_inv_def)
  moreover have "\<forall>w \<in> set (wins aw). aw_winID w \<noteq> winID"
    using False by (fastforce simp: wins_def in_set_conv_nth)
  ultimately show ?thesis using inv by (auto simp: w_unassociate_def)
next
  case True
  let ?arr = "aw_associated aw" and ?n = "aw_numIndex aw"
  from True obtain p where p: "p < ?n" "aw_winID (?arr ! p) = winID" by blast
  have n: "?n \<le> length ?arr" "distinct (map aw_winID (take ?n ?arr))"
    using inv by (auto simp: assoc_inv_def wins_def)
  have other: "aw_winID (?arr ! k) \<noteq> winID" if "k < ?n" "k \<noteq> p" for k
    using nth_eq_iff_index_eq [OF n(2), of k p] that p n(1) by simp
  have loop: "unassociate_loop winID 0 ?arr ?n = Some (?arr[p := ?arr ! (?n - 1)], ?n - 1)"
    using p n(1) other by (intro unassociate_hit) auto
  note swap = swap_out [OF p(1) n]
  have mem: "v \<in> set (wins aw) \<longleftrightarrow> (\<exists>k < ?n. v = ?arr ! k)" for v
    using n(1) by (auto simp: wins_def in_set_conv_nth)
  have "{w \<in> set (wins aw). aw_winID w \<noteq> winID} = set (wins aw) - {?arr ! p}"
    using p other by (auto simp: mem) metis
  with loop swap inv show ?thesis
    by (auto simp: w_unassociate_def wins_def assoc_inv_def layout_ok_def distinct_map)
qed


section \<open>Properties\<close>

definition demo_wins :: w_associated_windowlist where
  "demo_wins = \<lparr>aw_associated = [\<lparr>aw_winID = 1, aw_offset = 4096, aw_size = 4096\<rparr>,
     \<lparr>aw_winID = 2, aw_offset = 12288, aw_size = 8192\<rparr>,
     \<lparr>aw_winID = 3, aw_offset = 20480, aw_size = 4096\<rparr>,
     \<lparr>aw_winID = 4, aw_offset = 28672, aw_size = 4096\<rparr>, zero_assoc],
     aw_vectorSize = 5, aw_numIndex = 4, aw_updated = True\<rparr>"

lemma demo_wins_inv: "sorted_inv demo_wins"
  by (simp add: sorted_inv_def assoc_inv_def demo_wins_def wins_def layout_ok_def win_ok_def apart_def
      in_order_def)

text \<open>
  C18 (window lookup).  On a list of disjoint windows that is sorted whenever its flag says so,
  the binary search finds the window that covers an address if there is one, and reports that
  there is none otherwise; the search keeps the set of windows.
\<close>

theorem window_find_correct:
  assumes "sorted_inv aw"
  shows "\<exists>r. w_associate_find aw addr = Some (resort aw, r) \<and> sorted_inv (resort aw) \<and>
    set (wins (resort aw)) = set (wins aw) \<and>
    (\<forall>w. r = Some w \<longleftrightarrow> w \<in> set (wins aw) \<and> covers w addr)"
proof -
  have inv: "assoc_inv aw" using assms by (simp add: sorted_inv_def)
  from find_spec [OF assms, of addr] obtain r where
    r: "w_associate_find aw addr = Some (resort aw, r)"
    "case r of None \<Rightarrow> \<forall>w \<in> set (wins aw). \<not> covers w addr
     | Some w \<Rightarrow> w \<in> set (wins aw) \<and> covers w addr" by blast
  have "\<forall>w. r = Some w \<longleftrightarrow> w \<in> set (wins aw) \<and> covers w addr"
    using r(2) covers_unique [of "wins aw" _ _ addr] inv
    by (cases r) (auto simp: assoc_inv_def)
  with r(1) resort_inv(1) [OF assms] resort_wins(4) [OF inv] show ?thesis by blast
qed

theorem window_find_correct_witness:
  "\<exists>aw. w_associate_find demo_wins 13000 = Some (aw, Some \<lparr>aw_winID = 2, aw_offset = 12288, aw_size = 8192\<rparr>)"
  using window_find_correct [OF demo_wins_inv, of 13000]
  by (auto simp: demo_wins_def wins_def covers_def)





text \<open>
  \<open>w_unassociate\<close> moves the last window into the gap and keeps
  the flag, so a sorted list may become unsorted with the flag set, and the search then misses a
  window that is in the list.
\<close>

theorem unassociate_breaks_search:
  "\<exists>aw w. sorted_inv demo_wins \<and> w_unassociate demo_wins 1 = Some aw \<and> w \<in> set (wins aw) \<and>
     covers w 28672 \<and> w_associate_find aw 28672 = Some (aw, None)"
proof -
  let ?aw = "demo_wins\<lparr>aw_associated := (aw_associated demo_wins)[0 := aw_associated demo_wins ! 3],
     aw_numIndex := 3\<rparr>"
  have "w_unassociate demo_wins 1 = Some ?aw"
    by (simp add: w_unassociate_def unassociate_loop.simps demo_wins_def rd_def wr_def)
  moreover have "w_associate_find ?aw 28672 = Some (?aw, None)"
    by (simp add: w_associate_find_def w_associate_find_index_def find_index_loop.simps demo_wins_def
        resort_def rd_def w_associate_window_contains_def)
  moreover have "\<exists>w \<in> set (wins ?aw). covers w 28672"
    by (simp add: wins_def demo_wins_def covers_def)
  ultimately show ?thesis using demo_wins_inv by blast
qed

end
