(* ===== verification/Dataspace.thy ===== *)
theory Dataspace
  imports Cvector Refos
begin

text \<open>
  RAM dataspaces (\<open>system/memserv/dataspace.c\<close>) as objects: the page array, reading and writing
  across pages, expansion, device memory and content initialisation.  The table of dataspaces and
  their reference counts are in the theory \<open>Memserv\<close>.

  A pointer to a dataspace is the record itself, so the assertions on its magic number hold by
  construction.  A page is the capability of its frame, 0 when no frame is allocated yet; the null
  pointer for the page array or the bit mask is \<open>None\<close>.  The kernel side is a record: the results
  of the next frame allocations (0 is a failure), the contents of the frames, whether the process
  server can map a frame to access it, and the device frame at a physical address.
\<close>

section \<open>Model\<close>

subsection \<open>Frames\<close>

record frames =
  fr_supply :: "nat list"
  fr_bytes :: "nat \<Rightarrow> nat list"
  fr_mappable :: "nat \<Rightarrow> bool"
  fr_device :: "nat \<Rightarrow> nat"

definition vka_alloc_frame :: "frames \<Rightarrow> frames \<times> nat" where
  "vka_alloc_frame fr =
     (case fr_supply fr of [] \<Rightarrow> (fr, 0) | c # cs \<Rightarrow> (fr\<lparr>fr_supply := cs\<rparr>, c))"

definition procserv_frame_write ::
  "frames \<Rightarrow> nat \<Rightarrow> nat list \<Rightarrow> nat \<Rightarrow> nat \<Rightarrow> (frames \<times> refos_error) option" where
  "procserv_frame_write fr frame src len offset =
     (if u32 (offset + len) > REFOS_PAGE_SIZE then Some (fr, EINVALIDPARAM)
      else if \<not> fr_mappable fr frame then Some (fr, ENOMEM)
      else do {
        c_assert (len \<le> length src \<and> offset + len \<le> length (fr_bytes fr frame));
        let old = fr_bytes fr frame;
        Some (fr\<lparr>fr_bytes := (fr_bytes fr)
          (frame := take offset old @ take len src @ drop (offset + len) old)\<rparr>, ESUCCESS)
      })"

definition procserv_frame_read ::
  "frames \<Rightarrow> nat \<Rightarrow> nat \<Rightarrow> nat \<Rightarrow> (nat list \<times> refos_error) option" where
  "procserv_frame_read fr frame len offset =
     (if u32 (offset + len) > REFOS_PAGE_SIZE then Some ([], EINVALIDPARAM)
      else if \<not> fr_mappable fr frame then Some ([], ENOMEM)
      else do {
        c_assert (offset + len \<le> length (fr_bytes fr frame));
        Some (take len (drop offset (fr_bytes fr frame)), ESUCCESS)
      })"

subsection \<open>The object\<close>

record ram_dspace_waiter =
  wt_pageidx :: nat
  wt_reply :: nat

record ram_dspace =
  ds_ID :: nat
  ds_capability :: nat
  ds_ref :: nat
  ds_pages :: "nat list option"
  ds_npages :: nat
  ds_contentInitEnabled :: bool
  ds_contentInitEP :: nat
  ds_contentInitPID :: nat
  ds_contentInitBitmask :: "nat list option"
  ds_contentInitWaitingList :: "ram_dspace_waiter cvector"
  ds_physicalAddrEnabled :: bool
  ds_physicalAddr :: nat

text \<open>
  \<open>pages_mem\<close>: the allocation of the page array succeeds; \<open>cap\<close>: the minted capability, 0 on
  failure.  The allocation of the structure itself is the argument \<open>obj_mem\<close>.
\<close>

definition ram_dspace_oat_create ::
  "bool \<Rightarrow> bool \<Rightarrow> nat \<Rightarrow> nat \<Rightarrow> nat \<Rightarrow> ram_dspace option" where
  "ram_dspace_oat_create obj_mem pages_mem cap ident sz =
     (if \<not> obj_mem then None
      else
        (let npages = sz div REFOS_PAGE_SIZE + (if sz mod REFOS_PAGE_SIZE \<noteq> 0 then 1 else 0) in
         if \<not> pages_mem then None
         else if cap = 0 then None
         else Some \<lparr>ds_ID = ident, ds_capability = cap, ds_ref = 1,
           ds_pages = Some (replicate npages 0), ds_npages = npages,
           ds_contentInitEnabled = False, ds_contentInitEP = 0, ds_contentInitPID = 0,
           ds_contentInitBitmask = None, ds_contentInitWaitingList = cvector_init,
           ds_physicalAddrEnabled = False, ds_physicalAddr = 0\<rparr>))"

definition ram_dspace_get_index :: "nat \<Rightarrow> nat" where
  "ram_dspace_get_index nbytes = nbytes div REFOS_PAGE_SIZE"

definition rd_page :: "ram_dspace \<Rightarrow> nat \<Rightarrow> nat option" where
  "rd_page ds idx = do { ps \<leftarrow> ds_pages ds; rd ps idx }"

definition wr_page :: "ram_dspace \<Rightarrow> nat \<Rightarrow> nat \<Rightarrow> ram_dspace option" where
  "wr_page ds idx c = do {
     ps \<leftarrow> ds_pages ds;
     ps \<leftarrow> wr ps idx c;
     Some (ds\<lparr>ds_pages := Some ps\<rparr>)
   }"

definition ram_dspace_check_page :: "ram_dspace \<Rightarrow> nat \<Rightarrow> nat option" where
  "ram_dspace_check_page ds offset =
     (let idx = ram_dspace_get_index offset in
      if idx \<ge> ds_npages ds then Some 0 else rd_page ds idx)"

definition ram_dspace_get_page ::
  "ram_dspace \<Rightarrow> frames \<Rightarrow> nat \<Rightarrow> (ram_dspace \<times> frames \<times> nat) option" where
  "ram_dspace_get_page ds fr offset =
     (let idx = ram_dspace_get_index offset in
      if idx \<ge> ds_npages ds then Some (ds, fr, 0)
      else do {
        page \<leftarrow> rd_page ds idx;
        if page = 0 then
          (if ds_physicalAddrEnabled ds then
             (let dev = fr_device fr (u32 (ds_physicalAddr ds + idx * REFOS_PAGE_SIZE)) in
              if dev = 0 then Some (ds, fr, 0)
              else do {
                ds \<leftarrow> wr_page ds idx dev;
                Some (ds, fr, dev)
              })
           else
             (let (fr, c) = vka_alloc_frame fr in
              if c = 0 then Some (ds, fr, 0)
              else do {
                ds \<leftarrow> wr_page ds idx c;
                Some (ds, fr, c)
              }))
        else Some (ds, fr, page)
      })"

definition ram_dspace_get_size :: "ram_dspace \<Rightarrow> nat" where
  "ram_dspace_get_size ds = u32 (ds_npages ds * REFOS_PAGE_SIZE)"

text \<open>\<open>pages_mem\<close> and \<open>mask_mem\<close>: the two reallocations succeed.\<close>

definition ram_dspace_expand ::
  "bool \<Rightarrow> bool \<Rightarrow> ram_dspace \<Rightarrow> nat \<Rightarrow> (ram_dspace \<times> refos_error) option" where
  "ram_dspace_expand pages_mem mask_mem ds sz =
     (let npages = sz div REFOS_PAGE_SIZE + (if sz mod REFOS_PAGE_SIZE \<noteq> 0 then 1 else 0) in
      if npages < ds_npages ds then Some (ds, EINVALIDPARAM)
      else if npages = ds_npages ds then Some (ds, ESUCCESS)
      else if \<not> pages_mem then Some (ds\<lparr>ds_pages := None\<rparr>, ENOMEM)
      else
        (let nbitmaskPrev = ds_npages ds div 32 + 1; nbitmask = npages div 32 + 1;
             old = (case ds_pages ds of None \<Rightarrow> [] | Some ps \<Rightarrow> ps);
             ds1 = ds\<lparr>ds_pages := Some (take (ds_npages ds) (realloc_to 0 npages old)
               @ replicate (npages - ds_npages ds) 0)\<rparr> in
         case ds_contentInitBitmask ds of
           None \<Rightarrow> Some (ds1\<lparr>ds_npages := npages\<rparr>, ESUCCESS)
         | Some bmask \<Rightarrow>
             (if nbitmaskPrev < nbitmask then
                (if \<not> mask_mem then Some (ds1\<lparr>ds_contentInitBitmask := None\<rparr>, ENOMEM)
                 else Some (ds1\<lparr>ds_npages := npages, ds_contentInitBitmask :=
                   Some (take nbitmaskPrev (realloc_to 0 nbitmask bmask)
                     @ replicate (nbitmask - nbitmaskPrev) 0)\<rparr>, ESUCCESS))
              else Some (ds1\<lparr>ds_npages := npages\<rparr>, ESUCCESS))))"

definition ram_dspace_set_to_paddr ::
  "ram_dspace \<Rightarrow> frames \<Rightarrow> nat \<Rightarrow> (ram_dspace \<times> refos_error) option" where
  "ram_dspace_set_to_paddr ds fr paddr =
     (if ds_contentInitEnabled ds then Some (ds, EINVALID)
      else if ds_physicalAddrEnabled ds then Some (ds, EINVALID)
      else do {
        used \<leftarrow> for_find (rd_page ds) (\<lambda>c. c \<noteq> 0) 0 (ds_npages ds);
        if used \<noteq> None then Some (ds, EINVALID)
        else if fr_device fr paddr = 0 then Some (ds, EFILENOTFOUND)
        else Some (ds\<lparr>ds_physicalAddrEnabled := True, ds_physicalAddr := paddr\<rparr>, ESUCCESS)
      })"

subsection \<open>Reading and writing\<close>

text \<open>The number of bytes that one page can serve, from \<open>offset\<close>.\<close>

definition cap_len :: "nat \<Rightarrow> nat \<Rightarrow> nat" where
  "cap_len len offset =
     (let skipBytes = offset - REFOS_PAGE_ALIGN offset in
      if len > REFOS_PAGE_SIZE - skipBytes then REFOS_PAGE_SIZE - skipBytes else len)"

definition ram_dspace_read_page ::
  "nat \<Rightarrow> ram_dspace \<Rightarrow> frames \<Rightarrow> nat \<Rightarrow> (ram_dspace \<times> frames \<times> nat list \<times> refos_error) option"
  where
  "ram_dspace_read_page len ds fr offset = do {
     (ds, fr, frame) \<leftarrow> ram_dspace_get_page ds fr offset;
     if frame = 0 then Some (ds, fr, [], ENOMEM)
     else do {
       (bytes, err) \<leftarrow> procserv_frame_read fr frame (cap_len len offset)
         (offset - REFOS_PAGE_ALIGN offset);
       Some (ds, fr, bytes, err)
     }
   }"

definition ram_dspace_write_page ::
  "nat list \<Rightarrow> nat \<Rightarrow> ram_dspace \<Rightarrow> frames \<Rightarrow> nat \<Rightarrow> (ram_dspace \<times> frames \<times> refos_error) option"
  where
  "ram_dspace_write_page buf len ds fr offset = do {
     (ds, fr, frame) \<leftarrow> ram_dspace_get_page ds fr offset;
     if frame = 0 then Some (ds, fr, ENOMEM)
     else do {
       (fr, err) \<leftarrow> procserv_frame_write fr frame buf (cap_len len offset)
         (offset - REFOS_PAGE_ALIGN offset);
       Some (ds, fr, err)
     }
   }"

text \<open>
  The loops, from \<open>start\<close> up to \<open>stop = offset + len\<close>.  In the last page of the address space the
  end of the page wraps to 0, and the loop would begin again at the first page and run past the
  caller's buffer: this is the case \<open>e \<le> start\<close>.
\<close>

definition page_end :: "nat \<Rightarrow> nat \<Rightarrow> nat" where
  "page_end start stop = min (u32 (REFOS_PAGE_ALIGN start + REFOS_PAGE_SIZE)) stop"

function ram_dspace_read_loop ::
  "nat \<Rightarrow> nat \<Rightarrow> ram_dspace \<Rightarrow> frames \<Rightarrow> nat list \<Rightarrow>
   (ram_dspace \<times> frames \<times> nat list \<times> refos_error) option" where
  "ram_dspace_read_loop stop start ds fr acc =
     (if start < stop then
        (let e = page_end start stop in do {
           (ds, fr, bytes, err) \<leftarrow> ram_dspace_read_page (u32i (int e - int start)) ds fr start;
           if err \<noteq> ESUCCESS then Some (ds, fr, acc, err)
           else if e \<le> start then None
           else ram_dspace_read_loop stop e ds fr (acc @ bytes)
         })
      else Some (ds, fr, acc, ESUCCESS))"
  by pat_completeness auto
termination
  by (relation "measure (\<lambda>(stop, start, ds, fr, acc). stop - start)") auto

function ram_dspace_write_loop ::
  "nat \<Rightarrow> nat \<Rightarrow> nat list \<Rightarrow> ram_dspace \<Rightarrow> frames \<Rightarrow>
   (ram_dspace \<times> frames \<times> refos_error) option" where
  "ram_dspace_write_loop stop start buf ds fr =
     (if start < stop then
        (let e = page_end start stop in do {
           (ds, fr, err) \<leftarrow> ram_dspace_write_page buf (u32i (int e - int start)) ds fr start;
           if err \<noteq> ESUCCESS then Some (ds, fr, err)
           else if e \<le> start then None
           else ram_dspace_write_loop stop e (drop (e - start) buf) ds fr
         })
      else Some (ds, fr, ESUCCESS))"
  by pat_completeness auto
termination
  by (relation "measure (\<lambda>(stop, start, buf, ds, fr). stop - start)") auto

declare ram_dspace_read_loop.simps [simp del] ram_dspace_write_loop.simps [simp del]

definition ram_dspace_read ::
  "nat \<Rightarrow> ram_dspace \<Rightarrow> frames \<Rightarrow> nat \<Rightarrow> (ram_dspace \<times> frames \<times> nat list \<times> refos_error) option"
  where
  "ram_dspace_read len ds fr offset =
     (if len > u32i (int (u32 (ds_npages ds * REFOS_PAGE_SIZE)) - int offset)
      then Some (ds, fr, [], EINVALIDPARAM)
      else ram_dspace_read_loop (u32 (offset + len)) offset ds fr [])"

definition ram_dspace_write ::
  "nat list \<Rightarrow> nat \<Rightarrow> ram_dspace \<Rightarrow> frames \<Rightarrow> nat \<Rightarrow> (ram_dspace \<times> frames \<times> refos_error) option"
  where
  "ram_dspace_write buf len ds fr offset =
     (if len > u32i (int (u32 (ds_npages ds * REFOS_PAGE_SIZE)) - int offset)
      then Some (ds, fr, EINVALIDPARAM)
      else ram_dspace_write_loop (u32 (offset + len)) offset buf ds fr)"

subsection \<open>Content initialisation\<close>

text \<open>
  The capabilities that are revoked, deleted and whose slots are freed are returned as a list.
  \<open>mask_mem\<close>: the allocation of the bit mask succeeds.
\<close>

definition clear_waiters :: "ram_dspace_waiter cvector \<Rightarrow> nat list option" where
  "clear_waiters v =
     for_each [0..<cvector_count v] (\<lambda>i freed. do {
       waiter \<leftarrow> cvector_get v i;
       c_assert (wt_reply waiter \<noteq> 0);
       Some (freed @ [wt_reply waiter])
     }) []"

definition ram_dspace_content_init ::
  "bool \<Rightarrow> ram_dspace \<Rightarrow> nat \<Rightarrow> nat \<Rightarrow> (ram_dspace \<times> nat list \<times> refos_error) option" where
  "ram_dspace_content_init mask_mem ds initEP initPID =
     (if ds_physicalAddrEnabled ds then Some (ds, [], EINVALID)
      else do {
        let ds = ds\<lparr>ds_contentInitBitmask := None\<rparr>;
        (ds, freed) \<leftarrow> (if ds_contentInitEnabled ds then do {
            c_assert (ds_contentInitEP ds \<noteq> 0);
            Some (ds\<lparr>ds_contentInitEP := 0\<rparr>, [ds_contentInitEP ds])
          }
          else Some (ds, []));
        if initEP = 0 then
          Some (ds\<lparr>ds_contentInitEnabled := False, ds_contentInitPID := 0\<rparr>, freed, ESUCCESS)
        else if \<not> mask_mem then Some (ds, freed, ENOMEM)
        else do {
          waiting \<leftarrow> clear_waiters (ds_contentInitWaitingList ds);
          Some (ds\<lparr>ds_contentInitBitmask := Some (replicate (ds_npages ds div 32 + 1) 0),
            ds_contentInitWaitingList := cvector_init, ds_contentInitEP := initEP,
            ds_contentInitEnabled := True, ds_contentInitPID := initPID\<rparr>,
            freed @ waiting, ESUCCESS)
        }
      })"

text \<open>The value \<open>-EINVALID\<close> and \<open>-EINVALIDPARAM\<close> are \<open>Inl\<close>, the two truth values are \<open>Inr\<close>.\<close>

definition ram_dspace_need_content_init ::
  "ram_dspace \<Rightarrow> nat \<Rightarrow> (refos_error + bool) option" where
  "ram_dspace_need_content_init ds offset =
     (if \<not> ds_contentInitEnabled ds \<or> ds_contentInitBitmask ds = None then Some (Inl EINVALID)
      else if offset > ram_dspace_get_size ds then Some (Inl EINVALIDPARAM)
      else do {
        let npage = offset div REFOS_PAGE_SIZE;
        c_assert (npage \<le> ds_npages ds);
        bmask \<leftarrow> ds_contentInitBitmask ds;
        word \<leftarrow> rd bmask (npage div 32);
        Some (Inr (\<not> bit word (npage mod 32)))
      })"

definition ram_dspace_add_content_init_waiter ::
  "(nat \<Rightarrow> bool) \<Rightarrow> bool \<Rightarrow> ram_dspace \<Rightarrow> nat \<Rightarrow> nat \<Rightarrow> (ram_dspace \<times> refos_error) option" where
  "ram_dspace_add_content_init_waiter mem waiter_mem ds offset reply =
     (if reply = 0 then Some (ds, EINVALIDPARAM)
      else if offset > ram_dspace_get_size ds then Some (ds, EINVALIDPARAM)
      else if \<not> ds_contentInitEnabled ds then Some (ds, EINVALID)
      else do {
        let npage = offset div REFOS_PAGE_SIZE;
        c_assert (npage < ds_npages ds);
        if \<not> waiter_mem then Some (ds, ENOMEM)
        else do {
          (v, _) \<leftarrow> cvector_add mem (ds_contentInitWaitingList ds)
            \<lparr>wt_pageidx = npage, wt_reply = reply\<rparr>;
          Some (ds\<lparr>ds_contentInitWaitingList := v\<rparr>, ESUCCESS)
        }
      })"

text \<open>
  The slot for the reply capability and the result of saving the caller into it are arguments;
  a slot of 0 means that the allocation failed.
\<close>

definition ram_dspace_add_content_init_waiter_save_current_caller ::
  "(nat \<Rightarrow> bool) \<Rightarrow> bool \<Rightarrow> nat \<Rightarrow> bool \<Rightarrow> ram_dspace \<Rightarrow> nat \<Rightarrow> (ram_dspace \<times> refos_error) option" where
  "ram_dspace_add_content_init_waiter_save_current_caller mem waiter_mem slot saved ds offset =
     (if slot = 0 then Some (ds, ENOMEM)
      else if \<not> saved then Some (ds, EINVALID)
      else ram_dspace_add_content_init_waiter mem waiter_mem ds offset slot)"

text \<open>
  The loop of \<open>ram_dspace_content_init_reply_waiters\<close> with its index and the remaining count; the
  capabilities replied to are collected.
\<close>

function reply_loop ::
  "(nat \<Rightarrow> bool) \<Rightarrow> nat \<Rightarrow> nat \<Rightarrow> nat \<Rightarrow> ram_dspace_waiter cvector \<Rightarrow> nat list \<Rightarrow>
   (ram_dspace_waiter cvector \<times> nat list) option" where
  "reply_loop mem npage i n v sent =
     (if i < n then do {
        waiter \<leftarrow> cvector_get v i;
        c_assert (wt_reply waiter \<noteq> 0);
        if wt_pageidx waiter = npage then do {
          v \<leftarrow> cvector_delete mem v i;
          c_assert (n - 1 = cvector_count v);
          reply_loop mem npage i (n - 1) v (sent @ [wt_reply waiter])
        }
        else reply_loop mem npage (i + 1) n v sent
      }
      else Some (v, sent))"
  by pat_completeness auto
termination
  by (relation "measure (\<lambda>(mem, npage, i, n, v, sent). n - i)") auto

declare reply_loop.simps [simp del]

definition ram_dspace_content_init_reply_waiters ::
  "(nat \<Rightarrow> bool) \<Rightarrow> ram_dspace \<Rightarrow> nat \<Rightarrow> (ram_dspace \<times> nat list) option" where
  "ram_dspace_content_init_reply_waiters mem ds offset =
     (let npage = offset div REFOS_PAGE_SIZE in
      if npage \<ge> ds_npages ds then Some (ds, [])
      else do {
        (v, sent) \<leftarrow> reply_loop mem npage 0 (cvector_count (ds_contentInitWaitingList ds))
          (ds_contentInitWaitingList ds) [];
        Some (ds\<lparr>ds_contentInitWaitingList := v\<rparr>, sent)
      })"

definition ram_dspace_set_content_init_provided :: "ram_dspace \<Rightarrow> nat \<Rightarrow> ram_dspace option" where
  "ram_dspace_set_content_init_provided ds offset =
     (case ds_contentInitBitmask ds of
        None \<Rightarrow> Some ds
      | Some bmask \<Rightarrow>
          (if \<not> ds_contentInitEnabled ds then Some ds
           else if offset > ram_dspace_get_size ds then Some ds
           else do {
             let npage = offset div REFOS_PAGE_SIZE;
             c_assert (npage \<le> ds_npages ds);
             bmask \<leftarrow> modify bmask (npage div 32) (set_bit (npage mod 32));
             Some (ds\<lparr>ds_contentInitBitmask := Some bmask\<rparr>)
           }))"

section \<open>Contents\<close>

text \<open>
  The invariant of a dataspace that owns its frames: the page array has its length, the frames
  of the pages and those still to be handed out are different, and a frame has the size of a
  page.  \<open>ds_byte\<close> is the byte at an offset, \<open>None\<close> when the page has no frame yet.
\<close>

definition pages :: "ram_dspace \<Rightarrow> nat list" where
  "pages ds = (case ds_pages ds of None \<Rightarrow> [] | Some ps \<Rightarrow> ps)"

definition ds_inv :: "ram_dspace \<Rightarrow> frames \<Rightarrow> bool" where
  "ds_inv ds fr \<longleftrightarrow> ds_pages ds = Some (pages ds) \<and> length (pages ds) = ds_npages ds \<and>
     ds_npages ds < 2 ^ 20 \<and> \<not> ds_physicalAddrEnabled ds \<and>
     distinct (filter (\<lambda>c. c \<noteq> 0) (pages ds @ fr_supply fr)) \<and>
     (\<forall>c. length (fr_bytes fr c) = REFOS_PAGE_SIZE)"

definition ds_byte :: "ram_dspace \<Rightarrow> frames \<Rightarrow> nat \<Rightarrow> nat option" where
  "ds_byte ds fr a =
     (let idx = a div REFOS_PAGE_SIZE in
      if idx < length (pages ds) \<and> pages ds ! idx \<noteq> 0
      then Some (fr_bytes fr (pages ds ! idx) ! (a mod REFOS_PAGE_SIZE)) else None)"

text \<open>There are frames for all missing pages, and the server can map every frame.\<close>

definition enough :: "ram_dspace \<Rightarrow> frames \<Rightarrow> bool" where
  "enough ds fr \<longleftrightarrow> length (filter (\<lambda>c. c = 0) (pages ds)) \<le> length (fr_supply fr) \<and>
     0 \<notin> set (fr_supply fr) \<and> (\<forall>c. fr_mappable fr c)"

definition kept :: "ram_dspace \<Rightarrow> frames \<Rightarrow> ram_dspace \<Rightarrow> frames \<Rightarrow> bool" where
  "kept ds fr ds' fr' \<longleftrightarrow> ds_inv ds' fr' \<and> enough ds' fr' \<and> (\<exists>ps. ds' = ds\<lparr>ds_pages := ps\<rparr>)"

definition wrote ::
  "nat \<Rightarrow> nat list \<Rightarrow> ram_dspace \<Rightarrow> frames \<Rightarrow> ram_dspace \<Rightarrow> frames \<Rightarrow> bool" where
  "wrote a bs ds fr ds' fr' \<longleftrightarrow> kept ds fr ds' fr' \<and>
     (\<forall>x. a \<le> x \<and> x < a + length bs \<longrightarrow> ds_byte ds' fr' x = Some (bs ! (x - a))) \<and>
     (\<forall>x. x < a \<or> a + length bs \<le> x \<longrightarrow> ds_byte ds fr x \<noteq> None \<longrightarrow> ds_byte ds' fr' x = ds_byte ds fr x)"

lemma kept_npages: "kept ds fr ds' fr' \<Longrightarrow> ds_npages ds' = ds_npages ds"
  by (auto simp: kept_def)

lemma wrote_nil: "ds_inv ds fr \<Longrightarrow> enough ds fr \<Longrightarrow> wrote a [] ds fr ds fr"
  by (auto simp: wrote_def kept_def intro: exI [of _ "ds_pages ds"])

lemma wrote_out:
  "wrote a bs ds fr ds' fr' \<Longrightarrow> x < a \<or> a + length bs \<le> x \<Longrightarrow> ds_byte ds fr x \<noteq> None \<Longrightarrow>
   ds_byte ds' fr' x = ds_byte ds fr x"
  by (auto simp: wrote_def)

lemma wrote_nil_out:
  "wrote a [] ds fr ds' fr' \<Longrightarrow> ds_byte ds fr x \<noteq> None \<Longrightarrow> ds_byte ds' fr' x = ds_byte ds fr x"
  using wrote_out [of a "[]" ds fr ds' fr' x] by (cases "x < a") auto

lemma wrote_kept: "wrote a bs ds fr ds' fr' \<Longrightarrow> kept ds fr ds' fr'"
  by (simp add: wrote_def)

lemma wrote_append:
  assumes "wrote a xs d0 f0 d1 f1" "wrote (a + length xs) ys d1 f1 d2 f2"
  shows "wrote a (xs @ ys) d0 f0 d2 f2"
proof -
  have "kept d0 f0 d2 f2" using assms by (auto simp: wrote_def kept_def)
  moreover have "ds_byte d2 f2 x = Some ((xs @ ys) ! (x - a))"
    if "a \<le> x" "x < a + length (xs @ ys)" for x
  proof (cases "x < a + length xs")
    case True
    then have "ds_byte d1 f1 x = Some (xs ! (x - a))" using assms(1) that by (simp add: wrote_def)
    moreover from this have "ds_byte d2 f2 x = ds_byte d1 f1 x" using assms(2) True by (simp add: wrote_def)
    ultimately show ?thesis using True that by (auto simp: nth_append)
  next
    case False
    then show ?thesis using assms(2) that by (auto simp: wrote_def nth_append)
  qed
  moreover have "ds_byte d2 f2 x = ds_byte d0 f0 x"
    if "x < a \<or> a + length (xs @ ys) \<le> x" "ds_byte d0 f0 x \<noteq> None" for x
  proof -
    have "x < a \<or> a + length xs \<le> x" "x < a + length xs \<or> a + length xs + length ys \<le> x"
      using that(1) by auto
    with that(2) assms wrote_out show ?thesis by metis
  qed
  ultimately show ?thesis by (simp add: wrote_def)
qed

lemma page_facts:
  "a - REFOS_PAGE_ALIGN a = a mod REFOS_PAGE_SIZE" "0 < REFOS_PAGE_SIZE"
  "a mod REFOS_PAGE_SIZE < REFOS_PAGE_SIZE"
  by (simp_all add: REFOS_PAGE_ALIGN_def REFOS_PAGE_SIZE_def)

lemma get_page_spec:
  assumes inv: "ds_inv ds fr" and en: "enough ds fr" and a: "a div REFOS_PAGE_SIZE < ds_npages ds"
  shows "\<exists>ds' fr' c. ram_dspace_get_page ds fr a = Some (ds', fr', c) \<and> c \<noteq> 0 \<and>
    pages ds' ! (a div REFOS_PAGE_SIZE) = c \<and> wrote x [] ds fr ds' fr'"
proof -
  let ?i = "a div REFOS_PAGE_SIZE" and ?ps = "pages ds"
  have ps: "ds_pages ds = Some ?ps" "length ?ps = ds_npages ds" using inv by (auto simp: ds_inv_def)
  show ?thesis
  proof (cases "?ps ! ?i = 0")
    case False
    with ps a inv en show ?thesis
      by (simp add: ram_dspace_get_page_def ram_dspace_get_index_def rd_page_def wrote_nil)
  next
    case True
    have "0 \<in> set ?ps" using True a ps(2) by (metis nth_mem)
    then have "0 < length (filter (\<lambda>c. c = 0) ?ps)" by (auto simp: filter_empty_conv)
    then obtain c cs where c: "fr_supply fr = c # cs" "c \<noteq> 0"
      using en by (cases "fr_supply fr") (auto simp: enough_def)
    define ds' fr' where "ds' = ds\<lparr>ds_pages := Some (?ps[?i := c])\<rparr>" and "fr' = fr\<lparr>fr_supply := cs\<rparr>"
    have get: "ram_dspace_get_page ds fr a = Some (ds', fr', c)"
      using True a ps c inv
      by (simp add: ram_dspace_get_page_def ram_dspace_get_index_def rd_page_def wr_page_def
          vka_alloc_frame_def ds'_def fr'_def ds_inv_def)
    have pg: "pages ds' = ?ps[?i := c]" by (simp add: ds'_def pages_def)
    have split: "?ps = take ?i ?ps @ 0 # drop (Suc ?i) ?ps" "?ps[?i := c] = take ?i ?ps @ c # drop (Suc ?i) ?ps"
      using True a ps(2) by (metis id_take_nth_drop, simp add: upd_conv_take_nth_drop)
    have "distinct (filter (\<lambda>c. c \<noteq> 0) ((take ?i ?ps @ 0 # drop (Suc ?i) ?ps) @ c # cs))"
      using inv c(1) split(1) by (simp add: ds_inv_def)
    then have "distinct (filter (\<lambda>c. c \<noteq> 0) (pages ds' @ cs))"
      unfolding pg split(2) using c(2) by auto
    then have inv': "ds_inv ds' fr'"
      using inv ps by (simp add: ds_inv_def pg) (simp add: ds'_def fr'_def)
    have "length (filter (\<lambda>c. c = 0) (pages ds')) < length (filter (\<lambda>c. c = 0) ?ps)"
      using arg_cong [OF split(1), of "\<lambda>p. length (filter (\<lambda>c. c = 0) p)"]
      by (simp add: pg split(2) c(2))
    then have en': "enough ds' fr'" using en c(1) by (simp add: enough_def fr'_def)
    have "ds_byte ds' fr' y = ds_byte ds fr y" if "ds_byte ds fr y \<noteq> None" for y
      using that True by (cases "y div REFOS_PAGE_SIZE = ?i") (auto simp: ds_byte_def Let_def pg fr'_def)
    then show ?thesis using get c inv' en' a ps(2)
      by (auto simp: pg wrote_def kept_def ds'_def [symmetric]) (auto simp: ds'_def)
  qed
qed


lemma nonzero_index:
  assumes "distinct (filter (\<lambda>c. c \<noteq> 0) xs)" "i < j" "j < length xs" "xs ! j \<noteq> (0 :: nat)"
  shows "xs ! i \<noteq> xs ! j"
proof
  assume eq: "xs ! i = xs ! j"
  have "xs = take j xs @ drop j xs" by simp
  then have "distinct (filter (\<lambda>c. c \<noteq> 0) (take j xs) @ filter (\<lambda>c. c \<noteq> 0) (drop j xs))"
    using assms(1) by (metis filter_append)
  moreover have "xs ! j \<in> set (take j xs)" using assms(2,3) eq by (auto simp: in_set_conv_nth)
  moreover have "xs ! j \<in> set (drop j xs)" using assms(3) by (metis Cons_nth_drop_Suc list.set_intros(1))
  ultimately show False using assms(4) by auto
qed

lemma same_page:
  assumes "a mod REFOS_PAGE_SIZE + len \<le> REFOS_PAGE_SIZE" "a \<le> x" "x < a + len"
  shows "x div REFOS_PAGE_SIZE = a div REFOS_PAGE_SIZE"
    "x mod REFOS_PAGE_SIZE = a mod REFOS_PAGE_SIZE + (x - a)"
proof -
  have "x = a div REFOS_PAGE_SIZE * REFOS_PAGE_SIZE + (a mod REFOS_PAGE_SIZE + (x - a))"
    using assms(2) div_mult_mod_eq [of a REFOS_PAGE_SIZE] by linarith
  moreover have "a mod REFOS_PAGE_SIZE + (x - a) < REFOS_PAGE_SIZE" using assms by linarith
  ultimately show "x div REFOS_PAGE_SIZE = a div REFOS_PAGE_SIZE"
    "x mod REFOS_PAGE_SIZE = a mod REFOS_PAGE_SIZE + (x - a)"
    by (metis div_mult_self3 div_less mult.commute add_0_right page_facts(2) less_numeral_extra(3) add.commute,
        metis mod_mult_self3 mod_less)
qed

lemma other_page:
  assumes "x div REFOS_PAGE_SIZE = a div REFOS_PAGE_SIZE" "x < a \<or> a + len \<le> x"
  shows "x mod REFOS_PAGE_SIZE < a mod REFOS_PAGE_SIZE \<or>
    a mod REFOS_PAGE_SIZE + len \<le> x mod REFOS_PAGE_SIZE"
  using assms div_mult_mod_eq [of a REFOS_PAGE_SIZE] div_mult_mod_eq [of x REFOS_PAGE_SIZE] by (metis add_le_cancel_left group_cancel.add1 nat_add_left_cancel_less add.assoc)

lemma write_page_spec:
  assumes inv: "ds_inv ds fr" and en: "enough ds fr" and a: "a div REFOS_PAGE_SIZE < ds_npages ds"
    and len: "len \<le> REFOS_PAGE_SIZE - a mod REFOS_PAGE_SIZE" "len \<le> length buf"
  shows "\<exists>ds' fr'. ram_dspace_write_page buf len ds fr a = Some (ds', fr', ESUCCESS) \<and>
    wrote a (take len buf) ds fr ds' fr'"
proof -
  let ?i = "a div REFOS_PAGE_SIZE" and ?o = "a mod REFOS_PAGE_SIZE"
  from get_page_spec [OF inv en a] obtain d f c where
    g: "ram_dspace_get_page ds fr a = Some (d, f, c)" "c \<noteq> 0" "pages d ! ?i = c" "wrote a [] ds fr d f"
    by blast
  have inv1: "ds_inv d f" "enough d f" and ps: "\<exists>ps. d = ds\<lparr>ds_pages := ps\<rparr>"
    using g(4) by (auto simp: wrote_def kept_def)
  have il: "?i < length (pages d)" using inv1 ps a by (auto simp: ds_inv_def)
  define new where "new = take ?o (fr_bytes f c) @ take len buf @ drop (?o + len) (fr_bytes f c)"
  define f' where "f' = f\<lparr>fr_bytes := (fr_bytes f)(c := new)\<rparr>"
  have olen: "?o + len \<le> REFOS_PAGE_SIZE" using len(1) page_facts(3) [of a] by linarith
  have pglen: "length (fr_bytes f c) = REFOS_PAGE_SIZE" using inv1 by (simp add: ds_inv_def)
  have newlen: "length new = REFOS_PAGE_SIZE" using olen pglen len(2) by (simp add: new_def)
  have cap: "cap_len len a = len" using len(1) by (simp add: cap_len_def page_facts)
  have "u32 (?o + len) = ?o + len" using olen by (simp add: REFOS_PAGE_SIZE_def)
  then have "procserv_frame_write f c buf len ?o = Some (f', ESUCCESS)"
    using olen pglen len(2) inv1(2)
    by (simp add: procserv_frame_write_def f'_def new_def enough_def Let_def)
  then have eq: "ram_dspace_write_page buf len ds fr a = Some (d, f', ESUCCESS)"
    using g(1,2) cap by (simp add: ram_dspace_write_page_def page_facts)
  have k: "kept d f d f'" using inv1 newlen
    by (auto simp: kept_def ds_inv_def enough_def f'_def intro: exI [of _ "ds_pages d"])
  have other: "pages d ! j = c \<longleftrightarrow> j = ?i" if "j < length (pages d)" for j
    using inv1(1) g(2,3) il that nonzero_index [of "pages d" j ?i] nonzero_index [of "pages d" ?i j]
    by (cases j ?i rule: linorder_cases) (auto simp: ds_inv_def)
  have byte: "ds_byte d f' x = (if x div REFOS_PAGE_SIZE = ?i then Some (new ! (x mod REFOS_PAGE_SIZE))
      else ds_byte d f x)" for x
    using other [of "x div REFOS_PAGE_SIZE"] g(2,3) il by (auto simp: ds_byte_def Let_def f'_def)
  have "wrote a (take len buf) d f d f'"
    unfolding wrote_def
  proof (intro conjI allI impI)
    fix x assume "a \<le> x \<and> x < a + length (take len buf)"
    then have x: "x div REFOS_PAGE_SIZE = ?i" "x mod REFOS_PAGE_SIZE = ?o + (x - a)" "x - a < len"
      using same_page [of a len x] olen len(2) by auto
    then show "ds_byte d f' x = Some (take len buf ! (x - a))"
      using olen pglen len(2) by (simp add: byte new_def nth_append)
  next
    fix x assume x: "x < a \<or> a + length (take len buf) \<le> x" "ds_byte d f x \<noteq> None"
    show "ds_byte d f' x = ds_byte d f x"
    proof (cases "x div REFOS_PAGE_SIZE = ?i")
      case True
      have "ds_byte d f x = Some (fr_bytes f c ! (x mod REFOS_PAGE_SIZE))"
        using True g(2,3) il by (simp add: ds_byte_def Let_def)
      moreover have "x mod REFOS_PAGE_SIZE < ?o \<or> ?o + len \<le> x mod REFOS_PAGE_SIZE"
        using True x(1) len(2) other_page [of x a len] by auto
      then have "new ! (x mod REFOS_PAGE_SIZE) = fr_bytes f c ! (x mod REFOS_PAGE_SIZE)"
        using olen pglen len(2) by (auto simp: new_def nth_append)
      ultimately show ?thesis using True byte by simp
    qed (simp add: byte)
  qed (rule k)
  with g(4) eq wrote_append [of a "[]" ds fr d f "take len buf" d f'] show ?thesis by auto
qed


lemma read_page_spec:
  assumes inv: "ds_inv ds fr" and en: "enough ds fr" and a: "a div REFOS_PAGE_SIZE < ds_npages ds"
    and len: "len \<le> REFOS_PAGE_SIZE - a mod REFOS_PAGE_SIZE"
  shows "\<exists>ds' fr' bs. ram_dspace_read_page len ds fr a = Some (ds', fr', bs, ESUCCESS) \<and>
    wrote x [] ds fr ds' fr' \<and> length bs = len \<and> (\<forall>i < len. ds_byte ds' fr' (a + i) = Some (bs ! i))"
proof -
  let ?i = "a div REFOS_PAGE_SIZE" and ?o = "a mod REFOS_PAGE_SIZE"
  from get_page_spec [OF inv en a] obtain d f c where
    g: "ram_dspace_get_page ds fr a = Some (d, f, c)" "c \<noteq> 0" "pages d ! ?i = c" "wrote x [] ds fr d f"
    by blast
  have inv1: "ds_inv d f" "enough d f" and ps: "\<exists>ps. d = ds\<lparr>ds_pages := ps\<rparr>"
    using g(4) by (auto simp: wrote_def kept_def)
  have il: "?i < length (pages d)" using inv1 ps a by (auto simp: ds_inv_def)
  have olen: "?o + len \<le> REFOS_PAGE_SIZE" using len page_facts(3) [of a] by linarith
  have pglen: "length (fr_bytes f c) = REFOS_PAGE_SIZE" using inv1 by (simp add: ds_inv_def)
  have cap: "cap_len len a = len" using len by (simp add: cap_len_def page_facts)
  have "u32 (?o + len) = ?o + len" using olen by (simp add: REFOS_PAGE_SIZE_def)
  then have eq: "ram_dspace_read_page len ds fr a = Some (d, f, take len (drop ?o (fr_bytes f c)), ESUCCESS)"
    using olen pglen inv1(2) g(1,2) cap
    by (simp add: ram_dspace_read_page_def page_facts procserv_frame_read_def enough_def)
  have "ds_byte d f (a + i) = Some (take len (drop ?o (fr_bytes f c)) ! i)" if "i < len" for i
    using same_page [of a len "a + i"] that olen pglen g(2,3) il by (simp add: ds_byte_def Let_def)
  with eq g(4) olen pglen show ?thesis by auto
qed

lemma page_end_bounds:
  assumes "start < stop" "stop \<le> n * REFOS_PAGE_SIZE" "n < 2 ^ 20"
  shows "start < page_end start stop" "page_end start stop \<le> stop"
    "page_end start stop - start \<le> REFOS_PAGE_SIZE - start mod REFOS_PAGE_SIZE"
    "start div REFOS_PAGE_SIZE < n"
    "u32i (int (page_end start stop) - int start) = page_end start stop - start"
proof -
  have d: "start div REFOS_PAGE_SIZE < n"
    using assms(1,2) by (intro less_mult_imp_div_less) simp
  then have "REFOS_PAGE_ALIGN start + REFOS_PAGE_SIZE \<le> n * REFOS_PAGE_SIZE"
    using mult_le_mono1 [of "Suc (start div REFOS_PAGE_SIZE)" n REFOS_PAGE_SIZE]
    by (simp add: page_align_div mult.commute)
  moreover have small: "n * REFOS_PAGE_SIZE < 4294967296" using assms(3) by (simp add: REFOS_PAGE_SIZE_def)
  ultimately have e: "page_end start stop = min (REFOS_PAGE_ALIGN start + REFOS_PAGE_SIZE) stop"
    by (simp add: page_end_def)
  show "start div REFOS_PAGE_SIZE < n" by (rule d)
  show lt: "start < page_end start stop" "page_end start stop \<le> stop"
    using assms(1) page_align_bounds(2) [of start] by (auto simp: e)
  have "REFOS_PAGE_ALIGN start = start - start mod REFOS_PAGE_SIZE" by (simp add: REFOS_PAGE_ALIGN_def)
  then show "page_end start stop - start \<le> REFOS_PAGE_SIZE - start mod REFOS_PAGE_SIZE"
    using page_facts(3) [of start] by (simp add: e)
  show "u32i (int (page_end start stop) - int start) = page_end start stop - start"
    using lt small assms(2) u32i_of_nat [of "page_end start stop - start"] by (simp add: of_nat_diff)
qed

lemma write_loop_spec:
  assumes "ds_inv ds fr" "enough ds fr" "start \<le> stop" "stop \<le> ds_npages ds * REFOS_PAGE_SIZE"
    "stop - start \<le> length buf"
  shows "\<exists>ds' fr'. ram_dspace_write_loop stop start buf ds fr = Some (ds', fr', ESUCCESS) \<and>
    wrote start (take (stop - start) buf) ds fr ds' fr'"
  using assms
proof (induction stop start buf ds fr rule: ram_dspace_write_loop.induct)
  case (1 stop start buf ds fr)
  show ?case
  proof (cases "start < stop")
    case False
    then show ?thesis using "1.prems" wrote_nil by (auto simp: ram_dspace_write_loop.simps [of stop stop])
  next
    case True
    let ?e = "page_end start stop"
    have n: "ds_npages ds < 2 ^ 20" using "1.prems"(1) by (simp add: ds_inv_def)
    note e = page_end_bounds [OF True "1.prems"(4) n]
    have "?e - start \<le> length buf" using e(2) "1.prems"(5) by linarith
    from write_page_spec [OF "1.prems"(1,2) e(4,3) this] obtain d f where
      w: "ram_dspace_write_page buf (?e - start) ds fr start = Some (d, f, ESUCCESS)"
      "wrote start (take (?e - start) buf) ds fr d f" by blast
    have inv: "ds_inv d f" "enough d f" and np: "ds_npages d = ds_npages ds"
      using wrote_kept [OF w(2)] kept_npages by (auto simp: kept_def)
    have "\<exists>ds' fr'. ram_dspace_write_loop stop ?e (drop (?e - start) buf) d f = Some (ds', fr', ESUCCESS) \<and>
      wrote ?e (take (stop - ?e) (drop (?e - start) buf)) d f ds' fr'"
      by (rule "1.IH" [OF True refl, of "(d, f, ESUCCESS)" d "(f, ESUCCESS)" f ESUCCESS])
        (use inv np e w(1) "1.prems"(4,5) in auto)
    then obtain d' f' where
      r: "ram_dspace_write_loop stop ?e (drop (?e - start) buf) d f = Some (d', f', ESUCCESS)"
      "wrote ?e (take (stop - ?e) (drop (?e - start) buf)) d f d' f'" by blast
    have "take (stop - start) buf = take (?e - start) buf @ take (stop - ?e) (drop (?e - start) buf)"
      using e(1,2) take_add [of "?e - start" "stop - ?e" buf] by simp
    moreover have "start + length (take (?e - start) buf) = ?e" using e(1,2) "1.prems"(5) by simp
    ultimately have "wrote start (take (stop - start) buf) ds fr d' f'"
      using wrote_append [OF w(2)] r(2) by simp
    moreover have "ram_dspace_write_loop stop start buf ds fr = Some (d', f', ESUCCESS)"
      using True w(1) r(1) e(1,5) by (subst ram_dspace_write_loop.simps) (simp add: Let_def)
    ultimately show ?thesis by blast
  qed
qed


lemma read_loop_spec:
  assumes "ds_inv ds fr" "enough ds fr" "start \<le> stop" "stop \<le> ds_npages ds * REFOS_PAGE_SIZE"
  shows "\<exists>ds' fr' bs. ram_dspace_read_loop stop start ds fr acc = Some (ds', fr', acc @ bs, ESUCCESS) \<and>
    wrote x [] ds fr ds' fr' \<and> length bs = stop - start \<and>
    (\<forall>i < stop - start. ds_byte ds' fr' (start + i) = Some (bs ! i))"
  using assms
proof (induction stop start ds fr acc rule: ram_dspace_read_loop.induct)
  case (1 stop start ds fr acc)
  show ?case
  proof (cases "start < stop")
    case False
    then show ?thesis using "1.prems" wrote_nil by (auto simp: ram_dspace_read_loop.simps [of stop stop])
  next
    case True
    let ?e = "page_end start stop"
    have n: "ds_npages ds < 2 ^ 20" using "1.prems"(1) by (simp add: ds_inv_def)
    note e = page_end_bounds [OF True "1.prems"(4) n]
    from read_page_spec [OF "1.prems"(1,2) e(4,3)] obtain d f bs where
      w: "ram_dspace_read_page (?e - start) ds fr start = Some (d, f, bs, ESUCCESS)"
      "wrote x [] ds fr d f" "length bs = ?e - start"
      "\<forall>i < ?e - start. ds_byte d f (start + i) = Some (bs ! i)" by blast
    have inv: "ds_inv d f" "enough d f" and np: "ds_npages d = ds_npages ds"
      using wrote_kept [OF w(2)] kept_npages by (auto simp: kept_def)
    have "\<exists>ds' fr' cs. ram_dspace_read_loop stop ?e d f (acc @ bs) = Some (ds', fr', (acc @ bs) @ cs, ESUCCESS) \<and>
      wrote x [] d f ds' fr' \<and> length cs = stop - ?e \<and>
      (\<forall>i < stop - ?e. ds_byte ds' fr' (?e + i) = Some (cs ! i))"
      by (rule "1.IH" [OF True refl, of "(d, f, bs, ESUCCESS)" d "(f, bs, ESUCCESS)" f "(bs, ESUCCESS)" bs ESUCCESS])
        (use inv np e w(1) "1.prems"(4) in auto)
    then obtain d' f' cs where
      r: "ram_dspace_read_loop stop ?e d f (acc @ bs) = Some (d', f', (acc @ bs) @ cs, ESUCCESS)"
      "wrote x [] d f d' f'" "length cs = stop - ?e"
      "\<forall>i < stop - ?e. ds_byte d' f' (?e + i) = Some (cs ! i)" by blast
    have "ds_byte d' f' (start + i) = Some ((bs @ cs) ! i)" if "i < stop - start" for i
    proof (cases "i < ?e - start")
      case True
      then have "ds_byte d' f' (start + i) = ds_byte d f (start + i)"
        using w(4) wrote_nil_out [OF r(2), of "start + i"] by simp
      then show ?thesis using True w(3,4) by (simp add: nth_append)
    next
      case False
      then have "start + i = ?e + (i - (?e - start))" "i - (?e - start) < stop - ?e"
        using e(1,2) that by auto
      then show ?thesis using False w(3) r(4) by (metis nth_append)
    qed
    moreover have "ram_dspace_read_loop stop start ds fr acc = Some (d', f', acc @ bs @ cs, ESUCCESS)"
      using True w(1) r(1) e(1,5) by (subst ram_dspace_read_loop.simps) (simp add: Let_def)
    moreover have "wrote x [] ds fr d' f'" using wrote_append [of x "[]" ds fr d f "[]"] w(2) r(2) by simp
    ultimately show ?thesis using w(3) r(3) e(1,2) by (intro exI [of _ d'] exI [of _ f'] exI [of _ "bs @ cs"]) auto
  qed
qed

lemma size_small: "ds_inv ds fr \<Longrightarrow> ds_npages ds * REFOS_PAGE_SIZE < 4294967296"
  by (simp add: ds_inv_def REFOS_PAGE_SIZE_def)

lemma room_eq:
  assumes "ds_inv ds fr" "offset \<le> ds_npages ds * REFOS_PAGE_SIZE"
  shows "u32i (int (u32 (ds_npages ds * REFOS_PAGE_SIZE)) - int offset) = ds_npages ds * REFOS_PAGE_SIZE - offset"
  using size_small [OF assms(1)] assms(2) u32i_of_nat [of "ds_npages ds * REFOS_PAGE_SIZE - offset"]
  by (simp add: of_nat_diff)

lemma write_spec:
  assumes "ds_inv ds fr" "enough ds fr" "offset + len \<le> ds_npages ds * REFOS_PAGE_SIZE" "len \<le> length buf"
  shows "\<exists>ds' fr'. ram_dspace_write buf len ds fr offset = Some (ds', fr', ESUCCESS) \<and>
    wrote offset (take len buf) ds fr ds' fr'"
  using write_loop_spec [OF assms(1,2), of offset "offset + len" buf] assms(3,4)
    room_eq [OF assms(1), of offset] size_small [OF assms(1)]
  by (simp add: ram_dspace_write_def)

lemma read_spec:
  assumes "ds_inv ds fr" "enough ds fr" "offset + len \<le> ds_npages ds * REFOS_PAGE_SIZE"
  shows "\<exists>ds' fr' bs. ram_dspace_read len ds fr offset = Some (ds', fr', bs, ESUCCESS) \<and>
    wrote x [] ds fr ds' fr' \<and> length bs = len \<and> (\<forall>i < len. ds_byte ds' fr' (offset + i) = Some (bs ! i))"
  using read_loop_spec [OF assms(1,2), of offset "offset + len" "[]"] assms(3)
    room_eq [OF assms(1), of offset] size_small [OF assms(1)]
  by (simp add: ram_dspace_read_def)

lemma out_of_range:
  assumes "ds_inv ds fr" "offset \<le> ds_npages ds * REFOS_PAGE_SIZE" "ds_npages ds * REFOS_PAGE_SIZE < offset + len"
  shows "ram_dspace_write buf len ds fr offset = Some (ds, fr, EINVALIDPARAM)"
    "ram_dspace_read len ds fr offset = Some (ds, fr, [], EINVALIDPARAM)"
  using room_eq [OF assms(1,2)] assms(2,3) by (auto simp: ram_dspace_write_def ram_dspace_read_def)

lemma wrap_around:
  assumes "ds_inv ds fr" "offset < 2 ^ 32" "len < 2 ^ 32" "2 ^ 32 \<le> offset + len"
    "offset + len \<le> 2 ^ 32 + ds_npages ds * REFOS_PAGE_SIZE" "ds_npages ds * REFOS_PAGE_SIZE < offset"
  shows "ram_dspace_write buf len ds fr offset = Some (ds, fr, ESUCCESS)"
    "ram_dspace_read len ds fr offset = Some (ds, fr, [], ESUCCESS)"
proof -
  define sz where "sz = ds_npages ds * REFOS_PAGE_SIZE"
  have sz: "sz < 4294967296" "sz < offset" "offset + len \<le> 4294967296 + sz"
    using assms(5,6) size_small [OF assms(1)] by (simp_all add: sz_def)
  have "(int sz - int offset + 4294967296) mod 4294967296 = int sz - int offset + 4294967296"
    using assms(2) sz(2) by (intro mod_pos_pos_trivial) auto
  then have "(int sz - int offset) mod 4294967296 = int sz - int offset + 4294967296" by simp
  then have room: "\<not> len > u32i (int (u32 sz) - int offset)"
    using sz by (simp add: u32i_def)
  have "u32 (offset + len) = offset + len - 4294967296"
    using assms(2-4) by (simp add: u32_def mod_if)
  then have "\<not> offset < u32 (offset + len)" using assms(3) by simp
  then show "ram_dspace_write buf len ds fr offset = Some (ds, fr, ESUCCESS)"
    "ram_dspace_read len ds fr offset = Some (ds, fr, [], ESUCCESS)"
    using room by (simp_all add: sz_def ram_dspace_write_def ram_dspace_read_def ram_dspace_write_loop.simps
        ram_dspace_read_loop.simps)
qed


section \<open>Content initialisation\<close>

text \<open>The bit mask has a word for every 32 pages and one more; a set bit means provided.\<close>

definition ci_inv :: "ram_dspace \<Rightarrow> bool" where
  "ci_inv ds \<longleftrightarrow> ds_npages ds < 2 ^ 20 \<and> cv_inv (ds_contentInitWaitingList ds) \<and>
     (\<forall>w \<in> set (cv_list (ds_contentInitWaitingList ds)). wt_reply w \<noteq> 0) \<and>
     (\<forall>m. ds_contentInitBitmask ds = Some m \<longrightarrow> length m = ds_npages ds div 32 + 1)"

definition provided :: "ram_dspace \<Rightarrow> nat \<Rightarrow> bool" where
  "provided ds npage \<longleftrightarrow> (case ds_contentInitBitmask ds of None \<Rightarrow> False
     | Some m \<Rightarrow> bit (m ! (npage div 32)) (npage mod 32))"

definition ci_on :: "ram_dspace \<Rightarrow> bool" where
  "ci_on ds \<longleftrightarrow> ds_contentInitEnabled ds \<and> ds_contentInitBitmask ds \<noteq> None"

lemma get_size_eq: "ci_inv ds \<Longrightarrow> ram_dspace_get_size ds = ds_npages ds * REFOS_PAGE_SIZE"
  by (simp add: ram_dspace_get_size_def ci_inv_def REFOS_PAGE_SIZE_def)

lemma need_eq:
  assumes "ci_inv ds" "ci_on ds" "offset \<le> ds_npages ds * REFOS_PAGE_SIZE"
  shows "ram_dspace_need_content_init ds offset = Some (Inr (\<not> provided ds (offset div REFOS_PAGE_SIZE)))"
proof -
  obtain m where m: "ds_contentInitBitmask ds = Some m" using assms(2) by (auto simp: ci_on_def)
  have "offset div REFOS_PAGE_SIZE \<le> ds_npages ds"
    using assms(3) div_le_mono [of offset "ds_npages ds * REFOS_PAGE_SIZE" REFOS_PAGE_SIZE] page_facts(2) by simp
  moreover from this have "offset div REFOS_PAGE_SIZE div 32 < length m"
    using assms(1) m div_le_mono [of "offset div REFOS_PAGE_SIZE" "ds_npages ds" 32] by (simp add: ci_inv_def)
  ultimately show ?thesis
    using assms m by (simp add: ram_dspace_need_content_init_def ci_on_def get_size_eq provided_def Let_def)
qed

lemma set_provided_eq:
  assumes "ci_inv ds" "ci_on ds" "offset \<le> ds_npages ds * REFOS_PAGE_SIZE"
  shows "\<exists>ds'. ram_dspace_set_content_init_provided ds offset = Some ds' \<and> ci_inv ds' \<and> ci_on ds' \<and>
    ds_npages ds' = ds_npages ds \<and>
    (\<forall>k. provided ds' k \<longleftrightarrow> k = offset div REFOS_PAGE_SIZE \<or> provided ds k)"
proof -
  obtain m where m: "ds_contentInitBitmask ds = Some m" using assms(2) by (auto simp: ci_on_def)
  let ?p = "offset div REFOS_PAGE_SIZE"
  have p: "?p \<le> ds_npages ds"
    using assms(3) div_le_mono [of offset "ds_npages ds * REFOS_PAGE_SIZE" REFOS_PAGE_SIZE] page_facts(2) by simp
  then have i: "?p div 32 < length m"
    using assms(1) m div_le_mono [of ?p "ds_npages ds" 32] by (simp add: ci_inv_def)
  let ?m = "m[?p div 32 := set_bit (?p mod 32) (m ! (?p div 32))]"
  have "ram_dspace_set_content_init_provided ds offset = Some (ds\<lparr>ds_contentInitBitmask := Some ?m\<rparr>)"
    using assms m p i by (simp add: ram_dspace_set_content_init_provided_def ci_on_def get_size_eq Let_def)
  moreover have "bit (?m ! (k div 32)) (k mod 32) \<longleftrightarrow> k = ?p \<or> bit (m ! (k div 32)) (k mod 32)" for k
  proof (cases "k div 32 = ?p div 32")
    case True
    then have "k mod 32 = ?p mod 32 \<longleftrightarrow> k = ?p" by (metis div_mult_mod_eq)
    with True i show ?thesis by (auto simp: bit_set_bit_iff)
  qed auto
  ultimately show ?thesis using assms(1,2) m by (auto simp: ci_inv_def ci_on_def provided_def)
qed

lemma reply_loop_spec:
  assumes "cv_inv v" "n = length (cv_list v)" "i \<le> n" "\<forall>w \<in> set (cv_list v). wt_reply w \<noteq> 0"
  shows "\<exists>v'. reply_loop heap_ok npage i n v sent =
      Some (v', sent @ map wt_reply (filter (\<lambda>w. wt_pageidx w = npage) (drop i (cv_list v)))) \<and>
    cv_inv v' \<and> cv_list v' = take i (cv_list v) @ filter (\<lambda>w. wt_pageidx w \<noteq> npage) (drop i (cv_list v))"
  using assms
proof (induction "n - i" arbitrary: i n v sent)
  case 0
  then show ?case by (simp add: reply_loop.simps)
next
  case (Suc k)
  let ?xs = "cv_list v"
  have i: "i < n" "i < length ?xs" using Suc.hyps(2) Suc.prems(2) by auto
  have xs: "drop i ?xs = ?xs ! i # drop (Suc i) ?xs" "take (Suc i) ?xs = take i ?xs @ [?xs ! i]"
    using i(2) by (simp_all add: Cons_nth_drop_Suc take_Suc_conv_app_nth)
  have get: "cvector_get v i = Some (?xs ! i)" "wt_reply (?xs ! i) \<noteq> 0"
    using i(2) Suc.prems(1,4) by (simp_all add: cvector_get_list)
  show ?case
  proof (cases "wt_pageidx (?xs ! i) = npage")
    case True
    from cvector_delete_list [OF Suc.prems(1) i(2)] obtain w where
      w: "cvector_delete heap_ok v i = Some w" "cv_inv w" "cv_list w = take i ?xs @ drop (Suc i) ?xs" by blast
    have len: "n - 1 = length (cv_list w)" using w(3) i Suc.prems(2) by simp
    have drp: "drop i (cv_list w) = drop (Suc i) ?xs" "take i (cv_list w) = take i ?xs"
      using w(3) i by simp_all
    have nz: "\<forall>x \<in> set (cv_list w). wt_reply x \<noteq> 0"
      using Suc.prems(4) w(3) by (auto dest: in_set_takeD in_set_dropD)
    have "k = n - 1 - i" "i \<le> n - 1" using Suc.hyps(2) i by auto
    from Suc.hyps(1) [OF this(1) w(2) len this(2) nz, of "sent @ [wt_reply (?xs ! i)]"]
    show ?thesis using True get w(1,2) len i xs drp
      by (simp add: reply_loop.simps [of heap_ok npage i n v sent] cvector_count_list)
  next
    case False
    have "k = n - (i + 1)" "i + 1 \<le> n" using Suc.hyps(2) i by auto
    from Suc.hyps(1) [OF this(1) Suc.prems(1,2) this(2) Suc.prems(4), of sent]
    show ?thesis using False get i xs
      by (simp add: reply_loop.simps [of heap_ok npage i n v sent])
  qed
qed


lemma clear_waiters_eq:
  assumes "cv_inv v" "\<forall>w \<in> set (cv_list v). wt_reply w \<noteq> 0"
  shows "clear_waiters v = Some (map wt_reply (cv_list v))"
proof -
  have "for_each [0..<k] (\<lambda>i freed. do {
       waiter \<leftarrow> cvector_get v i;
       c_assert (wt_reply waiter \<noteq> 0);
       Some (freed @ [wt_reply waiter])
     }) [] = Some (map wt_reply (take k (cv_list v)))" if "k \<le> length (cv_list v)" for k
    using that
  proof (induction k)
    case (Suc k)
    then show ?case using assms
      by (simp add: for_each_append cvector_get_list take_Suc_conv_app_nth)
  qed simp
  from this [of "length (cv_list v)"] assms(1) show ?thesis
    by (simp add: clear_waiters_def cvector_count_list)
qed

lemma content_init_spec:
  assumes "ci_inv ds" "\<not> ds_physicalAddrEnabled ds" "ep \<noteq> 0"
    and "ds_contentInitEnabled ds \<Longrightarrow> ds_contentInitEP ds \<noteq> 0"
  shows "\<exists>ds'. ram_dspace_content_init True ds ep pid = Some (ds',
      (if ds_contentInitEnabled ds then [ds_contentInitEP ds] else []) @
        map wt_reply (cv_list (ds_contentInitWaitingList ds)), ESUCCESS) \<and>
    ci_inv ds' \<and> ci_on ds' \<and> ds_npages ds' = ds_npages ds \<and> (\<forall>k \<le> ds_npages ds. \<not> provided ds' k) \<and>
    cv_list (ds_contentInitWaitingList ds') = []"
proof -
  have w: "clear_waiters (ds_contentInitWaitingList ds) = Some (map wt_reply (cv_list (ds_contentInitWaitingList ds)))"
    using assms(1) by (simp add: clear_waiters_eq ci_inv_def)
  have "(0 # replicate (ds_npages ds div 32) 0) ! (k div 32) = (0 :: nat)" if "k \<le> ds_npages ds" for k
    using nth_replicate [of "k div 32" "Suc (ds_npages ds div 32)" "0 :: nat"] div_le_mono [OF that, of 32] by simp
  with assms w show ?thesis
    by (auto simp: ram_dspace_content_init_def ci_inv_def ci_on_def provided_def)
qed

lemma same_mask:
  "ds_contentInitBitmask ds = b \<Longrightarrow>
   ds\<lparr>ds_pages := p, ds_npages := n, ds_contentInitBitmask := b\<rparr> = ds\<lparr>ds_pages := p, ds_npages := n\<rparr>"
  by (cases ds) simp

lemma expand_spec:
  assumes inv: "ds_inv ds fr" "ci_inv ds" and n: "n = refos_round_up_npages sz" "ds_npages ds \<le> n" "n < 2 ^ 20"
  shows "\<exists>ds'. ram_dspace_expand True True ds sz = Some (ds', ESUCCESS) \<and> ds_inv ds' fr \<and> ci_inv ds' \<and>
    ds_npages ds' = n \<and> (\<forall>a. ds_byte ds' fr a = ds_byte ds fr a) \<and>
    (\<forall>k < ds_npages ds. provided ds' k = provided ds k) \<and>
    ds_contentInitEnabled ds' = ds_contentInitEnabled ds"
proof -
  let ?o = "ds_npages ds"
  have ps: "ds_pages ds = Some (pages ds)" "length (pages ds) = ?o" using inv by (auto simp: ds_inv_def)
  have np: "sz div REFOS_PAGE_SIZE + (if sz mod REFOS_PAGE_SIZE \<noteq> 0 then 1 else 0) = n"
    by (simp add: n(1) refos_round_up_npages_def)
  show ?thesis
  proof (cases "n = ?o")
    case True
    then show ?thesis using inv unfolding ram_dspace_expand_def np by simp
  next
    case False
    then have lt: "?o < n" using n(2) by simp
    define qs where "qs = pages ds @ replicate (n - ?o) 0"
    have q: "take ?o (realloc_to 0 n (pages ds)) @ replicate (n - ?o) 0 = qs"
      using lt ps(2) by (simp add: qs_def)
    define bm where "bm = (case ds_contentInitBitmask ds of None \<Rightarrow> None
      | Some m \<Rightarrow> Some (m @ replicate (n div 32 - ?o div 32) 0))"
    define ds' where "ds' = ds\<lparr>ds_pages := Some qs, ds_npages := n, ds_contentInitBitmask := bm\<rparr>"
    have d: "?o div 32 \<le> n div 32" using lt by (intro div_le_mono) simp
    have "ram_dspace_expand True True ds sz = Some (ds', ESUCCESS)"
    proof (cases "ds_contentInitBitmask ds")
      case None
      then show ?thesis
        using lt ps q unfolding ram_dspace_expand_def np
        by (simp add: Let_def ds'_def bm_def same_mask)
    next
      case (Some m)
      then have "length m = ?o div 32 + 1" using inv(2) by (simp add: ci_inv_def)
      with Some d have "take (?o div 32 + 1) (realloc_to 0 (n div 32 + 1) m) @ replicate (n div 32 - ?o div 32) 0
          = m @ replicate (n div 32 - ?o div 32) 0" by simp
      with Some d lt ps q show ?thesis unfolding ram_dspace_expand_def np
        by (auto simp: Let_def ds'_def bm_def same_mask)
    qed
    moreover have pg: "pages ds' = qs" by (simp add: ds'_def pages_def)
    moreover have "ds_inv ds' fr"
      using inv(1) n(3) lt by (simp add: ds_inv_def pg) (auto simp: ds'_def qs_def)
    moreover have "ci_inv ds'" using inv(2) n(3) d
      by (auto simp: ci_inv_def ds'_def bm_def split: option.splits)
    moreover have "ds_byte ds' fr a = ds_byte ds fr a" for a
      by (auto simp: ds_byte_def Let_def pg) (auto simp: qs_def nth_append split: if_splits)
    moreover have "provided ds' k = provided ds k" if "k < ?o" for k
      using inv(2) div_le_mono [of k ?o 32] that
      by (auto simp: provided_def ds'_def bm_def ci_inv_def nth_append split: option.splits)
    ultimately show ?thesis by (intro exI [of _ ds']) (auto simp: ds'_def)
  qed
qed


section \<open>Properties\<close>

definition demo_frames :: frames where
  "demo_frames = \<lparr>fr_supply = [21, 22, 23], fr_bytes = (\<lambda>c. replicate REFOS_PAGE_SIZE 0),
     fr_mappable = (\<lambda>c. True), fr_device = (\<lambda>a. 0)\<rparr>"

definition demo_dspace :: ram_dspace where
  "demo_dspace = the (ram_dspace_oat_create True True 9 1 8192)"

lemma demo_dspace_eq:
  "ds_pages demo_dspace = Some [0, 0]" "ds_npages demo_dspace = 2" "\<not> ds_physicalAddrEnabled demo_dspace"
  "\<not> ds_contentInitEnabled demo_dspace" "ds_contentInitBitmask demo_dspace = None"
  "ds_contentInitWaitingList demo_dspace = cvector_init" "pages demo_dspace = [0, 0]"
  by (simp_all add: demo_dspace_def ram_dspace_oat_create_def REFOS_PAGE_SIZE_def numeral_2_eq_2 pages_def)

lemma demo_dspace_inv: "ds_inv demo_dspace demo_frames" "enough demo_dspace demo_frames" "ci_inv demo_dspace"
  by (simp_all add: ds_inv_def enough_def ci_inv_def demo_dspace_eq demo_frames_def)

text \<open>
  C13 (dataspace round trip).  A write inside the dataspace succeeds across page boundaries when
  there are frames for the missing pages; the bytes written are those a later read returns, and
  every other byte that had a frame keeps its value.
\<close>

theorem dataspace_roundtrip:
  assumes "ds_inv ds fr" and "enough ds fr" and "offset + length buf \<le> ds_npages ds * REFOS_PAGE_SIZE"
  shows "\<exists>ds1 fr1 ds2 fr2. ram_dspace_write buf (length buf) ds fr offset = Some (ds1, fr1, ESUCCESS) \<and>
    ram_dspace_read (length buf) ds1 fr1 offset = Some (ds2, fr2, buf, ESUCCESS) \<and> ds_inv ds2 fr2 \<and>
    (\<forall>x y. ds_byte ds fr x = Some y \<and> (x < offset \<or> offset + length buf \<le> x) \<longrightarrow> ds_byte ds2 fr2 x = Some y)"
proof -
  from write_spec [OF assms, of buf] obtain d f where
    w: "ram_dspace_write buf (length buf) ds fr offset = Some (d, f, ESUCCESS)" "wrote offset buf ds fr d f" by auto
  have inv: "ds_inv d f" "enough d f" "ds_npages d = ds_npages ds"
    using wrote_kept [OF w(2)] kept_npages by (auto simp: kept_def)
  from read_spec [OF inv(1,2), of offset "length buf" 0] assms(3) inv(3) obtain d' f' bs where
    r: "ram_dspace_read (length buf) d f offset = Some (d', f', bs, ESUCCESS)" "wrote 0 [] d f d' f'"
    "length bs = length buf" "\<forall>i < length buf. ds_byte d' f' (offset + i) = Some (bs ! i)" by auto
  have "buf ! i = bs ! i" if "i < length buf" for i
  proof -
    have "ds_byte d f (offset + i) = Some (buf ! i)" using w(2) that by (simp add: wrote_def)
    with wrote_nil_out [OF r(2), of "offset + i"] r(4) that show ?thesis by simp
  qed
  then have "bs = buf" using r(3) by (simp add: nth_equalityI)
  moreover have "ds_byte d' f' x = Some y" if "ds_byte ds fr x = Some y" "x < offset \<or> offset + length buf \<le> x" for x y
    using wrote_out [OF w(2) that(2)] wrote_nil_out [OF r(2), of x] that(1) by simp
  moreover have "ds_inv d' f'" using wrote_kept [OF r(2)] by (simp add: kept_def)
  ultimately show ?thesis using w(1) r(1) by blast
qed

theorem dataspace_roundtrip_witness:
  "\<exists>ds1 fr1 ds2 fr2. ram_dspace_write [1, 2, 3] 3 demo_dspace demo_frames 4095 = Some (ds1, fr1, ESUCCESS) \<and>
     ram_dspace_read 3 ds1 fr1 4095 = Some (ds2, fr2, [1, 2, 3], ESUCCESS)"
  using dataspace_roundtrip [OF demo_dspace_inv(1,2), of 4095 "[1, 2, 3]"]
  by (auto simp: demo_dspace_eq REFOS_PAGE_SIZE_def numeral_3_eq_3)



text \<open>
  Growing a dataspace keeps every byte, every frame and every page's
  initialisation status, and the new pages have no frame.
\<close>

theorem dataspace_expand_keeps:
  assumes "ds_inv ds fr" and "ci_inv ds" and "ds_npages ds \<le> refos_round_up_npages sz"
    and "refos_round_up_npages sz < 2 ^ 20"
  shows "\<exists>ds'. ram_dspace_expand True True ds sz = Some (ds', ESUCCESS) \<and> ds_inv ds' fr \<and> ci_inv ds' \<and>
    ds_npages ds' = refos_round_up_npages sz \<and> (\<forall>a. ds_byte ds' fr a = ds_byte ds fr a) \<and>
    (\<forall>k < ds_npages ds. provided ds' k = provided ds k)"
  using expand_spec [OF assms(1,2) refl assms(3,4)] by blast

theorem dataspace_expand_keeps_witness:
  "\<exists>ds'. ram_dspace_expand True True demo_dspace 20000 = Some (ds', ESUCCESS) \<and> ds_npages ds' = 5"
  using dataspace_expand_keeps [OF demo_dspace_inv(1,3), of 20000]
  by (auto simp: demo_dspace_eq refos_round_up_npages_def REFOS_PAGE_SIZE_def)



text \<open>
  A client that waits for content at the offset equal to the size
  of the dataspace passes the range check and fails the assertion behind it, which stops the
  process server.
\<close>

theorem waiter_behind_end:
  assumes "ci_inv ds" and "ds_contentInitEnabled ds" and "reply \<noteq> 0"
  shows "ram_dspace_add_content_init_waiter mem waiter_mem ds (ds_npages ds * REFOS_PAGE_SIZE) reply = None"
  using assms page_facts(2) by (simp add: ram_dspace_add_content_init_waiter_def get_size_eq)

theorem waiter_behind_end_witness:
  "ram_dspace_add_content_init_waiter heap_ok True (demo_dspace\<lparr>ds_contentInitEnabled := True\<rparr>) 8192 5 = None"
  using waiter_behind_end [of "demo_dspace\<lparr>ds_contentInitEnabled := True\<rparr>" 5 heap_ok True] demo_dspace_inv(3)
  by (simp add: demo_dspace_eq ci_inv_def REFOS_PAGE_SIZE_def)

end
