(* ===== verification/Ringbuffer.thy ===== *)
theory Ringbuffer
  imports Dataspace
begin

text \<open>
  \<open>system/memserv/ringbuffer.c\<close>: a byte queue inside a RAM dataspace that the process server
  shares with a client.  The first two words of the dataspace are the start and the end of the
  queue; each side owns one of them and keeps a local copy of the other.  Creation and deletion,
  which count references, are in the theory \<open>Memserv\<close>.
\<close>

section \<open>Model\<close>

definition RINGBUFFER_METADATA_SIZE :: nat where "RINGBUFFER_METADATA_SIZE = 8"

datatype rb_mode = RB_READONLY | RB_WRITEONLY

record rb_buffer =
  rb_mode :: rb_mode
  rb_localStart :: nat
  rb_localEnd :: nat
  rb_size :: nat

type_synonym rb_result = "(rb_buffer \<times> ram_dspace \<times> frames \<times> refos_error) option"

definition rb_update_local_start :: "rb_buffer \<Rightarrow> ram_dspace \<Rightarrow> frames \<Rightarrow> rb_result" where
  "rb_update_local_start buf ds fr =
     (case rb_mode buf of
        RB_WRITEONLY \<Rightarrow> do {
          (ds, fr, bytes, err) \<leftarrow> ram_dspace_read 4 ds fr 0;
          Some (if err = ESUCCESS then buf\<lparr>rb_localStart := le_value bytes\<rparr> else buf, ds, fr, err)
        }
      | RB_READONLY \<Rightarrow> do {
          (ds, fr, err) \<leftarrow> ram_dspace_write (le_bytes (rb_localStart buf)) 4 ds fr 0;
          Some (buf, ds, fr, err)
        })"

definition rb_update_local_end :: "rb_buffer \<Rightarrow> ram_dspace \<Rightarrow> frames \<Rightarrow> rb_result" where
  "rb_update_local_end buf ds fr =
     (case rb_mode buf of
        RB_WRITEONLY \<Rightarrow> do {
          (ds, fr, err) \<leftarrow> ram_dspace_write (le_bytes (rb_localEnd buf)) 4 ds fr 4;
          Some (buf, ds, fr, err)
        }
      | RB_READONLY \<Rightarrow> do {
          (ds, fr, bytes, err) \<leftarrow> ram_dspace_read 4 ds fr 4;
          Some (if err = ESUCCESS then buf\<lparr>rb_localEnd := le_value bytes\<rparr> else buf, ds, fr, err)
        })"

definition rb_remaining_size :: "rb_buffer \<Rightarrow> nat" where
  "rb_remaining_size buf =
     (if rb_localStart buf > rb_localEnd buf
      then rb_localStart buf - rb_localEnd buf - 1
      else u32i (int (rb_size buf) - 1 - (int (rb_localEnd buf) - int (rb_localStart buf))))"

text \<open>The part of \<open>rb_write\<close> behind the check for space.\<close>

definition rb_write_data ::
  "rb_buffer \<Rightarrow> ram_dspace \<Rightarrow> frames \<Rightarrow> nat list \<Rightarrow> nat \<Rightarrow> (ram_dspace \<times> frames \<times> refos_error) option"
  where
  "rb_write_data buf ds fr str len =
     (if rb_localEnd buf < rb_localStart buf
      then ram_dspace_write str len ds fr (u32 (rb_localEnd buf + RINGBUFFER_METADATA_SIZE))
      else do {
        let endBytes = min len (u32i (int (rb_size buf) - int (rb_localEnd buf)));
        (ds, fr, err) \<leftarrow> ram_dspace_write str endBytes ds fr
          (u32 (rb_localEnd buf + RINGBUFFER_METADATA_SIZE));
        if err \<noteq> ESUCCESS then Some (ds, fr, err)
        else do {
          c_assert (endBytes \<le> len);
          if endBytes < len
          then ram_dspace_write (drop endBytes str) (len - endBytes) ds fr RINGBUFFER_METADATA_SIZE
          else Some (ds, fr, ESUCCESS)
        }
      })"

definition rb_write :: "rb_buffer \<Rightarrow> ram_dspace \<Rightarrow> frames \<Rightarrow> nat list \<Rightarrow> nat \<Rightarrow> rb_result" where
  "rb_write buf ds fr str len =
     (if rb_mode buf \<noteq> RB_WRITEONLY then Some (buf, ds, fr, EACCESSDENIED)
      else do {
        (buf, ds, fr, err) \<leftarrow>
          (if len > rb_remaining_size buf then do {
             (buf, ds, fr, err) \<leftarrow> rb_update_local_start buf ds fr;
             Some (buf, ds, fr, if err \<noteq> ESUCCESS then EINVALID
               else if len > rb_remaining_size buf then ENOMEM else ESUCCESS)
           }
           else Some (buf, ds, fr, ESUCCESS));
        if err \<noteq> ESUCCESS then Some (buf, ds, fr, err)
        else do {
          (ds, fr, err) \<leftarrow> rb_write_data buf ds fr str len;
          if err \<noteq> ESUCCESS then Some (buf, ds, fr, err)
          else do {
            c_assert (rb_size buf \<noteq> 0);
            let buf = buf\<lparr>rb_localEnd := u32 (rb_localEnd buf + len) mod rb_size buf\<rparr>;
            rb_update_local_end buf ds fr
          }
        }
      })"

text \<open>
  The transfer of \<open>rb_read\<close>: the bytes copied to the destination, whose number is stored through
  \<open>bytesRead\<close>.
\<close>

definition rb_read_data ::
  "rb_buffer \<Rightarrow> ram_dspace \<Rightarrow> frames \<Rightarrow> nat \<Rightarrow>
   (ram_dspace \<times> frames \<times> nat list \<times> refos_error) option" where
  "rb_read_data buf ds fr len =
     (if rb_localStart buf \<le> rb_localEnd buf
      then ram_dspace_read (min (rb_localEnd buf - rb_localStart buf) len) ds fr
        (u32 (rb_localStart buf + RINGBUFFER_METADATA_SIZE))
      else do {
        let n = min (u32i (int (rb_size buf) - int (rb_localStart buf))) len;
        (ds, fr, bytes, err) \<leftarrow> ram_dspace_read n ds fr
          (u32 (rb_localStart buf + RINGBUFFER_METADATA_SIZE));
        if err \<noteq> ESUCCESS then Some (ds, fr, bytes, err)
        else do {
          let bytesRemain = min (len - n) (rb_localEnd buf);
          if bytesRemain > 0 then do {
            (ds, fr, more, err) \<leftarrow> ram_dspace_read bytesRemain ds fr RINGBUFFER_METADATA_SIZE;
            Some (ds, fr, bytes @ more, err)
          }
          else Some (ds, fr, bytes, ESUCCESS)
        }
      })"

definition rb_read ::
  "rb_buffer \<Rightarrow> ram_dspace \<Rightarrow> frames \<Rightarrow> nat \<Rightarrow>
   (rb_buffer \<times> ram_dspace \<times> frames \<times> nat list \<times> refos_error) option" where
  "rb_read buf ds fr len =
     (if rb_mode buf \<noteq> RB_READONLY then Some (buf, ds, fr, [], EACCESSDENIED)
      else do {
        (buf, ds, fr, err) \<leftarrow>
          (if len > u32i (int (rb_size buf) - 1 - int (rb_remaining_size buf))
           then rb_update_local_end buf ds fr
           else Some (buf, ds, fr, ESUCCESS));
        if err \<noteq> ESUCCESS then Some (buf, ds, fr, [], err)
        else do {
          (ds, fr, bytes, err) \<leftarrow> rb_read_data buf ds fr len;
          if err \<noteq> ESUCCESS then Some (buf, ds, fr, bytes, err)
          else do {
            c_assert (rb_size buf \<noteq> 0);
            let buf = buf\<lparr>rb_localEnd := u32 (rb_localEnd buf + len) mod rb_size buf,
                          rb_localStart := u32 (rb_localStart buf + length bytes) mod rb_size buf\<rparr>;
            (buf, ds, fr, err) \<leftarrow> rb_update_local_start buf ds fr;
            Some (buf, ds, fr, bytes, err)
          }
        }
      })"

section \<open>The queue in the dataspace\<close>

text \<open>
  Cell \<open>k\<close> of the ring is byte \<open>8 + k\<close> of the dataspace; the queue \<open>q\<close> occupies the cells from
  \<open>localStart\<close> on, around the end.
\<close>

definition rb_geometry :: "rb_buffer \<Rightarrow> ram_dspace \<Rightarrow> nat \<Rightarrow> bool" where
  "rb_geometry rb ds n \<longleftrightarrow> 0 < ds_npages ds \<and>
     rb_size rb + RINGBUFFER_METADATA_SIZE = ds_npages ds * REFOS_PAGE_SIZE \<and>
     rb_size rb < 2 ^ 31 \<and> rb_localStart rb < rb_size rb \<and> n < rb_size rb \<and>
     rb_localEnd rb = (rb_localStart rb + n) mod rb_size rb"

definition rb_cell :: "rb_buffer \<Rightarrow> nat \<Rightarrow> nat" where
  "rb_cell rb k = RINGBUFFER_METADATA_SIZE + k mod rb_size rb"

definition rb_inv :: "rb_buffer \<Rightarrow> ram_dspace \<Rightarrow> frames \<Rightarrow> nat list \<Rightarrow> bool" where
  "rb_inv rb ds fr q \<longleftrightarrow> ds_inv ds fr \<and> enough ds fr \<and> rb_geometry rb ds (length q) \<and>
     (\<forall>i < length q. ds_byte ds fr (rb_cell rb (rb_localStart rb + i)) = Some (q ! i))"

lemma ring_distinct:
  fixes N :: nat
  assumes "i < j" "j < N"
  shows "(s + i) mod N \<noteq> (s + j) mod N"
proof
  assume "(s + i) mod N = (s + j) mod N"
  then have "N dvd (s + j) - (s + i)" using assms(1) by (metis mod_eq_dvd_iff_nat add_left_mono less_imp_le)
  then show False using assms by (auto dest: dvd_imp_le)
qed

lemma geometry_bounds:
  assumes "rb_geometry rb ds n"
  shows "rb_localEnd rb < rb_size rb" "0 < rb_size rb"
    "rb_localStart rb \<le> rb_localEnd rb \<Longrightarrow> n = rb_localEnd rb - rb_localStart rb"
    "rb_localEnd rb < rb_localStart rb \<Longrightarrow> n + rb_localStart rb = rb_size rb + rb_localEnd rb"
proof -
  have s: "rb_localStart rb < rb_size rb" "n < rb_size rb"
    "rb_localEnd rb = (rb_localStart rb + n) mod rb_size rb" using assms by (auto simp: rb_geometry_def)
  show "0 < rb_size rb" using s(1) by simp
  then show "rb_localEnd rb < rb_size rb" using s(3) by simp
  have e: "rb_localEnd rb = (if rb_localStart rb + n < rb_size rb then rb_localStart rb + n
      else rb_localStart rb + n - rb_size rb)"
    using s by (simp add: mod_if)
  show "rb_localStart rb \<le> rb_localEnd rb \<Longrightarrow> n = rb_localEnd rb - rb_localStart rb"
    "rb_localEnd rb < rb_localStart rb \<Longrightarrow> n + rb_localStart rb = rb_size rb + rb_localEnd rb"
    using e s(1,2) by (auto split: if_splits)
qed

lemma geometry_small: "ds_inv ds fr \<Longrightarrow> rb_geometry rb ds n \<Longrightarrow> rb_size rb + 8 < 4294967296"
  using size_small [of ds fr] by (simp add: rb_geometry_def RINGBUFFER_METADATA_SIZE_def)

lemma half_size: "rb_geometry rb ds n \<Longrightarrow> rb_size rb < 2147483648"
  by (simp add: rb_geometry_def)

lemma remaining_eq:
  assumes "ds_inv ds fr" "rb_geometry rb ds n"
  shows "rb_remaining_size rb = rb_size rb - 1 - n"
proof -
  note b = geometry_bounds [OF assms(2)] and small = geometry_small [OF assms]
  have n: "n < rb_size rb" using assms(2) by (simp add: rb_geometry_def)
  show ?thesis
  proof (cases "rb_localEnd rb < rb_localStart rb")
    case True
    with b(4) show ?thesis by (simp add: rb_remaining_size_def)
  next
    case False
    with b(3) have "n = rb_localEnd rb - rb_localStart rb" by simp
    with False n have e: "int (rb_size rb) - 1 - (int (rb_localEnd rb) - int (rb_localStart rb)) = int (rb_size rb - 1 - n)"
      by simp
    have "rb_remaining_size rb = u32i (int (rb_size rb - 1 - n))"
      using False unfolding rb_remaining_size_def e by simp
    with small show ?thesis by (simp del: of_nat_diff)
  qed
qed

text \<open>What a transfer into the cells from \<open>k\<close> on leaves: the new bytes there, the others kept.\<close>

definition ring_wrote :: "nat \<Rightarrow> nat \<Rightarrow> nat list \<Rightarrow> ram_dspace \<Rightarrow> frames \<Rightarrow> ram_dspace \<Rightarrow> frames \<Rightarrow> bool" where
  "ring_wrote N k bs ds fr ds' fr' \<longleftrightarrow> kept ds fr ds' fr' \<and>
     (\<forall>i < length bs. ds_byte ds' fr' (RINGBUFFER_METADATA_SIZE + (k + i) mod N) = Some (bs ! i)) \<and>
     (\<forall>x. (\<forall>i < length bs. x \<noteq> RINGBUFFER_METADATA_SIZE + (k + i) mod N) \<longrightarrow> ds_byte ds fr x \<noteq> None \<longrightarrow>
       ds_byte ds' fr' x = ds_byte ds fr x)"

lemma wrote_ring:
  assumes "wrote (RINGBUFFER_METADATA_SIZE + k) bs ds fr ds' fr'" "k + length bs \<le> N" "k < N"
  shows "ring_wrote N k bs ds fr ds' fr'"
proof -
  have "(k + i) mod N = k + i" if "i < length bs" for i using assms(2) that by simp
  moreover have "x < RINGBUFFER_METADATA_SIZE + k \<or> RINGBUFFER_METADATA_SIZE + k + length bs \<le> x"
    if "\<forall>i < length bs. x \<noteq> RINGBUFFER_METADATA_SIZE + (k + i)" for x
    using spec [OF that, of "x - (RINGBUFFER_METADATA_SIZE + k)"] by linarith
  ultimately show ?thesis using assms(1) wrote_out [OF assms(1)]
    by (auto simp: ring_wrote_def wrote_def)
qed

lemma ring_wrote_append:
  assumes a: "ring_wrote N k bs d0 f0 d1 f1" and b: "ring_wrote N (k + length bs) cs d1 f1 d2 f2"
    and n: "length bs + length cs < N"
  shows "ring_wrote N k (bs @ cs) d0 f0 d2 f2"
  unfolding ring_wrote_def
proof (intro conjI allI impI)
  show "kept d0 f0 d2 f2" using a b by (auto simp: ring_wrote_def kept_def)
next
  fix i assume i: "i < length (bs @ cs)"
  let ?x = "RINGBUFFER_METADATA_SIZE + (k + i) mod N"
  show "ds_byte d2 f2 ?x = Some ((bs @ cs) ! i)"
  proof (cases "i < length bs")
    case True
    have "(k + i) mod N \<noteq> (k + length bs + j) mod N" if "j < length cs" for j
      using ring_distinct [of i "length bs + j" N k] that n True by (simp add: add.assoc)
    moreover have "ds_byte d1 f1 ?x = Some (bs ! i)" using a True by (simp add: ring_wrote_def)
    ultimately show ?thesis using b True by (simp add: ring_wrote_def nth_append)
  next
    case False
    then have "i - length bs < length cs" "k + length bs + (i - length bs) = k + i" using i by auto
    with b False show ?thesis unfolding ring_wrote_def by (metis nth_append)
  qed
next
  fix x assume x: "\<forall>i < length (bs @ cs). x \<noteq> RINGBUFFER_METADATA_SIZE + (k + i) mod N" "ds_byte d0 f0 x \<noteq> None"
  have "\<forall>i < length bs. x \<noteq> RINGBUFFER_METADATA_SIZE + (k + i) mod N" using x(1) by auto
  with a x(2) have e: "ds_byte d1 f1 x = ds_byte d0 f0 x" by (simp add: ring_wrote_def)
  have "\<forall>i < length cs. x \<noteq> RINGBUFFER_METADATA_SIZE + (k + length bs + i) mod N"
    using x(1) by (auto simp: add.assoc)
  with b e x(2) show "ds_byte d2 f2 x = ds_byte d0 f0 x" by (simp add: ring_wrote_def)
qed


lemma rb_write_data_spec:
  assumes inv: "ds_inv ds fr" "enough ds fr" and g: "rb_geometry rb ds n" and len: "n + length str < rb_size rb"
  shows "\<exists>ds' fr'. rb_write_data rb ds fr str (length str) = Some (ds', fr', ESUCCESS) \<and>
    ring_wrote (rb_size rb) (rb_localEnd rb) str ds fr ds' fr'"
proof -
  let ?E = "rb_localEnd rb" and ?N = "rb_size rb"
  note b = geometry_bounds [OF g] and small = geometry_small [OF inv(1) g]
  have total: "?N + RINGBUFFER_METADATA_SIZE = ds_npages ds * REFOS_PAGE_SIZE" using g by (simp add: rb_geometry_def)
  have u: "u32 (?E + RINGBUFFER_METADATA_SIZE) = RINGBUFFER_METADATA_SIZE + ?E"
    using b(1) small by (simp add: RINGBUFFER_METADATA_SIZE_def)
  show ?thesis
  proof (cases "?E < rb_localStart rb")
    case True
    with b(4) len have fit: "?E + length str \<le> ?N" using g by (auto simp: rb_geometry_def)
    have "RINGBUFFER_METADATA_SIZE + ?E + length str \<le> ds_npages ds * REFOS_PAGE_SIZE" using fit total by simp
    from write_spec [OF inv this, of str] obtain d f where
      w: "ram_dspace_write str (length str) ds fr (RINGBUFFER_METADATA_SIZE + ?E) = Some (d, f, ESUCCESS)"
      "wrote (RINGBUFFER_METADATA_SIZE + ?E) str ds fr d f" by auto
    with True u wrote_ring [OF w(2) fit b(1)] show ?thesis by (auto simp: rb_write_data_def)
  next
    case False
    have "int ?N - int ?E = int (?N - ?E)" using b(1) by simp
    then have room: "u32i (int ?N - int ?E) = ?N - ?E" using small by (simp del: of_nat_diff)
    define e where "e = min (length str) (?N - ?E)"
    have e: "e \<le> length str" "?E + e \<le> ?N" using b(1) by (auto simp: e_def)
    have "RINGBUFFER_METADATA_SIZE + ?E + e \<le> ds_npages ds * REFOS_PAGE_SIZE" using e total by simp
    from write_spec [OF inv this e(1)] obtain d f where
      w: "ram_dspace_write str e ds fr (RINGBUFFER_METADATA_SIZE + ?E) = Some (d, f, ESUCCESS)"
      "wrote (RINGBUFFER_METADATA_SIZE + ?E) (take e str) ds fr d f" by auto
    have r1: "ring_wrote ?N ?E (take e str) ds fr d f" using wrote_ring [OF w(2)] e b(1) by simp
    have inv1: "ds_inv d f" "enough d f" "ds_npages d = ds_npages ds"
      using wrote_kept [OF w(2)] kept_npages by (auto simp: kept_def)
    show ?thesis
    proof (cases "e < length str")
      case e_less: True
      then have eq: "?E + e = ?N" using b(1) by (auto simp: e_def min_def split: if_splits)
      have "RINGBUFFER_METADATA_SIZE + (length str - e) \<le> ds_npages d * REFOS_PAGE_SIZE"
        using len total inv1(3) by simp
      from write_spec [OF inv1(1,2) this, of "drop e str"] obtain d' f' where
        w': "ram_dspace_write (drop e str) (length str - e) d f RINGBUFFER_METADATA_SIZE = Some (d', f', ESUCCESS)"
        "wrote (RINGBUFFER_METADATA_SIZE + 0) (drop e str) d f d' f'" by auto
      have "ring_wrote ?N 0 (drop e str) d f d' f'"
        using wrote_ring [OF w'(2), of ?N] len b(2) by simp
      then have r2: "ring_wrote ?N (?E + length (take e str)) (drop e str) d f d' f'"
        using eq e(1) by (simp add: ring_wrote_def min_absorb2)
      from ring_wrote_append [OF r1 r2] len have "ring_wrote ?N ?E str ds fr d' f'" by simp
      then show ?thesis using False u room w(1) w'(1) e_less e(1)
        by (auto simp: rb_write_data_def Let_def e_def [symmetric])
    next
      case e_eq: False
      then show ?thesis using False u room w(1) r1 e(1)
        by (auto simp: rb_write_data_def Let_def e_def [symmetric])
    qed
  qed
qed

lemma rb_inv_append:
  assumes inv: "rb_inv rb ds fr q" and w: "ring_wrote (rb_size rb) (rb_localEnd rb) str ds fr ds' fr'"
    and len: "length q + length str < rb_size rb"
  shows "rb_inv (rb\<lparr>rb_localEnd := (rb_localEnd rb + length str) mod rb_size rb\<rparr>) ds' fr' (q @ str)"
proof -
  let ?S = "rb_localStart rb" and ?N = "rb_size rb"
  have g: "rb_geometry rb ds (length q)" and i: "ds_inv ds' fr'" "enough ds' fr'" "ds_npages ds' = ds_npages ds"
    using inv w by (auto simp: rb_inv_def ring_wrote_def kept_npages kept_def)
  have E: "(rb_localEnd rb + k) mod ?N = (?S + (length q + k)) mod ?N" for k
    using g by (simp add: rb_geometry_def mod_add_left_eq add.assoc)
  have new: "ds_byte ds' fr' (rb_cell rb (?S + (length q + k))) = Some (str ! k)" if "k < length str" for k
    using w that by (simp add: ring_wrote_def rb_cell_def E)
  have old: "ds_byte ds' fr' (rb_cell rb (?S + k)) = Some (q ! k)" if "k < length q" for k
  proof -
    have "(?S + k) mod ?N \<noteq> (?S + (length q + j)) mod ?N" if "j < length str" for j
      using ring_distinct [of k "length q + j" ?N ?S] that \<open>k < length q\<close> len by simp
    then have "\<forall>j < length str. rb_cell rb (?S + k) \<noteq> RINGBUFFER_METADATA_SIZE + (rb_localEnd rb + j) mod ?N"
      by (simp add: rb_cell_def E)
    moreover have "ds_byte ds fr (rb_cell rb (?S + k)) = Some (q ! k)" using inv that by (simp add: rb_inv_def)
    ultimately show ?thesis using w by (simp add: ring_wrote_def)
  qed
  have "ds_byte ds' fr' (rb_cell rb (?S + k)) = Some ((q @ str) ! k)" if "k < length (q @ str)" for k
    using old [of k] new [of "k - length q"] that by (auto simp: nth_append)
  then show ?thesis using i g len E [of "length str"]
    by (simp add: rb_inv_def rb_geometry_def rb_cell_def)
qed

text \<open>Changes below the ring do not touch the queue.\<close>

lemma rb_inv_header:
  assumes inv: "rb_inv rb ds fr q" and w: "wrote a bs ds fr ds' fr'" and low: "a + length bs \<le> RINGBUFFER_METADATA_SIZE"
  shows "rb_inv rb ds' fr' q"
proof -
  have "ds_byte ds' fr' (rb_cell rb k) = ds_byte ds fr (rb_cell rb k)" if "ds_byte ds fr (rb_cell rb k) \<noteq> None" for k
    using wrote_out [OF w _ that] low by (simp add: rb_cell_def)
  with inv wrote_kept [OF w] kept_npages show ?thesis
    by (auto simp: rb_inv_def kept_def rb_geometry_def)
qed

lemma rb_write_spec:
  assumes inv: "rb_inv rb ds fr q" and m: "rb_mode rb = RB_WRITEONLY" and len: "length q + length str < rb_size rb"
  shows "\<exists>rb' ds' fr'. rb_write rb ds fr str (length str) = Some (rb', ds', fr', ESUCCESS) \<and>
    rb_inv rb' ds' fr' (q @ str) \<and> rb' = rb\<lparr>rb_localEnd := rb_localEnd rb'\<rparr> \<and>
    (\<forall>i < 4. ds_byte ds' fr' (4 + i) = Some (le_bytes (rb_localEnd rb') ! i))"
proof -
  have i: "ds_inv ds fr" "enough ds fr" "rb_geometry rb ds (length q)" using inv by (auto simp: rb_inv_def)
  have rem: "\<not> length str > rb_remaining_size rb" using remaining_eq [OF i(1,3)] len by simp
  from rb_write_data_spec [OF i len] obtain d f where
    w: "rb_write_data rb ds fr str (length str) = Some (d, f, ESUCCESS)"
    "ring_wrote (rb_size rb) (rb_localEnd rb) str ds fr d f" by blast
  define rb1 where "rb1 = rb\<lparr>rb_localEnd := (rb_localEnd rb + length str) mod rb_size rb\<rparr>"
  have inv1: "rb_inv rb1 d f (q @ str)" using rb_inv_append [OF inv w(2) len] by (simp add: rb1_def)
  have b: "rb_localEnd rb < rb_size rb" "0 < rb_size rb" using geometry_bounds [OF i(3)] by auto
  have u: "u32 (rb_localEnd rb + length str) = rb_localEnd rb + length str"
    using b(1) len half_size [OF i(3)] by simp
  have np: "1 \<le> ds_npages d" using inv1 by (simp add: rb_inv_def rb_geometry_def)
  then have fits: "4 + 4 \<le> ds_npages d * REFOS_PAGE_SIZE"
    using mult_le_mono1 [OF np, of REFOS_PAGE_SIZE] by (simp add: REFOS_PAGE_SIZE_def)
  have "ds_inv d f" "enough d f" using inv1 by (simp_all add: rb_inv_def)
  from write_spec [OF this fits, of "le_bytes (rb_localEnd rb1)"] obtain d' f' where
    e: "ram_dspace_write (le_bytes (rb_localEnd rb1)) 4 d f 4 = Some (d', f', ESUCCESS)"
    "wrote 4 (le_bytes (rb_localEnd rb1)) d f d' f'" by auto
  have "rb_inv rb1 d' f' (q @ str)"
    using rb_inv_header [OF inv1 e(2)] by (simp add: RINGBUFFER_METADATA_SIZE_def)
  moreover have "\<forall>i < 4. ds_byte d' f' (4 + i) = Some (le_bytes (rb_localEnd rb1) ! i)"
    using e(2) by (simp add: wrote_def)
  moreover have "rb_write rb ds fr str (length str) = Some (rb1, d', f', ESUCCESS)"
    using m rem w(1) b(2) e(1) by (simp add: rb_write_def rb_update_local_end_def u rb1_def Let_def)
  ultimately show ?thesis by (auto simp: rb1_def)
qed


lemma header_fits: "rb_geometry rb ds n \<Longrightarrow> 8 \<le> ds_npages ds * REFOS_PAGE_SIZE"
  using mult_le_mono1 [of 1 "ds_npages ds" REFOS_PAGE_SIZE] by (auto simp: rb_geometry_def REFOS_PAGE_SIZE_def)

lemma read_word:
  assumes "ds_inv ds fr" "enough ds fr" "a + 4 \<le> ds_npages ds * REFOS_PAGE_SIZE" "n < 4294967296"
    and "\<forall>i < 4. ds_byte ds fr (a + i) = Some (le_bytes n ! i)"
  shows "\<exists>ds' fr'. ram_dspace_read 4 ds fr a = Some (ds', fr', le_bytes n, ESUCCESS) \<and> wrote 0 [] ds fr ds' fr'"
proof -
  from read_spec [OF assms(1-3), of 0] obtain d f bs where
    r: "ram_dspace_read 4 ds fr a = Some (d, f, bs, ESUCCESS)" "wrote 0 [] ds fr d f" "length bs = 4"
    "\<forall>i < 4. ds_byte d f (a + i) = Some (bs ! i)" by blast
  have "bs ! i = le_bytes n ! i" if "i < 4" for i
    using wrote_nil_out [OF r(2), of "a + i"] assms(5) r(4) that by simp
  then have "bs = le_bytes n" using r(3) by (intro nth_equalityI) auto
  with r show ?thesis by blast
qed

lemma refresh_start:
  assumes inv: "rb_inv rb ds fr q" and m: "rb_mode rb = RB_WRITEONLY" and k: "k \<le> length q"
    and s: "\<forall>i < 4. ds_byte ds fr i = Some (le_bytes ((rb_localStart rb + k) mod rb_size rb) ! i)"
  shows "\<exists>ds' fr'. rb_update_local_start rb ds fr =
      Some (rb\<lparr>rb_localStart := (rb_localStart rb + k) mod rb_size rb\<rparr>, ds', fr', ESUCCESS) \<and>
    rb_inv (rb\<lparr>rb_localStart := (rb_localStart rb + k) mod rb_size rb\<rparr>) ds' fr' (drop k q)"
proof -
  let ?S = "rb_localStart rb" and ?N = "rb_size rb"
  have i: "ds_inv ds fr" "enough ds fr" "rb_geometry rb ds (length q)" using inv by (auto simp: rb_inv_def)
  have N: "0 < ?N" "?N < 2147483648" using geometry_bounds(2) [OF i(3)] half_size [OF i(3)] by auto
  then have lt: "(?S + k) mod ?N < 4294967296" using mod_less_divisor [OF N(1), of "?S + k"] by linarith
  have "4 \<le> ds_npages ds * REFOS_PAGE_SIZE" using header_fits [OF i(3)] by simp
  with read_word [OF i(1,2), of 0 "(?S + k) mod ?N"] lt s obtain d f where
    r: "ram_dspace_read 4 ds fr 0 = Some (d, f, le_bytes ((?S + k) mod ?N), ESUCCESS)" "wrote 0 [] ds fr d f" by auto
  have sum: "((?S + k) mod ?N + (length q - k)) mod ?N = (?S + length q) mod ?N"
    using k by (metis mod_add_left_eq add.assoc le_add_diff_inverse)
  have "rb_inv rb d f q" using rb_inv_header [OF inv r(2)] by simp
  then have "rb_inv (rb\<lparr>rb_localStart := (?S + k) mod ?N\<rparr>) d f (drop k q)"
    using k N sum by (auto simp: rb_inv_def rb_geometry_def rb_cell_def mod_add_left_eq add.assoc)
  with r(1) m le_roundtrip [OF lt] show ?thesis by (auto simp: rb_update_local_start_def)
qed

lemma rb_read_data_spec:
  assumes inv: "rb_inv rb ds fr q" and len: "len \<le> length q"
  shows "\<exists>ds' fr'. rb_read_data rb ds fr len = Some (ds', fr', take len q, ESUCCESS) \<and> rb_inv rb ds' fr' q"
proof -
  let ?S = "rb_localStart rb" and ?E = "rb_localEnd rb" and ?N = "rb_size rb"
  have i: "ds_inv ds fr" "enough ds fr" "rb_geometry rb ds (length q)" using inv by (auto simp: rb_inv_def)
  note b = geometry_bounds [OF i(3)] and small = geometry_small [OF i(1,3)]
  have S: "?S < ?N" and total: "?N + RINGBUFFER_METADATA_SIZE = ds_npages ds * REFOS_PAGE_SIZE"
    using i(3) by (auto simp: rb_geometry_def)
  have u: "u32 (?S + RINGBUFFER_METADATA_SIZE) = RINGBUFFER_METADATA_SIZE + ?S"
    using S small by (simp add: RINGBUFFER_METADATA_SIZE_def)
  have part: "\<exists>d' f'. ram_dspace_read n d f (RINGBUFFER_METADATA_SIZE + k mod ?N) = Some (d', f', take n (drop j q), ESUCCESS) \<and>
      rb_inv rb d' f' q" if p: "rb_inv rb d f q" "k = ?S + j" "j + n \<le> length q" "k mod ?N + n \<le> ?N" "ds_npages d = ds_npages ds" for d f n k j
  proof -
    have "RINGBUFFER_METADATA_SIZE + k mod ?N + n \<le> ds_npages d * REFOS_PAGE_SIZE" using p(4,5) total by simp
    with read_spec [of d f "RINGBUFFER_METADATA_SIZE + k mod ?N" n 0] p(1) obtain d' f' bs where
      r: "ram_dspace_read n d f (RINGBUFFER_METADATA_SIZE + k mod ?N) = Some (d', f', bs, ESUCCESS)"
      "wrote 0 [] d f d' f'" "length bs = n"
      "\<forall>i < n. ds_byte d' f' (RINGBUFFER_METADATA_SIZE + k mod ?N + i) = Some (bs ! i)" by (auto simp: rb_inv_def)
    have inv': "rb_inv rb d' f' q" using rb_inv_header [OF p(1) r(2)] by simp
    have "bs ! i = q ! (j + i)" if "i < n" for i
    proof -
      have "(k + i) mod ?N = k mod ?N + i" using p(4) that by (metis add.commute add_le_imp_le_left mod_add_right_eq mod_less nat_add_left_cancel_less order_less_le_trans)
      then have "RINGBUFFER_METADATA_SIZE + k mod ?N + i = rb_cell rb (?S + (j + i))"
        using p(2) by (simp add: rb_cell_def add.assoc)
      then show ?thesis using inv' r(4) that p(3) by (auto simp: rb_inv_def)
    qed
    then have "bs = take n (drop j q)" using r(3) p(3) by (intro nth_equalityI) auto
    with r(1) inv' show ?thesis by blast
  qed
  have np: "ds_npages d = ds_npages ds" if "rb_inv rb d f q" for d f
    using that total by (auto simp: rb_inv_def rb_geometry_def REFOS_PAGE_SIZE_def)
  show ?thesis
  proof (cases "?S \<le> ?E")
    case True
    then have "min (?E - ?S) len = len" using b(3) len by simp
    moreover have "?S + len \<le> ?N" using True b(1,3) len by simp
    ultimately show ?thesis using part [OF inv, of ?S 0 len] True u len S by (simp add: rb_read_data_def)
  next
    case False
    have "int ?N - int ?S = int (?N - ?S)" using S by simp
    then have room: "u32i (int ?N - int ?S) = ?N - ?S" using small by (simp del: of_nat_diff)
    define n where "n = min (?N - ?S) len"
    have n: "n \<le> len" "?S + n \<le> ?N" "min (?N - ?S) len = n" using S by (auto simp: n_def)
    from part [OF inv, of ?S 0 n] n len S obtain d f where
      r: "ram_dspace_read n ds fr (RINGBUFFER_METADATA_SIZE + ?S) = Some (d, f, take n q, ESUCCESS)" "rb_inv rb d f q"
      by auto
    show ?thesis
    proof (cases "len = n")
      case True
      then show ?thesis using False u room r n(3) by (simp add: rb_read_data_def Let_def)
    next
      case less: False
      then have eq: "?S + n = ?N" using S n(1) by (auto simp: n_def min_def split: if_splits)
      have m: "min (len - n) ?E = len - n" using b(4) False len eq by simp
      have "len - n \<le> ?N" using len i(3) by (auto simp: rb_geometry_def)
      with part [OF r(2), of ?N n "len - n"] np [OF r(2)] eq len n(1) obtain d' f' where
        r': "ram_dspace_read (len - n) d f RINGBUFFER_METADATA_SIZE = Some (d', f', take (len - n) (drop n q), ESUCCESS)"
        "rb_inv rb d' f' q" by auto
      have "take n q @ take (len - n) (drop n q) = take len q" using take_add [of n "len - n" q] n(1) by simp
      then show ?thesis using False less u room r r' n(1,3) m
        by (auto simp: rb_read_data_def Let_def)
    qed
  qed
qed


lemma content_eq:
  assumes "rb_inv rb ds fr q"
  shows "u32i (int (rb_size rb) - 1 - int (rb_remaining_size rb)) = length q"
proof -
  have i: "ds_inv ds fr" "rb_geometry rb ds (length q)" using assms by (auto simp: rb_inv_def)
  have "length q < rb_size rb" using i(2) by (simp add: rb_geometry_def)
  then have "int (rb_size rb) - 1 - int (rb_remaining_size rb) = int (length q)"
    by (simp add: remaining_eq [OF i])
  with geometry_small [OF i] \<open>length q < rb_size rb\<close> show ?thesis by simp
qed

lemma rb_read_spec:
  assumes inv: "rb_inv rb ds fr q" and m: "rb_mode rb = RB_READONLY" and len: "len \<le> length q"
  shows "\<exists>rb' ds' fr'. rb_read rb ds fr len = Some (rb', ds', fr', take len q, ESUCCESS) \<and>
    rb_localStart rb' = (rb_localStart rb + len) mod rb_size rb \<and>
    rb_localEnd rb' = (rb_localEnd rb + len) mod rb_size rb \<and> rb_geometry rb' ds' (length q)"
proof -
  let ?S = "rb_localStart rb" and ?E = "rb_localEnd rb" and ?N = "rb_size rb"
  have i: "rb_geometry rb ds (length q)" using inv by (auto simp: rb_inv_def)
  note b = geometry_bounds [OF i]
  have S: "?S < ?N" "length q < ?N" "?N < 2147483648" using i by (auto simp: rb_geometry_def)
  from rb_read_data_spec [OF inv len] obtain d f where
    r: "rb_read_data rb ds fr len = Some (d, f, take len q, ESUCCESS)" "rb_inv rb d f q" by blast
  have u: "u32 (?E + len) = ?E + len" "u32 (?S + length (take len q)) = ?S + len" using S b(1) len by simp_all
  define rb1 where "rb1 = rb\<lparr>rb_localEnd := (?E + len) mod ?N, rb_localStart := (?S + len) mod ?N\<rparr>"
  have g: "rb_geometry rb1 d (length q)"
  proof -
    have "((?S + length q) mod ?N + len) mod ?N = ((?S + len) mod ?N + length q) mod ?N"
      unfolding mod_add_left_eq by (simp add: ac_simps)
    with r(2) b(2) show ?thesis by (simp add: rb_inv_def rb_geometry_def rb1_def)
  qed
  have "ds_inv d f" "enough d f" "0 + 4 \<le> ds_npages d * REFOS_PAGE_SIZE"
    using r(2) header_fits [OF g] by (auto simp: rb_inv_def)
  from write_spec [OF this, of "le_bytes (rb_localStart rb1)"] obtain d' f' where
    e: "ram_dspace_write (le_bytes (rb_localStart rb1)) 4 d f 0 = Some (d', f', ESUCCESS)"
    "wrote 0 (le_bytes (rb_localStart rb1)) d f d' f'" by auto
  have "rb_geometry rb1 d' (length q)"
    using g wrote_kept [OF e(2)] kept_npages by (auto simp: rb_geometry_def)
  moreover have "rb_read rb ds fr len = Some (rb1, d', f', take len q, ESUCCESS)"
    using m len content_eq [OF inv] r(1) b(2) e(1) u
    by (simp add: rb_read_def rb_update_local_start_def rb1_def Let_def)
  ultimately show ?thesis by (auto simp: rb1_def)
qed

section \<open>Properties\<close>

definition demo_ring :: "rb_mode \<Rightarrow> rb_buffer" where
  "demo_ring m = \<lparr>rb_mode = m, rb_localStart = 0, rb_localEnd = 0, rb_size = 8184\<rparr>"

lemma demo_ring_inv: "rb_inv (demo_ring m) demo_dspace demo_frames []"
  by (simp add: rb_inv_def rb_geometry_def demo_ring_def demo_dspace_inv demo_dspace_eq
      RINGBUFFER_METADATA_SIZE_def REFOS_PAGE_SIZE_def)

text \<open>
  C16 (appending to a ring buffer).  If the message fits behind the queue, \<open>rb_write\<close> succeeds, the
  queue becomes the old one followed by the message, wherever the ring wraps, and the new end is
  published in the dataspace.
\<close>

theorem ring_write_appends:
  assumes "rb_inv rb ds fr q" and "rb_mode rb = RB_WRITEONLY" and "length q + length str < rb_size rb"
  shows "\<exists>rb' ds' fr'. rb_write rb ds fr str (length str) = Some (rb', ds', fr', ESUCCESS) \<and>
    rb_inv rb' ds' fr' (q @ str) \<and>
    (\<forall>i < 4. ds_byte ds' fr' (4 + i) = Some (le_bytes (rb_localEnd rb') ! i))"
  using rb_write_spec [OF assms] by blast

theorem ring_write_appends_witness:
  "\<exists>rb' ds' fr'. rb_write (demo_ring RB_WRITEONLY) demo_dspace demo_frames [1, 2, 3] 3 = Some (rb', ds', fr', ESUCCESS) \<and>
     rb_inv rb' ds' fr' [1, 2, 3]"
  using ring_write_appends [OF demo_ring_inv, of RB_WRITEONLY "[1, 2, 3]"]
  by (auto simp: demo_ring_def numeral_3_eq_3)

text \<open>
  If the message does not fit by the local copy of the start, the writer
  reads the shared start; when the reader has consumed \<open>k\<close> bytes the queue loses them, and the
  write succeeds exactly when the message fits then.  Otherwise \<open>ENOMEM\<close> is returned and no byte
  of the queue changes.
\<close>

theorem ring_write_full:
  assumes "rb_inv rb ds fr q" and "rb_mode rb = RB_WRITEONLY" and "rb_size rb \<le> length q + length str"
    and "k \<le> length q"
    and "\<forall>i < 4. ds_byte ds fr i = Some (le_bytes ((rb_localStart rb + k) mod rb_size rb) ! i)"
  shows "\<exists>rb' ds' fr'. if length q - k + length str < rb_size rb
    then rb_write rb ds fr str (length str) = Some (rb', ds', fr', ESUCCESS) \<and> rb_inv rb' ds' fr' (drop k q @ str)
    else rb_write rb ds fr str (length str) = Some (rb', ds', fr', ENOMEM) \<and> rb_inv rb' ds' fr' (drop k q)"
proof -
  define rb1 where "rb1 = rb\<lparr>rb_localStart := (rb_localStart rb + k) mod rb_size rb\<rparr>"
  from refresh_start [OF assms(1,2,4,5)] obtain d f where
    r: "rb_update_local_start rb ds fr = Some (rb1, d, f, ESUCCESS)" "rb_inv rb1 d f (drop k q)" by (auto simp: rb1_def)
  have i: "ds_inv ds fr" "rb_geometry rb ds (length q)" "ds_inv d f" "rb_geometry rb1 d (length (drop k q))"
    using assms(1) r(2) by (auto simp: rb_inv_def)
  have q: "length q < rb_size rb" "length q - k < rb_size rb1" "rb_size rb1 = rb_size rb" "rb_mode rb1 = RB_WRITEONLY"
    using i(2) assms(2) by (auto simp: rb_geometry_def rb1_def)
  have big: "length str > rb_remaining_size rb" using remaining_eq [OF i(1,2)] assms(3) q(1) by simp
  show ?thesis
  proof (cases "length q - k + length str < rb_size rb")
    case True
    from rb_write_spec [OF r(2) q(4), of str] True q(3) obtain rb' ds' fr' where
      w: "rb_write rb1 d f str (length str) = Some (rb', ds', fr', ESUCCESS)" "rb_inv rb' ds' fr' (drop k q @ str)" by auto
    have "\<not> length str > rb_remaining_size rb1" using remaining_eq [OF i(3,4)] True q(3) by simp
    then have "rb_write rb ds fr str (length str) = rb_write rb1 d f str (length str)"
      using big r(1) assms(2) q(4) by (simp add: rb_write_def)
    with True w show ?thesis by auto
  next
    case False
    then have "length str > rb_remaining_size rb1" using remaining_eq [OF i(3,4)] q(2,3) by simp
    with big r assms(2) False show ?thesis by (auto simp: rb_write_def)
  qed
qed

definition full_ring :: rb_buffer where
  "full_ring = \<lparr>rb_mode = RB_WRITEONLY, rb_localStart = 0, rb_localEnd = 0, rb_size = 8184\<rparr>"

definition full_frames :: frames where
  "full_frames = \<lparr>fr_supply = [], fr_bytes = (\<lambda>c. replicate REFOS_PAGE_SIZE 0),
     fr_mappable = (\<lambda>c. True), fr_device = (\<lambda>a. 0)\<rparr>"

definition full_dspace :: ram_dspace where
  "full_dspace = demo_dspace\<lparr>ds_pages := Some [21, 22]\<rparr>"

theorem ring_write_full_witness:
  "\<exists>rb' ds' fr'. rb_write full_ring full_dspace full_frames (replicate 9000 1) 9000 = Some (rb', ds', fr', ENOMEM)"
proof -
  have "pages full_dspace = [21, 22]" by (simp add: pages_def full_dspace_def)
  then have inv: "rb_inv full_ring full_dspace full_frames []"
    by (simp add: rb_inv_def rb_geometry_def ds_inv_def enough_def full_dspace_def demo_dspace_eq full_frames_def
        full_ring_def RINGBUFFER_METADATA_SIZE_def REFOS_PAGE_SIZE_def)
  have "\<forall>i < 4. ds_byte full_dspace full_frames i = Some (le_bytes 0 ! i)"
    using \<open>pages full_dspace = [21, 22]\<close>
    by (simp add: ds_byte_def le_bytes_def full_frames_def REFOS_PAGE_SIZE_def nth_Cons')
  then show ?thesis
    using ring_write_full [OF inv, of "replicate 9000 1" 0] by (auto simp: full_ring_def)
qed

text \<open>
  \<open>rb_read\<close> returns the first bytes of the queue, but it advances
  the local end together with the local start: after the read the queue is as long as before, so
  a later read returns bytes that nobody wrote.
\<close>

theorem ring_read_keeps_length:
  assumes "rb_inv rb ds fr q" and "rb_mode rb = RB_READONLY" and "len \<le> length q"
  shows "\<exists>rb' ds' fr'. rb_read rb ds fr len = Some (rb', ds', fr', take len q, ESUCCESS) \<and>
    rb_localStart rb' = (rb_localStart rb + len) mod rb_size rb \<and> rb_geometry rb' ds' (length q)"
  using rb_read_spec [OF assms] by blast

theorem ring_read_keeps_length_witness:
  "\<exists>rb ds fr rb' ds' fr'. rb_read rb ds fr 3 = Some (rb', ds', fr', [1, 2, 3], ESUCCESS) \<and> rb_geometry rb' ds' 3"
proof -
  from rb_write_spec [OF demo_ring_inv, of RB_WRITEONLY "[1, 2, 3]"] obtain rb ds fr where
    w: "rb_inv rb ds fr [1, 2, 3]" by (auto simp: demo_ring_def)
  then have "rb_inv (rb\<lparr>rb_mode := RB_READONLY\<rparr>) ds fr [1, 2, 3]"
    by (simp add: rb_inv_def rb_geometry_def rb_cell_def)
  from ring_read_keeps_length [OF this, of 3] show ?thesis
    by (simp add: numeral_3_eq_3) blast
qed

end
