(* ===== verification/Transfers.thy ===== *)
theory Transfers
  imports Ringbuffer
begin

text \<open>
  Transfers always return.  The round-trip theorems of \<open>Dataspace\<close> and \<open>Ringbuffer\<close> assume enough
  frames; here only the shape of the page array is assumed, device pages included, and a transfer
  ends with a result or an error and changes nothing of the dataspace but its frames.
\<close>

section \<open>Shape of a dataspace\<close>

definition shape_ok :: "ram_dspace \<Rightarrow> bool" where
  "shape_ok d \<longleftrightarrow> ds_pages d = Some (pages d) \<and> length (pages d) = ds_npages d \<and> ds_npages d < 2 ^ 20"

definition frames_ok :: "frames \<Rightarrow> bool" where
  "frames_ok fr \<longleftrightarrow> (\<forall>c. length (fr_bytes fr c) = REFOS_PAGE_SIZE)"

definition like_dspace :: "ram_dspace \<Rightarrow> ram_dspace \<Rightarrow> bool" where
  "like_dspace d e \<longleftrightarrow> e = d\<lparr>ds_pages := ds_pages e\<rparr> \<and> shape_ok e"

lemma shape_ok_other [simp]:
  "shape_ok (d\<lparr>ds_ref := n\<rparr>) = shape_ok d" "shape_ok (d\<lparr>ds_contentInitWaitingList := v\<rparr>) = shape_ok d"
  "shape_ok (d\<lparr>ds_contentInitBitmask := b\<rparr>) = shape_ok d" "shape_ok (d\<lparr>ds_contentInitEnabled := x\<rparr>) = shape_ok d"
  "shape_ok (d\<lparr>ds_contentInitEP := c\<rparr>) = shape_ok d" "shape_ok (d\<lparr>ds_contentInitPID := p\<rparr>) = shape_ok d"
  "shape_ok (d\<lparr>ds_physicalAddrEnabled := x\<rparr>) = shape_ok d" "shape_ok (d\<lparr>ds_physicalAddr := a\<rparr>) = shape_ok d"
  by (simp_all add: shape_ok_def pages_def)

lemma shape_ok_pages: "shape_ok d \<Longrightarrow> ds_pages d = Some (pages d)"
  by (simp add: shape_ok_def)

lemma like_dspace_refl: "shape_ok d \<Longrightarrow> like_dspace d d"
  by (simp add: like_dspace_def)

lemma like_dspace_trans: "like_dspace d e \<Longrightarrow> like_dspace e f \<Longrightarrow> like_dspace d f"
proof -
  assume a: "like_dspace d e" "like_dspace e f"
  then have e: "e = d\<lparr>ds_pages := ds_pages e\<rparr>" and f: "f = e\<lparr>ds_pages := ds_pages f\<rparr>" "shape_ok f"
    by (auto simp: like_dspace_def)
  have "f = d\<lparr>ds_pages := ds_pages f\<rparr>" by (subst f(1), subst e) simp
  with f(2) show ?thesis by (simp add: like_dspace_def)
qed

lemma like_dspace_npages: "like_dspace d e \<Longrightarrow> ds_npages e = ds_npages d"
  unfolding like_dspace_def by (metis ram_dspace.select_convs(5) ram_dspace.surjective ram_dspace.update_convs(4))

lemma get_page_total:
  assumes ok: "shape_ok d" and fr: "frames_ok fr"
  shows "\<exists>e fr' c. ram_dspace_get_page d fr off = Some (e, fr', c) \<and> like_dspace d e \<and> frames_ok fr' \<and>
    (ram_dspace_get_index off \<ge> ds_npages d \<longrightarrow> c = 0)"
proof (cases "ram_dspace_get_index off < ds_npages d")
  case False
  with ok fr show ?thesis by (simp add: ram_dspace_get_page_def like_dspace_refl)
next
  case True
  let ?i = "ram_dspace_get_index off"
  have rd: "rd_page d ?i = Some (pages d ! ?i)" using ok True by (simp add: rd_page_def shape_ok_def)
  have wr: "\<exists>e. wr_page d ?i c = Some e \<and> like_dspace d e" for c
    using ok True by (intro exI [of _ "d\<lparr>ds_pages := Some ((pages d)[?i := c])\<rparr>"])
      (simp add: wr_page_def shape_ok_def like_dspace_def, simp add: pages_def)
  have fr': "frames_ok (fst (vka_alloc_frame fr))"
    using fr by (simp add: vka_alloc_frame_def frames_ok_def split: list.splits)
  show ?thesis
  proof (cases "pages d ! ?i = 0")
    case False
    with rd True ok fr show ?thesis by (simp add: ram_dspace_get_page_def Let_def like_dspace_refl)
  next
    case zero: True
    show ?thesis
    proof (cases "ds_physicalAddrEnabled d")
      case phys: True
      let ?c = "fr_device fr (u32 (ds_physicalAddr d + ?i * REFOS_PAGE_SIZE))"
      from wr [of ?c] obtain e where "wr_page d ?i ?c = Some e" "like_dspace d e" by blast
      then show ?thesis using rd zero phys True ok fr
        by (cases "?c = 0") (simp_all add: ram_dspace_get_page_def Let_def like_dspace_refl)
    next
      case False
      obtain g c where g: "vka_alloc_frame fr = (g, c)" by fastforce
      from wr [of c] obtain e where "wr_page d ?i c = Some e" "like_dspace d e" by blast
      then show ?thesis using rd zero False True ok fr' g
        by (cases "c = 0") (simp_all add: ram_dspace_get_page_def Let_def like_dspace_refl)
    qed
  qed
qed

lemma write_page_total:
  assumes "shape_ok d" "frames_ok fr" 
    and len: "ram_dspace_get_index off < ds_npages d \<Longrightarrow> cap_len len off \<le> length buf"
  shows "\<exists>e fr' err. ram_dspace_write_page buf len d fr off = Some (e, fr', err) \<and> like_dspace d e \<and> frames_ok fr' \<and>
    (ram_dspace_get_index off \<ge> ds_npages d \<longrightarrow> err \<noteq> ESUCCESS)"
proof -
  from get_page_total [OF assms(1,2), of off] obtain e g c where
    g: "ram_dspace_get_page d fr off = Some (e, g, c)" "like_dspace d e" "frames_ok g"
    "ram_dspace_get_index off \<ge> ds_npages d \<longrightarrow> c = 0" by blast
  let ?skip = "off - REFOS_PAGE_ALIGN off"
  have sk: "?skip < REFOS_PAGE_SIZE"
    by (simp add: REFOS_PAGE_ALIGN_def REFOS_PAGE_SIZE_def minus_mod_eq_mult_div [symmetric])
  have cl: "?skip + cap_len len off \<le> REFOS_PAGE_SIZE"
    using sk by (auto simp: cap_len_def Let_def)
  have "\<exists>h err. procserv_frame_write g c buf (cap_len len off) ?skip = Some (h, err) \<and> frames_ok h"
    if "ram_dspace_get_index off < ds_npages d"
    using cl g(3) len [OF that] by (auto simp: procserv_frame_write_def frames_ok_def Let_def)
  with g show ?thesis
    by (cases "c = 0"; cases "ram_dspace_get_index off < ds_npages d") (auto simp: ram_dspace_write_page_def)
qed

lemma read_page_total:
  assumes "shape_ok d" "frames_ok fr"
  shows "\<exists>e fr' bs err. ram_dspace_read_page len d fr off = Some (e, fr', bs, err) \<and> like_dspace d e \<and> frames_ok fr' \<and>
    (ram_dspace_get_index off \<ge> ds_npages d \<longrightarrow> err \<noteq> ESUCCESS)"
proof -
  from get_page_total [OF assms(1,2), of off] obtain e g c where
    g: "ram_dspace_get_page d fr off = Some (e, g, c)" "like_dspace d e" "frames_ok g"
    "ram_dspace_get_index off \<ge> ds_npages d \<longrightarrow> c = 0" by blast
  let ?skip = "off - REFOS_PAGE_ALIGN off"
  have sk: "?skip < REFOS_PAGE_SIZE"
    by (simp add: REFOS_PAGE_ALIGN_def REFOS_PAGE_SIZE_def minus_mod_eq_mult_div [symmetric])
  have cl: "?skip + cap_len len off \<le> REFOS_PAGE_SIZE"
    using sk by (auto simp: cap_len_def Let_def)
  have "\<exists>bs err. procserv_frame_read g c (cap_len len off) ?skip = Some (bs, err)"
    using cl g(3) by (auto simp: procserv_frame_read_def frames_ok_def Let_def)
  with g show ?thesis by (cases "c = 0") (auto simp: ram_dspace_read_page_def)
qed

text \<open>Outside the last page of the address space the end of the page is behind the start.\<close>

lemma page_end_step:
  assumes "start < stop" and "ram_dspace_get_index start < n" and "n < 2 ^ 20"
  shows "start < page_end start stop" "page_end start stop \<le> stop"
    "cap_len (u32i (int (page_end start stop) - int start)) start \<le> page_end start stop - start"
proof -
  have "start div REFOS_PAGE_SIZE + 2 \<le> 1048576" using assms(2,3) by (simp add: ram_dspace_get_index_def)
  moreover have a: "REFOS_PAGE_ALIGN start = start div REFOS_PAGE_SIZE * REFOS_PAGE_SIZE"
    by (simp add: page_align_div mult.commute)
  ultimately have small: "REFOS_PAGE_ALIGN start + REFOS_PAGE_SIZE < 4294967296"
    by (simp add: REFOS_PAGE_SIZE_def)
  then have e: "page_end start stop = min (REFOS_PAGE_ALIGN start + REFOS_PAGE_SIZE) stop"
    by (simp add: page_end_def)
  show lt: "start < page_end start stop" "page_end start stop \<le> stop"
    using assms(1) page_align_bounds(2) [of start] by (auto simp: e)
  have "u32i (int (page_end start stop) - int start) = page_end start stop - start"
    using lt small e u32i_of_nat [of "page_end start stop - start"] by (simp add: of_nat_diff)
  then show "cap_len (u32i (int (page_end start stop) - int start)) start \<le> page_end start stop - start"
    by (auto simp: cap_len_def Let_def)
qed

lemma write_loop_total:
  "shape_ok d \<Longrightarrow> frames_ok fr \<Longrightarrow> stop - start \<le> length buf \<Longrightarrow>
   \<exists>e fr' err. ram_dspace_write_loop stop start buf d fr = Some (e, fr', err) \<and> like_dspace d e \<and> frames_ok fr'"
proof (induction stop start buf d fr rule: ram_dspace_write_loop.induct)
  case (1 stop start buf d fr)
  show ?case
  proof (cases "start < stop")
    case False
    then show ?thesis using 1(2,3)
      by (simp add: ram_dspace_write_loop.simps [of stop start] like_dspace_refl)
  next
    case True
    let ?e = "page_end start stop"
    let ?len = "u32i (int ?e - int start)"
    have npages: "ds_npages d < 2 ^ 20" using 1(2) by (simp add: shape_ok_def)
    have step: "start < ?e" "?e \<le> stop" "cap_len ?len start \<le> ?e - start"
      if "ram_dspace_get_index start < ds_npages d"
      using page_end_step [OF True that npages] by auto
    have "cap_len ?len start \<le> length buf" if "ram_dspace_get_index start < ds_npages d"
      using step [OF that] 1(4) by linarith
    from write_page_total [OF 1(2,3), of start ?len buf, OF this] obtain d1 f1 err where
      w: "ram_dspace_write_page buf ?len d fr start = Some (d1, f1, err)" "like_dspace d d1" "frames_ok f1"
      "ram_dspace_get_index start \<ge> ds_npages d \<longrightarrow> err \<noteq> ESUCCESS" by blast
    show ?thesis
    proof (cases "err = ESUCCESS")
      case False
      with w True show ?thesis by (simp add: ram_dspace_write_loop.simps [of stop start] Let_def)
    next
      case ok: True
      with w(4) have i: "ram_dspace_get_index start < ds_npages d" by linarith
      note st = step [OF i]
      have "shape_ok d1" using w(2) by (simp add: like_dspace_def)
      moreover have "stop - ?e \<le> length (drop (?e - start) buf)" using 1(4) st by simp
      ultimately obtain e f' err' where
        "ram_dspace_write_loop stop ?e (drop (?e - start) buf) d1 f1 = Some (e, f', err')" "like_dspace d1 e" "frames_ok f'"
        using 1(1) [OF True refl w(1) refl refl] w(3) ok st(1) by auto
      with w(1) ok st(1) True like_dspace_trans [OF w(2)] show ?thesis
        by (simp add: ram_dspace_write_loop.simps [of stop start] Let_def)
    qed
  qed
qed

lemma read_loop_total:
  "shape_ok d \<Longrightarrow> frames_ok fr \<Longrightarrow>
   \<exists>e fr' bs err. ram_dspace_read_loop stop start d fr acc = Some (e, fr', bs, err) \<and> like_dspace d e \<and> frames_ok fr'"
proof (induction stop start d fr acc rule: ram_dspace_read_loop.induct)
  case (1 stop start d fr acc)
  show ?case
  proof (cases "start < stop")
    case False
    then show ?thesis using 1(2,3)
      by (simp add: ram_dspace_read_loop.simps [of stop start] like_dspace_refl)
  next
    case True
    let ?e = "page_end start stop"
    let ?len = "u32i (int ?e - int start)"
    have npages: "ds_npages d < 2 ^ 20" using 1(2) by (simp add: shape_ok_def)
    from read_page_total [OF 1(2,3), of ?len start] obtain d1 f1 bs err where
      w: "ram_dspace_read_page ?len d fr start = Some (d1, f1, bs, err)" "like_dspace d d1" "frames_ok f1"
      "ram_dspace_get_index start \<ge> ds_npages d \<longrightarrow> err \<noteq> ESUCCESS" by blast
    show ?thesis
    proof (cases "err = ESUCCESS")
      case False
      with w True show ?thesis by (simp add: ram_dspace_read_loop.simps [of stop start] Let_def)
    next
      case ok: True
      with w(4) have i: "ram_dspace_get_index start < ds_npages d" by linarith
      note st = page_end_step [OF True i npages]
      have "shape_ok d1" using w(2) by (simp add: like_dspace_def)
      then obtain e f' bs' err' where
        "ram_dspace_read_loop stop ?e d1 f1 (acc @ bs) = Some (e, f', bs', err')" "like_dspace d1 e" "frames_ok f'"
        using 1(1) [OF True refl w(1) refl refl refl] w(3) ok st(1) by auto
      with w(1) ok st(1) True like_dspace_trans [OF w(2)] show ?thesis
        by (simp add: ram_dspace_read_loop.simps [of stop start] Let_def)
    qed
  qed
qed

lemma write_total:
  assumes "shape_ok d" "frames_ok fr" "len \<le> length buf"
  shows "\<exists>e fr' err. ram_dspace_write buf len d fr off = Some (e, fr', err) \<and> like_dspace d e \<and> frames_ok fr'"
proof -
  have "u32 (off + len) - off \<le> length buf" using assms(3) mod_less_eq_dividend [of "off + len" "2 ^ 32"]
    unfolding u32_def by linarith
  with write_loop_total [OF assms(1,2), of "u32 (off + len)" off buf] assms like_dspace_refl show ?thesis
    by (simp add: ram_dspace_write_def)
qed

lemma read_total:
  assumes "shape_ok d" "frames_ok fr"
  shows "\<exists>e fr' bs err. ram_dspace_read len d fr off = Some (e, fr', bs, err) \<and> like_dspace d e \<and> frames_ok fr'"
  using read_loop_total [OF assms, of "u32 (off + len)" off "[]"] assms like_dspace_refl
  by (simp add: ram_dspace_read_def)

text \<open>
  A write to a ring of nonzero size returns, with the ring's mode and size unchanged, whatever the
  shared memory holds.
\<close>

lemma rb_write_data_total:
  assumes "shape_ok d" "frames_ok fr" "len \<le> length str"
  shows "\<exists>e fr' err. rb_write_data rb d fr str len = Some (e, fr', err) \<and> like_dspace d e \<and> frames_ok fr'"
proof (cases "rb_localEnd rb < rb_localStart rb")
  case True
  with write_total [OF assms] show ?thesis by (simp add: rb_write_data_def)
next
  case False
  define n where "n = min len (u32i (int (rb_size rb) - int (rb_localEnd rb)))"
  let ?off = "u32 (rb_localEnd rb + RINGBUFFER_METADATA_SIZE)"
  have n: "n \<le> len" by (simp add: n_def)
  have "n \<le> length str" using n assms(3) by simp
  from write_total [OF assms(1,2) this, of ?off] obtain d1 f1 err where
    w: "ram_dspace_write str n d fr ?off = Some (d1, f1, err)" "like_dspace d d1" "frames_ok f1" by blast
  have "shape_ok d1" "len - n \<le> length (drop n str)" using w(2) assms(3) by (auto simp: like_dspace_def)
  with write_total [of d1 f1 "len - n" "drop n str" RINGBUFFER_METADATA_SIZE] w(3) obtain d2 f2 err2 where
    w2: "ram_dspace_write (drop n str) (len - n) d1 f1 RINGBUFFER_METADATA_SIZE = Some (d2, f2, err2)"
    "like_dspace d1 d2" "frames_ok f2" by blast
  show ?thesis
    unfolding rb_write_data_def Let_def n_def [symmetric]
    using False n w w2 like_dspace_trans [OF w(2) w2(2)]
    by (cases "err = ESUCCESS"; cases "n < len") simp_all
qed

lemma rb_write_total:
  assumes "shape_ok d" "frames_ok fr" "len \<le> length str" "rb_size rb \<noteq> 0"
  shows "\<exists>rb' e fr' err. rb_write rb d fr str len = Some (rb', e, fr', err) \<and> like_dspace d e \<and> frames_ok fr' \<and>
    rb_size rb' = rb_size rb \<and> rb_mode rb' = rb_mode rb"
proof (cases "rb_mode rb = RB_WRITEONLY")
  case False
  with assms show ?thesis by (simp add: rb_write_def like_dspace_refl)
next
  case True
  obtain r1 d1 f1 e1 where a: "(if len > rb_remaining_size rb then do {
             (buf, ds, fr, err) \<leftarrow> rb_update_local_start rb d fr;
             Some (buf, ds, fr, if err \<noteq> ESUCCESS then EINVALID
               else if len > rb_remaining_size buf then ENOMEM else ESUCCESS)
           }
           else Some (rb, d, fr, ESUCCESS)) = Some (r1, d1, f1, e1)" "like_dspace d d1" "frames_ok f1"
    "rb_size r1 = rb_size rb" "rb_mode r1 = RB_WRITEONLY"
  proof (cases "len > rb_remaining_size rb")
    case False
    with that [of rb d fr ESUCCESS] assms True show ?thesis by (simp add: like_dspace_refl)
  next
    case full: True
    from read_total [OF assms(1,2), of 4 0] obtain d1 f1 bs err where
      r: "ram_dspace_read 4 d fr 0 = Some (d1, f1, bs, err)" "like_dspace d d1" "frames_ok f1" by blast
    let ?r = "if err = ESUCCESS then rb\<lparr>rb_localStart := le_value bs\<rparr> else rb"
    show ?thesis
      by (rule that [of ?r d1 f1 "if err \<noteq> ESUCCESS then EINVALID
               else if len > rb_remaining_size ?r then ENOMEM else ESUCCESS"])
        (use full r True in \<open>auto simp: rb_update_local_start_def\<close>)
  qed
  show ?thesis
  proof (cases "e1 = ESUCCESS")
    case False
    with a True show ?thesis unfolding rb_write_def by auto
  next
    case ok: True
    have "shape_ok d1" using a(2) by (simp add: like_dspace_def)
    from rb_write_data_total [OF this a(3) assms(3), of r1] obtain d2 f2 e2 where
      b: "rb_write_data r1 d1 f1 str len = Some (d2, f2, e2)" "like_dspace d1 d2" "frames_ok f2" by blast
    note l2 = like_dspace_trans [OF a(2) b(2)]
    let ?r2 = "r1\<lparr>rb_localEnd := u32 (rb_localEnd r1 + len) mod rb_size r1\<rparr>"
    have "shape_ok d2" using b(2) by (simp add: like_dspace_def)
    with write_total [of d2 f2 4 "le_bytes (rb_localEnd ?r2)" 4] b(3) obtain d3 f3 e3 where
      c: "ram_dspace_write (le_bytes (rb_localEnd ?r2)) 4 d2 f2 4 = Some (d3, f3, e3)" "like_dspace d2 d3" "frames_ok f3"
      by auto
    have c': "rb_update_local_end ?r2 d2 f2 = Some (?r2, d3, f3, e3)"
      using c(1) a(5) by (simp add: rb_update_local_end_def)
    show ?thesis
    proof (cases "e2 = ESUCCESS")
      case False
      with a b ok True l2 show ?thesis unfolding rb_write_def by auto
    next
      case e2: True
      have "rb_write rb d fr str len = Some (?r2, d3, f3, e3)"
        unfolding rb_write_def a(1) using True ok b(1) e2 c' a(4) assms(4) by simp
      with like_dspace_trans [OF l2 c(2)] c(3) a(4,5) True show ?thesis by auto
    qed
  qed
qed

text \<open>
  C37 (transfers end).  Reading and writing a dataspace and writing to a ring buffer always return, with
  success or with an error, whatever frames are left and whatever the shared memory holds: the
  loops over the pages end, no assertion fails and no access is out of bounds.  Of the dataspace only the frames behind
  its pages change; their number, its references and its content initialisation stay.
\<close>

theorem transfers_return:
  assumes "shape_ok d" and "frames_ok fr" and "len \<le> length buf" and "rb_size rb \<noteq> 0"
  shows "(\<exists>e fr' bs err. ram_dspace_read n d fr off = Some (e, fr', bs, err) \<and> like_dspace d e \<and> frames_ok fr') \<and>
    (\<exists>e fr' err. ram_dspace_write buf len d fr off = Some (e, fr', err) \<and> like_dspace d e \<and> frames_ok fr') \<and>
    (\<exists>rb' e fr' err. rb_write rb d fr buf len = Some (rb', e, fr', err) \<and> like_dspace d e \<and> frames_ok fr' \<and>
       rb_size rb' = rb_size rb \<and> rb_mode rb' = rb_mode rb)"
  using read_total [OF assms(1,2), of n off] write_total [OF assms(1-3), of off]
    rb_write_total [OF assms] by simp

text \<open>A dataspace of one page without any frame left: the transfers return an error.\<close>

theorem transfers_return_witness:
  "\<exists>e fr' err. ram_dspace_write [1, 2] 2 (demo_dspace\<lparr>ds_pages := Some [0], ds_npages := 1\<rparr>)
     (demo_frames\<lparr>fr_supply := []\<rparr>) 4095 = Some (e, fr', err)"
  using transfers_return [of "demo_dspace\<lparr>ds_pages := Some [0], ds_npages := 1\<rparr>" "demo_frames\<lparr>fr_supply := []\<rparr>"
      2 "[1, 2]" "demo_ring RB_WRITEONLY" 0 4095]
  by (auto simp: shape_ok_def frames_ok_def pages_def demo_frames_def demo_ring_def)

end
