(* ===== verification/Pagedir.thy ===== *)
theory Pagedir
  imports Cpool Refos
begin

text \<open>
  \<open>process_server/src/system/addrspace/pagedir.c\<close>: the pool of kernel page directories and root
  CNodes that the process server allocates at start-up and lends to address spaces.  Capabilities are
  numbers, 0 is the null capability.  The results of the kernel object allocations are arguments; the
  capability operations of a release are returned as a list.
\<close>

section \<open>Model\<close>

definition PD_ID_BASE :: nat where "PD_ID_BASE = 1"
definition PD_MAX :: nat where "PD_MAX = 64"

record pd_list =
  pd_pool :: cpool
  pd_pd :: "nat list"
  pd_cnode :: "nat list"

definition pd_init :: "(nat \<Rightarrow> nat option) \<Rightarrow> (nat \<Rightarrow> nat option) \<Rightarrow> pd_list option" where
  "pd_init alloc_pd alloc_cnode =
     for_each [0..<PD_MAX]
       (\<lambda>i l. do {
          p \<leftarrow> alloc_pd i;
          c_assert (p \<noteq> 0);
          c \<leftarrow> alloc_cnode i;
          c_assert (c \<noteq> 0);
          pds \<leftarrow> wr (pd_pd l) i p;
          cns \<leftarrow> wr (pd_cnode l) i c;
          Some (l\<lparr>pd_pd := pds, pd_cnode := cns\<rparr>)
        })
       \<lparr>pd_pool = cpool_init PD_ID_BASE (PD_ID_BASE + PD_MAX), pd_pd = replicate PD_MAX 0,
        pd_cnode = replicate PD_MAX 0\<rparr>"

definition pd_assign :: "(nat \<Rightarrow> bool) \<Rightarrow> pd_list \<Rightarrow> (pd_list \<times> nat \<times> nat) option" where
  "pd_assign mem l = do {
     (pool, pdID) \<leftarrow> cpool_alloc mem (pd_pool l);
     let l = l\<lparr>pd_pool := pool\<rparr>;
     if pdID = 0 then Some (l, 0, 0)
     else do {
       p \<leftarrow> rd (pd_pd l) (pdID - 1);
       c \<leftarrow> rd (pd_cnode l) (pdID - 1);
       Some (l, p, c)
     }
   }"

text \<open>
  The calls on the kernel and its support libraries that the models record: operations on
  capabilities (a copy and a mint name source and destination, a mint also the badge), replies, and
  the set-up and tear-down of threads and address spaces.
\<close>

datatype cap_call = Cap_Revoke nat | Cap_Delete nat | Object_Free nat | Cap_Send nat | Cap_Copy nat nat | Reply_Caller
  | Cap_Mint nat nat nat | Reply_Status nat int | Thread_Start nat | Thread_Cleanup nat | Thread_Priority nat nat
  | Thread_Suspend nat | Thread_Resume nat | Vspace_Teardown nat

text \<open>\<open>cnode\<close> is the replacement for the root CNode, \<open>None\<close> if the allocation fails.\<close>

definition pd_free ::
  "(nat \<Rightarrow> bool) \<Rightarrow> nat option \<Rightarrow> pd_list \<Rightarrow> nat \<Rightarrow> (pd_list \<times> cap_call list) option" where
  "pd_free mem cnode l pdPtr = do {
     idx \<leftarrow> for_find (rd (pd_pd l)) (\<lambda>c. c = pdPtr) 0 PD_MAX;
     (case idx of
        None \<Rightarrow> Some (l, [])
      | Some idx \<Rightarrow> do {
          isfree \<leftarrow> cpool_check (pd_pool l) (idx + 1);
          if isfree then Some (l, [])
          else do {
            c \<leftarrow> rd (pd_cnode l) idx;
            let calls = [Cap_Revoke pdPtr, Cap_Revoke c, Cap_Delete c, Object_Free c];
            (case cnode of
               None \<Rightarrow> Some (l, calls)
             | Some c' \<Rightarrow> do {
                 cns \<leftarrow> wr (pd_cnode l) idx c';
                 pool \<leftarrow> cpool_free mem (pd_pool l) (idx + 1);
                 Some (l\<lparr>pd_cnode := cns, pd_pool := pool\<rparr>, calls)
               })
          }
        })
   }"

section \<open>Invariant\<close>

definition pd_live :: "pd_list \<Rightarrow> nat set" where
  "pd_live l = {i. Suc i \<in> cp_live (pd_pool l)}"

definition pd_inv :: "pd_list \<Rightarrow> bool" where
  "pd_inv l \<longleftrightarrow> cp_inv (pd_pool l) \<and> cp_range (pd_pool l) = {1..Suc PD_MAX} \<and>
     cp_mx (pd_pool l) \<le> Suc PD_MAX \<and> length (pd_pd l) = PD_MAX \<and> length (pd_cnode l) = PD_MAX \<and>
     distinct (pd_pd l) \<and> 0 \<notin> set (pd_pd l) \<and> 0 \<notin> set (pd_cnode l)"

lemma pd_init_loop:
  assumes "\<And>i. i < PD_MAX \<Longrightarrow> \<exists>p c. alloc_pd i = Some p \<and> alloc_cnode i = Some c \<and> p \<noteq> 0 \<and> c \<noteq> 0"
    and "n \<le> PD_MAX"
  shows "for_each [0..<n] (\<lambda>i l. do {
          p \<leftarrow> alloc_pd i;
          c_assert (p \<noteq> 0);
          c \<leftarrow> alloc_cnode i;
          c_assert (c \<noteq> 0);
          pds \<leftarrow> wr (pd_pd l) i p;
          cns \<leftarrow> wr (pd_cnode l) i c;
          Some (l\<lparr>pd_pd := pds, pd_cnode := cns\<rparr>)
        }) \<lparr>pd_pool = pool, pd_pd = replicate PD_MAX 0, pd_cnode = replicate PD_MAX 0\<rparr> =
     Some \<lparr>pd_pool = pool, pd_pd = map (the \<circ> alloc_pd) [0..<n] @ replicate (PD_MAX - n) 0,
        pd_cnode = map (the \<circ> alloc_cnode) [0..<n] @ replicate (PD_MAX - n) 0\<rparr>"
  using assms(2)
proof (induction n)
  case 0
  then show ?case by simp
next
  case (Suc n)
  from assms(1) [of n] Suc.prems obtain p c where
    pc: "alloc_pd n = Some p" "alloc_cnode n = Some c" "p \<noteq> 0" "c \<noteq> 0" by auto
  have upd: "(map f [0..<n] @ replicate (PD_MAX - n) 0)[n := x] = map f [0..<n] @ x # replicate (PD_MAX - Suc n) 0"
    for f :: "nat \<Rightarrow> nat" and x
    using Suc.prems by (simp add: list_update_append Suc_diff_Suc [symmetric])
  from Suc pc show ?case by (simp add: for_each_append upd)
qed

lemma pd_init_inv:
  assumes "\<And>i. i < PD_MAX \<Longrightarrow> \<exists>p c. alloc_pd i = Some p \<and> alloc_cnode i = Some c \<and> p \<noteq> 0 \<and> c \<noteq> 0"
    and "inj_on alloc_pd {..<PD_MAX}"
  shows "\<exists>l. pd_init alloc_pd alloc_cnode = Some l \<and> pd_inv l \<and> pd_live l = {}"
proof -
  let ?l = "\<lparr>pd_pool = cpool_init PD_ID_BASE (PD_ID_BASE + PD_MAX), pd_pd = map (the \<circ> alloc_pd) [0..<PD_MAX],
    pd_cnode = map (the \<circ> alloc_cnode) [0..<PD_MAX]\<rparr>"
  have "inj_on (the \<circ> alloc_pd) {..<PD_MAX}"
  proof (rule inj_onI)
    fix i j assume ij: "i \<in> {..<PD_MAX}" "j \<in> {..<PD_MAX}" "(the \<circ> alloc_pd) i = (the \<circ> alloc_pd) j"
    then obtain p q where "alloc_pd i = Some p" "alloc_pd j = Some q"
      using assms(1) [of i] assms(1) [of j] by auto
    with ij have "alloc_pd i = alloc_pd j" by simp
    then show "i = j" using inj_onD [OF assms(2)] ij by blast
  qed
  then have "distinct (map (the \<circ> alloc_pd) [0..<PD_MAX])"
    by (simp add: distinct_map atLeast0LessThan)
  moreover have "the (alloc_pd i) \<noteq> 0 \<and> the (alloc_cnode i) \<noteq> 0" if "i < PD_MAX" for i
    using assms(1) [OF that] by auto
  moreover have "cp_mx (cpool_init PD_ID_BASE (PD_ID_BASE + PD_MAX)) = 1"
    by (simp add: cpool_init_def PD_ID_BASE_def)
  ultimately have "pd_inv ?l \<and> pd_live ?l = {}"
    using cpool_init_inv [of PD_ID_BASE "PD_ID_BASE + PD_MAX"]
    by (force simp: pd_inv_def pd_live_def PD_ID_BASE_def PD_MAX_def)
  moreover have "pd_init alloc_pd alloc_cnode = Some ?l"
    unfolding pd_init_def using pd_init_loop [OF assms(1) order_refl] by simp
  ultimately show ?thesis by blast
qed

lemma pd_live_less: "pd_inv l \<Longrightarrow> pd_live l \<subseteq> {..<PD_MAX}"
  by (auto simp: pd_inv_def pd_live_def cp_live_def)

lemma pd_assign_free_one:
  assumes inv: "pd_inv l" and room: "pd_live l \<noteq> {..<PD_MAX}"
  shows "\<exists>l' i. pd_assign heap_ok l = Some (l', pd_pd l ! i, pd_cnode l ! i) \<and> i < PD_MAX \<and>
    i \<notin> pd_live l \<and> pd_inv l' \<and> pd_live l' = insert i (pd_live l) \<and> pd_pd l' = pd_pd l \<and>
    pd_cnode l' = pd_cnode l"
proof -
  let ?p = "pd_pool l"
  have cp: "cp_inv ?p" and rng: "cp_range ?p = {1..Suc PD_MAX}" and mx: "cp_mx ?p \<le> Suc PD_MAX"
    and len: "length (pd_pd l) = PD_MAX" "length (pd_cnode l) = PD_MAX"
    using inv by (simp_all add: pd_inv_def)
  have se: "cp_start ?p = 1" "cp_end ?p = Suc PD_MAX" using rng by (auto simp: cp_range_def Icc_eq_Icc)
  have fin: ?thesis if al: "cpool_alloc heap_ok ?p = Some (q, x)" "cp_inv q" "cp_live q = insert x (cp_live ?p)"
      "cp_range q = cp_range ?p" "cp_mx q \<le> Suc PD_MAX" "x \<noteq> 0" "x \<le> PD_MAX" "x \<notin> cp_live ?p" for q x
  proof (intro exI conjI)
    let ?l = "l\<lparr>pd_pool := q\<rparr>"
    show "pd_assign heap_ok l = Some (?l, pd_pd l ! (x - 1), pd_cnode l ! (x - 1))"
      using al len by (auto simp: pd_assign_def)
    show "pd_inv ?l" using inv al by (simp add: pd_inv_def)
    show "pd_live ?l = insert (x - 1) (pd_live l)" "x - 1 \<notin> pd_live l"
      using al by (auto simp: pd_live_def)
  qed (use al in auto)
  from cp show ?thesis
  proof (cases rule: cpool_alloc_cases)
    case (recycle xs x q)
    have "x \<in> {cp_start ?p..<cp_mx ?p}" "x \<notin> cp_live ?p"
      using cp recycle(1) by (auto simp: cp_inv_def cp_live_def)
    moreover have "cp_mx q = cp_mx ?p"
      using cpool_alloc_recycle [OF cp recycle(1)] recycle(2) by auto
    ultimately show ?thesis using fin [OF recycle(2-5)] mx se by auto
  next
    case (fresh q)
    have "cp_mx ?p \<noteq> Suc PD_MAX"
    proof
      assume "cp_mx ?p = Suc PD_MAX"
      then have "pd_live l = {..<PD_MAX}" using fresh(2) se by (auto simp: pd_live_def cp_live_def)
      with room show False by simp
    qed
    moreover have "cp_mx q = Suc (cp_mx ?p)"
      using fresh(1-3) cp mx by (auto simp: cpool_alloc_def cvector_count_list cp_inv_def PD_MAX_def)
    ultimately show ?thesis using fin [OF fresh(3-6)] mx cp se by (auto simp: cp_inv_def cp_live_def)
  next
    case full
    then have "Suc PD_MAX \<in> cp_live ?p" using rng by simp
    with mx show ?thesis by (simp add: cp_live_def)
  qed
qed

lemma pd_free_one:
  assumes inv: "pd_inv l" and i: "i \<in> pd_live l" and c: "c \<noteq> 0"
  shows "\<exists>l'. pd_free heap_ok (Some c) l (pd_pd l ! i) =
      Some (l', [Cap_Revoke (pd_pd l ! i), Cap_Revoke (pd_cnode l ! i), Cap_Delete (pd_cnode l ! i),
        Object_Free (pd_cnode l ! i)]) \<and>
    pd_inv l' \<and> pd_live l' = pd_live l - {i} \<and> pd_pd l' = pd_pd l \<and> pd_cnode l' = (pd_cnode l)[i := c]"
proof -
  have cp: "cp_inv (pd_pool l)" and len: "length (pd_pd l) = PD_MAX" "length (pd_cnode l) = PD_MAX"
    and dis: "distinct (pd_pd l)" using inv by (simp_all add: pd_inv_def)
  have live: "Suc i \<in> cp_live (pd_pool l)" and ilt: "i < PD_MAX"
    using i pd_live_less [OF inv] by (auto simp: pd_live_def)
  have find: "for_find (rd (pd_pd l)) (\<lambda>x. x = pd_pd l ! i) 0 PD_MAX = Some (Some i)"
  proof (rule for_find_cases [of PD_MAX "rd (pd_pd l)" "pd_pd l" "\<lambda>x. x = pd_pd l ! i"])
    show "rd (pd_pd l) k = Some (pd_pd l ! k)" if "k < PD_MAX" for k using that len by simp
  next
    fix j assume "for_find (rd (pd_pd l)) (\<lambda>x. x = pd_pd l ! i) 0 PD_MAX = Some (Some j)" "j < PD_MAX"
      "pd_pd l ! j = pd_pd l ! i"
    with dis ilt len show ?thesis by (simp add: nth_eq_iff_index_eq)
  qed (use ilt in blast)
  from cp.free_live [OF cp live] obtain q where
    q: "cpool_free heap_ok (pd_pool l) (Suc i) = Some q" "cp_inv q" "cp_range q = cp_range (pd_pool l)"
      "cp_live q = cp_live (pd_pool l) - {Suc i}" by blast
  let ?l = "l\<lparr>pd_cnode := (pd_cnode l)[i := c], pd_pool := q\<rparr>"
  have "pd_inv ?l"
    using inv q cpool_free_keeps_mx [OF q(1)] c set_update_subset_insert [of "pd_cnode l" i c]
    by (auto simp: pd_inv_def)
  moreover have "pd_live ?l = pd_live l - {i}" using q(4) by (auto simp: pd_live_def)
  moreover have "cpool_check (pd_pool l) (Suc i) = Some False"
    using live by (simp add: cpool_check_spec [OF cp])
  ultimately show ?thesis
    using find q(1) ilt len by (intro exI [of _ ?l]) (simp add: pd_free_def)
qed

text \<open>
  C23 (page directories).  While fewer than \<open>PD_MAX\<close> page directories are lent, \<open>pd_assign\<close> lends one
  that is free, with its root CNode, and \<open>pd_free\<close> takes it back with a fresh root CNode.  The pool
  has one identifier more than there are page directories: when all are lent, the next call does not
  report that none is left but reads behind the arrays.
\<close>

theorem pd_assign_free:
  assumes inv: "pd_inv l" and c: "c \<noteq> 0"
  shows "if pd_live l = {..<PD_MAX} then pd_assign heap_ok l = None
    else \<exists>l' i l'' calls. pd_assign heap_ok l = Some (l', pd_pd l ! i, pd_cnode l ! i) \<and> i < PD_MAX \<and>
      i \<notin> pd_live l \<and> pd_inv l' \<and> pd_live l' = insert i (pd_live l) \<and>
      pd_free heap_ok (Some c) l' (pd_pd l ! i) = Some (l'', calls) \<and> pd_inv l'' \<and>
      pd_live l'' = pd_live l \<and> pd_cnode l'' = (pd_cnode l)[i := c]"
proof (cases "pd_live l = {..<PD_MAX}")
  case True
  let ?p = "pd_pool l"
  have cp: "cp_inv ?p" and rng: "cp_range ?p = {1..Suc PD_MAX}" and mx: "cp_mx ?p \<le> Suc PD_MAX"
    and len: "length (pd_pd l) = PD_MAX" using inv by (simp_all add: pd_inv_def)
  from cp.alloc_total [OF cp] obtain q x where al: "cpool_alloc heap_ok ?p = Some (q, x)" by blast
  have "x \<noteq> 0"
  proof
    assume "x = 0"
    with cp.alloc_full [OF cp] al rng have "Suc PD_MAX \<in> cp_live ?p" by auto
    with mx show False by (simp add: cp_live_def)
  qed
  have "x - 1 \<notin> pd_live l" using cp.alloc_fresh [OF cp al \<open>x \<noteq> 0\<close>] \<open>x \<noteq> 0\<close> by (simp add: pd_live_def)
  then have "x - 1 \<notin> {..<PD_MAX}" using True by simp
  with al len \<open>x \<noteq> 0\<close> True show ?thesis by (simp add: pd_assign_def)
next
  case False
  from pd_assign_free_one [OF inv False] obtain l' i where
    a: "pd_assign heap_ok l = Some (l', pd_pd l ! i, pd_cnode l ! i)" "i < PD_MAX" "i \<notin> pd_live l"
      "pd_inv l'" "pd_live l' = insert i (pd_live l)" "pd_pd l' = pd_pd l" "pd_cnode l' = pd_cnode l"
    by blast
  from pd_free_one [OF a(4) _ c, of i] a(3,5-7) obtain l'' calls where
    "pd_free heap_ok (Some c) l' (pd_pd l ! i) = Some (l'', calls)" "pd_inv l''"
    "pd_live l'' = pd_live l" "pd_cnode l'' = (pd_cnode l)[i := c]" by auto
  with a False show ?thesis by auto
qed

theorem pd_assign_free_witness:
  "\<exists>l l' i. pd_init (\<lambda>i. Some (Suc i)) (\<lambda>i. Some (100 + i)) = Some l \<and>
    pd_assign heap_ok l = Some (l', pd_pd l ! i, pd_cnode l ! i) \<and> pd_live l' = {i}"
proof -
  from pd_init_inv [of "\<lambda>i. Some (Suc i)" "\<lambda>i. Some (100 + i)"] obtain l where
    l: "pd_init (\<lambda>i. Some (Suc i)) (\<lambda>i. Some (100 + i)) = Some l" "pd_inv l" "pd_live l = {}"
    by (auto simp: inj_on_def)
  have "pd_live l \<noteq> {..<PD_MAX}" unfolding l(3) by (auto simp: PD_MAX_def lessThan_def set_eq_iff intro: exI [of _ 0])
  with pd_assign_free [OF l(2), of 7] l(1,3) show ?thesis by auto
qed

end
