(* ===== verification/Watch.thy ===== *)
theory Watch
  imports Cvector Refos
begin

text \<open>
  \<open>process_server/src/system/process/proc_client_watch.c\<close>: the list of processes whose death a
  process wants to be told of.  Two vectors hold the watched process identifiers and the
  endpoints to notify; an endpoint is its capability pointer.  The operations also return the
  capabilities whose slots they free.  The list refines a map from process identifiers to
  endpoints (interpretation \<open>wl\<close> of the locale \<open>key_store\<close>).
\<close>

section \<open>Model\<close>

definition REFOS_PCB_WATCHLIST_MAGIC :: nat where "REFOS_PCB_WATCHLIST_MAGIC = 0x191B44E7"

record proc_watch_list =
  wl_magic :: nat
  wl_clientList :: "nat cvector"
  wl_endpointNotifyList :: "nat cvector"

definition client_watch_free_ep_cslot :: "nat \<Rightarrow> nat list option" where
  "client_watch_free_ep_cslot ep = do { c_assert (ep \<noteq> 0); Some [ep] }"

definition client_watch_find :: "proc_watch_list \<Rightarrow> nat \<Rightarrow> nat option option" where
  "client_watch_find wl pid = do {
     c_assert (wl_magic wl = REFOS_PCB_WATCHLIST_MAGIC);
     for_find (cvector_get (wl_clientList wl)) (\<lambda>x. x = pid) 0 (cvector_count (wl_clientList wl))
   }"

definition client_watch_init :: "proc_watch_list" where
  "client_watch_init = \<lparr>wl_magic = REFOS_PCB_WATCHLIST_MAGIC, wl_clientList = cvector_init,
     wl_endpointNotifyList = cvector_init\<rparr>"

definition client_watch_release :: "proc_watch_list \<Rightarrow> (proc_watch_list \<times> nat list) option" where
  "client_watch_release wl = do {
     c_assert (wl_magic wl = REFOS_PCB_WATCHLIST_MAGIC);
     freed \<leftarrow> for_each [0..<cvector_count (wl_endpointNotifyList wl)]
       (\<lambda>i fr. do {
          ep \<leftarrow> cvector_get (wl_endpointNotifyList wl) i;
          f \<leftarrow> client_watch_free_ep_cslot ep;
          Some (fr @ f)
        }) [];
     Some (wl\<lparr>wl_clientList := cvector_free (wl_clientList wl),
              wl_endpointNotifyList := cvector_free (wl_endpointNotifyList wl), wl_magic := 0\<rparr>, freed)
   }"

definition client_watch_get :: "proc_watch_list \<Rightarrow> nat \<Rightarrow> nat option" where
  "client_watch_get wl pid = do {
     idx \<leftarrow> client_watch_find wl pid;
     (case idx of
        None \<Rightarrow> Some 0
      | Some i \<Rightarrow> do {
          ep \<leftarrow> cvector_get (wl_endpointNotifyList wl) i;
          c_assert (ep \<noteq> 0);
          Some ep
        })
   }"

definition client_unwatch ::
  "(nat \<Rightarrow> bool) \<Rightarrow> proc_watch_list \<Rightarrow> nat \<Rightarrow> (proc_watch_list \<times> nat list) option" where
  "client_unwatch mem wl pid = do {
     idx \<leftarrow> client_watch_find wl pid;
     (case idx of
        None \<Rightarrow> Some (wl, [])
      | Some i \<Rightarrow> do {
          ep \<leftarrow> cvector_get (wl_endpointNotifyList wl) i;
          freed \<leftarrow> client_watch_free_ep_cslot ep;
          eps \<leftarrow> cvector_delete mem (wl_endpointNotifyList wl) i;
          cls \<leftarrow> cvector_delete mem (wl_clientList wl) i;
          Some (wl\<lparr>wl_endpointNotifyList := eps, wl_clientList := cls\<rparr>, freed)
        })
   }"

text \<open>\<open>slot_mem\<close>: the allocation of the path structure succeeds.\<close>

definition client_watch ::
  "(nat \<Rightarrow> bool) \<Rightarrow> bool \<Rightarrow> proc_watch_list \<Rightarrow> nat \<Rightarrow> nat \<Rightarrow>
   (proc_watch_list \<times> nat list \<times> refos_error) option" where
  "client_watch mem slot_mem wl pid notifyEP =
     (if notifyEP = 0 then Some (wl, [], EINVALIDPARAM)
      else if \<not> slot_mem then Some (wl, [], ENOMEM)
      else do {
        idx \<leftarrow> client_watch_find wl pid;
        (wl, freed) \<leftarrow> (if idx \<noteq> None then client_unwatch mem wl pid else Some (wl, []));
        (cls, _) \<leftarrow> cvector_add mem (wl_clientList wl) pid;
        (eps, _) \<leftarrow> cvector_add mem (wl_endpointNotifyList wl) notifyEP;
        let wl = wl\<lparr>wl_clientList := cls, wl_endpointNotifyList := eps\<rparr>;
        c_assert (cvector_count (wl_clientList wl) = cvector_count (wl_endpointNotifyList wl));
        Some (wl, freed, ESUCCESS)
      })"

section \<open>Invariant and abstraction\<close>

definition wl_pairs :: "proc_watch_list \<Rightarrow> (nat \<times> nat) list" where
  "wl_pairs wl = zip (cv_list (wl_clientList wl)) (cv_list (wl_endpointNotifyList wl))"

definition wl_inv :: "proc_watch_list \<Rightarrow> bool" where
  "wl_inv wl \<longleftrightarrow> wl_magic wl = REFOS_PCB_WATCHLIST_MAGIC \<and>
     cv_inv (wl_clientList wl) \<and> cv_inv (wl_endpointNotifyList wl) \<and>
     length (cv_list (wl_clientList wl)) = length (cv_list (wl_endpointNotifyList wl)) \<and>
     distinct (cv_list (wl_clientList wl)) \<and> 0 \<notin> set (cv_list (wl_endpointNotifyList wl))"

definition wl_lookup :: "proc_watch_list \<Rightarrow> nat \<Rightarrow> nat option" where
  "wl_lookup wl = map_of (wl_pairs wl)"

lemma wl_pairs_fst: "wl_inv wl \<Longrightarrow> map fst (wl_pairs wl) = cv_list (wl_clientList wl)"
  by (simp add: wl_pairs_def wl_inv_def)

lemma client_watch_init_inv: "wl_inv client_watch_init" "wl_lookup client_watch_init = Map.empty"
  by (simp_all add: wl_inv_def client_watch_init_def wl_lookup_def wl_pairs_def)

lemma client_find_cases:
  assumes "wl_inv wl"
  obtains (miss) "client_watch_find wl pid = Some None" "wl_lookup wl pid = None"
      "pid \<notin> set (cv_list (wl_clientList wl))"
  | (hit) i where "client_watch_find wl pid = Some (Some i)" "i < length (cv_list (wl_clientList wl))"
      "cv_list (wl_clientList wl) ! i = pid"
      "wl_lookup wl pid = Some (cv_list (wl_endpointNotifyList wl) ! i)"
      "cv_list (wl_endpointNotifyList wl) ! i \<noteq> 0"
proof -
  have cv: "cv_inv (wl_clientList wl)" and mg: "wl_magic wl = REFOS_PCB_WATCHLIST_MAGIC"
    and len: "length (cv_list (wl_clientList wl)) = length (cv_list (wl_endpointNotifyList wl))"
    and d: "distinct (cv_list (wl_clientList wl))" and z: "0 \<notin> set (cv_list (wl_endpointNotifyList wl))"
    using assms by (auto simp: wl_inv_def)
  from cv show thesis
  proof (cases rule: cv.find_cases [where P = "\<lambda>x. x = pid"])
    case miss
    then show thesis using mg len
      by (intro that(1)) (auto simp: client_watch_find_def wl_lookup_def wl_pairs_def map_of_eq_None_iff
          dest: set_zip_leftD)
  next
    case (hit i)
    let ?c = "cv_list (wl_clientList wl)" and ?e = "cv_list (wl_endpointNotifyList wl)"
    have "(pid, ?e ! i) \<in> set (zip ?c ?e)" using hit len by (auto simp: set_zip)
    then have "wl_lookup wl pid = Some (?e ! i)"
      using d len by (auto simp: wl_lookup_def wl_pairs_def intro!: map_of_is_SomeI)
    moreover have "?e ! i \<noteq> 0" using z hit(2) len by (metis nth_mem)
    ultimately show thesis using hit mg by (intro that(2) [of i]) (auto simp: client_watch_find_def)
  qed
qed

section \<open>Operations\<close>

lemma client_watch_get_lookup:
  assumes "wl_inv wl"
  shows "client_watch_get wl pid = Some (case wl_lookup wl pid of None \<Rightarrow> 0 | Some ep \<Rightarrow> ep)"
  using assms
proof (cases rule: client_find_cases [where pid = pid])
  case miss
  then show ?thesis by (simp add: client_watch_get_def)
next
  case (hit i)
  with assms show ?thesis by (simp add: client_watch_get_def wl_inv_def cvector_get_list)
qed

lemma client_unwatch_lookup:
  assumes inv: "wl_inv wl"
  shows "\<exists>u. client_unwatch heap_ok wl pid =
      Some (u, case wl_lookup wl pid of None \<Rightarrow> [] | Some ep \<Rightarrow> [ep]) \<and>
    wl_inv u \<and> wl_lookup u = (wl_lookup wl)(pid := None)"
  using inv
proof (cases rule: client_find_cases [where pid = pid])
  case miss
  then show ?thesis using inv by (simp add: client_unwatch_def fun_upd_idem)
next
  case (hit i)
  let ?c = "cv_list (wl_clientList wl)" and ?e = "cv_list (wl_endpointNotifyList wl)"
  have cv: "cv_inv (wl_clientList wl)" "cv_inv (wl_endpointNotifyList wl)"
    and len: "length ?c = length ?e" and d: "distinct ?c"
    using inv by (auto simp: wl_inv_def)
  from cvector_delete_list [OF cv(1) hit(2)] obtain cs where
    cs: "cvector_delete heap_ok (wl_clientList wl) i = Some cs" "cv_inv cs"
      "cv_list cs = take i ?c @ drop (Suc i) ?c" by blast
  from cvector_delete_list [OF cv(2)] hit(2) len obtain es where
    es: "cvector_delete heap_ok (wl_endpointNotifyList wl) i = Some es" "cv_inv es"
      "cv_list es = take i ?e @ drop (Suc i) ?e" by metis
  let ?u = "wl\<lparr>wl_endpointNotifyList := es, wl_clientList := cs\<rparr>"
  have zip: "wl_pairs ?u = take i (wl_pairs wl) @ drop (Suc i) (wl_pairs wl)"
    using len hit(2) by (simp add: wl_pairs_def cs(3) es(3) take_zip drop_zip)
  have "distinct (map fst (wl_pairs wl))" "i < length (wl_pairs wl)" "fst (wl_pairs wl ! i) = pid"
    using inv d len hit by (auto simp: wl_pairs_fst) (auto simp: wl_pairs_def)
  from map_of_del_index [OF this]
  have del: "wl_lookup ?u = (wl_lookup wl)(pid := None)" "distinct (map fst (wl_pairs ?u))"
    unfolding wl_lookup_def zip by auto
  have "map fst (wl_pairs ?u) = cv_list cs"
    using len hit(2) by (simp add: wl_pairs_def cs(3) es(3))
  then have "wl_inv ?u"
    using inv del(2) cs es len
    by (auto simp: wl_inv_def dest: in_set_takeD in_set_dropD)
  moreover have "client_unwatch heap_ok wl pid = Some (?u, [?e ! i])"
    using hit cs(1) es(1) cv len
    by (simp add: client_unwatch_def client_watch_free_ep_cslot_def cvector_get_list)
  ultimately show ?thesis using del(1) hit(4) by (intro exI [of _ ?u]) simp
qed

lemma client_watch_append:
  assumes inv: "wl_inv wl" and new: "wl_lookup wl pid = None" and ep: "ep \<noteq> 0"
  shows "\<exists>cs es n. cvector_add heap_ok (wl_clientList wl) pid = Some (cs, n) \<and>
    cvector_add heap_ok (wl_endpointNotifyList wl) ep = Some (es, n) \<and>
    wl_inv (wl\<lparr>wl_clientList := cs, wl_endpointNotifyList := es\<rparr>) \<and>
    wl_lookup (wl\<lparr>wl_clientList := cs, wl_endpointNotifyList := es\<rparr>) = (wl_lookup wl)(pid \<mapsto> ep)"
proof -
  let ?c = "cv_list (wl_clientList wl)" and ?e = "cv_list (wl_endpointNotifyList wl)"
  have cv: "cv_inv (wl_clientList wl)" "cv_inv (wl_endpointNotifyList wl)"
    and len: "length ?c = length ?e" using inv by (auto simp: wl_inv_def)
  have notin: "pid \<notin> set ?c"
    using inv new by (cases rule: client_find_cases [where pid = pid]) auto
  from cvector_add_list [OF cv(1), of pid] obtain cs where
    cs: "cvector_add heap_ok (wl_clientList wl) pid = Some (cs, length ?c)" "cv_inv cs"
      "cv_list cs = ?c @ [pid]" by blast
  from cvector_add_list [OF cv(2), of ep] obtain es where
    es: "cvector_add heap_ok (wl_endpointNotifyList wl) ep = Some (es, length ?e)" "cv_inv es"
      "cv_list es = ?e @ [ep]" by blast
  let ?u = "wl\<lparr>wl_clientList := cs, wl_endpointNotifyList := es\<rparr>"
  have "wl_pairs ?u = wl_pairs wl @ [(pid, ep)]"
    using len by (simp add: wl_pairs_def cs(3) es(3))
  then have "wl_lookup ?u = (wl_lookup wl)(pid \<mapsto> ep)"
    using new by (auto simp: wl_lookup_def map_add_def fun_eq_iff split: option.splits)
  moreover have "wl_inv ?u" using inv cs es len notin ep by (auto simp: wl_inv_def)
  ultimately show ?thesis using cs(1) es(1) len by auto
qed

lemma client_watch_lookup:
  assumes inv: "wl_inv wl" and ep: "ep \<noteq> 0"
  shows "\<exists>u. client_watch heap_ok True wl pid ep =
      Some (u, case wl_lookup wl pid of None \<Rightarrow> [] | Some old \<Rightarrow> [old], ESUCCESS) \<and>
    wl_inv u \<and> wl_lookup u = (wl_lookup wl)(pid \<mapsto> ep)"
proof -
  from client_unwatch_lookup [OF inv, of pid] obtain w where
    w: "client_unwatch heap_ok wl pid = Some (w, case wl_lookup wl pid of None \<Rightarrow> [] | Some old \<Rightarrow> [old])"
      "wl_inv w" "wl_lookup w = (wl_lookup wl)(pid := None)" by blast
  have pre: "(client_watch_find wl pid \<bind> (\<lambda>idx. if idx \<noteq> None then client_unwatch heap_ok wl pid else Some (wl, []))) =
      Some (w, case wl_lookup wl pid of None \<Rightarrow> [] | Some old \<Rightarrow> [old])"
    using inv w(1) by (cases rule: client_find_cases [where pid = pid])
      (auto simp: client_unwatch_def)
  from client_watch_append [OF w(2) _ ep, of pid] w(3) obtain cs es n where
    a: "cvector_add heap_ok (wl_clientList w) pid = Some (cs, n)"
      "cvector_add heap_ok (wl_endpointNotifyList w) ep = Some (es, n)"
      "wl_inv (w\<lparr>wl_clientList := cs, wl_endpointNotifyList := es\<rparr>)"
      "wl_lookup (w\<lparr>wl_clientList := cs, wl_endpointNotifyList := es\<rparr>) = (wl_lookup w)(pid \<mapsto> ep)"
    by auto
  let ?u = "w\<lparr>wl_clientList := cs, wl_endpointNotifyList := es\<rparr>"
  have cnt: "cvector_count cs = cvector_count es"
    using a(3) by (auto simp: wl_inv_def cvector_count_list)
  have "client_watch heap_ok True wl pid ep =
      Some (?u, case wl_lookup wl pid of None \<Rightarrow> [] | Some old \<Rightarrow> [old], ESUCCESS)"
    using pre a(1,2) cnt ep
    by (auto simp: client_watch_def bind_eq_Some_conv)
  then show ?thesis using a(3,4) w(3) by (intro exI [of _ ?u]) simp
qed

interpretation wl: key_store wl_inv wl_lookup
  "\<lambda>t k. map_option (\<lambda>ep. if ep = 0 then None else Some ep) (client_watch_get t k)"
  "\<lambda>t k x. map_option fst (client_watch heap_ok True t k x)"
  "\<lambda>t k. map_option fst (client_unwatch heap_ok t k)" "\<lambda>k. k < 2 ^ 32" "\<lambda>ep. ep \<noteq> 0"
proof
  fix t k x assume inv: "wl_inv t"
  have "wl_lookup t k \<noteq> Some 0"
    using inv by (cases rule: client_find_cases [where pid = k]) auto
  then show "map_option (\<lambda>ep. if ep = 0 then None else Some ep) (client_watch_get t k) = Some (wl_lookup t k)"
    unfolding client_watch_get_lookup [OF inv] by (auto split: option.splits)
  show "\<exists>u. map_option fst (client_unwatch heap_ok t k) = Some u \<and> wl_inv u \<and>
      wl_lookup u = (wl_lookup t)(k := None)"
    using client_unwatch_lookup [OF inv, of k] by auto
  assume "x \<noteq> (0::nat)"
  from client_watch_lookup [OF inv this, of k]
  show "\<exists>u. map_option fst (client_watch heap_ok True t k x) = Some u \<and> wl_inv u \<and>
      wl_lookup u = (wl_lookup t)(k \<mapsto> x)" by auto
qed

text \<open>Releasing the list frees every endpoint of it, once.\<close>

lemma client_watch_release_frees:
  assumes inv: "wl_inv wl"
  shows "\<exists>u. client_watch_release wl = Some (u, cv_list (wl_endpointNotifyList wl)) \<and> wl_magic u = 0"
proof -
  let ?v = "wl_endpointNotifyList wl"
  have cv: "cv_inv ?v" and z: "0 \<notin> set (cv_list ?v)" and mg: "wl_magic wl = REFOS_PCB_WATCHLIST_MAGIC"
    using inv by (auto simp: wl_inv_def)
  have "for_each [0..<n] (\<lambda>i fr. do { ep \<leftarrow> cvector_get ?v i; f \<leftarrow> client_watch_free_ep_cslot ep;
      Some (fr @ f) }) [] = Some (take n (cv_list ?v))" if "n \<le> length (cv_list ?v)" for n
    using that
  proof (induction n)
    case 0
    then show ?case by simp
  next
    case (Suc n)
    then have "cv_list ?v ! n \<noteq> 0" using z by (metis Suc_le_lessD nth_mem)
    with Suc cv show ?case
      by (simp add: for_each_append client_watch_free_ep_cslot_def cvector_get_list
          take_Suc_conv_app_nth)
  qed
  from this [OF order_refl] show ?thesis
    using cv mg by (simp add: client_watch_release_def cvector_count_list)
qed

text \<open>
  C26 (watch list).  The watch list refines a map from clients to notification endpoints: watching
  replaces an older endpoint of the client, whose capability is freed, unwatching removes and frees
  it, and a lookup answers with the endpoint of the last watch or 0; releasing the list frees every
  endpoint.
\<close>

theorem watch_list_refines_map:
  assumes inv: "wl_inv wl" and "ep \<noteq> 0"
  shows "client_watch_get wl pid = Some (case wl_lookup wl pid of None \<Rightarrow> 0 | Some ep \<Rightarrow> ep) \<and>
    (\<exists>u. client_watch heap_ok True wl pid ep =
        Some (u, case wl_lookup wl pid of None \<Rightarrow> [] | Some old \<Rightarrow> [old], ESUCCESS) \<and>
      wl_inv u \<and> wl_lookup u = (wl_lookup wl)(pid \<mapsto> ep)) \<and>
    (\<exists>u. client_unwatch heap_ok wl pid =
        Some (u, case wl_lookup wl pid of None \<Rightarrow> [] | Some ep \<Rightarrow> [ep]) \<and>
      wl_inv u \<and> wl_lookup u = (wl_lookup wl)(pid := None)) \<and>
    (\<exists>u. client_watch_release wl = Some (u, cv_list (wl_endpointNotifyList wl)))"
  using client_watch_get_lookup [OF inv, of pid] client_watch_lookup [OF assms, of pid]
    client_unwatch_lookup [OF inv, of pid] client_watch_release_frees [OF inv]
  by blast

theorem watch_list_refines_map_witness:
  "\<exists>u w. client_watch heap_ok True client_watch_init 5 77 = Some (u, [], ESUCCESS) \<and>
    client_watch_get u 5 = Some 77 \<and> client_unwatch heap_ok u 5 = Some (w, [77])"
proof -
  from watch_list_refines_map [OF client_watch_init_inv(1), of 77 5] obtain u where
    u: "client_watch heap_ok True client_watch_init 5 77 = Some (u, [], ESUCCESS)" "wl_inv u"
    "wl_lookup u = [5 \<mapsto> 77]" by (auto simp: client_watch_init_inv(2))
  with watch_list_refines_map [OF u(2), of 77 5] show ?thesis by auto
qed

end
