(* ===== verification/Memserv.thy ===== *)
theory Memserv
  imports Coat Pid Window_Assoc Transfers Pagedir Watch
begin

text \<open>
  The shared objects of the memory server: the table of RAM dataspaces
  (\<open>system/memserv/dataspace.c\<close>), the table of memory windows (\<open>system/memserv/window.c\<close>), the
  buffers of the processes (\<open>system/process/process.c\<close>, \<open>rb_create\<close> and \<open>rb_delete\<close> of
  \<open>ringbuffer.c\<close>) and the unmapping of a window (\<open>system/addrspace/vspace.c\<close>).

  Windows and dataspaces live on a heap; the tables hold their addresses, and a pointer is an
  address or \<open>None\<close> for the null pointer.  Reading through the address of an object that was freed is
  \<open>None\<close>, like a failed assertion.  The process server has one window list and one dataspace list,
  so the field \<open>parentList\<close> of the objects is left out.  The page table of an address space is a map
  from the addresses of pages to frame capabilities.  Revoking, deleting and freeing capabilities is recorded in
  \<open>ms_calls\<close>.  What the allocators and the kernel answer during one call is the environment \<open>menv\<close>:
  the growth of the tables, whether the first and the second allocation of memory succeed and the
  address of the allocated object, the capability minted for a
  badge (0 on failure), the reservation for a range (0 on failure), whether a reservation can be
  resized, its first address, the slots that are allocated (0 on failure), and whether copying a
  capability, mapping pages and saving the caller succeed.
\<close>

section \<open>Model\<close>

subsection \<open>Objects and state\<close>

definition W_INVALID_WINID :: int where "W_INVALID_WINID = 0"
definition RAM_DATASPACE_INVALID_ID :: int where "RAM_DATASPACE_INVALID_ID = 0"

datatype w_window_mode = W_MODE_EMPTY | W_MODE_ANONYMOUS | W_MODE_PAGER

record w_window =
  w_wID :: int
  w_clientOwnerPID :: nat
  w_size :: nat
  w_mode :: w_window_mode
  w_permissions :: nat
  w_cacheable :: bool
  w_vspace :: "nat option"
  w_reservation :: nat
  w_capability :: nat
  w_pager :: nat
  w_pagerPID :: nat
  w_ramDataspace :: "nat option"
  w_ramDataspaceOffset :: nat

text \<open>A thread: its priority, entry point and TCB; its address space is that of its process.\<close>

record proc_tcb =
  pt_priority :: nat
  pt_entryPoint :: nat
  pt_tcb :: nat

text \<open>
  A process control block.  The address space is part of it: the windows, the page table, the
  reference count, the page directory, the guarded CSpace and the list of the kernel objects that were allocated for it.
\<close>

record client =
  cl_windows :: w_associated_windowlist
  cl_pages :: "nat \<rightharpoonup> nat"
  cl_ref :: nat
  cl_kpd :: nat
  cl_cspace :: nat
  cl_kobjs :: "nat cvector"
  cl_threads :: "proc_tcb cvector"
  cl_watch :: proc_watch_list
  cl_paramBuffer :: "nat option"
  cl_notificationBuffer :: "(nat \<times> rb_buffer) option"
  cl_mask :: nat
  cl_faultReply :: nat
  cl_exitStatus :: int
  cl_parentPID :: nat
  cl_parentWaiting :: bool
  cl_proc :: "nat option"

text \<open>The pool and the vector of an object allocation table; its callbacks are added on use.\<close>

record oat_store =
  os_pool :: cpool
  os_table :: "nat option cvector"

record memserv =
  ms_dslist :: oat_store
  ms_dspaces :: "nat \<rightharpoonup> ram_dspace"
  ms_wlist :: oat_store
  ms_windows :: "nat \<rightharpoonup> w_window"
  ms_pids :: "client pid_list"
  ms_frames :: frames
  ms_pdlist :: pd_list
  ms_unblockClientFaultPID :: nat
  ms_exitProcessPID :: nat
  ms_calls :: "cap_call list"

record menv =
  en_heap :: "nat \<Rightarrow> bool"
  en_malloc :: "nat \<Rightarrow> bool"
  en_addr :: nat
  en_mint :: "nat \<Rightarrow> nat"
  en_reserve :: "nat \<Rightarrow> nat \<Rightarrow> nat \<Rightarrow> nat"
  en_resize :: bool
  en_start :: "nat \<Rightarrow> nat"
  en_slot :: "nat \<Rightarrow> nat"
  en_copy :: bool
  en_map :: bool
  en_save :: bool

definition oat_of ::
  "(nat \<Rightarrow> nat list \<Rightarrow> memserv \<Rightarrow> nat option \<times> memserv) \<Rightarrow> (nat \<Rightarrow> memserv \<Rightarrow> memserv option) \<Rightarrow>
   oat_store \<Rightarrow> (nat, memserv) coat" where
  "oat_of create delete st = \<lparr>oat_expand = None, oat_create = Some create, oat_delete = Some delete,
     oat_pool = os_pool st, oat_table = os_table st\<rparr>"

definition store_of :: "(nat, memserv) coat \<Rightarrow> oat_store" where
  "store_of t = \<lparr>os_pool = oat_pool t, os_table = oat_table t\<rparr>"

definition upd_dspace :: "nat \<Rightarrow> (ram_dspace \<Rightarrow> ram_dspace) \<Rightarrow> memserv \<Rightarrow> memserv option" where
  "upd_dspace da f s = do {
     d \<leftarrow> ms_dspaces s da;
     Some (s\<lparr>ms_dspaces := (ms_dspaces s)(da \<mapsto> f d)\<rparr>)
   }"

definition upd_window :: "nat \<Rightarrow> (w_window \<Rightarrow> w_window) \<Rightarrow> memserv \<Rightarrow> memserv option" where
  "upd_window wa f s = do {
     w \<leftarrow> ms_windows s wa;
     Some (s\<lparr>ms_windows := (ms_windows s)(wa \<mapsto> f w)\<rparr>)
   }"

definition client_of :: "memserv \<Rightarrow> nat \<Rightarrow> client option" where
  "client_of s pid = do { c \<leftarrow> pid_get_pcb (ms_pids s) pid; c }"

definition upd_client :: "nat \<Rightarrow> (client \<Rightarrow> client) \<Rightarrow> memserv \<Rightarrow> memserv option" where
  "upd_client pid f s = do {
     c \<leftarrow> client_of s pid;
     pcbs \<leftarrow> wr (pl_pcbs (ms_pids s)) pid (Some (f c));
     Some (s\<lparr>ms_pids := (ms_pids s)\<lparr>pl_pcbs := pcbs\<rparr>\<rparr>)
   }"

definition log_calls :: "cap_call list \<Rightarrow> memserv \<Rightarrow> memserv" where
  "log_calls cs s = s\<lparr>ms_calls := ms_calls s @ cs\<rparr>"

text \<open>\<open>vka_cnode_revoke\<close>, \<open>vka_cnode_delete\<close>, \<open>vka_cspace_free\<close> on one capability.\<close>

definition free_cap :: "nat \<Rightarrow> cap_call list" where
  "free_cap c = [Cap_Revoke c, Cap_Delete c]"

subsection \<open>Lookup\<close>

text \<open>A lookup does not run the callbacks of the table.\<close>

definition oat_lookup :: "oat_store \<Rightarrow> int \<Rightarrow> nat option option" where
  "oat_lookup st oid = coat_get (oat_of (\<lambda>i arg e. (None, e)) (\<lambda>x e. Some e) st) oid"

definition ram_dspace_get :: "memserv \<Rightarrow> int \<Rightarrow> nat option option" where
  "ram_dspace_get s ID =
     (if ID \<le> RAM_DATASPACE_INVALID_ID \<or> ID \<ge> int RAM_DATASPACE_MAX_NUM_DATASPACE then Some None
      else do {
        p \<leftarrow> oat_lookup (ms_dslist s) ID;
        (case p of
           None \<Rightarrow> Some None
         | Some da \<Rightarrow> do { d \<leftarrow> ms_dspaces s da; Some (Some da) })
      })"

definition ram_dspace_get_badge :: "memserv \<Rightarrow> nat \<Rightarrow> nat option option" where
  "ram_dspace_get_badge s badge = ram_dspace_get s (s32 (u32i (int badge - int RAM_DATASPACE_BADGE_BASE)))"

definition w_get_window :: "memserv \<Rightarrow> int \<Rightarrow> nat option option" where
  "w_get_window s windowID =
     (if windowID \<le> W_INVALID_WINID \<or> windowID \<ge> int W_MAX_WINDOWS then Some None
      else do {
        p \<leftarrow> oat_lookup (ms_wlist s) windowID;
        (case p of
           None \<Rightarrow> Some None
         | Some wa \<Rightarrow> do { w \<leftarrow> ms_windows s wa; Some (Some wa) })
      })"

subsection \<open>Unmapping a window\<close>

text \<open>The page table is indexed by page: \<open>vspace_get_cap\<close> finds the frame that maps an address.\<close>

definition vspace_get_cap :: "client \<Rightarrow> nat \<Rightarrow> nat option" where
  "vspace_get_cap cl vaddr = cl_pages cl (REFOS_PAGE_ALIGN vaddr)"

definition vs_unmap_frame :: "nat \<Rightarrow> nat \<Rightarrow> memserv \<Rightarrow> memserv option" where
  "vs_unmap_frame pid vaddr s = do {
     cl \<leftarrow> client_of s pid;
     (case vspace_get_cap cl vaddr of
        None \<Rightarrow> Some s
      | Some frameCap \<Rightarrow> do {
          s \<leftarrow> upd_client pid (\<lambda>c. c\<lparr>cl_pages := (cl_pages c)(REFOS_PAGE_ALIGN vaddr := None)\<rparr>) s;
          Some (log_calls (free_cap frameCap) s)
        })
   }"

definition vs_unmap_window :: "nat \<Rightarrow> int \<Rightarrow> memserv \<Rightarrow> memserv option" where
  "vs_unmap_window pid wID s = do {
     cl \<leftarrow> client_of s pid;
     (aws, aw) \<leftarrow> w_associate_find_winID (cl_windows cl) wID;
     s \<leftarrow> upd_client pid (\<lambda>c. c\<lparr>cl_windows := aws\<rparr>) s;
     (case aw of
        None \<Rightarrow> Some s
      | Some aw \<Rightarrow>
          if aw_winID aw \<noteq> wID then Some s
          else do {
            p \<leftarrow> w_get_window s (aw_winID aw);
            wa \<leftarrow> p;
            w \<leftarrow> ms_windows s wa;
            c_assert (w_vspace w = Some pid);
            for_each [0..<refos_round_up_npages (aw_size aw)]
              (\<lambda>va. vs_unmap_frame pid (u32 (aw_offset aw + va * REFOS_PAGE_SIZE))) s
          })
   }"

subsection \<open>Windows, and the release of a dataspace\<close>

text \<open>
  Emptying a window drops a reference to its dataspace, the last reference deletes the dataspace,
  and deleting a dataspace empties every window that shows it.  The argument \<open>unref\<close> closes this
  cycle.
\<close>

definition window_switch_mode ::
  "(int \<Rightarrow> memserv \<Rightarrow> memserv option) \<Rightarrow> nat \<Rightarrow> w_window_mode \<Rightarrow> memserv \<Rightarrow> memserv option" where
  "window_switch_mode unref wa mode s = do {
     w \<leftarrow> ms_windows s wa;
     s \<leftarrow> (if w_pager w \<noteq> 0
           then upd_window wa (\<lambda>w. w\<lparr>w_pager := 0, w_pagerPID := PID_NULL\<rparr>) (log_calls (free_cap (w_pager w)) s)
           else Some s);
     s \<leftarrow> (case w_ramDataspace w of
             None \<Rightarrow> Some s
           | Some da \<Rightarrow> do {
               d \<leftarrow> ms_dspaces s da;
               s \<leftarrow> unref (int (ds_ID d)) s;
               upd_window wa (\<lambda>w. w\<lparr>w_ramDataspace := None, w_ramDataspaceOffset := 0\<rparr>) s
             });
     w \<leftarrow> ms_windows s wa;
     s \<leftarrow> (if w_mode w \<noteq> W_MODE_EMPTY \<and> w_clientOwnerPID w \<noteq> PID_NULL then do {
             pcb \<leftarrow> pid_get_pcb (ms_pids s) (w_clientOwnerPID w);
             (case pcb of
                None \<Rightarrow> Some s
              | Some _ \<Rightarrow> vs_unmap_window (w_clientOwnerPID w) (w_wID w) s)
           }
           else Some s);
     upd_window wa (\<lambda>w. w\<lparr>w_mode := mode\<rparr>) s
   }"

text \<open>\<open>p == dspace || p->ID == dspace->ID\<close>, for a pointer \<open>p\<close> that is not null.\<close>

definition same_dspace :: "memserv \<Rightarrow> nat \<Rightarrow> nat \<Rightarrow> bool option" where
  "same_dspace s p da =
     (if p = da then Some True
      else do { d \<leftarrow> ms_dspaces s p; d' \<leftarrow> ms_dspaces s da; Some (ds_ID d = ds_ID d') })"

definition w_purge_dspace ::
  "(int \<Rightarrow> memserv \<Rightarrow> memserv option) \<Rightarrow> nat \<Rightarrow> memserv \<Rightarrow> memserv option" where
  "w_purge_dspace unref da =
     for_each [1..<W_MAX_WINDOWS] (\<lambda>i s. do {
       p \<leftarrow> w_get_window s (int i);
       (case p of
          None \<Rightarrow> Some s
        | Some wa \<Rightarrow> do {
            w \<leftarrow> ms_windows s wa;
            (case w_ramDataspace w of
               None \<Rightarrow> Some s
             | Some da' \<Rightarrow> do {
                 same \<leftarrow> same_dspace s da' da;
                 if same then window_switch_mode unref wa W_MODE_EMPTY s else Some s
               })
          })
     })"

text \<open>The capabilities of the pages of a dataspace.\<close>

definition free_pages :: "ram_dspace \<Rightarrow> cap_call list" where
  "free_pages d = concat (map (\<lambda>c. if c = 0 then []
     else if ds_physicalAddrEnabled d then [Cap_Revoke c, Cap_Delete c]
     else [Cap_Revoke c, Object_Free c]) (case ds_pages d of None \<Rightarrow> [] | Some ps \<Rightarrow> take (ds_npages d) ps))"

definition ram_dspace_oat_delete ::
  "(int \<Rightarrow> memserv \<Rightarrow> memserv option) \<Rightarrow> nat \<Rightarrow> memserv \<Rightarrow> memserv option" where
  "ram_dspace_oat_delete unref da s = do {
     d \<leftarrow> ms_dspaces s da;
     s \<leftarrow> w_purge_dspace unref da s;
     d \<leftarrow> ms_dspaces s da;
     c_assert (ds_ref d = 0);
     ep \<leftarrow> (if ds_contentInitEnabled d then do {
              c_assert (ds_contentInitEP d \<noteq> 0);
              Some (free_cap (ds_contentInitEP d))
            }
            else Some []);
     waiters \<leftarrow> clear_waiters (ds_contentInitWaitingList d);
     c_assert (ds_pages d \<noteq> None);
     c_assert (ds_capability d \<noteq> 0);
     Some (log_calls (ep @ concat (map free_cap waiters) @ free_pages d @ free_cap (ds_capability d))
       (s\<lparr>ms_dspaces := (ms_dspaces s)(da := None)\<rparr>))
   }"

definition dspace_create :: "menv \<Rightarrow> nat \<Rightarrow> nat list \<Rightarrow> memserv \<Rightarrow> nat option \<times> memserv" where
  "dspace_create env ident arg s =
     (case ram_dspace_oat_create (en_malloc env 0) (en_malloc env 1)
             (en_mint env (RAM_DATASPACE_BADGE_BASE + ident)) ident (arg ! 0) of
        None \<Rightarrow> (None, s)
      | Some d \<Rightarrow> (Some (en_addr env), s\<lparr>ms_dspaces := (ms_dspaces s)(en_addr env \<mapsto> d)\<rparr>))"

text \<open>
  One level of \<open>ram_dspace_unref\<close>.  The destructor reads the tables in the state and does not write
  the table of dataspaces, so the table after the call is the one that \<open>coat_free\<close> returns.
\<close>

definition unref_step ::
  "menv \<Rightarrow> (int \<Rightarrow> memserv \<Rightarrow> memserv option) \<Rightarrow> int \<Rightarrow> memserv \<Rightarrow> memserv option" where
  "unref_step env unref ID s = do {
     p \<leftarrow> ram_dspace_get s ID;
     da \<leftarrow> p;
     d \<leftarrow> ms_dspaces s da;
     c_assert (ds_ref d > 0);
     s \<leftarrow> upd_dspace da (\<lambda>d. d\<lparr>ds_ref := ds_ref d - 1\<rparr>) s;
     d \<leftarrow> ms_dspaces s da;
     if ds_ref d = 0 then do {
       (t, s, r) \<leftarrow> coat_free (en_heap env)
         (oat_of (dspace_create env) (ram_dspace_oat_delete unref) (ms_dslist s)) ID s;
       Some (s\<lparr>ms_dslist := store_of t\<rparr>)
     }
     else Some s
   }"

text \<open>
  The depth bounds the nesting of \<open>ram_dspace_unref\<close>.  A nested call is for the dataspace that is
  being deleted, whose count is 0, and fails its assertion, so two levels are enough; on the states
  of the invariant of the next theory there is none (\<open>unref_depth\<close>).
\<close>

primrec unref_at :: "nat \<Rightarrow> menv \<Rightarrow> int \<Rightarrow> memserv \<Rightarrow> memserv option" where
  "unref_at 0 env = (\<lambda>ID s. None)"
| "unref_at (Suc n) env = unref_step env (unref_at n env)"

definition ram_dspace_unref :: "menv \<Rightarrow> int \<Rightarrow> memserv \<Rightarrow> memserv option" where
  "ram_dspace_unref env = unref_at 2 env"

definition ram_dspace_ref :: "int \<Rightarrow> memserv \<Rightarrow> memserv option" where
  "ram_dspace_ref ID s = do {
     p \<leftarrow> ram_dspace_get s ID;
     da \<leftarrow> p;
     d \<leftarrow> ms_dspaces s da;
     c_assert (ds_ref d > 0);
     upd_dspace da (\<lambda>d. d\<lparr>ds_ref := ds_ref d + 1\<rparr>) s
   }"

definition ram_dspace_create :: "menv \<Rightarrow> nat \<Rightarrow> memserv \<Rightarrow> (memserv \<times> nat option) option" where
  "ram_dspace_create env sz s = do {
     (t, s, ID, p) \<leftarrow> coat_alloc (en_heap env)
       (oat_of (dspace_create env) (ram_dspace_oat_delete (ram_dspace_unref env)) (ms_dslist s)) [u32 sz] s;
     let s = s\<lparr>ms_dslist := store_of t\<rparr>;
     if ID = RAM_DATASPACE_INVALID_ID then Some (s, None)
     else do {
       da \<leftarrow> p;
       d \<leftarrow> ms_dspaces s da;
       Some (s, Some da)
     }
   }"

subsection \<open>Windows\<close>

definition window_oat_create :: "menv \<Rightarrow> nat \<Rightarrow> nat list \<Rightarrow> memserv \<Rightarrow> nat option \<times> memserv" where
  "window_oat_create env ident arg s =
     (if \<not> en_malloc env 0 then (None, s)
      else if en_mint env (W_BADGE_BASE + ident) = 0 then (None, s)
      else (Some (en_addr env), s\<lparr>ms_windows := (ms_windows s)(en_addr env \<mapsto>
          \<lparr>w_wID = s32 ident, w_clientOwnerPID = 0, w_size = 0, w_mode = W_MODE_EMPTY, w_permissions = 0,
           w_cacheable = False, w_vspace = None, w_reservation = 0,
           w_capability = en_mint env (W_BADGE_BASE + ident), w_pager = 0, w_pagerPID = PID_NULL,
           w_ramDataspace = None, w_ramDataspaceOffset = 0\<rparr>)\<rparr>))"

definition window_oat_delete :: "menv \<Rightarrow> nat \<Rightarrow> memserv \<Rightarrow> memserv option" where
  "window_oat_delete env wa s = do {
     s \<leftarrow> window_switch_mode (ram_dspace_unref env) wa W_MODE_EMPTY s;
     w \<leftarrow> ms_windows s wa;
     c_assert (w_reservation w \<noteq> 0 \<longrightarrow> w_vspace w \<noteq> None);
     Some (log_calls (if w_capability w \<noteq> 0 then free_cap (w_capability w) else [])
       (s\<lparr>ms_windows := (ms_windows s)(wa := None)\<rparr>))
   }"

definition w_create_window ::
  "menv \<Rightarrow> nat \<Rightarrow> nat \<Rightarrow> nat \<Rightarrow> nat \<Rightarrow> bool \<Rightarrow> memserv \<Rightarrow> (memserv \<times> nat option) option" where
  "w_create_window env sz ownerPID permissions reservation cacheable s = do {
     (t, s, ID, p) \<leftarrow> coat_alloc (en_heap env)
       (oat_of (window_oat_create env) (window_oat_delete env) (ms_wlist s)) [] s;
     let s = s\<lparr>ms_wlist := store_of t\<rparr>;
     if ID = W_INVALID_WINID then Some (s, None)
     else do {
       wa \<leftarrow> p;
       s \<leftarrow> upd_window wa (\<lambda>w. w\<lparr>w_clientOwnerPID := ownerPID, w_size := sz, w_mode := W_MODE_EMPTY,
              w_permissions := permissions, w_vspace := Some ownerPID, w_reservation := reservation,
              w_cacheable := cacheable\<rparr>) s;
       Some (s, Some wa)
     }
   }"

definition w_delete_window :: "menv \<Rightarrow> int \<Rightarrow> memserv \<Rightarrow> memserv option" where
  "w_delete_window env windowID s = do {
     (t, s, r) \<leftarrow> coat_free (en_heap env)
       (oat_of (window_oat_create env) (window_oat_delete env) (ms_wlist s)) windowID s;
     Some (s\<lparr>ms_wlist := store_of t\<rparr>)
   }"

definition w_set_pager_endpoint :: "menv \<Rightarrow> nat \<Rightarrow> nat \<Rightarrow> nat \<Rightarrow> memserv \<Rightarrow> memserv option" where
  "w_set_pager_endpoint env wa endpoint pid s =
     (if endpoint = 0 then window_switch_mode (ram_dspace_unref env) wa W_MODE_EMPTY s
      else do {
        s \<leftarrow> window_switch_mode (ram_dspace_unref env) wa W_MODE_PAGER s;
        upd_window wa (\<lambda>w. w\<lparr>w_pager := endpoint, w_pagerPID := pid\<rparr>) s
      })"

definition w_set_anon_dspace :: "menv \<Rightarrow> nat \<Rightarrow> nat option \<Rightarrow> nat \<Rightarrow> memserv \<Rightarrow> memserv option" where
  "w_set_anon_dspace env wa dspace offset s =
     (case dspace of
        None \<Rightarrow> window_switch_mode (ram_dspace_unref env) wa W_MODE_EMPTY s
      | Some da \<Rightarrow> do {
          s \<leftarrow> window_switch_mode (ram_dspace_unref env) wa W_MODE_ANONYMOUS s;
          s \<leftarrow> upd_window wa (\<lambda>w. w\<lparr>w_ramDataspace := Some da, w_ramDataspaceOffset := offset\<rparr>) s;
          d \<leftarrow> ms_dspaces s da;
          ram_dspace_ref (int (ds_ID d)) s
        })"

subsection \<open>Buffers of a process\<close>

definition rb_create :: "menv \<Rightarrow> nat \<Rightarrow> rb_mode \<Rightarrow> memserv \<Rightarrow> (memserv \<times> (nat \<times> rb_buffer) option) option" where
  "rb_create env da mode s = do {
     d \<leftarrow> ms_dspaces s da;
     if \<not> en_malloc env 0 then Some (s, None)
     else do {
       s \<leftarrow> ram_dspace_ref (int (ds_ID d)) s;
       Some (s, Some (da, \<lparr>rb_mode = mode, rb_localStart = 0, rb_localEnd = 0,
         rb_size = u32i (int (ram_dspace_get_size d) - int RINGBUFFER_METADATA_SIZE)\<rparr>))
     }
   }"

definition rb_delete :: "menv \<Rightarrow> nat \<times> rb_buffer \<Rightarrow> memserv \<Rightarrow> memserv option" where
  "rb_delete env rb s = do { d \<leftarrow> ms_dspaces s (fst rb); ram_dspace_unref env (int (ds_ID d)) s }"

definition proc_set_parambuffer :: "menv \<Rightarrow> nat \<Rightarrow> nat option \<Rightarrow> memserv \<Rightarrow> memserv option" where
  "proc_set_parambuffer env pid paramBuffer s = do {
     p \<leftarrow> client_of s pid;
     if cl_paramBuffer p = paramBuffer then Some s
     else do {
       s \<leftarrow> (case cl_paramBuffer p of
               None \<Rightarrow> Some s
             | Some da \<Rightarrow> do {
                 d \<leftarrow> ms_dspaces s da;
                 s \<leftarrow> ram_dspace_unref env (int (ds_ID d)) s;
                 upd_client pid (\<lambda>c. c\<lparr>cl_paramBuffer := None\<rparr>) s
               });
       s \<leftarrow> (case paramBuffer of
               None \<Rightarrow> Some s
             | Some da \<Rightarrow> do { d \<leftarrow> ms_dspaces s da; ram_dspace_ref (int (ds_ID d)) s });
       upd_client pid (\<lambda>c. c\<lparr>cl_paramBuffer := paramBuffer\<rparr>) s
     }
   }"

definition proc_set_notificationbuffer ::
  "menv \<Rightarrow> nat \<Rightarrow> nat option \<Rightarrow> memserv \<Rightarrow> (memserv \<times> refos_error) option" where
  "proc_set_notificationbuffer env pid notifBuffer s = do {
     p \<leftarrow> client_of s pid;
     s \<leftarrow> (case cl_notificationBuffer p of
             None \<Rightarrow> Some s
           | Some rb \<Rightarrow> do {
               s \<leftarrow> rb_delete env rb s;
               upd_client pid (\<lambda>c. c\<lparr>cl_notificationBuffer := None\<rparr>) s
             });
     (case notifBuffer of
        None \<Rightarrow> Some (s, ESUCCESS)
      | Some da \<Rightarrow> do {
          (s, rb) \<leftarrow> rb_create env da RB_WRITEONLY s;
          s \<leftarrow> upd_client pid (\<lambda>c. c\<lparr>cl_notificationBuffer := rb\<rparr>) s;
          Some (s, if rb = None then ENOMEM else ESUCCESS)
        })
   }"

definition proc_dspace_delete_callback :: "menv \<Rightarrow> nat \<Rightarrow> nat \<Rightarrow> memserv \<Rightarrow> memserv option" where
  "proc_dspace_delete_callback env da pid s = do {
     p \<leftarrow> client_of s pid;
     s \<leftarrow> (case cl_paramBuffer p of
             None \<Rightarrow> Some s
           | Some b \<Rightarrow> do {
               same \<leftarrow> same_dspace s b da;
               if same then proc_set_parambuffer env pid None s else Some s
             });
     p \<leftarrow> client_of s pid;
     (case cl_notificationBuffer p of
        None \<Rightarrow> Some s
      | Some rb \<Rightarrow> do {
          same \<leftarrow> same_dspace s (fst rb) da;
          if same then do {
            s \<leftarrow> rb_delete env rb s;
            upd_client pid (\<lambda>c. c\<lparr>cl_notificationBuffer := None\<rparr>) s
          }
          else Some s
        })
   }"

end
