(* ===== verification/Memserv_Refs.thy ===== *)
theory Memserv_Refs
  imports Memserv
begin

text \<open>
  Reference counting in the memory server.  A window, a parameter buffer and a notification buffer
  that refer to a dataspace hold a reference to it; the invariant \<open>ms_inv\<close> states that the count of
  every dataspace is the number of its holders plus the reference of its creator, that the tables
  and the heaps agree and that every window of a process is in the table.  The operations of
  \<open>Memserv\<close> preserve it and never fail an assertion on such a state; closing a dataspace drops
  every holder and deletes it.
\<close>

section \<open>Tables of objects on a heap\<close>

definition st_inv :: "oat_store \<Rightarrow> bool" where
  "st_inv st \<longleftrightarrow> coat_inv (oat_of (\<lambda>i arg e. (None, e)) (\<lambda>x e. Some e) st)"

definition st_obj :: "oat_store \<Rightarrow> nat \<Rightarrow> nat option" where
  "st_obj st = coat_obj (oat_of (\<lambda>i arg e. (None, e)) (\<lambda>x e. Some e) st)"

lemma oat_of_simps [simp]:
  "oat_expand (oat_of c d st) = None" "oat_create (oat_of c d st) = Some c"
  "oat_delete (oat_of c d st) = Some d" "oat_pool (oat_of c d st) = os_pool st"
  "oat_table (oat_of c d st) = os_table st"
  by (simp_all add: oat_of_def)

lemma oat_of_inv [simp]: "coat_inv (oat_of c d st) = st_inv st" "coat_obj (oat_of c d st) = st_obj st"
  by (simp_all add: coat_inv_def st_inv_def coat_obj_def st_obj_def fun_eq_iff)

lemma store_of_inv: "coat_inv t \<Longrightarrow> st_inv (store_of t)" "st_obj (store_of t) = coat_obj t"
  by (simp_all add: coat_inv_def st_inv_def coat_obj_def st_obj_def fun_eq_iff store_of_def oat_of_def)

text \<open>
  The table and the heap agree: the cells of the table are the addresses of the objects, each under
  its own identifier.  The last identifier of the range is not in use.
\<close>

definition oat_ok :: "oat_store \<Rightarrow> (nat \<rightharpoonup> 'o) \<Rightarrow> ('o \<Rightarrow> int) \<Rightarrow> nat \<Rightarrow> bool" where
  "oat_ok st heap ident mx \<longleftrightarrow> st_inv st \<and> cp_range (os_pool st) = {1..mx} \<and> 0 < mx \<and> st_obj st mx = None \<and>
     cp_mx (os_pool st) \<le> mx \<and>
     (\<forall>i a. st_obj st i = Some a \<longrightarrow> (\<exists>x. heap a = Some x \<and> ident x = int i)) \<and>
     (\<forall>a x. heap a = Some x \<longrightarrow> (\<exists>i. ident x = int i \<and> st_obj st i = Some a))"

lemma oat_ok_cell: "oat_ok st heap ident mx \<Longrightarrow> st_obj st i = Some a \<Longrightarrow> \<exists>x. heap a = Some x \<and> ident x = int i"
  unfolding oat_ok_def by blast

lemma oat_ok_object: "oat_ok st heap ident mx \<Longrightarrow> heap a = Some x \<Longrightarrow> \<exists>i. ident x = int i \<and> st_obj st i = Some a"
  unfolding oat_ok_def by blast

lemma oat_ok_end: "oat_ok st heap ident mx \<Longrightarrow> cp_end (os_pool st) = mx \<and> mx < 2 ^ 31"
  by (auto simp: oat_ok_def cp_range_def Icc_eq_Icc st_inv_def coat_inv_def)

lemma oat_ok_id:
  assumes ok: "oat_ok st heap ident mx" and x: "heap a = Some x"
  obtains i where "ident x = int i" "0 < i" "i < mx" "st_obj st i = Some a"
proof -
  from oat_ok_object [OF ok x] obtain i where i: "ident x = int i" "st_obj st i = Some a" by blast
  have "i \<in> cp_live (os_pool st)"
    using coat_inv_live [of "oat_of (\<lambda>i arg e. (None, e)) (\<lambda>x e. Some e) st" i] ok i(2)
    by (simp add: oat_ok_def)
  moreover have "cp_inv (os_pool st)" "cp_range (os_pool st) = {1..mx}"
    using ok by (auto simp: oat_ok_def st_inv_def coat_inv_def)
  ultimately have "i \<in> {1..mx}" using cp_zero(2) by blast
  moreover have "i \<noteq> mx" using ok i(2) by (auto simp: oat_ok_def)
  ultimately show thesis using i by (intro that) auto
qed

lemma oat_lookup_obj:
  assumes "oat_ok st heap ident mx" and "i < mx"
  shows "oat_lookup st (int i) = Some (st_obj st i)"
  using coat_get_obj [of "oat_of (\<lambda>i arg e. (None, e)) (\<lambda>x e. Some e) st" i] assms oat_ok_end [OF assms(1)]
  by (simp add: oat_lookup_def oat_ok_def)

lemma oat_ok_upd:
  assumes "oat_ok st heap ident mx" and "heap a = Some x" and "ident y = ident x"
  shows "oat_ok st (heap(a \<mapsto> y)) ident mx"
  unfolding oat_ok_def
proof (intro conjI allI impI)
  show "st_inv st" "cp_range (os_pool st) = {1..mx}" "0 < mx" "st_obj st mx = None" "cp_mx (os_pool st) \<le> mx"
    using assms(1) by (simp_all add: oat_ok_def)
next
  fix i b assume "st_obj st i = Some b"
  from oat_ok_cell [OF assms(1) this] obtain z where "heap b = Some z" "ident z = int i" by blast
  then show "\<exists>z. (heap(a \<mapsto> y)) b = Some z \<and> ident z = int i" using assms(2,3) by (cases "b = a") auto
next
  fix b z assume z: "(heap(a \<mapsto> y)) b = Some z"
  then have "\<exists>z'. heap b = Some z' \<and> ident z' = ident z" using assms(2,3) by (cases "b = a") auto
  then show "\<exists>i. ident z = int i \<and> st_obj st i = Some b" using oat_ok_object [OF assms(1)] by force
qed

lemma oat_ok_inj:
  assumes ok: "oat_ok st heap ident mx" and "heap a = Some x" "heap b = Some y" "ident x = ident y"
  shows "a = b"
  using assms oat_ok_id [OF ok assms(2)] oat_ok_id [OF ok assms(3)] by (metis of_nat_eq_iff option.inject)

text \<open>Freeing an object whose destructor succeeds and leaves the other objects in place.\<close>

lemma oat_free:
  assumes ok: "oat_ok st heap ident mx" and x: "heap a = Some x" and del: "d a s = Some s'"
  shows "\<exists>t. coat_free heap_ok (oat_of c d st) (ident x) s = Some (t, s', 0) \<and>
    oat_ok (store_of t) (heap(a := None)) ident mx"
proof -
  from oat_ok_id [OF ok x] obtain i where i: "ident x = int i" "0 < i" "i < mx" "st_obj st i = Some a" .
  have inv: "coat_inv (oat_of c d st)" using ok by (simp add: oat_ok_def)
  have lt: "i < cp_end (oat_pool (oat_of c d st))" using oat_ok_end [OF ok] i by simp
  from coat_free_object [of "oat_of c d st" i a d s s'] inv lt del i(4) obtain t where
    t: "coat_free heap_ok (oat_of c d st) (int i) s = Some (t, s', 0)" "coat_inv t"
    "\<forall>j. coat_obj t j = (if j = i then None else st_obj st j)" "cp_range (oat_pool t) = cp_range (os_pool st)"
    "cp_mx (oat_pool t) = cp_mx (os_pool st)"
    by auto
  have "oat_ok (store_of t) (heap(a := None)) ident mx"
    unfolding oat_ok_def
  proof (intro conjI allI impI)
    show "st_inv (store_of t)" "cp_range (os_pool (store_of t)) = {1..mx}" "0 < mx" "st_obj (store_of t) mx = None"
      "cp_mx (os_pool (store_of t)) \<le> mx"
      using t ok by (simp_all add: store_of_inv oat_ok_def) (simp_all add: store_of_def oat_ok_def)
  next
    fix j b assume "st_obj (store_of t) j = Some b"
    then have j: "j \<noteq> i" "st_obj st j = Some b" using t(3) by (auto simp: store_of_inv split: if_splits)
    from oat_ok_cell [OF ok j(2)] obtain y where y: "heap b = Some y" "ident y = int j" by blast
    then have "b \<noteq> a" using x i(1) j(1) by auto
    with y show "\<exists>y. (heap(a := None)) b = Some y \<and> ident y = int j" by simp
  next
    fix b y assume "(heap(a := None)) b = Some y"
    then have b: "b \<noteq> a" "heap b = Some y" by (auto split: if_splits)
    from oat_ok_id [OF ok b(2)] obtain j where j: "ident y = int j" "st_obj st j = Some b" by metis
    then have "j \<noteq> i" using i(4) b(1) by auto
    with j t(3) show "\<exists>j. ident y = int j \<and> st_obj (store_of t) j = Some b" by (auto simp: store_of_inv)
  qed
  with t(1) i(1) show ?thesis by auto
qed

text \<open>
  Allocating an object.  The table hands out its last identifier, which a lookup does not find,
  only when all the others are in use.
\<close>

lemma oat_alloc:
  assumes ok: "oat_ok st heap ident mx" and room: "\<exists>i. 0 < i \<and> i < mx \<and> st_obj st i = None"
    and create: "\<And>i. \<exists>x s'. c i arg s = (Some x, s')"
  shows "\<exists>t s' i a. coat_alloc heap_ok (oat_of c d st) arg s = Some (t, s', int i, Some a) \<and>
    c i arg s = (Some a, s') \<and> 0 < i \<and> i < mx \<and>
    (\<forall>x. heap a = None \<longrightarrow> ident x = int i \<longrightarrow> oat_ok (store_of t) (heap(a \<mapsto> x)) ident mx)"
proof -
  have inv: "coat_inv (oat_of c d st)" "cp_inv (os_pool st)" and range: "cp_range (os_pool st) = {1..mx}"
    and mx: "0 < mx" "st_obj st mx = None" "cp_mx (os_pool st) \<le> mx"
    using ok by (simp_all add: oat_ok_def st_inv_def coat_inv_def)
  have ends: "cp_start (os_pool st) = 1" "cp_end (os_pool st) = mx"
    using range mx(1) by (simp_all add: cp_range_def Icc_eq_Icc)
  have live: "i \<in> cp_live (os_pool st) \<longleftrightarrow> st_obj st i \<noteq> None" for i
    using coat_inv_live [OF inv(1), of i] by simp
  have "st_inv st" "cp_live (os_pool st) \<noteq> {1..mx}" using ok live [of mx] mx by (auto simp: oat_ok_def)
  from coat_alloc_object [of "oat_of c d st" c arg s, unfolded oat_of_simps oat_of_inv range, OF this refl create] obtain u s' i a where
    u: "coat_alloc heap_ok (oat_of c d st) arg s = Some (u, s', int i, Some a)" "c i arg s = (Some a, s')"
      "i \<in> {1..mx}" "st_obj st i = None" "coat_inv u" "cp_range (oat_pool u) = {1..mx}"
      "cpool_alloc heap_ok (os_pool st) = Some (oat_pool u, i)"
      "\<forall>j. coat_obj u j = (if j = i then Some a else st_obj st j)" by blast
  note last = cpool_alloc_last [OF inv(2) u(7), unfolded ends]
  have "i \<noteq> mx"
  proof
    assume "i = mx"
    with last(2) mx(1,3) have "{1..<mx} \<subseteq> cp_live (os_pool st)" by simp
    moreover from room obtain j where j: "0 < j" "j < mx" "st_obj st j = None" by blast
    then have "j \<in> {1..<mx}" by simp
    ultimately show False using live [of j] j(3) by blast
  qed
  with u(3) have i: "0 < i" "i < mx" by auto
  have "mx \<notin> cp_live (oat_pool u)" using coat_inv_live [OF u(5), of mx] u(8) mx(2) i by simp
  with last(1) mx(3) have "cp_mx (oat_pool u) \<le> mx" by blast
  then have "oat_ok (store_of u) (heap(a \<mapsto> x)) ident mx" if a: "heap a = None" "ident x = int i" for x
    unfolding oat_ok_def
  proof (intro conjI allI impI)
    show "st_inv (store_of u)" "cp_range (os_pool (store_of u)) = {1..mx}" "0 < mx" "st_obj (store_of u) mx = None"
      using u(5,6,8) mx(1,2) i by (simp_all add: store_of_inv) (simp add: store_of_def)
    assume "cp_mx (oat_pool u) \<le> mx"
    then show "cp_mx (os_pool (store_of u)) \<le> mx" by (simp add: store_of_def)
  next
    fix j b assume "st_obj (store_of u) j = Some b"
    then have "j = i \<and> b = a \<or> j \<noteq> i \<and> st_obj st j = Some b" using u(8) by (auto simp: store_of_inv split: if_splits)
    then show "\<exists>y. (heap(a \<mapsto> x)) b = Some y \<and> ident y = int j"
      using oat_ok_cell [OF ok, of j b] a by auto
  next
    fix b y assume y: "(heap(a \<mapsto> x)) b = Some y"
    show "\<exists>j. ident y = int j \<and> st_obj (store_of u) j = Some b"
    proof (cases "b = a")
      case True
      with y a u(8) show ?thesis by (simp add: store_of_inv)
    next
      case False
      with y oat_ok_object [OF ok, of b y] obtain j where "ident y = int j" "st_obj st j = Some b" by auto
      moreover from this u(4) have "j \<noteq> i" by auto
      ultimately show ?thesis using u(8) by (auto simp: store_of_inv)
    qed
  qed
  with u(1,2) i show ?thesis by blast
qed

section \<open>Control blocks\<close>

lemma client_of_eq: "pid_inv (ms_pids s) \<Longrightarrow> client_of s pid = pid_pcb (ms_pids s) pid"
  by (simp add: client_of_def pid_get_pcb_eq)

lemma upd_client_spec:
  assumes inv: "pid_inv (ms_pids s)" and c: "client_of s pid = Some c"
  shows "\<exists>p. upd_client pid f s = Some (s\<lparr>ms_pids := p\<rparr>) \<and> pid_inv p \<and>
    client_of (s\<lparr>ms_pids := p\<rparr>) = (client_of s)(pid \<mapsto> f c)"
proof -
  let ?p = "(ms_pids s)\<lparr>pl_pcbs := (pl_pcbs (ms_pids s))[pid := Some (f c)]\<rparr>"
  have pid: "pid < PID_MAX" "pl_pcbs (ms_pids s) ! pid = Some c" "length (pl_pcbs (ms_pids s)) = PID_MAX"
    using c inv by (auto simp: client_of_eq pid_pcb_def pid_inv_def split: if_splits)
  have pi: "pid_inv ?p" using inv pid by (auto simp: pid_inv_def nth_list_update)
  have "client_of (s\<lparr>ms_pids := ?p\<rparr>) = (client_of s)(pid \<mapsto> f c)"
    using pi pid inv by (auto simp: client_of_eq pid_pcb_def fun_eq_iff nth_list_update)
  with pi c pid show ?thesis by (intro exI [of _ ?p]) (simp add: upd_client_def)
qed

section \<open>References to dataspaces\<close>

datatype holder = Win nat | Param nat | Notif nat

primrec holds :: "memserv \<Rightarrow> holder \<Rightarrow> nat option" where
  "holds s (Win wa) = Option.bind (ms_windows s wa) w_ramDataspace"
| "holds s (Param pid) = Option.bind (client_of s pid) cl_paramBuffer"
| "holds s (Notif pid) = map_option fst (Option.bind (client_of s pid) cl_notificationBuffer)"

text \<open>The count of a dataspace is one more than the number of its holders: its creator has a reference.\<close>

definition ref_ok :: "(holder \<Rightarrow> nat option) \<Rightarrow> (nat \<rightharpoonup> ram_dspace) \<Rightarrow> bool" where
  "ref_ok hs ds \<longleftrightarrow> finite (dom hs) \<and> (\<forall>h da. hs h = Some da \<longrightarrow> ds da \<noteq> None) \<and>
     (\<forall>da d. ds da = Some d \<longrightarrow> ds_ref d = Suc (card {h. hs h = Some da}))"

lemma ref_ok_live: "ref_ok hs ds \<Longrightarrow> hs h = Some da \<Longrightarrow> \<exists>d. ds da = Some d"
  unfolding ref_ok_def by blast

lemma holders_finite: "ref_ok hs ds \<Longrightarrow> finite {h. hs h = Some da}"
  by (auto simp: ref_ok_def dom_def intro: finite_subset [of _ "{h. hs h \<noteq> None}"])

lemma ref_drop:
  assumes ok: "ref_ok hs ds" and h: "hs h = Some da" and d: "ds da = Some d"
  shows "2 \<le> ds_ref d" "ref_ok (hs(h := None)) (ds(da \<mapsto> d\<lparr>ds_ref := ds_ref d - 1\<rparr>))"
proof -
  have fin: "finite {h. hs h = Some da}" by (rule holders_finite [OF ok])
  have ref: "ds_ref d = Suc (card {h. hs h = Some da})" using ok d by (simp add: ref_ok_def)
  have less: "{g. (hs(h := None)) g = Some x} = {g. hs g = Some x} - {h}" for x by auto
  have pos: "card {g. hs g = Some da} = Suc (card ({g. hs g = Some da} - {h}))"
    using h fin by (intro card.remove) simp_all
  show "2 \<le> ds_ref d" using ref pos by simp
  have other: "{g. hs g = Some x} - {h} = {g. hs g = Some x}" if "x \<noteq> da" for x using h that by auto
  have cnt: "ds_ref d' = Suc (card {g. (hs(h := None)) g = Some x})"
    if "(ds(da \<mapsto> d\<lparr>ds_ref := ds_ref d - 1\<rparr>)) x = Some d'" for x d'
    unfolding less using ok that ref pos other by (cases "x = da") (auto simp: ref_ok_def)
  have "finite (dom (hs(h := None)))" using ok by (simp add: ref_ok_def)
  moreover have "(ds(da \<mapsto> d\<lparr>ds_ref := ds_ref d - 1\<rparr>)) x \<noteq> None" if "(hs(h := None)) g = Some x" for g x
    using ok that by (auto simp: ref_ok_def split: if_splits)
  ultimately show "ref_ok (hs(h := None)) (ds(da \<mapsto> d\<lparr>ds_ref := ds_ref d - 1\<rparr>))"
    using cnt unfolding ref_ok_def by blast
qed

lemma ref_add:
  assumes ok: "ref_ok hs ds" and h: "hs h = None" and d: "ds da = Some d"
  shows "ref_ok (hs(h \<mapsto> da)) (ds(da \<mapsto> d\<lparr>ds_ref := ds_ref d + 1\<rparr>))"
proof -
  have fin: "finite {h. hs h = Some da}" by (rule holders_finite [OF ok])
  have ref: "ds_ref d = Suc (card {h. hs h = Some da})" using ok d by (simp add: ref_ok_def)
  have new: "{g. (hs(h \<mapsto> da)) g = Some da} = insert h {g. hs g = Some da}" by auto
  have other: "{g. (hs(h \<mapsto> da)) g = Some x} = {g. hs g = Some x}" if "x \<noteq> da" for x using h that by auto
  have "ds_ref d' = Suc (card {g. (hs(h \<mapsto> da)) g = Some x})"
    if "(ds(da \<mapsto> d\<lparr>ds_ref := ds_ref d + 1\<rparr>)) x = Some d'" for x d'
  proof (cases "x = da")
    case True
    with that ref h fin new show ?thesis by auto
  next
    case False
    with that ok other [OF False] show ?thesis by (simp add: ref_ok_def)
  qed
  moreover have "finite (dom (hs(h \<mapsto> da)))" using ok by (simp add: ref_ok_def)
  moreover have "(ds(da \<mapsto> d\<lparr>ds_ref := ds_ref d + 1\<rparr>)) x \<noteq> None" if "(hs(h \<mapsto> da)) g = Some x" for g x
    using ok that by (auto simp: ref_ok_def split: if_splits)
  ultimately show ?thesis unfolding ref_ok_def by blast
qed

lemma ref_delete:
  "ref_ok hs ds \<Longrightarrow> (\<And>h. hs h \<noteq> Some da) \<Longrightarrow> ref_ok hs (ds(da := None))"
  by (auto simp: ref_ok_def)

section \<open>The invariant\<close>

text \<open>A dataspace that its destructor can release.\<close>

definition ds_ok :: "ram_dspace \<Rightarrow> bool" where
  "ds_ok d \<longleftrightarrow> ds_capability d \<noteq> 0 \<and> shape_ok d \<and>
     (ds_contentInitEnabled d \<longrightarrow> ds_contentInitEP d \<noteq> 0) \<and> cv_inv (ds_contentInitWaitingList d) \<and>
     (\<forall>w \<in> set (cv_list (ds_contentInitWaitingList d)). wt_reply w \<noteq> 0)"

text \<open>
  Every window a process lists is in the table, and its address space is that of the process.  While a
  process of \<open>X\<close> is torn down, windows of its list may be gone from the table.
\<close>

definition clients_ok :: "nat set \<Rightarrow> (nat \<rightharpoonup> client) \<Rightarrow> (nat \<rightharpoonup> w_window) \<Rightarrow> bool" where
  "clients_ok X cs ws \<longleftrightarrow> (\<forall>pid c. cs pid = Some c \<longrightarrow> assoc_inv (cl_windows c) \<and>
     (\<forall>aw \<in> set (wins (cl_windows c)).
        (\<exists>wa w. ws wa = Some w \<and> w_wID w = aw_winID aw \<and> w_vspace w = Some pid) \<or>
        pid \<in> X \<and> (\<forall>wa w. ws wa = Some w \<longrightarrow> w_wID w \<noteq> aw_winID aw)))"

definition ms_inv_but :: "nat set \<Rightarrow> memserv \<Rightarrow> bool" where
  "ms_inv_but X s \<longleftrightarrow> oat_ok (ms_dslist s) (ms_dspaces s) (\<lambda>d. int (ds_ID d)) RAM_DATASPACE_MAX_NUM_DATASPACE \<and>
     oat_ok (ms_wlist s) (ms_windows s) w_wID W_MAX_WINDOWS \<and> pid_inv (ms_pids s) \<and>
     clients_ok X (client_of s) (ms_windows s) \<and> ref_ok (holds s) (ms_dspaces s) \<and>
     (\<forall>da d. ms_dspaces s da = Some d \<longrightarrow> ds_ok d)"

abbreviation ms_inv :: "memserv \<Rightarrow> bool" where
  "ms_inv \<equiv> ms_inv_but {}"

lemmas ms_inv_def = ms_inv_but_def

lemma client_of_other [simp]:
  "client_of (s\<lparr>ms_dslist := a\<rparr>) = client_of s" "client_of (s\<lparr>ms_dspaces := b\<rparr>) = client_of s"
  "client_of (s\<lparr>ms_wlist := a\<rparr>) = client_of s" "client_of (s\<lparr>ms_windows := d\<rparr>) = client_of s"
  "client_of (s\<lparr>ms_calls := g\<rparr>) = client_of s"
  "client_of (s\<lparr>ms_frames := f\<rparr>) = client_of s" "client_of (s\<lparr>ms_unblockClientFaultPID := e\<rparr>) = client_of s"
  "client_of (s\<lparr>ms_pdlist := l\<rparr>) = client_of s" "client_of (s\<lparr>ms_exitProcessPID := e\<rparr>) = client_of s"
  by (simp_all add: client_of_def fun_eq_iff)

lemma holds_other [simp]:
  "holds (s\<lparr>ms_dslist := a\<rparr>) = holds s" "holds (s\<lparr>ms_dspaces := b\<rparr>) = holds s"
  "holds (s\<lparr>ms_wlist := a\<rparr>) = holds s"
  "holds (s\<lparr>ms_calls := g\<rparr>) = holds s" "holds (s\<lparr>ms_frames := f\<rparr>) = holds s"
  "holds (s\<lparr>ms_unblockClientFaultPID := e\<rparr>) = holds s" "holds (s\<lparr>ms_pdlist := l\<rparr>) = holds s"
  "holds (s\<lparr>ms_exitProcessPID := e\<rparr>) = holds s"
  by (rule ext, case_tac x; simp)+

lemma holds_window:
  "holds (s\<lparr>ms_windows := (ms_windows s)(wa \<mapsto> w)\<rparr>) = (holds s)(Win wa := w_ramDataspace w)"
  by (rule ext, case_tac x) auto

lemma holds_client:
  assumes "client_of s' = (client_of s)(pid \<mapsto> c)" and "ms_windows s' = ms_windows s"
  shows "holds s' = (holds s)(Param pid := cl_paramBuffer c, Notif pid := map_option fst (cl_notificationBuffer c))"
  by (rule ext, case_tac x) (auto simp: assms)

lemma ms_inv_calls [simp]: "ms_inv_but X (s\<lparr>ms_calls := cs\<rparr>) = ms_inv_but X s" "ms_inv_but X (log_calls ds s) = ms_inv_but X s"
  by (simp_all add: ms_inv_def log_calls_def)

lemma ms_inv_other [simp]:
  "ms_inv_but X (s\<lparr>ms_frames := f\<rparr>) = ms_inv_but X s" "ms_inv_but X (s\<lparr>ms_pdlist := l\<rparr>) = ms_inv_but X s"
  "ms_inv_but X (s\<lparr>ms_unblockClientFaultPID := e\<rparr>) = ms_inv_but X s"
  "ms_inv_but X (s\<lparr>ms_exitProcessPID := e\<rparr>) = ms_inv_but X s"
  by (simp_all add: ms_inv_def)

lemma log_calls_other [simp]:
  "ms_windows (log_calls cs s) = ms_windows s" "ms_dspaces (log_calls cs s) = ms_dspaces s"
  "ms_dslist (log_calls cs s) = ms_dslist s" "ms_wlist (log_calls cs s) = ms_wlist s"
  "ms_pids (log_calls cs s) = ms_pids s" "client_of (log_calls cs s) = client_of s"
  "holds (log_calls cs s) = holds s"
  by (simp_all add: log_calls_def)

lemma clients_ok_window:
  assumes "clients_ok X cs ws" and "ws wa = Some w" and "w_wID w' = w_wID w" "w_vspace w' = w_vspace w"
  shows "clients_ok X cs (ws(wa \<mapsto> w'))"
  unfolding clients_ok_def
proof (intro allI impI conjI ballI)
  fix pid c assume c: "cs pid = Some c"
  then show "assoc_inv (cl_windows c)" using assms(1) by (simp add: clients_ok_def)
  fix aw assume "aw \<in> set (wins (cl_windows c))"
  with assms(1) c have "(\<exists>va v. ws va = Some v \<and> w_wID v = aw_winID aw \<and> w_vspace v = Some pid) \<or>
      pid \<in> X \<and> (\<forall>va v. ws va = Some v \<longrightarrow> w_wID v \<noteq> aw_winID aw)"
    unfolding clients_ok_def by blast
  then show "(\<exists>va v. (ws(wa \<mapsto> w')) va = Some v \<and> w_wID v = aw_winID aw \<and> w_vspace v = Some pid) \<or>
      pid \<in> X \<and> (\<forall>va v. (ws(wa \<mapsto> w')) va = Some v \<longrightarrow> w_wID v \<noteq> aw_winID aw)"
  proof (elim disjE exE conjE)
    fix va v assume v: "ws va = Some v" "w_wID v = aw_winID aw" "w_vspace v = Some pid"
    have "\<exists>va v. (ws(wa \<mapsto> w')) va = Some v \<and> w_wID v = aw_winID aw \<and> w_vspace v = Some pid"
      using v assms(2-4) by (cases "va = wa") auto
    then show ?thesis ..
  next
    assume "pid \<in> X" "\<forall>va v. ws va = Some v \<longrightarrow> w_wID v \<noteq> aw_winID aw"
    then show ?thesis using assms(2,3) by auto
  qed
qed

lemma ms_inv_window:
  assumes inv: "ms_inv_but X s" and w: "ms_windows s wa = Some w"
    and "w_wID w' = w_wID w" "w_vspace w' = w_vspace w" "w_ramDataspace w' = w_ramDataspace w"
  shows "ms_inv_but X (s\<lparr>ms_windows := (ms_windows s)(wa \<mapsto> w')\<rparr>)"
    "holds (s\<lparr>ms_windows := (ms_windows s)(wa \<mapsto> w')\<rparr>) = holds s"
proof -
  show h: "holds (s\<lparr>ms_windows := (ms_windows s)(wa \<mapsto> w')\<rparr>) = holds s"
    using w assms(5) by (auto simp: holds_window fun_eq_iff)
  show "ms_inv_but X (s\<lparr>ms_windows := (ms_windows s)(wa \<mapsto> w')\<rparr>)"
    using inv clients_ok_window [of X "client_of s" "ms_windows s" wa w w'] assms(3,4) w
      oat_ok_upd [of "ms_wlist s" "ms_windows s" w_wID W_MAX_WINDOWS wa w w']
    unfolding ms_inv_def h by simp
qed

lemma get_dspace:
  assumes ok: "oat_ok (ms_dslist s) (ms_dspaces s) (\<lambda>d. int (ds_ID d)) RAM_DATASPACE_MAX_NUM_DATASPACE"
    and d: "ms_dspaces s da = Some d"
  shows "ram_dspace_get s (int (ds_ID d)) = Some (Some da)"
proof -
  from oat_ok_id [OF ok d] have i: "0 < ds_ID d" "ds_ID d < RAM_DATASPACE_MAX_NUM_DATASPACE"
    "st_obj (ms_dslist s) (ds_ID d) = Some da" by auto
  with oat_lookup_obj [OF ok i(2)] d show ?thesis
    by (simp add: ram_dspace_get_def RAM_DATASPACE_INVALID_ID_def)
qed

lemma get_window:
  assumes ok: "oat_ok (ms_wlist s) (ms_windows s) w_wID W_MAX_WINDOWS" and w: "ms_windows s wa = Some w"
  shows "w_get_window s (w_wID w) = Some (Some wa)"
proof -
  from oat_ok_id [OF ok w] obtain i where i: "w_wID w = int i" "0 < i" "i < W_MAX_WINDOWS"
    "st_obj (ms_wlist s) i = Some wa" .
  with oat_lookup_obj [OF ok i(3)] w show ?thesis
    by (simp add: w_get_window_def W_INVALID_WINID_def)
qed

text \<open>A lookup under any identifier finds an object with that identifier or nothing.\<close>

lemma get_window_cases:
  assumes ok: "oat_ok (ms_wlist s) (ms_windows s) w_wID W_MAX_WINDOWS"
  obtains (none) "w_get_window s (int i) = Some None" "\<forall>wa w. ms_windows s wa = Some w \<longrightarrow> w_wID w \<noteq> int i"
  | (some) wa w where "w_get_window s (int i) = Some (Some wa)" "ms_windows s wa = Some w" "w_wID w = int i"
proof (cases "\<exists>wa w. ms_windows s wa = Some w \<and> w_wID w = int i")
  case True
  with get_window [OF ok] some show thesis by metis
next
  case False
  have "w_get_window s (int i) = Some None"
  proof (cases "0 < i \<and> i < W_MAX_WINDOWS")
    case True
    then have "st_obj (ms_wlist s) i = None" using oat_ok_cell [OF ok, of i] False by (cases "st_obj (ms_wlist s) i") auto
    with oat_lookup_obj [OF ok, of i] True show ?thesis by (simp add: w_get_window_def W_INVALID_WINID_def)
  qed (auto simp: w_get_window_def W_INVALID_WINID_def)
  with False none show thesis by blast
qed

lemma unref_dec:
  assumes ok: "oat_ok (ms_dslist s) (ms_dspaces s) (\<lambda>d. int (ds_ID d)) RAM_DATASPACE_MAX_NUM_DATASPACE"
    and d: "ms_dspaces s da = Some d" and ref: "2 \<le> ds_ref d"
  shows "unref_at (Suc n) env (int (ds_ID d)) s =
    Some (s\<lparr>ms_dspaces := (ms_dspaces s)(da \<mapsto> d\<lparr>ds_ref := ds_ref d - 1\<rparr>)\<rparr>)"
  using get_dspace [OF ok d] d ref by (simp add: unref_step_def upd_dspace_def)

lemma ref_inc:
  assumes ok: "oat_ok (ms_dslist s) (ms_dspaces s) (\<lambda>d. int (ds_ID d)) RAM_DATASPACE_MAX_NUM_DATASPACE"
    and d: "ms_dspaces s da = Some d" and ref: "0 < ds_ref d"
  shows "ram_dspace_ref (int (ds_ID d)) s =
    Some (s\<lparr>ms_dspaces := (ms_dspaces s)(da \<mapsto> d\<lparr>ds_ref := ds_ref d + 1\<rparr>)\<rparr>)"
  using get_dspace [OF ok d] d ref by (simp add: ram_dspace_ref_def upd_dspace_def)

section \<open>Unmapping\<close>

lemma find_winID_cases:
  assumes inv: "assoc_inv aws"
  obtains (none) "w_associate_find_winID aws wID = Some (resort aws, None)" "\<forall>a \<in> set (wins aws). aw_winID a \<noteq> wID"
  | (some) a where "w_associate_find_winID aws wID = Some (resort aws, Some a)" "a \<in> set (wins aws)" "aw_winID a = wID"
proof -
  let ?r = "resort aws"
  note rs = resort_wins [OF inv]
  have w: "wins ?r ! k = aw_associated ?r ! k" "rd (aw_associated ?r) k = Some (wins ?r ! k)" if "k < aw_numIndex ?r" for k
    using that rs(1-3) by (simp_all add: nth_append)
  show thesis
  proof (rule for_find_cases [of "aw_numIndex ?r" "rd (aw_associated ?r)" "wins ?r" "\<lambda>a. aw_winID a = wID"])
    show "rd (aw_associated ?r) k = Some (wins ?r ! k)" if "k < aw_numIndex ?r" for k using w that by simp
  next
    assume f: "for_find (rd (aw_associated ?r)) (\<lambda>a. aw_winID a = wID) 0 (aw_numIndex ?r) = Some None"
      and all: "\<forall>k < aw_numIndex ?r. aw_winID (wins ?r ! k) \<noteq> wID"
    then have "\<forall>a \<in> set (wins aws). aw_winID a \<noteq> wID"
      using rs(2,3) unfolding rs(4) [symmetric] by (auto simp: in_set_conv_nth)
    with f show thesis by (intro none) (simp_all add: w_associate_find_winID_def)
  next
    fix i assume f: "for_find (rd (aw_associated ?r)) (\<lambda>a. aw_winID a = wID) 0 (aw_numIndex ?r) = Some (Some i)"
      and i: "i < aw_numIndex ?r" "aw_winID (wins ?r ! i) = wID"
    have "wins ?r ! i \<in> set (wins aws)" using i(1) rs(2-4) nth_mem [of i "wins ?r"] by simp
    with f i w(2) [OF i(1)] show thesis
      by (intro some [of "wins ?r ! i"]) (simp_all add: w_associate_find_winID_def Let_def)
  qed
qed

text \<open>\<open>s'\<close> differs from \<open>s\<close> in page tables and in the order of the window lists only.\<close>

definition like_client :: "client option \<Rightarrow> client option \<Rightarrow> bool" where
  "like_client a b \<longleftrightarrow> (a = None \<longleftrightarrow> b = None) \<and>
     (\<forall>c c'. a = Some c \<longrightarrow> b = Some c' \<longrightarrow> c' = c\<lparr>cl_windows := cl_windows c', cl_pages := cl_pages c'\<rparr> \<and>
        (cl_windows c' = cl_windows c \<or> cl_windows c' = resort (cl_windows c)))"

lemma resort_resort [simp]: "resort (resort aws) = resort aws"
  by (simp add: resort_def w_associate_update_def)

lemma resort_assoc:
  assumes "assoc_inv aws"
  shows "assoc_inv (resort aws)" "set (wins (resort aws)) = set (wins aws)"
  using assms resort_wins [OF assms]
  by (simp_all add: assoc_inv_def) (simp_all add: resort_def w_associate_update_def)

lemma like_client_Some:
  "like_client (Some c) (Some c') \<longleftrightarrow> c' = c\<lparr>cl_windows := cl_windows c', cl_pages := cl_pages c'\<rparr> \<and>
     (cl_windows c' = cl_windows c \<or> cl_windows c' = resort (cl_windows c))"
  by (simp add: like_client_def)

lemma like_client_windows:
  assumes "like_client (Some c) (Some c')" and "assoc_inv (cl_windows c)"
  shows "assoc_inv (cl_windows c')" "set (wins (cl_windows c')) = set (wins (cl_windows c))"
proof -
  have "cl_windows c' = cl_windows c \<or> cl_windows c' = resort (cl_windows c)"
    by (rule conjunct2 [OF assms(1) [unfolded like_client_Some]])
  then have "assoc_inv (cl_windows c') \<and> set (wins (cl_windows c')) = set (wins (cl_windows c))"
  proof
    assume "cl_windows c' = cl_windows c"
    with assms(2) show ?thesis by (simp only: simp_thms)
  next
    assume "cl_windows c' = resort (cl_windows c)"
    with resort_assoc [OF assms(2)] show ?thesis by (simp only: simp_thms)
  qed
  then show "assoc_inv (cl_windows c')" "set (wins (cl_windows c')) = set (wins (cl_windows c))" by blast+
qed

lemma like_client_None: "like_client a b \<Longrightarrow> a = None \<longleftrightarrow> b = None"
  by (simp add: like_client_def)

lemma like_client_trans:
  assumes "like_client a b" "like_client b c"
  shows "like_client a c"
proof (cases a)
  case None
  with assms show ?thesis by (simp add: like_client_def)
next
  case x: (Some x)
  with like_client_None [OF assms(1)] like_client_None [OF assms(2)] obtain y z where
    e: "b = Some y" "c = Some z" by auto
  note y = assms(1) [unfolded x e like_client_Some] and z = assms(2) [unfolded e like_client_Some]
  have "z = x\<lparr>cl_windows := cl_windows z, cl_pages := cl_pages z\<rparr>"
    by (subst conjunct1 [OF z], subst conjunct1 [OF y]) simp
  moreover have "cl_windows z = cl_windows x \<or> cl_windows z = resort (cl_windows x)"
    using conjunct2 [OF y] conjunct2 [OF z] resort_resort by metis
  ultimately show ?thesis unfolding x e like_client_Some by blast
qed

lemma like_client_fields:
  assumes "like_client (Some c) (Some c')"
  shows "cl_paramBuffer c' = cl_paramBuffer c" "cl_notificationBuffer c' = cl_notificationBuffer c"
    "cl_mask c' = cl_mask c"
proof -
  have e: "c' = c\<lparr>cl_windows := cl_windows c', cl_pages := cl_pages c'\<rparr>" using assms by (simp add: like_client_def)
  show "cl_paramBuffer c' = cl_paramBuffer c" "cl_notificationBuffer c' = cl_notificationBuffer c"
    "cl_mask c' = cl_mask c" by (subst e, simp)+
qed

lemma like_client_refl: "like_client a a"
  by (simp add: like_client_def)

definition unmapped :: "memserv \<Rightarrow> memserv \<Rightarrow> bool" where
  "unmapped s s' \<longleftrightarrow> s' = s\<lparr>ms_pids := ms_pids s', ms_calls := ms_calls s'\<rparr> \<and> pid_inv (ms_pids s') \<and>
     (\<forall>pid. like_client (client_of s pid) (client_of s' pid))"

lemma unmapped_refl: "pid_inv (ms_pids s) \<Longrightarrow> unmapped s s"
  by (simp add: unmapped_def like_client_refl)

lemma unmapped_fields:
  assumes "unmapped s s'"
  shows "ms_windows s' = ms_windows s" "ms_dspaces s' = ms_dspaces s" "ms_dslist s' = ms_dslist s"
    "ms_wlist s' = ms_wlist s" "pid_inv (ms_pids s')" "client_of s' pid = None \<longleftrightarrow> client_of s pid = None"
    "ms_frames s' = ms_frames s"
    "ms_unblockClientFaultPID s' = ms_unblockClientFaultPID s" "ms_pdlist s' = ms_pdlist s"
    "ms_exitProcessPID s' = ms_exitProcessPID s"
proof -
  have e: "s' = s\<lparr>ms_pids := ms_pids s', ms_calls := ms_calls s'\<rparr>" using assms by (simp add: unmapped_def)
  show "ms_windows s' = ms_windows s" "ms_dspaces s' = ms_dspaces s" "ms_dslist s' = ms_dslist s"
    "ms_wlist s' = ms_wlist s" "ms_frames s' = ms_frames s"
    "ms_unblockClientFaultPID s' = ms_unblockClientFaultPID s" "ms_pdlist s' = ms_pdlist s"
    "ms_exitProcessPID s' = ms_exitProcessPID s"
    by (subst e, simp)+
  show "pid_inv (ms_pids s')" using assms by (simp add: unmapped_def)
  show "client_of s' pid = None \<longleftrightarrow> client_of s pid = None"
    using assms by (auto simp: unmapped_def like_client_def)
qed

lemma unmapped_trans:
  assumes "unmapped s t" and "unmapped t u"
  shows "unmapped s u"
proof -
  have "u = s\<lparr>ms_pids := ms_pids u, ms_calls := ms_calls u\<rparr>"
    by (rule memserv.equality) (simp_all add: unmapped_fields [OF assms(1)] unmapped_fields [OF assms(2)])
  moreover have "like_client (client_of s pid) (client_of u pid)" for pid
    using assms like_client_trans unfolding unmapped_def by metis
  ultimately show ?thesis using assms(2) unfolding unmapped_def by blast
qed

lemma unmapped_holds: "unmapped s s' \<Longrightarrow> holds s' = holds s"
proof
  fix h assume u: "unmapped s s'"
  have like: "map_option (\<lambda>c. (cl_paramBuffer c, cl_notificationBuffer c)) (client_of s' pid) =
      map_option (\<lambda>c. (cl_paramBuffer c, cl_notificationBuffer c)) (client_of s pid)" for pid
  proof -
    have l: "like_client (client_of s pid) (client_of s' pid)" using u by (simp add: unmapped_def)
    show ?thesis
    proof (cases "client_of s pid")
      case None
      with l show ?thesis by (simp add: like_client_def)
    next
      case (Some c)
      with l obtain c' where "client_of s' pid = Some c'" by (cases "client_of s' pid") (simp_all add: like_client_def)
      with Some l like_client_fields [of c c'] show ?thesis by simp
    qed
  qed
  show "holds s' h = holds s h"
  proof (cases h)
    case (Win wa)
    with unmapped_fields(1) [OF u] show ?thesis by simp
  next
    case (Param pid)
    with like [of pid] show ?thesis
      by (cases "client_of s pid"; cases "client_of s' pid") simp_all
  next
    case (Notif pid)
    with like [of pid] show ?thesis
      by (cases "client_of s pid"; cases "client_of s' pid") simp_all
  qed
qed

lemma unmapped_inv:
  assumes inv: "ms_inv_but X s" and u: "unmapped s s'"
  shows "ms_inv_but X s'"
proof -
  note f = unmapped_fields [OF u] and h = unmapped_holds [OF u]
  have "clients_ok X (client_of s') (ms_windows s')"
    unfolding clients_ok_def f
  proof (intro allI impI)
    fix pid c' assume c': "client_of s' pid = Some c'"
    with f(6) [of pid] obtain c where c: "client_of s pid = Some c" by auto
    have ok: "assoc_inv (cl_windows c)" "\<forall>aw \<in> set (wins (cl_windows c)).
        (\<exists>wa w. ms_windows s wa = Some w \<and> w_wID w = aw_winID aw \<and> w_vspace w = Some pid) \<or>
        pid \<in> X \<and> (\<forall>wa w. ms_windows s wa = Some w \<longrightarrow> w_wID w \<noteq> aw_winID aw)"
      using inv c by (simp_all add: ms_inv_def clients_ok_def)
    have "like_client (Some c) (Some c')" using u c c' unfolding unmapped_def by metis
    from like_client_windows [OF this ok(1)] ok show "assoc_inv (cl_windows c') \<and> (\<forall>aw \<in> set (wins (cl_windows c')).
        (\<exists>wa w. ms_windows s wa = Some w \<and> w_wID w = aw_winID aw \<and> w_vspace w = Some pid) \<or>
        pid \<in> X \<and> (\<forall>wa w. ms_windows s wa = Some w \<longrightarrow> w_wID w \<noteq> aw_winID aw))" by simp
  qed
  with inv show ?thesis unfolding ms_inv_def h f using f(5) by simp
qed

lemma unmapped_client:
  assumes inv: "pid_inv (ms_pids s)" and c: "client_of s pid = Some c"
    and f: "f c = c\<lparr>cl_windows := cl_windows (f c), cl_pages := cl_pages (f c)\<rparr>" 
      "cl_windows (f c) = cl_windows c \<or> cl_windows (f c) = resort (cl_windows c)"
  shows "\<exists>s'. upd_client pid f s = Some s' \<and> unmapped s s' \<and> client_of s' pid = Some (f c)"
proof -
  from upd_client_spec [OF inv c, of f] obtain p where
    p: "upd_client pid f s = Some (s\<lparr>ms_pids := p\<rparr>)" "pid_inv p"
      "client_of (s\<lparr>ms_pids := p\<rparr>) = (client_of s)(pid \<mapsto> f c)" by blast
  have "unmapped s (s\<lparr>ms_pids := p\<rparr>)"
    unfolding unmapped_def p(3) using p(2) c f by (simp add: like_client_def)
  with p(1,3) show ?thesis by auto
qed

lemma unmap_frame_spec:
  assumes inv: "pid_inv (ms_pids s)" and c: "client_of s pid = Some c"
  shows "\<exists>s'. vs_unmap_frame pid vaddr s = Some s' \<and> unmapped s s'"
proof (cases "vspace_get_cap c vaddr")
  case None
  with c unmapped_refl [OF inv] show ?thesis by (simp add: vs_unmap_frame_def)
next
  case (Some cap)
  from unmapped_client [OF inv c, of "\<lambda>c. c\<lparr>cl_pages := (cl_pages c)(REFOS_PAGE_ALIGN vaddr := None)\<rparr>"] obtain s' where
    s': "upd_client pid (\<lambda>c. c\<lparr>cl_pages := (cl_pages c)(REFOS_PAGE_ALIGN vaddr := None)\<rparr>) s = Some s'" "unmapped s s'" by auto
  have "unmapped s' (log_calls cs s')" for cs
    using unmapped_fields(5) [OF s'(2)] by (simp add: unmapped_def like_client_refl) (simp add: log_calls_def)
  with unmapped_trans [OF s'(2)] s'(1) c Some show ?thesis by (auto simp: vs_unmap_frame_def)
qed

lemma unmap_window_spec:
  assumes inv: "ms_inv_but X s" and c: "client_of s pid = Some c"
    and live: "pid \<in> X \<Longrightarrow> \<exists>wa w. ms_windows s wa = Some w \<and> w_wID w = wID"
  shows "\<exists>s' c'. vs_unmap_window pid wID s = Some s' \<and> unmapped s s' \<and> client_of s' pid = Some c' \<and>
    cl_windows c' = resort (cl_windows c)"
proof -
  have pi: "pid_inv (ms_pids s)" and wl: "oat_ok (ms_wlist s) (ms_windows s) w_wID W_MAX_WINDOWS"
    and ai: "assoc_inv (cl_windows c)"
    and own: "\<forall>aw \<in> set (wins (cl_windows c)).
      (\<exists>wa w. ms_windows s wa = Some w \<and> w_wID w = aw_winID aw \<and> w_vspace w = Some pid) \<or>
      pid \<in> X \<and> (\<forall>wa w. ms_windows s wa = Some w \<longrightarrow> w_wID w \<noteq> aw_winID aw)"
    using inv c by (simp_all add: ms_inv_def clients_ok_def)
  let ?aws = "resort (cl_windows c)"
  obtain aw where fw: "w_associate_find_winID (cl_windows c) wID = Some (?aws, aw)"
    "case aw of None \<Rightarrow> True | Some a \<Rightarrow> a \<in> set (wins (cl_windows c)) \<and> aw_winID a = wID"
    by (rule find_winID_cases [OF ai, of wID]) auto
  from unmapped_client [OF pi c, of "\<lambda>c. c\<lparr>cl_windows := ?aws\<rparr>"] obtain t where
    t: "upd_client pid (\<lambda>c. c\<lparr>cl_windows := ?aws\<rparr>) s = Some t" "unmapped s t"
      "client_of t pid = Some (c\<lparr>cl_windows := ?aws\<rparr>)" by auto
  show ?thesis
  proof (cases aw)
    case None
    with fw(1) t c show ?thesis by (simp add: vs_unmap_window_def)
  next
    case (Some a)
    with fw(2) own live obtain wa w where w: "ms_windows s wa = Some w" "w_wID w = wID" "w_vspace w = Some pid"
      "aw_winID a = wID" by fastforce
    note tf = unmapped_fields [OF t(2)]
    have gw: "w_get_window t wID = Some (Some wa)"
      using get_window [of t wa w] wl w(1,2) unfolding tf by (simp add: tf)
    have loop: "\<exists>u. for_each [0..<n] (\<lambda>va. vs_unmap_frame pid (g va)) t = Some u \<and> unmapped t u" for n g
    proof (rule for_each_total)
      show "unmapped t t" by (rule unmapped_refl [OF tf(5)])
      fix i u assume "unmapped t u"
      then have "pid_inv (ms_pids u)" "client_of u pid \<noteq> None" using unmapped_fields t(3) by auto
      then obtain v where "vs_unmap_frame pid (g i) u = Some v" "unmapped u v"
        using unmap_frame_spec by blast
      with unmapped_trans [OF \<open>unmapped t u\<close>] show "\<exists>v. vs_unmap_frame pid (g i) u = Some v \<and> unmapped t v" by blast
    qed
    from loop [of "refos_round_up_npages (aw_size a)" "\<lambda>va. u32 (aw_offset a + va * REFOS_PAGE_SIZE)"] obtain u where u: "for_each [0..<refos_round_up_npages (aw_size a)]
        (\<lambda>va. vs_unmap_frame pid (u32 (aw_offset a + va * REFOS_PAGE_SIZE))) t = Some u" "unmapped t u" by blast
    have like: "like_client (client_of t pid) (client_of u pid)" using u(2) by (simp add: unmapped_def)
    then obtain c' where c': "client_of u pid = Some c'" using t(3) by (cases "client_of u pid") (simp_all add: like_client_def)
    with like t(3) have "cl_windows c' = ?aws" by (simp add: like_client_def)
    moreover have "vs_unmap_window pid wID s = Some u"
      using fw(1) t(1) c Some w tf gw u(1) by (simp add: vs_unmap_window_def)
    ultimately show ?thesis using c' unmapped_trans [OF t(2) u(2)] by blast
  qed
qed

section \<open>Emptying and filling a window\<close>

definition dec_ref :: "(nat \<rightharpoonup> ram_dspace) \<Rightarrow> nat option \<Rightarrow> nat \<rightharpoonup> ram_dspace" where
  "dec_ref ds p = (case p of None \<Rightarrow> ds | Some da \<Rightarrow>
     (case ds da of None \<Rightarrow> ds | Some d \<Rightarrow> ds(da \<mapsto> d\<lparr>ds_ref := ds_ref d - 1\<rparr>)))"

lemma ds_ok_ref [simp]: "ds_ok (d\<lparr>ds_ref := n\<rparr>) = ds_ok d"
  by (simp add: ds_ok_def)

lemma ms_inv_dspace_ref:
  assumes inv: "ms_inv_but X s" and d: "ms_dspaces s da = Some d"
    and ref: "ref_ok (holds s') ((ms_dspaces s)(da \<mapsto> d\<lparr>ds_ref := n\<rparr>))"
    and s': "ms_dspaces s' = (ms_dspaces s)(da \<mapsto> d\<lparr>ds_ref := n\<rparr>)" "ms_dslist s' = ms_dslist s"
      "ms_wlist s' = ms_wlist s" "oat_ok (ms_wlist s') (ms_windows s') w_wID W_MAX_WINDOWS"
      "pid_inv (ms_pids s')" "clients_ok X (client_of s') (ms_windows s')"
  shows "ms_inv_but X s'"
proof -
  have ds: "oat_ok (ms_dslist s) (ms_dspaces s) (\<lambda>d. int (ds_ID d)) RAM_DATASPACE_MAX_NUM_DATASPACE"
    and ok: "\<And>a x. ms_dspaces s a = Some x \<Longrightarrow> ds_ok x" using inv by (auto simp: ms_inv_def)
  have "oat_ok (ms_dslist s') (ms_dspaces s') (\<lambda>d. int (ds_ID d)) RAM_DATASPACE_MAX_NUM_DATASPACE"
    unfolding s' by (rule oat_ok_upd [OF ds d]) simp
  moreover have "ds_ok x" if "ms_dspaces s' a = Some x" for a x
    using that ok d unfolding s'(1) by (auto split: if_splits)
  ultimately show ?thesis using ref s' by (simp add: ms_inv_def)
qed

lemma drop_window_inv:
  assumes inv: "ms_inv_but X s" and w: "ms_windows s wa = Some w" and da: "w_ramDataspace w = Some da"
    and d: "ms_dspaces s da = Some d"
  shows "2 \<le> ds_ref d"
    "ms_inv_but X (s\<lparr>ms_dspaces := (ms_dspaces s)(da \<mapsto> d\<lparr>ds_ref := ds_ref d - 1\<rparr>),
       ms_windows := (ms_windows s)(wa \<mapsto> w\<lparr>w_ramDataspace := None, w_ramDataspaceOffset := 0\<rparr>)\<rparr>)"
proof -
  have h: "holds s (Win wa) = Some da" using w da by simp
  have ok: "ref_ok (holds s) (ms_dspaces s)" "clients_ok X (client_of s) (ms_windows s)"
    "oat_ok (ms_wlist s) (ms_windows s) w_wID W_MAX_WINDOWS" "pid_inv (ms_pids s)"
    using inv by (simp_all add: ms_inv_def)
  show "2 \<le> ds_ref d" by (rule ref_drop(1) [OF ok(1) h d])
  let ?w = "w\<lparr>w_ramDataspace := None, w_ramDataspaceOffset := 0\<rparr>"
  let ?s = "s\<lparr>ms_dspaces := (ms_dspaces s)(da \<mapsto> d\<lparr>ds_ref := ds_ref d - 1\<rparr>), ms_windows := (ms_windows s)(wa \<mapsto> ?w)\<rparr>"
  have hs: "holds ?s = (holds s)(Win wa := None)"
    using holds_window [of "s\<lparr>ms_dspaces := (ms_dspaces s)(da \<mapsto> d\<lparr>ds_ref := ds_ref d - 1\<rparr>)\<rparr>" wa ?w] by simp
  show "ms_inv_but X ?s"
    by (rule ms_inv_dspace_ref [OF inv d, of _ "ds_ref d - 1"])
      (use ref_drop(2) [OF ok(1) h d] hs ok oat_ok_upd [OF ok(3) w, of ?w] clients_ok_window [OF ok(2) w, of ?w] in simp_all)
qed

text \<open>The parts of the state that the operations on windows and buffers do not touch.\<close>

definition same_rest :: "memserv \<Rightarrow> memserv \<Rightarrow> bool" where
  "same_rest s t \<longleftrightarrow> ms_frames t = ms_frames s \<and> ms_pdlist t = ms_pdlist s \<and>
     ms_exitProcessPID t = ms_exitProcessPID s \<and> ms_unblockClientFaultPID t = ms_unblockClientFaultPID s"

lemma same_rest_refl: "same_rest s s"
  by (simp add: same_rest_def)

lemma same_rest_trans: "same_rest s t \<Longrightarrow> same_rest t u \<Longrightarrow> same_rest s u"
  by (simp add: same_rest_def)

lemma switch_spec:
  assumes inv: "ms_inv_but X s" and w: "ms_windows s wa = Some w"
  shows "\<exists>s' w'. window_switch_mode (unref_at (Suc n) env) wa mode s = Some s' \<and> ms_inv_but X s' \<and>
    holds s' = (holds s)(Win wa := None) \<and> ms_windows s' = (ms_windows s)(wa \<mapsto> w') \<and>
    w_wID w' = w_wID w \<and> w_vspace w' = w_vspace w \<and> w_reservation w' = w_reservation w \<and>
    w_mode w' = mode \<and> w_ramDataspace w' = None \<and> w_pager w' = 0 \<and>
    ms_dspaces s' = dec_ref (ms_dspaces s) (w_ramDataspace w) \<and> ms_dslist s' = ms_dslist s \<and>
    ms_wlist s' = ms_wlist s \<and> (\<forall>pid. like_client (client_of s pid) (client_of s' pid)) \<and> same_rest s s'"
proof -
  define w1 where "w1 = (if w_pager w \<noteq> 0 then w\<lparr>w_pager := 0, w_pagerPID := PID_NULL\<rparr> else w)"
  define s1 where "s1 = (if w_pager w \<noteq> 0
    then log_calls (free_cap (w_pager w)) s\<lparr>ms_windows := (ms_windows s)(wa \<mapsto> w1)\<rparr> else s)"
  have w1: "w_wID w1 = w_wID w" "w_vspace w1 = w_vspace w" "w_reservation w1 = w_reservation w"
    "w_ramDataspace w1 = w_ramDataspace w" "w_pager w1 = 0" by (simp_all add: w1_def)
  have e1: "(if w_pager w \<noteq> 0
           then upd_window wa (\<lambda>w. w\<lparr>w_pager := 0, w_pagerPID := PID_NULL\<rparr>) (log_calls (free_cap (w_pager w)) s)
           else Some s) = Some s1"
    using w by (simp add: s1_def w1_def upd_window_def)
  have f1: "ms_windows s1 = (ms_windows s)(wa \<mapsto> w1)" "ms_dspaces s1 = ms_dspaces s" "ms_dslist s1 = ms_dslist s"
    "ms_wlist s1 = ms_wlist s" "client_of s1 = client_of s" and i1: "ms_inv_but X s1" and h1: "holds s1 = holds s"
  proof -
    let ?t = "log_calls (free_cap (w_pager w)) s"
    have t: "ms_inv_but X ?t" "ms_windows ?t wa = Some w" using inv w by simp_all
    note k = ms_inv_window [OF t, of w1, OF w1(1,2,4)]
    show "ms_inv_but X s1" "holds s1 = holds s" using k inv by (simp_all add: s1_def)
    show "ms_windows s1 = (ms_windows s)(wa \<mapsto> w1)" using w by (simp add: s1_def w1_def fun_upd_idem)
    show "ms_dspaces s1 = ms_dspaces s" "ms_dslist s1 = ms_dslist s" "ms_wlist s1 = ms_wlist s"
      "client_of s1 = client_of s" by (simp_all add: s1_def)
  qed
  define w2 where "w2 = (if w_ramDataspace w = None then w1 else w1\<lparr>w_ramDataspace := None, w_ramDataspaceOffset := 0\<rparr>)"
  define s2 where "s2 = s1\<lparr>ms_dspaces := dec_ref (ms_dspaces s) (w_ramDataspace w), ms_windows := (ms_windows s)(wa \<mapsto> w2)\<rparr>"
  have w2: "w_wID w2 = w_wID w" "w_vspace w2 = w_vspace w" "w_reservation w2 = w_reservation w"
    "w_ramDataspace w2 = None" "w_pager w2 = 0" using w1 by (simp_all add: w2_def)
  have e2: "(case w_ramDataspace w of None \<Rightarrow> Some s1 | Some da \<Rightarrow> do {
        d \<leftarrow> ms_dspaces s1 da; t \<leftarrow> unref_at (Suc n) env (int (ds_ID d)) s1;
        upd_window wa (\<lambda>w. w\<lparr>w_ramDataspace := None, w_ramDataspaceOffset := 0\<rparr>) t }) = Some s2 \<and> ms_inv_but X s2"
  proof (cases "w_ramDataspace w")
    case None
    then have "s2 = s1" unfolding s2_def w2_def by (intro memserv.equality) (simp_all add: f1 dec_ref_def)
    with None i1 show ?thesis by simp
  next
    case (Some da)
    have "ms_dspaces s da \<noteq> None"
      using inv w Some unfolding ms_inv_def ref_ok_def by (metis bind.bind_lunit holds.simps(1))
    then obtain d where d: "ms_dspaces s1 da = Some d" "ms_dspaces s da = Some d" using f1(2) by auto
    have w1s: "ms_windows s1 wa = Some w1" "w_ramDataspace w1 = Some da" using f1(1) w1(4) Some by simp_all
    note dr = drop_window_inv [OF i1 w1s d(1)]
    have ok: "oat_ok (ms_dslist s1) (ms_dspaces s1) (\<lambda>d. int (ds_ID d)) RAM_DATASPACE_MAX_NUM_DATASPACE"
      using i1 by (simp add: ms_inv_def)
    have eq: "s1\<lparr>ms_dspaces := (ms_dspaces s1)(da \<mapsto> d\<lparr>ds_ref := ds_ref d - 1\<rparr>),
       ms_windows := (ms_windows s1)(wa \<mapsto> w1\<lparr>w_ramDataspace := None, w_ramDataspaceOffset := 0\<rparr>)\<rparr> = s2"
      unfolding s2_def w2_def using Some d by (intro memserv.equality) (simp_all add: f1 dec_ref_def)
    with dr unref_dec [OF ok d(1) dr(1), of n env] d Some w1s(1) show ?thesis by (simp add: upd_window_def)
  qed
  have f2: "ms_windows s2 wa = Some w2" "client_of s2 = client_of s" "ms_dslist s2 = ms_dslist s" "ms_wlist s2 = ms_wlist s"
    by (simp_all add: s2_def f1)
  have h2: "holds s2 = (holds s)(Win wa := None)"
  proof
    fix h show "holds s2 h = ((holds s)(Win wa := None)) h"
      using w2(4) by (cases h) (auto simp: s2_def f1)
  qed
  have "\<exists>s3. (if w_mode w2 \<noteq> W_MODE_EMPTY \<and> w_clientOwnerPID w2 \<noteq> PID_NULL then do {
             pcb \<leftarrow> pid_get_pcb (ms_pids s2) (w_clientOwnerPID w2);
             (case pcb of None \<Rightarrow> Some s2 | Some _ \<Rightarrow> vs_unmap_window (w_clientOwnerPID w2) (w_wID w2) s2) }
           else Some s2) = Some s3 \<and> unmapped s2 s3"
  proof -
    have pi: "pid_inv (ms_pids s2)" using e2 by (simp add: ms_inv_def)
    note g = pid_get_pcb_eq [OF pi, of "w_clientOwnerPID w2"] client_of_eq [OF pi, of "w_clientOwnerPID w2"]
    show ?thesis
      using unmapped_refl [OF pi] f2(1)
        unmap_window_spec [OF conjunct2 [OF e2], of "w_clientOwnerPID w2" _ "w_wID w2"] g
      by (cases "pid_pcb (ms_pids s2) (w_clientOwnerPID w2)") auto
  qed
  then obtain s3 where e3: "(if w_mode w2 \<noteq> W_MODE_EMPTY \<and> w_clientOwnerPID w2 \<noteq> PID_NULL then do {
             pcb \<leftarrow> pid_get_pcb (ms_pids s2) (w_clientOwnerPID w2);
             (case pcb of None \<Rightarrow> Some s2 | Some _ \<Rightarrow> vs_unmap_window (w_clientOwnerPID w2) (w_wID w2) s2) }
           else Some s2) = Some s3" and u3: "unmapped s2 s3" by blast
  note f3 = unmapped_fields [OF u3] and i3 = unmapped_inv [OF conjunct2 [OF e2] u3] and h3 = unmapped_holds [OF u3]
  let ?w = "w2\<lparr>w_mode := mode\<rparr>"
  let ?s = "s3\<lparr>ms_windows := (ms_windows s3)(wa \<mapsto> ?w)\<rparr>"
  have w3: "ms_windows s3 wa = Some w2" using f3(1) f2(1) by simp
  have "window_switch_mode (unref_at (Suc n) env) wa mode s = Some ?s"
    unfolding window_switch_mode_def using w e1 e2 e3 f2(1) w3 by (simp add: upd_window_def)
  moreover have "ms_inv_but X ?s" "holds ?s = (holds s)(Win wa := None)"
    using ms_inv_window [OF i3 w3, of ?w] h2 h3 by simp_all
  moreover have "ms_windows ?s = (ms_windows s)(wa \<mapsto> ?w)" using f3(1) by (simp add: s2_def)
  moreover have "ms_dspaces ?s = dec_ref (ms_dspaces s) (w_ramDataspace w)" using f3(2) by (simp add: s2_def)
  moreover have "like_client (client_of s pid) (client_of ?s pid)" for pid
    using u3 by (simp add: unmapped_def f2)
  moreover have "same_rest s ?s" using f3 by (simp add: same_rest_def s2_def s1_def log_calls_def)
  ultimately show ?thesis using f3 f2 w2 by (intro exI [of _ ?s] exI [of _ ?w]) simp
qed

text \<open>The first unref of a dataspace that is held takes the branch that only counts.\<close>

lemma ms_inv_ref_pos: "ms_inv_but X s \<Longrightarrow> ms_dspaces s da = Some d \<Longrightarrow> 0 < ds_ref d"
  by (auto simp: ms_inv_def ref_ok_def)

lemma add_ref_inv:
  assumes inv: "ms_inv_but X s" and d: "ms_dspaces s da = Some d" and h: "holds s h = None"
    and s': "ms_dspaces s' = (ms_dspaces s)(da \<mapsto> d\<lparr>ds_ref := ds_ref d + 1\<rparr>)" "ms_dslist s' = ms_dslist s"
      "ms_wlist s' = ms_wlist s" "oat_ok (ms_wlist s') (ms_windows s') w_wID W_MAX_WINDOWS"
      "pid_inv (ms_pids s')" "clients_ok X (client_of s') (ms_windows s')" "holds s' = (holds s)(h \<mapsto> da)"
  shows "ms_inv_but X s'"
proof -
  have "ref_ok (holds s) (ms_dspaces s)" using inv by (simp add: ms_inv_def)
  from ref_add [OF this h d] show ?thesis
    by (intro ms_inv_dspace_ref [OF inv d, of s' "ds_ref d + 1"]) (use s' in simp_all)
qed

lemma set_anon_spec:
  assumes inv: "ms_inv_but X s" and w: "ms_windows s wa = Some w" and d: "ms_dspaces s da = Some d"
  shows "\<exists>s'. w_set_anon_dspace env wa (Some da) offset s = Some s' \<and> ms_inv_but X s' \<and>
    holds s' = (holds s)(Win wa \<mapsto> da) \<and> (\<exists>w'. ms_windows s' = (ms_windows s)(wa \<mapsto> w') \<and>
      w_mode w' = W_MODE_ANONYMOUS \<and> w_ramDataspaceOffset w' = offset \<and> w_wID w' = w_wID w)"
proof -
  from switch_spec [OF inv w, of 1 env W_MODE_ANONYMOUS] obtain t v where
    t: "window_switch_mode (ram_dspace_unref env) wa W_MODE_ANONYMOUS s = Some t" "ms_inv_but X t"
      "holds t = (holds s)(Win wa := None)" "ms_windows t = (ms_windows s)(wa \<mapsto> v)"
      "w_wID v = w_wID w" "w_mode v = W_MODE_ANONYMOUS"
      "ms_dspaces t = dec_ref (ms_dspaces s) (w_ramDataspace w)"
    by (auto simp: ram_dspace_unref_def numeral_2_eq_2)
  have "ms_dspaces t da \<noteq> None"
    using d unfolding t(7) dec_ref_def by (auto split: option.splits)
  then obtain e where e: "ms_dspaces t da = Some e" by blast
  let ?v = "v\<lparr>w_ramDataspace := Some da, w_ramDataspaceOffset := offset\<rparr>"
  let ?u = "t\<lparr>ms_windows := (ms_windows t)(wa \<mapsto> ?v)\<rparr>"
  let ?s = "?u\<lparr>ms_dspaces := (ms_dspaces t)(da \<mapsto> e\<lparr>ds_ref := ds_ref e + 1\<rparr>)\<rparr>"
  have tv: "ms_windows t wa = Some v" using t(4) by simp
  have ok: "oat_ok (ms_dslist t) (ms_dspaces t) (\<lambda>d. int (ds_ID d)) RAM_DATASPACE_MAX_NUM_DATASPACE"
    "oat_ok (ms_wlist t) (ms_windows t) w_wID W_MAX_WINDOWS" "pid_inv (ms_pids t)" "clients_ok X (client_of t) (ms_windows t)"
    using t(2) by (simp_all add: ms_inv_def)
  have "w_set_anon_dspace env wa (Some da) offset s = Some ?s"
    using t(1) tv e ref_inc [of ?u da e] ok(1) ms_inv_ref_pos [OF t(2) e]
    by (simp add: w_set_anon_dspace_def upd_window_def)
  moreover have h: "holds ?s = (holds s)(Win wa \<mapsto> da)"
    using holds_window [of t wa ?v] t(3) by simp
  moreover have "ms_inv_but X ?s"
    by (rule add_ref_inv [OF t(2) e, of "Win wa"])
      (use t(3) h oat_ok_upd [OF ok(2) tv, of ?v] clients_ok_window [OF ok(4) tv, of ?v] ok(3) in simp_all)
  moreover have "ms_windows ?s = (ms_windows s)(wa \<mapsto> ?v)" "w_mode ?v = W_MODE_ANONYMOUS" "w_wID ?v = w_wID w"
    using t(4-6) by simp_all
  ultimately show ?thesis by (intro exI [of _ ?s] exI [of _ ?v] conjI) simp_all
qed

lemma clear_window_spec:
  assumes inv: "ms_inv_but X s" and w: "ms_windows s wa = Some w"
  shows "\<exists>s'. w_set_anon_dspace env wa None offset s = Some s' \<and> ms_inv_but X s' \<and> holds s' = (holds s)(Win wa := None)"
  using switch_spec [OF inv w, of 1 env W_MODE_EMPTY]
  by (auto simp: w_set_anon_dspace_def ram_dspace_unref_def numeral_2_eq_2)

lemma set_pager_spec:
  assumes inv: "ms_inv_but X s" and w: "ms_windows s wa = Some w"
  shows "\<exists>s'. w_set_pager_endpoint env wa ep pid s = Some s' \<and> ms_inv_but X s' \<and> holds s' = (holds s)(Win wa := None) \<and>
    (\<exists>w'. ms_windows s' wa = Some w' \<and> w_pager w' = ep \<and> w_mode w' = (if ep = 0 then W_MODE_EMPTY else W_MODE_PAGER))"
proof (cases "ep = 0")
  case True
  with switch_spec [OF inv w, of 1 env W_MODE_EMPTY] show ?thesis
    by (auto simp: w_set_pager_endpoint_def ram_dspace_unref_def numeral_2_eq_2)
next
  case False
  from switch_spec [OF inv w, of 1 env W_MODE_PAGER] obtain t v where
    t: "window_switch_mode (ram_dspace_unref env) wa W_MODE_PAGER s = Some t" "ms_inv_but X t"
      "holds t = (holds s)(Win wa := None)" "ms_windows t = (ms_windows s)(wa \<mapsto> v)" "w_mode v = W_MODE_PAGER"
    by (auto simp: ram_dspace_unref_def numeral_2_eq_2)
  have tv: "ms_windows t wa = Some v" using t(4) by simp
  note k = ms_inv_window [OF t(2) tv, of "v\<lparr>w_pager := ep, w_pagerPID := pid\<rparr>"]
  show ?thesis
    using False t(1,3,5) tv k by (auto simp: w_set_pager_endpoint_def upd_window_def)
qed

section \<open>Buffers\<close>

lemma like_clients_ok:
  assumes "clients_ok X cs ws" and "cs pid = Some c" and "cl_windows c' = cl_windows c"
  shows "clients_ok X (cs(pid \<mapsto> c')) ws"
  using assms by (auto simp: clients_ok_def)

text \<open>Dropping the reference of the parameter buffer or of the notification buffer of a process.\<close>

lemma dec_ref_IDs:
  "map_option (ds_ref_update (\<lambda>_. 0)) (dec_ref ds p x) = map_option (ds_ref_update (\<lambda>_. 0)) (ds x)" "dec_ref ds p x = None \<longleftrightarrow> ds x = None"
  by (auto simp: dec_ref_def split: option.splits)

text \<open>No object and no process was added or removed.\<close>

definition same_objects :: "memserv \<Rightarrow> memserv \<Rightarrow> bool" where
  "same_objects s t \<longleftrightarrow> (\<forall>wa. map_option w_wID (ms_windows t wa) = map_option w_wID (ms_windows s wa)) \<and>
     (\<forall>pid. client_of t pid = None \<longleftrightarrow> client_of s pid = None) \<and>
     (\<forall>x. map_option (ds_ref_update (\<lambda>_. 0)) (ms_dspaces t x) = map_option (ds_ref_update (\<lambda>_. 0)) (ms_dspaces s x))"

lemma same_objects_refl: "same_objects s s"
  by (simp add: same_objects_def)

lemma same_objects_trans: "same_objects s t \<Longrightarrow> same_objects t u \<Longrightarrow> same_objects s u"
  by (simp add: same_objects_def)

lemma same_objects_dspace: "same_objects s t \<Longrightarrow> ms_dspaces s x \<noteq> None \<Longrightarrow> ms_dspaces t x \<noteq> None"
  by (metis same_objects_def option.map_disc_iff)

lemma drop_buffer:
  assumes inv: "ms_inv_but X s" and c: "client_of s pid = Some c" and h: "holds s h = Some da"
    and f: "cl_windows (f c) = cl_windows c"
      "(holds s)(Param pid := cl_paramBuffer (f c), Notif pid := map_option fst (cl_notificationBuffer (f c))) = (holds s)(h := None)"
  shows "\<exists>d s'. ms_dspaces s da = Some d \<and>
    (do { t \<leftarrow> ram_dspace_unref env (int (ds_ID d)) s; upd_client pid f t }) = Some s' \<and> ms_inv_but X s' \<and>
    holds s' = (holds s)(h := None) \<and> client_of s' = (client_of s)(pid \<mapsto> f c) \<and>
    same_objects s s' \<and> ms_windows s' = ms_windows s \<and> same_rest s s'"
proof -
  have ok: "oat_ok (ms_dslist s) (ms_dspaces s) (\<lambda>d. int (ds_ID d)) RAM_DATASPACE_MAX_NUM_DATASPACE"
    "oat_ok (ms_wlist s) (ms_windows s) w_wID W_MAX_WINDOWS" "pid_inv (ms_pids s)" "clients_ok X (client_of s) (ms_windows s)"
    "ref_ok (holds s) (ms_dspaces s)" using inv by (simp_all add: ms_inv_def)
  from ref_ok_live [OF ok(5) h] obtain d where d: "ms_dspaces s da = Some d" by blast
  let ?t = "s\<lparr>ms_dspaces := (ms_dspaces s)(da \<mapsto> d\<lparr>ds_ref := ds_ref d - 1\<rparr>)\<rparr>"
  have u: "ram_dspace_unref env (int (ds_ID d)) s = Some ?t"
    using unref_dec [OF ok(1) d ref_drop(1) [OF ok(5) h d], of 1 env] by (simp add: ram_dspace_unref_def numeral_2_eq_2)
  have "pid_inv (ms_pids ?t)" "client_of ?t pid = Some c" using ok(3) c by simp_all
  from upd_client_spec [OF this, of f] obtain p where
    p: "upd_client pid f ?t = Some (?t\<lparr>ms_pids := p\<rparr>)" "pid_inv p"
      "client_of (?t\<lparr>ms_pids := p\<rparr>) = (client_of s)(pid \<mapsto> f c)" by auto
  let ?s = "?t\<lparr>ms_pids := p\<rparr>"
  have hs: "holds ?s = (holds s)(h := None)"
    using holds_client [of ?s s pid "f c"] p(3) f(2) by simp
  have "ms_inv_but X ?s"
    by (rule ms_inv_dspace_ref [OF inv d, of _ "ds_ref d - 1"])
      (use ref_drop(2) [OF ok(5) h d] hs ok p like_clients_ok [OF ok(4) c f(1)] in simp_all)
  moreover have "same_objects s ?s" using d c unfolding same_objects_def p(3) by auto
  moreover have "same_rest s ?s" by (simp add: same_rest_def)
  ultimately show ?thesis using d u p(1,3) hs by auto
qed

lemma add_buffer:
  assumes inv: "ms_inv_but X s" and c: "client_of s pid = Some c" and h: "holds s h = None" and d: "ms_dspaces s da = Some d"
    and f: "cl_windows (f c) = cl_windows c"
      "(holds s)(Param pid := cl_paramBuffer (f c), Notif pid := map_option fst (cl_notificationBuffer (f c))) = (holds s)(h \<mapsto> da)"
  shows "\<exists>t s'. ram_dspace_ref (int (ds_ID d)) s = Some t \<and> upd_client pid f t = Some s' \<and> ms_inv_but X s' \<and>
    holds s' = (holds s)(h \<mapsto> da) \<and> same_objects s s'"
proof -
  have ok: "oat_ok (ms_dslist s) (ms_dspaces s) (\<lambda>d. int (ds_ID d)) RAM_DATASPACE_MAX_NUM_DATASPACE"
    "oat_ok (ms_wlist s) (ms_windows s) w_wID W_MAX_WINDOWS" "pid_inv (ms_pids s)" "clients_ok X (client_of s) (ms_windows s)"
    using inv by (simp_all add: ms_inv_def)
  let ?t = "s\<lparr>ms_dspaces := (ms_dspaces s)(da \<mapsto> d\<lparr>ds_ref := ds_ref d + 1\<rparr>)\<rparr>"
  have u: "ram_dspace_ref (int (ds_ID d)) s = Some ?t"
    by (rule ref_inc [OF ok(1) d ms_inv_ref_pos [OF inv d]])
  have "pid_inv (ms_pids ?t)" "client_of ?t pid = Some c" using ok(3) c by simp_all
  from upd_client_spec [OF this, of f] obtain p where
    p: "upd_client pid f ?t = Some (?t\<lparr>ms_pids := p\<rparr>)" "pid_inv p"
      "client_of (?t\<lparr>ms_pids := p\<rparr>) = (client_of s)(pid \<mapsto> f c)" by auto
  let ?s = "?t\<lparr>ms_pids := p\<rparr>"
  have hs: "holds ?s = (holds s)(h \<mapsto> da)"
    using holds_client [of ?s s pid "f c"] p(3) f(2) by simp
  have "ms_inv_but X ?s"
    by (rule add_ref_inv [OF inv d h]) (use hs ok p like_clients_ok [OF ok(4) c f(1)] in simp_all)
  moreover have "same_objects s ?s" using d c unfolding same_objects_def p(3) by auto
  ultimately show ?thesis using u p(1) hs by blast
qed

lemma set_parambuffer_spec:
  assumes inv: "ms_inv_but X s" and c: "client_of s pid = Some c"
    and b: "\<And>da. buf = Some da \<Longrightarrow> \<exists>d. ms_dspaces s da = Some d"
  shows "\<exists>s'. proc_set_parambuffer env pid buf s = Some s' \<and> ms_inv_but X s' \<and>
    holds s' = (holds s)(Param pid := buf) \<and> same_objects s s'"
proof (cases "cl_paramBuffer c = buf")
  case True
  then have "(holds s)(Param pid := buf) = holds s" using c by (auto simp: fun_eq_iff)
  with True inv c show ?thesis by (simp add: proc_set_parambuffer_def same_objects_refl)
next
  case False
  have n: "holds s (Notif pid) = map_option fst (cl_notificationBuffer c)" using c by simp
  obtain t where t: "(case cl_paramBuffer c of None \<Rightarrow> Some s | Some da \<Rightarrow> do {
      d \<leftarrow> ms_dspaces s da; u \<leftarrow> ram_dspace_unref env (int (ds_ID d)) s;
      upd_client pid (\<lambda>c. c\<lparr>cl_paramBuffer := None\<rparr>) u }) = Some t"
    "ms_inv_but X t" "holds t = (holds s)(Param pid := None)" "client_of t pid = Some (c\<lparr>cl_paramBuffer := None\<rparr>)"
    "same_objects s t"
  proof (cases "cl_paramBuffer c")
    case None
    moreover from this have "(holds s)(Param pid := None) = holds s" using c by (auto simp: fun_eq_iff)
    moreover have "c\<lparr>cl_paramBuffer := None\<rparr> = c" using None by simp
    ultimately show thesis using inv c by (intro that [of s]) (simp_all add: same_objects_refl)
  next
    case (Some da)
    have "(holds s)(Param pid := None, Notif pid := map_option fst (cl_notificationBuffer c)) = (holds s)(Param pid := None)"
      using n by (auto simp: fun_eq_iff)
    with drop_buffer [OF inv c, of "Param pid" da "\<lambda>c. c\<lparr>cl_paramBuffer := None\<rparr>" env] Some c obtain d t where
      "ms_dspaces s da = Some d" "(do { t \<leftarrow> ram_dspace_unref env (int (ds_ID d)) s;
        upd_client pid (\<lambda>c. c\<lparr>cl_paramBuffer := None\<rparr>) t }) = Some t" "ms_inv_but X t" "holds t = (holds s)(Param pid := None)"
      "client_of t = (client_of s)(pid \<mapsto> c\<lparr>cl_paramBuffer := None\<rparr>)" "same_objects s t"
      by auto
    then show thesis using Some by (intro that [of t]) auto
  qed
  have nt: "holds t (Notif pid) = map_option fst (cl_notificationBuffer c)" using t(3) n by simp
  show ?thesis
  proof (cases buf)
    case None
    have pi: "pid_inv (ms_pids t)" using t(2) by (simp add: ms_inv_def)
    from upd_client_spec [OF pi t(4), of "\<lambda>c. c\<lparr>cl_paramBuffer := None\<rparr>"] obtain p where
      p: "upd_client pid (\<lambda>c. c\<lparr>cl_paramBuffer := None\<rparr>) t = Some (t\<lparr>ms_pids := p\<rparr>)" "pid_inv p"
        "client_of (t\<lparr>ms_pids := p\<rparr>) = client_of t" using t(4) by (auto simp: fun_upd_idem)
    have "holds (t\<lparr>ms_pids := p\<rparr>) = holds t" by (rule ext, case_tac x) (simp_all add: p(3))
    with p t(2,3) have "ms_inv_but X (t\<lparr>ms_pids := p\<rparr>)" by (simp add: ms_inv_def)
    moreover have "same_objects s (t\<lparr>ms_pids := p\<rparr>)" using t(5) by (simp add: same_objects_def p(3))
    ultimately show ?thesis using None False t(1,3) p(1) \<open>holds (t\<lparr>ms_pids := p\<rparr>) = holds t\<close> c
      by (auto simp: proc_set_parambuffer_def)
  next
    case (Some da)
    with b same_objects_dspace [OF t(5), of da] obtain d where d: "ms_dspaces t da = Some d" by blast
    have "(holds t)(Param pid \<mapsto> da, Notif pid := map_option fst (cl_notificationBuffer c)) = (holds t)(Param pid \<mapsto> da)"
      using nt by (auto simp: fun_eq_iff)
    with add_buffer [OF t(2,4) _ d, of "Param pid" "\<lambda>c. c\<lparr>cl_paramBuffer := Some da\<rparr>"] t(3) obtain u s' where
      "ram_dspace_ref (int (ds_ID d)) t = Some u" "upd_client pid (\<lambda>c. c\<lparr>cl_paramBuffer := Some da\<rparr>) u = Some s'"
      "ms_inv_but X s'" "holds s' = (holds t)(Param pid \<mapsto> da)" "same_objects t s'" by auto
    with Some False t(1,3) d c same_objects_trans [OF t(5)] show ?thesis by (simp add: proc_set_parambuffer_def)
  qed
qed

text \<open>The notification buffer is released in the same way.\<close>

lemma clear_notification:
  assumes inv: "ms_inv_but X s" and c: "client_of s pid = Some c" and rb: "cl_notificationBuffer c = Some rb"
  shows "\<exists>t s'. rb_delete env rb s = Some t \<and> upd_client pid (\<lambda>c. c\<lparr>cl_notificationBuffer := None\<rparr>) t = Some s' \<and>
    ms_inv_but X s' \<and> holds s' = (holds s)(Notif pid := None) \<and>
    client_of s' = (client_of s)(pid \<mapsto> c\<lparr>cl_notificationBuffer := None\<rparr>) \<and> same_objects s s' \<and>
    ms_windows s' = ms_windows s \<and> same_rest s s'"
proof -
  have h: "holds s (Notif pid) = Some (fst rb)" using c rb by simp
  have "(holds s)(Param pid := cl_paramBuffer c, Notif pid := None) = (holds s)(Notif pid := None)"
    using c by (auto simp: fun_eq_iff)
  with drop_buffer [OF inv c h, of "\<lambda>c. c\<lparr>cl_notificationBuffer := None\<rparr>" env] obtain d s' where
    s': "ms_dspaces s (fst rb) = Some d" "(do { t \<leftarrow> ram_dspace_unref env (int (ds_ID d)) s;
      upd_client pid (\<lambda>c. c\<lparr>cl_notificationBuffer := None\<rparr>) t }) = Some s'" "ms_inv_but X s'" "holds s' = (holds s)(Notif pid := None)"
    "client_of s' = (client_of s)(pid \<mapsto> c\<lparr>cl_notificationBuffer := None\<rparr>)" "same_objects s s'"
    "ms_windows s' = ms_windows s" "same_rest s s'"
    by auto
  then obtain t where "rb_delete env rb s = Some t" "upd_client pid (\<lambda>c. c\<lparr>cl_notificationBuffer := None\<rparr>) t = Some s'"
    by (auto simp: rb_delete_def bind_eq_Some_conv)
  with s' show ?thesis by auto
qed

lemma set_notificationbuffer_spec:
  assumes inv: "ms_inv_but X s" and c: "client_of s pid = Some c" and mem: "en_malloc env 0"
    and b: "\<And>da. buf = Some da \<Longrightarrow> \<exists>d. ms_dspaces s da = Some d"
  shows "\<exists>s'. proc_set_notificationbuffer env pid buf s = Some (s', ESUCCESS) \<and> ms_inv_but X s' \<and>
    holds s' = (holds s)(Notif pid := buf) \<and> same_objects s s'"
proof -
  obtain t where t: "(case cl_notificationBuffer c of None \<Rightarrow> Some s | Some rb \<Rightarrow> do {
      u \<leftarrow> rb_delete env rb s; upd_client pid (\<lambda>c. c\<lparr>cl_notificationBuffer := None\<rparr>) u }) = Some t"
    "ms_inv_but X t" "holds t = (holds s)(Notif pid := None)" "client_of t pid = Some (c\<lparr>cl_notificationBuffer := None\<rparr>)"
    "same_objects s t"
  proof (cases "cl_notificationBuffer c")
    case None
    moreover from this have "(holds s)(Notif pid := None) = holds s" using c by (auto simp: fun_eq_iff)
    moreover have "c\<lparr>cl_notificationBuffer := None\<rparr> = c" using None by simp
    ultimately show thesis using inv c by (intro that [of s]) (simp_all add: same_objects_refl)
  next
    case (Some rb)
    from clear_notification [OF inv c Some, of env] Some show thesis by (auto intro: that)
  qed
  show ?thesis
  proof (cases buf)
    case None
    with t c show ?thesis by (simp add: proc_set_notificationbuffer_def)
  next
    case (Some da)
    with b same_objects_dspace [OF t(5), of da] obtain d where d: "ms_dspaces t da = Some d" by blast
    let ?rb = "\<lparr>rb_mode = RB_WRITEONLY, rb_localStart = 0, rb_localEnd = 0,
       rb_size = u32i (int (ram_dspace_get_size d) - int RINGBUFFER_METADATA_SIZE)\<rparr>"
    have "(holds t)(Param pid := cl_paramBuffer c, Notif pid \<mapsto> da) = (holds t)(Notif pid \<mapsto> da)"
      using t(4) by (auto simp: fun_eq_iff)
    with add_buffer [OF t(2,4) _ d, of "Notif pid" "\<lambda>c. c\<lparr>cl_notificationBuffer := Some (da, ?rb)\<rparr>"] t(3) obtain u s' where
      "ram_dspace_ref (int (ds_ID d)) t = Some u"
      "upd_client pid (\<lambda>c. c\<lparr>cl_notificationBuffer := Some (da, ?rb)\<rparr>) u = Some s'" "ms_inv_but X s'"
      "holds s' = (holds t)(Notif pid \<mapsto> da)" "same_objects t s'" by auto
    with Some t(1,3) d c mem same_objects_trans [OF t(5)] show ?thesis
      by (simp add: proc_set_notificationbuffer_def rb_create_def)
  qed
qed

section \<open>Closing a dataspace\<close>

text \<open>\<open>t\<close> is \<open>s\<close> with some holders of \<open>da\<close> dropped.\<close>

definition purged :: "nat \<Rightarrow> memserv \<Rightarrow> memserv \<Rightarrow> bool" where
  "purged da s t \<longleftrightarrow> ms_inv t \<and> ms_dspaces t da \<noteq> None \<and>
     (\<forall>h. holds t h = holds s h \<or> holds s h = Some da \<and> holds t h = None) \<and> same_objects s t"

lemma purged_refl: "ms_inv s \<Longrightarrow> ms_dspaces s da \<noteq> None \<Longrightarrow> purged da s s"
  by (simp add: purged_def same_objects_refl)

lemma purged_trans: "purged da s t \<Longrightarrow> purged da t u \<Longrightarrow> purged da s u"
  unfolding purged_def by (metis same_objects_trans)

lemma same_dspace_eq:
  assumes inv: "ms_inv s" and d: "ms_dspaces s da = Some d" and e: "ms_dspaces s p = Some e"
  shows "same_dspace s p da = Some (p = da)"
proof -
  have "oat_ok (ms_dslist s) (ms_dspaces s) (\<lambda>d. int (ds_ID d)) RAM_DATASPACE_MAX_NUM_DATASPACE"
    using inv by (simp add: ms_inv_def)
  from oat_ok_inj [OF this e d] d e show ?thesis by (auto simp: same_dspace_def)
qed

text \<open>The body of the loop of \<open>w_purge_dspace\<close> for one identifier.\<close>

definition purge_one :: "(int \<Rightarrow> memserv \<Rightarrow> memserv option) \<Rightarrow> nat \<Rightarrow> nat \<Rightarrow> memserv \<Rightarrow> memserv option" where
  "purge_one unref da i s = do {
       p \<leftarrow> w_get_window s (int i);
       (case p of
          None \<Rightarrow> Some s
        | Some wa \<Rightarrow> do {
            w \<leftarrow> ms_windows s wa;
            (case w_ramDataspace w of
               None \<Rightarrow> Some s
             | Some da' \<Rightarrow> do {
                 same \<leftarrow> same_dspace s da' da;
                 if same then window_switch_mode unref wa W_MODE_EMPTY s else Some s
               })
          })
     }"

lemma purge_loop: "w_purge_dspace unref da = for_each [1..<W_MAX_WINDOWS] (purge_one unref da)"
  by (simp add: w_purge_dspace_def purge_one_def [abs_def])

lemma purge_one_spec:
  assumes inv: "ms_inv s" and d: "ms_dspaces s da \<noteq> None"
  shows "\<exists>t. purge_one (unref_at (Suc n) env) da i s = Some t \<and> purged da s t \<and>
    (\<forall>wa w. ms_windows t wa = Some w \<longrightarrow> w_wID w = int i \<longrightarrow> w_ramDataspace w \<noteq> Some da)"
proof -
  have wl: "oat_ok (ms_wlist s) (ms_windows s) w_wID W_MAX_WINDOWS" and ro: "ref_ok (holds s) (ms_dspaces s)"
    using inv by (simp_all add: ms_inv_def)
  obtain d' where d': "ms_dspaces s da = Some d'" using d by blast
  from wl show ?thesis
  proof (cases rule: get_window_cases [where i = i])
    case none
    with purged_refl [OF inv d] show ?thesis by (auto simp: purge_one_def)
  next
    case (some wa w)
    have only: "wb = wa" if "ms_windows s wb = Some v" "w_wID v = int i" for wb v
      using oat_ok_inj [OF wl that(1) some(2)] that(2) some(3) by simp
    show ?thesis
    proof (cases "w_ramDataspace w = Some da")
      case True
      from switch_spec [OF inv some(2), of n env W_MODE_EMPTY] obtain t v where
        t: "window_switch_mode (unref_at (Suc n) env) wa W_MODE_EMPTY s = Some t" "ms_inv t"
          "holds t = (holds s)(Win wa := None)" "ms_windows t = (ms_windows s)(wa \<mapsto> v)" "w_wID v = w_wID w"
          "w_ramDataspace v = None" "ms_dspaces t = dec_ref (ms_dspaces s) (w_ramDataspace w)"
          "\<forall>pid. like_client (client_of s pid) (client_of t pid)" by blast
      have "purged da s t"
        unfolding purged_def same_objects_def t(3,4,7) dec_ref_IDs using t(2,5,8) some(2) d True
        by (auto simp: like_client_def)
      moreover have "\<forall>wb v. ms_windows t wb = Some v \<longrightarrow> w_wID v = int i \<longrightarrow> w_ramDataspace v \<noteq> Some da"
        using t(4,6) only by (auto split: if_splits)
      moreover have "purge_one (unref_at (Suc n) env) da i s = Some t"
        using t(1) some True by (simp add: purge_one_def same_dspace_def)
      ultimately show ?thesis by blast
    next
      case False
      have "purge_one (unref_at (Suc n) env) da i s = Some s"
      proof (cases "w_ramDataspace w")
        case (Some x)
        have "holds s (Win wa) = Some x" using some(2) Some by simp
        from ref_ok_live [OF ro this] obtain e where "ms_dspaces s x = Some e" by blast
        from same_dspace_eq [OF inv d' this] some Some False show ?thesis by (simp add: purge_one_def)
      qed (use some in \<open>simp add: purge_one_def\<close>)
      moreover have "\<forall>wb v. ms_windows s wb = Some v \<longrightarrow> w_wID v = int i \<longrightarrow> w_ramDataspace v \<noteq> Some da"
        using only some(2) False by (metis option.inject)
      ultimately show ?thesis using purged_refl [OF inv d] by blast
    qed
  qed
qed

lemma purged_window:
  assumes "purged da s t" and "ms_windows t wa = Some w" and "w_ramDataspace w = Some da"
  shows "\<exists>v. ms_windows s wa = Some v \<and> w_wID v = w_wID w \<and> w_ramDataspace v = Some da"
proof -
  have "holds t (Win wa) = Some da" using assms(2,3) by simp
  then have "holds s (Win wa) = Some da" using assms(1) unfolding purged_def by (metis option.distinct(1))
  then obtain v where v: "ms_windows s wa = Some v" "w_ramDataspace v = Some da" by (auto simp: bind_eq_Some_conv)
  have "map_option w_wID (ms_windows t wa) = map_option w_wID (ms_windows s wa)" using assms(1) by (simp add: purged_def same_objects_def)
  with v assms(2) show ?thesis by simp
qed

lemma purge_spec:
  assumes inv: "ms_inv s" and d: "ms_dspaces s da \<noteq> None"
  shows "\<exists>t. w_purge_dspace (unref_at (Suc n) env) da s = Some t \<and> purged da s t \<and> (\<forall>wa. holds t (Win wa) \<noteq> Some da)"
proof -
  have "\<exists>t. for_each [1..<Suc k] (purge_one (unref_at (Suc n) env) da) s = Some t \<and> purged da s t \<and>
    (\<forall>wa w. ms_windows t wa = Some w \<longrightarrow> w_wID w \<le> int k \<longrightarrow> 0 < w_wID w \<longrightarrow> w_ramDataspace w \<noteq> Some da)" for k
  proof (induction k)
    case 0
    with purged_refl [OF inv d] show ?case by auto
  next
    case (Suc k)
    then obtain t where t: "for_each [1..<Suc k] (purge_one (unref_at (Suc n) env) da) s = Some t" "purged da s t"
      "\<forall>wa w. ms_windows t wa = Some w \<longrightarrow> w_wID w \<le> int k \<longrightarrow> 0 < w_wID w \<longrightarrow> w_ramDataspace w \<noteq> Some da" by blast
    from purge_one_spec [of t da n env "Suc k"] t(2) obtain u where
      u: "purge_one (unref_at (Suc n) env) da (Suc k) t = Some u" "purged da t u"
      "\<forall>wa w. ms_windows u wa = Some w \<longrightarrow> w_wID w = int (Suc k) \<longrightarrow> w_ramDataspace w \<noteq> Some da"
      by (auto simp: purged_def)
    have "for_each [1..<Suc (Suc k)] (purge_one (unref_at (Suc n) env) da) s = Some u"
      using t(1) u(1) by (simp add: for_each_append del: upt_Suc add: upt_Suc_append)
    moreover have "w_ramDataspace w \<noteq> Some da"
      if "ms_windows u wa = Some w" "w_wID w \<le> int (Suc k)" "0 < w_wID w" for wa w
    proof
      assume da: "w_ramDataspace w = Some da"
      with u(3) that have "w_wID w \<noteq> int (Suc k)" by blast
      with that(2) have "w_wID w \<le> int k" by simp
      with purged_window [OF u(2) that(1) da] t(3) that(3) show False by metis
    qed
    ultimately show ?case using purged_trans [OF t(2) u(2)] by blast
  qed
  from this [of "W_MAX_WINDOWS - 1"] obtain t where
    t: "w_purge_dspace (unref_at (Suc n) env) da s = Some t" "purged da s t"
    "\<forall>wa w. ms_windows t wa = Some w \<longrightarrow> w_wID w \<le> int (W_MAX_WINDOWS - 1) \<longrightarrow> 0 < w_wID w \<longrightarrow> w_ramDataspace w \<noteq> Some da"
    by (auto simp: purge_loop W_MAX_WINDOWS_def)
  have wl: "oat_ok (ms_wlist t) (ms_windows t) w_wID W_MAX_WINDOWS" using t(2) by (simp add: purged_def ms_inv_def)
  have "holds t (Win wa) \<noteq> Some da" for wa
  proof
    assume "holds t (Win wa) = Some da"
    then obtain w where w: "ms_windows t wa = Some w" "w_ramDataspace w = Some da" by (auto simp: bind_eq_Some_conv)
    from oat_ok_id [OF wl w(1)] obtain i where "w_wID w = int i" "0 < i" "i < W_MAX_WINDOWS" by blast
    with t(3) w show False by (auto simp: W_MAX_WINDOWS_def)
  qed
  with t show ?thesis by blast
qed

text \<open>One round of the iteration over the processes.\<close>

lemma delete_callback_spec:
  assumes inv: "ms_inv s" and d: "ms_dspaces s da \<noteq> None" and c: "client_of s pid = Some c"
  shows "\<exists>t. proc_dspace_delete_callback env da pid s = Some t \<and> purged da s t \<and>
    holds t (Param pid) \<noteq> Some da \<and> holds t (Notif pid) \<noteq> Some da"
proof -
  have same: "same_dspace u (the (holds u h)) da = Some (holds u h = Some da)"
    if u: "purged da s u" and h: "holds u h \<noteq> None" for u h
  proof -
    have inv: "ms_inv u" using u by (simp add: purged_def)
    then have ro: "ref_ok (holds u) (ms_dspaces u)" by (simp add: ms_inv_def)
    obtain e where e: "ms_dspaces u da = Some e" using u by (auto simp: purged_def)
    from h obtain b where b: "holds u h = Some b" by blast
    from ref_ok_live [OF ro b] same_dspace_eq [OF inv e] show ?thesis by (auto simp: b)
  qed
  obtain t where t: "(case cl_paramBuffer c of None \<Rightarrow> Some s | Some b \<Rightarrow> do {
      same \<leftarrow> same_dspace s b da; if same then proc_set_parambuffer env pid None s else Some s }) = Some t"
    "purged da s t" "holds t (Param pid) \<noteq> Some da"
  proof (cases "cl_paramBuffer c")
    case None
    with c purged_refl [OF inv d] show thesis by (intro that [of s]) simp_all
  next
    case (Some b)
    then have h: "holds s (Param pid) = Some b" using c by simp
    from same [OF purged_refl [OF inv d], of "Param pid"] have sm: "same_dspace s b da = Some (b = da)"
      unfolding h by simp
    from set_parambuffer_spec [OF inv c, of None env] obtain u where
      u: "proc_set_parambuffer env pid None s = Some u" "ms_inv u" "holds u = (holds s)(Param pid := None)" "same_objects s u" by auto
    have "purged da s u" if "b = da"
      using u(2-4) same_objects_dspace [OF u(4) d] h that by (simp add: purged_def)
    with u Some sm h purged_refl [OF inv d] show thesis by (cases "b = da") (auto intro: that)
  qed
  then have it: "ms_inv t" by (simp add: purged_def)
  have "client_of t pid \<noteq> None" using t(2) c by (simp add: purged_def same_objects_def)
  then obtain c' where c': "client_of t pid = Some c'" by blast
  show ?thesis
  proof (cases "cl_notificationBuffer c'")
    case None
    with t c c' show ?thesis by (intro exI [of _ t]) (simp add: proc_dspace_delete_callback_def)
  next
    case (Some rb)
    then have h: "holds t (Notif pid) = Some (fst rb)" using c' by simp
    from same [OF t(2), of "Notif pid"] have sm: "same_dspace t (fst rb) da = Some (fst rb = da)"
      unfolding h by simp
    from clear_notification [OF it c' Some, of env] obtain u v where
      u: "rb_delete env rb t = Some u" "upd_client pid (\<lambda>c. c\<lparr>cl_notificationBuffer := None\<rparr>) u = Some v"
        "ms_inv v" "holds v = (holds t)(Notif pid := None)" "same_objects t v" by blast
    show ?thesis
    proof (cases "fst rb = da")
      case True
      have "purged da t v" using u(3-5) same_objects_dspace [OF u(5)] t(2) h True by (simp add: purged_def)
      then have "purged da s v" by (rule purged_trans [OF t(2)])
      moreover have "proc_dspace_delete_callback env da pid s = Some v"
        using t(1) c c' Some sm True u(1,2) by (simp add: proc_dspace_delete_callback_def)
      moreover have "holds v (Param pid) \<noteq> Some da" "holds v (Notif pid) \<noteq> Some da"
        using t(3) unfolding u(4) by simp_all
      ultimately show ?thesis by blast
    next
      case False
      with t c c' Some sm h show ?thesis by (intro exI [of _ t]) (simp add: proc_dspace_delete_callback_def)
    qed
  qed
qed

lemma purged_holds: "purged da s t \<Longrightarrow> holds s h \<noteq> Some da \<Longrightarrow> holds t h \<noteq> Some da"
  unfolding purged_def by (metis option.distinct(1))

lemma delete_callbacks_spec:
  assumes inv: "ms_inv s" and d: "ms_dspaces s da \<noteq> None"
  shows "\<exists>t. pid_iterate ms_pids (proc_dspace_delete_callback env da) s = Some t \<and> purged da s t \<and>
    (\<forall>pid. holds t (Param pid) \<noteq> Some da \<and> holds t (Notif pid) \<noteq> Some da)"
proof -
  let ?step = "\<lambda>i s. do { pcb \<leftarrow> pid_get_pcb (ms_pids s) i;
    if pcb \<noteq> None then proc_dspace_delete_callback env da i s else Some s }"
  have step: "\<exists>u. ?step i t = Some u \<and> purged da t u \<and> holds u (Param i) \<noteq> Some da \<and> holds u (Notif i) \<noteq> Some da"
    if t: "purged da s t" for i t
  proof -
    have it: "ms_inv t" "ms_dspaces t da \<noteq> None" "pid_inv (ms_pids t)" using t by (auto simp: purged_def ms_inv_def)
    have g: "pid_get_pcb (ms_pids t) i = Some (client_of t i)"
      using it(3) by (simp add: client_of_eq pid_get_pcb_eq)
    show ?thesis
    proof (cases "client_of t i")
      case None
      with g purged_refl [OF it(1,2)] show ?thesis by simp
    next
      case (Some c)
      with g delete_callback_spec [OF it(1,2) Some, of env] show ?thesis by simp
    qed
  qed
  have loop: "\<exists>t. for_each [1..<Suc k] ?step s = Some t \<and> purged da s t \<and>
    (\<forall>i. 0 < i \<longrightarrow> i \<le> k \<longrightarrow> holds t (Param i) \<noteq> Some da \<and> holds t (Notif i) \<noteq> Some da)" for k
  proof (induction k)
    case 0
    with purged_refl [OF inv d] show ?case by simp
  next
    case (Suc k)
    then obtain t where t: "for_each [1..<Suc k] ?step s = Some t" "purged da s t"
      "\<forall>i. 0 < i \<longrightarrow> i \<le> k \<longrightarrow> holds t (Param i) \<noteq> Some da \<and> holds t (Notif i) \<noteq> Some da" by blast
    from step [OF t(2), of "Suc k"] obtain u where u: "?step (Suc k) t = Some u" "purged da t u"
      "holds u (Param (Suc k)) \<noteq> Some da" "holds u (Notif (Suc k)) \<noteq> Some da" by blast
    have "for_each [1..<Suc (Suc k)] ?step s = Some u"
      using t(1) u(1) by (simp add: for_each_append del: upt_Suc add: upt_Suc_append)
    moreover have "holds u (Param i) \<noteq> Some da \<and> holds u (Notif i) \<noteq> Some da" if "0 < i" "i \<le> Suc k" for i
      using t(3) u(3,4) purged_holds [OF u(2)] that unfolding le_Suc_eq by blast
    ultimately show ?case using purged_trans [OF t(2) u(2)] by blast
  qed
  from loop [of "PID_MAX - 1"] obtain t where
    t: "pid_iterate ms_pids (proc_dspace_delete_callback env da) s = Some t" "purged da s t"
    "\<forall>i. 0 < i \<longrightarrow> i \<le> PID_MAX - 1 \<longrightarrow> holds t (Param i) \<noteq> Some da \<and> holds t (Notif i) \<noteq> Some da"
    by (auto simp: pid_iterate_def PID_START_def PID_MAX_def)
  have "client_of t i = None" if "i = 0 \<or> PID_MAX \<le> i" for i
    using that by (auto simp: client_of_def pid_get_pcb_def PID_START_def)
  then have "holds t (Param i) \<noteq> Some da \<and> holds t (Notif i) \<noteq> Some da" for i
    using t(3) by (cases "i = 0 \<or> PID_MAX \<le> i") auto
  with t show ?thesis by blast
qed

text \<open>
  A dataspace without holders is not in any window, so the purge in its destructor finds nothing.
  This also holds while its count is 0.
\<close>

lemma purge_none:
  assumes wl: "oat_ok (ms_wlist s) (ms_windows s) w_wID W_MAX_WINDOWS"
    and ds: "oat_ok (ms_dslist s) (ms_dspaces s) (\<lambda>d. int (ds_ID d)) RAM_DATASPACE_MAX_NUM_DATASPACE"
    and live: "\<And>h x. holds s h = Some x \<Longrightarrow> ms_dspaces s x \<noteq> None"
    and d: "ms_dspaces s da = Some d" and none: "\<And>h. holds s h \<noteq> Some da"
  shows "w_purge_dspace unref da s = Some s"
proof -
  have one: "purge_one unref da i s = Some s" for i
    using wl
  proof (cases rule: get_window_cases [where i = i])
    case none
    then show ?thesis by (simp add: purge_one_def)
  next
    case (some wa w)
    show ?thesis
    proof (cases "w_ramDataspace w")
      case None
      with some show ?thesis by (simp add: purge_one_def)
    next
      case (Some x)
      have h: "holds s (Win wa) = Some x" using some(2) Some by simp
      from live [OF h] obtain e where e: "ms_dspaces s x = Some e" by blast
      have "x \<noteq> da" using none [of "Win wa"] h by auto
      moreover from this have "ds_ID e \<noteq> ds_ID d" using oat_ok_inj [OF ds e d] by auto
      ultimately show ?thesis using some Some e d by (simp add: purge_one_def same_dspace_def)
    qed
  qed
  have "for_each xs (purge_one unref da) s = Some s" for xs by (induction xs) (simp_all add: one)
  then show ?thesis by (simp add: purge_loop)
qed

text \<open>The capability calls of a destructor, in order.\<close>

definition release_calls :: "ram_dspace \<Rightarrow> cap_call list" where
  "release_calls d = (if ds_contentInitEnabled d then free_cap (ds_contentInitEP d) else []) @
     concat (map (\<lambda>w. free_cap (wt_reply w)) (cv_list (ds_contentInitWaitingList d))) @
     free_pages d @ free_cap (ds_capability d)"

lemma release_calls_ref [simp]: "release_calls (d\<lparr>ds_ref := n\<rparr>) = release_calls d"
  by (simp add: release_calls_def free_pages_def cong: if_cong option.case_cong)

lemma destructor_spec:
  assumes wl: "oat_ok (ms_wlist s) (ms_windows s) w_wID W_MAX_WINDOWS"
    and ds: "oat_ok (ms_dslist s) (ms_dspaces s) (\<lambda>d. int (ds_ID d)) RAM_DATASPACE_MAX_NUM_DATASPACE"
    and live: "\<And>h x. holds s h = Some x \<Longrightarrow> ms_dspaces s x \<noteq> None"
    and d: "ms_dspaces s da = Some d" "ds_ok d" "ds_ref d = 0" and none: "\<And>h. holds s h \<noteq> Some da"
  shows "ram_dspace_oat_delete unref da s =
    Some (log_calls (release_calls d) (s\<lparr>ms_dspaces := (ms_dspaces s)(da := None)\<rparr>))"
proof -
  have "w_purge_dspace unref da s = Some s" by (rule purge_none [OF wl ds live d(1) none])
  moreover have "clear_waiters (ds_contentInitWaitingList d) = Some (map wt_reply (cv_list (ds_contentInitWaitingList d)))"
    using d(2) by (intro clear_waiters_eq) (simp_all add: ds_ok_def)
  moreover have "ds_pages d \<noteq> None" using d(2) shape_ok_pages [of d] by (simp add: ds_ok_def)
  ultimately show ?thesis using d by (auto simp: ram_dspace_oat_delete_def ds_ok_def release_calls_def comp_def)
qed

text \<open>Dropping the last reference deletes the dataspace, at any depth of the nesting.\<close>

lemma unref_last:
  assumes inv: "ms_inv s" and d: "ms_dspaces s da = Some d" and none: "\<And>h. holds s h \<noteq> Some da"
    and heap: "en_heap env = heap_ok"
  shows "\<exists>s'. unref_at (Suc n) env (int (ds_ID d)) s = Some s' \<and> ms_inv s' \<and> holds s' = holds s \<and>
    ms_dspaces s' = (ms_dspaces s)(da := None) \<and> ms_windows s' = ms_windows s \<and> ms_pids s' = ms_pids s \<and>
    ms_wlist s' = ms_wlist s \<and> ms_calls s' = ms_calls s @ release_calls d"
proof -
  have ok: "oat_ok (ms_dslist s) (ms_dspaces s) (\<lambda>d. int (ds_ID d)) RAM_DATASPACE_MAX_NUM_DATASPACE"
    "oat_ok (ms_wlist s) (ms_windows s) w_wID W_MAX_WINDOWS" "ref_ok (holds s) (ms_dspaces s)"
    "\<And>a x. ms_dspaces s a = Some x \<Longrightarrow> ds_ok x" using inv by (auto simp: ms_inv_def)
  have ref: "ds_ref d = 1" using ok(3) d none by (simp add: ref_ok_def)
  let ?d = "d\<lparr>ds_ref := 0\<rparr>"
  let ?t = "s\<lparr>ms_dspaces := (ms_dspaces s)(da \<mapsto> ?d)\<rparr>"
  let ?del = "ram_dspace_oat_delete (unref_at n env)"
  have ds: "oat_ok (ms_dslist ?t) (ms_dspaces ?t) (\<lambda>d. int (ds_ID d)) RAM_DATASPACE_MAX_NUM_DATASPACE"
    using oat_ok_upd [OF ok(1) d, of ?d] by simp
  have live: "ms_dspaces ?t x \<noteq> None" if "holds ?t h = Some x" for h x
    using ref_ok_live [OF ok(3), of h x] that by auto
  define u where "u = log_calls (release_calls d) (s\<lparr>ms_dspaces := (ms_dspaces s)(da := None)\<rparr>)"
  have del: "?del da ?t = Some u"
    using destructor_spec [of ?t da ?d "unref_at n env", OF _ ds live] ok(2) ok(4) [OF d] none
    by (simp add: u_def)
  from oat_free [OF ds, of da ?d ?del ?t u "dspace_create env"] del obtain t where
    t: "coat_free heap_ok (oat_of (dspace_create env) ?del (ms_dslist s)) (int (ds_ID d)) ?t = Some (t, u, 0)"
    "oat_ok (store_of t) ((ms_dspaces s)(da := None)) (\<lambda>d. int (ds_ID d)) RAM_DATASPACE_MAX_NUM_DATASPACE" by auto
  have run: "unref_at (Suc n) env (int (ds_ID d)) s = Some (u\<lparr>ms_dslist := store_of t\<rparr>)"
    using get_dspace [OF ok(1) d] d ref t(1) heap by (simp add: unref_step_def upd_dspace_def)
  have "ms_inv (u\<lparr>ms_dslist := store_of t\<rparr>)"
    using inv t(2) ref_delete [OF ok(3) none] ok(4) by (auto simp: u_def ms_inv_def split: if_splits)
  with run show ?thesis by (intro exI [of _ "u\<lparr>ms_dslist := store_of t\<rparr>"]) (simp add: u_def log_calls_def)
qed

text \<open>On these states no release is nested in another, so the depth does not matter.\<close>

lemma coat_free_cong:
  assumes "\<And>x. oat_lookup st oid = Some (Some x) \<Longrightarrow> del x e = del' x e"
  shows "map_option (\<lambda>(t, e, r). (store_of t, e, r)) (coat_free mem (oat_of c del st) oid e) =
    map_option (\<lambda>(t, e, r). (store_of t, e, r)) (coat_free mem (oat_of c del' st) oid e)"
proof -
  have get: "coat_get (oat_of c d st) oid = oat_lookup st oid" for c d
    by (simp add: oat_lookup_def coat_get_def Let_def cong: if_cong)
  show ?thesis
    using assms by (auto simp: coat_free_def get store_of_def map_option_bind comp_def
      intro!: Option.bind_cong split: option.split)
qed

lemma bind_stored:
  "(do { (t, e, r) \<leftarrow> map_option (\<lambda>(t, e, r). (store_of t, e, r)) x; f t e r }) =
    (do { (t, e, r) \<leftarrow> x; f (store_of t) e r })"
  by (cases x) auto

lemma unref_step_free:
  "unref_step env unref ID s = do {
     p \<leftarrow> ram_dspace_get s ID;
     da \<leftarrow> p;
     d \<leftarrow> ms_dspaces s da;
     c_assert (ds_ref d > 0);
     s \<leftarrow> upd_dspace da (\<lambda>d. d\<lparr>ds_ref := ds_ref d - 1\<rparr>) s;
     d \<leftarrow> ms_dspaces s da;
     if ds_ref d = 0 then do {
       (t, s, r) \<leftarrow> map_option (\<lambda>(t, e, r). (store_of t, e, r)) (coat_free (en_heap env)
         (oat_of (dspace_create env) (ram_dspace_oat_delete unref) (ms_dslist s)) ID s);
       Some (s\<lparr>ms_dslist := t\<rparr>)
     }
     else Some s
   }"
  by (simp only: unref_step_def bind_stored)

lemma unref_depth:
  assumes inv: "ms_inv s"
  shows "unref_at (Suc n) env ID s = unref_at (Suc m) env ID s"
proof -
  have ok: "oat_ok (ms_dslist s) (ms_dspaces s) (\<lambda>d. int (ds_ID d)) RAM_DATASPACE_MAX_NUM_DATASPACE"
    "oat_ok (ms_wlist s) (ms_windows s) w_wID W_MAX_WINDOWS" "ref_ok (holds s) (ms_dspaces s)"
    "\<And>a x. ms_dspaces s a = Some x \<Longrightarrow> ds_ok x" using inv by (auto simp: ms_inv_def)
  have "unref_step env u ID s = unref_step env v ID s" for u v
  proof (cases "\<exists>da d. ram_dspace_get s ID = Some (Some da) \<and> ms_dspaces s da = Some d \<and> ds_ref d = 1")
    case True
    then obtain da d where d: "ram_dspace_get s ID = Some (Some da)" "ms_dspaces s da = Some d" "ds_ref d = 1" by blast
    let ?t = "s\<lparr>ms_dspaces := (ms_dspaces s)(da \<mapsto> d\<lparr>ds_ref := 0\<rparr>)\<rparr>"
    have "card {h. holds s h = Some da} = 0" using ok(3) d(2,3) by (simp add: ref_ok_def)
    then have none: "holds s h \<noteq> Some da" for h using holders_finite [OF ok(3)] by auto
    have ds: "oat_ok (ms_dslist ?t) (ms_dspaces ?t) (\<lambda>d. int (ds_ID d)) RAM_DATASPACE_MAX_NUM_DATASPACE"
      using oat_ok_upd [OF ok(1) d(2), of "d\<lparr>ds_ref := 0\<rparr>"] by simp
    have live: "ms_dspaces ?t x \<noteq> None" if "holds ?t h = Some x" for h x
      using ref_ok_live [OF ok(3), of h x] that by auto
    have del: "ram_dspace_oat_delete u da ?t = ram_dspace_oat_delete v da ?t" for u v
      using destructor_spec [of ?t da "d\<lparr>ds_ref := 0\<rparr>", OF _ ds live] ok(2) ok(4) [OF d(2)] none by simp
    have at: "x = da" if "oat_lookup (ms_dslist s) ID = Some (Some x)" for x
      using d(1) that by (auto simp: ram_dspace_get_def bind_eq_Some_conv split: if_splits option.splits)
    have "map_option (\<lambda>(t, e, r). (store_of t, e, r)) (coat_free (en_heap env)
         (oat_of (dspace_create env) (ram_dspace_oat_delete u) (ms_dslist s)) ID ?t) =
       map_option (\<lambda>(t, e, r). (store_of t, e, r)) (coat_free (en_heap env)
         (oat_of (dspace_create env) (ram_dspace_oat_delete v) (ms_dslist s)) ID ?t)"
      by (rule coat_free_cong) (use at del in blast)
    with d show ?thesis by (simp add: unref_step_free upd_dspace_def)
  next
    case False
    then show ?thesis by (auto simp: unref_step_def upd_dspace_def Option.bind_eq_None_conv intro!: Option.bind_cong)
  qed
  then show ?thesis by simp
qed

end
