(* ===== verification/Data_Syscall.thy ===== *)
theory Data_Syscall
  imports Memserv_Refs
begin

text \<open>
  The system calls of the memory server: \<open>dispatchers/data_syscall.c\<close> and the helpers of
  \<open>dispatchers/dispatcher.c\<close>.  A handler gets the process identifier of the caller, whose control
  block \<open>check_dispatch_interface\<close> has found, and the two fields of the message that it reads.
  A badge stands for an unwrapped capability.
\<close>

unbundle bit_operations_syntax

section \<open>Dispatching\<close>

record procserv_caps =
  pm_capsUnwrapped :: nat
  pm_extraCaps :: nat

datatype dispatch = DISPATCH_SUCCESS nat | DISPATCH_PASS | DISPATCH_ERROR

definition seL4_NoFault :: nat where "seL4_NoFault = 0"

text \<open>The process of the caller is the argument of \<open>DISPATCH_SUCCESS\<close>.\<close>

definition check_dispatch_interface ::
  "memserv \<Rightarrow> nat \<Rightarrow> nat \<Rightarrow> nat \<Rightarrow> nat \<Rightarrow> nat \<Rightarrow> dispatch option" where
  "check_dispatch_interface s label badge syscallFunc labelMin labelMax =
     (if label \<noteq> seL4_NoFault \<or> \<not> dispatcher_badge_PID badge then Some DISPATCH_PASS
      else do {
        pcb \<leftarrow> pid_get_pcb_from_badge (ms_pids s) badge;
        Some (if pcb = None then DISPATCH_ERROR
              else if syscallFunc \<le> labelMin \<or> syscallFunc \<ge> labelMax then DISPATCH_PASS
              else DISPATCH_SUCCESS (badge - PID_BADGE_BASE))
      })"

definition check_dispatch_caps :: "procserv_caps \<Rightarrow> nat \<Rightarrow> nat \<Rightarrow> bool" where
  "check_dispatch_caps m unwrappedMask numExtraCaps \<longleftrightarrow>
     pm_capsUnwrapped m = unwrappedMask \<and> pm_extraCaps m = numExtraCaps"

definition dispatcher_copyout_cptr :: "menv \<Rightarrow> nat \<Rightarrow> nat option" where
  "dispatcher_copyout_cptr env c =
     (if en_slot env 0 = 0 then Some 0
      else do { c_assert (en_copy env); Some (en_slot env 0) })"

definition dispatcher_release_copyout_cptr :: "nat \<Rightarrow> memserv \<Rightarrow> memserv" where
  "dispatcher_release_copyout_cptr c s = (if c = 0 then s else log_calls (free_cap c) s)"

definition PROCSERV_SYSCALL_PARAM_SIZE_MAX :: nat where
  "PROCSERV_SYSCALL_PARAM_SIZE_MAX = REFOS_PAGE_SIZE * 8"

text \<open>The static buffer is the result, \<open>None\<close> for the null pointer.\<close>

definition dispatcher_read_param ::
  "nat \<Rightarrow> nat \<Rightarrow> memserv \<Rightarrow> (memserv \<times> nat list option) option" where
  "dispatcher_read_param pid readLen s = do {
     cl \<leftarrow> client_of s pid;
     if cl_paramBuffer cl = None \<and> readLen \<noteq> 0 then Some (s, None)
     else if readLen > PROCSERV_SYSCALL_PARAM_SIZE_MAX then Some (s, None)
     else if readLen > 0 then do {
       pb \<leftarrow> cl_paramBuffer cl;
       d \<leftarrow> ms_dspaces s pb;
       (d, fr, bytes, err) \<leftarrow> ram_dspace_read readLen d (ms_frames s) 0;
       c_assert (err = ESUCCESS);
       Some (s\<lparr>ms_dspaces := (ms_dspaces s)(pb \<mapsto> d), ms_frames := fr\<rparr>,
         Some (bytes @ replicate (PROCSERV_SYSCALL_PARAM_SIZE_MAX - length bytes) 0))
     }
     else Some (s, Some (replicate PROCSERV_SYSCALL_PARAM_SIZE_MAX 0))
   }"

section \<open>Handlers\<close>

definition PROCSERV_DSPACE_FLAG_DEVICE_PADDR :: int where
  "PROCSERV_DSPACE_FLAG_DEVICE_PADDR = 0x10000000"

text \<open>The badge test and the lookup that the handlers share; both failures are \<open>EINVALIDPARAM\<close>.\<close>

definition find_dspace :: "memserv \<Rightarrow> nat \<Rightarrow> nat option option" where
  "find_dspace s badge =
     (if \<not> dispatcher_badge_dspace badge then Some None else ram_dspace_get_badge s badge)"

definition find_window :: "memserv \<Rightarrow> nat \<Rightarrow> nat option option" where
  "find_window s badge =
     (if \<not> dispatcher_badge_window badge then Some None
      else w_get_window s (int (badge - W_BADGE_BASE)))"

definition data_open_handler ::
  "menv \<Rightarrow> nat \<Rightarrow> string option \<Rightarrow> int \<Rightarrow> int \<Rightarrow> int \<Rightarrow> memserv \<Rightarrow>
   (memserv \<times> nat \<times> refos_error) option" where
  "data_open_handler env pid rpc_name rpc_flags rpc_mode rpc_size s = do {
     cl \<leftarrow> client_of s pid;
     if rpc_size \<le> 0 then Some (s, 0, EINVALIDPARAM)
     else if (case rpc_name of None \<Rightarrow> False | Some n \<Rightarrow> length n > 0 \<and> n \<noteq> ''anon'')
     then Some (s, 0, EFILENOTFOUND)
     else do {
       (s, p) \<leftarrow> ram_dspace_create env (u32i rpc_size) s;
       (case p of
          None \<Rightarrow> Some (s, 0, ENOMEM)
        | Some da \<Rightarrow> do {
            (s, err) \<leftarrow>
              (if rpc_flags AND PROCSERV_DSPACE_FLAG_DEVICE_PADDR \<noteq> 0 then
                 (if cl_mask cl AND PROCESS_PERMISSION_DEVICE_MAP \<noteq> 0 then do {
                    d \<leftarrow> ms_dspaces s da;
                    (d, err) \<leftarrow> ram_dspace_set_to_paddr d (ms_frames s) (u32i rpc_mode);
                    Some (s\<lparr>ms_dspaces := (ms_dspaces s)(da \<mapsto> d)\<rparr>, err)
                  }
                  else Some (s, EACCESSDENIED))
               else Some (s, ESUCCESS));
            d \<leftarrow> ms_dspaces s da;
            if err \<noteq> ESUCCESS then do {
              s \<leftarrow> ram_dspace_unref env (int (ds_ID d)) s;
              Some (s, 0, err)
            }
            else Some (s, ds_capability d, ESUCCESS)
          })
     }
   }"

definition data_close_handler ::
  "menv \<Rightarrow> procserv_caps \<Rightarrow> nat \<Rightarrow> nat \<Rightarrow> memserv \<Rightarrow> (memserv \<times> refos_error) option" where
  "data_close_handler env m pid rpc_dspace_fd s = do {
     cl \<leftarrow> client_of s pid;
     if \<not> check_dispatch_caps m 1 1 then Some (s, EINVALIDWINDOW)
     else do {
       dspace \<leftarrow> find_dspace s rpc_dspace_fd;
       (case dspace of
          None \<Rightarrow> Some (s, EINVALIDPARAM)
        | Some da \<Rightarrow> do {
            s \<leftarrow> w_purge_dspace (ram_dspace_unref env) da s;
            s \<leftarrow> pid_iterate ms_pids (proc_dspace_delete_callback env da) s;
            d \<leftarrow> ms_dspaces s da;
            s \<leftarrow> ram_dspace_unref env (int (ds_ID d)) s;
            Some (s, ESUCCESS)
          })
     }
   }"

definition data_getc_handler :: "nat \<Rightarrow> int \<Rightarrow> refos_error" where
  "data_getc_handler rpc_dspace_fd rpc_block = EUNIMPLEMENTED"

definition data_lseek_handler :: "nat \<Rightarrow> int \<Rightarrow> int \<Rightarrow> refos_error" where
  "data_lseek_handler rpc_dspace_fd rpc_offset rpc_whence = EUNIMPLEMENTED"

text \<open>The result is a number; an error code is returned as one.\<close>

primrec error_code :: "refos_error \<Rightarrow> nat" where
  "error_code ESUCCESS = 0" | "error_code ENOMEM = 1" | "error_code EINVALID = 2"
| "error_code EUNKNOWNCLIENT = 3" | "error_code EINVALIDPARAM = 4" | "error_code ESERVERNOTFOUND = 5"
| "error_code EINVALIDWINDOW = 6" | "error_code ESERVICEUNAVAILABLE = 7" | "error_code EACCESSDENIED = 8"
| "error_code EUNMAPFIRST = 9" | "error_code EFILENOTFOUND = 10" | "error_code EENDOFFILE = 11"
| "error_code EDEVICENOTFOUND = 12" | "error_code ENOPARAMBUFFER = 13" | "error_code EUNIMPLEMENTED = 14"
| "error_code EDELEGATED = 15"

definition data_get_size_handler ::
  "procserv_caps \<Rightarrow> nat \<Rightarrow> nat \<Rightarrow> memserv \<Rightarrow> nat option" where
  "data_get_size_handler m pid rpc_dspace_fd s = do {
     cl \<leftarrow> client_of s pid;
     if \<not> check_dispatch_caps m 1 1 then Some 0
     else do {
       dspace \<leftarrow> find_dspace s rpc_dspace_fd;
       (case dspace of
          None \<Rightarrow> Some (error_code EINVALIDPARAM)
        | Some da \<Rightarrow> do {
            d \<leftarrow> ms_dspaces s da;
            Some (u32 (ds_npages d * REFOS_PAGE_SIZE))
          })
     }
   }"

definition data_expand_handler ::
  "menv \<Rightarrow> procserv_caps \<Rightarrow> nat \<Rightarrow> nat \<Rightarrow> nat \<Rightarrow> memserv \<Rightarrow> (memserv \<times> refos_error) option" where
  "data_expand_handler env m pid rpc_dspace_fd rpc_size s = do {
     cl \<leftarrow> client_of s pid;
     if \<not> check_dispatch_caps m 1 1 then Some (s, EINVALIDPARAM)
     else do {
       dspace \<leftarrow> find_dspace s rpc_dspace_fd;
       (case dspace of
          None \<Rightarrow> Some (s, EINVALIDPARAM)
        | Some da \<Rightarrow> do {
            d \<leftarrow> ms_dspaces s da;
            (d, err) \<leftarrow> ram_dspace_expand (en_malloc env 0) (en_malloc env 1) d rpc_size;
            Some (s\<lparr>ms_dspaces := (ms_dspaces s)(da \<mapsto> d)\<rparr>, err)
          })
     }
   }"

definition data_datamap_handler ::
  "menv \<Rightarrow> procserv_caps \<Rightarrow> nat \<Rightarrow> nat \<Rightarrow> nat \<Rightarrow> nat \<Rightarrow> memserv \<Rightarrow>
   (memserv \<times> refos_error) option" where
  "data_datamap_handler env m pid rpc_dspace_fd rpc_memoryWindow rpc_offset s = do {
     cl \<leftarrow> client_of s pid;
     if \<not> check_dispatch_caps m 3 2 then Some (s, EINVALIDPARAM)
     else do {
       window \<leftarrow> find_window s rpc_memoryWindow;
       (case window of
          None \<Rightarrow> Some (s, EINVALIDWINDOW)
        | Some wa \<Rightarrow> do {
            dspace \<leftarrow> find_dspace s rpc_dspace_fd;
            (case dspace of
               None \<Rightarrow> Some (s, EINVALIDPARAM)
             | Some da \<Rightarrow> do {
                 d \<leftarrow> ms_dspaces s da;
                 if rpc_offset > u32 (ds_npages d * REFOS_PAGE_SIZE) then Some (s, EINVALIDPARAM)
                 else do {
                   s \<leftarrow> w_set_anon_dspace env wa (Some da) rpc_offset s;
                   Some (s, ESUCCESS)
                 }
               })
          })
     }
   }"

definition data_dataunmap_handler ::
  "menv \<Rightarrow> procserv_caps \<Rightarrow> nat \<Rightarrow> nat \<Rightarrow> memserv \<Rightarrow> (memserv \<times> refos_error) option" where
  "data_dataunmap_handler env m pid rpc_memoryWindow s = do {
     cl \<leftarrow> client_of s pid;
     if \<not> check_dispatch_caps m 1 1 then Some (s, EINVALIDPARAM)
     else do {
       window \<leftarrow> find_window s rpc_memoryWindow;
       (case window of
          None \<Rightarrow> Some (s, EINVALIDWINDOW)
        | Some wa \<Rightarrow> do {
            w \<leftarrow> ms_windows s wa;
            if w_mode w = W_MODE_EMPTY then Some (s, ESUCCESS)
            else if w_mode w \<noteq> W_MODE_ANONYMOUS then Some (s, EINVALIDPARAM)
            else do {
              s \<leftarrow> w_set_anon_dspace env wa None 0 s;
              Some (s, ESUCCESS)
            }
          })
     }
   }"

definition data_init_data_handler :: "nat \<Rightarrow> nat \<Rightarrow> nat \<Rightarrow> refos_error" where
  "data_init_data_handler rpc_destDataspace rpc_srcDataspace rpc_srcDataspaceOffset = EUNIMPLEMENTED"

text \<open>The third result is the value stored through \<open>rpc_dataID\<close>.\<close>

definition data_have_data_handler ::
  "menv \<Rightarrow> procserv_caps \<Rightarrow> nat \<Rightarrow> nat \<Rightarrow> nat \<Rightarrow> memserv \<Rightarrow>
   (memserv \<times> refos_error \<times> nat) option" where
  "data_have_data_handler env m pid rpc_dspace_fd rpc_faultNotifyEP s = do {
     cl \<leftarrow> client_of s pid;
     if \<not> (check_dispatch_caps m 1 2 \<or> check_dispatch_caps m 1 1) then Some (s, EINVALIDPARAM, 0)
     else do {
       dspace \<leftarrow> find_dspace s rpc_dspace_fd;
       (case dspace of
          None \<Rightarrow> Some (s, EINVALIDPARAM, 0)
        | Some da \<Rightarrow> do {
            d \<leftarrow> ms_dspaces s da;
            if rpc_faultNotifyEP = 0 then do {
              (d, freed, err) \<leftarrow> ram_dspace_content_init (en_malloc env 0) d 0 PID_NULL;
              Some (log_calls (concat (map free_cap freed))
                (s\<lparr>ms_dspaces := (ms_dspaces s)(da \<mapsto> d)\<rparr>), err, 0)
            }
            else do {
              faultNotifyEP \<leftarrow> dispatcher_copyout_cptr env rpc_faultNotifyEP;
              if faultNotifyEP = 0 then Some (s, EINVALIDPARAM, 0)
              else do {
                (d, freed, err) \<leftarrow> ram_dspace_content_init (en_malloc env 0) d faultNotifyEP pid;
                let s = log_calls (concat (map free_cap freed))
                  (s\<lparr>ms_dspaces := (ms_dspaces s)(da \<mapsto> d)\<rparr>);
                if err \<noteq> ESUCCESS
                then Some (dispatcher_release_copyout_cptr faultNotifyEP s, err, 0)
                else Some (s, ESUCCESS, ds_ID d)
              }
            }
          })
     }
   }"

definition data_unhave_data_handler ::
  "menv \<Rightarrow> procserv_caps \<Rightarrow> nat \<Rightarrow> nat \<Rightarrow> memserv \<Rightarrow> (memserv \<times> refos_error) option" where
  "data_unhave_data_handler env m pid rpc_dspace_fd s = do {
     (s, err, _) \<leftarrow> data_have_data_handler env m pid rpc_dspace_fd 0 s;
     Some (s, err)
   }"

definition data_provide_data_from_parambuffer_handler ::
  "menv \<Rightarrow> procserv_caps \<Rightarrow> nat \<Rightarrow> nat \<Rightarrow> nat \<Rightarrow> nat \<Rightarrow> memserv \<Rightarrow>
   (memserv \<times> refos_error) option" where
  "data_provide_data_from_parambuffer_handler env m pid rpc_dspace_fd rpc_offset rpc_contentSize s = do {
     cl \<leftarrow> client_of s pid;
     if \<not> check_dispatch_caps m 1 1 then Some (s, EINVALIDPARAM)
     else do {
       dspace \<leftarrow> find_dspace s rpc_dspace_fd;
       (case dspace of
          None \<Rightarrow> Some (s, EINVALIDPARAM)
        | Some da \<Rightarrow> do {
            (s, initContentBuffer) \<leftarrow> dispatcher_read_param pid rpc_contentSize s;
            (case initContentBuffer of
               None \<Rightarrow> Some (s, ENOPARAMBUFFER)
             | Some buf \<Rightarrow> do {
                 d \<leftarrow> ms_dspaces s da;
                 (d, fr, err) \<leftarrow> ram_dspace_write buf rpc_contentSize d (ms_frames s) rpc_offset;
                 let s = s\<lparr>ms_dspaces := (ms_dspaces s)(da \<mapsto> d), ms_frames := fr\<rparr>;
                 if err \<noteq> ESUCCESS then Some (s, err)
                 else do {
                   s \<leftarrow> for_each [0..<refos_round_up_npages rpc_contentSize] (\<lambda>i s. do {
                     let offset = u32 (REFOS_PAGE_ALIGN rpc_offset + i * REFOS_PAGE_SIZE);
                     d \<leftarrow> ms_dspaces s da;
                     d \<leftarrow> ram_dspace_set_content_init_provided d offset;
                     (d, sent) \<leftarrow> ram_dspace_content_init_reply_waiters (en_heap env) d offset;
                     Some (log_calls (concat (map (\<lambda>c. Cap_Send c # free_cap c) sent))
                       (s\<lparr>ms_dspaces := (ms_dspaces s)(da \<mapsto> d)\<rparr>))
                   }) s;
                   Some (s, ESUCCESS)
                 }
               })
          })
     }
   }"

section \<open>Closing a dataspace\<close>

lemma dspace_badge:
  assumes "dispatcher_badge_dspace badge"
  shows "s32 (u32i (int badge - int RAM_DATASPACE_BADGE_BASE)) = int (badge - RAM_DATASPACE_BADGE_BASE)"
proof -
  define k where "k = badge - RAM_DATASPACE_BADGE_BASE"
  have "k < 2 ^ 31" "int badge - int RAM_DATASPACE_BADGE_BASE = int k"
    using assms by (auto simp: k_def dispatcher_badge_dspace_def badge_defs)
  then show ?thesis by (simp add: s32_def k_def [symmetric])
qed

lemma find_dspace_live:
  assumes "find_dspace s fd = Some (Some da)"
  shows "ms_dspaces s da \<noteq> None"
  using assms by (auto simp: find_dspace_def ram_dspace_get_badge_def ram_dspace_get_def
    bind_eq_Some_conv split: if_splits option.splits)

lemma find_dspace_eq:
  assumes ok: "oat_ok (ms_dslist s) (ms_dspaces s) (\<lambda>d. int (ds_ID d)) RAM_DATASPACE_MAX_NUM_DATASPACE"
  shows "find_dspace s fd = Some (Some da) \<longleftrightarrow>
      (\<exists>d. ms_dspaces s da = Some d \<and> fd = RAM_DATASPACE_BADGE_BASE + ds_ID d)"
    and "find_dspace s fd \<noteq> None"
proof -
  let ?i = "fd - RAM_DATASPACE_BADGE_BASE"
  have get: "find_dspace s fd = Some (if dispatcher_badge_dspace fd \<and> 0 < ?i then st_obj (ms_dslist s) ?i else None)"
  proof (cases "dispatcher_badge_dspace fd")
    case True
    then have i: "?i < RAM_DATASPACE_MAX_NUM_DATASPACE" by (auto simp: dispatcher_badge_dspace_def RAM_DATASPACE_BADGE_END_def)
    with oat_lookup_obj [OF ok i] oat_ok_cell [OF ok, of ?i] True dspace_badge [OF True] show ?thesis
      by (auto simp: find_dspace_def ram_dspace_get_badge_def ram_dspace_get_def RAM_DATASPACE_INVALID_ID_def
        split: option.split)
  qed (simp add: find_dspace_def)
  then show "find_dspace s fd \<noteq> None" by simp
  show "find_dspace s fd = Some (Some da) \<longleftrightarrow>
      (\<exists>d. ms_dspaces s da = Some d \<and> fd = RAM_DATASPACE_BADGE_BASE + ds_ID d)"
  proof
    assume "find_dspace s fd = Some (Some da)"
    with get have "st_obj (ms_dslist s) ?i = Some da" "dispatcher_badge_dspace fd" by (auto split: if_splits)
    with oat_ok_cell [OF ok] show "\<exists>d. ms_dspaces s da = Some d \<and> fd = RAM_DATASPACE_BADGE_BASE + ds_ID d"
      by (fastforce simp: dispatcher_badge_dspace_def)
  next
    assume "\<exists>d. ms_dspaces s da = Some d \<and> fd = RAM_DATASPACE_BADGE_BASE + ds_ID d"
    then obtain d where d: "ms_dspaces s da = Some d" "fd = RAM_DATASPACE_BADGE_BASE + ds_ID d" by blast
    from oat_ok_id [OF ok d(1)] have "0 < ds_ID d" "ds_ID d < RAM_DATASPACE_MAX_NUM_DATASPACE"
      "st_obj (ms_dslist s) (ds_ID d) = Some da" by auto
    with get d(2) show "find_dspace s fd = Some (Some da)"
      by (simp add: dispatcher_badge_dspace_def RAM_DATASPACE_BADGE_END_def)
  qed
qed

lemma same_refs:
  assumes "ms_inv s" "ms_inv t" and "same_objects s t" and "{h. holds t h = Some x} = {h. holds s h = Some x}"
  shows "ms_dspaces t x = ms_dspaces s x"
proof -
  have k: "map_option (ds_ref_update (\<lambda>_. 0)) (ms_dspaces t x) = map_option (ds_ref_update (\<lambda>_. 0)) (ms_dspaces s x)"
    using assms(3) by (simp add: same_objects_def)
  have r: "ds_ref d = Suc (card {h. holds u h = Some x})" if "ms_inv u" "ms_dspaces u x = Some d" for u d
    using that by (simp add: ms_inv_def ref_ok_def)
  show ?thesis
  proof (cases "ms_dspaces s x")
    case (Some d)
    with k obtain e where e: "ms_dspaces t x = Some e" "e\<lparr>ds_ref := 0\<rparr> = d\<lparr>ds_ref := 0\<rparr>" by auto
    have "ds_ref e = ds_ref d" using r [OF assms(2) e(1)] r [OF assms(1) Some] assms(4) by simp
    with e(2) have "e = d" by (cases e, cases d) simp
    with Some e show ?thesis by simp
  qed (use k in simp)
qed

lemma close_spec:
  assumes inv: "ms_inv s" and d: "ms_dspaces s da \<noteq> None" and heap: "en_heap env = heap_ok"
  shows "\<exists>t u d v. w_purge_dspace (ram_dspace_unref env) da s = Some t \<and>
    pid_iterate ms_pids (proc_dspace_delete_callback env da) t = Some u \<and> ms_dspaces u da = Some d \<and>
    ram_dspace_unref env (int (ds_ID d)) u = Some v \<and> ds_ref d = 1 \<and> ms_inv v \<and>
    ms_dspaces v = (ms_dspaces s)(da := None) \<and>
    (\<forall>h. holds v h = (if holds s h = Some da then None else holds s h)) \<and>
    ms_calls v = ms_calls u @ release_calls d"
proof -
  from purge_spec [OF inv d, of 1 env] obtain t where
    t: "w_purge_dspace (ram_dspace_unref env) da s = Some t" "purged da s t" "\<And>wa. holds t (Win wa) \<noteq> Some da"
    by (auto simp: ram_dspace_unref_def numeral_2_eq_2)
  from t(2) have it: "ms_inv t" "ms_dspaces t da \<noteq> None" by (simp_all add: purged_def)
  from delete_callbacks_spec [OF it, of env] obtain u where
    u: "pid_iterate ms_pids (proc_dspace_delete_callback env da) t = Some u" "purged da t u"
      "\<And>pid. holds u (Param pid) \<noteq> Some da" "\<And>pid. holds u (Notif pid) \<noteq> Some da" by blast
  have su: "purged da s u" by (rule purged_trans [OF t(2) u(2)])
  have none: "holds u h \<noteq> Some da" for h
    using u(3,4) purged_holds [OF u(2) t(3)] by (cases h) metis+
  have iu: "ms_inv u" and k: "same_objects s u" and h: "\<And>h. holds u h = holds s h \<or> holds s h = Some da \<and> holds u h = None"
    using su by (simp_all add: purged_def)
  obtain e where e: "ms_dspaces u da = Some e" using su by (auto simp: purged_def)
  have ref: "ds_ref e = 1" using iu e none by (simp add: ms_inv_def ref_ok_def)
  from unref_last [OF iu e none heap, of 1] obtain v where
    v: "ram_dspace_unref env (int (ds_ID e)) u = Some v" "ms_inv v" "holds v = holds u"
      "ms_dspaces v = (ms_dspaces u)(da := None)" "ms_calls v = ms_calls u @ release_calls e"
    by (auto simp: ram_dspace_unref_def numeral_2_eq_2)
  have hs: "holds u x = (if holds s x = Some da then None else holds s x)" for x
    using h [of x] none [of x] by auto
  have "ms_dspaces u x = ms_dspaces s x" if "x \<noteq> da" for x
    by (rule same_refs [OF inv iu k]) (use hs that in auto)
  then have "ms_dspaces v = (ms_dspaces s)(da := None)" unfolding v(4) by auto
  with t(1) u(1) e ref v hs show ?thesis by auto
qed

text \<open>
  C21 (safety): closing a dataspace through a valid badge succeeds and leaves no reference behind.
  Every window and every parameter or notification buffer that referred to it is cleared, the other
  holders keep theirs, the count is 1 when the handler compares it with 1, the object is gone, the other
  dataspaces are as before, and the reference counts are again exact; the last kernel calls
  release the content endpoint, the waiting replies, the frames and the capability.
\<close>

theorem close_leaves_no_reference:
  assumes "ms_inv s" and "client_of s pid = Some cl" and "en_heap env = heap_ok"
    and "check_dispatch_caps m 1 1" and "find_dspace s fd = Some (Some da)"
  shows "\<exists>v d cs. data_close_handler env m pid fd s = Some (v, ESUCCESS) \<and> ms_inv v \<and>
    ms_dspaces v = (ms_dspaces s)(da := None) \<and>
    (\<forall>h. holds v h = (if holds s h = Some da then None else holds s h)) \<and> find_dspace v fd = Some None \<and>
    ms_calls v = cs @ release_calls d \<and> ds_ref d = 1"
proof -
  from close_spec [OF assms(1) find_dspace_live [OF assms(5)] assms(3)] obtain t u d v where
    c: "w_purge_dspace (ram_dspace_unref env) da s = Some t"
      "pid_iterate ms_pids (proc_dspace_delete_callback env da) t = Some u" "ms_dspaces u da = Some d"
      "ram_dspace_unref env (int (ds_ID d)) u = Some v" "ds_ref d = 1" "ms_inv v"
      "ms_dspaces v = (ms_dspaces s)(da := None)"
      "\<forall>h. holds v h = (if holds s h = Some da then None else holds s h)"
      "ms_calls v = ms_calls u @ release_calls d" by blast
  have ok: "oat_ok (ms_dslist x) (ms_dspaces x) (\<lambda>d. int (ds_ID d)) RAM_DATASPACE_MAX_NUM_DATASPACE"
    if "ms_inv x" for x using that by (simp add: ms_inv_def)
  have "find_dspace v fd \<noteq> Some (Some x)" for x
  proof
    assume "find_dspace v fd = Some (Some x)"
    then have "x \<noteq> da \<and> find_dspace s fd = Some (Some x)"
      unfolding find_dspace_eq(1) [OF ok [OF c(6)]] find_dspace_eq(1) [OF ok [OF assms(1)]] c(7) by (auto split: if_splits)
    with assms(5) show False by simp
  qed
  with find_dspace_eq(2) [OF ok [OF c(6)], of fd] have "find_dspace v fd = Some None" by (metis option.exhaust)
  with c assms(2,4,5) show ?thesis by (auto simp: data_close_handler_def)
qed

text \<open>
  A state for the witnesses: process 1 has one window, which shows the dataspace at address 1, and
  uses the same dataspace as its parameter buffer.
\<close>

definition demo_store :: "nat \<Rightarrow> oat_store" where
  "demo_store a = \<lparr>os_pool = \<lparr>cp_start = 1, cp_end = 8192, cp_mx = 2, cp_freelist = cvector_init\<rparr>,
     os_table = \<lparr>cv_data = [Some None, Some (Some a), None, None], cv_size = 4, cv_count = 2, cv_nextResize = 16\<rparr>\<rparr>"

definition demo_dspace :: ram_dspace where
  "demo_dspace = \<lparr>ds_ID = 1, ds_capability = 70, ds_ref = 3, ds_pages = Some [0, 80], ds_npages = 2,
     ds_contentInitEnabled = False, ds_contentInitEP = 0, ds_contentInitPID = 0, ds_contentInitBitmask = None,
     ds_contentInitWaitingList = cvector_init, ds_physicalAddrEnabled = False, ds_physicalAddr = 0\<rparr>"

definition demo_window :: w_window where
  "demo_window = \<lparr>w_wID = 1, w_clientOwnerPID = 1, w_size = 8192, w_mode = W_MODE_ANONYMOUS, w_permissions = 3,
     w_cacheable = True, w_vspace = Some 1, w_reservation = 60, w_capability = 61, w_pager = 0, w_pagerPID = 0,
     w_ramDataspace = Some 1, w_ramDataspaceOffset = 0\<rparr>"

definition demo_client :: client where
  "demo_client = \<lparr>cl_windows = \<lparr>aw_associated = [\<lparr>aw_winID = 1, aw_offset = 65536, aw_size = 8192\<rparr>],
       aw_vectorSize = 1, aw_numIndex = 1, aw_updated = True\<rparr>,
     cl_pages = [65536 \<mapsto> 90], cl_ref = 2, cl_kpd = 1000, cl_cspace = 91, cl_kobjs = cvector_init,
     cl_threads = \<lparr>cv_data = [Some \<lparr>pt_priority = 100, pt_entryPoint = 32768, pt_tcb = 92\<rparr>], cv_size = 1,
       cv_count = 1, cv_nextResize = 16\<rparr>,
     cl_watch = client_watch_init, cl_paramBuffer = Some 1, cl_notificationBuffer = None, cl_mask = 0,
     cl_faultReply = 0, cl_exitStatus = 0, cl_parentPID = 0, cl_parentWaiting = False, cl_proc = None\<rparr>"

definition demo_ms :: memserv where
  "demo_ms = \<lparr>ms_dslist = demo_store 1, ms_dspaces = [1 \<mapsto> demo_dspace], ms_wlist = demo_store 2,
     ms_windows = [2 \<mapsto> demo_window],
     ms_pids = \<lparr>pl_pids = \<lparr>cp_start = 1, cp_end = 2048, cp_mx = 2, cp_freelist = cvector_init\<rparr>,
       pl_pcbs = (replicate 2048 None)[1 := Some demo_client]\<rparr>,
     ms_frames = \<lparr>fr_supply = [], fr_bytes = (\<lambda>c. replicate 4096 0), fr_mappable = (\<lambda>c. True), fr_device = (\<lambda>a. 0)\<rparr>,
     ms_pdlist = \<lparr>pd_pool = \<lparr>cp_start = 1, cp_end = 65, cp_mx = 2, cp_freelist = cvector_init\<rparr>,
       pd_pd = [1000..<1064], pd_cnode = [2000..<2064]\<rparr>,
     ms_unblockClientFaultPID = 0, ms_exitProcessPID = 0, ms_calls = []\<rparr>"

definition demo_env :: menv where
  "demo_env = \<lparr>en_heap = heap_ok, en_malloc = (\<lambda>_. True), en_addr = 3, en_mint = (\<lambda>b. b), en_reserve = (\<lambda>a b c. 1),
     en_resize = True, en_start = (\<lambda>r. 65536), en_slot = (\<lambda>k. 100 + k), en_copy = True, en_map = True, en_save = True\<rparr>"

lemma demo_store_obj:
  "st_inv (demo_store a)" "st_obj (demo_store a) i = (if i = 1 then Some a else None)"
  "cp_range (os_pool (demo_store a)) = {1..8192}"
proof -
  have c: "cv_list (os_table (demo_store a)) = [None, Some a]" "cv_inv (os_table (demo_store a))"
    by (auto simp: demo_store_def cv_defs less_2_cases_iff)
  have p: "cp_inv (os_pool (demo_store a))" "cp_live (os_pool (demo_store a)) = {1}"
    by (auto simp: demo_store_def cp_defs)
  show "cp_range (os_pool (demo_store a)) = {1..8192}" by (simp add: demo_store_def cp_range_def)
  show "st_obj (demo_store a) i = (if i = 1 then Some a else None)"
    unfolding st_obj_def coat_obj_def oat_of_simps c(1) by (cases "i = 0"; cases "i = 1") simp_all
  show "st_inv (demo_store a)"
  proof -
    have "i \<in> {1} \<longleftrightarrow> i < length [None, Some a] \<and> [None, Some a] ! i \<noteq> None" for i :: nat
      by (cases "i = 0"; cases "i = 1") simp_all
    moreover have "cp_end (os_pool (demo_store a)) < 2 ^ 31" by (simp add: demo_store_def)
    ultimately show ?thesis using p c(2) unfolding st_inv_def coat_inv_def oat_of_simps c(1) by simp
  qed
qed

lemma demo_store_ok: "ident x = 1 \<Longrightarrow> oat_ok (demo_store a) [a \<mapsto> x] ident 8192"
  using demo_store_obj [of a] by (simp add: oat_ok_def) (simp add: demo_store_def)

lemma demo_pids: "pid_inv (ms_pids demo_ms)" "client_of demo_ms pid = (if pid = 1 then Some demo_client else None)"
proof -
  show "pid_inv (ms_pids demo_ms)"
    by (auto simp: demo_ms_def pid_inv_def cp_defs PID_START_def PID_MAX_def nth_list_update)
  then show "client_of demo_ms pid = (if pid = 1 then Some demo_client else None)"
    by (auto simp: client_of_eq pid_pcb_def demo_ms_def PID_MAX_def nth_list_update)
qed

lemma demo_holds: "holds demo_ms h = (if h \<in> {Win 2, Param 1} then Some 1 else None)"
  by (cases h) (auto simp: demo_pids, simp_all add: demo_ms_def demo_window_def demo_client_def)

lemma demo_inv: "ms_inv demo_ms"
  unfolding ms_inv_def
proof (intro conjI)
  show "oat_ok (ms_dslist demo_ms) (ms_dspaces demo_ms) (\<lambda>d. int (ds_ID d)) RAM_DATASPACE_MAX_NUM_DATASPACE"
    by (simp add: demo_ms_def demo_store_ok demo_dspace_def RAM_DATASPACE_MAX_NUM_DATASPACE_def)
  show "oat_ok (ms_wlist demo_ms) (ms_windows demo_ms) w_wID W_MAX_WINDOWS"
    by (simp add: demo_ms_def demo_store_ok demo_window_def W_MAX_WINDOWS_def)
  show "pid_inv (ms_pids demo_ms)" by (rule demo_pids)
  show "clients_ok {} (client_of demo_ms) (ms_windows demo_ms)"
    by (auto simp: clients_ok_def demo_pids) (simp_all add: demo_ms_def demo_client_def demo_window_def
      assoc_inv_def wins_def layout_ok_def win_ok_def)
  have "{h. holds demo_ms h = Some 1} = {Win 2, Param 1}" by (auto simp: demo_holds)
  moreover have "dom (holds demo_ms) = {Win 2, Param 1}" by (auto simp: demo_holds dom_def)
  moreover have "ms_dspaces demo_ms = [1 \<mapsto> demo_dspace]" "ds_ref demo_dspace = 3"
    by (simp_all add: demo_ms_def demo_dspace_def)
  moreover have "x = 1" if "holds demo_ms h = Some x" for h x using that by (simp add: demo_holds split: if_splits)
  ultimately show "ref_ok (holds demo_ms) (ms_dspaces demo_ms)"
    by (auto simp: ref_ok_def split: if_splits)
  show "\<forall>da d. ms_dspaces demo_ms da = Some d \<longrightarrow> ds_ok d"
    by (auto simp: demo_ms_def ds_ok_def demo_dspace_def cv_defs cvector_init_def shape_ok_def pages_def
        split: if_splits)
qed

lemma demo_find: "find_dspace demo_ms 12292 = Some (Some 1)"
proof -
  have ok: "oat_ok (ms_dslist demo_ms) (ms_dspaces demo_ms) (\<lambda>d. int (ds_ID d)) RAM_DATASPACE_MAX_NUM_DATASPACE"
    using demo_inv by (simp add: ms_inv_def)
  show ?thesis
    unfolding find_dspace_eq(1) [OF ok] by (simp add: demo_ms_def demo_dspace_def badge_defs)
qed

theorem close_leaves_no_reference_witness:
  "\<exists>v d cs. data_close_handler demo_env \<lparr>pm_capsUnwrapped = 1, pm_extraCaps = 1\<rparr> 1 12292 demo_ms = Some (v, ESUCCESS) \<and>
    ms_dspaces v 1 = None \<and> holds v (Win 2) = None \<and> holds v (Param 1) = None \<and>
    find_dspace v 12292 = Some None \<and> ms_calls v = cs @ release_calls d"
proof -
  have c: "check_dispatch_caps \<lparr>pm_capsUnwrapped = 1, pm_extraCaps = 1\<rparr> 1 1" by (simp add: check_dispatch_caps_def)
  have e: "en_heap demo_env = heap_ok" by (simp add: demo_env_def)
  have p: "client_of demo_ms 1 = Some demo_client" by (simp add: demo_pids)
  from close_leaves_no_reference [OF demo_inv p e c demo_find] obtain v d cs where
    v: "data_close_handler demo_env \<lparr>pm_capsUnwrapped = 1, pm_extraCaps = 1\<rparr> 1 12292 demo_ms = Some (v, ESUCCESS)"
      "ms_dspaces v = (ms_dspaces demo_ms)(1 := None)"
      "\<And>h. holds v h = (if holds demo_ms h = Some 1 then None else holds demo_ms h)"
      "find_dspace v 12292 = Some None" "ms_calls v = cs @ release_calls d" by blast
  have "holds v (Win 2) = None" "holds v (Param 1) = None" unfolding v(3) by (simp_all only: demo_holds) simp_all
  with v(1,2,4,5) show ?thesis by auto
qed

end
