(* ===== verification/Nameserv.thy ===== *)
theory Nameserv
  imports Data_Syscall
begin

text \<open>
  The name server: the registration list of \<open>librefos/src/refos-util/nameserv.c\<close> and the root name
  server's system calls (\<open>process_server/src/dispatchers/name_syscall.c\<close>).  C strings are strings
  without terminator, a \<open>char *\<close> that may be null is a \<open>string option\<close>.  An entry owns its name and
  its endpoint; the operations also return the capabilities they pass to the callback
  \<open>free_capability\<close>.  The list refines a map from names to endpoints (interpretation \<open>ns\<close> of the
  locale \<open>key_store\<close>).
\<close>

section \<open>Model\<close>

definition REFOS_NAMESERV_MAGIC :: nat where "REFOS_NAMESERV_MAGIC = 0x5FA09B37"
definition REFOS_NAMESERV_ENTRY_MAGIC :: nat where "REFOS_NAMESERV_ENTRY_MAGIC = 0x5FA09B37"
definition REFOS_NAMESERV_RESOLVED :: int where "REFOS_NAMESERV_RESOLVED = -1"

record nameserv_entry =
  ne_name :: string
  ne_anonEP :: nat
  ne_magic :: nat

record nameserv_state =
  ns_magic :: nat
  ns_entries :: "nameserv_entry cvector"

text \<open>\<open>mem 0\<close> and \<open>mem 1\<close>: the allocations of the entry and of its name succeed.\<close>

definition nameserv_create_entry :: "(nat \<Rightarrow> bool) \<Rightarrow> string \<Rightarrow> nat \<Rightarrow> nameserv_entry option" where
  "nameserv_create_entry mem name anonEP =
     (if anonEP = 0 then None
      else if length name = 0 then None
      else if \<not> mem 0 then None
      else if \<not> mem 1 then None
      else Some \<lparr>ne_name = name, ne_anonEP = anonEP, ne_magic = REFOS_NAMESERV_ENTRY_MAGIC\<rparr>)"

definition nameserv_release_entry :: "nameserv_state \<Rightarrow> nameserv_entry \<Rightarrow> nat list option" where
  "nameserv_release_entry n entry = do {
     c_assert (ns_magic n = REFOS_NAMESERV_MAGIC);
     c_assert (ne_magic entry = REFOS_NAMESERV_ENTRY_MAGIC);
     Some [ne_anonEP entry]
   }"

definition nameserv_init :: "nameserv_state" where
  "nameserv_init = \<lparr>ns_magic = REFOS_NAMESERV_MAGIC, ns_entries = cvector_init\<rparr>"

definition nameserv_release :: "nameserv_state \<Rightarrow> (nameserv_state \<times> nat list) option" where
  "nameserv_release n = do {
     c_assert (ns_magic n = REFOS_NAMESERV_MAGIC);
     freed \<leftarrow> for_each [0..<cvector_count (ns_entries n)]
       (\<lambda>i fr. do {
          e \<leftarrow> cvector_get (ns_entries n) i;
          f \<leftarrow> nameserv_release_entry n e;
          Some (fr @ f)
        }) [];
     Some (n\<lparr>ns_entries := cvector_free (ns_entries n), ns_magic := 0\<rparr>, freed)
   }"

definition nameserv_find_entry_index :: "nameserv_state \<Rightarrow> string \<Rightarrow> nat option option" where
  "nameserv_find_entry_index n name = do {
     c_assert (ns_magic n = REFOS_NAMESERV_MAGIC);
     for_find (\<lambda>i. do {
         e \<leftarrow> cvector_get (ns_entries n) i;
         c_assert (ne_magic e = REFOS_NAMESERV_ENTRY_MAGIC);
         Some e
       }) (\<lambda>e. ne_name e = name) 0 (cvector_count (ns_entries n))
   }"

definition nameserv_delete ::
  "(nat \<Rightarrow> bool) \<Rightarrow> nameserv_state \<Rightarrow> string \<Rightarrow> (nameserv_state \<times> nat list) option" where
  "nameserv_delete heap n name = do {
     c_assert (ns_magic n = REFOS_NAMESERV_MAGIC);
     idx \<leftarrow> nameserv_find_entry_index n name;
     (case idx of
        None \<Rightarrow> Some (n, [])
      | Some i \<Rightarrow> do {
          e \<leftarrow> cvector_get (ns_entries n) i;
          freed \<leftarrow> nameserv_release_entry n e;
          es \<leftarrow> cvector_delete heap (ns_entries n) i;
          Some (n\<lparr>ns_entries := es\<rparr>, freed)
        })
   }"

definition nameserv_add ::
  "(nat \<Rightarrow> bool) \<Rightarrow> (nat \<Rightarrow> bool) \<Rightarrow> nameserv_state \<Rightarrow> string option \<Rightarrow> nat \<Rightarrow>
   (nameserv_state \<times> nat list \<times> refos_error) option" where
  "nameserv_add heap mem n name anonEP = do {
     c_assert (ns_magic n = REFOS_NAMESERV_MAGIC);
     (case name of
        None \<Rightarrow> Some (n, [], EINVALIDPARAM)
      | Some name \<Rightarrow>
          if anonEP = 0 then Some (n, [], EINVALIDPARAM)
          else do {
            (n, freed) \<leftarrow> nameserv_delete heap n name;
            (case nameserv_create_entry mem name anonEP of
               None \<Rightarrow> Some (n, freed, ENOMEM)
             | Some e \<Rightarrow> do {
                 (es, _) \<leftarrow> cvector_add heap (ns_entries n) e;
                 Some (n\<lparr>ns_entries := es\<rparr>, freed, ESUCCESS)
               })
          })
   }"

text \<open>
  The loop that copies the next segment: the segment, whether a slash ended it, and the number of
  characters passed.
\<close>

fun path_segment :: "string \<Rightarrow> string \<times> bool \<times> nat" where
  "path_segment [] = ([], False, 0)"
| "path_segment (c # cs) =
     (if c = CHR ''/'' then ([], True, 0)
      else (let (seg, found, k) = path_segment cs in (c # seg, found, k + 1)))"

text \<open>The endpoint is \<open>None\<close> when \<open>outAnonCap\<close> is not written.\<close>

definition nameserv_resolve ::
  "bool \<Rightarrow> nameserv_state \<Rightarrow> string option \<Rightarrow> (int \<times> nat option) option" where
  "nameserv_resolve mem n path = do {
     c_assert (ns_magic n = REFOS_NAMESERV_MAGIC);
     (case path of
        None \<Rightarrow> Some (0, None)
      | Some path \<Rightarrow>
          if length path = 0 then Some (0, None)
          else do {
            let lead = (if hd path = CHR ''/'' then 1 else 0);
            if \<not> mem then Some (0, None)
            else do {
              let (pathSegment, segmentFound, k) = path_segment (drop lead path);
              if \<not> segmentFound then Some (REFOS_NAMESERV_RESOLVED, None)
              else do {
                idx \<leftarrow> nameserv_find_entry_index n pathSegment;
                (case idx of
                   None \<Rightarrow> Some (0, None)
                 | Some i \<Rightarrow> do {
                     e \<leftarrow> cvector_get (ns_entries n) i;
                     c_assert (ne_magic e = REFOS_NAMESERV_ENTRY_MAGIC);
                     c_assert (lead + k < length path);
                     Some (int (lead + k), Some (ne_anonEP e))
                   })
              }
            }
          })
   }"

definition nsv_register_handler ::
  "menv \<Rightarrow> procserv_caps \<Rightarrow> string option \<Rightarrow> nat \<Rightarrow> nameserv_state \<Rightarrow>
   (nameserv_state \<times> nat list \<times> refos_error) option" where
  "nsv_register_handler env m rpc_name rpc_ep n =
     (if \<not> check_dispatch_caps m 0 1 then Some (n, [], EINVALIDPARAM)
      else if rpc_name = None then Some (n, [], EINVALIDPARAM)
      else do {
        anonCap \<leftarrow> dispatcher_copyout_cptr env rpc_ep;
        if anonCap = 0 then Some (n, [], ENOMEM)
        else do {
          (n, freed, err) \<leftarrow> nameserv_add (en_heap env) (en_malloc env) n rpc_name anonCap;
          if err \<noteq> ESUCCESS then Some (n, freed @ [anonCap], err)
          else Some (n, freed, ESUCCESS)
        }
      })"

definition nsv_unregister_handler ::
  "menv \<Rightarrow> string option \<Rightarrow> nameserv_state \<Rightarrow> (nameserv_state \<times> nat list \<times> refos_error) option" where
  "nsv_unregister_handler env rpc_name n =
     (case rpc_name of
        None \<Rightarrow> Some (n, [], EINVALIDPARAM)
      | Some name \<Rightarrow> do {
          (n, freed) \<leftarrow> nameserv_delete (en_heap env) n name;
          Some (n, freed, ESUCCESS)
        })"

text \<open>
  \<open>junk\<close> is the value of the local variable that the resolution may leave unset; the results are
  the capability, the resolved bytes when they are stored, and the error.
\<close>

definition nsv_resolve_segment_internal_handler ::
  "menv \<Rightarrow> nat \<Rightarrow> string option \<Rightarrow> nameserv_state \<Rightarrow> (nat \<times> int option \<times> refos_error) option" where
  "nsv_resolve_segment_internal_handler env junk rpc_path n =
     (case rpc_path of
        None \<Rightarrow> Some (0, None, EINVALIDPARAM)
      | Some path \<Rightarrow> do {
          (resolvedBytes, anonCap) \<leftarrow> nameserv_resolve (en_malloc env 0) n (Some path);
          Some (case anonCap of None \<Rightarrow> junk | Some c \<Rightarrow> c, Some resolvedBytes, ESUCCESS)
        })"

section \<open>Invariant and abstraction\<close>

definition ns_entry_ok :: "nameserv_entry \<Rightarrow> bool" where
  "ns_entry_ok e \<longleftrightarrow> ne_magic e = REFOS_NAMESERV_ENTRY_MAGIC \<and> ne_anonEP e \<noteq> 0 \<and> ne_name e \<noteq> []"

definition ns_pairs :: "nameserv_state \<Rightarrow> (string \<times> nat) list" where
  "ns_pairs n = map (\<lambda>e. (ne_name e, ne_anonEP e)) (cv_list (ns_entries n))"

definition ns_inv :: "nameserv_state \<Rightarrow> bool" where
  "ns_inv n \<longleftrightarrow> ns_magic n = REFOS_NAMESERV_MAGIC \<and> cv_inv (ns_entries n) \<and>
     distinct (map fst (ns_pairs n)) \<and> list_all ns_entry_ok (cv_list (ns_entries n))"

definition ns_lookup :: "nameserv_state \<Rightarrow> string \<Rightarrow> nat option" where
  "ns_lookup n = map_of (ns_pairs n)"

lemma nameserv_init_inv: "ns_inv nameserv_init" "ns_lookup nameserv_init = Map.empty"
  by (simp_all add: ns_inv_def nameserv_init_def ns_lookup_def ns_pairs_def)

lemma ns_entry:
  assumes "ns_inv n" and "i < length (cv_list (ns_entries n))"
  shows "ns_entry_ok (cv_list (ns_entries n) ! i)"
    and "cvector_get (ns_entries n) i = Some (cv_list (ns_entries n) ! i)"
  using assms by (auto simp: ns_inv_def list_all_length cvector_get_list)

lemma ns_find_cases:
  assumes inv: "ns_inv n"
  obtains (miss) "nameserv_find_entry_index n name = Some None" "ns_lookup n name = None"
  | (hit) i where "nameserv_find_entry_index n name = Some (Some i)"
      "i < length (cv_list (ns_entries n))" "ne_name (cv_list (ns_entries n) ! i) = name"
      "ns_lookup n name = Some (ne_anonEP (cv_list (ns_entries n) ! i))"
proof -
  let ?es = "cv_list (ns_entries n)"
  let ?get = "\<lambda>i. do { e \<leftarrow> cvector_get (ns_entries n) i; c_assert (ne_magic e = REFOS_NAMESERV_ENTRY_MAGIC); Some e }"
  have cnt: "cvector_count (ns_entries n) = length ?es" and mg: "ns_magic n = REFOS_NAMESERV_MAGIC"
    and d: "distinct (map fst (ns_pairs n))"
    using inv by (auto simp: ns_inv_def cvector_count_list)
  have find: "nameserv_find_entry_index n name = for_find ?get (\<lambda>e. ne_name e = name) 0 (length ?es)"
    using mg by (simp add: nameserv_find_entry_index_def cnt)
  have get: "?get k = Some (?es ! k)" if "k < length ?es" for k
    using ns_entry [OF inv that] by (simp add: ns_entry_ok_def)
  show thesis
  proof (rule for_find_cases [of "length ?es" ?get ?es "\<lambda>e. ne_name e = name"])
    fix k assume "k < length ?es"
    then show "?get k = Some (?es ! k)" by (rule get)
  next
    assume "for_find ?get (\<lambda>e. ne_name e = name) 0 (length ?es) = Some None"
      and no: "\<forall>k < length ?es. ne_name (?es ! k) \<noteq> name"
    moreover have "ns_lookup n name = None"
      using no by (auto simp: ns_lookup_def ns_pairs_def map_of_eq_None_iff in_set_conv_nth)
    ultimately show thesis using find by (intro miss) auto
  next
    fix i assume h: "for_find ?get (\<lambda>e. ne_name e = name) 0 (length ?es) = Some (Some i)"
      "i < length ?es" "ne_name (?es ! i) = name"
    have "(name, ne_anonEP (?es ! i)) \<in> set (ns_pairs n)"
      using h by (force simp: ns_pairs_def)
    then have "ns_lookup n name = Some (ne_anonEP (?es ! i))"
      using d by (simp add: ns_lookup_def)
    with h find show thesis by (intro hit [of i]) auto
  qed
qed

section \<open>Operations\<close>

lemma nameserv_delete_lookup:
  assumes inv: "ns_inv n"
  shows "\<exists>u. nameserv_delete heap_ok n name =
      Some (u, case ns_lookup n name of None \<Rightarrow> [] | Some ep \<Rightarrow> [ep]) \<and>
    ns_inv u \<and> ns_lookup u = (ns_lookup n)(name := None)"
  using inv
proof (cases rule: ns_find_cases [where name = name])
  case miss
  then show ?thesis using inv by (simp add: nameserv_delete_def ns_inv_def fun_upd_idem)
next
  case (hit i)
  let ?es = "cv_list (ns_entries n)"
  from inv have cv: "cv_inv (ns_entries n)" by (simp add: ns_inv_def)
  from cvector_delete_list [OF cv hit(2)] obtain es where
    es: "cvector_delete heap_ok (ns_entries n) i = Some es" "cv_inv es"
      "cv_list es = take i ?es @ drop (Suc i) ?es" by blast
  let ?u = "n\<lparr>ns_entries := es\<rparr>"
  have pairs: "ns_pairs ?u = take i (ns_pairs n) @ drop (Suc i) (ns_pairs n)"
    by (simp add: ns_pairs_def es(3) take_map drop_map)
  have "distinct (map fst (ns_pairs n))" "i < length (ns_pairs n)" "fst (ns_pairs n ! i) = name"
    using inv hit by (auto simp: ns_inv_def) (auto simp: ns_pairs_def)
  from map_of_del_index [OF this]
  have del: "ns_lookup ?u = (ns_lookup n)(name := None)" "distinct (map fst (ns_pairs ?u))"
    unfolding ns_lookup_def pairs by auto
  have "ns_inv ?u"
    using inv del(2) es by (auto simp: ns_inv_def list_all_iff dest: in_set_takeD in_set_dropD)
  moreover have "nameserv_delete heap_ok n name = Some (?u, [ne_anonEP (?es ! i)])"
    using ns_entry [OF inv hit(2)] inv hit(1) es(1)
    by (simp add: nameserv_delete_def nameserv_release_entry_def ns_entry_ok_def ns_inv_def)
  ultimately show ?thesis using del(1) hit(4) by (intro exI [of _ ?u]) simp
qed

lemma nameserv_add_lookup:
  assumes inv: "ns_inv n" and "name \<noteq> []" and "ep \<noteq> 0"
  shows "\<exists>u. nameserv_add heap_ok (\<lambda>_. True) n (Some name) ep =
      Some (u, case ns_lookup n name of None \<Rightarrow> [] | Some old \<Rightarrow> [old], ESUCCESS) \<and>
    ns_inv u \<and> ns_lookup u = (ns_lookup n)(name \<mapsto> ep)"
proof -
  from nameserv_delete_lookup [OF inv, of name] obtain w where
    w: "nameserv_delete heap_ok n name =
        Some (w, case ns_lookup n name of None \<Rightarrow> [] | Some ep \<Rightarrow> [ep])"
      "ns_inv w" "ns_lookup w = (ns_lookup n)(name := None)" by blast
  let ?e = "\<lparr>ne_name = name, ne_anonEP = ep, ne_magic = REFOS_NAMESERV_ENTRY_MAGIC\<rparr>"
  from w(2) have "cv_inv (ns_entries w)" by (simp add: ns_inv_def)
  from cvector_add_list [OF this, of ?e] obtain es where
    es: "cvector_add heap_ok (ns_entries w) ?e = Some (es, length (cv_list (ns_entries w)))"
      "cv_inv es" "cv_list es = cv_list (ns_entries w) @ [?e]" by blast
  let ?u = "w\<lparr>ns_entries := es\<rparr>"
  have pairs: "ns_pairs ?u = ns_pairs w @ [(name, ep)]" by (simp add: ns_pairs_def es(3))
  have new: "map_of (ns_pairs w) name = None" using w(3) by (simp add: ns_lookup_def [symmetric])
  then have "ns_lookup ?u = (ns_lookup w)(name \<mapsto> ep)"
    by (auto simp: ns_lookup_def pairs map_add_def fun_eq_iff split: option.splits)
  moreover have "ns_inv ?u"
    using w(2) es assms(2,3) new pairs
    by (auto simp: ns_inv_def ns_entry_ok_def map_of_eq_None_iff)
  moreover have "nameserv_add heap_ok (\<lambda>_. True) n (Some name) ep =
      Some (?u, case ns_lookup n name of None \<Rightarrow> [] | Some old \<Rightarrow> [old], ESUCCESS)"
    using inv w(1) es(1) assms(2,3) by (simp add: nameserv_add_def nameserv_create_entry_def ns_inv_def)
  ultimately show ?thesis using w(3) by (intro exI [of _ ?u]) simp
qed

text \<open>The value registered under a name, read the way the resolution does.\<close>

definition nameserv_get :: "nameserv_state \<Rightarrow> string \<Rightarrow> nat option option" where
  "nameserv_get n name = do {
     idx \<leftarrow> nameserv_find_entry_index n name;
     (case idx of None \<Rightarrow> Some None
      | Some i \<Rightarrow> do { e \<leftarrow> cvector_get (ns_entries n) i; Some (Some (ne_anonEP e)) })
   }"

lemma nameserv_get_lookup: "ns_inv n \<Longrightarrow> nameserv_get n name = Some (ns_lookup n name)"
  by (cases rule: ns_find_cases [where name = name]) (auto simp: nameserv_get_def ns_entry)

interpretation ns: key_store ns_inv ns_lookup nameserv_get
  "\<lambda>t k x. map_option fst (nameserv_add heap_ok (\<lambda>_. True) t (Some k) x)"
  "\<lambda>t k. map_option fst (nameserv_delete heap_ok t k)" "\<lambda>k. k \<noteq> []" "\<lambda>ep. ep \<noteq> 0"
proof
  fix t k x assume inv: "ns_inv t"
  show "nameserv_get t k = Some (ns_lookup t k)" using inv by (rule nameserv_get_lookup)
  show "\<exists>u. map_option fst (nameserv_delete heap_ok t k) = Some u \<and> ns_inv u \<and>
      ns_lookup u = (ns_lookup t)(k := None)"
    using nameserv_delete_lookup [OF inv, of k] by auto
  assume "k \<noteq> []" "x \<noteq> (0::nat)"
  from nameserv_add_lookup [OF inv this]
  show "\<exists>u. map_option fst (nameserv_add heap_ok (\<lambda>_. True) t (Some k) x) = Some u \<and> ns_inv u \<and>
      ns_lookup u = (ns_lookup t)(k \<mapsto> x)" by auto
qed

section \<open>Resolution\<close>

lemma path_segment_eq:
  "path_segment p = (takeWhile (\<lambda>c. c \<noteq> CHR ''/'') p, CHR ''/'' \<in> set p,
     length (takeWhile (\<lambda>c. c \<noteq> CHR ''/'') p))"
  by (induction p) auto

definition path_body :: "string \<Rightarrow> string" where
  "path_body p = (case p of [] \<Rightarrow> [] | c # cs \<Rightarrow> if c = CHR ''/'' then cs else p)"

definition first_segment :: "string \<Rightarrow> string" where
  "first_segment p = takeWhile (\<lambda>c. c \<noteq> CHR ''/'') (path_body p)"

lemma path_body_drop:
  "p \<noteq> [] \<Longrightarrow> path_body p = drop (if hd p = CHR ''/'' then 1 else 0) p"
  by (cases p) (auto simp: path_body_def)

lemma segment_shorter: "c \<in> set p \<Longrightarrow> length (takeWhile (\<lambda>x. x \<noteq> c) p) < length p"
  by (induction p) auto

lemma nameserv_resolve_spec:
  assumes inv: "ns_inv n" and ne: "p \<noteq> []"
  shows "nameserv_resolve True n (Some p) = Some
    (if CHR ''/'' \<notin> set (path_body p) then (REFOS_NAMESERV_RESOLVED, None)
     else case ns_lookup n (first_segment p) of
       None \<Rightarrow> (0, None)
     | Some ep \<Rightarrow> (int (length p - length (path_body p) + length (first_segment p)), Some ep))"
proof (cases "CHR ''/'' \<in> set (path_body p)")
  case False
  then show ?thesis using inv ne
    by (simp add: nameserv_resolve_def ns_inv_def path_segment_eq path_body_drop)
next
  case True
  let ?lead = "if hd p = CHR ''/'' then 1 else (0 :: nat)"
  have lead: "length p - length (path_body p) = ?lead" "?lead + length (path_body p) = length p"
    using ne by (auto simp: path_body_drop Suc_leI)
  have "length (first_segment p) < length (path_body p)"
    unfolding first_segment_def using True by (rule segment_shorter)
  then have bound: "?lead + length (first_segment p) < length p" using lead by linarith
  note unfold = nameserv_resolve_def ns_inv_def path_segment_eq path_body_drop first_segment_def
  from inv show ?thesis
  proof (cases rule: ns_find_cases [where name = "first_segment p"])
    case miss
    then show ?thesis using inv ne True
      by (cases "hd p = CHR ''/''") (simp_all add: unfold)
  next
    case (hit i)
    then show ?thesis using inv ne True bound lead(1) ns_entry [OF inv hit(2)]
      by (cases "hd p = CHR ''/''") (simp_all add: unfold ns_entry_ok_def)
  qed
qed

lemma first_segment_name:
  assumes "CHR ''/'' \<notin> set name" and "name \<noteq> []"
  shows "path_body (name @ CHR ''/'' # rest) = name @ CHR ''/'' # rest"
    and "path_body (CHR ''/'' # name @ CHR ''/'' # rest) = name @ CHR ''/'' # rest"
    and "takeWhile (\<lambda>c. c \<noteq> CHR ''/'') (name @ CHR ''/'' # rest) = name"
  using assms by (cases name; auto simp: path_body_def takeWhile_append)+

text \<open>
  C38 (name server).  Registering a server under a name without a slash succeeds and frees the
  endpoint of an older registration of the name.  Afterwards every path whose first segment is the
  name, with or without a leading slash, resolves to the registered endpoint with the length of
  that segment, and the resolution of every other path is what it was.  Unregistering frees the
  endpoint and removes exactly this name.
\<close>

theorem name_server_roundtrip:
  assumes inv: "ns_inv n" and name: "name \<noteq> []" "CHR ''/'' \<notin> set name"
    and caps: "check_dispatch_caps m 0 1"
    and env: "en_heap env = heap_ok" "en_malloc env = (\<lambda>_. True)" "en_copy env" "en_slot env 0 \<noteq> 0"
  shows "\<exists>u. nsv_register_handler env m (Some name) ep n =
      Some (u, case ns_lookup n name of None \<Rightarrow> [] | Some old \<Rightarrow> [old], ESUCCESS) \<and> ns_inv u \<and>
    nsv_resolve_segment_internal_handler env junk (Some (name @ CHR ''/'' # rest)) u =
      Some (en_slot env 0, Some (int (length name)), ESUCCESS) \<and>
    nsv_resolve_segment_internal_handler env junk (Some (CHR ''/'' # name @ CHR ''/'' # rest)) u =
      Some (en_slot env 0, Some (int (length name) + 1), ESUCCESS) \<and>
    (\<forall>p. first_segment p \<noteq> name \<longrightarrow>
       nsv_resolve_segment_internal_handler env junk (Some p) u =
       nsv_resolve_segment_internal_handler env junk (Some p) n) \<and>
    (\<exists>w. nsv_unregister_handler env (Some name) u = Some (w, [en_slot env 0], ESUCCESS) \<and>
       ns_inv w \<and> ns_lookup w = (ns_lookup n)(name := None))"
proof -
  from nameserv_add_lookup [OF inv name(1) env(4)] obtain u where
    u: "nameserv_add heap_ok (\<lambda>_. True) n (Some name) (en_slot env 0) =
        Some (u, case ns_lookup n name of None \<Rightarrow> [] | Some old \<Rightarrow> [old], ESUCCESS)"
      "ns_inv u" "ns_lookup u = (ns_lookup n)(name \<mapsto> en_slot env 0)" by blast
  have reg: "nsv_register_handler env m (Some name) ep n =
      Some (u, case ns_lookup n name of None \<Rightarrow> [] | Some old \<Rightarrow> [old], ESUCCESS)"
    using u(1) caps env by (simp add: nsv_register_handler_def dispatcher_copyout_cptr_def)
  have res: "nameserv_resolve True u (Some (name @ CHR ''/'' # rest)) =
      Some (int (length name), Some (en_slot env 0))"
    "nameserv_resolve True u (Some (CHR ''/'' # name @ CHR ''/'' # rest)) =
      Some (int (length name) + 1, Some (en_slot env 0))"
    using u(3) nameserv_resolve_spec [OF u(2)] first_segment_name [OF name(2,1), of rest]
    by (simp_all add: first_segment_def)
  have other: "nsv_resolve_segment_internal_handler env junk (Some p) u =
      nsv_resolve_segment_internal_handler env junk (Some p) n" if "first_segment p \<noteq> name" for p
  proof (cases "p = []")
    case True
    then show ?thesis using env(2) u(2) inv
      by (simp add: nsv_resolve_segment_internal_handler_def nameserv_resolve_def ns_inv_def)
  next
    case False
    then show ?thesis using that env(2) u(3)
      by (simp add: nsv_resolve_segment_internal_handler_def nameserv_resolve_spec [OF inv]
          nameserv_resolve_spec [OF u(2)])
  qed
  from nameserv_delete_lookup [OF u(2), of name] u(3) obtain w where
    "nameserv_delete heap_ok u name = Some (w, [en_slot env 0])" "ns_inv w"
    "ns_lookup w = (ns_lookup n)(name := None)" by auto
  then have unreg: "\<exists>w. nsv_unregister_handler env (Some name) u = Some (w, [en_slot env 0], ESUCCESS) \<and>
      ns_inv w \<and> ns_lookup w = (ns_lookup n)(name := None)"
    using env(1) by (simp add: nsv_unregister_handler_def)
  show ?thesis
    using reg u(2) res other unreg env(2)
    by (intro exI [of _ u]) (simp add: nsv_resolve_segment_internal_handler_def)
qed

theorem name_server_roundtrip_witness:
  "\<exists>u. nsv_register_handler demo_env \<lparr>pm_capsUnwrapped = 0, pm_extraCaps = 1\<rparr> (Some ''fileserv'') 3
      nameserv_init = Some (u, [], ESUCCESS) \<and>
    nsv_resolve_segment_internal_handler demo_env 0 (Some ''/fileserv/a.txt'') u =
      Some (en_slot demo_env 0, Some 9, ESUCCESS)"
proof -
  have "''fileserv'' \<noteq> ([] :: string)" "CHR ''/'' \<notin> set ''fileserv''"
    "check_dispatch_caps \<lparr>pm_capsUnwrapped = 0, pm_extraCaps = 1\<rparr> 0 1"
    "en_heap demo_env = heap_ok" "en_malloc demo_env = (\<lambda>_. True)" "en_copy demo_env"
    "en_slot demo_env 0 \<noteq> 0"
    by (simp_all add: demo_env_def check_dispatch_caps_def)
  from name_server_roundtrip [OF nameserv_init_inv(1) this, of 3 0 "''a.txt''"]
  show ?thesis by (auto simp: nameserv_init_inv(2))
qed

text \<open>
  When nothing is found, or the path ends at this server, the handler still reports success and
  answers with a capability number it never set.
\<close>

lemma unresolved_returns_junk:
  assumes "ns_inv n" and "p \<noteq> []" and "en_malloc env 0"
    and "CHR ''/'' \<notin> set (path_body p) \<or> ns_lookup n (first_segment p) = None"
  shows "\<exists>k. nsv_resolve_segment_internal_handler env junk (Some p) n = Some (junk, Some k, ESUCCESS)"
  using assms
  by (auto simp: nsv_resolve_segment_internal_handler_def nameserv_resolve_spec)

text \<open>
  Registering under a taken name first deletes the old registration: when the allocation of the new
  entry fails, the name is gone.
\<close>

lemma failed_register_drops_name:
  assumes inv: "ns_inv n" and "ep \<noteq> 0" and "\<not> mem 0"
  shows "\<exists>u freed. nameserv_add heap_ok mem n (Some name) ep = Some (u, freed, ENOMEM) \<and>
    ns_lookup u = (ns_lookup n)(name := None)"
  using nameserv_delete_lookup [OF inv, of name] assms
  by (auto simp: nameserv_add_def nameserv_create_entry_def ns_inv_def)

end
