(* ===== verification/Vspace.thy ===== *)
theory Vspace
  imports Data_Syscall
begin

text \<open>
  The windows and the page table of an address space (\<open>system/addrspace/vspace.c\<close>).  The address
  space is part of the control block of its process, so a pointer to it is the process identifier.
  Reservations are handles of the library; the list of allocated kernel objects, which only
  matters when the address space is released, is left out.
\<close>

section \<open>Model\<close>

definition set_windows :: "nat \<Rightarrow> w_associated_windowlist \<Rightarrow> memserv \<Rightarrow> memserv option" where
  "set_windows pid aws = upd_client pid (\<lambda>c. c\<lparr>cl_windows := aws\<rparr>)"

definition vs_create_window ::
  "menv \<Rightarrow> nat \<Rightarrow> nat \<Rightarrow> nat \<Rightarrow> nat \<Rightarrow> bool \<Rightarrow> memserv \<Rightarrow> (memserv \<times> int \<times> refos_error) option" where
  "vs_create_window env pid vaddr sz permissions cacheable s = do {
     cl \<leftarrow> client_of s pid;
     (aws, free) \<leftarrow> w_associate_check (cl_windows cl) vaddr sz;
     s \<leftarrow> set_windows pid aws s;
     if \<not> free then Some (s, W_INVALID_WINID, EINVALIDWINDOW)
     else do {
       let r = en_reserve env vaddr sz permissions;
       if r = 0 then Some (s, W_INVALID_WINID, EINVALIDWINDOW)
       else do {
         (s, window) \<leftarrow> w_create_window env sz pid permissions r cacheable s;
         (case window of
            None \<Rightarrow> Some (s, W_INVALID_WINID, ENOMEM)
          | Some wa \<Rightarrow> do {
              w \<leftarrow> ms_windows s wa;
              c_assert (w_wID w \<noteq> W_INVALID_WINID);
              cl \<leftarrow> client_of s pid;
              (aws, err) \<leftarrow> w_associate (en_heap env) (cl_windows cl) (w_wID w) vaddr sz;
              s \<leftarrow> set_windows pid aws s;
              c_assert (err = ESUCCESS);
              Some (s, w_wID w, ESUCCESS)
            })
       }
     }
   }"

definition vs_delete_window :: "menv \<Rightarrow> nat \<Rightarrow> int \<Rightarrow> memserv \<Rightarrow> memserv option" where
  "vs_delete_window env pid wID s = do {
     cl \<leftarrow> client_of s pid;
     (aws, awindow) \<leftarrow> w_associate_find_winID (cl_windows cl) wID;
     s \<leftarrow> set_windows pid aws s;
     (case awindow of
        None \<Rightarrow> Some s
      | Some aw \<Rightarrow>
          if aw_winID aw \<noteq> wID then Some s
          else do {
            s \<leftarrow> vs_unmap_window pid wID s;
            cl \<leftarrow> client_of s pid;
            aws \<leftarrow> w_unassociate (cl_windows cl) wID;
            s \<leftarrow> set_windows pid aws s;
            w_delete_window env wID s
          })
   }"

definition vs_unmap :: "nat \<Rightarrow> nat \<Rightarrow> nat \<Rightarrow> memserv \<Rightarrow> (memserv \<times> refos_error) option" where
  "vs_unmap pid vaddr nFrames s = do {
     cl \<leftarrow> client_of s pid;
     (aws, awindow) \<leftarrow> w_associate_find_range (cl_windows cl) vaddr (u32 (nFrames * REFOS_PAGE_SIZE));
     s \<leftarrow> set_windows pid aws s;
     (case awindow of
        None \<Rightarrow> Some (s, EINVALIDWINDOW)
      | Some aw \<Rightarrow> do {
          p \<leftarrow> w_get_window s (aw_winID aw);
          wa \<leftarrow> p;
          w \<leftarrow> ms_windows s wa;
          c_assert (w_vspace w = Some pid);
          s \<leftarrow> for_each [0..<nFrames] (\<lambda>va. vs_unmap_frame pid (u32 (vaddr + va * REFOS_PAGE_SIZE))) s;
          Some (s, ESUCCESS)
        })
   }"

definition w_resize_window :: "menv \<Rightarrow> nat \<Rightarrow> nat \<Rightarrow> nat \<Rightarrow> memserv \<Rightarrow> (memserv \<times> refos_error) option" where
  "w_resize_window env wa vaddr sz s = do {
     w \<leftarrow> ms_windows s wa;
     if sz = w_size w then Some (s, ESUCCESS)
     else if \<not> en_resize env then Some (s, EINVALIDWINDOW)
     else do {
       s \<leftarrow> upd_window wa (\<lambda>w. w\<lparr>w_size := sz\<rparr>) s;
       Some (s, ESUCCESS)
     }
   }"

text \<open>The assignment to the size of the entry that \<open>w_associate_find_winID\<close> returned.\<close>

definition set_assoc_size ::
  "w_associated_windowlist \<Rightarrow> int \<Rightarrow> nat \<Rightarrow> w_associated_windowlist option" where
  "set_assoc_size aws wID sz = do {
     i \<leftarrow> for_find (rd (aw_associated aws)) (\<lambda>a. aw_winID a = wID) 0 (aw_numIndex aws);
     k \<leftarrow> i;
     a \<leftarrow> rd (aw_associated aws) k;
     arr \<leftarrow> wr (aw_associated aws) k (a\<lparr>aw_size := sz\<rparr>);
     Some (aws\<lparr>aw_associated := arr\<rparr>)
   }"

definition vs_resize_window ::
  "menv \<Rightarrow> nat \<Rightarrow> int \<Rightarrow> nat \<Rightarrow> memserv \<Rightarrow> (memserv \<times> refos_error) option" where
  "vs_resize_window env pid wID sz s =
     (if sz = 0 then Some (s, EINVALIDPARAM)
      else do {
        cl \<leftarrow> client_of s pid;
        (aws, awindow) \<leftarrow> w_associate_find_winID (cl_windows cl) wID;
        s \<leftarrow> set_windows pid aws s;
        (case awindow of
           None \<Rightarrow> Some (s, EINVALIDWINDOW)
         | Some aw \<Rightarrow>
             if aw_winID aw \<noteq> wID then Some (s, EINVALIDWINDOW)
             else do {
               p \<leftarrow> w_get_window s wID;
               (case p of
                  None \<Rightarrow> Some (s, EINVALIDWINDOW)
                | Some wa \<Rightarrow> do {
                    w \<leftarrow> ms_windows s wa;
                    c_assert (aw_offset aw = en_start env (w_reservation w));
                    (s, err) \<leftarrow>
                      (if sz > aw_size aw then do {
                         cl \<leftarrow> client_of s pid;
                         (aws, free) \<leftarrow> w_associate_check (cl_windows cl)
                           (u32 (aw_offset aw + aw_size aw)) (sz - aw_size aw);
                         s \<leftarrow> set_windows pid aws s;
                         Some (s, if free then ESUCCESS else EINVALIDPARAM)
                       }
                       else if sz < aw_size aw then
                         vs_unmap pid (REFOS_PAGE_ALIGN (u32 (aw_offset aw + sz)))
                           (refos_round_up_npages (aw_size aw - sz)) s
                       else Some (s, ESUCCESS));
                    if err \<noteq> ESUCCESS then Some (s, err)
                    else do {
                      (s, err) \<leftarrow> w_resize_window env wa (aw_offset aw) sz s;
                      if err \<noteq> ESUCCESS then Some (s, err)
                      else do {
                        cl \<leftarrow> client_of s pid;
                        aws \<leftarrow> set_assoc_size (cl_windows cl) wID sz;
                        s \<leftarrow> set_windows pid aws s;
                        Some (s, ESUCCESS)
                      }
                    }
                  })
             })
      })"

text \<open>
  The copies of the frames are made in order; on a failure those made so far are freed.  The page
  table then holds the copies.
\<close>

definition vs_map ::
  "menv \<Rightarrow> nat \<Rightarrow> nat \<Rightarrow> nat list \<Rightarrow> memserv \<Rightarrow> (memserv \<times> refos_error) option" where
  "vs_map env pid vaddr frames s = do {
     let n = length frames;
     let vaddr = REFOS_PAGE_ALIGN vaddr;
     cl \<leftarrow> client_of s pid;
     (aws, awindow) \<leftarrow> w_associate_find_range (cl_windows cl) vaddr (u32 (n * REFOS_PAGE_SIZE));
     s \<leftarrow> set_windows pid aws s;
     (case awindow of
        None \<Rightarrow> Some (s, EINVALIDWINDOW)
      | Some aw \<Rightarrow> do {
          p \<leftarrow> w_get_window s (aw_winID aw);
          wa \<leftarrow> p;
          w \<leftarrow> ms_windows s wa;
          c_assert (w_vspace w = Some pid);
          let addrs = map (\<lambda>va. u32 (vaddr + va * REFOS_PAGE_SIZE)) [0..<n];
          if list_ex (\<lambda>a. vspace_get_cap cl a \<noteq> None) addrs then Some (s, EUNMAPFIRST)
          else if \<not> en_malloc env 0 then Some (s, ENOMEM)
          else do {
            let copies = takeWhile (\<lambda>c. c \<noteq> 0) (map (en_slot env) [0..<n]);
            let s = log_calls (map (\<lambda>(c, f). Cap_Copy f c) (zip copies frames)) s;
            if length copies < n then Some (log_calls (concat (map free_cap copies)) s, ENOMEM)
            else if \<not> en_map env
            then Some (log_calls (concat (map free_cap copies)) s, EUNMAPFIRST)
            else do {
              s \<leftarrow> upd_client pid (\<lambda>c. c\<lparr>cl_pages := cl_pages c ++ map_of (zip addrs copies)\<rparr>) s;
              Some (s, ESUCCESS)
            }
          }
        })
   }"

text \<open>The process of the window is returned as well, \<open>None\<close> when it was not stored.\<close>

definition vs_map_across_vspace ::
  "menv \<Rightarrow> nat \<Rightarrow> nat \<Rightarrow> nat \<Rightarrow> nat \<Rightarrow> memserv \<Rightarrow> (memserv \<times> refos_error \<times> nat option) option" where
  "vs_map_across_vspace env src vaddrSrc wa windowDestOffset s = do {
     cl \<leftarrow> client_of s src;
     w \<leftarrow> ms_windows s wa;
     (case vspace_get_cap cl vaddrSrc of
        None \<Rightarrow> Some (s, EINVALIDPARAM, None)
      | Some frameCap \<Rightarrow>
          if windowDestOffset \<ge> w_size w then Some (s, EINVALIDPARAM, None)
          else do {
            pcb \<leftarrow> pid_get_pcb (ms_pids s) (w_clientOwnerPID w);
            (case pcb of
               None \<Rightarrow> Some (s, EINVALIDWINDOW, None)
             | Some dest \<Rightarrow> do {
                 (aws, assoc) \<leftarrow> w_associate_find_winID (cl_windows dest) (w_wID w);
                 s \<leftarrow> set_windows (w_clientOwnerPID w) aws s;
                 (case assoc of
                    None \<Rightarrow> Some (s, EINVALIDWINDOW, Some (w_clientOwnerPID w))
                  | Some aw \<Rightarrow> do {
                      (s, err) \<leftarrow> vs_map env (w_clientOwnerPID w) (u32 (aw_offset aw + windowDestOffset)) [frameCap] s;
                      Some (s, err, Some (w_clientOwnerPID w))
                    })
               })
          })
   }"

definition vs_map_device ::
  "menv \<Rightarrow> nat \<Rightarrow> nat \<Rightarrow> nat \<Rightarrow> nat \<Rightarrow> nat \<Rightarrow> bool \<Rightarrow> memserv \<Rightarrow> (memserv \<times> refos_error) option" where
  "vs_map_device env pid wa windowOffset paddr sz cached s = do {
     w \<leftarrow> ms_windows s wa;
     c_assert (sz = REFOS_PAGE_SIZE);
     if u32 (windowOffset + sz) > w_size w then Some (s, EINVALIDPARAM)
     else do {
       pcb \<leftarrow> pid_get_pcb (ms_pids s) (w_clientOwnerPID w);
       (case pcb of
          None \<Rightarrow> Some (s, EINVALID)
        | Some dest \<Rightarrow>
            if w_clientOwnerPID w \<noteq> pid then Some (s, EACCESSDENIED)
            else do {
              (aws, assoc) \<leftarrow> w_associate_find_winID (cl_windows dest) (w_wID w);
              s \<leftarrow> set_windows pid aws s;
              (case assoc of
                 None \<Rightarrow> Some (s, EINVALIDWINDOW)
               | Some aw \<Rightarrow>
                   if cached \<noteq> w_cacheable w then Some (s, EACCESSDENIED)
                   else (let deviceFrame = fr_device (ms_frames s) paddr in
                     if deviceFrame = 0 then Some (s, EFILENOTFOUND)
                     else do {
                       (s, err) \<leftarrow> vs_map env pid (u32 (aw_offset aw + windowOffset)) [deviceFrame] s;
                       if err \<noteq> ESUCCESS then Some (s, err)
                       else Some (log_calls [Cap_Delete deviceFrame] s, ESUCCESS)
                     }))
            })
     }
   }"

definition vs_get_frame :: "memserv \<Rightarrow> nat \<Rightarrow> nat \<Rightarrow> nat option" where
  "vs_get_frame s pid vaddr = do {
     cl \<leftarrow> client_of s pid;
     Some (case vspace_get_cap cl vaddr of None \<Rightarrow> 0 | Some c \<Rightarrow> c)
   }"

end
