(* ===== verification/Mem_Syscall.thy ===== *)
theory Mem_Syscall
  imports Vspace
begin

text \<open>
  The system calls for windows and buffers (\<open>dispatchers/mem_syscall.c\<close>, and
  \<open>proc_set_parambuffer_handler\<close> of \<open>dispatchers/proc_syscall.c\<close>).
\<close>

unbundle bit_operations_syntax

section \<open>Model\<close>

definition PROCESS_KERNEL_RESERVED :: nat where "PROCESS_KERNEL_RESERVED = 0xE0000000"
definition W_FLAGS_UNCACHED :: nat where "W_FLAGS_UNCACHED = 1"

definition proc_create_mem_window_internal_handler ::
  "menv \<Rightarrow> nat \<Rightarrow> nat \<Rightarrow> nat \<Rightarrow> nat \<Rightarrow> nat \<Rightarrow> memserv \<Rightarrow> (memserv \<times> nat \<times> refos_error) option" where
  "proc_create_mem_window_internal_handler env pid rpc_vaddr rpc_size rpc_permissions flags s = do {
     cl \<leftarrow> client_of s pid;
     if rpc_vaddr \<ge> PROCESS_KERNEL_RESERVED \<or> PROCESS_KERNEL_RESERVED < u32 (rpc_size + rpc_vaddr)
     then Some (s, 0, EINVALIDPARAM)
     else do {
       let cached = (flags AND W_FLAGS_UNCACHED = 0);
       (s, windowID, err) \<leftarrow> vs_create_window env pid rpc_vaddr rpc_size rpc_permissions cached s;
       if err \<noteq> ESUCCESS \<or> windowID = W_INVALID_WINID then Some (s, 0, err)
       else do {
         window \<leftarrow> w_get_window s windowID;
         wa \<leftarrow> window;
         w \<leftarrow> ms_windows s wa;
         c_assert (w_capability w \<noteq> 0);
         Some (s, w_capability w, ESUCCESS)
       }
     }
   }"

definition proc_resize_mem_window_handler ::
  "menv \<Rightarrow> procserv_caps \<Rightarrow> nat \<Rightarrow> nat \<Rightarrow> nat \<Rightarrow> memserv \<Rightarrow> (memserv \<times> refos_error) option" where
  "proc_resize_mem_window_handler env m pid rpc_window rpc_size s = do {
     cl \<leftarrow> client_of s pid;
     if \<not> check_dispatch_caps m 1 1 then Some (s, EINVALIDWINDOW)
     else if \<not> dispatcher_badge_window rpc_window then Some (s, EINVALIDWINDOW)
     else vs_resize_window env pid (int (rpc_window - W_BADGE_BASE)) rpc_size s
   }"

definition proc_delete_mem_window_handler ::
  "menv \<Rightarrow> procserv_caps \<Rightarrow> nat \<Rightarrow> nat \<Rightarrow> memserv \<Rightarrow> (memserv \<times> refos_error) option" where
  "proc_delete_mem_window_handler env m pid rpc_window s = do {
     cl \<leftarrow> client_of s pid;
     if \<not> check_dispatch_caps m 1 1 then Some (s, EINVALIDWINDOW)
     else if \<not> dispatcher_badge_window rpc_window then Some (s, EINVALIDWINDOW)
     else do {
       s \<leftarrow> vs_delete_window env pid (int (rpc_window - W_BADGE_BASE)) s;
       Some (s, ESUCCESS)
     }
   }"

definition proc_get_mem_window_handler :: "nat \<Rightarrow> nat \<Rightarrow> memserv \<Rightarrow> (memserv \<times> nat) option" where
  "proc_get_mem_window_handler pid rpc_vaddr s = do {
     cl \<leftarrow> client_of s pid;
     (aws, aw) \<leftarrow> w_associate_find (cl_windows cl) rpc_vaddr;
     s \<leftarrow> set_windows pid aws s;
     (case aw of
        None \<Rightarrow> Some (s, 0)
      | Some aw \<Rightarrow> do {
          window \<leftarrow> w_get_window s (aw_winID aw);
          (case window of
             None \<Rightarrow> Some (s, 0)
           | Some wa \<Rightarrow> do {
               w \<leftarrow> ms_windows s wa;
               c_assert (w_capability w \<noteq> 0);
               Some (s, w_capability w)
             })
        })
   }"

definition proc_get_mem_window_dspace_handler ::
  "procserv_caps \<Rightarrow> nat \<Rightarrow> nat \<Rightarrow> memserv \<Rightarrow> (nat \<times> refos_error) option" where
  "proc_get_mem_window_dspace_handler m pid rpc_window s = do {
     cl \<leftarrow> client_of s pid;
     if \<not> check_dispatch_caps m 1 1 then Some (0, EINVALIDWINDOW)
     else do {
       window \<leftarrow> find_window s rpc_window;
       (case window of
          None \<Rightarrow> Some (0, EINVALIDWINDOW)
        | Some wa \<Rightarrow> do {
            w \<leftarrow> ms_windows s wa;
            if w_mode w \<noteq> W_MODE_ANONYMOUS then Some (0, ESUCCESS)
            else do {
              da \<leftarrow> w_ramDataspace w;
              d \<leftarrow> ms_dspaces s da;
              Some (ds_capability d, ESUCCESS)
            }
          })
     }
   }"

text \<open>The last result is the value stored through \<open>rpc_winID\<close>.\<close>

definition proc_register_as_pager_handler ::
  "menv \<Rightarrow> procserv_caps \<Rightarrow> nat \<Rightarrow> nat \<Rightarrow> nat \<Rightarrow> memserv \<Rightarrow> (memserv \<times> refos_error \<times> int option) option" where
  "proc_register_as_pager_handler env m pid rpc_window rpc_faultNotifyEP s = do {
     cl \<leftarrow> client_of s pid;
     if \<not> check_dispatch_caps m 1 2 then Some (s, EINVALIDPARAM, None)
     else do {
       win \<leftarrow> find_window s rpc_window;
       (case win of
          None \<Rightarrow> Some (s, EINVALIDPARAM, None)
        | Some wa \<Rightarrow> do {
            faultNotifyEP \<leftarrow> dispatcher_copyout_cptr env rpc_faultNotifyEP;
            if faultNotifyEP = 0 then Some (s, EINVALIDPARAM, None)
            else do {
              s \<leftarrow> w_set_pager_endpoint env wa faultNotifyEP pid s;
              w \<leftarrow> ms_windows s wa;
              Some (s, ESUCCESS, Some (w_wID w))
            }
          })
     }
   }"

definition proc_unregister_as_pager_handler ::
  "menv \<Rightarrow> procserv_caps \<Rightarrow> nat \<Rightarrow> nat \<Rightarrow> memserv \<Rightarrow> (memserv \<times> refos_error) option" where
  "proc_unregister_as_pager_handler env m pid rpc_window s = do {
     cl \<leftarrow> client_of s pid;
     if \<not> check_dispatch_caps m 1 1 then Some (s, EINVALIDPARAM)
     else do {
       win \<leftarrow> find_window s rpc_window;
       (case win of
          None \<Rightarrow> Some (s, EINVALIDPARAM)
        | Some wa \<Rightarrow> do {
            s \<leftarrow> w_set_pager_endpoint env wa 0 PID_NULL s;
            Some (s, ESUCCESS)
          })
     }
   }"

definition proc_notification_buffer_handler ::
  "menv \<Rightarrow> procserv_caps \<Rightarrow> nat \<Rightarrow> nat \<Rightarrow> memserv \<Rightarrow> (memserv \<times> refos_error) option" where
  "proc_notification_buffer_handler env m pid rpc_dataspace s = do {
     cl \<leftarrow> client_of s pid;
     if \<not> check_dispatch_caps m 1 1 then Some (s, EINVALIDPARAM)
     else do {
       dspace \<leftarrow> find_dspace s rpc_dataspace;
       (case dspace of
          None \<Rightarrow> Some (s, EINVALIDPARAM)
        | Some da \<Rightarrow> proc_set_notificationbuffer env pid (Some da) s)
     }
   }"

definition proc_set_parambuffer_handler ::
  "menv \<Rightarrow> procserv_caps \<Rightarrow> nat \<Rightarrow> nat \<Rightarrow> nat \<Rightarrow> memserv \<Rightarrow> (memserv \<times> refos_error) option" where
  "proc_set_parambuffer_handler env m pid rpc_dataspace rpc_size s =
     (if rpc_size = 0 \<and> rpc_dataspace = 0 then do {
        s \<leftarrow> proc_set_parambuffer env pid None s;
        Some (s, ESUCCESS)
      }
      else if \<not> check_dispatch_caps m 1 1 then Some (s, EINVALIDPARAM)
      else if \<not> dispatcher_badge_dspace rpc_dataspace then Some (s, EINVALIDPARAM)
      else do {
        dataspace \<leftarrow> ram_dspace_get_badge s rpc_dataspace;
        (case dataspace of
           None \<Rightarrow> Some (s, EINVALID)
         | Some da \<Rightarrow> do {
             s \<leftarrow> proc_set_parambuffer env pid (Some da) s;
             Some (s, ESUCCESS)
           })
      })"

definition proc_window_map_handler ::
  "menv \<Rightarrow> procserv_caps \<Rightarrow> nat \<Rightarrow> nat \<Rightarrow> nat \<Rightarrow> nat \<Rightarrow> memserv \<Rightarrow> (memserv \<times> refos_error) option" where
  "proc_window_map_handler env m pid rpc_window rpc_windowOffset rpc_srcAddr s = do {
     cl \<leftarrow> client_of s pid;
     if \<not> check_dispatch_caps m 1 1 then Some (s, EINVALIDPARAM)
     else if \<not> dispatcher_badge_window rpc_window then Some (s, EINVALIDPARAM)
     else do {
       window \<leftarrow> w_get_window s (int (rpc_window - W_BADGE_BASE));
       (case window of
          None \<Rightarrow> Some (s, EINVALIDWINDOW)
        | Some wa \<Rightarrow> do {
            (s, err, clientPCB) \<leftarrow> vs_map_across_vspace env pid rpc_srcAddr wa rpc_windowOffset s;
            if err \<noteq> ESUCCESS then Some (s, err)
            else do {
              clientPID \<leftarrow> clientPCB;
              c_assert (ms_unblockClientFaultPID s = PID_NULL);
              Some (s\<lparr>ms_unblockClientFaultPID := clientPID\<rparr>, ESUCCESS)
            }
          })
     }
   }"

definition proc_device_map_handler ::
  "menv \<Rightarrow> procserv_caps \<Rightarrow> nat \<Rightarrow> nat \<Rightarrow> nat \<Rightarrow> nat \<Rightarrow> nat \<Rightarrow> int \<Rightarrow> memserv \<Rightarrow>
   (memserv \<times> refos_error) option" where
  "proc_device_map_handler env m pid rpc_window rpc_windowOffset rpc_paddr rpc_size rpc_cached s = do {
     cl \<leftarrow> client_of s pid;
     if \<not> check_dispatch_caps m 1 1 then Some (s, EINVALIDPARAM)
     else if cl_mask cl AND PROCESS_PERMISSION_DEVICE_MAP = 0 then Some (s, EACCESSDENIED)
     else do {
       window \<leftarrow> w_get_window s (s32 (u32i (int rpc_window - int W_BADGE_BASE)));
       (case window of
          None \<Rightarrow> Some (s, EINVALIDWINDOW)
        | Some wa \<Rightarrow> do {
            w \<leftarrow> ms_windows s wa;
            clientPCB \<leftarrow> pid_get_pcb (ms_pids s) (w_clientOwnerPID w);
            (case clientPCB of
               None \<Rightarrow> Some (s, EINVALID)
             | Some _ \<Rightarrow> vs_map_device env (w_clientOwnerPID w) wa rpc_windowOffset rpc_paddr rpc_size
                 (rpc_cached \<noteq> 0) s)
          })
     }
   }"

definition proc_fault_reply :: "nat \<Rightarrow> memserv \<Rightarrow> memserv option" where
  "proc_fault_reply pid s = do {
     cl \<leftarrow> client_of s pid;
     if cl_faultReply cl = 0 then Some s
     else upd_client pid (\<lambda>c. c\<lparr>cl_faultReply := 0\<rparr>)
       (log_calls [Cap_Send (cl_faultReply cl), Cap_Delete (cl_faultReply cl)] s)
   }"

definition mem_syscall_postaction :: "memserv \<Rightarrow> memserv option" where
  "mem_syscall_postaction s =
     (if ms_unblockClientFaultPID s \<noteq> PID_NULL then do {
        clientPCB \<leftarrow> pid_get_pcb (ms_pids s) (ms_unblockClientFaultPID s);
        (case clientPCB of
           None \<Rightarrow> Some (s\<lparr>ms_unblockClientFaultPID := PID_NULL\<rparr>)
         | Some _ \<Rightarrow> do {
             s \<leftarrow> proc_fault_reply (ms_unblockClientFaultPID s) s;
             Some (s\<lparr>ms_unblockClientFaultPID := PID_NULL\<rparr>)
           })
      }
      else Some s)"

end
