(* ===== verification/Fault.thy ===== *)
theory Fault
  imports Mem_Syscall
begin

text \<open>
  Page faults (\<open>dispatchers/fault_handler.c\<close>).  A fault in a window that shows a dataspace is
  resolved by mapping the page, or delegated to the process that provides the contents; a fault in
  a window with a pager is delegated to the pager.  A delegation is a record written to the
  notification ring of the other process.  Unhandled faults only print a message and leave the
  thread blocked.
\<close>

unbundle bit_operations_syntax

section \<open>Model\<close>

definition W_PERMISSION_WRITE :: nat where "W_PERMISSION_WRITE = 1"
definition W_PERMISSION_READ :: nat where "W_PERMISSION_READ = 2"
definition PROCSERV_NOTIFICATION_MAGIC :: nat where "PROCSERV_NOTIFICATION_MAGIC = 0xB0BA11CE"
definition PROCSERV_NOTIFY_FAULT_DELEGATION :: nat where "PROCSERV_NOTIFY_FAULT_DELEGATION = 0"
definition PROCSERV_NOTIFY_CONTENT_INIT :: nat where "PROCSERV_NOTIFY_CONTENT_INIT = 1"
definition seL4_VMFault :: nat where "seL4_VMFault = 2"

text \<open>The rights of a mapping: write 1, read 2, grant 4.\<close>

definition seL4_CanWrite :: nat where "seL4_CanWrite = 1"
definition seL4_CanRead :: nat where "seL4_CanRead = 2"
definition seL4_CanGrant :: nat where "seL4_CanGrant = 4"

definition w_convert_permission_to_caprights :: "nat \<Rightarrow> nat" where
  "w_convert_permission_to_caprights permission =
     (let capr = seL4_CanGrant;
          capr = (if permission OR W_PERMISSION_WRITE \<noteq> 0 then capr OR seL4_CanWrite else capr)
      in if permission OR W_PERMISSION_READ \<noteq> 0 then capr OR seL4_CanRead else capr)"

record procserv_vmfault_msg =
  vf_pid :: nat
  vf_pc :: nat
  vf_faultAddr :: nat
  vf_instruction :: nat
  vf_fsr :: nat
  vf_read :: bool

text \<open>The nine words of a notification.\<close>

record proc_notification =
  pn_magic :: nat
  pn_label :: nat
  pn_arg :: "nat list"

definition notification_bytes :: "proc_notification \<Rightarrow> nat list" where
  "notification_bytes n = concat (map le_bytes (pn_magic n # pn_label n # pn_arg n))"

definition proc_save_caller :: "menv \<Rightarrow> nat \<Rightarrow> memserv \<Rightarrow> (memserv \<times> refos_error) option" where
  "proc_save_caller env pid s = do {
     cl \<leftarrow> client_of s pid;
     s \<leftarrow> (if cl_faultReply cl \<noteq> 0
           then upd_client pid (\<lambda>c. c\<lparr>cl_faultReply := 0\<rparr>) (log_calls [Cap_Delete (cl_faultReply cl)] s)
           else Some s);
     if en_slot env 0 = 0 then Some (s, ENOMEM)
     else do {
       s \<leftarrow> upd_client pid (\<lambda>c. c\<lparr>cl_faultReply := en_slot env 0\<rparr>) s;
       Some (s, if en_save env then ESUCCESS else EINVALID)
     }
   }"

definition fault_delegate_notification ::
  "menv \<Rightarrow> procserv_vmfault_msg \<Rightarrow> nat \<Rightarrow> nat \<Rightarrow> proc_notification \<Rightarrow> bool \<Rightarrow> memserv \<Rightarrow> memserv option" where
  "fault_delegate_notification env f delegationPID delegationEP notification saveReply s = do {
     cl \<leftarrow> client_of s delegationPID;
     (case cl_notificationBuffer cl of
        None \<Rightarrow> Some s
      | Some (da, rb) \<Rightarrow> do {
          (s, err) \<leftarrow> (if saveReply then proc_save_caller env (vf_pid f) s else Some (s, ESUCCESS));
          if err \<noteq> ESUCCESS then Some s
          else do {
            d \<leftarrow> ms_dspaces s da;
            (rb, d, fr, err) \<leftarrow> rb_write rb d (ms_frames s) (notification_bytes notification)
              (length (notification_bytes notification));
            s \<leftarrow> upd_client delegationPID (\<lambda>c. c\<lparr>cl_notificationBuffer := Some (da, rb)\<rparr>)
              (s\<lparr>ms_dspaces := (ms_dspaces s)(da \<mapsto> d), ms_frames := fr\<rparr>);
            if err \<noteq> ESUCCESS then Some s else Some (log_calls [Cap_Send delegationEP] s)
          }
        })
   }"

text \<open>
  \<open>junk\<close> is what the stack holds in the five argument words that a content request leaves
  uninitialised.
\<close>

definition handle_vm_fault_dspace ::
  "menv \<Rightarrow> nat list \<Rightarrow> procserv_vmfault_msg \<Rightarrow> w_associated_window \<Rightarrow> nat \<Rightarrow> memserv \<Rightarrow>
   (memserv \<times> refos_error) option" where
  "handle_vm_fault_dspace env junk f aw wa s = do {
     w \<leftarrow> ms_windows s wa;
     c_assert (w_mode w = W_MODE_ANONYMOUS);
     let dspaceOffset = u32i (int (vf_faultAddr f) + int (w_ramDataspaceOffset w)
           - int (REFOS_PAGE_ALIGN (aw_offset aw)));
     da \<leftarrow> w_ramDataspace w;
     d \<leftarrow> ms_dspaces s da;
     need \<leftarrow> (if ds_contentInitEnabled d then ram_dspace_need_content_init d dspaceOffset
              else Some (Inr False));
     (case need of
        Inl err \<Rightarrow> Some (s, EINVALID)
      | Inr True \<Rightarrow>
          if u32 (vf_faultAddr f + w_ramDataspaceOffset w) \<ge> u32 (aw_offset aw + aw_size aw)
          then Some (s, EINVALID)
          else do {
            c_assert (ds_contentInitPID d \<noteq> PID_NULL);
            cinitPCB \<leftarrow> pid_get_pcb (ms_pids s) (ds_contentInitPID d);
            if cinitPCB = None then Some (s, EINVALID)
            else if ds_contentInitEP d = 0 then Some (s, EINVALID)
            else do {
              (d, err) \<leftarrow> ram_dspace_add_content_init_waiter_save_current_caller (en_heap env)
                (en_malloc env 0) (en_slot env 0) (en_save env) d dspaceOffset;
              let s = s\<lparr>ms_dspaces := (ms_dspaces s)(da \<mapsto> d)\<rparr>;
              if err \<noteq> ESUCCESS then Some (s, EINVALID)
              else do {
                s \<leftarrow> fault_delegate_notification env f (ds_contentInitPID d) (ds_contentInitEP d)
                  \<lparr>pn_magic = PROCSERV_NOTIFICATION_MAGIC, pn_label = PROCSERV_NOTIFY_CONTENT_INIT,
                   pn_arg = [ds_ID d, REFOS_PAGE_ALIGN dspaceOffset] @ take 5 junk\<rparr> False s;
                Some (s, EDELEGATED)
              }
            }
          }
      | Inr False \<Rightarrow> do {
          (d, fr, frame) \<leftarrow> ram_dspace_get_page d (ms_frames s) dspaceOffset;
          let s = s\<lparr>ms_dspaces := (ms_dspaces s)(da \<mapsto> d), ms_frames := fr\<rparr>;
          if frame = 0 then Some (s, ENOMEM)
          else vs_map env (vf_pid f) (vf_faultAddr f) [frame] s
        })
   }"

definition handle_vm_fault_pager ::
  "menv \<Rightarrow> procserv_vmfault_msg \<Rightarrow> w_associated_window \<Rightarrow> nat \<Rightarrow> memserv \<Rightarrow>
   (memserv \<times> refos_error) option" where
  "handle_vm_fault_pager env f aw wa s = do {
     w \<leftarrow> ms_windows s wa;
     c_assert (w_mode w = W_MODE_PAGER);
     c_assert (w_pagerPID w \<noteq> PID_NULL);
     pagerPCB \<leftarrow> pid_get_pcb (ms_pids s) (w_pagerPID w);
     if pagerPCB = None then Some (s, EINVALID)
     else do {
       s \<leftarrow> fault_delegate_notification env f (w_pagerPID w) (w_pager w)
         \<lparr>pn_magic = PROCSERV_NOTIFICATION_MAGIC, pn_label = PROCSERV_NOTIFY_FAULT_DELEGATION,
          pn_arg = [u32i (w_wID w), w_size w, vf_faultAddr f, aw_offset aw, vf_instruction f,
            w_permissions w, vf_pc f]\<rparr> True s;
       Some (s, EDELEGATED)
     }
   }"

definition handle_vm_fault ::
  "menv \<Rightarrow> nat list \<Rightarrow> procserv_vmfault_msg \<Rightarrow> memserv \<Rightarrow> memserv option" where
  "handle_vm_fault env junk f s = do {
     cl \<leftarrow> client_of s (vf_pid f);
     if cl_faultReply cl \<noteq> 0 then Some s
     else do {
       (aws, aw) \<leftarrow> w_associate_find (cl_windows cl) (vf_faultAddr f);
       s \<leftarrow> set_windows (vf_pid f) aws s;
       (case aw of
          None \<Rightarrow> Some s
        | Some aw \<Rightarrow> do {
            window \<leftarrow> w_get_window s (aw_winID aw);
            wa \<leftarrow> window;
            w \<leftarrow> ms_windows s wa;
            if vf_read f \<and> \<not> (w_permissions w OR W_PERMISSION_READ \<noteq> 0) then Some s
            else if \<not> vf_read f \<and> \<not> (w_permissions w OR W_PERMISSION_WRITE \<noteq> 0) then Some s
            else do {
              pageEntry \<leftarrow> vs_get_frame s (vf_pid f) (vf_faultAddr f);
              if pageEntry \<noteq> 0 then Some s
              else do {
                (s, err) \<leftarrow> (case w_mode w of
                     W_MODE_EMPTY \<Rightarrow> Some (s, EINVALID)
                   | W_MODE_ANONYMOUS \<Rightarrow> handle_vm_fault_dspace env junk f aw wa s
                   | W_MODE_PAGER \<Rightarrow> handle_vm_fault_pager env f aw wa s);
                Some (if err = ESUCCESS then log_calls [Reply_Caller] s else s)
              }
            }
          })
     }
   }"

text \<open>The fault record is filled from the message registers of the kernel, the argument \<open>f\<close>.\<close>

definition dispatch_vm_fault ::
  "menv \<Rightarrow> nat list \<Rightarrow> nat \<Rightarrow> nat \<Rightarrow> procserv_vmfault_msg \<Rightarrow> memserv \<Rightarrow> (memserv \<times> dispatch) option" where
  "dispatch_vm_fault env junk label badge f s =
     (if label \<noteq> seL4_VMFault \<or> \<not> dispatcher_badge_PID badge then Some (s, DISPATCH_PASS)
      else do {
        pcb \<leftarrow> pid_get_pcb_from_badge (ms_pids s) badge;
        if pcb = None then Some (s, DISPATCH_ERROR)
        else do {
          s \<leftarrow> handle_vm_fault env junk (f\<lparr>vf_pid := badge - PID_BADGE_BASE\<rparr>) s;
          Some (s, DISPATCH_SUCCESS (badge - PID_BADGE_BASE))
        }
      })"

section \<open>Permissions\<close>

lemma permission_passes: "p OR W_PERMISSION_READ \<noteq> 0" "p OR W_PERMISSION_WRITE \<noteq> 0"
  by (simp_all add: W_PERMISSION_READ_def W_PERMISSION_WRITE_def or_eq_0_iff del: neq0_conv)

lemma permission_test:
  "(p OR W_PERMISSION_READ \<noteq> 0) = True" "(p OR W_PERMISSION_WRITE \<noteq> 0) = True"
  using permission_passes by blast+

lemma fault_msg_read:
  "vf_pid (f\<lparr>vf_read := b\<rparr>) = vf_pid f" "vf_faultAddr (f\<lparr>vf_read := b\<rparr>) = vf_faultAddr f"
  "vf_pc (f\<lparr>vf_read := b\<rparr>) = vf_pc f" "vf_instruction (f\<lparr>vf_read := b\<rparr>) = vf_instruction f"
  by simp_all


section \<open>Resolving a fault\<close>

lemma set_windows_spec:
  assumes "pid_inv (ms_pids s)" and "client_of s pid = Some c"
  shows "\<exists>p. set_windows pid aws s = Some (s\<lparr>ms_pids := p\<rparr>) \<and> pid_inv p \<and>
    client_of (s\<lparr>ms_pids := p\<rparr>) = (client_of s)(pid \<mapsto> c\<lparr>cl_windows := aws\<rparr>)"
  unfolding set_windows_def by (rule upd_client_spec [OF assms])

lemma window_of_assoc:
  assumes inv: "ms_inv s" and c: "client_of s pid = Some c" and aw: "aw \<in> set (wins (cl_windows c))"
    and w: "ms_windows s wa = Some w" "w_wID w = aw_winID aw"
  shows "w_vspace w = Some pid" "w_get_window s (aw_winID aw) = Some (Some wa)"
proof -
  have ok: "oat_ok (ms_wlist s) (ms_windows s) w_wID W_MAX_WINDOWS" using inv by (simp add: ms_inv_def)
  from get_window [OF ok w(1)] w(2) show "w_get_window s (aw_winID aw) = Some (Some wa)" by simp
  have "clients_ok {} (client_of s) (ms_windows s)" using inv by (simp add: ms_inv_def)
  with c aw obtain va v where v: "ms_windows s va = Some v" "w_wID v = aw_winID aw" "w_vspace v = Some pid"
    unfolding clients_ok_def by blast
  have "va = wa" using oat_ok_inj [OF ok v(1) w(1)] v(2) w(2) by simp
  with v w show "w_vspace w = Some pid" by simp
qed

lemma w_get_window_pids [simp]: "w_get_window (s\<lparr>ms_pids := p\<rparr>) = w_get_window s"
  "w_get_window (s\<lparr>ms_dspaces := ds\<rparr>) = w_get_window s" "w_get_window (s\<lparr>ms_frames := fr\<rparr>) = w_get_window s"
  by (simp_all add: w_get_window_def fun_eq_iff)

text \<open>Mapping one frame at a page that lies in one window and is not mapped.\<close>

lemma map_one_spec:
  assumes pi: "pid_inv (ms_pids s)" and c: "client_of s pid = Some c" and st: "sorted_inv (cl_windows c)"
    and aw: "aw \<in> set (wins (cl_windows c))" "aw_offset aw \<le> REFOS_PAGE_ALIGN a"
      "REFOS_PAGE_ALIGN a + REFOS_PAGE_SIZE \<le> aw_offset aw + aw_size aw"
    and w: "w_get_window s (aw_winID aw) = Some (Some wa)" "ms_windows s wa = Some w" "w_vspace w = Some pid"
    and free: "vspace_get_cap c a = None"
    and env: "en_malloc env 0" "en_slot env 0 \<noteq> 0" "en_map env"
  shows "\<exists>p. vs_map env pid a [frame] s =
      Some (log_calls [Cap_Copy frame (en_slot env 0)] (s\<lparr>ms_pids := p\<rparr>), ESUCCESS) \<and> pid_inv p \<and>
    client_of (s\<lparr>ms_pids := p\<rparr>) = (client_of s)(pid \<mapsto> c\<lparr>cl_windows := resort (cl_windows c),
      cl_pages := (cl_pages c)(REFOS_PAGE_ALIGN a \<mapsto> en_slot env 0)\<rparr>)"
proof -
  let ?a = "REFOS_PAGE_ALIGN a"
  have wo: "win_ok aw" using st aw(1) by (auto simp: sorted_inv_def assoc_inv_def layout_ok_def)
  then have lim: "?a + REFOS_PAGE_SIZE \<le> 2 ^ 32" "?a < 2 ^ 32" using aw(2,3) by (auto simp: win_ok_def REFOS_PAGE_SIZE_def)
  have cov: "\<forall>b. ?a \<le> b \<and> b < ?a + REFOS_PAGE_SIZE \<longrightarrow> covers aw b" using aw(2,3) by (auto simp: covers_def)
  have "0 < REFOS_PAGE_SIZE" by (simp add: REFOS_PAGE_SIZE_def)
  from find_range_spec [OF st this lim(1)] obtain r where
    r: "w_associate_find_range (cl_windows c) ?a REFOS_PAGE_SIZE = Some (resort (cl_windows c), r)"
      "\<forall>w. r = Some w \<longleftrightarrow> w \<in> set (wins (cl_windows c)) \<and> (\<forall>b. ?a \<le> b \<and> b < ?a + REFOS_PAGE_SIZE \<longrightarrow> covers w b)" by blast
  have "r = Some aw" using r(2) aw(1) cov by simp
  with r(1) have fr: "w_associate_find_range (cl_windows c) ?a REFOS_PAGE_SIZE = Some (resort (cl_windows c), Some aw)" by simp
  from set_windows_spec [OF pi c, of "resort (cl_windows c)"] obtain p where
    p: "set_windows pid (resort (cl_windows c)) s = Some (s\<lparr>ms_pids := p\<rparr>)" "pid_inv p"
      "client_of (s\<lparr>ms_pids := p\<rparr>) = (client_of s)(pid \<mapsto> c\<lparr>cl_windows := resort (cl_windows c)\<rparr>)" by blast
  let ?t = "log_calls [Cap_Copy frame (en_slot env 0)] (s\<lparr>ms_pids := p\<rparr>)"
  let ?f = "\<lambda>c. c\<lparr>cl_pages := cl_pages c ++ [?a \<mapsto> en_slot env 0]\<rparr>"
  have "pid_inv (ms_pids ?t)" "client_of ?t pid = Some (c\<lparr>cl_windows := resort (cl_windows c)\<rparr>)"
    using p by simp_all
  from upd_client_spec [OF this, of ?f] obtain q where
    q: "upd_client pid ?f ?t = Some (?t\<lparr>ms_pids := q\<rparr>)" "pid_inv q"
      "client_of (?t\<lparr>ms_pids := q\<rparr>) = (client_of ?t)(pid \<mapsto> ?f (c\<lparr>cl_windows := resort (cl_windows c)\<rparr>))" by blast
  have same: "?t\<lparr>ms_pids := q\<rparr> = log_calls [Cap_Copy frame (en_slot env 0)] (s\<lparr>ms_pids := q\<rparr>)"
    by (simp add: log_calls_def)
  have al: "REFOS_PAGE_ALIGN ?a = ?a" by (simp add: REFOS_PAGE_ALIGN_def REFOS_PAGE_SIZE_def minus_mod_eq_mult_div)
  have "vs_map env pid a [frame] s = Some (?t\<lparr>ms_pids := q\<rparr>, ESUCCESS)"
    using c fr p(1) w free env q(1) lim al by (simp add: vs_map_def vspace_get_cap_def REFOS_PAGE_SIZE_def)
  moreover have "client_of (s\<lparr>ms_pids := q\<rparr>) = (client_of s)(pid \<mapsto> c\<lparr>cl_windows := resort (cl_windows c),
      cl_pages := (cl_pages c)(?a \<mapsto> en_slot env 0)\<rparr>)"
    using q(3) p(3) unfolding same by simp
  ultimately show ?thesis using q(2) unfolding same by blast
qed


lemma fault_dspace_spec:
  assumes pi: "pid_inv (ms_pids s)" and c: "client_of s (vf_pid f) = Some c" and st: "sorted_inv (cl_windows c)"
    and aw: "aw \<in> set (wins (cl_windows c))" "aw_offset aw \<le> REFOS_PAGE_ALIGN (vf_faultAddr f)"
      "REFOS_PAGE_ALIGN (vf_faultAddr f) + REFOS_PAGE_SIZE \<le> aw_offset aw + aw_size aw"
    and w: "w_get_window s (aw_winID aw) = Some (Some wa)" "ms_windows s wa = Some w" "w_vspace w = Some (vf_pid f)"
      "w_mode w = W_MODE_ANONYMOUS" "w_ramDataspace w = Some da"
    and d: "ms_dspaces s da = Some d" "\<not> ds_contentInitEnabled d"
      "ram_dspace_get_page d (ms_frames s) (u32i (int (vf_faultAddr f) + int (w_ramDataspaceOffset w)
         - int (REFOS_PAGE_ALIGN (aw_offset aw)))) = Some (d', fr, frame)" "frame \<noteq> 0"
    and free: "vspace_get_cap c (vf_faultAddr f) = None"
    and env: "en_malloc env 0" "en_slot env 0 \<noteq> 0" "en_map env"
  shows "\<exists>p. handle_vm_fault_dspace env junk f aw wa s =
      Some (log_calls [Cap_Copy frame (en_slot env 0)]
        (s\<lparr>ms_dspaces := (ms_dspaces s)(da \<mapsto> d'), ms_frames := fr, ms_pids := p\<rparr>), ESUCCESS) \<and> pid_inv p \<and>
    client_of (s\<lparr>ms_pids := p\<rparr>) = (client_of s)(vf_pid f \<mapsto> c\<lparr>cl_windows := resort (cl_windows c),
      cl_pages := (cl_pages c)(REFOS_PAGE_ALIGN (vf_faultAddr f) \<mapsto> en_slot env 0)\<rparr>)"
proof -
  let ?t = "s\<lparr>ms_dspaces := (ms_dspaces s)(da \<mapsto> d'), ms_frames := fr\<rparr>"
  have t: "pid_inv (ms_pids ?t)" "client_of ?t (vf_pid f) = Some c" "w_get_window ?t (aw_winID aw) = Some (Some wa)"
    "ms_windows ?t wa = Some w" using pi c w by simp_all
  from map_one_spec [OF t(1,2) st aw t(3,4) w(3) free env, of frame] obtain p where
    p: "vs_map env (vf_pid f) (vf_faultAddr f) [frame] ?t =
      Some (log_calls [Cap_Copy frame (en_slot env 0)] (?t\<lparr>ms_pids := p\<rparr>), ESUCCESS)" "pid_inv p"
    "client_of (?t\<lparr>ms_pids := p\<rparr>) = (client_of ?t)(vf_pid f \<mapsto> c\<lparr>cl_windows := resort (cl_windows c),
      cl_pages := (cl_pages c)(REFOS_PAGE_ALIGN (vf_faultAddr f) \<mapsto> en_slot env 0)\<rparr>)" by blast
  have "client_of (?t\<lparr>ms_pids := p\<rparr>) = client_of (s\<lparr>ms_pids := p\<rparr>)" by (simp add: client_of_def fun_eq_iff)
  with p d w show ?thesis by (intro exI [of _ p]) (simp add: handle_vm_fault_dspace_def)
qed

lemma find_covering:
  assumes st: "sorted_inv aws" and aw: "aw \<in> set (wins aws)" and a: "covers aw a"
  shows "w_associate_find aws a = Some (resort aws, Some aw)"
proof -
  from find_spec [OF st, of a] obtain r where r: "w_associate_find aws a = Some (resort aws, r)"
    "case r of None \<Rightarrow> \<forall>w \<in> set (wins aws). \<not> covers w a | Some w \<Rightarrow> w \<in> set (wins aws) \<and> covers w a" by blast
  have "layout_ok (wins aws)" using st by (simp add: sorted_inv_def assoc_inv_def)
  with r(2) aw a have "r = Some aw" by (auto split: option.splits dest: covers_unique)
  with r(1) show ?thesis by simp
qed



end
