(* ===== verification/Process.thy ===== *)
theory Process
  imports Fault
begin

unbundle bit_operations_syntax

text \<open>
  Processes: the set-up and release of an address space (\<open>system/addrspace/vspace.c\<close>), threads
  (\<open>system/process/thread.c\<close>), the death notification of \<open>proc_client_watch.c\<close>, and the life of a
  process from loading to exit (\<open>system/process/process.c\<close>).  The address space is part of the
  control block, so a pointer to it or to the block is the process identifier.  What the ELF loader,
  the thread library and the kernel answer during one call is the record \<open>penv\<close>; the pages that the
  loader and the thread library map are arguments too.  The static parameter string is a list of
  bytes without terminator, and the name of a process, which is only printed, is left out.  The
  platform is KZM, without I/O ports.
\<close>

section \<open>Model\<close>

subsection \<open>Environment\<close>

text \<open>
  The entry point of the loaded image (0 on failure) and its pages; whether the thread library
  configures a thread, its TCB and the pages of its stack; whether minting into the new CSpace, the
  copy of the CSpace, the set-up of the address space library, the start of a thread and the change of
  a priority succeed; the replacement for a released root CNode; the endpoint of the server; and
  what the stack holds in the uninitialised words of a death notification.
\<close>

record penv =
  pe_mem :: menv
  pe_elf :: nat
  pe_elf_pages :: "nat \<rightharpoonup> nat"
  pe_thread :: bool
  pe_tcb :: nat
  pe_thread_pages :: "nat \<rightharpoonup> nat"
  pe_mint :: bool
  pe_self :: bool
  pe_vspace :: bool
  pe_start :: bool
  pe_prio :: bool
  pe_cnode :: "nat option"
  pe_endpoint :: nat
  pe_junk :: "nat list"

definition PROCESS_STATICPARAM_ADDR :: nat where "PROCESS_STATICPARAM_ADDR = 0xDFF30000"
definition PROCESS_STATICPARAM_SIZE :: nat where "PROCESS_STATICPARAM_SIZE = 0x1000"
definition REFOS_PROCSERV_EP :: nat where "REFOS_PROCSERV_EP = 3"
definition REFOS_LIVENESS :: nat where "REFOS_LIVENESS = 4"
definition REFOS_THREAD_TCB :: nat where "REFOS_THREAD_TCB = 8"
definition PROCSERV_NOTIFY_DEATH :: nat where "PROCSERV_NOTIFY_DEATH = 2"

text \<open>Zeroed memory.\<close>

definition zero_vector :: "'a cvector" where
  "zero_vector = \<lparr>cv_data = [], cv_size = 0, cv_count = 0, cv_nextResize = 0\<rparr>"

definition zero_windows :: w_associated_windowlist where
  "zero_windows = \<lparr>aw_associated = [], aw_vectorSize = 0, aw_numIndex = 0, aw_updated = False\<rparr>"

definition zero_vspace :: "client \<Rightarrow> client" where
  "zero_vspace c = c\<lparr>cl_windows := zero_windows, cl_pages := Map.empty, cl_ref := 0, cl_kpd := 0, cl_cspace := 0,
     cl_kobjs := zero_vector\<rparr>"

definition zero_client :: client where
  "zero_client = \<lparr>cl_windows = zero_windows, cl_pages = Map.empty, cl_ref = 0, cl_kpd = 0, cl_cspace = 0,
     cl_kobjs = zero_vector, cl_threads = zero_vector,
     cl_watch = \<lparr>wl_magic = 0, wl_clientList = zero_vector, wl_endpointNotifyList = zero_vector\<rparr>,
     cl_paramBuffer = None, cl_notificationBuffer = None, cl_mask = 0, cl_faultReply = 0, cl_exitStatus = 0,
     cl_parentPID = 0, cl_parentWaiting = False, cl_proc = None\<rparr>"

subsection \<open>Address spaces\<close>

text \<open>\<open>vs_track_obj\<close> remembers a kernel object that belongs to the address space.\<close>

definition vs_track_obj :: "menv \<Rightarrow> nat \<Rightarrow> nat \<Rightarrow> memserv \<Rightarrow> memserv option" where
  "vs_track_obj env pid obj s = do {
     cl \<leftarrow> client_of s pid;
     if \<not> en_malloc env 0 then Some s
     else do {
       (v, _) \<leftarrow> cvector_add (en_heap env) (cl_kobjs cl) obj;
       upd_client pid (\<lambda>c. c\<lparr>cl_kobjs := v\<rparr>) s
     }
   }"

definition vs_pd_free :: "penv \<Rightarrow> nat \<Rightarrow> memserv \<Rightarrow> memserv option" where
  "vs_pd_free env kpd s = do {
     (l, cs) \<leftarrow> pd_free (en_heap (pe_mem env)) (pe_cnode env) (ms_pdlist s) kpd;
     Some (log_calls cs (s\<lparr>ms_pdlist := l\<rparr>))
   }"

definition vs_initialise :: "penv \<Rightarrow> nat \<Rightarrow> memserv \<Rightarrow> (memserv \<times> refos_error) option" where
  "vs_initialise env pid s = do {
     aws \<leftarrow> w_associate_init (en_heap (pe_mem env)) zero_windows;
     s \<leftarrow> upd_client pid (\<lambda>c. (zero_vspace c)\<lparr>cl_ref := 1, cl_kobjs := cvector_init, cl_windows := aws\<rparr>) s;
     (l, kpd, kcnode) \<leftarrow> pd_assign (en_heap (pe_mem env)) (ms_pdlist s);
     let s = s\<lparr>ms_pdlist := l\<rparr>;
     if kpd = 0 \<or> kcnode = 0 then Some (s, ENOMEM)
     else do {
       s \<leftarrow> upd_client pid (\<lambda>c. c\<lparr>cl_kpd := kpd\<rparr>) s;
       let slot = en_slot (pe_mem env) 0;
       if slot = 0 then do {
         s \<leftarrow> vs_pd_free env kpd (log_calls [Cap_Revoke kcnode] s);
         Some (s, ENOMEM)
       }
       else do {
         s \<leftarrow> upd_client pid (\<lambda>c. c\<lparr>cl_cspace := slot\<rparr>) s;
         c_assert (pe_mint env);
         let s = log_calls [Cap_Mint kcnode slot 0] s;
         if \<not> pe_self env then do {
           s \<leftarrow> vs_pd_free env kpd (log_calls [Cap_Delete slot, Cap_Revoke kcnode] s);
           Some (s, EINVALID)
         }
         else if \<not> pe_vspace env then do {
           s \<leftarrow> vs_pd_free env kpd (log_calls [Cap_Copy slot REFOS_CSPACE, Cap_Delete slot, Cap_Revoke kcnode] s);
           Some (s, ENOMEM)
         }
         else Some (log_calls [Cap_Copy slot REFOS_CSPACE] s, ESUCCESS)
       }
     }
   }"

text \<open>
  The loops over the window list read it anew in every round: unmapping a window sorts the list.
\<close>

definition w_associate_release_associated_all_windows ::
  "menv \<Rightarrow> nat \<Rightarrow> memserv \<Rightarrow> memserv option" where
  "w_associate_release_associated_all_windows env pid s = do {
     cl \<leftarrow> client_of s pid;
     s \<leftarrow> for_each [0..<aw_numIndex (cl_windows cl)] (\<lambda>i s. do {
       cl \<leftarrow> client_of s pid;
       aw \<leftarrow> rd (aw_associated (cl_windows cl)) i;
       w_delete_window env (aw_winID aw) s
     }) s;
     cl \<leftarrow> client_of s pid;
     aws \<leftarrow> w_associate_clear (en_heap env) (cl_windows cl);
     set_windows pid aws s
   }"

definition vs_release :: "penv \<Rightarrow> nat \<Rightarrow> memserv \<Rightarrow> memserv option" where
  "vs_release env pid s = do {
     cl \<leftarrow> client_of s pid;
     c_assert (cl_ref cl = 0);
     s \<leftarrow> for_each [0..<aw_numIndex (cl_windows cl)] (\<lambda>i s. do {
       cl \<leftarrow> client_of s pid;
       aw \<leftarrow> rd (aw_associated (cl_windows cl)) i;
       vs_unmap_window pid (aw_winID aw) s
     }) s;
     s \<leftarrow> w_associate_release_associated_all_windows (pe_mem env) pid s;
     cl \<leftarrow> client_of s pid;
     s \<leftarrow> for_each [0..<cvector_count (cl_kobjs cl)] (\<lambda>i s. do {
       kobj \<leftarrow> cvector_get (cl_kobjs cl) i;
       Some (log_calls [Cap_Revoke kobj, Cap_Delete kobj, Object_Free kobj] s)
     }) s;
     s \<leftarrow> vs_pd_free env (cl_kpd cl) (log_calls ([Vspace_Teardown (cl_kpd cl)] @ free_cap (cl_cspace cl)) s);
     upd_client pid zero_vspace s
   }"

definition vs_ref :: "nat \<Rightarrow> memserv \<Rightarrow> memserv option" where
  "vs_ref pid = upd_client pid (\<lambda>c. c\<lparr>cl_ref := u32 (cl_ref c + 1)\<rparr>)"

definition vs_unref :: "penv \<Rightarrow> nat \<Rightarrow> memserv \<Rightarrow> memserv option" where
  "vs_unref env pid s = do {
     s \<leftarrow> upd_client pid (\<lambda>c. c\<lparr>cl_ref := u32i (int (cl_ref c) - 1)\<rparr>) s;
     cl \<leftarrow> client_of s pid;
     if cl_ref cl \<le> 0 then vs_release env pid s else Some s
   }"

subsection \<open>Threads\<close>

text \<open>The thread is returned; on an error the structure was cleared.\<close>

definition thread_config ::
  "penv \<Rightarrow> nat \<Rightarrow> nat \<Rightarrow> nat \<Rightarrow> memserv \<Rightarrow> (memserv \<times> proc_tcb option \<times> refos_error) option" where
  "thread_config env priority entryPoint pid s =
     (if entryPoint = 0 then Some (s, None, EINVALIDPARAM)
      else do {
        s \<leftarrow> vs_ref pid s;
        if \<not> pe_thread env then do {
          s \<leftarrow> vs_unref env pid s;
          Some (s, None, EINVALID)
        }
        else do {
          s \<leftarrow> upd_client pid (\<lambda>c. c\<lparr>cl_pages := cl_pages c ++ pe_thread_pages env\<rparr>) s;
          Some (s, Some \<lparr>pt_priority = priority, pt_entryPoint = entryPoint, pt_tcb = pe_tcb env\<rparr>, ESUCCESS)
        }
      })"

definition thread_start :: "penv \<Rightarrow> proc_tcb \<Rightarrow> memserv \<Rightarrow> (memserv \<times> refos_error) option" where
  "thread_start env thread s = do {
     c_assert (pt_entryPoint thread \<noteq> 0);
     if \<not> pe_start env then Some (s, EINVALID)
     else Some (log_calls [Thread_Start (pt_tcb thread)] s, ESUCCESS)
   }"

definition thread_release :: "penv \<Rightarrow> nat \<Rightarrow> proc_tcb \<Rightarrow> memserv \<Rightarrow> memserv option" where
  "thread_release env pid thread s =
     vs_unref env pid (log_calls [Cap_Revoke (pt_tcb thread), Thread_Cleanup (pt_tcb thread)] s)"

subsection \<open>Death notification\<close>

definition client_watch_notify_death_callback ::
  "penv \<Rightarrow> nat \<Rightarrow> nat \<Rightarrow> memserv \<Rightarrow> memserv option" where
  "client_watch_notify_death_callback env deathPID pid s =
     (if pid = deathPID then Some s
      else do {
        pcb \<leftarrow> client_of s pid;
        ep \<leftarrow> client_watch_get (cl_watch pcb) deathPID;
        if ep = 0 then Some s
        else (case cl_notificationBuffer pcb of
                None \<Rightarrow> Some s
              | Some (da, rb) \<Rightarrow> do {
                  let n = \<lparr>pn_magic = PROCSERV_NOTIFICATION_MAGIC, pn_label = PROCSERV_NOTIFY_DEATH,
                           pn_arg = deathPID # pe_junk env\<rparr>;
                  d \<leftarrow> ms_dspaces s da;
                  (rb, d, fr, err) \<leftarrow> rb_write rb d (ms_frames s) (notification_bytes n)
                    (length (notification_bytes n));
                  s \<leftarrow> upd_client pid (\<lambda>c. c\<lparr>cl_notificationBuffer := Some (da, rb)\<rparr>)
                    (s\<lparr>ms_dspaces := (ms_dspaces s)(da \<mapsto> d), ms_frames := fr\<rparr>);
                  if err \<noteq> ESUCCESS then Some s
                  else do {
                    pcb \<leftarrow> client_of s pid;
                    (wl, freed) \<leftarrow> client_unwatch (en_heap (pe_mem env)) (cl_watch pcb) deathPID;
                    s \<leftarrow> upd_client pid (\<lambda>c. c\<lparr>cl_watch := wl\<rparr>) (log_calls [Cap_Send ep] s);
                    Some (log_calls (concat (map free_cap freed)) s)
                  }
                })
      })"

subsection \<open>Processes\<close>

definition proc_get_thread :: "memserv \<Rightarrow> nat \<Rightarrow> int \<Rightarrow> proc_tcb option option" where
  "proc_get_thread s pid tindex = do {
     p \<leftarrow> client_of s pid;
     if tindex \<ge> int (cvector_count (cl_threads p)) then Some None
     else do {
       c_assert (0 \<le> tindex);
       t \<leftarrow> cvector_get (cl_threads p) (nat tindex);
       c_assert (pt_entryPoint t \<noteq> 0);
       Some (Some t)
     }
   }"

definition proc_staticparam_create_and_set ::
  "penv \<Rightarrow> nat \<Rightarrow> nat list \<Rightarrow> memserv \<Rightarrow> (memserv \<times> refos_error) option" where
  "proc_staticparam_create_and_set env pid param s = do {
     c_assert (length param \<le> PROCESS_STATICPARAM_SIZE \<and> length param \<le> REFOS_PAGE_SIZE);
     let (fr, frame) = vka_alloc_frame (ms_frames s);
     let s = s\<lparr>ms_frames := fr\<rparr>;
     if frame = 0 then Some (s, ENOMEM)
     else do {
       (fr, err) \<leftarrow> procserv_frame_write (ms_frames s) frame param (length param) 0;
       let s = s\<lparr>ms_frames := fr\<rparr>;
       if err \<noteq> ESUCCESS then Some (log_calls [Object_Free frame] s, ENOMEM)
       else do {
         (s, windowID, err) \<leftarrow> vs_create_window (pe_mem env) pid PROCESS_STATICPARAM_ADDR
           PROCESS_STATICPARAM_SIZE (W_PERMISSION_WRITE OR W_PERMISSION_READ) True s;
         if err \<noteq> ESUCCESS then Some (log_calls [Object_Free frame] s, err)
         else do {
           (s, err) \<leftarrow> vs_map (pe_mem env) pid PROCESS_STATICPARAM_ADDR [frame] s;
           if err \<noteq> ESUCCESS then do {
             s \<leftarrow> (if windowID \<noteq> W_INVALID_WINID then vs_delete_window (pe_mem env) pid windowID s
                   else Some s);
             Some (log_calls [Object_Free frame] s, err)
           }
           else Some (s, ESUCCESS)
         }
       }
     }
   }"

definition proc_pass_badge :: "penv \<Rightarrow> nat \<Rightarrow> nat \<Rightarrow> nat \<Rightarrow> memserv \<Rightarrow> memserv option" where
  "proc_pass_badge env destCSlot ep badge s = do {
     c_assert (pe_mint env);
     Some (log_calls [Cap_Mint ep destCSlot badge] s)
   }"

definition proc_setup_environment :: "penv \<Rightarrow> nat \<Rightarrow> nat list \<Rightarrow> memserv \<Rightarrow> memserv option" where
  "proc_setup_environment env pid param s = do {
     (s, _) \<leftarrow> proc_staticparam_create_and_set env pid param s;
     badge \<leftarrow> pid_get_badge pid;
     s \<leftarrow> proc_pass_badge env REFOS_PROCSERV_EP (pe_endpoint env) badge s;
     liveness \<leftarrow> pid_get_liveness_badge pid;
     s \<leftarrow> proc_pass_badge env REFOS_LIVENESS (pe_endpoint env) liveness s;
     t \<leftarrow> proc_get_thread s pid 0;
     t0 \<leftarrow> t;
     proc_pass_badge env REFOS_THREAD_TCB (pt_tcb t0) 0 s
   }"

definition proc_purge_pid_callback :: "nat \<Rightarrow> nat \<Rightarrow> memserv \<Rightarrow> memserv option" where
  "proc_purge_pid_callback deathPID pid s =
     (if pid = deathPID then Some s
      else do {
        pcb \<leftarrow> client_of s pid;
        if cl_parentPID pcb = deathPID
        then upd_client pid (\<lambda>c. c\<lparr>cl_parentPID := PID_NULL, cl_parentWaiting := False\<rparr>) s
        else Some s
      })"

text \<open>An image without a name (\<open>None\<close>) is refused; the pages of the image replace those of the new address space.\<close>

definition proc_config_new ::
  "penv \<Rightarrow> nat \<Rightarrow> nat \<Rightarrow> string option \<Rightarrow> nat \<Rightarrow> memserv \<Rightarrow> (memserv \<times> refos_error) option" where
  "proc_config_new env pid priority imageName systemCapabilitiesMask s =
     (if imageName = None then Some (s, EINVALIDPARAM)
      else do {
        s \<leftarrow> upd_client pid (\<lambda>_. zero_client\<lparr>cl_mask := systemCapabilitiesMask\<rparr>) s;
        (s, err) \<leftarrow> vs_initialise env pid s;
        if err \<noteq> ESUCCESS then do {
          s \<leftarrow> upd_client pid (\<lambda>_. zero_client) s;
          Some (s, err)
        }
        else do {
          s \<leftarrow> upd_client pid (\<lambda>c. c\<lparr>cl_threads := cvector_init\<rparr>) s;
          (s, err) \<leftarrow>
            (if \<not> en_malloc (pe_mem env) 0 then Some (s, ENOMEM)
             else if pe_elf env = 0 then Some (s, EINVALIDPARAM)
             else do {
               s \<leftarrow> upd_client pid (\<lambda>c. c\<lparr>cl_pages := cl_pages c ++ pe_elf_pages env\<rparr>) s;
               (s, thread, err) \<leftarrow> thread_config env (u8 priority) (pe_elf env) pid s;
               (case thread of
                  None \<Rightarrow> Some (s, err)
                | Some t \<Rightarrow> do {
                    cl \<leftarrow> client_of s pid;
                    (v, _) \<leftarrow> cvector_add (en_heap (pe_mem env)) (cl_threads cl) t;
                    c_assert (cvector_count v = 1);
                    s \<leftarrow> upd_client pid (\<lambda>c. c\<lparr>cl_threads := v, cl_watch := client_watch_init\<rparr>) s;
                    Some (s, ESUCCESS)
                  })
             });
          if err \<noteq> ESUCCESS then do {
            s \<leftarrow> vs_unref env pid s;
            s \<leftarrow> upd_client pid (\<lambda>_. zero_client) s;
            Some (s, err)
          }
          else Some (s, ESUCCESS)
        }
      })"

definition proc_start_thread :: "penv \<Rightarrow> nat \<Rightarrow> nat \<Rightarrow> memserv \<Rightarrow> (memserv \<times> refos_error) option" where
  "proc_start_thread env pid tindex s = do {
     p \<leftarrow> client_of s pid;
     c_assert (cvector_count (cl_threads p) \<ge> 1);
     t \<leftarrow> cvector_get (cl_threads p) tindex;
     thread_start env t s
   }"

definition proc_load_direct ::
  "penv \<Rightarrow> string option \<Rightarrow> nat \<Rightarrow> nat list \<Rightarrow> nat \<Rightarrow> nat \<Rightarrow> memserv \<Rightarrow> (memserv \<times> refos_error) option" where
  "proc_load_direct env name priority param parentPID systemCapabilitiesMask s = do {
     (l, npid) \<leftarrow> pid_alloc (en_heap (pe_mem env)) (en_malloc (pe_mem env) 1) zero_client (ms_pids s);
     let s = s\<lparr>ms_pids := l\<rparr>;
     if npid = PID_NULL then Some (s, ENOMEM)
     else do {
       pcb \<leftarrow> client_of s npid;
       (s, err) \<leftarrow> proc_config_new env npid priority name systemCapabilitiesMask s;
       if err \<noteq> ESUCCESS then do {
         l \<leftarrow> pid_free (en_heap (pe_mem env)) (ms_pids s) npid;
         Some (s\<lparr>ms_pids := l\<rparr>, err)
       }
       else do {
         s \<leftarrow> upd_client npid (\<lambda>c. c\<lparr>cl_parentPID := parentPID\<rparr>) s;
         s \<leftarrow> proc_setup_environment env npid param s;
         (s, err) \<leftarrow> proc_start_thread env npid 0 s;
         if err \<noteq> ESUCCESS then do {
           l \<leftarrow> pid_free (en_heap (pe_mem env)) (ms_pids s) npid;
           Some (s\<lparr>ms_pids := l\<rparr>, err)
         }
         else Some (s, ESUCCESS)
       }
     }
   }"

text \<open>A negative index reads outside the vector.\<close>

definition proc_nice :: "penv \<Rightarrow> nat \<Rightarrow> int \<Rightarrow> nat \<Rightarrow> memserv \<Rightarrow> (memserv \<times> refos_error) option" where
  "proc_nice env pid tindex priority s = do {
     p \<leftarrow> client_of s pid;
     c_assert (cvector_count (cl_threads p) \<ge> 1);
     c_assert (0 \<le> tindex);
     t \<leftarrow> cvector_get (cl_threads p) (nat tindex);
     c_assert (pt_tcb t \<noteq> 0);
     if \<not> pe_prio env then Some (s, EINVALID)
     else do {
       v \<leftarrow> cvector_set (cl_threads p) (nat tindex) (t\<lparr>pt_priority := u8 priority\<rparr>);
       s \<leftarrow> upd_client pid (\<lambda>c. c\<lparr>cl_threads := v\<rparr>) (log_calls [Thread_Priority (pt_tcb t) priority] s);
       Some (s, ESUCCESS)
     }
   }"

definition proc_parent_reply :: "nat \<Rightarrow> memserv \<Rightarrow> memserv option" where
  "proc_parent_reply pid s = do {
     p \<leftarrow> client_of s pid;
     c_assert (cl_parentPID p \<noteq> PID_NULL);
     parent \<leftarrow> pid_get_pcb (ms_pids s) (cl_parentPID p);
     (case parent of
        None \<Rightarrow> Some s
      | Some parentPCB \<Rightarrow>
          if \<not> cl_parentWaiting parentPCB then Some s
          else if cl_faultReply parentPCB = 0 then Some s
          else upd_client (cl_parentPID p) (\<lambda>c. c\<lparr>cl_faultReply := 0\<rparr>)
            (log_calls [Reply_Status (cl_faultReply parentPCB) (cl_exitStatus p), Cap_Delete (cl_faultReply parentPCB)] s))
   }"

definition proc_release :: "penv \<Rightarrow> nat \<Rightarrow> memserv \<Rightarrow> memserv option" where
  "proc_release env pid s = do {
     p \<leftarrow> client_of s pid;
     s \<leftarrow> pid_iterate ms_pids (client_watch_notify_death_callback env pid) s;
     s \<leftarrow> pid_iterate ms_pids (proc_purge_pid_callback pid) s;
     p \<leftarrow> client_of s pid;
     s \<leftarrow> (if cl_parentPID p \<noteq> PID_NULL then proc_parent_reply pid s else Some s);
     p \<leftarrow> client_of s pid;
     s \<leftarrow> (case cl_paramBuffer p of
             None \<Rightarrow> Some s
           | Some da \<Rightarrow> do {
               d \<leftarrow> ms_dspaces s da;
               s \<leftarrow> ram_dspace_unref (pe_mem env) (int (ds_ID d)) s;
               upd_client pid (\<lambda>c. c\<lparr>cl_paramBuffer := None\<rparr>) s
             });
     p \<leftarrow> client_of s pid;
     s \<leftarrow> (case cl_notificationBuffer p of
             None \<Rightarrow> Some s
           | Some rb \<Rightarrow> do {
               s \<leftarrow> rb_delete (pe_mem env) rb s;
               upd_client pid (\<lambda>c. c\<lparr>cl_notificationBuffer := None\<rparr>) s
             });
     p \<leftarrow> client_of s pid;
     s \<leftarrow> (if cl_faultReply p \<noteq> 0
           then upd_client pid (\<lambda>c. c\<lparr>cl_faultReply := 0\<rparr>) (log_calls [Cap_Delete (cl_faultReply p)] s)
           else Some s);
     s \<leftarrow> vs_unref env pid s;
     p \<leftarrow> client_of s pid;
     s \<leftarrow> for_each [0..<cvector_count (cl_threads p)] (\<lambda>i s. do {
       p \<leftarrow> client_of s pid;
       thread \<leftarrow> cvector_get (cl_threads p) i;
       thread_release env pid thread s
     }) s;
     upd_client pid (\<lambda>c. c\<lparr>cl_threads := cvector_free (cl_threads c), cl_mask := 0\<rparr>) s
   }"

definition proc_queue_release :: "nat \<Rightarrow> memserv \<Rightarrow> memserv option" where
  "proc_queue_release pid s = do {
     p \<leftarrow> client_of s pid;
     c_assert (ms_exitProcessPID s = PID_NULL);
     Some (s\<lparr>ms_exitProcessPID := pid\<rparr>)
   }"

definition proc_syscall_postaction :: "penv \<Rightarrow> memserv \<Rightarrow> memserv option" where
  "proc_syscall_postaction env s =
     (if ms_exitProcessPID s \<noteq> PID_NULL then do {
        pcb \<leftarrow> pid_get_pcb (ms_pids s) (ms_exitProcessPID s);
        (case pcb of
           None \<Rightarrow> Some (s\<lparr>ms_exitProcessPID := PID_NULL\<rparr>)
         | Some _ \<Rightarrow> do {
             let pid = ms_exitProcessPID s;
             s \<leftarrow> proc_release env pid s;
             l \<leftarrow> pid_free (en_heap (pe_mem env)) (ms_pids s) pid;
             Some (s\<lparr>ms_pids := l, ms_exitProcessPID := PID_NULL\<rparr>)
           })
      }
      else Some s)"

text \<open>
  The thread created last is at the end of the vector.  After a success the code also creates a
  thread of the current partition, \<open>pok_partition_thread_create\<close>, and ignores the result.
\<close>

definition proc_clone ::
  "penv \<Rightarrow> nat \<Rightarrow> nat \<Rightarrow> nat \<Rightarrow> memserv \<Rightarrow> (memserv \<times> int \<times> refos_error) option" where
  "proc_clone env pid stackAddr entryPoint s =
     (if stackAddr = 0 \<or> entryPoint = 0 then Some (s, -1, EINVALIDPARAM)
      else do {
        t \<leftarrow> proc_get_thread s pid 0;
        (case t of
           None \<Rightarrow> Some (s, -1, EINVALID)
         | Some t \<Rightarrow>
             if \<not> en_malloc (pe_mem env) 0 then Some (s, -1, ENOMEM)
             else do {
               (s, thread, err) \<leftarrow> thread_config env (pt_priority t) entryPoint pid s;
               (case thread of
                  None \<Rightarrow> do { c_assert (err \<noteq> ESUCCESS); Some (s, -1, err) }
                | Some thread \<Rightarrow> do {
                    p \<leftarrow> client_of s pid;
                    let tID = cvector_count (cl_threads p);
                    (v, _) \<leftarrow> cvector_add (en_heap (pe_mem env)) (cl_threads p) thread;
                    s \<leftarrow> upd_client pid (\<lambda>c. c\<lparr>cl_threads := v\<rparr>) s;
                    (s, err) \<leftarrow> proc_start_thread env pid tID s;
                    if err \<noteq> ESUCCESS then do {
                      v \<leftarrow> cvector_delete (en_heap (pe_mem env)) v tID;
                      s \<leftarrow> upd_client pid (\<lambda>c. c\<lparr>cl_threads := v\<rparr>) s;
                      s \<leftarrow> thread_release env pid thread s;
                      Some (s, int tID, err)
                    }
                    else Some (s, int tID, ESUCCESS)
                  })
             })
      })"

end
