(* ===== verification/Process_Exit.thy ===== *)
theory Process_Exit
  imports Process
begin

text \<open>
  The exit of a process, \<open>proc_release\<close> of \<open>system/process/process.c\<close> with the operations it calls:
  the deletion of a window (\<open>delete_window_spec\<close>), the release of the address space (\<open>vs_release_spec\<close>),
  the references of the process and of its threads to it (\<open>vs_unref_spec\<close>), the messages to the
  processes that watch it and the orphaning of its children (\<open>stays\<close>), and the action after a system
  call that puts them together (\<open>process_exit\<close>).
\<close>

section \<open>Deleting a window\<close>

text \<open>\<open>t\<close> has lost the windows with the identifiers in \<open>I\<close> and is otherwise like \<open>s\<close>.\<close>

definition dropped :: "nat set \<Rightarrow> int set \<Rightarrow> memserv \<Rightarrow> memserv \<Rightarrow> bool" where
  "dropped X I s t \<longleftrightarrow> ms_inv_but X t \<and>
     (\<forall>wa. ms_windows t wa = (case ms_windows s wa of None \<Rightarrow> None | Some w \<Rightarrow> if w_wID w \<in> I then None else Some w)) \<and>
     (\<forall>pid. like_client (client_of s pid) (client_of t pid)) \<and>
     (\<forall>x. map_option (ds_ref_update (\<lambda>_. 0)) (ms_dspaces t x) = map_option (ds_ref_update (\<lambda>_. 0)) (ms_dspaces s x)) \<and>
     ms_dslist t = ms_dslist s \<and> same_rest s t"

lemma dropped_refl: "ms_inv_but X s \<Longrightarrow> dropped X {} s s"
  by (simp add: dropped_def like_client_refl same_rest_refl split: option.splits)

lemma dropped_trans:
  assumes "dropped X I s t" and "dropped X J t u"
  shows "dropped X (I \<union> J) s u"
proof -
  have "like_client (client_of s pid) (client_of u pid)" for pid
    using assms like_client_trans unfolding dropped_def by metis
  moreover have "ms_windows u wa = (case ms_windows s wa of None \<Rightarrow> None
      | Some w \<Rightarrow> if w_wID w \<in> I \<union> J then None else Some w)" for wa
    using assms unfolding dropped_def by (cases "ms_windows s wa") auto
  moreover have "same_rest s u" using assms same_rest_trans unfolding dropped_def by blast
  ultimately show ?thesis using assms unfolding dropped_def by simp
qed

lemma dec_ref_same:
  "map_option (ds_ref_update (\<lambda>_. 0)) (dec_ref ds p x) = map_option (ds_ref_update (\<lambda>_. 0)) (ds x)"
  by (rule dec_ref_IDs)

lemma window_unique:
  assumes "ms_inv_but X s" and "ms_windows s a = Some v" "ms_windows s b = Some w" "w_wID v = w_wID w"
  shows "a = b"
  using assms oat_ok_inj [of "ms_wlist s" "ms_windows s" w_wID W_MAX_WINDOWS a v b w] by (simp add: ms_inv_def)

lemma clients_ok_remove:
  assumes ok: "clients_ok X cs ws" and w: "ws wa = Some w"
    and uniq: "\<And>b v. ws b = Some v \<Longrightarrow> w_wID v = w_wID w \<Longrightarrow> b = wa"
    and X: "\<And>pid c aw. cs pid = Some c \<Longrightarrow> aw \<in> set (wins (cl_windows c)) \<Longrightarrow> aw_winID aw = w_wID w \<Longrightarrow> pid \<in> X"
  shows "clients_ok X cs (ws(wa := None))"
  unfolding clients_ok_def
proof (intro allI impI conjI ballI)
  fix pid c assume c: "cs pid = Some c"
  then show "assoc_inv (cl_windows c)" using ok by (simp add: clients_ok_def)
  fix aw assume aw: "aw \<in> set (wins (cl_windows c))"
  with ok c have "(\<exists>va v. ws va = Some v \<and> w_wID v = aw_winID aw \<and> w_vspace v = Some pid) \<or>
      pid \<in> X \<and> (\<forall>va v. ws va = Some v \<longrightarrow> w_wID v \<noteq> aw_winID aw)"
    unfolding clients_ok_def by blast
  then show "(\<exists>va v. (ws(wa := None)) va = Some v \<and> w_wID v = aw_winID aw \<and> w_vspace v = Some pid) \<or>
      pid \<in> X \<and> (\<forall>va v. (ws(wa := None)) va = Some v \<longrightarrow> w_wID v \<noteq> aw_winID aw)"
  proof (elim disjE exE conjE)
    fix va v assume v: "ws va = Some v" "w_wID v = aw_winID aw" "w_vspace v = Some pid"
    show ?thesis
    proof (cases "va = wa")
      case False
      with v show ?thesis by auto
    next
      case True
      with v w have id: "aw_winID aw = w_wID w" by simp
      then have "pid \<in> X" using X [OF c aw] by simp
      moreover have "\<forall>va v. (ws(wa := None)) va = Some v \<longrightarrow> w_wID v \<noteq> aw_winID aw"
        using uniq id by auto
      ultimately show ?thesis by blast
    qed
  next
    assume "pid \<in> X" "\<forall>va v. ws va = Some v \<longrightarrow> w_wID v \<noteq> aw_winID aw"
    then show ?thesis by auto
  qed
qed

lemma holds_remove: "holds (s\<lparr>ms_windows := (ms_windows s)(wa := None)\<rparr>) = (holds s)(Win wa := None)"
  by (rule ext, case_tac x) auto

lemma delete_window_spec:
  assumes inv: "ms_inv_but X s" and w: "ms_windows s wa = Some w" and heap: "en_heap env = heap_ok"
    and vs: "w_vspace w \<noteq> None"
    and X: "\<And>pid c aw. client_of s pid = Some c \<Longrightarrow> aw \<in> set (wins (cl_windows c)) \<Longrightarrow> aw_winID aw = w_wID w \<Longrightarrow> pid \<in> X"
  shows "\<exists>t. w_delete_window env (w_wID w) s = Some t \<and> dropped X {w_wID w} s t \<and> holds t = (holds s)(Win wa := None)"
proof -
  have u2: "ram_dspace_unref env = unref_at (Suc 1) env" by (simp add: ram_dspace_unref_def numeral_2_eq_2)
  from switch_spec [OF inv w, of 1 env W_MODE_EMPTY] obtain a v where
    a: "window_switch_mode (ram_dspace_unref env) wa W_MODE_EMPTY s = Some a" "ms_inv_but X a"
      "holds a = (holds s)(Win wa := None)" "ms_windows a = (ms_windows s)(wa \<mapsto> v)" "w_wID v = w_wID w"
      "w_vspace v = w_vspace w" "ms_dspaces a = dec_ref (ms_dspaces s) (w_ramDataspace w)" "ms_dslist a = ms_dslist s"
      "ms_wlist a = ms_wlist s" "\<And>pid. like_client (client_of s pid) (client_of a pid)" "w_ramDataspace v = None" "same_rest s a"
    unfolding u2 by blast
  define cs where "cs = (if w_capability v \<noteq> 0 then free_cap (w_capability v) else [])"
  define b where "b = log_calls cs (a\<lparr>ms_windows := (ms_windows a)(wa := None)\<rparr>)"
  have ws: "(ms_windows a)(wa := None) = (ms_windows s)(wa := None)" by (simp add: a(4))
  have del: "window_oat_delete env wa s = Some b"
    using a(1,4,6) vs by (simp add: window_oat_delete_def b_def cs_def)
  have ok: "oat_ok (ms_wlist s) (ms_windows s) w_wID W_MAX_WINDOWS" using inv by (simp add: ms_inv_def)
  from oat_free [where d = "window_oat_delete env" and c = "window_oat_create env", OF ok w del] obtain t where
    t: "coat_free heap_ok (oat_of (window_oat_create env) (window_oat_delete env) (ms_wlist s)) (w_wID w) s = Some (t, b, 0)"
      "oat_ok (store_of t) ((ms_windows s)(wa := None)) w_wID W_MAX_WINDOWS" by blast
  let ?t = "b\<lparr>ms_wlist := store_of t\<rparr>"
  have run: "w_delete_window env (w_wID w) s = Some ?t" using t(1) heap by (simp add: w_delete_window_def)
  have hs: "holds ?t = (holds s)(Win wa := None)"
    using holds_remove [of a wa] a(3) by (simp add: b_def)
  have uniq: "c = wa" if "ms_windows a c = Some x" "w_wID x = w_wID v" for c x
    using window_unique [OF a(2) that(1), of wa v] that(2) a(4) by simp
  have X': "pid \<in> X" if "client_of a pid = Some c'" "aw \<in> set (wins (cl_windows c'))" "aw_winID aw = w_wID v" for pid c' aw
  proof -
    from like_client_None [OF a(10) [of pid]] that(1) obtain c where c: "client_of s pid = Some c" by auto
    have ai: "assoc_inv (cl_windows c)" using inv c by (simp add: ms_inv_def clients_ok_def)
    have "aw \<in> set (wins (cl_windows c))"
      using that(2) unfolding like_client_windows(2) [OF a(10) [of pid, unfolded c that(1)] ai] .
    from X [OF c this] that(3) a(5) show ?thesis by argo
  qed
  have co: "clients_ok X (client_of a) ((ms_windows a)(wa := None))"
  proof (rule clients_ok_remove [of X "client_of a" "ms_windows a" wa v])
    show "clients_ok X (client_of a) (ms_windows a)" using a(2) by (simp add: ms_inv_def)
    show "ms_windows a wa = Some v" by (simp add: a(4))
  qed (fact uniq X')+
  have f: "ms_dslist ?t = ms_dslist a" "ms_dspaces ?t = ms_dspaces a" "ms_wlist ?t = store_of t"
    "ms_windows ?t = (ms_windows s)(wa := None)" "ms_pids ?t = ms_pids a" "client_of ?t = client_of a"
    by (simp_all add: b_def ws)
  have "ms_inv_but X ?t"
    unfolding ms_inv_def f
  proof (intro conjI)
    show "clients_ok X (client_of a) ((ms_windows s)(wa := None))" using co unfolding ws .
    show "ref_ok (holds ?t) (ms_dspaces a)" using a(2) unfolding hs ms_inv_def a(3) by blast
  qed (use a(2) t(2) in \<open>simp_all add: ms_inv_def\<close>)
  moreover have "ms_windows ?t x = (case ms_windows s x of None \<Rightarrow> None | Some y \<Rightarrow> if w_wID y \<in> {w_wID w} then None else Some y)" for x
  proof (cases "x = wa")
    case True
    with w show ?thesis unfolding f by simp
  next
    case False
    then have "w_wID y \<noteq> w_wID w" if "ms_windows s x = Some y" for y
      using window_unique [OF inv that w] by blast
    with False show ?thesis unfolding f by (simp split: option.split)
  qed
  moreover have "like_client (client_of s pid) (client_of ?t pid)" for pid unfolding f by (rule a(10))
  moreover have "same_rest a ?t" by (simp add: same_rest_def b_def log_calls_def)
  then have "same_rest s ?t" by (rule same_rest_trans [OF a(12)])
  moreover have "map_option (ds_ref_update (\<lambda>_. 0)) (ms_dspaces ?t x) = map_option (ds_ref_update (\<lambda>_. 0)) (ms_dspaces s x)" for x
    unfolding f a(7) by (rule dec_ref_same)
  moreover have "ms_dslist ?t = ms_dslist s" unfolding f by (rule a(8))
  ultimately have "dropped X {w_wID w} s ?t" unfolding dropped_def by blast
  with run hs show ?thesis by blast
qed

section \<open>Releasing an address space\<close>

lemma for_each_upto:
  assumes "P 0 s" and "\<And>i t. i < n \<Longrightarrow> P i t \<Longrightarrow> \<exists>u. body i t = Some u \<and> P (Suc i) u"
  shows "\<exists>u. for_each [0..<n] body s = Some u \<and> P n u"
  using assms
proof (induction n)
  case 0
  then show ?case by simp
next
  case (Suc n)
  then obtain t where t: "for_each [0..<n] body s = Some t" "P n t" by auto
  with Suc.prems(2) [of n t] show ?case by (auto simp: for_each_append)
qed

lemma ms_inv_weaken: "ms_inv_but {} s \<Longrightarrow> ms_inv_but X s"
  unfolding ms_inv_def clients_ok_def by blast

lemma clients_ok_D:
  assumes "ms_inv_but X s" and "client_of s pid = Some c"
  shows "assoc_inv (cl_windows c)"
    "aw \<in> set (wins (cl_windows c)) \<Longrightarrow>
       (\<exists>wa w. ms_windows s wa = Some w \<and> w_wID w = aw_winID aw \<and> w_vspace w = Some pid) \<or>
       pid \<in> X \<and> (\<forall>wa w. ms_windows s wa = Some w \<longrightarrow> w_wID w \<noteq> aw_winID aw)"
  using assms unfolding ms_inv_def clients_ok_def by blast+

lemma like_client_stable:
  assumes "like_client (Some c) b" and "resort (cl_windows c) = cl_windows c"
  obtains c' where "b = Some c'" "cl_windows c' = cl_windows c"
proof (cases b)
  case None
  with assms(1) show thesis by (simp add: like_client_def)
next
  case (Some c')
  with conjunct2 [OF assms(1) [unfolded Some like_client_Some]] assms(2) show thesis by (metis that)
qed

lemma assoc_nth:
  assumes "assoc_inv R" and "i < aw_numIndex R"
  shows "rd (aw_associated R) i = Some (wins R ! i)" "wins R ! i \<in> set (wins R)" "length (wins R) = aw_numIndex R"
proof -
  show "length (wins R) = aw_numIndex R" using assms by (simp add: assoc_inv_def wins_def)
  then show "wins R ! i \<in> set (wins R)" using assms(2) by simp
  show "rd (aw_associated R) i = Some (wins R ! i)" using assms by (simp add: assoc_inv_def wins_def rd_def)
qed

lemma distinct_map_take_fresh:
  assumes "distinct (map f xs)" and "i < length xs"
  shows "f (xs ! i) \<notin> f ` set (take i xs)"
proof
  assume "f (xs ! i) \<in> f ` set (take i xs)"
  then obtain j where "j < i" "j < length xs" "f (xs ! i) = f (xs ! j)" using assms(2) by (auto simp: in_set_conv_nth)
  with nth_eq_iff_index_eq [OF assms(1), of i j] assms(2) show False by simp
qed

lemma release_windows_loop:
  assumes inv: "ms_inv s" and c: "client_of s pid = Some c"
    and st: "aw_numIndex (cl_windows c) = 0 \<or> resort (cl_windows c) = cl_windows c"
    and heap: "en_heap env = heap_ok"
  shows "\<exists>t. for_each [0..<aw_numIndex (cl_windows c)] (\<lambda>i s. do {
       cl \<leftarrow> client_of s pid;
       aw \<leftarrow> rd (aw_associated (cl_windows cl)) i;
       w_delete_window env (aw_winID aw) s
     }) s = Some t \<and> dropped {pid} (aw_winID ` set (wins (cl_windows c))) s t"
proof -
  define R where "R = cl_windows c"
  have ai: "assoc_inv R" using clients_ok_D(1) [OF inv c] by (simp add: R_def)
  then have dist: "distinct (map aw_winID (wins R))" by (simp add: assoc_inv_def)
  define P where "P = (\<lambda>k t. dropped {pid} (aw_winID ` set (take k (wins R))) s t)"
  have "\<exists>t. for_each [0..<aw_numIndex R] (\<lambda>i s. do {
       cl \<leftarrow> client_of s pid;
       aw \<leftarrow> rd (aw_associated (cl_windows cl)) i;
       w_delete_window env (aw_winID aw) s
     }) s = Some t \<and> P (aw_numIndex R) t"
  proof (rule for_each_upto)
    show "P 0 s" unfolding P_def using dropped_refl [OF ms_inv_weaken [OF inv]] by simp
    fix i t assume i: "i < aw_numIndex R" and P: "P i t"
    let ?aw = "wins R ! i" and ?I = "aw_winID ` set (take i (wins R))"
    note nth = assoc_nth [OF ai i]
    have d: "dropped {pid} ?I s t" using P by (simp add: P_def)
    then have it: "ms_inv_but {pid} t" and like: "like_client (Some c) (client_of t pid)"
      using c unfolding dropped_def by (blast, metis)
    have "resort (cl_windows c) = cl_windows c" using st i by (simp add: R_def)
    from like_client_stable [OF like this] obtain c' where c': "client_of t pid = Some c'" "cl_windows c' = R"
      unfolding R_def .
    from clients_ok_D(2) [OF inv c] nth(2) obtain wa w where
      w: "ms_windows s wa = Some w" "w_wID w = aw_winID ?aw" "w_vspace w = Some pid" unfolding R_def by blast
    have "aw_winID ?aw \<notin> ?I"
      using distinct_map_take_fresh [OF dist, of i] i nth(3) by simp
    with d w have wt: "ms_windows t wa = Some w" unfolding dropped_def by simp
    have X: "q \<in> {pid}" if "client_of t q = Some e" "aw \<in> set (wins (cl_windows e))" "aw_winID aw = w_wID w" for q e aw
    proof -
      from clients_ok_D(2) [OF it that(1,2)] show ?thesis
      proof (elim disjE exE conjE)
        fix va v assume v: "ms_windows t va = Some v" "w_wID v = aw_winID aw" "w_vspace v = Some q"
        have "va = wa" by (rule window_unique [OF it v(1) wt]) (simp add: v(2) that(3))
        with v wt w(3) show ?thesis by simp
      qed
    qed
    have vs: "w_vspace w \<noteq> None" using w(3) by simp
    have "\<exists>u. w_delete_window env (w_wID w) t = Some u \<and> dropped {pid} {w_wID w} t u \<and> holds u = (holds t)(Win wa := None)"
      by (rule delete_window_spec [OF it wt heap vs]) (rule X)
    then obtain u where
      u: "w_delete_window env (w_wID w) t = Some u" "dropped {pid} {w_wID w} t u" by blast
    have "?I \<union> {w_wID w} = aw_winID ` set (take (Suc i) (wins R))"
      using i nth(3) w(2) by (simp add: take_Suc_conv_app_nth)
    with dropped_trans [OF d u(2)] have "P (Suc i) u" unfolding P_def by argo
    with u(1) c' nth(1) w(2) show "\<exists>u. do {
       cl \<leftarrow> client_of t pid;
       aw \<leftarrow> rd (aw_associated (cl_windows cl)) i;
       w_delete_window env (aw_winID aw) t
     } = Some u \<and> P (Suc i) u" by simp
  qed
  moreover have "take (aw_numIndex R) (wins R) = wins R" by (simp add: wins_def)
  ultimately show ?thesis unfolding P_def R_def by simp
qed

lemma unmap_all_loop:
  assumes inv: "ms_inv s" and c: "client_of s pid = Some c"
  shows "\<exists>t c'. for_each [0..<aw_numIndex (cl_windows c)] (\<lambda>i s. do {
       cl \<leftarrow> client_of s pid;
       aw \<leftarrow> rd (aw_associated (cl_windows cl)) i;
       vs_unmap_window pid (aw_winID aw) s
     }) s = Some t \<and> unmapped s t \<and> client_of t pid = Some c' \<and>
     (aw_numIndex (cl_windows c) = 0 \<or> cl_windows c' = resort (cl_windows c))"
proof -
  have ai: "assoc_inv (cl_windows c)" by (rule clients_ok_D(1) [OF inv c])
  define P where "P = (\<lambda>(k::nat) t. unmapped s t \<and> (\<exists>c'. client_of t pid = Some c' \<and>
    (k = 0 \<or> cl_windows c' = resort (cl_windows c))))"
  have "\<exists>t. for_each [0..<aw_numIndex (cl_windows c)] (\<lambda>i s. do {
       cl \<leftarrow> client_of s pid;
       aw \<leftarrow> rd (aw_associated (cl_windows cl)) i;
       vs_unmap_window pid (aw_winID aw) s
     }) s = Some t \<and> P (aw_numIndex (cl_windows c)) t"
  proof (rule for_each_upto)
    show "P 0 s" unfolding P_def using unmapped_refl [of s] inv c by (simp add: ms_inv_def)
    fix i t assume i: "i < aw_numIndex (cl_windows c)" and P: "P i t"
    from P obtain c' where t: "unmapped s t" "client_of t pid = Some c'" unfolding P_def by blast
    have it: "ms_inv t" by (rule unmapped_inv [OF inv t(1)])
    have like: "like_client (Some c) (Some c')" using t c unfolding unmapped_def by metis
    have ws: "cl_windows c' = cl_windows c \<or> cl_windows c' = resort (cl_windows c)"
      by (rule conjunct2 [OF like [unfolded like_client_Some]])
    then have r: "resort (cl_windows c') = resort (cl_windows c)" "aw_numIndex (cl_windows c') = aw_numIndex (cl_windows c)"
      using resort_wins(2) [OF ai] by auto
    note nth = assoc_nth [OF clients_ok_D(1) [OF it t(2)], of i, unfolded r(2), OF i]
    from unmap_window_spec [OF it t(2), of "aw_winID (wins (cl_windows c') ! i)"] obtain u d where
      u: "vs_unmap_window pid (aw_winID (wins (cl_windows c') ! i)) t = Some u" "unmapped t u" "client_of u pid = Some d"
        "cl_windows d = resort (cl_windows c')" by blast
    have "P (Suc i) u" unfolding P_def using unmapped_trans [OF t(1) u(2)] u(3,4) r(1) by auto
    with u(1) t(2) nth(1) show "\<exists>u. do {
       cl \<leftarrow> client_of t pid;
       aw \<leftarrow> rd (aw_associated (cl_windows cl)) i;
       vs_unmap_window pid (aw_winID aw) t
     } = Some u \<and> P (Suc i) u" by simp
  qed
  then show ?thesis unfolding P_def by blast
qed

text \<open>The invariant without the clause for the windows of \<open>pid\<close>.\<close>

definition ms_inv_sans :: "nat \<Rightarrow> memserv \<Rightarrow> bool" where
  "ms_inv_sans pid s \<longleftrightarrow> oat_ok (ms_dslist s) (ms_dspaces s) (\<lambda>d. int (ds_ID d)) RAM_DATASPACE_MAX_NUM_DATASPACE \<and>
     oat_ok (ms_wlist s) (ms_windows s) w_wID W_MAX_WINDOWS \<and> pid_inv (ms_pids s) \<and>
     clients_ok {} ((client_of s)(pid := None)) (ms_windows s) \<and> ref_ok (holds s) (ms_dspaces s) \<and>
     (\<forall>da d. ms_dspaces s da = Some d \<longrightarrow> ds_ok d)"

lemma clients_ok_sans: "clients_ok {pid} cs ws \<Longrightarrow> clients_ok {} (cs(pid := None)) ws"
  unfolding clients_ok_def by (metis empty_iff fun_upd_apply option.distinct(1) singletonD)

lemma ms_inv_but_sans: "ms_inv_but {pid} s \<Longrightarrow> ms_inv_sans pid s"
  unfolding ms_inv_def ms_inv_sans_def using clients_ok_sans by blast

lemma sans_upd:
  assumes inv: "ms_inv_sans pid s" and c: "client_of s pid = Some c"
    and f: "cl_paramBuffer (f c) = cl_paramBuffer c" "cl_notificationBuffer (f c) = cl_notificationBuffer c"
  shows "\<exists>p. upd_client pid f s = Some (s\<lparr>ms_pids := p\<rparr>) \<and> ms_inv_sans pid (s\<lparr>ms_pids := p\<rparr>) \<and>
    client_of (s\<lparr>ms_pids := p\<rparr>) = (client_of s)(pid \<mapsto> f c) \<and> holds (s\<lparr>ms_pids := p\<rparr>) = holds s"
proof -
  have pi: "pid_inv (ms_pids s)" using inv by (simp add: ms_inv_sans_def)
  from upd_client_spec [OF pi c, of f] obtain p where
    p: "upd_client pid f s = Some (s\<lparr>ms_pids := p\<rparr>)" "pid_inv p"
      "client_of (s\<lparr>ms_pids := p\<rparr>) = (client_of s)(pid \<mapsto> f c)" by blast
  have h: "holds (s\<lparr>ms_pids := p\<rparr>) = holds s"
    using holds_client [of "s\<lparr>ms_pids := p\<rparr>" s pid "f c"] p(3) f c by (auto simp: fun_eq_iff)
  have "ms_inv_sans pid (s\<lparr>ms_pids := p\<rparr>)"
    using inv p(2) unfolding ms_inv_sans_def h p(3) by simp
  with p h show ?thesis by blast
qed

text \<open>\<open>t\<close> is \<open>s\<close> after the release of the address space of \<open>pid\<close>, which had the windows \<open>I\<close>.\<close>

definition torn_down :: "nat \<Rightarrow> int set \<Rightarrow> nat \<Rightarrow> memserv \<Rightarrow> memserv \<Rightarrow> bool" where
  "torn_down pid I k s t \<longleftrightarrow> ms_inv_sans pid t \<and>
     (\<forall>wa. ms_windows t wa = (case ms_windows s wa of None \<Rightarrow> None | Some w \<Rightarrow> if w_wID w \<in> I then None else Some w)) \<and>
     (\<forall>q. q \<noteq> pid \<longrightarrow> like_client (client_of s q) (client_of t q)) \<and>
     (\<forall>x. map_option (ds_ref_update (\<lambda>_. 0)) (ms_dspaces t x) = map_option (ds_ref_update (\<lambda>_. 0)) (ms_dspaces s x)) \<and>
     ms_dslist t = ms_dslist s \<and> ms_frames t = ms_frames s \<and> ms_exitProcessPID t = ms_exitProcessPID s \<and>
     pd_inv (ms_pdlist t) \<and> pd_live (ms_pdlist t) = pd_live (ms_pdlist s) - {k} \<and> pd_pd (ms_pdlist t) = pd_pd (ms_pdlist s)"

lemma clear_windows:
  "\<exists>aws. w_associate_clear heap_ok l = Some aws \<and> assoc_inv aws \<and> wins aws = []"
  by (auto simp: w_associate_clear_def w_associate_reserve_def W_INITIAL_SIZE_def assoc_inv_def wins_def layout_ok_def)

lemma log_loop:
  assumes "cv_inv v"
  shows "\<exists>cs. for_each [0..<cvector_count v] (\<lambda>i s. do {
       kobj \<leftarrow> cvector_get v i;
       Some (log_calls (g kobj) s)
     }) s = Some (log_calls cs s)"
proof -
  have "\<exists>u. for_each [0..<cvector_count v] (\<lambda>i s. do {
       kobj \<leftarrow> cvector_get v i;
       Some (log_calls (g kobj) s)
     }) s = Some u \<and> (\<exists>cs. u = log_calls cs s)"
  proof (rule for_each_total)
    show "\<exists>cs. s = log_calls cs s" by (intro exI [of _ "[]"]) (simp add: log_calls_def)
    fix i t assume i: "i \<in> set [0..<cvector_count v]" and "\<exists>cs. t = log_calls cs s"
    then obtain cs where t: "t = log_calls cs s" by blast
    have "cvector_get v i = Some (cv_list v ! i)"
      using i assms by (simp add: cvector_get_list cvector_count_list)
    moreover have "log_calls ds t = log_calls (cs @ ds) s" for ds by (simp add: t log_calls_def)
    ultimately show "\<exists>u. do {
       kobj \<leftarrow> cvector_get v i;
       Some (log_calls (g kobj) t)
     } = Some u \<and> (\<exists>cs. u = log_calls cs s)" by auto
  qed
  then show ?thesis by blast
qed

lemma like_client_E:
  assumes "like_client (Some c) b"
  obtains ws ps where "b = Some (c\<lparr>cl_windows := ws, cl_pages := ps\<rparr>)"
    "ws = cl_windows c \<or> ws = resort (cl_windows c)"
proof (cases b)
  case None
  with assms show thesis by (simp add: like_client_def)
next
  case (Some c')
  from assms [unfolded Some like_client_Some] show thesis
    using Some that [of "cl_pages c'" "cl_windows c'"] by argo
qed

lemma ms_inv_sans_other [simp]:
  "ms_inv_sans pid (log_calls cs s) = ms_inv_sans pid s" "ms_inv_sans pid (s\<lparr>ms_pdlist := l\<rparr>) = ms_inv_sans pid s"
  "ms_inv_sans pid (s\<lparr>ms_exitProcessPID := e\<rparr>) = ms_inv_sans pid s"
  by (simp_all add: ms_inv_sans_def)

lemma log_calls_rest [simp]:
  "ms_frames (log_calls cs s) = ms_frames s" "ms_pdlist (log_calls cs s) = ms_pdlist s"
  "ms_exitProcessPID (log_calls cs s) = ms_exitProcessPID s"
  by (simp_all add: log_calls_def)

lemma release_all_windows:
  assumes inv: "ms_inv s" and c: "client_of s pid = Some c" and heap: "en_heap env = heap_ok"
    and st: "aw_numIndex (cl_windows c) = 0 \<or> resort (cl_windows c) = cl_windows c"
  shows "\<exists>t ws ps. w_associate_release_associated_all_windows env pid s = Some t \<and> ms_inv_sans pid t \<and>
     (\<forall>wa. ms_windows t wa = (case ms_windows s wa of None \<Rightarrow> None
        | Some w \<Rightarrow> if w_wID w \<in> aw_winID ` set (wins (cl_windows c)) then None else Some w)) \<and>
     (\<forall>q. q \<noteq> pid \<longrightarrow> like_client (client_of s q) (client_of t q)) \<and>
     client_of t pid = Some (c\<lparr>cl_windows := ws, cl_pages := ps\<rparr>) \<and>
     (\<forall>x. map_option (ds_ref_update (\<lambda>_. 0)) (ms_dspaces t x) = map_option (ds_ref_update (\<lambda>_. 0)) (ms_dspaces s x)) \<and>
     ms_dslist t = ms_dslist s \<and> same_rest s t"
proof -
  from release_windows_loop [OF inv c st heap] obtain u where u: "for_each [0..<aw_numIndex (cl_windows c)] (\<lambda>i s. do {
       cl \<leftarrow> client_of s pid;
       aw \<leftarrow> rd (aw_associated (cl_windows cl)) i;
       w_delete_window env (aw_winID aw) s
     }) s = Some u" "dropped {pid} (aw_winID ` set (wins (cl_windows c))) s u" by blast
  have like: "like_client (client_of s q) (client_of u q)" for q using u(2) by (simp add: dropped_def)
  from like_client_E [OF like [of pid, unfolded c]] obtain ws ps where
    c': "client_of u pid = Some (c\<lparr>cl_windows := ws, cl_pages := ps\<rparr>)" by blast
  from clear_windows obtain aws where aws: "w_associate_clear heap_ok ws = Some aws" by blast
  have "ms_inv_sans pid u" using u(2) by (intro ms_inv_but_sans) (simp add: dropped_def)
  from sans_upd [OF this c', of "\<lambda>c. c\<lparr>cl_windows := aws\<rparr>"] obtain p where
    p: "upd_client pid (\<lambda>c. c\<lparr>cl_windows := aws\<rparr>) u = Some (u\<lparr>ms_pids := p\<rparr>)" "ms_inv_sans pid (u\<lparr>ms_pids := p\<rparr>)"
      "client_of (u\<lparr>ms_pids := p\<rparr>) = (client_of u)(pid \<mapsto> c\<lparr>cl_pages := ps, cl_windows := aws\<rparr>)" by auto
  have e: "c\<lparr>cl_pages := ps, cl_windows := aws\<rparr> = c\<lparr>cl_windows := aws, cl_pages := ps\<rparr>" by simp
  have "w_associate_release_associated_all_windows env pid s = Some (u\<lparr>ms_pids := p\<rparr>)"
    using c u(1) c' aws p(1) heap by (simp add: w_associate_release_associated_all_windows_def set_windows_def)
  moreover have "same_rest s (u\<lparr>ms_pids := p\<rparr>)" using u(2) by (simp add: dropped_def same_rest_def)
  moreover have "client_of (u\<lparr>ms_pids := p\<rparr>) pid = Some (c\<lparr>cl_windows := aws, cl_pages := ps\<rparr>)" unfolding p(3) e by simp
  moreover have "like_client (client_of s q) (client_of (u\<lparr>ms_pids := p\<rparr>) q)" if "q \<noteq> pid" for q
    unfolding p(3) using like [of q] that by simp
  ultimately show ?thesis using p(2) u(2) unfolding dropped_def by (intro exI [of _ "u\<lparr>ms_pids := p\<rparr>"] exI [of _ aws] exI [of _ ps]) simp
qed

lemma vs_release_spec:
  assumes inv: "ms_inv s" and c: "client_of s pid = Some c" and ref: "cl_ref c = 0" and ko: "cv_inv (cl_kobjs c)"
    and heap: "en_heap (pe_mem env) = heap_ok" and cn: "pe_cnode env = Some x" "x \<noteq> 0"
    and pd: "pd_inv (ms_pdlist s)" "k \<in> pd_live (ms_pdlist s)" "cl_kpd c = pd_pd (ms_pdlist s) ! k"
  shows "\<exists>t. vs_release env pid s = Some t \<and> torn_down pid (aw_winID ` set (wins (cl_windows c))) k s t \<and>
    client_of t pid = Some (zero_vspace c)"
proof -
  from unmap_all_loop [OF inv c] obtain a c1 where a: "for_each [0..<aw_numIndex (cl_windows c)] (\<lambda>i s. do {
       cl \<leftarrow> client_of s pid;
       aw \<leftarrow> rd (aw_associated (cl_windows cl)) i;
       vs_unmap_window pid (aw_winID aw) s
     }) s = Some a" "unmapped s a" "client_of a pid = Some c1"
     "aw_numIndex (cl_windows c) = 0 \<or> cl_windows c1 = resort (cl_windows c)" by blast
  have like: "like_client (client_of s q) (client_of a q)" for q using a(2) by (simp add: unmapped_def)
  have l1: "like_client (Some c) (Some c1)" using like [of pid] by (simp only: c a(3))
  from like_client_E [OF l1] obtain w1 p1 where c1: "c1 = c\<lparr>cl_windows := w1, cl_pages := p1\<rparr>" by (metis option.inject)
  have ai: "assoc_inv (cl_windows c)" by (rule clients_ok_D(1) [OF inv c])
  have ws: "set (wins (cl_windows c1)) = set (wins (cl_windows c))" by (rule like_client_windows(2) [OF l1 ai])
  have "aw_numIndex (cl_windows c1) = aw_numIndex (cl_windows c)"
    using conjunct2 [OF l1 [unfolded like_client_Some]] resort_wins(2) [OF ai] by auto
  then have st: "aw_numIndex (cl_windows c1) = 0 \<or> resort (cl_windows c1) = cl_windows c1"
    using a(4) by auto
  from release_all_windows [OF unmapped_inv [OF inv a(2)] a(3) heap st] obtain b w2 p2 where
    b: "w_associate_release_associated_all_windows (pe_mem env) pid a = Some b" "ms_inv_sans pid b"
     "\<forall>wa. ms_windows b wa = (case ms_windows a wa of None \<Rightarrow> None
        | Some w \<Rightarrow> if w_wID w \<in> aw_winID ` set (wins (cl_windows c1)) then None else Some w)"
     "\<forall>q. q \<noteq> pid \<longrightarrow> like_client (client_of a q) (client_of b q)"
     "client_of b pid = Some (c1\<lparr>cl_windows := w2, cl_pages := p2\<rparr>)"
     "\<forall>x. map_option (ds_ref_update (\<lambda>_. 0)) (ms_dspaces b x) = map_option (ds_ref_update (\<lambda>_. 0)) (ms_dspaces a x)"
     "ms_dslist b = ms_dslist a" "same_rest a b" by blast
  let ?c2 = "c1\<lparr>cl_windows := w2, cl_pages := p2\<rparr>"
  have c2: "cl_kobjs ?c2 = cl_kobjs c" "cl_kpd ?c2 = cl_kpd c" "zero_vspace ?c2 = zero_vspace c"
    by (simp_all add: c1 zero_vspace_def)
  note af = unmapped_fields [OF a(2)]
  from log_loop [OF ko, of "\<lambda>kobj. [Cap_Revoke kobj, Cap_Delete kobj, Object_Free kobj]" b] obtain cs where
    lo: "for_each [0..<cvector_count (cl_kobjs c)] (\<lambda>i s. do {
       kobj \<leftarrow> cvector_get (cl_kobjs c) i;
       Some (log_calls [Cap_Revoke kobj, Cap_Delete kobj, Object_Free kobj] s)
     }) b = Some (log_calls cs b)" by blast
  have pl: "ms_pdlist b = ms_pdlist s" using b(8) af(9) by (simp add: same_rest_def)
  from pd_free_one [OF pd(1,2) cn(2)] obtain l' ds where
    l': "pd_free heap_ok (Some x) (ms_pdlist s) (cl_kpd c) = Some (l', ds)" "pd_inv l'"
      "pd_live l' = pd_live (ms_pdlist s) - {k}" "pd_pd l' = pd_pd (ms_pdlist s)" unfolding pd(3) by blast
  define e where "e = log_calls ds ((log_calls ([Vspace_Teardown (cl_kpd c)] @ free_cap (cl_cspace ?c2)) (log_calls cs b))
    \<lparr>ms_pdlist := l'\<rparr>)"
  have pf: "vs_pd_free env (cl_kpd c) (log_calls ([Vspace_Teardown (cl_kpd c)] @ free_cap (cl_cspace ?c2)) (log_calls cs b)) = Some e"
    using l'(1) pl heap cn(1) by (simp add: vs_pd_free_def e_def)
  have ef: "ms_inv_sans pid e" "client_of e = client_of b" "ms_windows e = ms_windows b" "ms_dspaces e = ms_dspaces b"
    "ms_dslist e = ms_dslist b" "ms_frames e = ms_frames b" "ms_exitProcessPID e = ms_exitProcessPID b" "ms_pdlist e = l'"
    using b(2) by (simp_all add: e_def)
  have ce: "client_of e pid = Some ?c2" by (simp only: ef b(5))
  from sans_upd [OF ef(1) ce, of zero_vspace] obtain p where
    p: "upd_client pid zero_vspace e = Some (e\<lparr>ms_pids := p\<rparr>)" "ms_inv_sans pid (e\<lparr>ms_pids := p\<rparr>)"
      "client_of (e\<lparr>ms_pids := p\<rparr>) = (client_of e)(pid \<mapsto> zero_vspace ?c2)" by (auto simp: zero_vspace_def)
  let ?t = "e\<lparr>ms_pids := p\<rparr>"
  have run: "vs_release env pid s = Some ?t"
    using ref a(1,3) c b(1,5) lo pf p(1) by (simp add: vs_release_def c2)
  have "like_client (client_of s q) (client_of ?t q)" if "q \<noteq> pid" for q
    using like_client_trans [OF like [of q]] b(4) that unfolding p(3) ef by simp
  moreover have "ms_windows ?t wa = (case ms_windows s wa of None \<Rightarrow> None
        | Some w \<Rightarrow> if w_wID w \<in> aw_winID ` set (wins (cl_windows c)) then None else Some w)" for wa
    using b(3) unfolding ws af(1) by (simp add: ef)
  moreover have "map_option (ds_ref_update (\<lambda>_. 0)) (ms_dspaces ?t x) = map_option (ds_ref_update (\<lambda>_. 0)) (ms_dspaces s x)" for x
    using b(6) unfolding af(2) by (simp add: ef)
  moreover have "ms_frames b = ms_frames s" "ms_exitProcessPID b = ms_exitProcessPID s" "ms_dslist b = ms_dslist s"
    using b(7,8) af by (simp_all add: same_rest_def)
  ultimately have "torn_down pid (aw_winID ` set (wins (cl_windows c))) k s ?t"
    unfolding torn_down_def using p(2) l' by (simp add: ef)
  with run show ?thesis using p(3) c2(3) by simp
qed

section \<open>Dropping the references to an address space\<close>

text \<open>\<open>t\<close> is \<open>s\<close> with \<open>r\<close> references to the address space of \<open>pid\<close>; at 0 it is released.\<close>

definition refs_left :: "nat \<Rightarrow> client \<Rightarrow> nat \<Rightarrow> nat \<Rightarrow> memserv \<Rightarrow> memserv \<Rightarrow> bool" where
  "refs_left pid c k r s t \<longleftrightarrow>
     (if r = 0 then torn_down pid (aw_winID ` set (wins (cl_windows c))) k s t \<and> client_of t pid = Some (zero_vspace c)
      else ms_inv t \<and> client_of t = (client_of s)(pid \<mapsto> c\<lparr>cl_ref := r\<rparr>) \<and> ms_windows t = ms_windows s \<and>
        ms_dspaces t = ms_dspaces s \<and> ms_dslist t = ms_dslist s \<and> ms_frames t = ms_frames s \<and>
        ms_exitProcessPID t = ms_exitProcessPID s \<and> ms_pdlist t = ms_pdlist s)"

lemma inv_upd:
  assumes inv: "ms_inv_but X s" and c: "client_of s pid = Some c"
    and f: "cl_paramBuffer (f c) = cl_paramBuffer c" "map_option fst (cl_notificationBuffer (f c)) = map_option fst (cl_notificationBuffer c)"
      "cl_windows (f c) = cl_windows c"
  shows "\<exists>p. upd_client pid f s = Some (s\<lparr>ms_pids := p\<rparr>) \<and> ms_inv_but X (s\<lparr>ms_pids := p\<rparr>) \<and>
    client_of (s\<lparr>ms_pids := p\<rparr>) = (client_of s)(pid \<mapsto> f c) \<and> holds (s\<lparr>ms_pids := p\<rparr>) = holds s"
proof -
  have pi: "pid_inv (ms_pids s)" "clients_ok X (client_of s) (ms_windows s)" using inv by (simp_all add: ms_inv_def)
  from upd_client_spec [OF pi(1) c, of f] obtain p where
    p: "upd_client pid f s = Some (s\<lparr>ms_pids := p\<rparr>)" "pid_inv p"
      "client_of (s\<lparr>ms_pids := p\<rparr>) = (client_of s)(pid \<mapsto> f c)" by blast
  have h: "holds (s\<lparr>ms_pids := p\<rparr>) = holds s"
    using holds_client [of "s\<lparr>ms_pids := p\<rparr>" s pid "f c"] p(3) f c by (auto simp: fun_eq_iff)
  have "ms_inv_but X (s\<lparr>ms_pids := p\<rparr>)"
    using inv p(2) like_clients_ok [OF pi(2) c f(3)] unfolding ms_inv_def h p(3) by simp
  with p h show ?thesis by blast
qed

lemma vs_unref_spec:
  assumes r: "refs_left pid c k (Suc r) s t" "Suc r < 2 ^ 32" and c: "client_of s pid = Some c" and ko: "cv_inv (cl_kobjs c)"
    and heap: "en_heap (pe_mem env) = heap_ok" and cn: "pe_cnode env = Some x" "x \<noteq> 0"
    and pd: "pd_inv (ms_pdlist s)" "k \<in> pd_live (ms_pdlist s)" "cl_kpd c = pd_pd (ms_pdlist s) ! k"
  shows "\<exists>u. vs_unref env pid (log_calls cs t) = Some u \<and> refs_left pid c k r s u"
proof -
  let ?t = "log_calls cs t"
  let ?c = "c\<lparr>cl_ref := r\<rparr>"
  from r have t: "ms_inv t" "client_of t = (client_of s)(pid \<mapsto> c\<lparr>cl_ref := Suc r\<rparr>)" "ms_windows t = ms_windows s"
    "ms_dspaces t = ms_dspaces s" "ms_dslist t = ms_dslist s" "ms_frames t = ms_frames s"
    "ms_exitProcessPID t = ms_exitProcessPID s" "ms_pdlist t = ms_pdlist s" by (simp_all add: refs_left_def)
  have ct: "ms_inv ?t" "client_of ?t pid = Some (c\<lparr>cl_ref := Suc r\<rparr>)" using t(1,2) by simp_all
  have w: "u32i (int (Suc r) - 1) = r" using r(2) by (simp add: u32i_def)
  from inv_upd [OF ct, of "\<lambda>c. c\<lparr>cl_ref := u32i (int (cl_ref c) - 1)\<rparr>"] obtain p where
    p: "upd_client pid (\<lambda>c. c\<lparr>cl_ref := u32i (int (cl_ref c) - 1)\<rparr>) ?t = Some (?t\<lparr>ms_pids := p\<rparr>)" "ms_inv (?t\<lparr>ms_pids := p\<rparr>)"
      "client_of (?t\<lparr>ms_pids := p\<rparr>) = (client_of s)(pid \<mapsto> ?c)" using w t(2) by auto
  let ?u = "?t\<lparr>ms_pids := p\<rparr>"
  have cu: "client_of ?u pid = Some ?c" unfolding p(3) by simp
  show ?thesis
  proof (cases "r = 0")
    case False
    then have "vs_unref env pid ?t = Some ?u" using p(1) cu by (simp add: vs_unref_def)
    moreover have "refs_left pid c k r s ?u" using False p(2,3) t by (simp add: refs_left_def)
    ultimately show ?thesis by blast
  next
    case True
    from vs_release_spec [OF p(2) cu _ _ heap cn, of k] True ko pd t(8) obtain v where
      v: "vs_release env pid ?u = Some v" "torn_down pid (aw_winID ` set (wins (cl_windows c))) k ?u v"
        "client_of v pid = Some (zero_vspace c)" by (auto simp: zero_vspace_def)
    have "vs_unref env pid ?t = Some v" using p(1) cu v(1) True by (simp add: vs_unref_def)
    moreover have "torn_down pid (aw_winID ` set (wins (cl_windows c))) k s v"
      using v(2) t unfolding torn_down_def p(3) by simp
    ultimately show ?thesis using True v(3) by (auto simp: refs_left_def)
  qed
qed

lemma release_threads_loop:
  assumes r: "refs_left pid c k (cvector_count (cl_threads c)) s t" "cvector_count (cl_threads c) < 2 ^ 32"
    and th: "cv_inv (cl_threads c)"
    and c: "client_of s pid = Some c" and ko: "cv_inv (cl_kobjs c)"
    and heap: "en_heap (pe_mem env) = heap_ok" and cn: "pe_cnode env = Some x" "x \<noteq> 0"
    and pd: "pd_inv (ms_pdlist s)" "k \<in> pd_live (ms_pdlist s)" "cl_kpd c = pd_pd (ms_pdlist s) ! k"
  shows "\<exists>u. for_each [0..<cvector_count (cl_threads c)] (\<lambda>i s. do {
       p \<leftarrow> client_of s pid;
       thread \<leftarrow> cvector_get (cl_threads p) i;
       thread_release env pid thread s
     }) t = Some u \<and> refs_left pid c k 0 s u"
proof -
  let ?n = "cvector_count (cl_threads c)"
  have "\<exists>u. for_each [0..<?n] (\<lambda>i s. do {
       p \<leftarrow> client_of s pid;
       thread \<leftarrow> cvector_get (cl_threads p) i;
       thread_release env pid thread s
     }) t = Some u \<and> refs_left pid c k (?n - ?n) s u"
  proof (rule for_each_upto [where P = "\<lambda>i u. refs_left pid c k (?n - i) s u"])
    show "refs_left pid c k (?n - 0) s t" using r by simp
    fix i u assume i: "i < ?n" and u: "refs_left pid c k (?n - i) s u"
    then have e: "?n - i = Suc (?n - Suc i)" by simp
    have cu: "client_of u pid = Some (c\<lparr>cl_ref := ?n - i\<rparr>)" using u i by (simp add: refs_left_def)
    have g: "cvector_get (cl_threads c) i = Some (cv_list (cl_threads c) ! i)"
      using th i by (simp add: cvector_get_list cvector_count_list)
    have "Suc (?n - Suc i) < 2 ^ 32" using r(2) i by simp
    from vs_unref_spec [OF u [unfolded e] this c ko heap cn pd] cu g
    show "\<exists>v. do {
       p \<leftarrow> client_of u pid;
       thread \<leftarrow> cvector_get (cl_threads p) i;
       thread_release env pid thread u
     } = Some v \<and> refs_left pid c k (?n - Suc i) s v" by (simp add: thread_release_def)
  qed
  then show ?thesis by simp
qed

section \<open>Notifying and orphaning the other processes\<close>

text \<open>The parts of a control block that the process's own address space does not show.\<close>

definition proc_ok :: "client \<Rightarrow> bool" where
  "proc_ok c \<longleftrightarrow> wl_inv (cl_watch c) \<and> cv_inv (cl_threads c) \<and> cv_inv (cl_kobjs c) \<and>
     cl_ref c = Suc (cvector_count (cl_threads c)) \<and> cl_ref c < 2 ^ 32 \<and>
     (\<forall>da rb. cl_notificationBuffer c = Some (da, rb) \<longrightarrow> rb_size rb \<noteq> 0)"

definition procs_ok :: "memserv \<Rightarrow> bool" where
  "procs_ok s \<longleftrightarrow> frames_ok (ms_frames s) \<and> pd_inv (ms_pdlist s) \<and>
     (\<forall>q c. client_of s q = Some c \<longrightarrow> proc_ok c \<and> (\<exists>k \<in> pd_live (ms_pdlist s). cl_kpd c = pd_pd (ms_pdlist s) ! k)) \<and>
     (\<forall>p q c d. client_of s p = Some c \<longrightarrow> client_of s q = Some d \<longrightarrow> cl_kpd c = cl_kpd d \<longrightarrow> p = q)"

text \<open>What a release keeps of a control block: the address space, its references and the threads.\<close>

definition core :: "client \<Rightarrow> w_associated_windowlist \<times> nat \<times> nat \<times> proc_tcb cvector \<times> nat cvector" where
  "core c = (cl_windows c, cl_ref c, cl_kpd c, cl_threads c, cl_kobjs c)"

text \<open>
  \<open>t\<close> is \<open>s\<close> with messages delivered and the buffers of \<open>pid\<close> possibly dropped; a process keeps its parent or is orphaned.
\<close>

definition keeps :: "client \<Rightarrow> client \<Rightarrow> bool" where
  "keeps c c' \<longleftrightarrow> core c' = core c \<and> (cl_parentPID c' = cl_parentPID c \<or> cl_parentPID c' = PID_NULL)"

definition stays :: "nat \<Rightarrow> memserv \<Rightarrow> memserv \<Rightarrow> bool" where
  "stays pid s t \<longleftrightarrow> ms_inv t \<and> procs_ok t \<and> ms_windows t = ms_windows s \<and> ms_pdlist t = ms_pdlist s \<and>
     ms_exitProcessPID t = ms_exitProcessPID s \<and>
     (\<forall>q. rel_option keeps (client_of s q) (client_of t q)) \<and>
     (\<forall>h. h \<noteq> Param pid \<longrightarrow> h \<noteq> Notif pid \<longrightarrow> holds t h = holds s h) \<and>
     (\<forall>x. ms_dspaces t x = None \<longleftrightarrow> ms_dspaces s x = None)"

lemma keeps_refl: "keeps c c"
  by (simp add: keeps_def)

lemma keeps_trans: "keeps c d \<Longrightarrow> keeps d e \<Longrightarrow> keeps c e"
  by (auto simp: keeps_def)

lemma stays_refl: "ms_inv s \<Longrightarrow> procs_ok s \<Longrightarrow> stays pid s s"
  by (simp add: stays_def keeps_refl option.rel_refl)

lemma stays_trans:
  assumes "stays pid s t" "stays pid t u"
  shows "stays pid s u"
proof -
  have "rel_option keeps (client_of s q) (client_of u q)" for q
    using assms keeps_trans unfolding stays_def
    by (cases "client_of s q"; cases "client_of t q"; cases "client_of u q")
      (metis option.rel_distinct option.rel_inject(2) option.rel_inject(1))+
  with assms show ?thesis unfolding stays_def by simp
qed

lemma procs_ok_other [simp]:
  "procs_ok (log_calls cs s) = procs_ok s" "procs_ok (s\<lparr>ms_dspaces := ds\<rparr>) = procs_ok s"
  "procs_ok (s\<lparr>ms_exitProcessPID := e\<rparr>) = procs_ok s"
  by (simp_all add: procs_ok_def)

lemma stays_log: "stays pid s t \<Longrightarrow> stays pid s (log_calls cs t)"
  by (simp add: stays_def)

lemma procs_ok_upd:
  assumes "procs_ok s" and c: "client_of s q = Some c" and f: "proc_ok c'" "cl_kpd c' = cl_kpd c"
    and t: "client_of t = (client_of s)(q \<mapsto> c')" "ms_frames t = ms_frames s" "ms_pdlist t = ms_pdlist s"
  shows "procs_ok t"
proof -
  have kp: "\<exists>d. client_of s p = Some d \<and> cl_kpd d = cl_kpd e" if "client_of t p = Some e" for p e
    using that c f(2) unfolding t by (auto split: if_splits)
  have "proc_ok e" if "client_of t p = Some e" for p e
    using that assms(1) f(1) unfolding t by (auto simp: procs_ok_def split: if_splits)
  moreover have "\<exists>k \<in> pd_live (ms_pdlist s). cl_kpd e = pd_pd (ms_pdlist s) ! k" if "client_of t p = Some e" for p e
    using kp [OF that] assms(1) unfolding procs_ok_def by metis
  moreover have "p = q" if "client_of t p = Some d" "client_of t q = Some e" "cl_kpd d = cl_kpd e" for p q d e
    using kp [OF that(1)] kp [OF that(2)] that(3) assms(1) unfolding procs_ok_def by metis
  ultimately show ?thesis using assms(1) unfolding procs_ok_def t by blast
qed

lemma stays_upd:
  assumes t: "stays pid s t" and c: "client_of t q = Some c"
    and f: "keeps c (f c)" "proc_ok (f c)" "cl_paramBuffer (f c) = cl_paramBuffer c"
      "map_option fst (cl_notificationBuffer (f c)) = map_option fst (cl_notificationBuffer c)"
  shows "\<exists>u. upd_client q f t = Some u \<and> stays pid s u \<and> client_of u = (client_of t)(q \<mapsto> f c)"
proof -
  have it: "ms_inv t" "procs_ok t" using t by (simp_all add: stays_def)
  have "cl_windows (f c) = cl_windows c" "cl_kpd (f c) = cl_kpd c" using f(1) by (simp_all add: keeps_def core_def)
  with inv_upd [OF it(1) c, of f, OF f(3,4)] obtain p where
    p: "upd_client q f t = Some (t\<lparr>ms_pids := p\<rparr>)" "ms_inv (t\<lparr>ms_pids := p\<rparr>)"
      "client_of (t\<lparr>ms_pids := p\<rparr>) = (client_of t)(q \<mapsto> f c)" "holds (t\<lparr>ms_pids := p\<rparr>) = holds t" by blast
  have "procs_ok (t\<lparr>ms_pids := p\<rparr>)"
    by (rule procs_ok_upd [OF it(2) c f(2) _ p(3)]) (use f(1) in \<open>simp_all add: keeps_def core_def\<close>)
  moreover have "rel_option keeps (client_of t r) (client_of (t\<lparr>ms_pids := p\<rparr>) r)" for r
    unfolding p(3) using c f(1) by (simp add: option.rel_refl keeps_refl)
  ultimately have "stays pid t (t\<lparr>ms_pids := p\<rparr>)" using p(2,4) by (simp add: stays_def)
  with stays_trans [OF t] p(1,3) show ?thesis by blast
qed

lemma like_dspace_ok:
  assumes "like_dspace d e"
  shows "ds_ID e = ds_ID d" "ds_ref e = ds_ref d" "ds_ok d \<Longrightarrow> ds_ok e"
proof -
  obtain ps where e: "e = d\<lparr>ds_pages := ps\<rparr>" "shape_ok e" using assms by (auto simp: like_dspace_def)
  then show "ds_ID e = ds_ID d" "ds_ref e = ds_ref d" "ds_ok d \<Longrightarrow> ds_ok e" by (simp_all add: ds_ok_def)
qed

lemma stays_write:
  assumes t: "stays pid s t" and d: "ms_dspaces t da = Some d" and e: "like_dspace d e" and fr: "frames_ok fr"
  shows "stays pid s (t\<lparr>ms_dspaces := (ms_dspaces t)(da \<mapsto> e), ms_frames := fr\<rparr>)"
proof -
  let ?t = "t\<lparr>ms_dspaces := (ms_dspaces t)(da \<mapsto> e), ms_frames := fr\<rparr>"
  have it: "ms_inv t" "procs_ok t" using t by (simp_all add: stays_def)
  then have ok: "oat_ok (ms_dslist t) (ms_dspaces t) (\<lambda>d. int (ds_ID d)) RAM_DATASPACE_MAX_NUM_DATASPACE"
    "ref_ok (holds t) (ms_dspaces t)" "\<And>a x. ms_dspaces t a = Some x \<Longrightarrow> ds_ok x" by (auto simp: ms_inv_def)
  have "oat_ok (ms_dslist t) ((ms_dspaces t)(da \<mapsto> e)) (\<lambda>d. int (ds_ID d)) RAM_DATASPACE_MAX_NUM_DATASPACE"
    by (rule oat_ok_upd [OF ok(1) d]) (simp add: like_dspace_ok [OF e])
  moreover have "ref_ok (holds t) ((ms_dspaces t)(da \<mapsto> e))"
    using ok(2) d like_dspace_ok(2) [OF e] unfolding ref_ok_def by auto
  moreover have "ds_ok x" if "((ms_dspaces t)(da \<mapsto> e)) a = Some x" for a x
    using that ok(3) d like_dspace_ok(3) [OF e] by (auto split: if_splits)
  ultimately have "ms_inv ?t" using it(1) unfolding ms_inv_def by simp
  moreover have "procs_ok ?t" using it(2) fr by (simp add: procs_ok_def)
  ultimately have "stays pid t ?t" using d by (simp add: stays_def keeps_refl option.rel_refl)
  with stays_trans [OF t] show ?thesis by blast
qed

lemma stays_client:
  assumes "stays pid s t" and "client_of t q = Some c"
  shows "proc_ok c" "\<exists>c0. client_of s q = Some c0 \<and> keeps c0 c"
proof -
  show "proc_ok c" using assms by (simp add: stays_def procs_ok_def)
  have "rel_option keeps (client_of s q) (Some c)" using assms unfolding stays_def by metis
  then show "\<exists>c0. client_of s q = Some c0 \<and> keeps c0 c" by (cases "client_of s q") simp_all
qed

lemma death_callback_spec:
  assumes t: "stays pid s t" and c: "client_of t q = Some c" and heap: "en_heap (pe_mem env) = heap_ok"
  shows "\<exists>u. client_watch_notify_death_callback env pid q t = Some u \<and> stays pid s u"
proof -
  have wl: "wl_inv (cl_watch c)" using stays_client(1) [OF t c] by (simp add: proc_ok_def)
  note get = client_watch_get_lookup [OF wl, of pid]
  define ep where "ep = (case wl_lookup (cl_watch c) pid of None \<Rightarrow> 0 | Some ep \<Rightarrow> ep)"
  consider (quiet) "q = pid \<or> ep = 0 \<or> cl_notificationBuffer c = None"
    | (send) da rb where "q \<noteq> pid" "ep \<noteq> 0" "cl_notificationBuffer c = Some (da, rb)"
    by (cases "cl_notificationBuffer c") auto
  then show ?thesis
  proof cases
    case quiet
    with t c get show ?thesis by (auto simp: client_watch_notify_death_callback_def ep_def)
  next
    case send
    let ?n = "\<lparr>pn_magic = PROCSERV_NOTIFICATION_MAGIC, pn_label = PROCSERV_NOTIFY_DEATH, pn_arg = pid # pe_junk env\<rparr>"
    have it: "ms_inv t" "frames_ok (ms_frames t)" "rb_size rb \<noteq> 0"
      using t stays_client(1) [OF t c] send(3) by (simp_all add: stays_def procs_ok_def proc_ok_def)
    have "holds t (Notif q) = Some da" using c send(3) by simp
    moreover have "ref_ok (holds t) (ms_dspaces t)" using it(1) by (simp add: ms_inv_def)
    ultimately obtain d where d: "ms_dspaces t da = Some d" using ref_ok_live by metis
    then have "shape_ok d" using it(1) by (auto simp: ms_inv_def ds_ok_def)
    from rb_write_total [OF this it(2) order_refl it(3), of "notification_bytes ?n"] obtain rb' e fr err where
      w: "rb_write rb d (ms_frames t) (notification_bytes ?n) (length (notification_bytes ?n)) = Some (rb', e, fr, err)"
        "like_dspace d e" "frames_ok fr" "rb_size rb' = rb_size rb" by blast
    let ?t = "t\<lparr>ms_dspaces := (ms_dspaces t)(da \<mapsto> e), ms_frames := fr\<rparr>"
    let ?f = "\<lambda>c. c\<lparr>cl_notificationBuffer := Some (da, rb')\<rparr>"
    have st: "stays pid s ?t" by (rule stays_write [OF t d w(2,3)])
    have ct: "client_of ?t q = Some c" using c by simp
    from stays_upd [OF st ct, of ?f] stays_client(1) [OF t c] send(3) w(4) it(3) obtain u where
      u: "upd_client q ?f ?t = Some u" "stays pid s u" "client_of u = (client_of ?t)(q \<mapsto> ?f c)"
      by (auto simp: keeps_def core_def proc_ok_def)
    show ?thesis
    proof (cases "err = ESUCCESS")
      case False
      with c get send d w(1) u show ?thesis by (simp add: client_watch_notify_death_callback_def ep_def)
    next
      case True
      have cu: "client_of (log_calls [Cap_Send ep] u) q = Some (?f c)" using u(3) by simp
      from client_unwatch_lookup [OF wl, of pid] obtain wl' freed where
        wl': "client_unwatch heap_ok (cl_watch c) pid = Some (wl', freed)" "wl_inv wl'" by blast
      have su: "stays pid s (log_calls [Cap_Send ep] u)" by (rule stays_log [OF u(2)])
      from stays_upd [OF su cu, of "\<lambda>c. c\<lparr>cl_watch := wl'\<rparr>"] wl'(2) stays_client(1) [OF u(2), of q] u(3) obtain v where
        v: "upd_client q (\<lambda>c. c\<lparr>cl_watch := wl'\<rparr>) (log_calls [Cap_Send ep] u) = Some v" "stays pid s v"
        by (auto simp: keeps_def core_def proc_ok_def)
      with True c get send d w(1) u wl'(1) heap stays_log [OF v(2)] show ?thesis
        by (simp add: client_watch_notify_death_callback_def ep_def)
    qed
  qed
qed

lemma iterate_stays:
  assumes t: "stays pid s t"
    and step: "\<And>q t c. stays pid s t \<Longrightarrow> client_of t q = Some c \<Longrightarrow> \<exists>u. f q t = Some u \<and> stays pid s u"
  shows "\<exists>u. pid_iterate ms_pids f t = Some u \<and> stays pid s u"
  unfolding pid_iterate_def
proof (rule for_each_total [where P = "stays pid s"], fact t)
  fix i t assume t: "stays pid s t"
  then have "pid_inv (ms_pids t)" by (simp add: stays_def ms_inv_def)
  then have g: "pid_get_pcb (ms_pids t) i = Some (client_of t i)" by (simp add: client_of_eq pid_get_pcb_eq)
  show "\<exists>u. do { pcb \<leftarrow> pid_get_pcb (ms_pids t) i; if pcb \<noteq> None then f i t else Some t } = Some u \<and> stays pid s u"
  proof (cases "client_of t i")
    case None
    with g t show ?thesis by simp
  next
    case (Some c)
    with g step [OF t Some] show ?thesis by simp
  qed
qed

text \<open>After the purge no process has \<open>pid\<close> as its parent.\<close>

lemma purge_callback_spec:
  assumes t: "stays pid s t" and c: "client_of t q = Some c"
  shows "\<exists>u. proc_purge_pid_callback pid q t = Some u \<and> stays pid s u \<and>
    client_of u = (client_of t)(q \<mapsto> if q \<noteq> pid \<and> cl_parentPID c = pid
      then c\<lparr>cl_parentPID := PID_NULL, cl_parentWaiting := False\<rparr> else c)"
proof (cases "q \<noteq> pid \<and> cl_parentPID c = pid")
  case False
  with t c show ?thesis by (auto simp: proc_purge_pid_callback_def fun_upd_idem)
next
  case True
  from stays_upd [OF t c, of "\<lambda>c. c\<lparr>cl_parentPID := PID_NULL, cl_parentWaiting := False\<rparr>"] stays_client(1) [OF t c] True c
  show ?thesis by (auto simp: proc_purge_pid_callback_def keeps_def core_def proc_ok_def)
qed

lemma purge_callbacks_spec:
  assumes t: "stays pid s t" and pid: "pid \<noteq> PID_NULL"
  shows "\<exists>u. pid_iterate ms_pids (proc_purge_pid_callback pid) t = Some u \<and> stays pid s u \<and>
    (\<forall>q c. q \<noteq> pid \<longrightarrow> client_of u q = Some c \<longrightarrow> cl_parentPID c \<noteq> pid)"
proof -
  let ?step = "\<lambda>i s. do { pcb \<leftarrow> pid_get_pcb (ms_pids s) i; if pcb \<noteq> None then proc_purge_pid_callback pid i s else Some s }"
  define P where "P = (\<lambda>k u. stays pid s u \<and> (\<forall>q c. q \<noteq> pid \<longrightarrow> q < k \<longrightarrow> client_of u q = Some c \<longrightarrow> cl_parentPID c \<noteq> pid))"
  have step: "\<exists>v. ?step i u = Some v \<and> P (Suc i) v" if u: "P i u" for i u
  proof -
    have su: "stays pid s u" using u by (simp add: P_def)
    then have "pid_inv (ms_pids u)" by (simp add: stays_def ms_inv_def)
    then have g: "pid_get_pcb (ms_pids u) i = Some (client_of u i)" by (simp add: client_of_eq pid_get_pcb_eq)
    show ?thesis
    proof (cases "client_of u i")
      case None
      with u have "P (Suc i) u" unfolding P_def less_Suc_eq by auto
      with None g show ?thesis by simp
    next
      case (Some c)
      from purge_callback_spec [OF su Some] obtain v where v: "proc_purge_pid_callback pid i u = Some v" "stays pid s v"
        "client_of v = (client_of u)(i \<mapsto> if i \<noteq> pid \<and> cl_parentPID c = pid
          then c\<lparr>cl_parentPID := PID_NULL, cl_parentWaiting := False\<rparr> else c)" by blast
      have "P (Suc i) v" using u v(2) pid unfolding P_def v(3) less_Suc_eq by (auto split: if_splits)
      with Some g v(1) show ?thesis by simp
    qed
  qed
  have z: "client_of u q = None" if "q = 0 \<or> PID_MAX \<le> q" for u q
    using that by (auto simp: client_of_def pid_get_pcb_def PID_START_def)
  then have "P 1 t" using t by (simp add: P_def)
  have "\<exists>u. for_each [1..<Suc k] ?step t = Some u \<and> P (Suc k) u" for k
  proof (induction k)
    case 0
    with \<open>P 1 t\<close> show ?case by simp
  next
    case (Suc k)
    then obtain u where "for_each [1..<Suc k] ?step t = Some u" "P (Suc k) u" by blast
    with step [of "Suc k" u] show ?case by (auto simp: for_each_append upt_Suc_append simp del: upt_Suc)
  qed
  from this [of "PID_MAX - 1"] obtain u where
    u: "pid_iterate ms_pids (proc_purge_pid_callback pid) t = Some u" "P PID_MAX u"
    by (auto simp: pid_iterate_def PID_START_def PID_MAX_def)
  have "cl_parentPID c \<noteq> pid" if "q \<noteq> pid" "client_of u q = Some c" for q c
    using u(2) z [of q u] that unfolding P_def by (cases "PID_MAX \<le> q") auto
  with u show ?thesis unfolding P_def by blast
qed

lemma parent_reply_spec:
  assumes t: "stays pid s t" and c: "client_of t pid = Some c" "cl_parentPID c \<noteq> PID_NULL"
  shows "\<exists>u. proc_parent_reply pid t = Some u \<and> stays pid s u \<and>
    (\<forall>q. map_option cl_parentPID (client_of u q) = map_option cl_parentPID (client_of t q))"
proof -
  have "pid_inv (ms_pids t)" using t by (simp add: stays_def ms_inv_def)
  then have g: "pid_get_pcb (ms_pids t) q = Some (client_of t q)" for q by (simp add: client_of_eq pid_get_pcb_eq)
  show ?thesis
  proof (cases "\<exists>d. client_of t (cl_parentPID c) = Some d \<and> cl_parentWaiting d \<and> cl_faultReply d \<noteq> 0")
    case False
    with t c g show ?thesis by (auto simp: proc_parent_reply_def split: option.splits)
  next
    case True
    then obtain d where d: "client_of t (cl_parentPID c) = Some d" "cl_parentWaiting d" "cl_faultReply d \<noteq> 0" by blast
    let ?t = "log_calls [Reply_Status (cl_faultReply d) (cl_exitStatus c), Cap_Delete (cl_faultReply d)] t"
    have dt: "client_of ?t (cl_parentPID c) = Some d" using d(1) by simp
    from stays_upd [OF stays_log [OF t] dt, of "\<lambda>c. c\<lparr>cl_faultReply := 0\<rparr>"] stays_client(1) [OF t d(1)] obtain u where
      u: "upd_client (cl_parentPID c) (\<lambda>c. c\<lparr>cl_faultReply := 0\<rparr>) ?t = Some u" "stays pid s u"
        "client_of u = (client_of t)(cl_parentPID c \<mapsto> d\<lparr>cl_faultReply := 0\<rparr>)"
      by (auto simp: keeps_def core_def proc_ok_def)
    have "map_option cl_parentPID (client_of u q) = map_option cl_parentPID (client_of t q)" for q
      unfolding u(3) using d(1) by simp
    with u d c g show ?thesis by (simp add: proc_parent_reply_def)
  qed
qed

section \<open>Releasing a process\<close>

lemma stays_dropped:
  assumes t: "stays pid s t" and c: "client_of t pid = Some c" and u: "ms_inv u" "client_of u = (client_of t)(pid \<mapsto> c')"
      "same_objects t u" "ms_windows u = ms_windows t" "same_rest t u"
    and c': "keeps c c'" "proc_ok c'"
    and h: "\<And>h. h \<noteq> Param pid \<Longrightarrow> h \<noteq> Notif pid \<Longrightarrow> holds u h = holds t h"
  shows "stays pid s u"
proof -
  have r: "ms_frames u = ms_frames t" "ms_pdlist u = ms_pdlist t" "ms_exitProcessPID u = ms_exitProcessPID t"
    using u(5) by (simp_all add: same_rest_def)
  have "procs_ok t" using t by (simp add: stays_def)
  then have "procs_ok u"
    by (rule procs_ok_upd [OF _ c c'(2) _ u(2) r(1,2)]) (use c'(1) in \<open>simp add: keeps_def core_def\<close>)
  moreover have "ms_dspaces u x = None \<longleftrightarrow> ms_dspaces t x = None" for x
    using u(3) unfolding same_objects_def by (metis option.map_disc_iff)
  moreover have "rel_option keeps (client_of t q) (client_of u q)" for q
    unfolding u(2) using c c'(1) by (simp add: option.rel_refl keeps_refl)
  ultimately have "stays pid t u" unfolding stays_def using u(1,4) h r by blast
  with stays_trans [OF t] show ?thesis by blast
qed

lemma drop_parambuffer:
  assumes t: "stays pid s t" and c: "client_of t pid = Some c"
  shows "\<exists>u. (case cl_paramBuffer c of
             None \<Rightarrow> Some t
           | Some da \<Rightarrow> do {
               d \<leftarrow> ms_dspaces t da;
               s \<leftarrow> ram_dspace_unref env (int (ds_ID d)) t;
               upd_client pid (\<lambda>c. c\<lparr>cl_paramBuffer := None\<rparr>) s
             }) = Some u \<and> stays pid s u \<and> client_of u = (client_of t)(pid \<mapsto> c\<lparr>cl_paramBuffer := None\<rparr>)"
proof (cases "cl_paramBuffer c")
  case None
  then have "c\<lparr>cl_paramBuffer := None\<rparr> = c" by simp
  with None t c show ?thesis by (simp add: fun_upd_idem)
next
  case (Some da)
  let ?f = "\<lambda>c. c\<lparr>cl_paramBuffer := None\<rparr>"
  have it: "ms_inv t" using t by (simp add: stays_def)
  have h: "holds t (Param pid) = Some da" using c Some by simp
  have "(holds t)(Param pid := None, Notif pid := map_option fst (cl_notificationBuffer c)) = (holds t)(Param pid := None)"
    using c by (auto simp: fun_eq_iff)
  with drop_buffer [OF it c h, of ?f env] obtain d u where
    u: "ms_dspaces t da = Some d" "(do { t \<leftarrow> ram_dspace_unref env (int (ds_ID d)) t; upd_client pid ?f t }) = Some u"
      "ms_inv u" "holds u = (holds t)(Param pid := None)" "client_of u = (client_of t)(pid \<mapsto> ?f c)" "same_objects t u"
      "ms_windows u = ms_windows t" "same_rest t u" by auto
  have "stays pid s u"
    by (rule stays_dropped [OF t c u(3,5-8)]) (use stays_client(1) [OF t c] u(4) in \<open>simp_all add: keeps_def core_def proc_ok_def\<close>)
  with Some u show ?thesis by simp
qed

lemma drop_notificationbuffer:
  assumes t: "stays pid s t" and c: "client_of t pid = Some c"
  shows "\<exists>u. (case cl_notificationBuffer c of
             None \<Rightarrow> Some t
           | Some rb \<Rightarrow> do {
               s \<leftarrow> rb_delete env rb t;
               upd_client pid (\<lambda>c. c\<lparr>cl_notificationBuffer := None\<rparr>) s
             }) = Some u \<and> stays pid s u \<and> client_of u = (client_of t)(pid \<mapsto> c\<lparr>cl_notificationBuffer := None\<rparr>)"
proof (cases "cl_notificationBuffer c")
  case None
  then have "c\<lparr>cl_notificationBuffer := None\<rparr> = c" by simp
  with None t c show ?thesis by (simp add: fun_upd_idem)
next
  case (Some rb)
  have it: "ms_inv t" using t by (simp add: stays_def)
  from clear_notification [OF it c Some, of env] obtain a u where
    u: "rb_delete env rb t = Some a" "upd_client pid (\<lambda>c. c\<lparr>cl_notificationBuffer := None\<rparr>) a = Some u"
    "ms_inv u" "holds u = (holds t)(Notif pid := None)"
    "client_of u = (client_of t)(pid \<mapsto> c\<lparr>cl_notificationBuffer := None\<rparr>)" "same_objects t u"
    "ms_windows u = ms_windows t" "same_rest t u" by blast
  have "stays pid s u"
    by (rule stays_dropped [OF t c u(3,5-8)]) (use stays_client(1) [OF t c] u(4) in \<open>simp_all add: keeps_def core_def proc_ok_def\<close>)
  with Some u show ?thesis by simp
qed

text \<open>The steps of \<open>proc_release\<close> before the address space is dropped.\<close>

definition release_front :: "penv \<Rightarrow> nat \<Rightarrow> memserv \<Rightarrow> memserv option" where
  "release_front env pid s = do {
     p \<leftarrow> client_of s pid;
     s \<leftarrow> pid_iterate ms_pids (client_watch_notify_death_callback env pid) s;
     s \<leftarrow> pid_iterate ms_pids (proc_purge_pid_callback pid) s;
     p \<leftarrow> client_of s pid;
     s \<leftarrow> (if cl_parentPID p \<noteq> PID_NULL then proc_parent_reply pid s else Some s);
     p \<leftarrow> client_of s pid;
     s \<leftarrow> (case cl_paramBuffer p of
             None \<Rightarrow> Some s
           | Some da \<Rightarrow> do {
               d \<leftarrow> ms_dspaces s da;
               s \<leftarrow> ram_dspace_unref (pe_mem env) (int (ds_ID d)) s;
               upd_client pid (\<lambda>c. c\<lparr>cl_paramBuffer := None\<rparr>) s
             });
     p \<leftarrow> client_of s pid;
     s \<leftarrow> (case cl_notificationBuffer p of
             None \<Rightarrow> Some s
           | Some rb \<Rightarrow> do {
               s \<leftarrow> rb_delete (pe_mem env) rb s;
               upd_client pid (\<lambda>c. c\<lparr>cl_notificationBuffer := None\<rparr>) s
             });
     p \<leftarrow> client_of s pid;
     if cl_faultReply p \<noteq> 0
     then upd_client pid (\<lambda>c. c\<lparr>cl_faultReply := 0\<rparr>) (log_calls [Cap_Delete (cl_faultReply p)] s)
     else Some s
   }"

lemma proc_release_front:
  "proc_release env pid s = do {
     s \<leftarrow> release_front env pid s;
     s \<leftarrow> vs_unref env pid s;
     p \<leftarrow> client_of s pid;
     s \<leftarrow> for_each [0..<cvector_count (cl_threads p)] (\<lambda>i s. do {
       p \<leftarrow> client_of s pid;
       thread \<leftarrow> cvector_get (cl_threads p) i;
       thread_release env pid thread s
     }) s;
     upd_client pid (\<lambda>c. c\<lparr>cl_threads := cvector_free (cl_threads c), cl_mask := 0\<rparr>) s
   }"
  by (simp only: proc_release_def release_front_def Option.bind_assoc)

lemma release_front_spec:
  assumes inv: "ms_inv s" "procs_ok s" and c: "client_of s pid = Some c" and heap: "en_heap (pe_mem env) = heap_ok"
  shows "\<exists>t d. release_front env pid s = Some t \<and> stays pid s t \<and> client_of t pid = Some d \<and>
    cl_paramBuffer d = None \<and> cl_notificationBuffer d = None \<and>
    (\<forall>q e. q \<noteq> pid \<longrightarrow> client_of t q = Some e \<longrightarrow> cl_parentPID e \<noteq> pid)"
proof -
  have alive: "\<exists>d. client_of t pid = Some d" if "stays pid s t" for t
  proof -
    have "rel_option keeps (Some c) (client_of t pid)" using that c unfolding stays_def by metis
    then show ?thesis by (cases "client_of t pid") simp_all
  qed
  have pid: "pid \<noteq> PID_NULL" using c by (auto simp: client_of_def pid_get_pcb_def PID_START_def PID_NULL_def split: if_splits)
  from iterate_stays [where f = "client_watch_notify_death_callback env pid", OF stays_refl [OF inv]] death_callback_spec [OF _ _ heap]
  obtain s1 where s1: "pid_iterate ms_pids (client_watch_notify_death_callback env pid) s = Some s1" "stays pid s s1" by blast
  from purge_callbacks_spec [OF s1(2) pid] obtain s2 where
    s2: "pid_iterate ms_pids (proc_purge_pid_callback pid) s1 = Some s2" "stays pid s s2"
      "\<forall>q c. q \<noteq> pid \<longrightarrow> client_of s2 q = Some c \<longrightarrow> cl_parentPID c \<noteq> pid" by blast
  from alive [OF s2(2)] obtain c2 where c2: "client_of s2 pid = Some c2" by blast
  obtain s3 where s3: "(if cl_parentPID c2 \<noteq> PID_NULL then proc_parent_reply pid s2 else Some s2) = Some s3" "stays pid s s3"
    "\<forall>q. map_option cl_parentPID (client_of s3 q) = map_option cl_parentPID (client_of s2 q)"
    using parent_reply_spec [OF s2(2) c2] s2(2) by (cases "cl_parentPID c2 \<noteq> PID_NULL") auto
  from alive [OF s3(2)] obtain c3 where c3: "client_of s3 pid = Some c3" by blast
  from drop_parambuffer [OF s3(2) c3, of "pe_mem env"] obtain s4 where
    s4: "(case cl_paramBuffer c3 of None \<Rightarrow> Some s3 | Some da \<Rightarrow> do {
               d \<leftarrow> ms_dspaces s3 da;
               s \<leftarrow> ram_dspace_unref (pe_mem env) (int (ds_ID d)) s3;
               upd_client pid (\<lambda>c. c\<lparr>cl_paramBuffer := None\<rparr>) s }) = Some s4" "stays pid s s4"
      "client_of s4 = (client_of s3)(pid \<mapsto> c3\<lparr>cl_paramBuffer := None\<rparr>)" by blast
  let ?c4 = "c3\<lparr>cl_paramBuffer := None\<rparr>"
  have c4: "client_of s4 pid = Some ?c4" by (simp add: s4(3))
  from drop_notificationbuffer [OF s4(2) c4, of "pe_mem env"] obtain s5 where
    s5: "(case cl_notificationBuffer ?c4 of None \<Rightarrow> Some s4 | Some rb \<Rightarrow> do {
               s \<leftarrow> rb_delete (pe_mem env) rb s4;
               upd_client pid (\<lambda>c. c\<lparr>cl_notificationBuffer := None\<rparr>) s }) = Some s5" "stays pid s s5"
      "client_of s5 = (client_of s4)(pid \<mapsto> ?c4\<lparr>cl_notificationBuffer := None\<rparr>)" by blast
  let ?c5 = "?c4\<lparr>cl_notificationBuffer := None\<rparr>"
  have c5: "client_of s5 pid = Some ?c5" by (simp add: s5(3))
  have st: "stays pid s (log_calls [Cap_Delete (cl_faultReply ?c5)] s5)" by (rule stays_log [OF s5(2)])
  have c5': "client_of (log_calls [Cap_Delete (cl_faultReply ?c5)] s5) pid = Some ?c5" using c5 by simp
  obtain s6 d where s6: "(if cl_faultReply ?c5 \<noteq> 0
     then upd_client pid (\<lambda>c. c\<lparr>cl_faultReply := 0\<rparr>) (log_calls [Cap_Delete (cl_faultReply ?c5)] s5)
     else Some s5) = Some s6" "stays pid s s6" "client_of s6 = (client_of s5)(pid \<mapsto> d)" "cl_paramBuffer d = None" "cl_notificationBuffer d = None"
  proof (cases "cl_faultReply ?c5 = 0")
    case True
    with s5(2) c5 show thesis by (intro that [of s5 ?c5]) (simp_all add: fun_upd_idem)
  next
    case False
    from stays_upd [OF st c5', of "\<lambda>c. c\<lparr>cl_faultReply := 0\<rparr>"] stays_client(1) [OF s5(2) c5] obtain u where
      "upd_client pid (\<lambda>c. c\<lparr>cl_faultReply := 0\<rparr>) (log_calls [Cap_Delete (cl_faultReply ?c5)] s5) = Some u" "stays pid s u"
      "client_of u = (client_of s5)(pid \<mapsto> ?c5\<lparr>cl_faultReply := 0\<rparr>)" by (auto simp: keeps_def core_def proc_ok_def)
    with False show thesis by (intro that [of u "?c5\<lparr>cl_faultReply := 0\<rparr>"]) simp_all
  qed
  have run: "release_front env pid s = Some s6"
    using c s1(1) s2(1) c2 s3(1) c3 s4(1) c4 s5(1) c5 s6(1) by (simp add: release_front_def)
  have "cl_parentPID e \<noteq> pid" if "q \<noteq> pid" "client_of s6 q = Some e" for q e
  proof -
    have "client_of s3 q = Some e" using that unfolding s6(3) s5(3) s4(3) by simp
    with s3(3) s2(3) that(1) show ?thesis by (metis map_option_eq_Some)
  qed
  with run s6 show ?thesis by (intro exI [of _ s6] exI [of _ d]) simp
qed

lemma proc_release_spec:
  assumes inv: "ms_inv s" "procs_ok s" and c: "client_of s pid = Some c" and heap: "en_heap (pe_mem env) = heap_ok"
    and cn: "pe_cnode env = Some x" "x \<noteq> 0" and k: "k \<in> pd_live (ms_pdlist s)" "cl_kpd c = pd_pd (ms_pdlist s) ! k"
  shows "\<exists>t u d. proc_release env pid s = Some u \<and> stays pid s t \<and>
    torn_down pid (aw_winID ` set (wins (cl_windows c))) k t u \<and>
    client_of u pid = Some d \<and> cl_paramBuffer d = None \<and> cl_notificationBuffer d = None \<and>
    (\<forall>q e. q \<noteq> pid \<longrightarrow> client_of t q = Some e \<longrightarrow> cl_parentPID e \<noteq> pid)"
proof -
  from release_front_spec [OF inv c heap] obtain t d where
    t: "release_front env pid s = Some t" "stays pid s t" "client_of t pid = Some d" "cl_paramBuffer d = None"
      "cl_notificationBuffer d = None" "\<forall>q e. q \<noteq> pid \<longrightarrow> client_of t q = Some e \<longrightarrow> cl_parentPID e \<noteq> pid" by blast
  have ok: "proc_ok d" by (rule stays_client(1) [OF t(2,3)])
  have "keeps c d" using stays_client(2) [OF t(2,3)] c by simp
  then have e: "cl_windows d = cl_windows c" "cl_kpd d = cl_kpd c" by (simp_all add: keeps_def core_def)
  have it: "ms_inv t" "procs_ok t" "ms_pdlist t = ms_pdlist s" using t(2) by (simp_all add: stays_def)
  have pd: "pd_inv (ms_pdlist t)" "k \<in> pd_live (ms_pdlist t)" "cl_kpd d = pd_pd (ms_pdlist t) ! k"
    using it(2,3) k e(2) by (simp_all add: procs_ok_def)
  let ?n = "cvector_count (cl_threads d)"
  have n: "cl_ref d = Suc ?n" "Suc ?n < 2 ^ 32" "cv_inv (cl_threads d)" "cv_inv (cl_kobjs d)" using ok by (simp_all add: proc_ok_def)
  have "d\<lparr>cl_ref := Suc ?n\<rparr> = d" unfolding n(1) [symmetric] by simp
  then have "refs_left pid d k (Suc ?n) t t" using it(1) t(3) by (simp add: refs_left_def fun_upd_idem)
  from vs_unref_spec [OF this n(2) t(3) n(4) heap cn pd, of "[]"] obtain a where
    a: "vs_unref env pid t = Some a" "refs_left pid d k ?n t a" by (auto simp: log_calls_def)
  have ca: "\<exists>d'. client_of a pid = Some d' \<and> cl_threads d' = cl_threads d"
    using a(2) by (auto simp: refs_left_def zero_vspace_def split: if_splits)
  from release_threads_loop [OF a(2) _ n(3) t(3) n(4) heap cn pd] n(2) obtain b where
    b: "for_each [0..<?n] (\<lambda>i s. do {
       p \<leftarrow> client_of s pid;
       thread \<leftarrow> cvector_get (cl_threads p) i;
       thread_release env pid thread s
     }) a = Some b" "refs_left pid d k 0 t b" by auto
  have td: "torn_down pid (aw_winID ` set (wins (cl_windows c))) k t b" "client_of b pid = Some (zero_vspace d)"
    using b(2) e(1) by (simp_all add: refs_left_def)
  let ?f = "\<lambda>c. c\<lparr>cl_threads := cvector_free (cl_threads c), cl_mask := 0\<rparr>"
  have "ms_inv_sans pid b" using td(1) by (simp add: torn_down_def)
  from sans_upd [OF this td(2), of ?f] obtain p where
    p: "upd_client pid ?f b = Some (b\<lparr>ms_pids := p\<rparr>)" "ms_inv_sans pid (b\<lparr>ms_pids := p\<rparr>)"
      "client_of (b\<lparr>ms_pids := p\<rparr>) = (client_of b)(pid \<mapsto> ?f (zero_vspace d))" by auto
  have "proc_release env pid s = Some (b\<lparr>ms_pids := p\<rparr>)"
    using t(1) a(1) ca b(1) p(1) by (auto simp: proc_release_front)
  moreover have "torn_down pid (aw_winID ` set (wins (cl_windows c))) k t (b\<lparr>ms_pids := p\<rparr>)"
    using td(1) p(2) unfolding torn_down_def p(3) by simp
  moreover have "client_of (b\<lparr>ms_pids := p\<rparr>) pid = Some (?f (zero_vspace d))" by (simp add: p(3))
  ultimately show ?thesis using t(2,4-6)
    by (intro exI [of _ t] exI [of _ "b\<lparr>ms_pids := p\<rparr>"] exI [of _ "?f (zero_vspace d)"]) (simp add: zero_vspace_def)
qed

lemma free_pid_inv:
  assumes inv: "ms_inv_sans pid u" and c: "client_of u pid = Some d" "cl_paramBuffer d = None" "cl_notificationBuffer d = None"
  shows "\<exists>l. pid_free heap_ok (ms_pids u) pid = Some l \<and> ms_inv (u\<lparr>ms_pids := l\<rparr>) \<and> holds (u\<lparr>ms_pids := l\<rparr>) = holds u \<and>
    client_of (u\<lparr>ms_pids := l\<rparr>) = (client_of u)(pid := None)"
proof -
  have pi: "pid_inv (ms_pids u)" using inv by (simp add: ms_inv_sans_def)
  have "pid_pcb (ms_pids u) pid \<noteq> None" using c(1) pi by (simp add: client_of_eq)
  from pid_free_spec [OF pi this] obtain l where
    l: "pid_free heap_ok (ms_pids u) pid = Some l" "pid_inv l" "\<forall>j. pid_pcb l j = (if j = pid then None else pid_pcb (ms_pids u) j)" by blast
  have cl: "client_of (u\<lparr>ms_pids := l\<rparr>) = (client_of u)(pid := None)"
    using l(2,3) pi by (auto simp: client_of_eq fun_eq_iff)
  have h: "holds (u\<lparr>ms_pids := l\<rparr>) = holds u"
    by (rule ext, case_tac x) (use c in \<open>auto simp: cl\<close>)
  have "ms_inv (u\<lparr>ms_pids := l\<rparr>)" using inv l(2) unfolding ms_inv_sans_def ms_inv_def h cl by simp
  with l(1) cl h show ?thesis by blast
qed

lemma torn_down_procs:
  assumes t: "procs_ok t" and td: "torn_down pid I k t u" and c: "client_of t pid = Some c" "cl_kpd c = pd_pd (ms_pdlist t) ! k"
    and v: "client_of v = (client_of u)(pid := None)" "ms_frames v = ms_frames u" "ms_pdlist v = ms_pdlist u"
  shows "procs_ok v"
proof -
  have u: "\<And>q. q \<noteq> pid \<Longrightarrow> like_client (client_of t q) (client_of u q)" "ms_frames u = ms_frames t" "pd_inv (ms_pdlist u)"
    "pd_live (ms_pdlist u) = pd_live (ms_pdlist t) - {k}" "pd_pd (ms_pdlist u) = pd_pd (ms_pdlist t)"
    using td by (simp_all add: torn_down_def)
  have old: "\<exists>d ws ps. client_of t q = Some d \<and> e = d\<lparr>cl_windows := ws, cl_pages := ps\<rparr>" "q \<noteq> pid" if e: "client_of v q = Some e" for q e
  proof -
    show q: "q \<noteq> pid" using e by (auto simp: v(1))
    then have eu: "client_of u q = Some e" using e by (simp add: v(1))
    with like_client_None [OF u(1) [OF q]] obtain d where d: "client_of t q = Some d" by auto
    show "\<exists>d ws ps. client_of t q = Some d \<and> e = d\<lparr>cl_windows := ws, cl_pages := ps\<rparr>"
      by (rule like_client_E [OF u(1) [OF q, unfolded d]]) (use eu d in auto)
  qed
  have "proc_ok e" if e: "client_of v q = Some e" for q e
  proof -
    from old(1) [OF e] obtain d ws ps where d: "client_of t q = Some d" "e = d\<lparr>cl_windows := ws, cl_pages := ps\<rparr>" by blast
    from d(1) t have "proc_ok d" by (simp add: procs_ok_def)
    then show ?thesis unfolding d(2) proc_ok_def by simp
  qed
  moreover have kp: "\<exists>d. client_of t q = Some d \<and> cl_kpd d = cl_kpd e" if "client_of v q = Some e" for q e
    using old(1) [OF that] by auto
  moreover have "\<exists>j \<in> pd_live (ms_pdlist t) - {k}. cl_kpd e = pd_pd (ms_pdlist t) ! j" if e: "client_of v q = Some e" for q e
  proof -
    from kp [OF e] obtain d where d: "client_of t q = Some d" "cl_kpd d = cl_kpd e" by blast
    then obtain j where "j \<in> pd_live (ms_pdlist t)" "cl_kpd e = pd_pd (ms_pdlist t) ! j" using t unfolding procs_ok_def by metis
    moreover have "cl_kpd e \<noteq> cl_kpd c" using t d c(1) old(2) [OF e] unfolding procs_ok_def by metis
    ultimately show ?thesis using c(2) by auto
  qed
  moreover have "p = q" if "client_of v p = Some d" "client_of v q = Some e" "cl_kpd d = cl_kpd e" for p q d e
    using kp [OF that(1)] kp [OF that(2)] that(3) t unfolding procs_ok_def by metis
  moreover have "frames_ok (ms_frames t)" using t by (simp add: procs_ok_def)
  ultimately show ?thesis unfolding procs_ok_def v(2,3) u(2,4,5) using u(3) by blast
qed

lemma torn_down_holds:
  assumes td: "torn_down pid I k t u"
  shows "holds u (Win wa) = (if ms_windows u wa = None then None else holds t (Win wa))"
    "q \<noteq> pid \<Longrightarrow> holds u (Param q) = holds t (Param q)" "q \<noteq> pid \<Longrightarrow> holds u (Notif q) = holds t (Notif q)"
proof -
  have "ms_windows u wa = None \<or> ms_windows u wa = ms_windows t wa"
    using td by (auto simp: torn_down_def split: option.splits)
  then show "holds u (Win wa) = (if ms_windows u wa = None then None else holds t (Win wa))" by auto
  assume "q \<noteq> pid"
  then have like: "like_client (client_of t q) (client_of u q)" using td by (simp add: torn_down_def)
  have "holds u (Param q) = holds t (Param q) \<and> holds u (Notif q) = holds t (Notif q)"
  proof (cases "client_of t q")
    case None
    with like_client_None [OF like] show ?thesis by simp
  next
    case (Some d)
    from like_client_E [OF like [unfolded Some]] obtain ws ps where
      "client_of u q = Some (d\<lparr>cl_windows := ws, cl_pages := ps\<rparr>)" by blast
    with Some show ?thesis by simp
  qed
  then show "holds u (Param q) = holds t (Param q)" "holds u (Notif q) = holds t (Notif q)" by simp_all
qed

text \<open>
  When a process has asked to exit, the action after its system call completes: every assertion
  on the way holds and no freed object is read.  Afterwards the process is gone, every window it listed is gone
  from the window table and no other, its references to dataspaces are dropped, no dataspace is deleted, the other
  processes are still there and none of them has it as its parent, its page directory is back in the pool, and the
  invariants of the memory server and of the processes hold again.
\<close>

lemma process_exit:
  assumes inv: "ms_inv s" "procs_ok s" and exit: "ms_exitProcessPID s = pid" and c: "client_of s pid = Some c"
    and heap: "en_heap (pe_mem env) = heap_ok" and cn: "pe_cnode env = Some x" "x \<noteq> 0"
  shows "\<exists>v k. proc_syscall_postaction env s = Some v \<and> ms_inv v \<and> procs_ok v \<and> ms_exitProcessPID v = PID_NULL \<and>
    (\<forall>q. client_of v q = None \<longleftrightarrow> q = pid \<or> client_of s q = None) \<and>
    (\<forall>wa. ms_windows v wa = (case ms_windows s wa of None \<Rightarrow> None
       | Some w \<Rightarrow> if w_wID w \<in> aw_winID ` set (wins (cl_windows c)) then None else Some w)) \<and>
    (\<forall>h. holds v h = (if h = Param pid \<or> h = Notif pid \<or> (\<exists>wa. h = Win wa \<and> ms_windows v wa = None) then None else holds s h)) \<and>
    (\<forall>da. ms_dspaces v da = None \<longleftrightarrow> ms_dspaces s da = None) \<and>
    (\<forall>q d. client_of v q = Some d \<longrightarrow> cl_parentPID d \<noteq> pid) \<and>
    k \<in> pd_live (ms_pdlist s) \<and> cl_kpd c = pd_pd (ms_pdlist s) ! k \<and>
    pd_live (ms_pdlist v) = pd_live (ms_pdlist s) - {k}"
proof -
  from inv(2) c obtain k where k: "k \<in> pd_live (ms_pdlist s)" "cl_kpd c = pd_pd (ms_pdlist s) ! k"
    unfolding procs_ok_def by metis
  from proc_release_spec [OF inv c heap cn k] obtain t u d where
    r: "proc_release env pid s = Some u" "stays pid s t" "torn_down pid (aw_winID ` set (wins (cl_windows c))) k t u"
      "client_of u pid = Some d" "cl_paramBuffer d = None" "cl_notificationBuffer d = None"
      "\<forall>q e. q \<noteq> pid \<longrightarrow> client_of t q = Some e \<longrightarrow> cl_parentPID e \<noteq> pid" by blast
  have "ms_inv_sans pid u" using r(3) by (simp add: torn_down_def)
  from free_pid_inv [OF this r(4-6)] obtain l where
    l: "pid_free heap_ok (ms_pids u) pid = Some l" "ms_inv (u\<lparr>ms_pids := l\<rparr>)" "holds (u\<lparr>ms_pids := l\<rparr>) = holds u"
      "client_of (u\<lparr>ms_pids := l\<rparr>) = (client_of u)(pid := None)" by blast
  let ?v = "u\<lparr>ms_pids := l, ms_exitProcessPID := PID_NULL\<rparr>"
  have cv: "client_of ?v = (client_of u)(pid := None)" "holds ?v = holds u" using l(3,4) by simp_all
  have pid: "pid \<noteq> PID_NULL" using c by (auto simp: client_of_def pid_get_pcb_def PID_START_def PID_NULL_def split: if_splits)
  have "pid_get_pcb (ms_pids s) pid = Some (Some c)"
    using inv(1) c by (simp add: ms_inv_def client_of_eq pid_get_pcb_eq)
  then have run: "proc_syscall_postaction env s = Some ?v"
    using exit pid r(1) l(1) heap by (simp add: proc_syscall_postaction_def)
  have t: "procs_ok t" "ms_pdlist t = ms_pdlist s" "ms_windows t = ms_windows s"
    "\<And>q. rel_option keeps (client_of s q) (client_of t q)"
    "\<And>h. h \<noteq> Param pid \<Longrightarrow> h \<noteq> Notif pid \<Longrightarrow> holds t h = holds s h"
    "\<And>x. ms_dspaces t x = None \<longleftrightarrow> ms_dspaces s x = None" using r(2) by (simp_all add: stays_def)
  have u: "\<And>q. q \<noteq> pid \<Longrightarrow> like_client (client_of t q) (client_of u q)"
    "\<And>x. map_option (ds_ref_update (\<lambda>_. 0)) (ms_dspaces u x) = map_option (ds_ref_update (\<lambda>_. 0)) (ms_dspaces t x)"
    "pd_live (ms_pdlist u) = pd_live (ms_pdlist t) - {k}"
    "\<And>wa. ms_windows u wa = (case ms_windows t wa of None \<Rightarrow> None
       | Some w \<Rightarrow> if w_wID w \<in> aw_winID ` set (wins (cl_windows c)) then None else Some w)" using r(3) by (simp_all add: torn_down_def)
  have tn: "client_of t q = None \<longleftrightarrow> client_of s q = None" for q
    using t(4) [of q] by (cases "client_of s q"; cases "client_of t q") simp_all
  obtain e where e: "client_of t pid = Some e" using tn [of pid] c by (cases "client_of t pid") auto
  have ke: "cl_kpd e = pd_pd (ms_pdlist t) ! k" using stays_client(2) [OF r(2) e] c k(2) t(2) by (simp add: keeps_def core_def)
  have "ms_inv ?v" using l(2) by simp
  moreover have "procs_ok ?v" by (rule torn_down_procs [OF t(1) r(3) e ke cv(1)]) simp_all
  moreover have "client_of ?v q = None \<longleftrightarrow> q = pid \<or> client_of s q = None" for q
    using like_client_None [OF u(1) [of q]] tn [of q] unfolding cv(1) by auto
  moreover have "ms_dspaces ?v x = None \<longleftrightarrow> ms_dspaces s x = None" for x
    using u(2) [of x] t(6) [of x] by (simp, metis option.map_disc_iff)
  moreover have "cl_parentPID f \<noteq> pid" if "client_of ?v q = Some f" for q f
  proof -
    from that have q: "q \<noteq> pid" "client_of u q = Some f" unfolding cv(1) by (auto split: if_splits)
    with like_client_None [OF u(1) [OF q(1)]] obtain g where g: "client_of t q = Some g" by auto
    from like_client_E [OF u(1) [OF q(1), unfolded g]] obtain ws ps where
      "client_of u q = Some (g\<lparr>cl_windows := ws, cl_pages := ps\<rparr>)" by blast
    with q(2) have "cl_parentPID f = cl_parentPID g" by auto
    with r(7) q(1) g show ?thesis by metis
  qed
  moreover have "holds ?v h = (if h = Param pid \<or> h = Notif pid \<or> (\<exists>wa. h = Win wa \<and> ms_windows ?v wa = None) then None else holds s h)" for h
  proof (cases h)
    case (Win wa)
    with torn_down_holds(1) [OF r(3), of wa] t(5) [of h] show ?thesis unfolding cv(2) by simp
  next
    case (Param q)
    with torn_down_holds(2) [OF r(3), of q] t(5) [of h] r(4,5) show ?thesis unfolding cv(2) by auto
  next
    case (Notif q)
    with torn_down_holds(3) [OF r(3), of q] t(5) [of h] r(4,6) show ?thesis unfolding cv(2) by auto
  qed
  moreover have "ms_windows ?v wa = (case ms_windows s wa of None \<Rightarrow> None
       | Some w \<Rightarrow> if w_wID w \<in> aw_winID ` set (wins (cl_windows c)) then None else Some w)" for wa
    using u(4) [of wa] unfolding t(3) by simp
  moreover have "pd_live (ms_pdlist ?v) = pd_live (ms_pdlist s) - {k}" using u(3) t(2) by simp
  ultimately show ?thesis using run k by (intro exI [of _ ?v] exI [of _ k]) simp
qed

definition demo_penv :: penv where
  "demo_penv = \<lparr>pe_mem = demo_env, pe_elf = 32768, pe_elf_pages = Map.empty, pe_thread = True, pe_tcb = 93,
     pe_thread_pages = Map.empty, pe_mint = True, pe_self = True, pe_vspace = True, pe_start = True, pe_prio = True,
     pe_cnode = Some 3000, pe_endpoint = 5, pe_junk = [0, 0, 0, 0, 0, 0]\<rparr>"

lemma demo_procs: "procs_ok demo_ms"
proof -
  let ?l = "ms_pdlist demo_ms"
  have "cp_inv (pd_pool ?l)" "cp_live (pd_pool ?l) = {1}"
    by (auto simp: demo_ms_def cp_defs)
  then have pd: "pd_inv ?l" "pd_live ?l = {0}"
    by (auto simp: pd_inv_def pd_live_def demo_ms_def cp_range_def PD_MAX_def)
  have "pd_pd ?l ! 0 = 1000" by (simp add: demo_ms_def)
  moreover have "cl_kpd demo_client = 1000" by (simp add: demo_client_def)
  moreover have "frames_ok (ms_frames demo_ms)" by (simp add: demo_ms_def frames_ok_def REFOS_PAGE_SIZE_def)
  moreover have "proc_ok demo_client"
    using client_watch_init_inv(1) by (simp add: proc_ok_def demo_client_def cv_defs cvector_init_def cvector_count_def)
  ultimately show ?thesis using pd by (simp add: procs_ok_def demo_pids)
qed

end
