(* ===== verification/Chash.thy ===== *)
theory Chash
  imports Cvector
begin

text \<open>
  \<open>libdatastruct/src/chash.c\<close>: a hash table from 32-bit keys to items, with chaining in one vector
  per bucket.  An entry \<open>chash_entry_t\<close> is the pair of its key and its item; the table owns its
  entries, so they are kept in the vector by value.  The hash is the one of the code, on the four
  bytes of the key in memory order (little endian, \<open>char\<close> unsigned, as on the ARM targets).
\<close>

unbundle bit_operations_syntax

section \<open>Model\<close>

record 'a chash =
  ch_table :: "(nat \<times> 'a) cvector list"
  ch_tableSize :: nat

definition C_ENOMEM :: int where
  "C_ENOMEM = 12"

fun dek_loop :: "32 word \<Rightarrow> nat list \<Rightarrow> 32 word" where
  "dek_loop hash [] = hash"
| "dek_loop hash (c # cs) =
     dek_loop ((push_bit 5 hash XOR drop_bit 27 hash) XOR word_of_nat c) cs"

definition DEKHash :: "nat list \<Rightarrow> nat \<Rightarrow> 32 word" where
  "DEKHash str len = dek_loop (word_of_nat len) (take len str)"

definition key_bytes :: "nat \<Rightarrow> nat list" where
  "key_bytes key =
     [key mod 256, key div 2 ^ 8 mod 256, key div 2 ^ 16 mod 256, key div 2 ^ 24 mod 256]"

text \<open>A remainder by 0 traps.\<close>

definition chash_hash :: "nat \<Rightarrow> nat \<Rightarrow> nat option" where
  "chash_hash key md =
     do {
       c_assert (md \<noteq> 0);
       Some (unat (DEKHash (key_bytes key) 4) mod md)
     }"

definition chash_init :: "(nat \<Rightarrow> bool) \<Rightarrow> nat \<Rightarrow> 'a chash option" where
  "chash_init mem sz =
     do {
       c_assert (mem (16 * sz));
       Some \<lparr>ch_table = replicate sz cvector_init, ch_tableSize = sz\<rparr>
     }"

definition chash_release :: "'a chash \<Rightarrow> 'a chash" where
  "chash_release t = \<lparr>ch_table = [], ch_tableSize = 0\<rparr>"

text \<open>The index of the entry with the key in bucket \<open>h\<close>, if there is one.\<close>

definition chash_get_entry :: "'a chash \<Rightarrow> nat \<Rightarrow> nat \<Rightarrow> nat option option" where
  "chash_get_entry t h key =
     do {
       v \<leftarrow> rd (ch_table t) h;
       for_find (cvector_get v) (\<lambda>entry. fst entry = key) 0 (cvector_count v)
     }"

definition chash_get :: "'a chash \<Rightarrow> nat \<Rightarrow> 'a option option" where
  "chash_get t key =
     do {
       h \<leftarrow> chash_hash key (ch_tableSize t);
       c_assert (h < ch_tableSize t);
       entry \<leftarrow> chash_get_entry t h key;
       (case entry of
          None \<Rightarrow> Some None
        | Some i \<Rightarrow> do {
            v \<leftarrow> rd (ch_table t) h;
            e \<leftarrow> cvector_get v i;
            Some (Some (snd e))
          })
     }"

text \<open>\<open>entry_mem\<close>: whether the heap serves the new entry.\<close>

definition chash_set ::
  "(nat \<Rightarrow> bool) \<Rightarrow> bool \<Rightarrow> 'a chash \<Rightarrow> nat \<Rightarrow> 'a \<Rightarrow> ('a chash \<times> int) option" where
  "chash_set mem entry_mem t key obj =
     do {
       h \<leftarrow> chash_hash key (ch_tableSize t);
       c_assert (h < ch_tableSize t);
       entry \<leftarrow> chash_get_entry t h key;
       v \<leftarrow> rd (ch_table t) h;
       (case entry of
          Some i \<Rightarrow> do {
            v' \<leftarrow> cvector_set v i (key, obj);
            tb \<leftarrow> wr (ch_table t) h v';
            Some (t\<lparr>ch_table := tb\<rparr>, 0)
          }
        | None \<Rightarrow>
            if \<not> entry_mem then Some (t, - C_ENOMEM)
            else do {
              (v', _) \<leftarrow> cvector_add mem v (key, obj);
              tb \<leftarrow> wr (ch_table t) h v';
              Some (t\<lparr>ch_table := tb\<rparr>, 0)
            })
     }"

definition chash_remove :: "(nat \<Rightarrow> bool) \<Rightarrow> 'a chash \<Rightarrow> nat \<Rightarrow> 'a chash option" where
  "chash_remove mem t key =
     do {
       h \<leftarrow> chash_hash key (ch_tableSize t);
       c_assert (h < ch_tableSize t);
       entry \<leftarrow> chash_get_entry t h key;
       (case entry of
          None \<Rightarrow> Some t
        | Some i \<Rightarrow> do {
            v \<leftarrow> rd (ch_table t) h;
            v' \<leftarrow> cvector_delete mem v i;
            tb \<leftarrow> wr (ch_table t) h v';
            Some (t\<lparr>ch_table := tb\<rparr>)
          })
     }"

function chash_find_free :: "'a chash \<Rightarrow> nat \<Rightarrow> nat \<Rightarrow> int option" where
  "chash_find_free t rangeStart rangeEnd =
     (if rangeStart < rangeEnd then
        do {
          h \<leftarrow> chash_hash rangeStart (ch_tableSize t);
          entry \<leftarrow> chash_get_entry t h rangeStart;
          if entry = None then Some (s32 rangeStart)
          else chash_find_free t (rangeStart + 1) rangeEnd
        }
      else Some (-1))"
  by pat_completeness auto
termination
  by (relation "measure (\<lambda>(t, i, n). n - i)") auto

declare chash_find_free.simps [simp del]

section \<open>Invariant and abstraction\<close>

definition ch_hash :: "'a chash \<Rightarrow> nat \<Rightarrow> nat" where
  "ch_hash t key = unat (DEKHash (key_bytes key) 4) mod ch_tableSize t"

definition ch_inv :: "'a chash \<Rightarrow> bool" where
  "ch_inv t \<longleftrightarrow> 0 < ch_tableSize t \<and> length (ch_table t) = ch_tableSize t \<and>
     (\<forall>h < ch_tableSize t. cv_inv (ch_table t ! h) \<and> distinct (map fst (cv_list (ch_table t ! h))))"

definition ch_lookup :: "'a chash \<Rightarrow> nat \<Rightarrow> 'a option" where
  "ch_lookup t key = map_of (cv_list (ch_table t ! ch_hash t key)) key"

lemma ch_hash_less: "ch_inv t \<Longrightarrow> ch_hash t k < length (ch_table t)"
  by (simp add: ch_inv_def ch_hash_def)

lemma ch_bucket:
  assumes "ch_inv t"
  shows "cv_inv (ch_table t ! ch_hash t k)" "distinct (map fst (cv_list (ch_table t ! ch_hash t k)))"
  using assms ch_hash_less [OF assms, of k] by (auto simp: ch_inv_def)

lemma chash_hash_eq: "ch_inv t \<Longrightarrow> chash_hash k (ch_tableSize t) = Some (ch_hash t k)"
  by (simp add: chash_hash_def ch_hash_def ch_inv_def)

lemma chash_entry_cases:
  assumes "ch_inv t"
  obtains (miss) "chash_get_entry t (ch_hash t k) k = Some None"
      "k \<notin> fst ` set (cv_list (ch_table t ! ch_hash t k))"
  | (hit) i where "chash_get_entry t (ch_hash t k) k = Some (Some i)"
      "i < length (cv_list (ch_table t ! ch_hash t k))"
      "fst (cv_list (ch_table t ! ch_hash t k) ! i) = k"
      "k \<in> fst ` set (cv_list (ch_table t ! ch_hash t k))"
proof -
  note b = ch_bucket [OF assms, of k] ch_hash_less [OF assms, of k]
  from b(1) show thesis
  proof (cases rule: cv.find_cases [where P = "\<lambda>e. fst e = k"])
    case miss
    with b show thesis by (intro that(1)) (auto simp: chash_get_entry_def)
  next
    case (hit i)
    then have "k \<in> fst ` set (cv_list (ch_table t ! ch_hash t k))" by (metis image_eqI nth_mem)
    with hit b show thesis by (intro that(2)) (auto simp: chash_get_entry_def)
  qed
qed

lemma chash_get_entry_None:
  "ch_inv t \<Longrightarrow> chash_get_entry t (ch_hash t k) k = Some None \<longleftrightarrow> ch_lookup t k = None"
  by (cases rule: chash_entry_cases [of t k])
    (auto simp: ch_lookup_def map_of_eq_None_iff)

lemma chash_get_lookup:
  assumes "ch_inv t"
  shows "chash_get t k = Some (ch_lookup t k)"
  using assms
proof (cases rule: chash_entry_cases [of t k])
  case miss
  then have "ch_lookup t k = None" by (simp add: ch_lookup_def map_of_eq_None_iff)
  with miss assms ch_hash_less [OF assms, of k] show ?thesis
    by (simp add: chash_get_def chash_hash_eq ch_inv_def)
next
  case (hit i)
  note b = ch_bucket [OF assms, of k] ch_hash_less [OF assms, of k]
  from hit b(2) have "ch_lookup t k = Some (snd (cv_list (ch_table t ! ch_hash t k) ! i))"
    by (simp add: ch_lookup_def) (metis map_of_is_SomeI nth_mem prod.collapse)
  with hit b assms show ?thesis
    by (simp add: chash_get_def chash_hash_eq ch_inv_def cvector_get_list)
qed

lemma ch_replace_bucket:
  assumes inv: "ch_inv t" and v: "cv_inv v" "distinct (map fst (cv_list v))"
    and m: "map_of (cv_list v) = (map_of (cv_list (ch_table t ! ch_hash t k)))(k := x)"
    and u: "u = t\<lparr>ch_table := (ch_table t)[ch_hash t k := v]\<rparr>"
  shows "ch_inv u \<and> ch_lookup u = (ch_lookup t)(k := x)"
proof -
  note h = ch_hash_less [OF inv, of k]
  have "ch_inv u" using inv v h by (auto simp: ch_inv_def u nth_list_update)
  moreover have "ch_lookup u j = ((ch_lookup t)(k := x)) j" for j
  proof (cases "ch_hash t j = ch_hash t k")
    case True
    with h m show ?thesis by (simp add: ch_lookup_def u ch_hash_def)
  next
    case False
    then show ?thesis by (auto simp: ch_lookup_def u ch_hash_def)
  qed
  ultimately show ?thesis by blast
qed

lemma chash_set_lookup:
  assumes inv: "ch_inv t"
  shows "\<exists>u. chash_set heap_ok True t k x = Some (u, 0) \<and> ch_inv u \<and>
    ch_lookup u = (ch_lookup t)(k \<mapsto> x)"
  using inv
proof (cases rule: chash_entry_cases [of t k])
  case miss
  note b = ch_bucket [OF inv, of k] ch_hash_less [OF inv, of k]
  from cvector_add_list [OF b(1), of "(k, x)"] obtain v n where
    v: "cvector_add heap_ok (ch_table t ! ch_hash t k) (k, x) = Some (v, n)" "cv_inv v"
    "cv_list v = cv_list (ch_table t ! ch_hash t k) @ [(k, x)]" by auto
  have "dom [k \<mapsto> x] \<inter> dom (map_of (cv_list (ch_table t ! ch_hash t k))) = {}"
    using miss(2) by (simp add: dom_map_of_conv_image_fst)
  from map_add_comm [OF this]
  have m: "map_of (cv_list v) = (map_of (cv_list (ch_table t ! ch_hash t k)))(k \<mapsto> x)"
    by (simp add: v(3))
  have "distinct (map fst (cv_list v))" using miss(2) b(2) by (auto simp: v(3))
  from ch_replace_bucket [OF inv v(2) this m refl] inv miss v b show ?thesis
    by (simp add: chash_set_def chash_hash_eq ch_inv_def)
next
  case (hit i)
  note b = ch_bucket [OF inv, of k] ch_hash_less [OF inv, of k]
  from cvector_set_list [OF b(1) hit(2), of "(k, x)"] obtain v where
    v: "cvector_set (ch_table t ! ch_hash t k) i (k, x) = Some v" "cv_inv v"
    "cv_list v = (cv_list (ch_table t ! ch_hash t k))[i := (k, x)]" by auto
  have m: "map_of (cv_list v) = (map_of (cv_list (ch_table t ! ch_hash t k)))(k \<mapsto> x)"
    unfolding v(3) by (rule map_of_upd_index [OF b(2) hit(2,3)])
  have "map fst (cv_list v) = map fst (cv_list (ch_table t ! ch_hash t k))"
    using hit(2,3) by (simp add: v(3) map_update list_update_same_conv)
  with b(2) have "distinct (map fst (cv_list v))" by simp
  from ch_replace_bucket [OF inv v(2) this m refl] inv hit v b show ?thesis
    by (simp add: chash_set_def chash_hash_eq ch_inv_def)
qed

lemma chash_remove_lookup:
  assumes inv: "ch_inv t"
  shows "\<exists>u. chash_remove heap_ok t k = Some u \<and> ch_inv u \<and> ch_lookup u = (ch_lookup t)(k := None)"
  using inv
proof (cases rule: chash_entry_cases [of t k])
  case miss
  then have "ch_lookup t k = None" by (simp add: ch_lookup_def map_of_eq_None_iff)
  then have "(ch_lookup t)(k := None) = ch_lookup t" by auto
  with miss inv ch_hash_less [OF inv, of k] show ?thesis
    by (simp add: chash_remove_def chash_hash_eq ch_inv_def)
next
  case (hit i)
  note b = ch_bucket [OF inv, of k] ch_hash_less [OF inv, of k]
  from cvector_delete_list [OF b(1) hit(2)] obtain v where
    v: "cvector_delete heap_ok (ch_table t ! ch_hash t k) i = Some v" "cv_inv v"
    "cv_list v = take i (cv_list (ch_table t ! ch_hash t k)) @
       drop (Suc i) (cv_list (ch_table t ! ch_hash t k))" by auto
  from map_of_del_index [OF b(2) hit(2,3)] have
    "map_of (cv_list v) = (map_of (cv_list (ch_table t ! ch_hash t k)))(k := None)"
    "distinct (map fst (cv_list v))" unfolding v(3) by auto
  from ch_replace_bucket [OF inv v(2) this(2,1) refl] inv hit v b show ?thesis
    by (simp add: chash_remove_def chash_hash_eq ch_inv_def)
qed

interpretation ch: key_store ch_inv ch_lookup chash_get
  "\<lambda>t k x. map_option fst (chash_set heap_ok True t k x)" "chash_remove heap_ok" "\<lambda>k. k < 2 ^ 32" "\<lambda>x. True"
proof
  fix t :: "'a chash" and k x assume inv: "ch_inv t"
  show "chash_get t k = Some (ch_lookup t k)" using inv by (rule chash_get_lookup)
  from chash_set_lookup [OF inv, of k x]
  show "\<exists>u. map_option fst (chash_set heap_ok True t k x) = Some u \<and> ch_inv u \<and>
      ch_lookup u = (ch_lookup t)(k \<mapsto> x)" by auto
  show "\<exists>u. chash_remove heap_ok t k = Some u \<and> ch_inv u \<and> ch_lookup u = (ch_lookup t)(k := None)"
    using inv by (rule chash_remove_lookup)
qed

lemma chash_init_empty:
  assumes "0 < sz"
  shows "\<exists>t. chash_init heap_ok sz = Some t \<and> ch_inv t \<and> (\<forall>k. ch_lookup t k = None)"
  using assms by (simp add: chash_init_def ch_inv_def ch_lookup_def ch_hash_def)

text \<open>\<open>r\<close> is the least free key of \<open>[a, b)\<close>, or -1 if every key is taken.\<close>

definition ch_first_free :: "'a chash \<Rightarrow> nat \<Rightarrow> nat \<Rightarrow> int \<Rightarrow> bool" where
  "ch_first_free t a b r \<longleftrightarrow>
     r = -1 \<and> (\<forall>k. a \<le> k \<longrightarrow> k < b \<longrightarrow> ch_lookup t k \<noteq> None) \<or>
     (\<exists>k. r = int k \<and> a \<le> k \<and> k < b \<and> ch_lookup t k = None \<and>
        (\<forall>j. a \<le> j \<longrightarrow> j < k \<longrightarrow> ch_lookup t j \<noteq> None))"

lemma ch_first_free_Suc:
  assumes "ch_lookup t a \<noteq> None" and "ch_first_free t (Suc a) b r"
  shows "ch_first_free t a b r"
proof -
  have all: "\<forall>k. a \<le> k \<longrightarrow> k < n \<longrightarrow> ch_lookup t k \<noteq> None"
    if "\<forall>k. Suc a \<le> k \<longrightarrow> k < n \<longrightarrow> ch_lookup t k \<noteq> None" for n
    using that assms(1) by (metis Suc_leI le_neq_implies_less)
  from assms(2) consider (none) "r = -1" "\<forall>k. Suc a \<le> k \<longrightarrow> k < b \<longrightarrow> ch_lookup t k \<noteq> None"
    | (some) k where "r = int k" "Suc a \<le> k" "k < b" "ch_lookup t k = None"
        "\<forall>j. Suc a \<le> j \<longrightarrow> j < k \<longrightarrow> ch_lookup t j \<noteq> None"
    unfolding ch_first_free_def by blast
  then show ?thesis
  proof cases
    case none
    with all show ?thesis by (simp add: ch_first_free_def)
  next
    case (some k)
    with all [of k] show ?thesis by (auto simp: ch_first_free_def)
  qed
qed

lemma chash_find_free_spec:
  assumes inv: "ch_inv t" and "b < 2 ^ 31"
  shows "\<exists>r. chash_find_free t a b = Some r \<and> ch_first_free t a b r"
proof (induction "b - a" arbitrary: a)
  case 0
  then show ?case by (subst chash_find_free.simps) (auto simp: ch_first_free_def)
next
  case (Suc d)
  then have lt: "a < b" and s: "s32 a = int a" using assms(2) by (auto simp: s32_def)
  show ?case
  proof (cases "ch_lookup t a")
    case None
    then have "chash_find_free t a b = Some (int a)"
      using lt inv chash_get_entry_None [OF inv, of a]
      by (subst chash_find_free.simps) (simp add: chash_hash_eq s)
    with lt None show ?thesis by (auto simp: ch_first_free_def)
  next
    case (Some x)
    then obtain i where e: "chash_get_entry t (ch_hash t a) a = Some (Some i)"
      using chash_get_entry_None [OF inv, of a]
      by (cases rule: chash_entry_cases [OF inv, of a]) auto
    have "chash_find_free t a b = chash_find_free t (Suc a) b"
      using lt e inv by (subst chash_find_free.simps) (simp add: chash_hash_eq)
    with Suc.hyps(1) [of "Suc a"] Suc.hyps(2) ch_first_free_Suc [of t a b] Some show ?thesis
      by fastforce
  qed
qed

text \<open>
  C32 (the hash table refines a map).  Storing, looking up and removing a key are those of a finite
  map, whatever the collisions: the operations return, keep the table well formed, and a key keeps
  its value under operations on other keys; the search for a free key returns the least one of the
  range, or -1 if there is none.
\<close>

theorem chash_refines_map:
  assumes "ch_inv t" and "b < 2 ^ 31"
  shows "chash_get t k = Some (ch_lookup t k) \<and>
    (\<exists>u. chash_set heap_ok True t k x = Some (u, 0) \<and> ch_inv u \<and> ch_lookup u = (ch_lookup t)(k \<mapsto> x)) \<and>
    (\<exists>u. chash_remove heap_ok t k = Some u \<and> ch_inv u \<and> ch_lookup u = (ch_lookup t)(k := None)) \<and>
    (\<exists>r. chash_find_free t a b = Some r \<and> ch_first_free t a b r)"
  using chash_get_lookup [OF assms(1)] chash_set_lookup [OF assms(1)] chash_remove_lookup [OF assms(1)]
    chash_find_free_spec [OF assms]
  by blast

theorem chash_refines_map_witness:
  "\<exists>t u. chash_init heap_ok 3 = Some t \<and> chash_set heap_ok True t 5 (42 :: nat) = Some (u, 0) \<and>
    chash_get u 5 = Some (Some 42)"
proof -
  from chash_init_empty [of 3] obtain t :: "nat chash" where t: "chash_init heap_ok 3 = Some t" "ch_inv t" by auto
  from chash_refines_map [OF t(2), of 0 5 "42 :: nat"] obtain u where
    u: "chash_set heap_ok True t 5 (42 :: nat) = Some (u, 0)" "ch_inv u" "ch_lookup u = (ch_lookup t)(5 \<mapsto> 42)"
    by auto
  from chash_refines_map [OF u(2), of 0 5 "42 :: nat"] u(3) t(1) u(1) show ?thesis by auto
qed

end
