(* ===== verification/Proc_Syscall.thy ===== *)
theory Proc_Syscall
  imports Process_Exit Chash Partition
begin

unbundle bit_operations_syntax

text \<open>
  The process system calls (\<open>dispatchers/proc_syscall.c\<close>) and the table of interrupt handlers
  (\<open>procserv_get_irq_handler\<close> of \<open>state.c\<close>).  The calling process is its identifier.  A handler that suppresses the
  reply returns that flag.  The handlers that ask for the partition of the caller read the tables of the
  partition layer, a \<open>sched_state\<close>, through the pointer \<open>proc\<close> of the control block, which is an index of
  \<open>proc_array\<close> or null; reading through a null pointer is \<open>None\<close>.  The endpoint the allocator hands out for each
  type (0 on failure), whether the kernel grants the interrupt, and the address of a function are arguments.
\<close>

section \<open>Model\<close>

definition PROCESS_PERMISSION_DEVICE_IRQ :: nat where "PROCESS_PERMISSION_DEVICE_IRQ = 2"
definition POK_USER_STACK_SIZE :: int where "POK_USER_STACK_SIZE = 8096"

subsection \<open>Partition and thread queries\<close>

text \<open>\<open>pcb->proc->part\<close>, and the test \<open>part->low > pid || part->high < pid\<close> on unsigned numbers.\<close>

definition caller_part :: "sched_state \<Rightarrow> memserv \<Rightarrow> nat \<Rightarrow> partition option" where
  "caller_part g s user = do {
     pcb \<leftarrow> client_of s user;
     i \<leftarrow> cl_proc pcb;
     p \<leftarrow> rd (proc_array g) i;
     j \<leftarrow> proc_part p;
     rd (part_array g) j
   }"

definition outside_part :: "partition \<Rightarrow> int \<Rightarrow> bool" where
  "outside_part part pid \<longleftrightarrow> part_low part > u32i pid \<or> part_high part < u32i pid"

definition thread_query ::
  "(process \<Rightarrow> int) \<Rightarrow> sched_state \<Rightarrow> memserv \<Rightarrow> nat \<Rightarrow> int \<Rightarrow> int option" where
  "thread_query field g s user pid = do {
     part \<leftarrow> caller_part g s user;
     if outside_part part pid then Some (-1)
     else do {
       p \<leftarrow> rd (proc_array g) (u32i pid);
       Some (field p)
     }
   }"

definition proc_get_baseprio_from_pid_handler :: "sched_state \<Rightarrow> memserv \<Rightarrow> nat \<Rightarrow> int \<Rightarrow> int option" where
  "proc_get_baseprio_from_pid_handler = thread_query (\<lambda>p. int (proc_prio p))"

definition proc_get_currprio_from_pid_handler :: "sched_state \<Rightarrow> memserv \<Rightarrow> nat \<Rightarrow> int \<Rightarrow> int option" where
  "proc_get_currprio_from_pid_handler = thread_query (\<lambda>p. int (proc_prio p))"

definition proc_get_status_from_pid_handler :: "sched_state \<Rightarrow> memserv \<Rightarrow> nat \<Rightarrow> int \<Rightarrow> int option" where
  "proc_get_status_from_pid_handler = thread_query (\<lambda>p. int (pok_state_num (proc_status p)))"

definition proc_get_deadline_from_pid_handler :: "sched_state \<Rightarrow> memserv \<Rightarrow> nat \<Rightarrow> int \<Rightarrow> int option" where
  "proc_get_deadline_from_pid_handler = thread_query (\<lambda>p. s32 (proc_deadline p))"

definition proc_get_period_from_pid_handler :: "sched_state \<Rightarrow> memserv \<Rightarrow> nat \<Rightarrow> int \<Rightarrow> int option" where
  "proc_get_period_from_pid_handler = thread_query (\<lambda>p. s32 (proc_period p))"

definition proc_get_timecap_from_pid :: "sched_state \<Rightarrow> memserv \<Rightarrow> nat \<Rightarrow> int \<Rightarrow> int option" where
  "proc_get_timecap_from_pid = thread_query (\<lambda>p. s32 (proc_timecap p))"

definition proc_get_entrypoint_from_pid ::
  "(entry_fn \<Rightarrow> nat) \<Rightarrow> sched_state \<Rightarrow> memserv \<Rightarrow> nat \<Rightarrow> int \<Rightarrow> int option" where
  "proc_get_entrypoint_from_pid addr = thread_query (\<lambda>p. s32 (addr (proc_entrypoint p)))"

definition proc_get_stacksize_from_pid :: "int \<Rightarrow> int" where
  "proc_get_stacksize_from_pid pid = POK_USER_STACK_SIZE"

definition proc_get_pid_from_name_handler :: "sched_state \<Rightarrow> string \<Rightarrow> int option" where
  "proc_get_pid_from_name_handler g name = do {
     idx \<leftarrow> for_find (rd (proc_array g)) (\<lambda>p. name = proc_name p) 0 POK_CONFIG_NB_THREADS;
     (case idx of Some i \<Rightarrow> Some (int i) | None \<Rightarrow> Some 0)
   }"

definition proc_getpid_handler :: "sched_state \<Rightarrow> memserv \<Rightarrow> nat \<Rightarrow> int option" where
  "proc_getpid_handler g s user = do {
     pcb \<leftarrow> client_of s user;
     i \<leftarrow> cl_proc pcb;
     p \<leftarrow> rd (proc_array g) i;
     Some (proc_index p)
   }"

definition proc_current_partition_get_id_handler :: "sched_state \<Rightarrow> memserv \<Rightarrow> nat \<Rightarrow> int option" where
  "proc_current_partition_get_id_handler g s user = do {
     part \<leftarrow> caller_part g s user;
     Some (int (part_index part))
   }"

definition proc_current_partition_get_period_handler :: "sched_state \<Rightarrow> memserv \<Rightarrow> nat \<Rightarrow> int option" where
  "proc_current_partition_get_period_handler g s user = do {
     part \<leftarrow> caller_part g s user;
     Some (s32 (part_period part))
   }"

text \<open>The duration is the length of the slot whose number is that of the current partition.\<close>

definition proc_current_partition_get_duration_handler :: "sched_state \<Rightarrow> nat option" where
  "proc_current_partition_get_duration_handler g = rd pok_sched_slots (current_partition g)"

definition proc_current_partition_get_lock_level_handler :: "sched_state \<Rightarrow> memserv \<Rightarrow> nat \<Rightarrow> int option" where
  "proc_current_partition_get_lock_level_handler g s user = do {
     part \<leftarrow> caller_part g s user;
     Some (s32 (part_lock_level part))
   }"

definition proc_current_partition_get_operating_mode_handler :: "sched_state \<Rightarrow> memserv \<Rightarrow> nat \<Rightarrow> int option" where
  "proc_current_partition_get_operating_mode_handler g s user = do {
     part \<leftarrow> caller_part g s user;
     Some (s32 (part_mode_num (part_mode part)))
   }"

primrec start_condition_num :: "start_condition \<Rightarrow> int" where
  "start_condition_num NORMAL_START = 0"
| "start_condition_num PARTITION_RESTART = 1"
| "start_condition_num HM_MODULE_RESTART = 2"
| "start_condition_num HM_PARTITION_RESTART = 3"

definition proc_current_partition_get_start_condition_handler :: "sched_state \<Rightarrow> memserv \<Rightarrow> nat \<Rightarrow> int option" where
  "proc_current_partition_get_start_condition_handler g s user = do {
     part \<leftarrow> caller_part g s user;
     Some (start_condition_num (part_start_cond part))
   }"

definition proc_getpid2_handler :: "memserv \<Rightarrow> nat \<Rightarrow> (int \<times> nat) option" where
  "proc_getpid2_handler s user = do { p \<leftarrow> client_of s user; Some (0, user) }"

subsection \<open>Thread control\<close>

text \<open>The first thread of the process with identifier \<open>pid\<close>.\<close>

definition first_tcb :: "memserv \<Rightarrow> nat \<Rightarrow> nat option" where
  "first_tcb s pid = do {
     p \<leftarrow> client_of s pid;
     t \<leftarrow> cvector_get (cl_threads p) 0;
     Some (pt_tcb t)
   }"

definition proc_set_prio_handler ::
  "penv \<Rightarrow> sched_state \<Rightarrow> nat \<Rightarrow> int \<Rightarrow> int \<Rightarrow> memserv \<Rightarrow> (memserv \<times> pok_ret_t) option" where
  "proc_set_prio_handler env g user pid prio s = do {
     ktcb \<leftarrow> first_tcb s user;
     part \<leftarrow> caller_part g s user;
     if outside_part part pid then Some (s, POK_ERRNO_PARAM)
     else if \<not> pe_prio env then Some (s, POK_ERRNO_PARAM)
     else Some (log_calls [Thread_Priority ktcb (u32i prio)] s, POK_ERRNO_OK)
   }"

definition proc_stop_self_handler :: "nat \<Rightarrow> memserv \<Rightarrow> memserv option" where
  "proc_stop_self_handler user s = do {
     ktcb \<leftarrow> first_tcb s user;
     Some (log_calls [Thread_Suspend ktcb] s)
   }"

definition proc_stop_handler :: "sched_state \<Rightarrow> nat \<Rightarrow> int \<Rightarrow> memserv \<Rightarrow> (memserv \<times> pok_ret_t) option" where
  "proc_stop_handler g user pid s = do {
     part \<leftarrow> caller_part g s user;
     if outside_part part pid then Some (s, POK_ERRNO_PARAM)
     else do {
       ktcb \<leftarrow> first_tcb s (u32i pid);
       Some (log_calls [Thread_Suspend ktcb] s, POK_ERRNO_OK)
     }
   }"

definition proc_resume_handler :: "sched_state \<Rightarrow> nat \<Rightarrow> int \<Rightarrow> memserv \<Rightarrow> (memserv \<times> pok_ret_t) option" where
  "proc_resume_handler g user pid s = do {
     part \<leftarrow> caller_part g s user;
     if outside_part part pid then Some (s, POK_ERRNO_PARAM)
     else do {
       ktcb \<leftarrow> first_tcb s (u32i pid);
       Some (log_calls [Thread_Resume ktcb] s, POK_ERRNO_OK)
     }
   }"

subsection \<open>Endpoints and interrupts\<close>

datatype kobject_t = KOBJECT_ENDPOINT_SYNC | KOBJECT_ENDPOINT_ASYNC

definition proc_syscall_allocate_endpoint ::
  "menv \<Rightarrow> (kobject_t \<Rightarrow> nat) \<Rightarrow> nat \<Rightarrow> kobject_t \<Rightarrow> memserv \<Rightarrow> (memserv \<times> nat) option" where
  "proc_syscall_allocate_endpoint env alloc pid type s = do {
     p \<leftarrow> client_of s pid;
     if alloc type = 0 then Some (s, 0)
     else do {
       s \<leftarrow> vs_track_obj env pid (alloc type) s;
       Some (s, alloc type)
     }
   }"

definition proc_new_endpoint_internal_handler ::
  "menv \<Rightarrow> (kobject_t \<Rightarrow> nat) \<Rightarrow> nat \<Rightarrow> memserv \<Rightarrow> (memserv \<times> nat \<times> refos_error) option" where
  "proc_new_endpoint_internal_handler env alloc pid s = do {
     (s, ep) \<leftarrow> proc_syscall_allocate_endpoint env alloc pid KOBJECT_ENDPOINT_SYNC s;
     Some (s, ep, if ep = 0 then ENOMEM else ESUCCESS)
   }"

definition proc_new_async_endpoint_internal_handler ::
  "menv \<Rightarrow> (kobject_t \<Rightarrow> nat) \<Rightarrow> nat \<Rightarrow> memserv \<Rightarrow> (memserv \<times> nat \<times> refos_error) option" where
  "proc_new_async_endpoint_internal_handler env alloc pid s = do {
     (s, ep) \<leftarrow> proc_syscall_allocate_endpoint env alloc pid KOBJECT_ENDPOINT_ASYNC s;
     Some (s, ep, if ep = 0 then ENOMEM else ESUCCESS)
   }"

definition procserv_get_irq_handler ::
  "menv \<Rightarrow> bool \<Rightarrow> int \<Rightarrow> nat chash \<Rightarrow> (nat chash \<times> nat) option" where
  "procserv_get_irq_handler env granted irq irqHandlerList = do {
     existing \<leftarrow> chash_get irqHandlerList (u32i irq);
     let existingHandler = (case existing of None \<Rightarrow> 0 | Some h \<Rightarrow> h);
     if existingHandler \<noteq> 0 then Some (irqHandlerList, existingHandler)
     else if en_slot env 0 = 0 then Some (irqHandlerList, 0)
     else if \<not> granted then Some (irqHandlerList, 0)
     else do {
       (l, _) \<leftarrow> chash_set (en_heap env) (en_malloc env 0) irqHandlerList (u32i irq) (en_slot env 0);
       Some (l, en_slot env 0)
     }
   }"

definition proc_get_irq_handler_handler ::
  "menv \<Rightarrow> bool \<Rightarrow> nat \<Rightarrow> int \<Rightarrow> nat chash \<Rightarrow> memserv \<Rightarrow> (nat chash \<times> nat) option" where
  "proc_get_irq_handler_handler env granted pid irq irqHandlerList s = do {
     pcb \<leftarrow> client_of s pid;
     if cl_mask pcb AND PROCESS_PERMISSION_DEVICE_IRQ = 0 then Some (irqHandlerList, 0)
     else procserv_get_irq_handler env granted irq irqHandlerList
   }"

subsection \<open>Watching clients\<close>

definition proc_watch_client_handler ::
  "menv \<Rightarrow> procserv_caps \<Rightarrow> nat \<Rightarrow> nat \<Rightarrow> nat \<Rightarrow> memserv \<Rightarrow> (memserv \<times> refos_error \<times> nat option) option" where
  "proc_watch_client_handler env m pid rpc_liveness rpc_deathEP s = do {
     pcb \<leftarrow> client_of s pid;
     if \<not> check_dispatch_caps m 1 2 then Some (s, EINVALIDPARAM, None)
     else if \<not> dispatcher_badge_liveness rpc_liveness then Some (s, EINVALIDPARAM, None)
     else do {
       client \<leftarrow> pid_get_pcb (ms_pids s) (rpc_liveness - PID_LIVENESS_BADGE_BASE);
       (case client of
          None \<Rightarrow> Some (s, EINVALIDPARAM, None)
        | Some _ \<Rightarrow> do {
            let cpid = rpc_liveness - PID_LIVENESS_BADGE_BASE;
            deathNotifyEP \<leftarrow> dispatcher_copyout_cptr env rpc_deathEP;
            if deathNotifyEP = 0 then Some (s, ENOMEM, None)
            else do {
              (wl, freed, err) \<leftarrow> client_watch (en_heap env) (en_malloc env 0) (cl_watch pcb) cpid deathNotifyEP;
              s \<leftarrow> upd_client pid (\<lambda>c. c\<lparr>cl_watch := wl\<rparr>) (log_calls (concat (map free_cap freed)) s);
              if err \<noteq> ESUCCESS then Some (dispatcher_release_copyout_cptr deathNotifyEP s, err, None)
              else Some (s, ESUCCESS, Some cpid)
            }
          })
     }
   }"

definition proc_unwatch_client_handler ::
  "menv \<Rightarrow> procserv_caps \<Rightarrow> nat \<Rightarrow> nat \<Rightarrow> memserv \<Rightarrow> (memserv \<times> refos_error) option" where
  "proc_unwatch_client_handler env m pid rpc_liveness s = do {
     pcb \<leftarrow> client_of s pid;
     if \<not> check_dispatch_caps m 1 1 then Some (s, EINVALIDPARAM)
     else if \<not> dispatcher_badge_liveness rpc_liveness then Some (s, EINVALIDPARAM)
     else do {
       client \<leftarrow> pid_get_pcb (ms_pids s) (rpc_liveness - PID_LIVENESS_BADGE_BASE);
       (case client of
          None \<Rightarrow> Some (s, EINVALIDPARAM)
        | Some _ \<Rightarrow> do {
            (wl, freed) \<leftarrow> client_unwatch (en_heap env) (cl_watch pcb) (rpc_liveness - PID_LIVENESS_BADGE_BASE);
            s \<leftarrow> upd_client pid (\<lambda>c. c\<lparr>cl_watch := wl\<rparr>) (log_calls (concat (map free_cap freed)) s);
            Some (s, ESUCCESS)
          })
     }
   }"

subsection \<open>Process control\<close>

text \<open>The result, and whether the reply is suppressed.\<close>

definition proc_new_proc_handler ::
  "penv \<Rightarrow> nat \<Rightarrow> nat list option \<Rightarrow> bool \<Rightarrow> int \<Rightarrow> memserv \<Rightarrow> (memserv \<times> refos_error \<times> bool) option" where
  "proc_new_proc_handler env pid rpc_name rpc_block rpc_priority s = do {
     pcb \<leftarrow> client_of s pid;
     (case rpc_name of
        None \<Rightarrow> Some (s, EINVALIDPARAM, False)
      | Some name \<Rightarrow> do {
          (s, err) \<leftarrow> proc_load_direct env (Some ''selfloader'') (u32i rpc_priority) name pid 0 s;
          if err \<noteq> ESUCCESS then Some (s, err, False)
          else if rpc_block then do {
            (s, _) \<leftarrow> proc_save_caller (pe_mem env) pid s;
            s \<leftarrow> upd_client pid (\<lambda>c. c\<lparr>cl_parentWaiting := True\<rparr>) s;
            Some (s, ESUCCESS, True)
          }
          else Some (s, ESUCCESS, False)
        })
   }"

definition proc_exit_handler :: "nat \<Rightarrow> int \<Rightarrow> memserv \<Rightarrow> (memserv \<times> refos_error) option" where
  "proc_exit_handler pid rpc_status s = do {
     s \<leftarrow> upd_client pid (\<lambda>c. c\<lparr>cl_exitStatus := rpc_status\<rparr>) s;
     s \<leftarrow> proc_queue_release pid s;
     Some (s, ESUCCESS)
   }"

definition proc_clone_internal_handler ::
  "penv \<Rightarrow> nat \<Rightarrow> nat \<Rightarrow> nat \<Rightarrow> memserv \<Rightarrow> (memserv \<times> int \<times> refos_error) option" where
  "proc_clone_internal_handler env pid rpc_entryPoint rpc_childStack s = proc_clone env pid rpc_childStack rpc_entryPoint s"

definition proc_nice_handler ::
  "penv \<Rightarrow> nat \<Rightarrow> int \<Rightarrow> int \<Rightarrow> memserv \<Rightarrow> (memserv \<times> refos_error) option" where
  "proc_nice_handler env pid rpc_threadID rpc_priority s = proc_nice env pid rpc_threadID (u32i rpc_priority) s"

section \<open>Calls keep the invariants\<close>

definition proc_inv :: "memserv \<Rightarrow> bool" where
  "proc_inv s \<longleftrightarrow> ms_inv s \<and> procs_ok s \<and>
     (ms_exitProcessPID s \<noteq> PID_NULL \<longrightarrow> client_of s (ms_exitProcessPID s) \<noteq> None)"

text \<open>\<open>t\<close> is \<open>s\<close> with the control block of \<open>pid\<close> replaced.\<close>

definition only :: "nat \<Rightarrow> client \<Rightarrow> memserv \<Rightarrow> memserv \<Rightarrow> bool" where
  "only pid c s t \<longleftrightarrow> ms_inv t \<and> client_of t = (client_of s)(pid \<mapsto> c) \<and> ms_frames t = ms_frames s \<and>
     ms_pdlist t = ms_pdlist s \<and> ms_exitProcessPID t = ms_exitProcessPID s"

lemma only_refl: "ms_inv s \<Longrightarrow> client_of s pid = Some c \<Longrightarrow> only pid c s s"
  by (simp add: only_def fun_upd_idem)

lemma only_log: "only pid c s t \<Longrightarrow> only pid c s (log_calls cs t)"
  by (simp add: only_def)

lemma only_client: "only pid c s t \<Longrightarrow> client_of t pid = Some c"
  by (simp add: only_def)

lemma only_upd:
  assumes t: "only pid c s t"
    and f: "cl_paramBuffer (f c) = cl_paramBuffer c"
      "map_option fst (cl_notificationBuffer (f c)) = map_option fst (cl_notificationBuffer c)" "cl_windows (f c) = cl_windows c"
  shows "\<exists>u. upd_client pid f t = Some u \<and> only pid (f c) s u"
proof -
  have "ms_inv t" "client_of t pid = Some c" using t by (simp_all add: only_def)
  from inv_upd [OF this, of f, OF f] obtain p where
    "upd_client pid f t = Some (t\<lparr>ms_pids := p\<rparr>)" "ms_inv (t\<lparr>ms_pids := p\<rparr>)"
    "client_of (t\<lparr>ms_pids := p\<rparr>) = (client_of t)(pid \<mapsto> f c)" by blast
  with t show ?thesis by (simp add: only_def)
qed

lemma only_inv:
  assumes s: "proc_inv s" "client_of s pid = Some c" and t: "only pid c' s t" "proc_ok c'" "cl_kpd c' = cl_kpd c"
  shows "proc_inv t"
proof -
  have "procs_ok s" using s(1) by (simp add: proc_inv_def)
  then have "procs_ok t" by (rule procs_ok_upd [OF _ s(2) t(2,3)]) (use t(1) in \<open>simp_all add: only_def\<close>)
  with s t(1) show ?thesis by (simp add: proc_inv_def only_def)
qed

lemma proc_inv_log: "proc_inv (log_calls cs s) = proc_inv s"
  by (simp add: proc_inv_def)

lemma proc_inv_ok: "proc_inv s \<Longrightarrow> client_of s pid = Some c \<Longrightarrow> proc_ok c" "proc_inv s \<Longrightarrow> ms_inv s"
  by (simp_all add: proc_inv_def procs_ok_def)

lemma set_watch_inv:
  assumes s: "proc_inv s" "client_of s pid = Some c" and wl: "wl_inv wl"
    and run: "upd_client pid (\<lambda>c. c\<lparr>cl_watch := wl\<rparr>) (log_calls cs s) = Some t"
  shows "proc_inv t"
proof -
  have "only pid c s (log_calls cs s)" using proc_inv_ok(2) [OF s(1)] s(2) by (intro only_log only_refl)
  from only_upd [OF this, of "\<lambda>c. c\<lparr>cl_watch := wl\<rparr>"] run have t: "only pid (c\<lparr>cl_watch := wl\<rparr>) s t" by auto
  show ?thesis by (rule only_inv [OF s t]) (use proc_inv_ok(1) [OF s] wl in \<open>simp_all add: proc_ok_def\<close>)
qed

lemma watch_inv:
  assumes s: "proc_inv s" and env: "en_heap env = heap_ok"
    and run: "proc_watch_client_handler env m pid l ep s = Some (t, err, d)"
  shows "proc_inv t"
proof -
  from run obtain c where c: "client_of s pid = Some c" by (auto simp: proc_watch_client_handler_def bind_eq_Some_conv)
  have wl: "wl_inv (cl_watch c)" using proc_inv_ok(1) [OF s c] by (simp add: proc_ok_def)
  show ?thesis
  proof (cases "t = s")
    case True
    with s show ?thesis by simp
  next
    case False
    let ?p = "l - PID_LIVENESS_BADGE_BASE"
    from run False c env obtain e wl' freed err' u where
      e: "e \<noteq> 0" "client_watch heap_ok (en_malloc env 0) (cl_watch c) ?p e = Some (wl', freed, err')"
        "upd_client pid (\<lambda>c. c\<lparr>cl_watch := wl'\<rparr>) (log_calls (concat (map free_cap freed)) s) = Some u"
        "t = (if err' \<noteq> ESUCCESS then dispatcher_release_copyout_cptr e u else u)"
      by (auto simp: proc_watch_client_handler_def bind_eq_Some_conv Let_def split: if_splits option.splits)
    from client_watch_lookup [OF wl e(1), of ?p] e(1,2) wl have "wl_inv wl'"
      by (cases "en_malloc env 0") (auto simp: client_watch_def)
    from set_watch_inv [OF s c this e(3)] e(4) show ?thesis
      by (simp add: dispatcher_release_copyout_cptr_def proc_inv_log)
  qed
qed

lemma unwatch_inv:
  assumes s: "proc_inv s" and env: "en_heap env = heap_ok"
    and run: "proc_unwatch_client_handler env m pid l s = Some (t, err)"
  shows "proc_inv t"
proof -
  from run obtain c where c: "client_of s pid = Some c" by (auto simp: proc_unwatch_client_handler_def bind_eq_Some_conv)
  have wl: "wl_inv (cl_watch c)" using proc_inv_ok(1) [OF s c] by (simp add: proc_ok_def)
  show ?thesis
  proof (cases "t = s")
    case True
    with s show ?thesis by simp
  next
    case False
    let ?p = "l - PID_LIVENESS_BADGE_BASE"
    from run False c env obtain wl' freed where
      e: "client_unwatch heap_ok (cl_watch c) ?p = Some (wl', freed)"
        "upd_client pid (\<lambda>c. c\<lparr>cl_watch := wl'\<rparr>) (log_calls (concat (map free_cap freed)) s) = Some t"
      by (auto simp: proc_unwatch_client_handler_def bind_eq_Some_conv Let_def split: if_splits option.splits)
    from client_unwatch_lookup [OF wl, of ?p] e(1) have "wl_inv wl'" by auto
    from set_watch_inv [OF s c this e(2)] show ?thesis .
  qed
qed

lemma endpoint_inv:
  assumes s: "proc_inv s" and env: "en_heap env = heap_ok"
    and run: "proc_syscall_allocate_endpoint env alloc pid type s = Some (t, ep)"
  shows "proc_inv t"
proof -
  from run obtain c where c: "client_of s pid = Some c" by (auto simp: proc_syscall_allocate_endpoint_def bind_eq_Some_conv)
  show ?thesis
  proof (cases "t = s")
    case True
    with s show ?thesis by simp
  next
    case False
    have ko: "cv_inv (cl_kobjs c)" using proc_inv_ok(1) [OF s c] by (simp add: proc_ok_def)
    from run False c env obtain v n where
      v: "cvector_add heap_ok (cl_kobjs c) (alloc type) = Some (v, n)" "upd_client pid (\<lambda>c. c\<lparr>cl_kobjs := v\<rparr>) s = Some t"
      by (auto simp: proc_syscall_allocate_endpoint_def vs_track_obj_def bind_eq_Some_conv split: if_splits)
    from cvector_add_list [OF ko, of "alloc type"] v(1) have cv: "cv_inv v" by auto
    from only_upd [OF only_refl [OF proc_inv_ok(2) [OF s] c], of "\<lambda>c. c\<lparr>cl_kobjs := v\<rparr>"] v(2)
    have t: "only pid (c\<lparr>cl_kobjs := v\<rparr>) s t" by auto
    show ?thesis by (rule only_inv [OF s c t]) (use proc_inv_ok(1) [OF s c] cv in \<open>simp_all add: proc_ok_def\<close>)
  qed
qed

lemma nice_inv:
  assumes s: "proc_inv s" and run: "proc_nice_handler env pid tid prio s = Some (t, err)"
  shows "proc_inv t"
proof -
  from run obtain c where c: "client_of s pid = Some c" by (auto simp: proc_nice_handler_def proc_nice_def bind_eq_Some_conv)
  show ?thesis
  proof (cases "t = s")
    case True
    with s show ?thesis by simp
  next
    case False
    have th: "cv_inv (cl_threads c)" using proc_inv_ok(1) [OF s c] by (simp add: proc_ok_def)
    from run False c obtain x v cs where
      v: "cvector_set (cl_threads c) (nat tid) x = Some v"
        "upd_client pid (\<lambda>c. c\<lparr>cl_threads := v\<rparr>) (log_calls cs s) = Some t"
      by (auto simp: proc_nice_handler_def proc_nice_def bind_eq_Some_conv split: if_splits)
    have "nat tid < length (cv_list (cl_threads c))" using v(1) cvector_set_out [OF th, of "nat tid" x]
      by (cases "nat tid < length (cv_list (cl_threads c))") auto
    from cvector_set_list [OF th this, of x] v(1) have cv: "cv_inv v" "length (cv_list v) = length (cv_list (cl_threads c))" by auto
    then have n: "cvector_count v = cvector_count (cl_threads c)" using th by (simp add: cvector_count_list)
    have "only pid c s (log_calls cs s)" using proc_inv_ok(2) [OF s] c by (intro only_log only_refl)
    from only_upd [OF this, of "\<lambda>c. c\<lparr>cl_threads := v\<rparr>"] v(2)
    have t: "only pid (c\<lparr>cl_threads := v\<rparr>) s t" by auto
    show ?thesis by (rule only_inv [OF s c t]) (use proc_inv_ok(1) [OF s c] cv(1) n in \<open>simp_all add: proc_ok_def\<close>)
  qed
qed

lemma exit_inv:
  assumes s: "proc_inv s" and run: "proc_exit_handler pid st s = Some (t, err)"
  shows "proc_inv t" "ms_exitProcessPID t = pid"
proof -
  from run obtain c where c: "client_of s pid = Some c" by (auto simp: proc_exit_handler_def upd_client_def bind_eq_Some_conv)
  from only_upd [OF only_refl [OF proc_inv_ok(2) [OF s] c], of "\<lambda>c. c\<lparr>cl_exitStatus := st\<rparr>"] obtain u where
    u: "upd_client pid (\<lambda>c. c\<lparr>cl_exitStatus := st\<rparr>) s = Some u" "only pid (c\<lparr>cl_exitStatus := st\<rparr>) s u" by auto
  have iu: "proc_inv u" by (rule only_inv [OF s c u(2)]) (use proc_inv_ok(1) [OF s c] in \<open>simp_all add: proc_ok_def\<close>)
  from run u(1) have t: "t = u\<lparr>ms_exitProcessPID := pid\<rparr>"
    by (auto simp: proc_exit_handler_def proc_queue_release_def bind_eq_Some_conv)
  then show "ms_exitProcessPID t = pid" by simp
  show "proc_inv t" using iu only_client [OF u(2)] unfolding t by (simp add: proc_inv_def)
qed

lemma unref_only:
  assumes t: "only pid c s t" and r: "1 < cl_ref c" "cl_ref c < 2 ^ 32"
  shows "\<exists>u. vs_unref env pid t = Some u \<and> only pid (c\<lparr>cl_ref := cl_ref c - 1\<rparr>) s u"
proof -
  have w: "u32i (int (cl_ref c) - 1) = cl_ref c - 1" using r by (simp add: u32i_def)
  from only_upd [OF t, of "\<lambda>c. c\<lparr>cl_ref := u32i (int (cl_ref c) - 1)\<rparr>"] obtain u where
    u: "upd_client pid (\<lambda>c. c\<lparr>cl_ref := u32i (int (cl_ref c) - 1)\<rparr>) t = Some u" "only pid (c\<lparr>cl_ref := cl_ref c - 1\<rparr>) s u"
    by (auto simp: w)
  with only_client [OF u(2)] r show ?thesis by (simp add: vs_unref_def)
qed

lemma thread_config_only:
  assumes t: "only pid c s t" and r: "0 < cl_ref c" "Suc (cl_ref c) < 2 ^ 32"
  obtains (failed) u err where "thread_config env prio entry pid t = Some (u, None, err)" "err \<noteq> ESUCCESS" "only pid c s u"
  | (made) u x ps where "thread_config env prio entry pid t = Some (u, Some x, ESUCCESS)" "pt_entryPoint x \<noteq> 0"
      "only pid (c\<lparr>cl_ref := Suc (cl_ref c), cl_pages := ps\<rparr>) s u"
proof (cases "entry = 0")
  case True
  with t show thesis by (intro failed [of t EINVALIDPARAM]) (simp_all add: thread_config_def)
next
  case False
  let ?c = "c\<lparr>cl_ref := Suc (cl_ref c)\<rparr>"
  from only_upd [OF t, of "\<lambda>c. c\<lparr>cl_ref := u32 (cl_ref c + 1)\<rparr>"] obtain a where
    a: "vs_ref pid t = Some a" "only pid ?c s a" using r by (auto simp: vs_ref_def)
  show thesis
  proof (cases "pe_thread env")
    case True
    from only_upd [OF a(2), of "\<lambda>c. c\<lparr>cl_pages := cl_pages c ++ pe_thread_pages env\<rparr>"] obtain u where
      "upd_client pid (\<lambda>c. c\<lparr>cl_pages := cl_pages c ++ pe_thread_pages env\<rparr>) a = Some u"
      "only pid (?c\<lparr>cl_pages := cl_pages c ++ pe_thread_pages env\<rparr>) s u" by auto
    with a(1) False True show thesis by (intro made [of u]) (auto simp: thread_config_def)
  next
    case noth: False
    from unref_only [OF a(2), of env] r obtain u where
      "vs_unref env pid a = Some u" "only pid (c\<lparr>cl_ref := cl_ref c\<rparr>) s u" by auto
    with a(1) False noth show thesis by (intro failed [of u EINVALID]) (simp_all add: thread_config_def)
  qed
qed

lemma clone_inv:
  assumes s: "proc_inv s" and env: "en_heap (pe_mem env) = heap_ok"
    and bound: "\<And>c. client_of s pid = Some c \<Longrightarrow> Suc (cl_ref c) < 2 ^ 32"
    and run: "proc_clone env pid stack entry s = Some (t, tid, err)"
  shows "proc_inv t"
proof (cases "t = s")
  case True
  with s show ?thesis by simp
next
  case False
  with run obtain x where g: "stack \<noteq> 0" "entry \<noteq> 0" "proc_get_thread s pid 0 = Some (Some x)" "en_malloc (pe_mem env) 0"
    by (auto simp: proc_clone_def bind_eq_Some_conv split: if_splits option.splits)
  then obtain c where c: "client_of s pid = Some c" by (auto simp: proc_get_thread_def bind_eq_Some_conv)
  have ok: "proc_ok c" by (rule proc_inv_ok(1) [OF s c])
  then have th: "cv_inv (cl_threads c)" and r: "cl_ref c = Suc (cvector_count (cl_threads c))" by (simp_all add: proc_ok_def)
  have s0: "only pid c s s" by (rule only_refl [OF proc_inv_ok(2) [OF s] c])
  from s0 r bound [OF c] have pre: "only pid c s s" "0 < cl_ref c" "Suc (cl_ref c) < 2 ^ 32" by simp_all
  show ?thesis
  proof (cases rule: thread_config_only [OF pre, of env "pt_priority x" entry, case_names failed made])
    case (failed u e)
    with run g have "t = u" by (simp add: proc_clone_def)
    with only_inv [OF s c failed(3) ok] show ?thesis by simp
  next
    case (made u y ps)
    let ?c1 = "c\<lparr>cl_ref := Suc (cl_ref c), cl_pages := ps\<rparr>"
    from cvector_add_list [OF th, of y] obtain v where
      v: "cvector_add heap_ok (cl_threads c) y = Some (v, length (cv_list (cl_threads c)))" "cv_inv v"
        "cv_list v = cv_list (cl_threads c) @ [y]" by blast
    let ?n = "cvector_count (cl_threads c)"
    have n: "?n = length (cv_list (cl_threads c))" "cvector_count v = Suc ?n" using th v(2,3) by (simp_all add: cvector_count_list)
    let ?c2 = "?c1\<lparr>cl_threads := v\<rparr>"
    from only_upd [OF made(3), of "\<lambda>c. c\<lparr>cl_threads := v\<rparr>"] obtain w where
      w: "upd_client pid (\<lambda>c. c\<lparr>cl_threads := v\<rparr>) u = Some w" "only pid ?c2 s w" by auto
    have cw: "client_of w pid = Some ?c2" "client_of u pid = Some ?c1" by (rule only_client [OF w(2)], rule only_client [OF made(3)])
    have get: "cvector_get v ?n = Some y" using v(2,3) n(1) by (simp add: cvector_get_list)
    show ?thesis
    proof (cases "pe_start env")
      case True
      have "proc_start_thread env pid ?n w = Some (log_calls [Thread_Start (pt_tcb y)] w, ESUCCESS)"
        using cw get n(2) made(2) True by (simp add: proc_start_thread_def thread_start_def)
      with run g made(1) cw v(1) w(1) env have t: "t = log_calls [Thread_Start (pt_tcb y)] w"
        by (simp add: proc_clone_def)
      have "proc_inv w" by (rule only_inv [OF s c w(2)]) (use ok v(2) n(2) r pre(3) in \<open>simp_all add: proc_ok_def\<close>)
      then show ?thesis by (simp add: t proc_inv_log)
    next
      case False
      have st: "proc_start_thread env pid ?n w = Some (w, EINVALID)"
        using cw get n(2) made(2) False by (simp add: proc_start_thread_def thread_start_def)
      from cvector_delete_list [OF v(2), of ?n] v(3) n(1) obtain v' where
        v': "cvector_delete heap_ok v ?n = Some v'" "cv_inv v'" "cv_list v' = cv_list (cl_threads c)" by auto
      let ?c3 = "?c2\<lparr>cl_threads := v'\<rparr>"
      from only_upd [OF w(2), of "\<lambda>c. c\<lparr>cl_threads := v'\<rparr>"] obtain z where
        z: "upd_client pid (\<lambda>c. c\<lparr>cl_threads := v'\<rparr>) w = Some z" "only pid ?c3 s z" by auto
      from unref_only [OF only_log [OF z(2)], of env] r pre(3) obtain z' where
        z': "thread_release env pid y z = Some z'" "only pid (?c3\<lparr>cl_ref := cl_ref c\<rparr>) s z'"
        by (auto simp: thread_release_def)
      have "t = z'" using run g made(1) cw v(1) w(1) env st v'(1) z(1) z'(1) by (simp add: proc_clone_def)
      moreover have "cvector_count v' = ?n" using v'(2,3) n(1) by (simp add: cvector_count_list)
      then have "proc_inv z'" by (intro only_inv [OF s c z'(2)]) (use ok v'(2) in \<open>simp_all add: proc_ok_def\<close>)
      ultimately show ?thesis by simp
    qed
  qed
qed

text \<open>One system call of a process, or the action after one.\<close>

inductive proc_step :: "memserv \<Rightarrow> memserv \<Rightarrow> bool" where
  watch: "en_heap env = heap_ok \<Longrightarrow> proc_watch_client_handler env m pid l ep s = Some (t, err, d) \<Longrightarrow> proc_step s t"
| unwatch: "en_heap env = heap_ok \<Longrightarrow> proc_unwatch_client_handler env m pid l s = Some (t, err) \<Longrightarrow> proc_step s t"
| endpoint: "en_heap env = heap_ok \<Longrightarrow> proc_new_endpoint_internal_handler env alloc pid s = Some (t, ep, err) \<Longrightarrow> proc_step s t"
| async: "en_heap env = heap_ok \<Longrightarrow> proc_new_async_endpoint_internal_handler env alloc pid s = Some (t, ep, err) \<Longrightarrow> proc_step s t"
| nice: "proc_nice_handler penv pid tid prio s = Some (t, err) \<Longrightarrow> proc_step s t"
| clone: "en_heap (pe_mem penv) = heap_ok \<Longrightarrow> (\<And>c. client_of s pid = Some c \<Longrightarrow> Suc (cl_ref c) < 2 ^ 32) \<Longrightarrow>
    proc_clone_internal_handler penv pid entry stack s = Some (t, tid, err) \<Longrightarrow> proc_step s t"
| stop_self: "proc_stop_self_handler pid s = Some t \<Longrightarrow> proc_step s t"
| exit: "proc_exit_handler pid status s = Some (t, err) \<Longrightarrow> proc_step s t"
| postaction: "en_heap (pe_mem penv) = heap_ok \<Longrightarrow> pe_cnode penv = Some cnode \<Longrightarrow> cnode \<noteq> 0 \<Longrightarrow>
    proc_syscall_postaction penv s = Some t \<Longrightarrow> proc_step s t"

lemma postaction_total:
  assumes s: "proc_inv s" and heap: "en_heap (pe_mem env) = heap_ok" and cn: "pe_cnode env = Some x" "x \<noteq> 0"
  shows "\<exists>v. proc_syscall_postaction env s = Some v \<and> proc_inv v \<and> ms_exitProcessPID v = PID_NULL \<and>
    (\<forall>q. client_of v q = None \<longleftrightarrow> q = ms_exitProcessPID s \<or> client_of s q = None)"
proof (cases "ms_exitProcessPID s = PID_NULL")
  case True
  have "client_of s 0 = None" by (simp add: client_of_def pid_get_pcb_def PID_START_def)
  with True s show ?thesis by (auto simp: proc_syscall_postaction_def PID_NULL_def)
next
  case False
  with s obtain c where c: "client_of s (ms_exitProcessPID s) = Some c" by (auto simp: proc_inv_def)
  have inv: "ms_inv s" "procs_ok s" using s by (simp_all add: proc_inv_def)
  obtain v where v: "proc_syscall_postaction env s = Some v" "ms_inv v" "procs_ok v" "ms_exitProcessPID v = PID_NULL"
    "\<forall>q. client_of v q = None \<longleftrightarrow> q = ms_exitProcessPID s \<or> client_of s q = None"
    using process_exit [OF inv refl c heap cn] by (elim exE conjE) (rule that; assumption)
  then have "proc_inv v" unfolding proc_inv_def by blast
  with v show ?thesis by blast
qed

lemma proc_step_inv:
  assumes "proc_step s t" and "proc_inv s"
  shows "proc_inv t"
  using assms
proof (induction rule: proc_step.induct)
  case (watch env m pid l ep s t err d)
  then show ?case using watch_inv by blast
next
  case (unwatch env m pid l s t err)
  then show ?case using unwatch_inv by blast
next
  case (endpoint env alloc pid s t ep err)
  then show ?case using endpoint_inv by (auto simp: proc_new_endpoint_internal_handler_def bind_eq_Some_conv)
next
  case (async env alloc pid s t ep err)
  then show ?case using endpoint_inv by (auto simp: proc_new_async_endpoint_internal_handler_def bind_eq_Some_conv)
next
  case (nice penv pid tid prio s t err)
  then show ?case using nice_inv by blast
next
  case (clone penv s pid entry stack t tid err)
  then show ?case using clone_inv [of s penv pid stack entry t tid err] unfolding proc_clone_internal_handler_def by blast
next
  case (stop_self pid s t)
  then show ?case by (auto simp: proc_stop_self_handler_def bind_eq_Some_conv proc_inv_log)
next
  case (exit pid status s t err)
  then show ?case using exit_inv by blast
next
  case (postaction penv cnode s t)
  then show ?case using postaction_total by fastforce
qed


lemma demo_proc_inv: "proc_inv demo_ms"
proof -
  have "ms_exitProcessPID demo_ms = PID_NULL" by (simp add: demo_ms_def PID_NULL_def)
  with demo_inv demo_procs show ?thesis by (simp add: proc_inv_def)
qed

lemma demo_penv_ok: "en_heap (pe_mem demo_penv) = heap_ok" "pe_cnode demo_penv = Some 3000" "(3000::nat) \<noteq> 0"
  by (simp_all add: demo_penv_def demo_env_def)


text \<open>
  C35 (process exit).  The exit call of a process and the action after it complete: every assertion on the way holds and
  no freed object is read.  Afterwards the process is gone, every window it listed is gone from the window table and no
  other, its references to dataspaces are dropped and no dataspace is deleted, the other processes are still there
  and none of them has it as its parent, its page directory is back in the pool, and the invariants hold again.
\<close>

theorem exit_call_releases:
  assumes inv: "proc_inv s" "ms_exitProcessPID s = PID_NULL" and c: "client_of s pid = Some c"
    and heap: "en_heap (pe_mem env) = heap_ok" and cn: "pe_cnode env = Some x" "x \<noteq> 0"
  shows "\<exists>u v k. proc_exit_handler pid status s = Some (u, ESUCCESS) \<and> proc_syscall_postaction env u = Some v \<and>
    proc_inv v \<and> ms_exitProcessPID v = PID_NULL \<and>
    (\<forall>q. client_of v q = None \<longleftrightarrow> q = pid \<or> client_of s q = None) \<and>
    (\<forall>wa. ms_windows v wa = (case ms_windows s wa of None \<Rightarrow> None
       | Some w \<Rightarrow> if w_wID w \<in> aw_winID ` set (wins (cl_windows c)) then None else Some w)) \<and>
    (\<forall>h. holds v h = (if h = Param pid \<or> h = Notif pid \<or> (\<exists>wa. h = Win wa \<and> ms_windows v wa = None) then None else holds s h)) \<and>
    (\<forall>da. ms_dspaces v da = None \<longleftrightarrow> ms_dspaces s da = None) \<and>
    (\<forall>q d. client_of v q = Some d \<longrightarrow> cl_parentPID d \<noteq> pid) \<and>
    k \<in> pd_live (ms_pdlist s) \<and> cl_kpd c = pd_pd (ms_pdlist s) ! k \<and>
    pd_live (ms_pdlist v) = pd_live (ms_pdlist s) - {k}"
proof -
  let ?f = "\<lambda>c. c\<lparr>cl_exitStatus := status\<rparr>"
  from inv_upd [OF proc_inv_ok(2) [OF inv(1)] c, of ?f] obtain p where
    p: "upd_client pid ?f s = Some (s\<lparr>ms_pids := p\<rparr>)" "client_of (s\<lparr>ms_pids := p\<rparr>) = (client_of s)(pid \<mapsto> ?f c)"
      "holds (s\<lparr>ms_pids := p\<rparr>) = holds s" by auto
  let ?u = "s\<lparr>ms_pids := p, ms_exitProcessPID := pid\<rparr>"
  have run: "proc_exit_handler pid status s = Some (?u, ESUCCESS)"
    using p(1,2) inv(2) by (simp add: proc_exit_handler_def proc_queue_release_def)
  have iu: "ms_inv ?u" "procs_ok ?u" using exit_inv(1) [OF inv(1) run] by (simp_all add: proc_inv_def)
  have cu: "client_of ?u pid = Some (?f c)" "client_of ?u q = None \<longleftrightarrow> client_of s q = None" "holds ?u = holds s" for q
    using p(2,3) c by simp_all
  have eu: "ms_exitProcessPID ?u = pid" by simp
  obtain v k where v: "proc_syscall_postaction env ?u = Some v" "ms_inv v" "procs_ok v" "ms_exitProcessPID v = PID_NULL"
    "\<forall>q. client_of v q = None \<longleftrightarrow> q = pid \<or> client_of ?u q = None"
    "\<forall>wa. ms_windows v wa = (case ms_windows ?u wa of None \<Rightarrow> None
       | Some w \<Rightarrow> if w_wID w \<in> aw_winID ` set (wins (cl_windows (?f c))) then None else Some w)"
    "\<forall>h. holds v h = (if h = Param pid \<or> h = Notif pid \<or> (\<exists>wa. h = Win wa \<and> ms_windows v wa = None) then None else holds ?u h)"
    "\<forall>da. ms_dspaces v da = None \<longleftrightarrow> ms_dspaces ?u da = None"
    "\<forall>q d. client_of v q = Some d \<longrightarrow> cl_parentPID d \<noteq> pid"
    "k \<in> pd_live (ms_pdlist ?u)" "cl_kpd (?f c) = pd_pd (ms_pdlist ?u) ! k"
    "pd_live (ms_pdlist v) = pd_live (ms_pdlist ?u) - {k}"
    using process_exit [OF iu eu cu(1) heap cn] by (elim exE conjE) (rule that; assumption)
  have "proc_inv v" unfolding proc_inv_def using v(2-4) by blast
  moreover have "ms_windows ?u = ms_windows s" "ms_dspaces ?u = ms_dspaces s" "ms_pdlist ?u = ms_pdlist s"
    "cl_windows (?f c) = cl_windows c" "cl_kpd (?f c) = cl_kpd c" by simp_all
  ultimately show ?thesis
    using run v unfolding cu by (intro exI [of _ ?u] exI [of _ v] exI [of _ k] conjI) (simp_all only: simp_thms)
qed

theorem exit_call_releases_witness:
  "\<exists>u v. proc_exit_handler 1 7 demo_ms = Some (u, ESUCCESS) \<and> proc_syscall_postaction demo_penv u = Some v \<and>
    client_of v 1 = None \<and> ms_windows v 2 = None \<and> ms_dspaces v 1 \<noteq> None"
proof -
  have e: "ms_exitProcessPID demo_ms = PID_NULL" by (simp add: demo_ms_def PID_NULL_def)
  have c: "client_of demo_ms 1 = Some demo_client" by (simp add: demo_pids)
  obtain u v where v: "proc_exit_handler 1 7 demo_ms = Some (u, ESUCCESS)" "proc_syscall_postaction demo_penv u = Some v"
    "\<forall>q. client_of v q = None \<longleftrightarrow> q = 1 \<or> client_of demo_ms q = None"
    "\<forall>wa. ms_windows v wa = (case ms_windows demo_ms wa of None \<Rightarrow> None
       | Some w \<Rightarrow> if w_wID w \<in> aw_winID ` set (wins (cl_windows demo_client)) then None else Some w)"
    "\<forall>da. ms_dspaces v da = None \<longleftrightarrow> ms_dspaces demo_ms da = None"
    using exit_call_releases [OF demo_proc_inv e c demo_penv_ok, of 7] by (elim exE conjE) (rule that; assumption)
  have "ms_windows v 2 = None" using v(4) by (simp add: demo_ms_def demo_window_def demo_client_def wins_def)
  moreover have "ms_dspaces v 1 \<noteq> None" using v(5) by (simp add: demo_ms_def)
  moreover have "client_of v 1 = None" using v(3) by simp
  ultimately show ?thesis using v(1,2) by blast
qed

section \<open>Interrupt handlers and partition queries\<close>

text \<open>
  A process without the permission never gets a handler.  Otherwise the handler the server
  obtained for an interrupt is recorded: the next request for the same interrupt, by any process with the permission
  and whatever the kernel answers by then, returns the same handler and does not allocate another, and the
  handlers of the other interrupts are unchanged.
\<close>

theorem irq_handler_recorded:
  assumes inv: "ch_inv l" "\<And>k. ch_lookup l k \<noteq> Some 0" and c: "client_of s pid = Some c"
    and env: "en_heap env = heap_ok" "en_malloc env 0" and irq: "irq' mod 2 ^ 32 = irq mod 2 ^ 32"
  shows "if cl_mask c AND PROCESS_PERMISSION_DEVICE_IRQ = 0
    then proc_get_irq_handler_handler env granted pid irq l s = Some (l, 0)
    else \<exists>l' h. proc_get_irq_handler_handler env granted pid irq l s = Some (l', h) \<and> ch_inv l' \<and>
      (\<forall>k. k \<noteq> u32i irq \<longrightarrow> ch_lookup l' k = ch_lookup l k) \<and>
      (h \<noteq> 0 \<longrightarrow> (\<forall>env' granted'. proc_get_irq_handler_handler env' granted' pid irq' l' s = Some (l', h)))"
proof -
  let ?k = "u32i irq"
  have k: "u32i irq' = ?k" using irq by (simp add: u32i_def)
  have get: "chash_get t ?k = Some (ch_lookup t ?k)" if "ch_inv t" for t :: "nat chash"
    using that by (rule chash_get_lookup)
  show ?thesis
  proof (cases "cl_mask c AND PROCESS_PERMISSION_DEVICE_IRQ = 0")
    case True
    with c show ?thesis by (simp add: proc_get_irq_handler_handler_def)
  next
    case perm: False
    show ?thesis
    proof (cases "ch_lookup l ?k")
      case (Some h)
      moreover from this inv(2) [of ?k] have "h \<noteq> 0" by auto
      ultimately show ?thesis using perm c get [OF inv(1)] inv(1) k
        by (auto simp: proc_get_irq_handler_handler_def procserv_get_irq_handler_def)
    next
      case None
      show ?thesis
      proof (cases "en_slot env 0 = 0 \<or> \<not> granted")
        case True
        with None perm c get [OF inv(1)] inv(1) show ?thesis
          by (auto simp: proc_get_irq_handler_handler_def procserv_get_irq_handler_def)
      next
        case False
        from chash_set_lookup [OF inv(1), of ?k "en_slot env 0"] obtain l' where
          l': "chash_set heap_ok True l ?k (en_slot env 0) = Some (l', 0)" "ch_inv l'"
            "ch_lookup l' = (ch_lookup l)(?k \<mapsto> en_slot env 0)" by auto
        have "proc_get_irq_handler_handler env granted pid irq l s = Some (l', en_slot env 0)"
          using False None perm c get [OF inv(1)] l'(1) env
          by (simp add: proc_get_irq_handler_handler_def procserv_get_irq_handler_def)
        moreover have "proc_get_irq_handler_handler env' granted' pid irq' l' s = Some (l', en_slot env 0)" for env' granted'
          using False perm c get [OF l'(2)] l'(3) k
          by (simp add: proc_get_irq_handler_handler_def procserv_get_irq_handler_def)
        ultimately show ?thesis using perm l'(2,3) by simp
      qed
    qed
  qed
qed

theorem irq_handler_recorded_witness:
  "\<exists>l l'. chash_init heap_ok 32 = Some l \<and>
    proc_get_irq_handler_handler demo_env True 1 33 l
      (demo_ms\<lparr>ms_pids := (ms_pids demo_ms)\<lparr>pl_pcbs := (pl_pcbs (ms_pids demo_ms))[1 := Some (demo_client\<lparr>cl_mask := 2\<rparr>)]\<rparr>\<rparr>) =
      Some (l', 100)"
proof -
  let ?s = "demo_ms\<lparr>ms_pids := (ms_pids demo_ms)\<lparr>pl_pcbs := (pl_pcbs (ms_pids demo_ms))[1 := Some (demo_client\<lparr>cl_mask := 2\<rparr>)]\<rparr>\<rparr>"
  from chash_init_empty [of 32] obtain l :: "nat chash" where
    l: "chash_init heap_ok 32 = Some l" "ch_inv l" "\<forall>k. ch_lookup l k = None" by auto
  have c: "client_of ?s 1 = Some (demo_client\<lparr>cl_mask := 2\<rparr>)"
    by (simp add: client_of_def pid_get_pcb_def demo_ms_def PID_START_def PID_MAX_def)
  have e: "en_heap demo_env = heap_ok" "en_malloc demo_env 0" by (simp_all add: demo_env_def)
  have p: "cl_mask (demo_client\<lparr>cl_mask := 2\<rparr>) AND PROCESS_PERMISSION_DEVICE_IRQ \<noteq> 0"
    by (simp add: PROCESS_PERMISSION_DEVICE_IRQ_def)
  from irq_handler_recorded [where irq = 33 and granted = True, OF l(2) _ c e refl] l(3) p obtain l' h where
    h: "proc_get_irq_handler_handler demo_env True 1 33 l ?s = Some (l', h)" by auto
  have "chash_get l (u32i 33) = Some None" using chash_get_lookup [OF l(2)] l(3) by simp
  with h c p have "h = 100"
    by (auto simp: proc_get_irq_handler_handler_def procserv_get_irq_handler_def bind_eq_Some_conv demo_env_def)
  with h l(1) show ?thesis by blast
qed

text \<open>
  No code assigns \<open>proc\<close>, so it is null in every control block, and each query that reads the partition of the caller
  reads through it.
\<close>

lemma null_proc_aborts:
  assumes "client_of s user = Some c" and "cl_proc c = None"
  shows "thread_query field g s user pid = None" "proc_getpid_handler g s user = None"
    "proc_current_partition_get_id_handler g s user = None" "proc_current_partition_get_period_handler g s user = None"
    "proc_current_partition_get_lock_level_handler g s user = None"
    "proc_current_partition_get_operating_mode_handler g s user = None"
    "proc_current_partition_get_start_condition_handler g s user = None"
    "proc_set_prio_handler env g user pid prio s = None" "proc_stop_handler g user pid s = None"
    "proc_resume_handler g user pid s = None"
proof -
  have p: "caller_part g s user = None" using assms by (simp add: caller_part_def)
  show "thread_query field g s user pid = None" "proc_current_partition_get_id_handler g s user = None"
    "proc_current_partition_get_period_handler g s user = None" "proc_current_partition_get_lock_level_handler g s user = None"
    "proc_current_partition_get_operating_mode_handler g s user = None"
    "proc_current_partition_get_start_condition_handler g s user = None"
    "proc_stop_handler g user pid s = None" "proc_resume_handler g user pid s = None"
    by (simp_all add: thread_query_def proc_current_partition_get_id_handler_def proc_current_partition_get_period_handler_def
        proc_current_partition_get_lock_level_handler_def proc_current_partition_get_operating_mode_handler_def
        proc_current_partition_get_start_condition_handler_def proc_stop_handler_def proc_resume_handler_def p)
  show "proc_getpid_handler g s user = None" using assms by (simp add: proc_getpid_handler_def)
  show "proc_set_prio_handler env g user pid prio s = None"
    by (simp add: proc_set_prio_handler_def p Option.bind_eq_None_conv)
qed

end
