(* ===== verification/Memserv_Calls.thy ===== *)
theory Memserv_Calls
  imports Process_Exit
begin

text \<open>
  Sequences of calls to the memory server.  Every handler of \<open>data_syscall.c\<close> and \<open>mem_syscall.c\<close> that changes
  windows, dataspaces or buffers keeps the invariant \<open>ms_inv\<close>, so the reference counts are exact after any sequence of
  them.
\<close>

section \<open>Opening a dataspace\<close>

lemma find_window_live:
  assumes "find_window s fd = Some (Some wa)"
  shows "ms_windows s wa \<noteq> None"
  using assms by (auto simp: find_window_def w_get_window_def bind_eq_Some_conv split: if_splits option.splits)

lemma ms_inv_dspace:
  assumes inv: "ms_inv s" and d: "ms_dspaces s da = Some d" and e: "ds_ID e = ds_ID d" "ds_ref e = ds_ref d" "ds_ok e"
  shows "ms_inv (s\<lparr>ms_dspaces := (ms_dspaces s)(da \<mapsto> e)\<rparr>)"
proof -
  have ok: "oat_ok (ms_dslist s) (ms_dspaces s) (\<lambda>d. int (ds_ID d)) RAM_DATASPACE_MAX_NUM_DATASPACE"
    "ref_ok (holds s) (ms_dspaces s)" "\<And>a x. ms_dspaces s a = Some x \<Longrightarrow> ds_ok x" using inv by (auto simp: ms_inv_def)
  have "oat_ok (ms_dslist s) ((ms_dspaces s)(da \<mapsto> e)) (\<lambda>d. int (ds_ID d)) RAM_DATASPACE_MAX_NUM_DATASPACE"
    by (rule oat_ok_upd [OF ok(1) d]) (simp add: e)
  moreover have "ref_ok (holds s) ((ms_dspaces s)(da \<mapsto> e))"
    using ok(2) d e(2) unfolding ref_ok_def by auto
  moreover have "ds_ok x" if "((ms_dspaces s)(da \<mapsto> e)) a = Some x" for a x
    using that ok(3) e(3) by (auto split: if_splits)
  ultimately show ?thesis using inv unfolding ms_inv_def by simp
qed

text \<open>The allocators answer, and the table has an identifier left below its last one.\<close>

definition supplied :: "menv \<Rightarrow> bool" where
  "supplied env \<longleftrightarrow> en_heap env = heap_ok \<and> en_malloc env = (\<lambda>_. True) \<and> (\<forall>b. en_mint env b \<noteq> 0)"

definition room_for :: "(nat \<rightharpoonup> 'o) \<Rightarrow> ('o \<Rightarrow> int) \<Rightarrow> nat \<Rightarrow> nat \<Rightarrow> bool" where
  "room_for heap ident mx a \<longleftrightarrow> heap a = None \<and> (\<exists>i. 0 < i \<and> i < mx \<and> (\<forall>b x. heap b = Some x \<longrightarrow> ident x \<noteq> int i))"

lemma room_cell:
  assumes "oat_ok st heap ident mx" and "room_for heap ident mx a"
  shows "\<exists>i. 0 < i \<and> i < mx \<and> st_obj st i = None"
proof -
  from assms(2) obtain i where i: "0 < i" "i < mx" "\<forall>b x. heap b = Some x \<longrightarrow> ident x \<noteq> int i" by (auto simp: room_for_def)
  have "st_obj st i = None"
  proof (rule ccontr)
    assume "st_obj st i \<noteq> None"
    then obtain b where "st_obj st i = Some b" by blast
    from oat_ok_cell [OF assms(1) this] i(3) show False by blast
  qed
  with i show ?thesis by blast
qed

lemma create_spec_ok:
  assumes inv: "ms_inv s" and env: "supplied env" and sz: "sz < 2 ^ 31"
    and room: "room_for (ms_dspaces s) (\<lambda>d. int (ds_ID d)) RAM_DATASPACE_MAX_NUM_DATASPACE (en_addr env)"
  shows "\<exists>t d. ram_dspace_create env sz s = Some (t, Some (en_addr env)) \<and> ms_inv t \<and> holds t = holds s \<and>
    ms_dspaces t = (ms_dspaces s)(en_addr env \<mapsto> d) \<and> client_of t = client_of s \<and> ms_windows t = ms_windows s"
proof -
  let ?a = "en_addr env"
  have ok: "oat_ok (ms_dslist s) (ms_dspaces s) (\<lambda>d. int (ds_ID d)) RAM_DATASPACE_MAX_NUM_DATASPACE"
    "ref_ok (holds s) (ms_dspaces s)" "\<And>a x. ms_dspaces s a = Some x \<Longrightarrow> ds_ok x" using inv by (auto simp: ms_inv_def)
  define np where "np = sz div REFOS_PAGE_SIZE + (if sz mod REFOS_PAGE_SIZE \<noteq> 0 then 1 else 0)"
  define D where "D = (\<lambda>i. \<lparr>ds_ID = i, ds_capability = en_mint env (RAM_DATASPACE_BADGE_BASE + i), ds_ref = 1,
           ds_pages = Some (replicate np 0), ds_npages = np,
           ds_contentInitEnabled = False, ds_contentInitEP = 0, ds_contentInitPID = 0,
           ds_contentInitBitmask = None, ds_contentInitWaitingList = cvector_init,
           ds_physicalAddrEnabled = False, ds_physicalAddr = 0\<rparr>)"
  have u: "u32 sz = sz" using sz by simp
  have cr: "dspace_create env i [u32 sz] s = (Some ?a, s\<lparr>ms_dspaces := (ms_dspaces s)(?a \<mapsto> D i)\<rparr>)" for i
    using env by (simp add: dspace_create_def ram_dspace_oat_create_def supplied_def D_def np_def Let_def u)
  from oat_alloc [where c = "dspace_create env" and arg = "[u32 sz]" and s = s
      and d = "ram_dspace_oat_delete (ram_dspace_unref env)", OF ok(1) room_cell [OF ok(1) room]] cr
  obtain t i where t: "coat_alloc heap_ok (oat_of (dspace_create env) (ram_dspace_oat_delete (ram_dspace_unref env)) (ms_dslist s)) [u32 sz] s =
      Some (t, s\<lparr>ms_dspaces := (ms_dspaces s)(?a \<mapsto> D i)\<rparr>, int i, Some ?a)" "0 < i"
    "\<forall>x. ms_dspaces s ?a = None \<longrightarrow> int (ds_ID x) = int i \<longrightarrow>
       oat_ok (store_of t) ((ms_dspaces s)(?a \<mapsto> x)) (\<lambda>d. int (ds_ID d)) RAM_DATASPACE_MAX_NUM_DATASPACE" by auto
  let ?t = "s\<lparr>ms_dspaces := (ms_dspaces s)(?a \<mapsto> D i), ms_dslist := store_of t\<rparr>"
  have run: "ram_dspace_create env sz s = Some (?t, Some ?a)"
    using t(1,2) env by (simp add: ram_dspace_create_def supplied_def RAM_DATASPACE_INVALID_ID_def)
  have fresh: "ms_dspaces s ?a = None" using room by (simp add: room_for_def)
  have "sz div 4096 < 2 ^ 19" using sz by (simp add: div_less_iff_less_mult)
  then have "np < 2 ^ 20" by (simp add: np_def REFOS_PAGE_SIZE_def)
  then have dok: "ds_ok (D i)"
    using env by (simp add: D_def ds_ok_def supplied_def shape_ok_def pages_def cv_defs cvector_init_def)
  have nh: "holds s h \<noteq> Some ?a" for h using ref_ok_live [OF ok(2), of h ?a] fresh by auto
  have "ref_ok (holds s) ((ms_dspaces s)(?a \<mapsto> D i))"
    using ok(2) fresh nh unfolding ref_ok_def by (auto simp: D_def)
  moreover have "oat_ok (store_of t) ((ms_dspaces s)(?a \<mapsto> D i)) (\<lambda>d. int (ds_ID d)) RAM_DATASPACE_MAX_NUM_DATASPACE"
    using t(3) fresh by (simp add: D_def)
  moreover have "ds_ok x" if "((ms_dspaces s)(?a \<mapsto> D i)) b = Some x" for b x
    using that ok(3) dok by (auto split: if_splits)
  ultimately have "ms_inv ?t" using inv unfolding ms_inv_def by simp
  with run show ?thesis by (intro exI [of _ ?t] exI [of _ "D i"]) simp
qed

lemma set_to_paddr_ok:
  assumes "ram_dspace_set_to_paddr d fr a = Some (e, err)" and "ds_ok d"
  shows "ds_ok e \<and> ds_ID e = ds_ID d \<and> ds_ref e = ds_ref d"
  using assms by (auto simp: ram_dspace_set_to_paddr_def bind_eq_Some_conv ds_ok_def split: if_splits)

lemma open_inv:
  assumes inv: "ms_inv s" and env: "supplied env" and sz: "sz < 2 ^ 31"
    and room: "room_for (ms_dspaces s) (\<lambda>d. int (ds_ID d)) RAM_DATASPACE_MAX_NUM_DATASPACE (en_addr env)"
    and run: "data_open_handler env pid name flags md sz s = Some (t, cap, err)"
  shows "ms_inv t"
proof (cases "t = s")
  case True
  with inv show ?thesis by simp
next
  case False
  let ?a = "en_addr env"
  have pos: "0 < sz" using run False by (auto simp: data_open_handler_def bind_eq_Some_conv split: if_splits)
  then have "u32i sz < 2 ^ 31" using sz by (simp add: u32i_def)
  from create_spec_ok [OF inv env this room] obtain u d where
    u: "ram_dspace_create env (u32i sz) s = Some (u, Some ?a)" "ms_inv u" "holds u = holds s" "ms_dspaces u = (ms_dspaces s)(?a \<mapsto> d)"
    by blast
  have du: "ms_dspaces u ?a = Some d" by (simp add: u(4))
  then have dok: "ds_ok d" using u(2) by (simp add: ms_inv_def)
  have nh: "holds u h \<noteq> Some ?a" for h
  proof -
    have "ref_ok (holds s) (ms_dspaces s)" using inv by (simp add: ms_inv_def)
    from ref_ok_live [OF this, of h ?a] room show ?thesis unfolding u(3) by (auto simp: room_for_def)
  qed
  have fin: "ms_inv t" if v: "ms_inv v" "ms_dspaces v ?a = Some e" "\<And>h. holds v h \<noteq> Some ?a"
      "(if err' \<noteq> ESUCCESS then do { s \<leftarrow> ram_dspace_unref env (int (ds_ID e)) v; Some (s, 0, err') }
        else Some (v, ds_capability e, ESUCCESS)) = Some (t, cap, err)" for v e err'
  proof (cases "err' = ESUCCESS")
    case True
    with v show ?thesis by simp
  next
    case False
    have "en_heap env = heap_ok" using env by (simp add: supplied_def)
    from unref_last [OF v(1-3) this, of 1] v(4) False show ?thesis
      by (auto simp: ram_dspace_unref_def numeral_2_eq_2)
  qed
  from run obtain c where c: "client_of s pid = Some c" by (auto simp: data_open_handler_def bind_eq_Some_conv)
  have nm: "\<not> (case name of None \<Rightarrow> False | Some n \<Rightarrow> length n > 0 \<and> n \<noteq> ''anon'')"
    using run False pos c unfolding data_open_handler_def by (auto split: if_splits)
  note r = run [unfolded data_open_handler_def c, simplified, unfolded if_not_P [OF nm]]
  consider (plain) "flags AND PROCSERV_DSPACE_FLAG_DEVICE_PADDR = 0"
    | (denied) "flags AND PROCSERV_DSPACE_FLAG_DEVICE_PADDR \<noteq> 0" "cl_mask c AND PROCESS_PERMISSION_DEVICE_MAP = 0"
    | (paddr) "flags AND PROCSERV_DSPACE_FLAG_DEVICE_PADDR \<noteq> 0" "cl_mask c AND PROCESS_PERMISSION_DEVICE_MAP \<noteq> 0" by blast
  then show ?thesis
  proof cases
    case plain
    with r pos nm u(1,2) du show ?thesis by simp
  next
    case denied
    with r pos nm u(1) du have "do { s \<leftarrow> ram_dspace_unref env (int (ds_ID d)) u; Some (s, 0, EACCESSDENIED) } = Some (t, cap, err)" by simp
    with fin [OF u(2) du nh, of EACCESSDENIED] show ?thesis by simp
  next
    case paddr
    let ?u = "\<lambda>e. u\<lparr>ms_dspaces := (ms_dspaces u)(?a \<mapsto> e)\<rparr>"
    from paddr r pos nm u(1) du obtain e err' where e: "ram_dspace_set_to_paddr d (ms_frames u) (u32i md) = Some (e, err')"
      "(if err' \<noteq> ESUCCESS then do { s \<leftarrow> ram_dspace_unref env (int (ds_ID e)) (?u e); Some (s, 0, err') }
        else Some (?u e, ds_capability e, ESUCCESS)) = Some (t, cap, err)"
      by (cases "ram_dspace_set_to_paddr d (ms_frames u) (u32i md)") auto
    note k = set_to_paddr_ok [OF e(1) dok]
    from ms_inv_dspace [OF u(2) du] k have "ms_inv (?u e)" by blast
    from fin [OF this _ _ e(2)] nh show ?thesis by simp
  qed
qed

section \<open>Windows and buffers\<close>

lemma datamap_inv:
  assumes inv: "ms_inv s" and run: "data_datamap_handler env m pid fd win off s = Some (t, err)"
  shows "ms_inv t"
proof (cases "t = s")
  case True
  with inv show ?thesis by simp
next
  case False
  with run obtain wa da where w: "find_window s win = Some (Some wa)" "find_dspace s fd = Some (Some da)"
    "w_set_anon_dspace env wa (Some da) off s = Some t"
    by (auto simp: data_datamap_handler_def bind_eq_Some_conv split: if_splits option.splits)
  from find_window_live [OF w(1)] find_dspace_live [OF w(2)] obtain x d where
    "ms_windows s wa = Some x" "ms_dspaces s da = Some d" by blast
  from set_anon_spec [OF inv this, of env off] w(3) show ?thesis by auto
qed

lemma dataunmap_inv:
  assumes inv: "ms_inv s" and run: "data_dataunmap_handler env m pid win s = Some (t, err)"
  shows "ms_inv t"
proof (cases "t = s")
  case True
  with inv show ?thesis by simp
next
  case False
  with run obtain wa x where w: "ms_windows s wa = Some x" "w_set_anon_dspace env wa None 0 s = Some t"
    by (auto simp: data_dataunmap_handler_def bind_eq_Some_conv split: if_splits option.splits)
  from clear_window_spec [OF inv w(1), of env 0] w(2) show ?thesis by auto
qed

lemma set_pager_inv:
  assumes inv: "ms_inv s" and w: "find_window s win = Some (Some wa)" and run: "w_set_pager_endpoint env wa ep pid s = Some t"
  shows "ms_inv t"
proof -
  from find_window_live [OF w] obtain x where "ms_windows s wa = Some x" by blast
  from set_pager_spec [OF inv this, of env ep pid] run show ?thesis by auto
qed

lemma pager_inv:
  assumes inv: "ms_inv s"
  shows "proc_register_as_pager_handler env m pid win ep s = Some (t, err, r) \<Longrightarrow> ms_inv t"
    and "proc_unregister_as_pager_handler env m pid win s = Some (t, err) \<Longrightarrow> ms_inv t"
  using inv set_pager_inv [OF inv]
  by (auto simp: proc_register_as_pager_handler_def proc_unregister_as_pager_handler_def bind_eq_Some_conv
      split: if_splits option.splits)

lemma parambuffer_inv:
  assumes inv: "ms_inv s" and run: "proc_set_parambuffer_handler env m pid fd sz s = Some (t, err)"
  shows "ms_inv t"
proof (cases "t = s")
  case True
  with inv show ?thesis by simp
next
  case False
  with run obtain buf where b: "proc_set_parambuffer env pid buf s = Some t"
    "buf = None \<or> (\<exists>da. buf = Some da \<and> find_dspace s fd = Some (Some da))"
    by (auto simp: proc_set_parambuffer_handler_def find_dspace_def bind_eq_Some_conv split: if_splits option.splits)
  then obtain c where c: "client_of s pid = Some c" by (auto simp: proc_set_parambuffer_def bind_eq_Some_conv)
  have "\<exists>d. ms_dspaces s da = Some d" if "buf = Some da" for da
    using b(2) that find_dspace_live by blast
  then have "\<exists>s'. proc_set_parambuffer env pid buf s = Some s' \<and> ms_inv s' \<and> holds s' = (holds s)(Param pid := buf) \<and> same_objects s s'"
    by (rule set_parambuffer_spec [OF inv c])
  with b(1) show ?thesis by auto
qed

lemma notification_inv:
  assumes inv: "ms_inv s" and mem: "en_malloc env 0" and run: "proc_notification_buffer_handler env m pid fd s = Some (t, err)"
  shows "ms_inv t"
proof (cases "t = s")
  case True
  with inv show ?thesis by simp
next
  case False
  with run obtain da c where b: "proc_set_notificationbuffer env pid (Some da) s = Some (t, err)"
    "find_dspace s fd = Some (Some da)" "client_of s pid = Some c"
    by (auto simp: proc_notification_buffer_handler_def bind_eq_Some_conv split: if_splits option.splits)
  have "\<exists>d. ms_dspaces s x = Some d" if "Some da = Some x" for x
    using b(2) that find_dspace_live by blast
  then have "\<exists>s'. proc_set_notificationbuffer env pid (Some da) s = Some (s', ESUCCESS) \<and> ms_inv s' \<and>
      holds s' = (holds s)(Notif pid := Some da) \<and> same_objects s s'"
    by (rule set_notificationbuffer_spec [OF inv b(3) mem])
  with b(1) show ?thesis by auto
qed

lemma content_init_ok:
  assumes "ram_dspace_content_init True d ep pid = Some (e, freed, err)" and "ds_ok d"
  shows "ds_ok e \<and> ds_ID e = ds_ID d \<and> ds_ref e = ds_ref d"
  using assms
  by (auto simp: ram_dspace_content_init_def bind_eq_Some_conv ds_ok_def Let_def cv_defs cvector_init_def split: if_splits)

lemma have_data_inv:
  assumes inv: "ms_inv s" and mem: "en_malloc env 0" and run: "data_have_data_handler env m pid fd ep s = Some (t, err, r)"
  shows "ms_inv t"
proof (cases "t = s")
  case True
  with inv show ?thesis by simp
next
  case False
  with run obtain c da d where f: "client_of s pid = Some c" "find_dspace s fd = Some (Some da)" "ms_dspaces s da = Some d"
    "check_dispatch_caps m 1 2 \<or> check_dispatch_caps m 1 1"
    by (auto simp: data_have_data_handler_def bind_eq_Some_conv split: if_splits option.splits)
  have "ds_ok d" using inv f(3) by (simp add: ms_inv_def)
  then have key: "ms_inv (log_calls cs (s\<lparr>ms_dspaces := (ms_dspaces s)(da \<mapsto> e)\<rparr>))"
    if "ram_dspace_content_init True d x y = Some (e, fr, r)" for x y e fr r cs
    using content_init_ok [OF that] ms_inv_dspace [OF inv f(3)] by simp
  show ?thesis
  proof (cases "ep = 0")
    case True
    with run f mem obtain e fr where e: "ram_dspace_content_init True d 0 PID_NULL = Some (e, fr, err)"
      "t = log_calls (concat (map free_cap fr)) (s\<lparr>ms_dspaces := (ms_dspaces s)(da \<mapsto> e)\<rparr>)"
      by (cases "ram_dspace_content_init True d 0 PID_NULL") (auto simp: data_have_data_handler_def)
    show ?thesis unfolding e(2) by (rule key [OF e(1)])
  next
    case nz: False
    with run f mem False obtain x where x: "dispatcher_copyout_cptr env ep = Some x" "x \<noteq> 0"
      by (cases "dispatcher_copyout_cptr env ep") (auto simp: data_have_data_handler_def split: if_splits)
    with run f mem nz obtain e fr r' where e: "ram_dspace_content_init True d x pid = Some (e, fr, r')"
      "t = (if r' \<noteq> ESUCCESS then dispatcher_release_copyout_cptr x (log_calls (concat (map free_cap fr)) (s\<lparr>ms_dspaces := (ms_dspaces s)(da \<mapsto> e)\<rparr>))
        else log_calls (concat (map free_cap fr)) (s\<lparr>ms_dspaces := (ms_dspaces s)(da \<mapsto> e)\<rparr>))"
      by (cases "ram_dspace_content_init True d x pid") (auto simp: data_have_data_handler_def Let_def split: if_splits)
    from key [OF e(1)] show ?thesis unfolding e(2) dispatcher_release_copyout_cptr_def by simp
  qed
qed

lemma close_inv:
  assumes inv: "ms_inv s" and heap: "en_heap env = heap_ok" and run: "data_close_handler env m pid fd s = Some (t, err)"
  shows "ms_inv t"
proof (cases "t = s")
  case True
  with inv show ?thesis by simp
next
  case False
  with run obtain da a b d where c: "find_dspace s fd = Some (Some da)" "w_purge_dspace (ram_dspace_unref env) da s = Some a"
    "pid_iterate ms_pids (proc_dspace_delete_callback env da) a = Some b" "ms_dspaces b da = Some d"
    "ram_dspace_unref env (int (ds_ID d)) b = Some t"
    by (auto simp: data_close_handler_def bind_eq_Some_conv split: if_splits option.splits)
  from close_spec [OF inv find_dspace_live [OF c(1)] heap] c(2-5) show ?thesis by auto
qed

section \<open>Creating and deleting a window\<close>

lemma apart_free:
  assumes "win_ok v" "0 < aw_size w" "\<forall>a. aw_offset w \<le> a \<and> a < aw_offset w + aw_size w \<longrightarrow> \<not> covers v a"
  shows "apart v w"
proof (rule ccontr)
  assume n: "\<not> apart v w"
  let ?a = "max (aw_offset v) (aw_offset w)"
  from n assms(1,2) have "aw_offset w \<le> ?a \<and> ?a < aw_offset w + aw_size w" "covers v ?a"
    by (auto simp: apart_def covers_def win_ok_def)
  with assms(3) show False by blast
qed

lemma create_window_ok:
  assumes inv: "ms_inv s" and env: "supplied env"
    and room: "room_for (ms_windows s) w_wID W_MAX_WINDOWS (en_addr env)"
  shows "\<exists>t w. w_create_window env sz pid perm r cache s = Some (t, Some (en_addr env)) \<and> ms_inv t \<and>
    ms_windows t = (ms_windows s)(en_addr env \<mapsto> w) \<and> w_vspace w = Some pid \<and> client_of t = client_of s \<and>
    0 < w_wID w \<and> w_wID w < int W_MAX_WINDOWS \<and> (\<forall>b x. ms_windows s b = Some x \<longrightarrow> w_wID x \<noteq> w_wID w)"
proof -
  let ?a = "en_addr env"
  have ok: "oat_ok (ms_wlist s) (ms_windows s) w_wID W_MAX_WINDOWS" "clients_ok {} (client_of s) (ms_windows s)"
    using inv by (auto simp: ms_inv_def)
  define D where "D = (\<lambda>i. \<lparr>w_wID = s32 i, w_clientOwnerPID = 0, w_size = 0, w_mode = W_MODE_EMPTY, w_permissions = 0,
           w_cacheable = False, w_vspace = None, w_reservation = 0,
           w_capability = en_mint env (W_BADGE_BASE + i), w_pager = 0, w_pagerPID = PID_NULL,
           w_ramDataspace = None, w_ramDataspaceOffset = 0\<rparr>)"
  have cr: "window_oat_create env i [] s = (Some ?a, s\<lparr>ms_windows := (ms_windows s)(?a \<mapsto> D i)\<rparr>)" for i
    using env by (simp add: window_oat_create_def supplied_def D_def)
  from oat_alloc [where c = "window_oat_create env" and arg = "[]" and s = s and d = "window_oat_delete env",
      OF ok(1) room_cell [OF ok(1) room]] cr
  obtain t i where t: "coat_alloc heap_ok (oat_of (window_oat_create env) (window_oat_delete env) (ms_wlist s)) [] s =
      Some (t, s\<lparr>ms_windows := (ms_windows s)(?a \<mapsto> D i)\<rparr>, int i, Some ?a)" "0 < i" "i < W_MAX_WINDOWS"
    "\<forall>x. ms_windows s ?a = None \<longrightarrow> w_wID x = int i \<longrightarrow> oat_ok (store_of t) ((ms_windows s)(?a \<mapsto> x)) w_wID W_MAX_WINDOWS" by auto
  have id: "s32 i = int i" using t(3) by (simp add: s32_def W_MAX_WINDOWS_def)
  let ?w = "(D i)\<lparr>w_clientOwnerPID := pid, w_size := sz, w_mode := W_MODE_EMPTY, w_permissions := perm, w_vspace := Some pid,
    w_reservation := r, w_cacheable := cache\<rparr>"
  let ?t = "s\<lparr>ms_windows := (ms_windows s)(?a \<mapsto> ?w), ms_wlist := store_of t\<rparr>"
  have w: "w_wID ?w = int i" "w_vspace ?w = Some pid" "w_ramDataspace ?w = None" by (simp_all add: D_def id)
  have run: "w_create_window env sz pid perm r cache s = Some (?t, Some ?a)"
    using t(1,2) env by (simp add: w_create_window_def supplied_def W_INVALID_WINID_def upd_window_def)
  have fresh: "ms_windows s ?a = None" using room by (simp add: room_for_def)
  have new: "oat_ok (store_of t) ((ms_windows s)(?a \<mapsto> ?w)) w_wID W_MAX_WINDOWS" using t(4) fresh w(1) by blast
  have other: "w_wID x \<noteq> w_wID ?w" if x: "ms_windows s b = Some x" for b x
  proof
    assume e: "w_wID x = w_wID ?w"
    have b: "b \<noteq> ?a" using x fresh by auto
    then have "((ms_windows s)(?a \<mapsto> ?w)) b = Some x" "((ms_windows s)(?a \<mapsto> ?w)) ?a = Some ?w" using x by simp_all
    from oat_ok_inj [OF new this e] b show False by simp
  qed
  have h: "holds ?t = holds s"
  proof -
    have "holds ?t = (holds s)(Win ?a := None)" using holds_window [of s ?a ?w] w(3) by simp
    also have "\<dots> = holds s" using fresh by (auto simp: fun_eq_iff)
    finally show ?thesis .
  qed
  have "clients_ok {} (client_of s) ((ms_windows s)(?a \<mapsto> ?w))"
    unfolding clients_ok_def
  proof (intro allI impI conjI ballI)
    fix q c assume c: "client_of s q = Some c"
    show "assoc_inv (cl_windows c)" by (rule clients_ok_D(1) [OF inv c])
    fix aw assume "aw \<in> set (wins (cl_windows c))"
    from clients_ok_D(2) [OF inv c this] obtain b x where x: "ms_windows s b = Some x" "w_wID x = aw_winID aw" "w_vspace x = Some q"
      by blast
    moreover have "b \<noteq> ?a" using x(1) fresh by auto
    ultimately have "((ms_windows s)(?a \<mapsto> ?w)) b = Some x" by simp
    with x(2,3) show "(\<exists>wa w. ((ms_windows s)(?a \<mapsto> ?w)) wa = Some w \<and> w_wID w = aw_winID aw \<and> w_vspace w = Some q) \<or>
        q \<in> {} \<and> (\<forall>wa w. ((ms_windows s)(?a \<mapsto> ?w)) wa = Some w \<longrightarrow> w_wID w \<noteq> aw_winID aw)" by blast
  qed
  then have "ms_inv ?t" using inv new unfolding ms_inv_def h by simp
  with run w t(2,3) other show ?thesis by (intro exI [of _ ?t] exI [of _ ?w]) simp
qed

lemma set_windows_inv:
  assumes inv: "ms_inv s" and c: "client_of s pid = Some c" and aws: "assoc_inv aws"
    and own: "\<And>aw. aw \<in> set (wins aws) \<Longrightarrow> \<exists>wa w. ms_windows s wa = Some w \<and> w_wID w = aw_winID aw \<and> w_vspace w = Some pid"
  shows "\<exists>p. set_windows pid aws s = Some (s\<lparr>ms_pids := p\<rparr>) \<and> ms_inv (s\<lparr>ms_pids := p\<rparr>) \<and>
    client_of (s\<lparr>ms_pids := p\<rparr>) = (client_of s)(pid \<mapsto> c\<lparr>cl_windows := aws\<rparr>)"
proof -
  have pi: "pid_inv (ms_pids s)" "clients_ok {} (client_of s) (ms_windows s)" using inv by (simp_all add: ms_inv_def)
  from upd_client_spec [OF pi(1) c, of "\<lambda>c. c\<lparr>cl_windows := aws\<rparr>"] obtain p where
    p: "set_windows pid aws s = Some (s\<lparr>ms_pids := p\<rparr>)" "pid_inv p"
      "client_of (s\<lparr>ms_pids := p\<rparr>) = (client_of s)(pid \<mapsto> c\<lparr>cl_windows := aws\<rparr>)" by (auto simp: set_windows_def)
  have h: "holds (s\<lparr>ms_pids := p\<rparr>) = holds s"
    using holds_client [of "s\<lparr>ms_pids := p\<rparr>" s pid "c\<lparr>cl_windows := aws\<rparr>"] p(3) c by (auto simp: fun_eq_iff)
  have "clients_ok {} ((client_of s)(pid \<mapsto> c\<lparr>cl_windows := aws\<rparr>)) (ms_windows s)"
    unfolding clients_ok_def
  proof (intro allI impI conjI)
    fix q d assume d: "((client_of s)(pid \<mapsto> c\<lparr>cl_windows := aws\<rparr>)) q = Some d"
    show "assoc_inv (cl_windows d)"
      using d aws clients_ok_D(1) [OF inv, of q] by (cases "q = pid") auto
    show "\<forall>aw \<in> set (wins (cl_windows d)). (\<exists>wa w. ms_windows s wa = Some w \<and> w_wID w = aw_winID aw \<and> w_vspace w = Some q) \<or>
        q \<in> {} \<and> (\<forall>wa w. ms_windows s wa = Some w \<longrightarrow> w_wID w \<noteq> aw_winID aw)"
    proof (cases "q = pid")
      case True
      with d own show ?thesis by auto
    next
      case False
      with d have "client_of s q = Some d" by simp
      from clients_ok_D(2) [OF inv this] show ?thesis by blast
    qed
  qed
  then have "ms_inv (s\<lparr>ms_pids := p\<rparr>)" using inv p(2) unfolding ms_inv_def h p(3) by simp
  with p show ?thesis by blast
qed

lemma vs_create_window_ok:
  assumes inv: "ms_inv s" and c: "client_of s pid = Some c" and env: "supplied env"
    and room: "room_for (ms_windows s) w_wID W_MAX_WINDOWS (en_addr env)"
    and lst: "sorted_inv (cl_windows c)" "aw_numIndex (cl_windows c) < W_MAX_ASSOCIATED_WINDOWS"
    and range: "0 < sz" "vaddr + sz < 2 ^ 32"
  shows "\<exists>t r. vs_create_window env pid vaddr sz perm cache s = Some (t, r) \<and> ms_inv t"
proof -
  let ?R = "resort (cl_windows c)"
  let ?free = "\<forall>w \<in> set (wins (cl_windows c)). \<forall>a. vaddr \<le> a \<and> a < vaddr + sz \<longrightarrow> \<not> covers w a"
  have ai: "assoc_inv (cl_windows c)" by (rule clients_ok_D(1) [OF inv c])
  have chk: "w_associate_check (cl_windows c) vaddr sz = Some (?R, ?free)" by (rule check_spec [OF lst(1)]) (use range in simp_all)
  note rs = resort_assoc [OF ai]
  have own: "\<exists>wa w. ms_windows s wa = Some w \<and> w_wID w = aw_winID aw \<and> w_vspace w = Some pid" if "aw \<in> set (wins ?R)" for aw
    using clients_ok_D(2) [OF inv c] that unfolding rs(2) by blast
  from set_windows_inv [OF inv c rs(1) own] obtain p where
    p: "set_windows pid ?R s = Some (s\<lparr>ms_pids := p\<rparr>)" "ms_inv (s\<lparr>ms_pids := p\<rparr>)"
      "client_of (s\<lparr>ms_pids := p\<rparr>) = (client_of s)(pid \<mapsto> c\<lparr>cl_windows := ?R\<rparr>)" by blast
  let ?s = "s\<lparr>ms_pids := p\<rparr>"
  show ?thesis
  proof (cases "?free \<and> en_reserve env vaddr sz perm \<noteq> 0")
    case False
    with c chk p(1,2) show ?thesis by (auto simp: vs_create_window_def Let_def)
  next
    case True
    have room': "room_for (ms_windows ?s) w_wID W_MAX_WINDOWS (en_addr env)" using room by simp
    from create_window_ok [OF p(2) env room', of sz pid perm "en_reserve env vaddr sz perm" cache] obtain u w where
      u: "w_create_window env sz pid perm (en_reserve env vaddr sz perm) cache ?s = Some (u, Some (en_addr env))" "ms_inv u"
        "ms_windows u = (ms_windows s)(en_addr env \<mapsto> w)" "w_vspace w = Some pid" "client_of u = client_of ?s"
        "0 < w_wID w" "w_wID w < int W_MAX_WINDOWS" "\<forall>b x. ms_windows s b = Some x \<longrightarrow> w_wID x \<noteq> w_wID w"
      by auto
    let ?aw = "\<lparr>aw_winID = w_wID w, aw_offset = vaddr, aw_size = sz\<rparr>"
    have cu: "client_of u pid = Some (c\<lparr>cl_windows := ?R\<rparr>)" unfolding u(5) p(3) by simp
    have n: "aw_numIndex ?R < W_MAX_ASSOCIATED_WINDOWS" using lst(2) resort_wins(2) [OF ai] by simp
    have id: "w_wID w \<notin> aw_winID ` set (wins ?R)" using own u(8) by force
    have ap: "apart v ?aw" if "v \<in> set (wins ?R)" for v
      using that True range ai unfolding rs(2) by (intro apart_free) (auto simp: assoc_inv_def layout_ok_def)
    have wok: "win_ok ?aw" using range by (simp add: win_ok_def)
    from associate_spec [where mem = heap_ok, OF rs(1) _ n u(6,7) id refl wok ap] obtain A where
      A: "w_associate heap_ok ?R (w_wID w) vaddr sz = Some (A, ESUCCESS)" "sorted_inv A" "wins A = wins ?R @ [?aw]" by auto
    have "\<exists>wa x. ms_windows u wa = Some x \<and> w_wID x = aw_winID aw \<and> w_vspace x = Some pid" if "aw \<in> set (wins A)" for aw
    proof (cases "aw = ?aw")
      case True
      with u(3,4) show ?thesis by auto
    next
      case False
      with that A(3) have "aw \<in> set (wins ?R)" by simp
      from own [OF this] obtain b x where x: "ms_windows s b = Some x" "w_wID x = aw_winID aw" "w_vspace x = Some pid" by blast
      have "b \<noteq> en_addr env" using x(1) room by (auto simp: room_for_def)
      with x u(3) show ?thesis by auto
    qed
    from set_windows_inv [OF u(2) cu _ this] A(2) obtain p' where
      p': "set_windows pid A u = Some (u\<lparr>ms_pids := p'\<rparr>)" "ms_inv (u\<lparr>ms_pids := p'\<rparr>)" by (auto simp: sorted_inv_def)
    have "vs_create_window env pid vaddr sz perm cache s = Some (u\<lparr>ms_pids := p'\<rparr>, w_wID w, ESUCCESS)"
      using c chk p(1) True u(1,3,6) cu A(1) p'(1) env by (simp add: vs_create_window_def supplied_def W_INVALID_WINID_def)
    with p'(2) show ?thesis by blast
  qed
qed

lemma create_window_inv:
  assumes inv: "ms_inv s" and env: "supplied env"
    and room: "room_for (ms_windows s) w_wID W_MAX_WINDOWS (en_addr env)"
    and lst: "\<And>c. client_of s pid = Some c \<Longrightarrow> sorted_inv (cl_windows c) \<and> aw_numIndex (cl_windows c) < W_MAX_ASSOCIATED_WINDOWS"
    and range: "0 < sz" "vaddr + sz < 2 ^ 32"
    and run: "proc_create_mem_window_internal_handler env pid vaddr sz perm flags s = Some (t, cap, err)"
  shows "ms_inv t"
proof (cases "t = s")
  case True
  with inv show ?thesis by simp
next
  case False
  from run obtain c where c: "client_of s pid = Some c"
    by (auto simp: proc_create_mem_window_internal_handler_def bind_eq_Some_conv)
  let ?k = "flags AND W_FLAGS_UNCACHED = 0"
  from vs_create_window_ok [OF inv c env room _ _ range, of perm ?k] lst [OF c] obtain u i e where
    u: "vs_create_window env pid vaddr sz perm ?k s = Some (u, i, e)" "ms_inv u" by (metis prod.exhaust)
  have "t = u" using run c False u(1)
    by (auto simp: proc_create_mem_window_internal_handler_def bind_eq_Some_conv Let_def split: if_splits)
  with u(2) show ?thesis by simp
qed

lemma unmap_window_own:
  assumes inv: "ms_inv s" and c: "client_of s pid = Some c" and aw: "a \<in> set (wins (cl_windows c))"
  shows "\<exists>wa w. ms_windows s wa = Some w \<and> w_wID w = aw_winID a \<and> w_vspace w = Some pid"
  using clients_ok_D(2) [OF inv c aw] by blast

lemma vs_delete_window_ok:
  assumes inv: "ms_inv s" and c: "client_of s pid = Some c" and heap: "en_heap env = heap_ok"
  shows "\<exists>t. vs_delete_window env pid wID s = Some t \<and> ms_inv t"
proof -
  let ?R = "resort (cl_windows c)"
  have ai: "assoc_inv (cl_windows c)" by (rule clients_ok_D(1) [OF inv c])
  note rs = resort_assoc [OF ai]
  have own: "\<exists>wa w. ms_windows s wa = Some w \<and> w_wID w = aw_winID aw \<and> w_vspace w = Some pid" if "aw \<in> set (wins ?R)" for aw
    using unmap_window_own [OF inv c] that unfolding rs(2) by blast
  from set_windows_inv [OF inv c rs(1) own] obtain p where
    p: "set_windows pid ?R s = Some (s\<lparr>ms_pids := p\<rparr>)" "ms_inv (s\<lparr>ms_pids := p\<rparr>)"
      "client_of (s\<lparr>ms_pids := p\<rparr>) = (client_of s)(pid \<mapsto> c\<lparr>cl_windows := ?R\<rparr>)" by blast
  let ?s = "s\<lparr>ms_pids := p\<rparr>"
  have cs: "client_of ?s pid = Some (c\<lparr>cl_windows := ?R\<rparr>)" unfolding p(3) by simp
  from ai show ?thesis
  proof (cases rule: find_winID_cases [where wID = wID])
    case none
    with c p(1,2) show ?thesis by (simp add: vs_delete_window_def)
  next
    case (some a)
    from unmap_window_spec [OF p(2) cs, of wID] obtain u d where
      u: "vs_unmap_window pid wID ?s = Some u" "unmapped ?s u" "client_of u pid = Some d" "cl_windows d = ?R" by auto
    have iu: "ms_inv u" by (rule unmapped_inv [OF p(2) u(2)])
    from unassociate_spec [OF rs(1), of wID] obtain A where
      A: "w_unassociate ?R wID = Some A" "assoc_inv A" "set (wins A) = {w \<in> set (wins ?R). aw_winID w \<noteq> wID}" by blast
    have ownA: "\<exists>wa w. ms_windows u wa = Some w \<and> w_wID w = aw_winID aw \<and> w_vspace w = Some pid" if "aw \<in> set (wins A)" for aw
      by (rule unmap_window_own [OF iu u(3)]) (use that A(3) u(4) in simp)
    from set_windows_inv [OF iu u(3) A(2) ownA] obtain q where
      q: "set_windows pid A u = Some (u\<lparr>ms_pids := q\<rparr>)" "ms_inv (u\<lparr>ms_pids := q\<rparr>)"
        "client_of (u\<lparr>ms_pids := q\<rparr>) = (client_of u)(pid \<mapsto> d\<lparr>cl_windows := A\<rparr>)" by blast
    let ?u = "u\<lparr>ms_pids := q\<rparr>"
    from unmap_window_own [OF iu u(3), of a] some(2,3) u(4) rs(2) obtain wa w where
      w: "ms_windows ?u wa = Some w" "w_wID w = wID" "w_vspace w = Some pid" by auto
    have X: "r \<in> {}" if r: "client_of ?u r = Some e" "aw \<in> set (wins (cl_windows e))" "aw_winID aw = w_wID w" for r e aw
    proof -
      from unmap_window_own [OF q(2) r(1,2)] obtain vb v where
        v: "ms_windows ?u vb = Some v" "w_wID v = aw_winID aw" "w_vspace v = Some r" by blast
      have "vb = wa" by (rule window_unique [OF q(2) v(1) w(1)]) (simp add: v(2) r(3))
      with v w have "r = pid" by simp
      with r(1) have "e = d\<lparr>cl_windows := A\<rparr>" unfolding q(3) by simp
      with r(2,3) A(3) w(2) show ?thesis by simp
    qed
    have vs: "w_vspace w \<noteq> None" using w(3) by simp
    have "\<exists>t. w_delete_window env (w_wID w) ?u = Some t \<and> dropped {} {w_wID w} ?u t \<and> holds t = (holds ?u)(Win wa := None)"
      by (rule delete_window_spec [OF q(2) w(1) heap vs]) (rule X)
    then obtain t where t: "w_delete_window env wID ?u = Some t" "ms_inv t" using w(2) by (auto simp: dropped_def)
    have "vs_delete_window env pid wID s = Some t"
      using c some(1,3) p(1) u(1,3,4) A(1) q(1) t(1) by (simp add: vs_delete_window_def)
    with t(2) show ?thesis by blast
  qed
qed

lemma delete_window_inv:
  assumes inv: "ms_inv s" and heap: "en_heap env = heap_ok"
    and run: "proc_delete_mem_window_handler env m pid win s = Some (t, err)"
  shows "ms_inv t"
proof (cases "t = s")
  case True
  with inv show ?thesis by simp
next
  case False
  with run obtain c where c: "client_of s pid = Some c" "vs_delete_window env pid (int (win - W_BADGE_BASE)) s = Some t"
    by (auto simp: proc_delete_mem_window_handler_def bind_eq_Some_conv split: if_splits)
  from vs_delete_window_ok [OF inv c(1) heap, of "int (win - W_BADGE_BASE)"] c(2) show ?thesis by auto
qed

section \<open>Sequences of calls\<close>

text \<open>
  One call of a client to the memory server.  The allocators answer where a call allocates, the tables have an identifier
  left where a call takes one, and a window that is created does not wrap around the address space.
\<close>

inductive mem_step :: "memserv \<Rightarrow> memserv \<Rightarrow> bool" where
  opens: "supplied env \<Longrightarrow> sz < 2 ^ 31 \<Longrightarrow>
    room_for (ms_dspaces s) (\<lambda>d. int (ds_ID d)) RAM_DATASPACE_MAX_NUM_DATASPACE (en_addr env) \<Longrightarrow>
    data_open_handler env pid name flags md sz s = Some (t, cap, err) \<Longrightarrow> mem_step s t"
| closes: "en_heap env = heap_ok \<Longrightarrow> data_close_handler env m pid fd s = Some (t, err) \<Longrightarrow> mem_step s t"
| datamap: "data_datamap_handler env m pid fd win off s = Some (t, err) \<Longrightarrow> mem_step s t"
| dataunmap: "data_dataunmap_handler env m pid win s = Some (t, err) \<Longrightarrow> mem_step s t"
| have_data: "en_malloc env 0 \<Longrightarrow> data_have_data_handler env m pid fd ep s = Some (t, err, r) \<Longrightarrow> mem_step s t"
| parambuffer: "proc_set_parambuffer_handler env m pid fd sz s = Some (t, err) \<Longrightarrow> mem_step s t"
| notification: "en_malloc env 0 \<Longrightarrow> proc_notification_buffer_handler env m pid fd s = Some (t, err) \<Longrightarrow> mem_step s t"
| pager: "proc_register_as_pager_handler env m pid win ep s = Some (t, err, r) \<Longrightarrow> mem_step s t"
| unpager: "proc_unregister_as_pager_handler env m pid win s = Some (t, err) \<Longrightarrow> mem_step s t"
| create_window: "supplied env \<Longrightarrow> room_for (ms_windows s) w_wID W_MAX_WINDOWS (en_addr env) \<Longrightarrow>
    (\<And>c. client_of s pid = Some c \<Longrightarrow> sorted_inv (cl_windows c) \<and> aw_numIndex (cl_windows c) < W_MAX_ASSOCIATED_WINDOWS) \<Longrightarrow>
    0 < sz \<Longrightarrow> vaddr + sz < 2 ^ 32 \<Longrightarrow>
    proc_create_mem_window_internal_handler env pid vaddr sz perm flags s = Some (t, cap, err) \<Longrightarrow> mem_step s t"
| delete_window: "en_heap env = heap_ok \<Longrightarrow> proc_delete_mem_window_handler env m pid win s = Some (t, err) \<Longrightarrow> mem_step s t"

lemma mem_step_inv:
  assumes "mem_step s t" and "ms_inv s"
  shows "ms_inv t"
  using assms
proof (induction rule: mem_step.induct)
  case opens
  from opens.prems opens.hyps show ?case by (rule open_inv)
next
  case closes
  from closes.prems closes.hyps show ?case by (rule close_inv)
next
  case datamap
  from datamap.prems datamap.hyps show ?case by (rule datamap_inv)
next
  case dataunmap
  from dataunmap.prems dataunmap.hyps show ?case by (rule dataunmap_inv)
next
  case have_data
  from have_data.prems have_data.hyps show ?case by (rule have_data_inv)
next
  case parambuffer
  from parambuffer.prems parambuffer.hyps show ?case by (rule parambuffer_inv)
next
  case notification
  from notification.prems notification.hyps show ?case by (rule notification_inv)
next
  case pager
  from pager.prems pager.hyps show ?case by (rule pager_inv(1))
next
  case unpager
  from unpager.prems unpager.hyps show ?case by (rule pager_inv(2))
next
  case create_window
  from create_window.prems create_window.hyps show ?case by (rule create_window_inv)
next
  case delete_window
  from delete_window.prems delete_window.hyps show ?case by (rule delete_window_inv)
qed



lemma demo_find_window: "find_window demo_ms 4100 = Some (Some 2)"
proof -
  have "oat_ok (ms_wlist demo_ms) (ms_windows demo_ms) w_wID W_MAX_WINDOWS" using demo_inv by (simp add: ms_inv_def)
  from oat_lookup_obj [OF this, of 1] have "oat_lookup (ms_wlist demo_ms) 1 = Some (Some 2)"
    using demo_store_obj(2) [of 2 1] by (simp add: demo_ms_def badge_defs)
  then show ?thesis
    by (simp add: find_window_def w_get_window_def W_INVALID_WINID_def dispatcher_badge_window_def badge_defs)
      (simp add: demo_ms_def)
qed


end
