(* ===== verification/Apex.thy ===== *)
theory Apex
  imports Proc_Syscall Port Proc_Server
begin

text \<open>
  The client library \<open>libapex\<close> (\<open>apex_proc.c\<close>, \<open>apex_part.c\<close>, \<open>apex_sampling.c\<close>, \<open>apex_common.c\<close>) and its composition
  with the process server: the queries of a service go to the handlers of \<open>proc_syscall.c\<close>, the message it sends to
  \<open>proc_server_handle_message\<close>.
\<close>

section \<open>Types\<close>

text \<open>
  A return code is one of the seven of the standard or, where the code stores a number that it got from the server, any
  other value of the enumeration's type.
\<close>

datatype RETURN_CODE_TYPE = NO_ERROR | NO_ACTION | NOT_AVAILABLE | INVALID_PARAM | INVALID_CONFIG | INVALID_MODE
  | TIMED_OUT | RETURN_CODE_VALUE int

definition return_code_of :: "int \<Rightarrow> RETURN_CODE_TYPE" where
  "return_code_of n =
     (if n = 0 then NO_ERROR else if n = 1 then NO_ACTION else if n = 2 then NOT_AVAILABLE
      else if n = 3 then INVALID_PARAM else if n = 4 then INVALID_CONFIG else if n = 5 then INVALID_MODE
      else if n = 6 then TIMED_OUT else RETURN_CODE_VALUE n)"

definition MIN_PRIORITY_VALUE :: int where "MIN_PRIORITY_VALUE = 1"
definition MAX_PRIORITY_VALUE :: int where "MAX_PRIORITY_VALUE = 63"
definition INFINITE_TIME_VALUE :: int where "INFINITE_TIME_VALUE = -1"

text \<open>\<open>PROCESS_STATE_TYPE\<close>: no enumerator is negative, so a variable of the type is unsigned.\<close>

definition DORMANT :: nat where "DORMANT = 0"
definition READY :: nat where "READY = 1"
definition RUNNING :: nat where "RUNNING = 2"
definition WAITING :: nat where "WAITING = 3"

definition SOURCE :: int where "SOURCE = 0"
definition DESTINATION :: int where "DESTINATION = 1"

lemmas apex_defs = MIN_PRIORITY_VALUE_def MAX_PRIORITY_VALUE_def INFINITE_TIME_VALUE_def DORMANT_def READY_def
  RUNNING_def WAITING_def SOURCE_def DESTINATION_def

record PROCESS_ATTRIBUTE_TYPE =
  at_PERIOD :: int
  at_TIME_CAPACITY :: int
  at_ENTRY_POINT :: nat
  at_STACK_SIZE :: nat
  at_BASE_PRIORITY :: int
  at_DEADLINE :: nat
  at_NAME :: string

record PROCESS_STATUS_TYPE =
  st_DEADLINE_TIME :: int
  st_CURRENT_PRIORITY :: int
  st_PROCESS_STATE :: nat
  st_ATTRIBUTES :: PROCESS_ATTRIBUTE_TYPE

record PARTITION_STATUS_TYPE =
  pt_PERIOD :: int
  pt_DURATION :: int
  pt_IDENTIFIER :: int
  pt_LOCK_LEVEL :: int
  pt_OPERATING_MODE :: nat
  pt_START_CONDITION :: nat

text \<open>
  The client stubs of the process server are generated from \<open>proc_interface.xml\<close>; the library's functions take them as an
  argument.  A stub that gets no reply is \<open>None\<close>.
\<close>

record apex_rpc =
  proc_get_pid_from_name :: "string \<Rightarrow> int option"
  proc_getpid :: "int option"
  rpc_get_deadline_from_pid :: "int \<Rightarrow> int option"
  rpc_get_currprio_from_pid :: "int \<Rightarrow> int option"
  rpc_get_status_from_pid :: "int \<Rightarrow> int option"
  rpc_get_period_from_pid :: "int \<Rightarrow> int option"
  rpc_get_timecap_from_pid :: "int \<Rightarrow> int option"
  rpc_get_entrypoint_from_pid :: "int \<Rightarrow> int option"
  rpc_get_stacksize_from_pid :: "int \<Rightarrow> int option"
  rpc_get_baseprio_from_pid :: "int \<Rightarrow> int option"
  rpc_partition_get_id :: "int option"
  rpc_partition_get_period :: "int option"
  rpc_partition_get_duration :: "nat option"
  rpc_partition_get_lock_level :: "int option"
  rpc_partition_get_operating_mode :: "int option"
  rpc_partition_get_start_condition :: "int option"

section \<open>Sending\<close>

text \<open>
  The words of a message, in the order of the message registers.  Sending does not wait: the kernel drops the message when
  the server is not waiting for one.
\<close>

definition giveup_period :: "nat list" where "giveup_period = [0xabcd]"
definition RPC_NBSend1 :: "int \<Rightarrow> nat list" where "RPC_NBSend1 mess1 = [u32i mess1]"
definition RPC_NBSend2 :: "int \<Rightarrow> int \<Rightarrow> nat list" where "RPC_NBSend2 mess1 mess2 = [u32i mess1, u32i mess2]"
definition RPC_NBSend3 :: "int \<Rightarrow> int \<Rightarrow> int \<Rightarrow> nat list" where
  "RPC_NBSend3 mess1 mess2 mess3 = [u32i mess1, u32i mess2, u32i mess3]"
definition RPC_NBSend4 :: "int \<Rightarrow> int \<Rightarrow> int \<Rightarrow> int \<Rightarrow> nat list" where
  "RPC_NBSend4 mess1 mess2 mess3 mess4 = [u32i mess1, u32i mess2, u32i mess3, u32i mess4]"

lemmas send_defs = giveup_period_def RPC_NBSend1_def RPC_NBSend2_def RPC_NBSend3_def RPC_NBSend4_def

text \<open>
  What the server's message registers hold after a message of these words: the registers behind the last word of the message keep
  the contents \<open>regs\<close>.
\<close>

definition deliver :: "message \<Rightarrow> nat list \<Rightarrow> message" where
  "deliver regs ws =
     \<lparr>mr0 = (if 0 < length ws then ws ! 0 else mr0 regs),
      mr1 = (if 1 < length ws then ws ! 1 else mr1 regs),
      mr2 = (if 2 < length ws then ws ! 2 else mr2 regs)\<rparr>"

section \<open>Processes\<close>

text \<open>
  A service that only sends has as its result the message, if it sends one, and the return code.
\<close>

definition GET_PROCESS_ID :: "apex_rpc \<Rightarrow> string \<Rightarrow> (int \<times> RETURN_CODE_TYPE) option" where
  "GET_PROCESS_ID rpc process_name = do {
     process_id \<leftarrow> proc_get_pid_from_name rpc process_name;
     if process_id = 0 then Some (process_id, INVALID_CONFIG)
     else Some (process_id, NO_ERROR)
   }"

definition GET_MY_ID :: "apex_rpc \<Rightarrow> (int \<times> RETURN_CODE_TYPE) option" where
  "GET_MY_ID rpc = do {
     process_id \<leftarrow> proc_getpid rpc;
     Some (process_id, NO_ERROR)
   }"

definition GET_PROCESS_STATUS ::
  "apex_rpc \<Rightarrow> int \<Rightarrow> PROCESS_STATUS_TYPE \<Rightarrow> (PROCESS_STATUS_TYPE \<times> RETURN_CODE_TYPE) option" where
  "GET_PROCESS_STATUS rpc ident s = do {
     deadline_time \<leftarrow> rpc_get_deadline_from_pid rpc ident;
     current_priority \<leftarrow> rpc_get_currprio_from_pid rpc ident;
     process_state \<leftarrow> rpc_get_status_from_pid rpc ident;
     period \<leftarrow> rpc_get_period_from_pid rpc ident;
     time_capacity \<leftarrow> rpc_get_timecap_from_pid rpc ident;
     entry_point \<leftarrow> rpc_get_entrypoint_from_pid rpc ident;
     stack_size \<leftarrow> rpc_get_stacksize_from_pid rpc ident;
     base_priority \<leftarrow> rpc_get_baseprio_from_pid rpc ident;
     deadline \<leftarrow> rpc_get_deadline_from_pid rpc ident;
     Some (s\<lparr>st_DEADLINE_TIME := deadline_time, st_CURRENT_PRIORITY := current_priority,
             st_PROCESS_STATE := u32i process_state,
             st_ATTRIBUTES := (st_ATTRIBUTES s)\<lparr>at_PERIOD := period, at_TIME_CAPACITY := time_capacity,
               at_ENTRY_POINT := u32i entry_point, at_STACK_SIZE := u32i stack_size,
               at_BASE_PRIORITY := base_priority, at_DEADLINE := u32i deadline\<rparr>\<rparr>, NO_ERROR)
   }"

definition STOP_SELF :: "nat list" where
  "STOP_SELF = RPC_NBSend1 (int SYS_STOP_SELF)"

definition SET_PRIORITY :: "apex_rpc \<Rightarrow> int \<Rightarrow> int \<Rightarrow> (nat list option \<times> RETURN_CODE_TYPE) option" where
  "SET_PRIORITY rpc process_id prio = do {
     r \<leftarrow> rpc_get_status_from_pid rpc process_id;
     let status = u32i r;
     if status < DORMANT \<or> status > WAITING then Some (None, INVALID_PARAM)
     else if prio > MAX_PRIORITY_VALUE \<or> prio < MIN_PRIORITY_VALUE then Some (None, INVALID_PARAM)
     else if status = DORMANT then Some (None, INVALID_MODE)
     else Some (Some (RPC_NBSend3 (int SYS_SET_PRIORITY) process_id prio), NO_ERROR)
   }"

definition SUSPEND_SELF :: "int \<Rightarrow> nat list option \<times> RETURN_CODE_TYPE" where
  "SUSPEND_SELF time_out =
     (if time_out > 0 then (None, NOT_AVAILABLE)
      else (Some (RPC_NBSend1 (int SYS_SUSPEND_SELF)), NO_ERROR))"

definition SUSPEND :: "apex_rpc \<Rightarrow> int \<Rightarrow> (nat list option \<times> RETURN_CODE_TYPE) option" where
  "SUSPEND rpc process_id = do {
     r \<leftarrow> rpc_get_status_from_pid rpc process_id;
     let status = u32i r;
     if status = DORMANT then Some (None, INVALID_MODE)
     else do {
       period \<leftarrow> rpc_get_period_from_pid rpc process_id;
       if period = INFINITE_TIME_VALUE then Some (None, INVALID_MODE)
       else if status = WAITING then Some (None, NO_ACTION)
       else Some (Some (RPC_NBSend2 (int SYS_SUSPEND) process_id), NO_ERROR)
     }
   }"

definition RESUME :: "apex_rpc \<Rightarrow> int \<Rightarrow> (nat list option \<times> RETURN_CODE_TYPE) option" where
  "RESUME rpc process_id = do {
     r \<leftarrow> rpc_get_status_from_pid rpc process_id;
     let status = u32i r;
     if status = DORMANT then Some (None, INVALID_MODE)
     else do {
       period \<leftarrow> rpc_get_period_from_pid rpc process_id;
       if period = INFINITE_TIME_VALUE then Some (None, INVALID_MODE)
       else if status \<noteq> WAITING then Some (None, NO_ACTION)
       else Some (Some (RPC_NBSend2 (int SYS_RESUME) process_id), NO_ERROR)
     }
   }"

definition START :: "apex_rpc \<Rightarrow> int \<Rightarrow> (nat list option \<times> RETURN_CODE_TYPE) option" where
  "START rpc process_id = RESUME rpc process_id"

definition DELAYED_START :: "int \<Rightarrow> int \<Rightarrow> RETURN_CODE_TYPE" where
  "DELAYED_START process_id delay_time = NOT_AVAILABLE"

definition LOCK_PREEMPTION :: RETURN_CODE_TYPE where "LOCK_PREEMPTION = NOT_AVAILABLE"
definition UNLOCK_PREEMPTION :: RETURN_CODE_TYPE where "UNLOCK_PREEMPTION = NOT_AVAILABLE"

text \<open>\<open>CREATE_PROCESS\<close> and \<open>STOP\<close> do nothing: the return code keeps the caller's value.\<close>

definition CREATE_PROCESS :: "PROCESS_ATTRIBUTE_TYPE \<Rightarrow> int \<times> RETURN_CODE_TYPE \<Rightarrow> int \<times> RETURN_CODE_TYPE" where
  "CREATE_PROCESS attributes out = out"

definition STOP :: "int \<Rightarrow> RETURN_CODE_TYPE \<Rightarrow> RETURN_CODE_TYPE" where
  "STOP process_id return_code = return_code"

section \<open>Partitions\<close>

text \<open>An unsigned 64-bit value stored in a \<open>long long\<close>.\<close>

definition s64 :: "nat \<Rightarrow> int" where
  "s64 n = (if u64 n < 2 ^ 63 then int (u64 n) else int (u64 n) - 2 ^ 64)"

definition GET_PARTITION_STATUS :: "apex_rpc \<Rightarrow> (PARTITION_STATUS_TYPE \<times> RETURN_CODE_TYPE) option" where
  "GET_PARTITION_STATUS rpc = do {
     identifier \<leftarrow> rpc_partition_get_id rpc;
     period \<leftarrow> rpc_partition_get_period rpc;
     duration \<leftarrow> rpc_partition_get_duration rpc;
     lock_level \<leftarrow> rpc_partition_get_lock_level rpc;
     operating_mode \<leftarrow> rpc_partition_get_operating_mode rpc;
     start_condition \<leftarrow> rpc_partition_get_start_condition rpc;
     Some (\<lparr>pt_PERIOD = period, pt_DURATION = s64 duration, pt_IDENTIFIER = identifier, pt_LOCK_LEVEL = lock_level,
            pt_OPERATING_MODE = u32i operating_mode, pt_START_CONDITION = u32i start_condition\<rparr>, NO_ERROR)
   }"

definition SET_PARTITION_MODE :: "int \<Rightarrow> nat list \<times> RETURN_CODE_TYPE" where
  "SET_PARTITION_MODE mode = (RPC_NBSend2 (int SYS_SET_PARTITION_MODE) mode, NO_ERROR)"

section \<open>Sampling ports\<close>

text \<open>
  The stubs of the three port calls are arguments: \<open>create\<close> has the name, size, direction and period, \<open>write\<close> the port, the
  message and its length, \<open>read\<close> the port.  \<open>int\<close> is the type of every number in the interface.
\<close>

definition CREATE_SAMPLING_PORT ::
  "(string \<Rightarrow> int \<Rightarrow> int \<Rightarrow> int \<Rightarrow> (int \<times> nat) option) \<Rightarrow> string \<Rightarrow> int \<Rightarrow> int \<Rightarrow> int \<Rightarrow>
   int \<times> RETURN_CODE_TYPE \<Rightarrow> (int \<times> RETURN_CODE_TYPE) option" where
  "CREATE_SAMPLING_PORT create name max_message_size direction refresh_period out =
     (if direction \<noteq> SOURCE \<and> direction \<noteq> DESTINATION then Some (fst out, INVALID_PARAM)
      else do {
        let core_direction = (if direction = SOURCE then POK_PORT_DIRECTION_OUT else POK_PORT_DIRECTION_IN);
        (core_ret, core_id) \<leftarrow> create name max_message_size (int core_direction) (s32 (u32i refresh_period));
        Some (s32 core_id, return_code_of core_ret)
      })"

definition WRITE_SAMPLING_MESSAGE ::
  "(int \<Rightarrow> nat list option \<Rightarrow> int \<Rightarrow> 'p \<Rightarrow> ('p \<times> int) option) \<Rightarrow> int \<Rightarrow> nat list option \<Rightarrow> int \<Rightarrow>
   'p \<Rightarrow> ('p \<times> RETURN_CODE_TYPE) option" where
  "WRITE_SAMPLING_MESSAGE write port_id message_addr len ports =
     (if len \<le> 0 then Some (ports, INVALID_PARAM)
      else do {
        (ports, core_ret) \<leftarrow> write port_id message_addr len ports;
        Some (ports, return_code_of core_ret)
      })"

definition READ_SAMPLING_MESSAGE ::
  "(int \<Rightarrow> nat list option \<Rightarrow> (int \<times> 'r) option) \<Rightarrow> int \<Rightarrow> nat list option \<Rightarrow> ('r \<times> RETURN_CODE_TYPE) option" where
  "READ_SAMPLING_MESSAGE read port_id message_addr = do {
     (core_ret, out) \<leftarrow> read port_id message_addr;
     Some (out, return_code_of core_ret)
   }"

section \<open>The server behind the stubs\<close>

text \<open>
  The stubs of a caller \<open>user\<close> when the transport passes arguments and results on unchanged.  \<open>addr\<close> gives the address of an
  entry point.
\<close>

definition server_rpc :: "(entry_fn \<Rightarrow> nat) \<Rightarrow> sched_state \<Rightarrow> memserv \<Rightarrow> nat \<Rightarrow> apex_rpc" where
  "server_rpc addr g ms user =
     \<lparr>proc_get_pid_from_name = proc_get_pid_from_name_handler g,
      proc_getpid = proc_getpid_handler g ms user,
      rpc_get_deadline_from_pid = proc_get_deadline_from_pid_handler g ms user,
      rpc_get_currprio_from_pid = proc_get_currprio_from_pid_handler g ms user,
      rpc_get_status_from_pid = proc_get_status_from_pid_handler g ms user,
      rpc_get_period_from_pid = proc_get_period_from_pid_handler g ms user,
      rpc_get_timecap_from_pid = proc_get_timecap_from_pid g ms user,
      rpc_get_entrypoint_from_pid = proc_get_entrypoint_from_pid addr g ms user,
      rpc_get_stacksize_from_pid = (\<lambda>pid. Some (proc_get_stacksize_from_pid pid)),
      rpc_get_baseprio_from_pid = proc_get_baseprio_from_pid_handler g ms user,
      rpc_partition_get_id = proc_current_partition_get_id_handler g ms user,
      rpc_partition_get_period = proc_current_partition_get_period_handler g ms user,
      rpc_partition_get_duration = proc_current_partition_get_duration_handler g,
      rpc_partition_get_lock_level = proc_current_partition_get_lock_level_handler g ms user,
      rpc_partition_get_operating_mode = proc_current_partition_get_operating_mode_handler g ms user,
      rpc_partition_get_start_condition = proc_current_partition_get_start_condition_handler g ms user\<rparr>"

text \<open>
  The contract of the two queries that guard the thread services: the status is that of a thread of the caller's partition,
  or \<open>-1\<close>, and then so is the period.
\<close>

locale thread_queries =
  fixes rpc :: apex_rpc and status_of :: "nat \<Rightarrow> pok_state_t"
  assumes query: "rpc_get_status_from_pid rpc pid = Some r \<Longrightarrow>
      r = -1 \<and> rpc_get_period_from_pid rpc pid = Some (-1) \<or> r = int (pok_state_num (status_of (u32i pid)))"
begin

lemma resume_needs_lock:
  assumes "RESUME rpc pid = Some (m, rc)" and "status_of (u32i pid) \<noteq> POK_STATE_LOCK"
  shows "m = None \<and> (rc = INVALID_MODE \<or> rc = NO_ACTION)"
proof -
  from assms(1) obtain r where r: "rpc_get_status_from_pid rpc pid = Some r" by (auto simp: RESUME_def bind_eq_Some_conv)
  have lock: "u32i (int (pok_state_num x)) = 3 \<longleftrightarrow> x = POK_STATE_LOCK" for x
    by (cases x) (simp_all add: u32i_def)
  from query [OF r] assms r lock [of "status_of (u32i pid)"] show ?thesis
    by (auto simp: RESUME_def apex_defs bind_eq_Some_conv Let_def split: if_splits)
qed

lemma suspend_refuses:
  assumes "SUSPEND rpc pid = Some (m, rc)" and "status_of (u32i pid) = POK_STATE_STOPPED"
  shows "m = None \<and> rc = INVALID_MODE"
proof -
  from assms(1) obtain r where r: "rpc_get_status_from_pid rpc pid = Some r" by (auto simp: SUSPEND_def bind_eq_Some_conv)
  from query [OF r] assms r show ?thesis
    by (auto simp: SUSPEND_def apex_defs u32i_def bind_eq_Some_conv Let_def split: if_splits)
qed

lemma resume_stopped:
  assumes "RESUME rpc pid = Some (m, rc)" and "status_of (u32i pid) = POK_STATE_STOPPED"
  shows "m = None \<and> rc = INVALID_MODE"
proof -
  from assms(1) obtain r where r: "rpc_get_status_from_pid rpc pid = Some r" by (auto simp: RESUME_def bind_eq_Some_conv)
  from query [OF r] assms r show ?thesis
    by (auto simp: RESUME_def apex_defs u32i_def bind_eq_Some_conv Let_def split: if_splits)
qed

end

interpretation server: thread_queries "server_rpc addr g ms user" "\<lambda>i. proc_status (proc_array g ! i)"
proof
  fix pid r
  assume "rpc_get_status_from_pid (server_rpc addr g ms user) pid = Some r"
  then show "r = -1 \<and> rpc_get_period_from_pid (server_rpc addr g ms user) pid = Some (-1) \<or>
      r = int (pok_state_num (proc_status (proc_array g ! u32i pid)))"
    by (auto simp: server_rpc_def proc_get_status_from_pid_handler_def proc_get_period_from_pid_handler_def
        thread_query_def bind_eq_Some_conv rd_def split: if_splits)
qed

section \<open>Which states a thread can be in\<close>

text \<open>One decision of the scheduler, seen from thread \<open>j\<close>.\<close>

lemma wake_up_status:
  "proc_status (wake_up now t) \<in> {proc_status t, POK_STATE_RUNNABLE}"
  "proc_status t = POK_STATE_STOPPED \<Longrightarrow> wake_up now t = t"
  by (auto simp: wake_up_def Let_def)

lemma charge_status: "proc_status (charge t) \<in> {proc_status t, POK_STATE_WAIT_NEXT_ACTIVATION}"
  by (auto simp: charge_def Let_def)

lemma sched_status:
  assumes inv: "sched_inv s" and r: "pok_sched s = Some s'" and j: "j < POK_CONFIG_NB_THREADS"
  shows "proc_status (proc_array s' ! j) \<in>
      {proc_status (proc_array s ! j), POK_STATE_RUNNABLE, POK_STATE_WAIT_NEXT_ACTIVATION}"
    and "proc_status (proc_array s ! j) = POK_STATE_STOPPED \<Longrightarrow> j \<noteq> current_thread s \<Longrightarrow>
      proc_status (proc_array s' ! j) = POK_STATE_STOPPED"
proof -
  from pok_sched_cases [OF inv] r obtain p ps e where
    p: "p < POK_CONFIG_NB_PARTITIONS" and e: "elect_spec p s = (ps, e)" and
    s': "proc_array s' = set_end_time (pok_tick_counter s) e ps"
    by (metis option.inject)
  have kept: "procs_kept (proc_array s) ps" by (rule elect_spec_kept(1) [OF inv p e])
  have el: "e < length ps"
    using elect_spec_kept(2) [OF inv p e] thread_ids_bound [OF p, of e] sched_invD(2) [OF inv] kept
    by (auto simp: procs_kept_def IDLE_THREAD_def)
  let ?w = "wake_range (pok_tick_counter s) (part_low (part_array s ! p)) (part_nthreads (part_array s ! p)) (proc_array s)"
  have jl: "j < length (proc_array s)" using j sched_invD(2) [OF inv] by simp
  have w: "proc_status (?w ! j) \<in> {proc_status (proc_array s ! j), POK_STATE_RUNNABLE}"
    "proc_status (proc_array s ! j) = POK_STATE_STOPPED \<Longrightarrow> ?w ! j = proc_array s ! j"
    using wake_up_status [where now = "pok_tick_counter s" and t = "proc_array s ! j"] jl by (auto simp: nth_wake_range)
  have c: "charged s ?w ! j = ?w ! j \<or> j = current_thread s \<and> charged s ?w ! j = charge (?w ! j)"
    using jl by (cases "j = current_thread s") (auto simp: charged_def Let_def)
  have ps: "ps = ?w \<or> ps = charged s ?w"
    using e by (auto simp: elect_spec_def Let_def split: if_splits)
  have st: "proc_status (proc_array s' ! j) = proc_status (ps ! j)"
    unfolding s' by (rule set_end_time_status [OF el])
  show "proc_status (proc_array s' ! j) \<in>
      {proc_status (proc_array s ! j), POK_STATE_RUNNABLE, POK_STATE_WAIT_NEXT_ACTIVATION}"
    unfolding st using ps c w(1) charge_status [where t = "?w ! j"] by auto
  show "proc_status (proc_array s' ! j) = POK_STATE_STOPPED"
    if "proc_status (proc_array s ! j) = POK_STATE_STOPPED" "j \<noteq> current_thread s"
    unfolding st using ps c w(2) that by auto
qed

text \<open>A stopped thread of a partition in normal mode is not elected.\<close>

lemma sched_not_elected:
  assumes inv: "sched_inv s" and r: "pok_sched s = Some s'" and q: "q < POK_CONFIG_NB_PARTITIONS" "j \<in> thread_ids q"
    and mode: "part_mode (part_array s ! q) = PART_MODE_NORMAL"
    and j: "proc_status (proc_array s ! j) = POK_STATE_STOPPED" "j \<noteq> current_thread s"
  shows "j \<noteq> current_thread s'"
proof
  assume e: "j = current_thread s'"
  have b: "j < POK_CONFIG_NB_THREADS" by (rule thread_ids_bound [OF q])
  have "sched_inv s'" using pok_sched_kept [OF inv] r by auto
  then have cp: "current_partition s' < POK_CONFIG_NB_PARTITIONS"
    "j \<in> insert IDLE_THREAD (thread_ids (current_partition s'))"
    using sched_invD(5,6) [of s'] e by (auto simp: running_ok_def Let_def)
  then have "current_partition s' = q"
    using thread_ids_disjoint [OF q(1) cp(1)] q(2) b by (auto simp: IDLE_THREAD_def)
  with pok_sched_elects_runnable [OF inv r] mode e b have "runnable (proc_array s') j"
    by (auto simp: IDLE_THREAD_def split: if_splits)
  with sched_status(2) [OF inv r b j] show False by (simp add: runnable_def)
qed


text \<open>
  No code stores \<open>POK_STATE_LOCK\<close>, \<open>POK_STATE_WAITING\<close> or \<open>POK_STATE_DELAYED_START\<close> in a thread that has none of them.
\<close>

definition plain_states :: "sched_state \<Rightarrow> bool" where
  "plain_states s \<longleftrightarrow> (\<forall>j < POK_CONFIG_NB_THREADS. proc_status (proc_array s ! j) \<in>
     {POK_STATE_STOPPED, POK_STATE_RUNNABLE, POK_STATE_WAIT_NEXT_ACTIVATION})"

lemma plain_sched:
  assumes "sched_inv s" and "pok_sched s = Some s'" and "plain_states s"
  shows "plain_states s'"
  unfolding plain_states_def
proof (intro allI impI)
  fix j assume "j < POK_CONFIG_NB_THREADS"
  with sched_status(1) [OF assms(1,2) this] assms(3) show "proc_status (proc_array s' ! j) \<in>
     {POK_STATE_STOPPED, POK_STATE_RUNNABLE, POK_STATE_WAIT_NEXT_ACTIVATION}"
    unfolding plain_states_def by (metis insert_iff)
qed

lemma plain_upd:
  assumes "plain_states s" and "i < length (proc_array s)"
    and "proc_status (f (proc_array s ! i)) \<in> {proc_status (proc_array s ! i), POK_STATE_STOPPED, POK_STATE_RUNNABLE, POK_STATE_WAIT_NEXT_ACTIVATION}"
  shows "plain_states (s\<lparr>proc_array := (proc_array s)[i := f (proc_array s ! i)]\<rparr>)"
  using assms unfolding plain_states_def by (auto simp: nth_list_update)


text \<open>
  A message leaves the state alone, goes to the other dispatchers, or prepares a state \<open>t\<close> on which the scheduler decides.
\<close>

definition prepared :: "message \<Rightarrow> sched_state \<Rightarrow> sched_state \<Rightarrow> bool" where
  "prepared msg s t \<longleftrightarrow> current_thread t = current_thread s \<and>
     (\<forall>q < POK_CONFIG_NB_PARTITIONS. part_mode (part_array s ! q) = PART_MODE_NORMAL \<longrightarrow>
       part_mode (part_array t ! q) = PART_MODE_NORMAL) \<and>
     (\<forall>j. proc_status (proc_array s ! j) \<noteq> POK_STATE_DELAYED_START \<longrightarrow>
       proc_status (proc_array t ! j) \<in> {proc_status (proc_array s ! j), POK_STATE_STOPPED} \<or>
       j = current_thread s \<and> proc_status (proc_array t ! j) = POK_STATE_WAIT_NEXT_ACTIVATION \<or>
       mr0 msg = SYS_RESUME \<and> j = u32 (mr1 msg) \<and> proc_status (proc_array t ! j) = POK_STATE_RUNNABLE)"

lemma prepared_upd:
  assumes inv: "sys_inv n s" and i: "i < length (proc_array s)"
    and f: "proc_ktcb (f (proc_array s ! i)) = proc_ktcb (proc_array s ! i)"
      "i = IDLE_THREAD \<Longrightarrow> proc_remaining (f (proc_array s ! i)) = 0"
    and st: "proc_status (f (proc_array s ! i)) \<in> {proc_status (proc_array s ! i), POK_STATE_STOPPED} \<or>
       i = current_thread s \<and> proc_status (f (proc_array s ! i)) = POK_STATE_WAIT_NEXT_ACTIVATION \<or>
       mr0 msg = SYS_RESUME \<and> i = u32 (mr1 msg) \<and> proc_status (f (proc_array s ! i)) = POK_STATE_RUNNABLE"
    and r: "do { s \<leftarrow> upd_proc i f s; pok_sched s } = Some s'"
  shows "\<exists>t. sys_inv n t \<and> pok_sched t = Some s' \<and> prepared msg s t"
proof -
  let ?t = "s\<lparr>proc_array := (proc_array s)[i := f (proc_array s ! i)]\<rparr>"
  have "idle_ok (proc_array s ! IDLE_THREAD)" using inv by (simp add: sys_inv_def sched_inv_def)
  then have "procs_kept (proc_array s) ((proc_array s)[i := f (proc_array s ! i)])"
    using i f by (intro procs_kept_upd) (auto simp: idle_ok_def)
  then have t: "sys_inv n ?t" by (rule sys_inv_procs [OF inv])
  have "proc_status (proc_array ?t ! j) \<in> {proc_status (proc_array s ! j), POK_STATE_STOPPED} \<or>
       j = current_thread s \<and> proc_status (proc_array ?t ! j) = POK_STATE_WAIT_NEXT_ACTIVATION \<or>
       mr0 msg = SYS_RESUME \<and> j = u32 (mr1 msg) \<and> proc_status (proc_array ?t ! j) = POK_STATE_RUNNABLE" for j
    using st i by (cases "j = i") auto
  then have "prepared msg s ?t" unfolding prepared_def by simp
  with t r i show ?thesis by (intro exI [of _ ?t]) simp
qed

lemma prepared_mode:
  assumes inv: "sys_inv n s"
    and r: "pok_partition_set_mode (current_partition s) (part_mode_of m) s = Some (s', POK_ERRNO_OK)"
  shows "\<exists>t. sys_inv n t \<and> pok_sched t = Some s' \<and> prepared msg s t"
proof -
  have si: "sched_inv s" using inv by (simp add: sys_inv_def)
  have ok: "part_mode_of m = PART_MODE_NORMAL" "current_thread s = part_thread_main (part_array s ! current_partition s)"
    using r set_mode_refused [OF si, where mode = "part_mode_of m" and pid = "current_partition s"] by fastforce+
  obtain t where
    t: "\<forall>s'. pok_sched t = Some s' \<longrightarrow>
      pok_partition_set_mode (current_partition s) PART_MODE_NORMAL s = Some (s', POK_ERRNO_OK)"
    "sys_inv n t" "part_mode (part_array t ! current_partition s) = PART_MODE_NORMAL"
    "\<forall>q < POK_CONFIG_NB_PARTITIONS. q \<noteq> current_partition s \<longrightarrow> part_untouched q s t" "current_thread t = current_thread s"
    "\<forall>j. proc_status (proc_array s ! j) \<noteq> POK_STATE_DELAYED_START \<longrightarrow>
      proc_status (proc_array t ! j) \<in> {proc_status (proc_array s ! j), POK_STATE_STOPPED}"
    using set_mode_prepared [OF inv ok(2)] by (elim exE conjE) (rule that; assumption)
  from sys_inv_sched [OF t(2)] obtain u where u: "pok_sched t = Some u" by blast
  with t(1) r ok(1) have "u = s'" by simp
  have "part_mode (part_array t ! q) = PART_MODE_NORMAL"
    if "q < POK_CONFIG_NB_PARTITIONS" "part_mode (part_array s ! q) = PART_MODE_NORMAL" for q
    using that t(3,4) by (cases "q = current_partition s") (auto simp: part_untouched_def)
  then have "prepared msg s t" unfolding prepared_def using t(5,6) by blast
  with t(2) u \<open>u = s'\<close> show ?thesis by blast
qed

lemma message_cases:
  assumes inv: "sys_inv n s" and r: "proc_server_handle_message dispatch msg s = Some s'"
  obtains (none) "s' = s" | (dispatch) "dispatch s = Some s'"
  | (sched) t where "sys_inv n t" "pok_sched t = Some s'" "prepared msg s t"
proof -
  have si: "sched_inv s" using inv by (simp add: sys_inv_def)
  note cpr = current_part_rd [OF inv] and cur = inv_current_bound [OF inv]
  have idle: "proc_remaining (proc_array s ! IDLE_THREAD) = 0" "IDLE_THREAD < length (proc_array s)"
    using si by (simp_all add: sched_inv_def idle_ok_def IDLE_THREAD_def)
  let ?cp = "part_array s ! current_partition s"
  let ?i = "u32 (mr1 msg)"
  have own: thesis
    if "do { s \<leftarrow> upd_proc (current_thread s) f s; pok_sched s } = Some s'" "\<And>t. proc_ktcb (f t) = proc_ktcb t"
      "\<And>t. proc_remaining t = 0 \<Longrightarrow> proc_remaining (f t) = 0"
      "\<And>t. proc_status (f t) \<in> {POK_STATE_STOPPED, POK_STATE_WAIT_NEXT_ACTIVATION}" for f
    using prepared_upd [OF inv cur, of f msg s'] that idle(1) sched by (metis insert_iff singletonD)
  have other: thesis
    if "do { s \<leftarrow> upd_proc ?i f s; pok_sched s } = Some s'" "\<not> (part_low ?cp > ?i \<or> part_high ?cp < ?i)"
      "\<And>t. proc_ktcb (f t) = proc_ktcb t"
      "\<And>t. proc_status (f t) \<in> {proc_status t, POK_STATE_STOPPED} \<or> mr0 msg = SYS_RESUME \<and> proc_status (f t) = POK_STATE_RUNNABLE"
    for f
  proof -
    have b: "?i < length (proc_array s)" "?i \<noteq> IDLE_THREAD" using that(2) cpr(2) idle(2) by auto
    from prepared_upd [OF inv b(1), of f msg s'] that(1,3) that(4) [of "proc_array s ! ?i"] b(2) sched show ?thesis by blast
  qed
  have change: thesis if "pok_partition_set_mode (current_partition s) (part_mode_of (mr1 msg)) s = Some (s', POK_ERRNO_OK)"
    using prepared_mode [OF inv that] sched by blast
  note m = r [unfolded proc_server_handle_message_def Let_def]
  consider (up) "mr0 msg = SYS_GIVE_UP" | (mode) "mr0 msg = SYS_SET_PARTITION_MODE"
    | (self) "mr0 msg = SYS_STOP_SELF \<or> mr0 msg = SYS_SUSPEND_SELF" | (prio) "mr0 msg = SYS_SET_PRIORITY"
    | (suspend) "mr0 msg = SYS_SUSPEND" | (resume) "mr0 msg = SYS_RESUME"
    | (rest) "mr0 msg \<notin> {SYS_GIVE_UP, SYS_SET_PARTITION_MODE, SYS_STOP_SELF, SYS_SUSPEND_SELF, SYS_SET_PRIORITY,
        SYS_SUSPEND, SYS_RESUME}" by blast
  then show thesis
  proof cases
    case up
    show thesis
      by (rule own [of "\<lambda>t. t\<lparr>proc_status := POK_STATE_WAIT_NEXT_ACTIVATION, proc_remaining := 0\<rparr>"])
        (use m up in \<open>simp_all add: sys_labels del: upd_proc_in\<close>)
  next
    case mode
    show thesis
      by (rule change)
        (use m mode in \<open>auto simp: sys_labels bind_eq_Some_conv\<close>)
  next
    case self
    show thesis
      by (rule own [of "\<lambda>t. t\<lparr>proc_status := POK_STATE_STOPPED\<rparr>"])
        (use m self in \<open>auto simp: sys_labels simp del: upd_proc_in\<close>)
  next
    case prio
    show thesis
    proof (cases "part_low ?cp > ?i \<or> part_high ?cp < ?i")
      case True
      with m prio cpr(1) none show thesis by (simp add: sys_labels)
    next
      case False
      show thesis
        by (rule other [of "\<lambda>t. t\<lparr>proc_wakeup_time := pok_tick_counter s, proc_prio := u8 (mr2 msg)\<rparr>"])
          (use m prio cpr(1) False in \<open>simp_all add: sys_labels del: upd_proc_in\<close>)
    qed
  next
    case suspend
    show thesis
    proof (cases "part_low ?cp > ?i \<or> part_high ?cp < ?i")
      case True
      with m suspend cpr(1) none show thesis by (simp add: sys_labels)
    next
      case False
      show thesis
        by (rule other [of "\<lambda>t. t\<lparr>proc_status := POK_STATE_STOPPED\<rparr>"])
          (use m suspend cpr(1) False in \<open>simp_all add: sys_labels del: upd_proc_in\<close>)
    qed
  next
    case resume
    show thesis
    proof (cases "part_low ?cp > ?i \<or> part_high ?cp < ?i")
      case True
      with m resume cpr(1) none show thesis by (simp add: sys_labels)
    next
      case False
      show thesis
        by (rule other [of "\<lambda>t. t\<lparr>proc_wakeup_time := pok_tick_counter s, proc_status := POK_STATE_RUNNABLE\<rparr>"])
          (use m resume cpr(1) False in \<open>simp_all add: sys_labels del: upd_proc_in\<close>)
    qed
  next
    case rest
    with m dispatch show thesis by simp
  qed
qed

lemma plain_clone:
  assumes inv: "sched_inv s" and r: "dispatch_clone tcb s = Some s'" and plain: "plain_states s"
  shows "plain_states s'"
proof -
  from r obtain ret tid where c: "pok_partition_thread_create tcb (current_partition s) s = Some (s', ret, tid)"
    by (auto simp: dispatch_clone_def bind_eq_Some_conv)
  show ?thesis
  proof (cases rule: create_cases [OF inv sched_invD(5) [OF inv] c])
    case 1
    with plain show ?thesis by simp
  next
    case (2 i c)
    have "i < length (proc_array s)"
      using thread_ids_bound [OF sched_invD(5) [OF inv] 2(3)] sched_invD(2) [OF inv] by simp
    from plain_upd [OF plain this, of "created (current_partition s) c"] show ?thesis
      unfolding 2(8) by (simp add: plain_states_def created_def)
  qed
qed

lemma plain_message:
  assumes inv: "sys_inv n s" and r: "proc_server_handle_message dispatch msg s = Some s'" and plain: "plain_states s"
    and d: "\<And>t. dispatch s = Some t \<Longrightarrow> plain_states t"
  shows "plain_states s'"
proof (cases rule: message_cases [OF inv r])
  case 1
  with plain show ?thesis by simp
next
  case 2
  then show ?thesis by (rule d)
next
  case (3 t)
  have "proc_status (proc_array t ! j) \<in> {POK_STATE_STOPPED, POK_STATE_RUNNABLE, POK_STATE_WAIT_NEXT_ACTIVATION}"
    if "j < POK_CONFIG_NB_THREADS" for j
  proof -
    from plain that have "proc_status (proc_array s ! j) \<in> {POK_STATE_STOPPED, POK_STATE_RUNNABLE, POK_STATE_WAIT_NEXT_ACTIVATION}"
      by (simp add: plain_states_def)
    moreover from this have "proc_status (proc_array s ! j) \<noteq> POK_STATE_DELAYED_START" by auto
    ultimately show ?thesis using 3(3) unfolding prepared_def by auto
  qed
  then have "plain_states t" by (simp add: plain_states_def)
  with 3(1,2) show ?thesis by (auto intro: plain_sched simp: sys_inv_def)
qed

lemma plain_reach: "reach n s \<Longrightarrow> plain_states s"
proof (induction rule: reach.induct)
  case (boot load tcb c d s)
  from system_init_inv [where tcb = tcb, OF boot(1-5)] boot(6) show ?case by (auto simp: plain_states_def)
next
  case (tick n s s')
  let ?s = "s\<lparr>pok_tick_counter := u64 (pok_tick_counter s + 1)\<rparr>"
  have "sched_inv s" using reach_sys_inv [OF tick.hyps(1)] by (simp add: sys_inv_def)
  then have i: "sched_inv ?s" by (subst sched_inv_cong [of ?s s]) simp_all
  have "pok_sched ?s = Some s'" using tick.hyps(2) by (simp add: scheduler_tick_def)
  from plain_sched [OF i this] tick.IH show ?case by (simp add: plain_states_def)
next
  case (message n s msg s')
  then show ?case using plain_message [OF reach_sys_inv [OF message.hyps(1)] message.hyps(2)]
    by (simp add: dispatch_none_def)
next
  case (clone n s tcb msg s')
  have "sched_inv s" using reach_sys_inv [OF clone.hyps(1)] by (simp add: sys_inv_def)
  with plain_message [OF reach_sys_inv [OF clone.hyps(1)] clone.hyps(2) clone.IH] plain_clone clone.IH show ?case by blast
qed

section \<open>A suspended thread stays suspended\<close>

text \<open>Thread \<open>j\<close> of partition \<open>q\<close>, which is in normal mode, is stopped and not the running thread.\<close>

definition parked :: "nat \<Rightarrow> nat \<Rightarrow> sched_state \<Rightarrow> bool" where
  "parked q j s \<longleftrightarrow> part_mode (part_array s ! q) = PART_MODE_NORMAL \<and> proc_status (proc_array s ! j) = POK_STATE_STOPPED \<and>
     j \<noteq> current_thread s"

lemma parked_sched:
  assumes q: "q < POK_CONFIG_NB_PARTITIONS" "j \<in> thread_ids q" and inv: "sched_inv s" and r: "pok_sched s = Some s'"
    and p: "parked q j s"
  shows "parked q j s'"
  using p sched_not_elected [OF inv r q] sched_status(2) [OF inv r thread_ids_bound [OF q]] pok_sched_mode [OF inv r]
  by (simp add: parked_def)

lemma parked_tick:
  assumes q: "q < POK_CONFIG_NB_PARTITIONS" "j \<in> thread_ids q" and inv: "sys_inv n s" and r: "scheduler_tick s = Some s'"
    and p: "parked q j s"
  shows "parked q j s'"
proof -
  let ?s = "s\<lparr>pok_tick_counter := u64 (pok_tick_counter s + 1)\<rparr>"
  have i: "sched_inv ?s" using inv by (subst sched_inv_cong [of ?s s]) (simp_all add: sys_inv_def)
  have "pok_sched ?s = Some s'" using r by (simp add: scheduler_tick_def)
  from parked_sched [OF q i this] p show ?thesis by (simp add: parked_def)
qed

lemma parked_clone:
  assumes q: "q < POK_CONFIG_NB_PARTITIONS" "j \<in> thread_ids q" and inv: "sys_inv n s"
    and r: "dispatch_clone tcb s = Some s'" and p: "parked q j s"
  shows "parked q j s'"
proof -
  have si: "sched_inv s" using inv by (simp add: sys_inv_def)
  note cp = sched_invD(5) [OF si]
  from r obtain ret tid where c: "pok_partition_thread_create tcb (current_partition s) s = Some (s', ret, tid)"
    by (auto simp: dispatch_clone_def bind_eq_Some_conv)
  show ?thesis
  proof (cases rule: create_cases [OF si cp c])
    case 1
    with p show ?thesis by simp
  next
    case (2 i c)
    then have "q \<noteq> current_partition s" using p by (auto simp: parked_def init_mode_def)
    with thread_ids_disjoint [OF q(1) cp] q(2) 2(3) have "i \<noteq> j" by auto
    with 2 p \<open>q \<noteq> current_partition s\<close> show ?thesis by (simp add: parked_def)
  qed
qed

lemma parked_message:
  assumes q: "q < POK_CONFIG_NB_PARTITIONS" "j \<in> thread_ids q" and inv: "sys_inv n s"
    and r: "proc_server_handle_message dispatch msg s = Some s'" and label: "mr0 msg \<noteq> SYS_RESUME" and p: "parked q j s"
    and d: "\<And>t. dispatch s = Some t \<Longrightarrow> parked q j t"
  shows "parked q j s'"
proof (cases rule: message_cases [OF inv r])
  case 1
  with p show ?thesis by simp
next
  case 2
  then show ?thesis by (rule d)
next
  case (3 t)
  then have "parked q j t" using p q(1) label unfolding parked_def prepared_def by (auto dest: spec [of _ j])
  with 3(1,2) show ?thesis by (auto intro: parked_sched [OF q] simp: sys_inv_def)
qed

section \<open>Runs of the system under clients of the library\<close>

text \<open>The messages a client can send through the library when its queries are answered in state \<open>g\<close>.\<close>

inductive apex_sends :: "sched_state \<Rightarrow> nat list \<Rightarrow> bool" where
  giveup: "apex_sends g giveup_period"
| stop_self: "apex_sends g STOP_SELF"
| suspend_self: "SUSPEND_SELF time_out = (Some ws, rc) \<Longrightarrow> apex_sends g ws"
| set_mode: "SET_PARTITION_MODE mode = (ws, rc) \<Longrightarrow> apex_sends g ws"
| set_priority: "SET_PRIORITY (server_rpc addr g ms user) pid prio = Some (Some ws, rc) \<Longrightarrow> apex_sends g ws"
| suspend: "SUSPEND (server_rpc addr g ms user) pid = Some (Some ws, rc) \<Longrightarrow> apex_sends g ws"
| resume: "RESUME (server_rpc addr g ms user) pid = Some (Some ws, rc) \<Longrightarrow> apex_sends g ws"
| start: "START (server_rpc addr g ms user) pid = Some (Some ws, rc) \<Longrightarrow> apex_sends g ws"

text \<open>
  A step is a tick, the creation of a thread, or the handling of a message.  The queries behind a message are answered in
  any reachable state \<open>g\<close>, not only in the state in which the message arrives: ticks and other messages can come in between.
\<close>

inductive apex_step :: "sched_state \<Rightarrow> sched_state \<Rightarrow> bool" where
  tick: "scheduler_tick s = Some t \<Longrightarrow> apex_step s t"
| clone: "dispatch_clone tcb s = Some t \<Longrightarrow> apex_step s t"
| message: "reach m g \<Longrightarrow> apex_sends g ws \<Longrightarrow> proc_server_handle_message dispatch_none (deliver regs ws) s = Some t \<Longrightarrow>
    apex_step s t"

text \<open>Outside the threads of the partitions a query answers \<open>-1\<close>.\<close>

lemma query_outside:
  assumes inv: "sched_inv g" and pid: "\<not> u32i pid < POK_CONFIG_NB_THREADS" and r: "thread_query f g ms user pid = Some r"
  shows "r = -1"
proof -
  from r obtain part where c: "caller_part g ms user = Some part" by (auto simp: thread_query_def bind_eq_Some_conv)
  then obtain q where q: "q < length (part_array g)" "part = part_array g ! q"
    by (auto simp: caller_part_def bind_eq_Some_conv rd_def split: if_splits)
  have p: "q < POK_CONFIG_NB_PARTITIONS" using q(1) sched_invD(1) [OF inv] by simp
  have "part_high part < POK_CONFIG_NB_THREADS"
    using sched_invD(3) [OF inv p] cfg_bounds [OF p] q(2) by (simp add: part_ok_def)
  with r c pid show ?thesis by (simp add: thread_query_def outside_part_def)
qed

lemma resume_silent:
  assumes "reach m g" and "RESUME (server_rpc addr g ms user) pid = Some (w, rc)"
  shows "w = None \<and> (rc = INVALID_MODE \<or> rc = NO_ACTION)"
proof (cases "u32i pid < POK_CONFIG_NB_THREADS")
  case True
  then have "proc_status (proc_array g ! u32i pid) \<noteq> POK_STATE_LOCK"
    using plain_reach [OF assms(1)] by (auto simp: plain_states_def)
  with server.resume_needs_lock [OF assms(2)] show ?thesis by simp
next
  case False
  have inv: "sched_inv g" using reach_sys_inv [OF assms(1)] by (simp add: sys_inv_def)
  from assms(2) obtain r where r: "proc_get_status_from_pid_handler g ms user pid = Some r"
    by (auto simp: RESUME_def server_rpc_def bind_eq_Some_conv)
  then have "r = -1" using query_outside [OF inv False] by (simp add: proc_get_status_from_pid_handler_def)
  with assms(2) r show ?thesis
    by (auto simp: RESUME_def server_rpc_def apex_defs u32i_def bind_eq_Some_conv Let_def split: if_splits)
qed

lemma apex_sends_label:
  assumes "reach m g" and "apex_sends g ws"
  shows "mr0 (deliver regs ws) \<noteq> SYS_RESUME"
  using assms(2)
proof cases
  case (resume addr ms user pid rc)
  with resume_silent [OF assms(1)] show ?thesis by blast
next
  case (start addr ms user pid rc)
  with resume_silent [OF assms(1)] show ?thesis unfolding START_def by blast
qed (auto simp: send_defs STOP_SELF_def SUSPEND_SELF_def SET_PARTITION_MODE_def SET_PRIORITY_def SUSPEND_def deliver_def
    sys_labels u32i_def bind_eq_Some_conv Let_def split: if_splits)

lemma apex_step_inv:
  assumes "apex_step s t" and "sys_inv n s"
  shows "\<exists>n. sys_inv n t"
  using assms
proof (induction rule: apex_step.induct)
  case (tick s t)
  then show ?case using sys_inv_tick by fastforce
next
  case (clone tcb s t)
  have "current_partition s < POK_CONFIG_NB_PARTITIONS" using clone.prems by (simp add: sys_inv_def sched_inv_def)
  with clone sys_inv_create [OF clone.prems] show ?case by (fastforce simp: dispatch_clone_def bind_eq_Some_conv)
next
  case (message m g ws regs s t)
  then show ?case using sys_inv_message by (fastforce simp: dispatch_none_def)
qed

lemma apex_step_parked:
  assumes q: "q < POK_CONFIG_NB_PARTITIONS" "j \<in> thread_ids q"
    and "apex_step s t" and "sys_inv n s" and "parked q j s"
  shows "parked q j t"
  using assms(3-5)
proof (induction rule: apex_step.induct)
  case (tick s t)
  show ?case by (rule parked_tick [OF q tick.prems(1) tick.hyps tick.prems(2)])
next
  case (clone tcb s t)
  show ?case by (rule parked_clone [OF q clone.prems(1) clone.hyps clone.prems(2)])
next
  case (message m g ws regs s t)
  show ?case
    by (rule parked_message [OF q message.prems(1) message.hyps(3) apex_sends_label [OF message.hyps(1,2)] message.prems(2)])
      (use message.prems(2) in \<open>simp add: dispatch_none_def\<close>)
qed

lemma apex_run_parked:
  assumes q: "q < POK_CONFIG_NB_PARTITIONS" "j \<in> thread_ids q"
    and run: "apex_step\<^sup>*\<^sup>* s t" and inv: "sys_inv n s" and p: "parked q j s"
  shows "parked q j t \<and> (\<exists>n. sys_inv n t)"
  using run
proof (induction rule: rtranclp_induct)
  case base
  from inv p show ?case by blast
next
  case (step t u)
  then show ?case using apex_step_parked [OF q] apex_step_inv by blast
qed

text \<open>The server's side of a suspension.\<close>

lemma suspend_parks:
  assumes inv: "sys_inv n s" and mode: "part_mode (part_array s ! current_partition s) = PART_MODE_NORMAL"
    and j: "j \<in> thread_ids (current_partition s)" "j \<noteq> current_thread s"
    and msg: "mr0 msg = SYS_SUSPEND" "mr1 msg = j"
  shows "\<exists>t. proc_server_handle_message dispatch_none msg s = Some t \<and> sys_inv n t \<and> parked (current_partition s) j t"
proof -
  have si: "sched_inv s" using inv by (simp add: sys_inv_def)
  note cp = sched_invD(5) [OF si] and cpr = current_part_rd [OF inv]
  have b: "j < POK_CONFIG_NB_THREADS" by (rule thread_ids_bound [OF cp j(1)])
  have "u32 j = j" using b by (simp add: POK_CONFIG_NB_THREADS_def)
  moreover have "\<not> (part_low (part_array s ! current_partition s) > j \<or> part_high (part_array s ! current_partition s) < j)"
    using j(1) sched_invD(3) [OF si cp] by (auto simp: part_ok_def thread_ids_def)
  moreover have jl: "j < length (proc_array s)" using b sched_invD(2) [OF si] by simp
  ultimately have h: "proc_server_handle_message dispatch_none msg s =
      pok_sched (s\<lparr>proc_array := (proc_array s)[j := (proc_array s ! j)\<lparr>proc_status := POK_STATE_STOPPED\<rparr>]\<rparr>)"
    using msg cpr(1) by (simp add: proc_server_handle_message_def sys_labels)
  let ?t = "s\<lparr>proc_array := (proc_array s)[j := (proc_array s ! j)\<lparr>proc_status := POK_STATE_STOPPED\<rparr>]\<rparr>"
  have "procs_kept (proc_array s) (proc_array ?t)" using jl by (auto intro: procs_kept_upd)
  from sys_inv_procs [OF inv this] have it: "sys_inv n ?t" by simp
  from sys_inv_sched [OF this] obtain u where u: "pok_sched ?t = Some u" "sys_inv n u" by blast
  have "sched_inv ?t" using it by (simp add: sys_inv_def)
  from parked_sched [OF cp j(1) this u(1)] mode j(2) jl have "parked (current_partition s) j u" by (simp add: parked_def)
  with h u show ?thesis by auto
qed

section \<open>Other services\<close>

lemma for_find_find:
  assumes "\<And>k. k < n \<Longrightarrow> get k = Some (xs ! k)"
  shows "for_find get P i n = Some (find (\<lambda>k. P (xs ! k)) [i..<n])"
  using assms
proof (induction get P i n rule: for_find.induct)
  case (1 get P i n)
  show ?case
  proof (cases "i < n")
    case True
    then have "[i..<n] = i # [Suc i..<n]" by (rule upt_conv_Cons)
    with 1 True show ?thesis by (simp add: for_find.simps [of get P i n])
  next
    case False
    then show ?thesis by (simp add: for_find.simps [of get P i n])
  qed
qed

text \<open>
  A process is found under its name only if it is not thread 0: the server's answer for thread 0 is the same as for no
  thread, and the library takes it for a failure.
\<close>

lemma get_process_id_spec:
  assumes "sched_inv g"
  shows "GET_PROCESS_ID (server_rpc addr g ms user) name =
    (case find (\<lambda>i. name = proc_name (proc_array g ! i)) [0..<POK_CONFIG_NB_THREADS] of
       None \<Rightarrow> Some (0, INVALID_CONFIG)
     | Some i \<Rightarrow> Some (int i, if i = 0 then INVALID_CONFIG else NO_ERROR))"
proof -
  have len: "POK_CONFIG_NB_THREADS \<le> length (proc_array g)" using sched_invD(2) [OF assms] by simp
  show ?thesis
    unfolding GET_PROCESS_ID_def server_rpc_def apex_rpc.select_convs proc_get_pid_from_name_handler_def
    using len by (subst for_find_find [where xs = "proc_array g"]) (auto split: option.split)
qed

text \<open>The creation of a port never returns to the client, because the handler does not return.\<close>

lemma create_port_hangs:
  assumes "direction = SOURCE \<or> direction = DESTINATION"
  shows "CREATE_SAMPLING_PORT (\<lambda>n z d p. map_option (\<lambda>(ps, r). (int (pok_ret_num r), 0))
      (proc_port_sampling_create_handler block g n z d p ports)) name sz direction period out = None"
  using assms by (auto simp: CREATE_SAMPLING_PORT_def proc_port_sampling_create_handler_def)

text \<open>An error of the server is no return code of the standard, except for the numbers 1 to 6.\<close>

lemma write_foreign_code:
  assumes "0 < len" and "proc_port_sampling_write_handler g ident data len ports = Some (ports', POK_ERRNO_PORT)"
  shows "WRITE_SAMPLING_MESSAGE (\<lambda>i d l ps. map_option (\<lambda>(ps, r). (ps, int (pok_ret_num r)))
      (proc_port_sampling_write_handler g i d l ps)) ident data len ports = Some (ports', RETURN_CODE_VALUE 301)"
  using assms by (simp add: WRITE_SAMPLING_MESSAGE_def return_code_of_def)

end
