(* ===== verification/Share.thy ===== *)
theory Share
  imports Prelude
begin

text \<open>
  The shared ring buffer of \<open>librefos\<close> (\<open>share.c\<close>) through which a client and a server exchange bytes.  The words \<open>start\<close> and
  \<open>end\<close> at the head of the buffer are shared too; the reader moves \<open>start\<close>, the writer moves \<open>end\<close>.
\<close>

section \<open>Model\<close>

definition SHARE_METADATA_SIZE :: nat where "SHARE_METADATA_SIZE = 8"

text \<open>The buffer: the words \<open>start\<close> and \<open>end\<close> at its head and the bytes behind them.\<close>

record share =
  sh_start :: nat
  sh_end :: nat
  sh_bytes :: "nat list"

definition refos_share_write_remaining_size :: "nat \<Rightarrow> nat \<Rightarrow> nat \<Rightarrow> nat" where
  "refos_share_write_remaining_size start end1 bufSize =
     (if start > end1 then u32i (int start - int end1 - 1)
      else u32i (int bufSize - 1 - (int end1 - int start)))"

definition refos_share_validate_params :: "nat \<Rightarrow> nat \<Rightarrow> nat \<Rightarrow> int" where
  "refos_share_validate_params bufSize start end1 =
     (if bufSize < SHARE_METADATA_SIZE + 1 then -1
      else if start > bufSize \<or> end1 > bufSize then -1
      else 0)"

text \<open>
  Pointers are options; the last two arguments are the values \<open>start\<close> and \<open>bytesRead\<close> point to.  The result is the return value,
  the destination, the buffer and the two values.
\<close>

definition refos_share_read ::
  "nat list option \<Rightarrow> nat \<Rightarrow> share option \<Rightarrow> nat \<Rightarrow> nat option \<Rightarrow> nat option \<Rightarrow>
   (int \<times> nat list \<times> share \<times> nat option \<times> nat option) option" where
  "refos_share_read dest len bufVaddr bufSize start bytesRead = do {
     d \<leftarrow> dest;
     b \<leftarrow> bufVaddr;
     let end1 = sh_end b;
     let ringBufSize = u32i (int bufSize - int SHARE_METADATA_SIZE);
     (case (start, bytesRead) of
        (Some st, Some _) \<Rightarrow>
          if refos_share_validate_params bufSize st end1 \<noteq> 0 then Some (-1, d, b, start, bytesRead)
          else do {
            (d, n) \<leftarrow>
              (if st \<le> end1 then do {
                 let n = min (end1 - st) len;
                 d \<leftarrow> copy_bytes d 0 (drop st (sh_bytes b)) n;
                 Some (d, n)
               }
               else do {
                 let n = min (u32i (int ringBufSize - int st)) len;
                 d \<leftarrow> copy_bytes d 0 (drop st (sh_bytes b)) n;
                 let bytesRemain = min (len - n) end1;
                 if bytesRemain > 0 then do {
                   d \<leftarrow> copy_bytes d n (sh_bytes b) bytesRemain;
                   Some (d, u32 (n + bytesRemain))
                 }
                 else Some (d, n)
               });
            let st = u32 (st + n) mod ringBufSize;
            Some (0, d, b\<lparr>sh_start := st\<rparr>, Some st, Some n)
          }
      | _ \<Rightarrow> Some (-1, d, b, start, bytesRead))
   }"

definition refos_share_write ::
  "nat list option \<Rightarrow> nat \<Rightarrow> share option \<Rightarrow> nat \<Rightarrow> nat option \<Rightarrow> (int \<times> share \<times> nat option) option" where
  "refos_share_write src len bufVaddr bufSize end1 = do {
     s \<leftarrow> src;
     b \<leftarrow> bufVaddr;
     let start = sh_start b;
     let ringBufSize = u32i (int bufSize - int SHARE_METADATA_SIZE);
     (case end1 of
        None \<Rightarrow> Some (-1, b, end1)
      | Some e \<Rightarrow>
          if refos_share_validate_params bufSize start e \<noteq> 0 then Some (-1, b, end1)
          else if len > refos_share_write_remaining_size start e ringBufSize then Some (-1, b, end1)
          else do {
            xs \<leftarrow>
              (if e < start then copy_bytes (sh_bytes b) e s len
               else do {
                 let endBytes = min len (u32i (int ringBufSize - int e));
                 xs \<leftarrow> copy_bytes (sh_bytes b) e s endBytes;
                 c_assert (endBytes \<le> len);
                 if endBytes < len then copy_bytes xs 0 (drop endBytes s) (len - endBytes)
                 else Some xs
               });
            let e = u32 (e + len) mod ringBufSize;
            Some (0, b\<lparr>sh_bytes := xs, sh_end := e\<rparr>, Some e)
          })
   }"

section \<open>The ring as a queue\<close>

text \<open>Both words are inside the ring; a ring of \<open>n\<close> bytes holds up to \<open>n - 1\<close>.\<close>

definition sh_inv :: "nat \<Rightarrow> share \<Rightarrow> bool" where
  "sh_inv bufSize b \<longleftrightarrow> SHARE_METADATA_SIZE < bufSize \<and> bufSize \<le> 2 ^ 31 \<and>
     length (sh_bytes b) = bufSize - SHARE_METADATA_SIZE \<and>
     sh_start b < length (sh_bytes b) \<and> sh_end b < length (sh_bytes b)"

definition sh_queue :: "share \<Rightarrow> nat list" where
  "sh_queue b =
     (if sh_start b \<le> sh_end b then take (sh_end b - sh_start b) (drop (sh_start b) (sh_bytes b))
      else drop (sh_start b) (sh_bytes b) @ take (sh_end b) (sh_bytes b))"

definition sh_room :: "share \<Rightarrow> nat" where
  "sh_room b = length (sh_bytes b) - 1 - length (sh_queue b)"

lemma sh_invD:
  assumes "sh_inv bufSize b"
  shows "refos_share_validate_params bufSize (sh_start b) (sh_end b) = 0"
    and "u32i (int bufSize - int SHARE_METADATA_SIZE) = length (sh_bytes b)"
    and "length (sh_bytes b) < 2 ^ 31" and "0 < length (sh_bytes b)"
  using assms
  by (auto simp: sh_inv_def refos_share_validate_params_def SHARE_METADATA_SIZE_def u32i_def)

lemma length_sh_queue:
  assumes "sh_inv bufSize b"
  shows "length (sh_queue b) = (if sh_start b \<le> sh_end b then sh_end b - sh_start b
    else length (sh_bytes b) - sh_start b + sh_end b)"
  using assms by (auto simp: sh_queue_def sh_inv_def)

lemma remaining_room:
  assumes "sh_inv bufSize b"
  shows "refos_share_write_remaining_size (sh_start b) (sh_end b) (length (sh_bytes b)) = sh_room b"
  using assms length_sh_queue [OF assms]
  by (auto simp: refos_share_write_remaining_size_def sh_room_def sh_inv_def u32i_def SHARE_METADATA_SIZE_def)

text \<open>What a write leaves in the bytes and in \<open>end\<close>, in its three cases.\<close>

lemma share_write_case:
  assumes inv: "sh_inv bufSize b" and s: "len \<le> length s" and room: "len \<le> sh_room b"
  shows "\<exists>xs e. refos_share_write (Some s) len (Some b) bufSize (Some (sh_end b)) =
      Some (0, b\<lparr>sh_bytes := xs, sh_end := e\<rparr>, Some e) \<and>
    length xs = length (sh_bytes b) \<and> e < length xs \<and>
    sh_queue (b\<lparr>sh_bytes := xs, sh_end := e\<rparr>) = sh_queue b @ take len s"
proof -
  let ?xs = "sh_bytes b" and ?s = "sh_start b" and ?e = "sh_end b"
  let ?R = "length ?xs"
  note D = sh_invD [OF inv]
  have b: "?s < ?R" "?e < ?R" using inv by (auto simp: sh_inv_def)
  have rem: "\<not> len > refos_share_write_remaining_size ?s ?e ?R" using room remaining_room [OF inv] by simp
  have sub: "u32i (int ?R - int ?e) = ?R - ?e" using b D(3) by (auto simp: u32i_def)
  have sum: "u32 (?e + len) = ?e + len"
    using b D(3) room by (auto simp: sh_room_def u32_def)
  note run = refos_share_write_def D(1,2) rem
  consider (before) "?e < ?s" | (inside) "?s \<le> ?e" "len \<le> ?R - ?e" | (around) "?s \<le> ?e" "?R - ?e < len" by linarith
  then show ?thesis
  proof cases
    case before
    then have l: "?e + len < ?s" using room b length_sh_queue [OF inv] by (auto simp: sh_room_def)
    let ?ys = "take ?e ?xs @ take len s @ drop (?e + len) ?xs"
    have c: "copy_bytes ?xs ?e s len = Some ?ys" using s b l by (auto simp: copy_bytes_def)
    show ?thesis
      using before l b s sum c
      by (intro exI [of _ ?ys] exI [of _ "?e + len"]) (simp add: run sh_queue_def Let_def min_def)
  next
    case inside
    let ?ys = "take ?e ?xs @ take len s @ drop (?e + len) ?xs"
    have c: "copy_bytes ?xs ?e s len = Some ?ys" using s b inside by (auto simp: copy_bytes_def)
    have m: "min len (?R - ?e) = len" using inside by simp
    show ?thesis
    proof (cases "?e + len = ?R")
      case True
      then have "0 < ?s" using inside room b length_sh_queue [OF inv] by (auto simp: sh_room_def)
      then show ?thesis
        using inside b s sum c m True
        by (intro exI [of _ ?ys] exI [of _ 0]) (auto simp: run sub sh_queue_def Let_def drop_take)
    next
      case False
      then have "?e + len < ?R" using inside b by simp
      then show ?thesis
        using inside b s sum c m
        by (intro exI [of _ ?ys] exI [of _ "?e + len"]) (simp add: run sub sh_queue_def Let_def drop_take)
    qed
  next
    case around
    define k where "k = len - (?R - ?e)"
    define ys where "ys = take ?e ?xs @ take (?R - ?e) s"
    define zs where "zs = take k (drop (?R - ?e) s) @ drop k ys"
    have k: "k < ?s" "?e + len = k + ?R" "k \<le> length (drop (?R - ?e) s)" "len = (?R - ?e) + k"
      using around room b s length_sh_queue [OF inv] by (auto simp: sh_room_def k_def)
    have ly: "length ys = ?R" "length zs = ?R" using k b s by (auto simp: ys_def zs_def)
    have c: "copy_bytes ?xs ?e s (?R - ?e) = Some ys" using s b around by (auto simp: copy_bytes_def ys_def)
    have d: "copy_bytes ys 0 (drop (?R - ?e) s) k = Some zs"
      using k b ly by (auto simp: copy_bytes_def zs_def)
    have m: "min len (?R - ?e) = ?R - ?e" "?R - ?e < len" using around by simp_all
    have e: "(?e + len) mod ?R = k" using k(1,2) b by (simp only: mod_add_self2 mod_less)
    have "refos_share_write (Some s) len (Some b) bufSize (Some ?e) = Some (0, b\<lparr>sh_bytes := zs, sh_end := k\<rparr>, Some k)"
      unfolding run(1) using around(1) c d m(2) by (simp add: run(2-4) sub sum m(1) e Let_def flip: k_def)
    moreover have "drop ?s zs = drop ?s ys"
      using k(1,3) by (simp add: zs_def drop_append)
    moreover have "drop ?s ys = take (?e - ?s) (drop ?s ?xs) @ take (?R - ?e) s"
      using around(1) b by (simp add: ys_def drop_take)
    moreover have "take k zs = take k (drop (?R - ?e) s)" using k(3) by (simp add: zs_def)
    moreover have "take len s = take (?R - ?e) s @ take k (drop (?R - ?e) s)" unfolding k(4) by (rule take_add)
    ultimately show ?thesis
      using around(1) k(1) ly b by (intro exI [of _ zs] exI [of _ k]) (simp add: sh_queue_def)
  qed
qed


text \<open>A read takes the first bytes of the queue.\<close>

lemma share_read_case:
  assumes inv: "sh_inv bufSize b" and d: "len \<le> length dst"
  shows "\<exists>st. refos_share_read (Some dst) len (Some b) bufSize (Some (sh_start b)) (Some x) =
      Some (0, take len (sh_queue b) @ drop (min len (length (sh_queue b))) dst, b\<lparr>sh_start := st\<rparr>, Some st,
        Some (min len (length (sh_queue b)))) \<and>
    st < length (sh_bytes b) \<and> sh_queue (b\<lparr>sh_start := st\<rparr>) = drop len (sh_queue b)"
proof -
  let ?xs = "sh_bytes b" and ?s = "sh_start b" and ?e = "sh_end b"
  let ?R = "length ?xs"
  note D = sh_invD [OF inv] and lq = length_sh_queue [OF inv]
  have b: "?s < ?R" "?e < ?R" using inv by (auto simp: sh_inv_def)
  have sub: "u32i (int ?R - int ?s) = ?R - ?s" using b D(3) by (auto simp: u32i_def)
  note run = refos_share_read_def D(1,2)
  consider (straight) "?s \<le> ?e" | (short) "?e < ?s" "len \<le> ?R - ?s" | (around) "?e < ?s" "?R - ?s < len" by linarith
  then show ?thesis
  proof cases
    case straight
    let ?n = "min (?e - ?s) len"
    have q: "sh_queue b = take (?e - ?s) (drop ?s ?xs)" using straight by (simp add: sh_queue_def)
    have c: "copy_bytes dst 0 (drop ?s ?xs) ?n = Some (take len (sh_queue b) @ drop ?n dst)"
      using d straight b unfolding q by (auto simp: copy_bytes_def min.commute)
    have "u32 (?s + ?n) = ?s + ?n" using b D(3) by (auto simp: u32_def)
    moreover have "?s + ?n < ?R" using straight b by simp
    ultimately show ?thesis
      using straight b c lq
      by (intro exI [of _ "?s + ?n"]) (auto simp: run q sh_queue_def Let_def drop_take min_def add.commute)
  next
    case short
    have q: "sh_queue b = drop ?s ?xs @ take ?e ?xs" using short by (simp add: sh_queue_def)
    have c: "copy_bytes dst 0 (drop ?s ?xs) len = Some (take len (sh_queue b) @ drop len dst)"
      using d short b unfolding q by (auto simp: copy_bytes_def)
    have m: "min (?R - ?s) len = len" "min len (length (sh_queue b)) = len" using short lq by simp_all
    have u: "u32 (?s + len) = ?s + len" using short b D(3) by (auto simp: u32_def)
    show ?thesis
    proof (cases "?s + len = ?R")
      case True
      then show ?thesis
        using short b c m u by (intro exI [of _ 0]) (auto simp: run sub q sh_queue_def Let_def)
    next
      case False
      then have "?s + len < ?R" using short b by simp
      then show ?thesis
        using short b c m u by (intro exI [of _ "?s + len"]) (auto simp: run sub q sh_queue_def Let_def add.commute)
    qed
  next
    case around
    define k where "k = min (len - (?R - ?s)) ?e"
    have k: "k \<le> ?e" "k \<le> len - (?R - ?s)" "k = len - (?R - ?s) \<or> k = ?e" by (auto simp: k_def)
    have q: "sh_queue b = drop ?s ?xs @ take ?e ?xs" using around by (simp add: sh_queue_def)
    have m: "min (?R - ?s) len = ?R - ?s" "min len (length (sh_queue b)) = ?R - ?s + k"
      using around lq k by (auto simp: min_def)
    have t: "take len (sh_queue b) = drop ?s ?xs @ take k ?xs" using around b by (simp add: q k_def)
    have c: "copy_bytes dst 0 (drop ?s ?xs) (?R - ?s) = Some (drop ?s ?xs @ drop (?R - ?s) dst)"
      using d around b by (auto simp: copy_bytes_def)
    have e: "copy_bytes (drop ?s ?xs @ drop (?R - ?s) dst) (?R - ?s) ?xs k =
        Some (take len (sh_queue b) @ drop (?R - ?s + k) dst)"
      using d around b k(1,2) unfolding t by (auto simp: copy_bytes_def add.commute)
    have u: "u32 (?R - ?s + k) = ?R - ?s + k" "u32 (?s + (?R - ?s + k)) mod ?R = k"
      using around b k(1) D(3) by (auto simp: u32_def)
    have "refos_share_read (Some dst) len (Some b) bufSize (Some ?s) (Some x) =
        Some (0, take len (sh_queue b) @ drop (?R - ?s + k) dst, b\<lparr>sh_start := k\<rparr>, Some k, Some (?R - ?s + k))"
      unfolding run(1) t using around c e [unfolded t] u k(1,2)
      by (cases "k = 0") (simp_all add: run(2,3) sub m(1) Let_def flip: k_def)
    moreover have "sh_queue (b\<lparr>sh_start := k\<rparr>) = drop len (sh_queue b)"
      using around b k unfolding q by (auto simp: sh_queue_def drop_take)
    moreover have "k < ?R" using k(1) b by simp
    ultimately show ?thesis unfolding m(2) by blast
  qed
qed


text \<open>
  The check of the two words compares them with the size of the buffer, not of the ring behind them: a peer that stores a
  larger \<open>end\<close> makes the reader copy from behind the buffer.
\<close>

lemma share_reads_past_end:
  assumes "SHARE_METADATA_SIZE < bufSize" and "length (sh_bytes b) = bufSize - SHARE_METADATA_SIZE"
    and "length (sh_bytes b) < sh_end b" and "sh_end b \<le> bufSize" and "st \<le> sh_end b" and "st < length (sh_bytes b)" and "sh_end b - st \<le> len"
  shows "refos_share_read (Some dst) len (Some b) bufSize (Some st) (Some x) = None"
  using assms by (auto simp: refos_share_read_def refos_share_validate_params_def copy_bytes_def SHARE_METADATA_SIZE_def Let_def)

text \<open>
  C17 (shared ring buffer).  The buffer refines a bounded queue of bytes.  A write of \<open>len\<close> bytes appends them when
  there is room for all of them, across the wrap-around, and is refused without any change otherwise; a read of up to
  \<open>n\<close> bytes returns the first bytes of the queue and removes exactly these.  Neither copies outside the buffer, and each
  moves only its own word.
\<close>

theorem shared_ring_refines_queue:
  assumes "sh_inv bufSize b" and "len \<le> length s" and "n \<le> length dst"
  shows "(if len \<le> sh_room b
      then \<exists>b'. refos_share_write (Some s) len (Some b) bufSize (Some (sh_end b)) = Some (0, b', Some (sh_end b')) \<and>
        sh_inv bufSize b' \<and> sh_start b' = sh_start b \<and> sh_queue b' = sh_queue b @ take len s
      else refos_share_write (Some s) len (Some b) bufSize (Some (sh_end b)) = Some (-1, b, Some (sh_end b))) \<and>
    (\<exists>b'. refos_share_read (Some dst) n (Some b) bufSize (Some (sh_start b)) (Some x) =
        Some (0, take n (sh_queue b) @ drop (min n (length (sh_queue b))) dst, b', Some (sh_start b'),
          Some (min n (length (sh_queue b)))) \<and>
      sh_inv bufSize b' \<and> sh_end b' = sh_end b \<and> sh_queue b' = drop n (sh_queue b))"
proof (rule conjI)
  show "if len \<le> sh_room b
      then \<exists>b'. refos_share_write (Some s) len (Some b) bufSize (Some (sh_end b)) = Some (0, b', Some (sh_end b')) \<and>
        sh_inv bufSize b' \<and> sh_start b' = sh_start b \<and> sh_queue b' = sh_queue b @ take len s
      else refos_share_write (Some s) len (Some b) bufSize (Some (sh_end b)) = Some (-1, b, Some (sh_end b))"
  proof (cases "len \<le> sh_room b")
    case True
    from share_write_case [OF assms(1,2) True] obtain xs e where
      w: "refos_share_write (Some s) len (Some b) bufSize (Some (sh_end b)) = Some (0, b\<lparr>sh_bytes := xs, sh_end := e\<rparr>, Some e)"
        "length xs = length (sh_bytes b)" "e < length xs"
        "sh_queue (b\<lparr>sh_bytes := xs, sh_end := e\<rparr>) = sh_queue b @ take len s" by blast
    then have "sh_inv bufSize (b\<lparr>sh_bytes := xs, sh_end := e\<rparr>)" using assms(1) by (simp add: sh_inv_def)
    with w True show ?thesis by auto
  next
    case False
    then show ?thesis
      by (simp add: refos_share_write_def sh_invD(1,2) [OF assms(1)] remaining_room [OF assms(1)])
  qed
next
  from share_read_case [OF assms(1,3), of x] obtain st where
    r: "refos_share_read (Some dst) n (Some b) bufSize (Some (sh_start b)) (Some x) =
        Some (0, take n (sh_queue b) @ drop (min n (length (sh_queue b))) dst, b\<lparr>sh_start := st\<rparr>, Some st,
          Some (min n (length (sh_queue b))))"
      "st < length (sh_bytes b)" "sh_queue (b\<lparr>sh_start := st\<rparr>) = drop n (sh_queue b)" by blast
  then have "sh_inv bufSize (b\<lparr>sh_start := st\<rparr>)" using assms(1) by (simp add: sh_inv_def)
  with r show "\<exists>b'. refos_share_read (Some dst) n (Some b) bufSize (Some (sh_start b)) (Some x) =
        Some (0, take n (sh_queue b) @ drop (min n (length (sh_queue b))) dst, b', Some (sh_start b'),
          Some (min n (length (sh_queue b)))) \<and>
      sh_inv bufSize b' \<and> sh_end b' = sh_end b \<and> sh_queue b' = drop n (sh_queue b)"
    by (intro exI [of _ "b\<lparr>sh_start := st\<rparr>"]) simp
qed

text \<open>A ring of four bytes that holds two, across the wrap-around.\<close>

definition demo_share :: share where
  "demo_share = \<lparr>sh_start = 3, sh_end = 1, sh_bytes = [20, 0, 0, 10]\<rparr>"

theorem shared_ring_refines_queue_witness:
  "sh_queue demo_share = [10, 20] \<and>
   (\<exists>b'. refos_share_write (Some [30]) 1 (Some demo_share) 12 (Some 1) = Some (0, b', Some (sh_end b')) \<and>
      sh_queue b' = [10, 20, 30]) \<and>
   (\<exists>b'. refos_share_read (Some [0, 0, 0]) 3 (Some demo_share) 12 (Some 3) (Some 0) =
      Some (0, [10, 20, 0], b', Some (sh_start b'), Some 2) \<and> sh_queue b' = [])"
proof -
  have i: "sh_inv 12 demo_share" by (simp add: sh_inv_def demo_share_def SHARE_METADATA_SIZE_def)
  have q: "sh_queue demo_share = [10, 20]" "sh_room demo_share = 1" "sh_end demo_share = 1" "sh_start demo_share = 3"
    by (simp_all add: sh_queue_def sh_room_def demo_share_def)
  from shared_ring_refines_queue [OF i, of 1 "[30]" 3 "[0, 0, 0]" 0] show ?thesis
    by (simp add: q) (auto simp: numeral_2_eq_2)
qed

end
