(* ===== verification/Walloc.thy ===== *)
theory Walloc
  imports Cbpool Chash Refos Interfaces
begin

text \<open>
  Two allocators of the client library \<open>librefos\<close>: slots of the capability space (\<open>cspace.c\<close>) and windows of the address space
  (\<open>walloc.c\<close>), the latter on top of \<open>cbpool\<close> and \<open>chash\<close>.  The stub that asks the process server for a window is an argument;
  \<open>cs_calls\<close> records the kernel calls and requests made, oldest first.
\<close>

section \<open>The slot allocator\<close>

datatype cs_call = CNode_Delete nat | CNode_Revoke nat | CNode_Move nat nat | Mem_Window_Delete nat
  | CNode_Mint nat nat nat | IRQ_SetEndpoint nat nat | IRQ_Ack nat

text \<open>The three static variables; a null pointer is \<open>None\<close>.\<close>

record cspace =
  cspaceFreeList :: "nat list option"
  cspaceFreeListNum :: nat
  cspaceStaticAllocated :: bool
  cs_calls :: "cs_call list"

definition csalloc_deinit :: "cspace \<Rightarrow> cspace" where
  "csalloc_deinit s = s\<lparr>cspaceFreeList := None, cspaceFreeListNum := 0\<rparr>"

text \<open>The block of \<open>malloc\<close> has \<open>4 * sz\<close> bytes reduced to the width of \<open>size_t\<close>; a write behind it is \<open>None\<close>.\<close>

definition csalloc_init :: "(nat \<Rightarrow> bool) \<Rightarrow> nat \<Rightarrow> nat \<Rightarrow> cspace \<Rightarrow> cspace option" where
  "csalloc_init mem start end1 s = do {
     let sz = u32i (int end1 - int start);
     let s = csalloc_deinit s;
     c_assert (mem (u32 (4 * sz)));
     c_assert (sz \<le> u32 (4 * sz) div 4);
     Some (s\<lparr>cspaceFreeList := Some (map (\<lambda>i. u32 (start + i)) [0..<sz]), cspaceFreeListNum := sz,
             cspaceStaticAllocated := False\<rparr>)
   }"

definition csalloc_init_static :: "nat \<Rightarrow> nat \<Rightarrow> nat list option \<Rightarrow> nat \<Rightarrow> cspace \<Rightarrow> cspace option" where
  "csalloc_init_static start end1 buffer bufferSz s = do {
     cells \<leftarrow> buffer;
     let sz = u32i (int end1 - int start);
     c_assert (u32 (4 * sz) \<le> bufferSz);
     let s = csalloc_deinit s;
     c_assert (sz \<le> length cells);
     Some (s\<lparr>cspaceFreeList := Some (map (\<lambda>i. u32 (start + i)) [0..<sz] @ drop sz cells), cspaceFreeListNum := sz,
             cspaceStaticAllocated := True\<rparr>)
   }"

definition csalloc :: "cspace \<Rightarrow> (cspace \<times> nat) option" where
  "csalloc s = do {
     xs \<leftarrow> cspaceFreeList s;
     if cspaceFreeListNum s = 0 then Some (s, 0)
     else do {
       c \<leftarrow> rd xs (cspaceFreeListNum s - 1);
       Some (s\<lparr>cspaceFreeListNum := cspaceFreeListNum s - 1\<rparr>, c)
     }
   }"

definition csfree :: "nat \<Rightarrow> cspace \<Rightarrow> cspace option" where
  "csfree c s = do {
     xs \<leftarrow> cspaceFreeList s;
     xs \<leftarrow> wr xs (cspaceFreeListNum s) c;
     Some (s\<lparr>cspaceFreeList := Some xs, cspaceFreeListNum := u32 (cspaceFreeListNum s + 1)\<rparr>)
   }"

definition csfree_delete :: "nat \<Rightarrow> cspace \<Rightarrow> cspace option" where
  "csfree_delete c s = do {
     xs \<leftarrow> cspaceFreeList s;
     let s = s\<lparr>cs_calls := cs_calls s @ [CNode_Delete c]\<rparr>;
     xs \<leftarrow> wr xs (cspaceFreeListNum s) c;
     Some (s\<lparr>cspaceFreeList := Some xs, cspaceFreeListNum := u32 (cspaceFreeListNum s + 1)\<rparr>)
   }"

text \<open>A received capability is moved out of the shared receive slot \<open>v\<close>; the move is asserted to succeed.\<close>

definition rpc_copyout_cptr :: "nat \<Rightarrow> cspace \<Rightarrow> (cspace \<times> nat) option" where
  "rpc_copyout_cptr v s =
     (if v = 0 then Some (s, 0)
      else do {
        (s, cslot) \<leftarrow> csalloc s;
        if cslot = 0 then Some (s, 0)
        else Some (s\<lparr>cs_calls := cs_calls s @ [CNode_Move cslot v]\<rparr>, cslot)
      })"

text \<open>
  \<open>internal\<close> is the generated stub \<open>proc_create_mem_window_internal\<close>, with the value it stores through \<open>errnoRetVal\<close>; the last
  component of the result is the error number.
\<close>

type_synonym window_stub = "nat \<Rightarrow> nat \<Rightarrow> nat \<Rightarrow> nat \<Rightarrow> cspace \<Rightarrow> (cspace \<times> nat \<times> refos_error) option"

definition proc_create_mem_window_ext :: "window_stub \<Rightarrow> window_stub" where
  "proc_create_mem_window_ext internal vaddr sz permission flags cs = do {
     (cs, tcap, errnoRetVal) \<leftarrow> internal vaddr sz permission flags cs;
     if errnoRetVal \<noteq> ESUCCESS \<or> tcap = 0 then Some (cs, 0, errnoRetVal)
     else Some (cs, tcap, ESUCCESS)
   }"

section \<open>The window allocator\<close>

definition WALLOC_MAGIC :: nat where "WALLOC_MAGIC = 0x4E667012"
definition WALLOC_WINDOW_CPTR_MAP_HASHSIZE :: nat where "WALLOC_WINDOW_CPTR_MAP_HASHSIZE = 1024"
definition PROC_WINDOW_PERMISSION_READWRITE :: nat where "PROC_WINDOW_PERMISSION_READWRITE = 3"

record walloc_state =
  ws_initialised :: bool
  ws_magic :: nat
  ws_startAddr :: nat
  ws_endAddr :: nat
  ws_npages :: nat
  ws_pool :: cbpool
  ws_windowCptrMap :: "nat chash"

definition walloc_list_init :: "(nat \<Rightarrow> bool) \<Rightarrow> nat \<Rightarrow> nat \<Rightarrow> walloc_state option" where
  "walloc_list_init mem startAddr endAddr = do {
     let sz = u32i (int endAddr - int startAddr);
     c_assert (startAddr mod REFOS_PAGE_SIZE = 0);
     c_assert (sz mod REFOS_PAGE_SIZE = 0);
     pool \<leftarrow> cbpool_init mem (sz div REFOS_PAGE_SIZE);
     wmap \<leftarrow> chash_init mem WALLOC_WINDOW_CPTR_MAP_HASHSIZE;
     Some \<lparr>ws_initialised = True, ws_magic = WALLOC_MAGIC, ws_startAddr = startAddr, ws_endAddr = endAddr,
       ws_npages = sz div REFOS_PAGE_SIZE, ws_pool = pool, ws_windowCptrMap = wmap\<rparr>
   }"

definition walloc_list_deinit :: "walloc_state \<Rightarrow> walloc_state" where
  "walloc_list_deinit ws =
     (if \<not> ws_initialised ws then ws
      else ws\<lparr>ws_windowCptrMap := chash_release (ws_windowCptrMap ws), ws_startAddr := 0, ws_endAddr := 0,
              ws_npages := 0, ws_initialised := False, ws_magic := 0\<rparr>)"

text \<open>
  The result is the state, the slots, the value stored through \<open>window\<close> and the address.
\<close>

definition walloc_list_ext ::
  "(nat \<Rightarrow> bool) \<Rightarrow> bool \<Rightarrow> window_stub \<Rightarrow> int \<Rightarrow> nat \<Rightarrow> nat \<Rightarrow> walloc_state \<Rightarrow> cspace \<Rightarrow>
   (walloc_state \<times> cspace \<times> nat option \<times> nat) option" where
  "walloc_list_ext mem entry_mem internal npages permission flags ws cs = do {
     c_assert (ws_initialised ws \<and> ws_magic ws = WALLOC_MAGIC);
     if npages = 0 then Some (ws, cs, None, 0)
     else do {
       (pool, startPage) \<leftarrow> cbpool_alloc (ws_pool ws) (u32i npages);
       let ws = ws\<lparr>ws_pool := pool\<rparr>;
       if startPage = CBPOOL_INVALID then Some (ws, cs, None, 0)
       else do {
         c_assert (startPage < ws_npages ws);
         let regionAddr = u32 (ws_startAddr ws + startPage * REFOS_PAGE_SIZE);
         c_assert (regionAddr mod REFOS_PAGE_SIZE = 0);
         (cs, windowCap, errno) \<leftarrow> proc_create_mem_window_ext internal regionAddr (u32i (npages * int REFOS_PAGE_SIZE)) permission flags cs;
         c_assert (\<not> (windowCap = 0 \<or> errno \<noteq> ESUCCESS));
         (wmap, err) \<leftarrow> chash_set mem entry_mem (ws_windowCptrMap ws) startPage windowCap;
         c_assert (err = 0);
         Some (ws\<lparr>ws_windowCptrMap := wmap\<rparr>, cs, Some windowCap, regionAddr)
       }
     }
   }"

definition walloc_list ::
  "(nat \<Rightarrow> bool) \<Rightarrow> bool \<Rightarrow> window_stub \<Rightarrow> int \<Rightarrow> walloc_state \<Rightarrow> cspace \<Rightarrow>
   (walloc_state \<times> cspace \<times> nat option \<times> nat) option" where
  "walloc_list mem entry_mem internal npages ws cs =
     walloc_list_ext mem entry_mem internal npages PROC_WINDOW_PERMISSION_READWRITE 0 ws cs"

definition walloc_list_get_start_page :: "walloc_state \<Rightarrow> nat \<Rightarrow> nat option" where
  "walloc_list_get_start_page ws vaddr = do {
     c_assert (ws_initialised ws \<and> ws_magic ws = WALLOC_MAGIC);
     c_assert (vaddr \<ge> ws_startAddr ws \<and> vaddr \<le> ws_endAddr ws);
     let startPage = (vaddr - ws_startAddr ws) div REFOS_PAGE_SIZE;
     c_assert (startPage < ws_npages ws);
     Some startPage
   }"

text \<open>A key that is not there gives the null pointer, capability 0.\<close>

definition walloc_list_get_window_at_vaddr :: "walloc_state \<Rightarrow> nat \<Rightarrow> nat option" where
  "walloc_list_get_window_at_vaddr ws vaddr = do {
     c_assert (ws_initialised ws \<and> ws_magic ws = WALLOC_MAGIC);
     startPage \<leftarrow> walloc_list_get_start_page ws vaddr;
     item \<leftarrow> chash_get (ws_windowCptrMap ws) startPage;
     Some (case item of None \<Rightarrow> 0 | Some windowCap \<Rightarrow> windowCap)
   }"

definition walloc_list_free ::
  "(nat \<Rightarrow> bool) \<Rightarrow> nat \<Rightarrow> int \<Rightarrow> walloc_state \<Rightarrow> cspace \<Rightarrow> (walloc_state \<times> cspace) option" where
  "walloc_list_free mem addr npages ws cs = do {
     c_assert (ws_initialised ws \<and> ws_magic ws = WALLOC_MAGIC);
     if npages = 0 then Some (ws, cs)
     else do {
       startPage \<leftarrow> walloc_list_get_start_page ws addr;
       pool \<leftarrow> cbpool_free (ws_pool ws) startPage (u32i npages);
       let ws = ws\<lparr>ws_pool := pool\<rparr>;
       windowCap \<leftarrow> walloc_list_get_window_at_vaddr ws addr;
       if windowCap \<noteq> 0 then do {
         let cs = cs\<lparr>cs_calls := cs_calls cs @ [Mem_Window_Delete windowCap, CNode_Revoke windowCap]\<rparr>;
         cs \<leftarrow> csfree_delete windowCap cs;
         startPage \<leftarrow> walloc_list_get_start_page ws addr;
         wmap \<leftarrow> chash_remove mem (ws_windowCptrMap ws) startPage;
         Some (ws\<lparr>ws_windowCptrMap := wmap\<rparr>, cs)
       }
       else Some (ws, cs)
     }
   }"

text \<open>The interface of the library works on the one static state.\<close>

definition walloc_init :: "(nat \<Rightarrow> bool) \<Rightarrow> nat \<Rightarrow> nat \<Rightarrow> walloc_state option" where
  "walloc_init mem startAddr endAddr = walloc_list_init mem startAddr endAddr"
definition walloc_deinit :: "walloc_state \<Rightarrow> walloc_state" where
  "walloc_deinit ws = walloc_list_deinit ws"
definition walloc ::
  "(nat \<Rightarrow> bool) \<Rightarrow> bool \<Rightarrow> window_stub \<Rightarrow> int \<Rightarrow> walloc_state \<Rightarrow> cspace \<Rightarrow>
   (walloc_state \<times> cspace \<times> nat option \<times> nat) option" where
  "walloc mem entry_mem internal npages ws cs = walloc_list mem entry_mem internal npages ws cs"
definition walloc_ext ::
  "(nat \<Rightarrow> bool) \<Rightarrow> bool \<Rightarrow> window_stub \<Rightarrow> int \<Rightarrow> nat \<Rightarrow> nat \<Rightarrow> walloc_state \<Rightarrow> cspace \<Rightarrow>
   (walloc_state \<times> cspace \<times> nat option \<times> nat) option" where
  "walloc_ext mem entry_mem internal npages permission flags ws cs =
     walloc_list_ext mem entry_mem internal npages permission flags ws cs"
definition walloc_get_window_at_vaddr :: "walloc_state \<Rightarrow> nat \<Rightarrow> nat option" where
  "walloc_get_window_at_vaddr ws vaddr = walloc_list_get_window_at_vaddr ws vaddr"
definition walloc_free ::
  "(nat \<Rightarrow> bool) \<Rightarrow> nat \<Rightarrow> int \<Rightarrow> walloc_state \<Rightarrow> cspace \<Rightarrow> (walloc_state \<times> cspace) option" where
  "walloc_free mem addr npages ws cs = walloc_list_free mem addr npages ws cs"

lemmas walloc_defs = walloc_init_def walloc_deinit_def walloc_def walloc_ext_def walloc_get_window_at_vaddr_def
  walloc_free_def walloc_list_def

section \<open>Slots\<close>

definition cs_free :: "cspace \<Rightarrow> nat list" where
  "cs_free s = (case cspaceFreeList s of None \<Rightarrow> [] | Some xs \<Rightarrow> take (cspaceFreeListNum s) xs)"

text \<open>\<open>R\<close> are the slots the allocator was given: the free ones are distinct and among them.\<close>

definition cs_inv :: "nat set \<Rightarrow> cspace \<Rightarrow> bool" where
  "cs_inv R s \<longleftrightarrow> 0 \<notin> R \<and> finite R \<and> (\<exists>xs. cspaceFreeList s = Some xs \<and> card R \<le> length xs \<and> length xs < 2 ^ 31 \<and>
     cspaceFreeListNum s \<le> length xs) \<and> distinct (cs_free s) \<and> set (cs_free s) \<subseteq> R"

lemma csalloc_cases:
  assumes inv: "cs_inv R s"
  obtains (full) "cs_free s = []" "csalloc s = Some (s, 0)"
  | (slot) c where "csalloc s = Some (s\<lparr>cspaceFreeListNum := cspaceFreeListNum s - 1\<rparr>, c)"
      "cs_free s = cs_free (s\<lparr>cspaceFreeListNum := cspaceFreeListNum s - 1\<rparr>) @ [c]"
      "cs_inv R (s\<lparr>cspaceFreeListNum := cspaceFreeListNum s - 1\<rparr>)" "c \<in> R" "c \<noteq> 0"
proof -
  from inv obtain xs where xs: "cspaceFreeList s = Some xs" "cspaceFreeListNum s \<le> length xs" by (auto simp: cs_inv_def)
  show thesis
  proof (cases "cspaceFreeListNum s")
    case 0
    with xs show thesis by (intro full) (simp_all add: cs_free_def csalloc_def)
  next
    case (Suc n)
    then have f: "cs_free s = cs_free (s\<lparr>cspaceFreeListNum := n\<rparr>) @ [xs ! n]"
      using xs by (simp add: cs_free_def take_Suc_conv_app_nth)
    with inv xs Suc have i: "cs_inv R (s\<lparr>cspaceFreeListNum := n\<rparr>)" "xs ! n \<in> R"
      unfolding cs_inv_def f by auto
    moreover have "xs ! n \<noteq> 0" using i by (metis cs_inv_def)
    ultimately show thesis using f Suc xs by (intro slot [of "xs ! n"]) (simp_all add: csalloc_def)
  qed
qed

lemma csfree_spec:
  assumes inv: "cs_inv R s" and c: "c \<in> R" "c \<notin> set (cs_free s)"
  shows "\<exists>t. csfree c s = Some t \<and> csfree_delete c s = Some (t\<lparr>cs_calls := cs_calls s @ [CNode_Delete c]\<rparr>) \<and> cs_inv R t \<and>
    cs_free t = cs_free s @ [c] \<and> cs_calls t = cs_calls s"
proof -
  from inv obtain xs where xs: "cspaceFreeList s = Some xs" "card R \<le> length xs" "length xs < 2 ^ 31"
    "cspaceFreeListNum s \<le> length xs" by (auto simp: cs_inv_def)
  let ?n = "cspaceFreeListNum s"
  have "?n = length (cs_free s)" using xs by (simp add: cs_free_def)
  also have "\<dots> = card (set (cs_free s))" using inv by (simp add: cs_inv_def distinct_card)
  also have "\<dots> < card R" using inv c by (intro psubset_card_mono) (auto simp: cs_inv_def)
  finally have n: "?n < length xs" using xs(2) by simp
  let ?t = "s\<lparr>cspaceFreeList := Some (xs[?n := c]), cspaceFreeListNum := Suc ?n\<rparr>"
  have f: "cs_free ?t = cs_free s @ [c]" using xs n by (simp add: cs_free_def take_Suc_conv_app_nth)
  then have "cs_inv R ?t" using inv c xs n unfolding cs_inv_def f by auto
  moreover have "u32 (?n + 1) = Suc ?n" using n xs(3) by simp
  ultimately show ?thesis using xs n f by (intro exI [of _ ?t]) (simp add: csfree_def csfree_delete_def)
qed

lemma cs_live_finite: "cs_inv R s \<Longrightarrow> set (cs_free s) \<subseteq> R" by (simp add: cs_inv_def)

text \<open>The slots handed out and not returned are those of \<open>R\<close> that are not free.\<close>

interpretation slots: id_pool "\<lambda>(s, R). cs_inv R s" "\<lambda>(s, R). R - set (cs_free s)" snd
  "\<lambda>(s, R). map_option (\<lambda>(t, c). ((t, R), c)) (csalloc s)" "\<lambda>(s, R) c. map_option (\<lambda>t. (t, R)) (csfree c s)"
proof (unfold_locales, goal_cases)
  case (1 p)
  then show ?case by (auto simp: cs_inv_def)
next
  case (2 p)
  then show ?case by auto
next
  case (3 p)
  obtain s R where p: "p = (s, R)" by fastforce
  from 3 p have "cs_inv R s" by simp
  then show ?case using p by (cases rule: csalloc_cases) auto
next
  case (4 p q i)
  obtain s R where p: "p = (s, R)" by fastforce
  from 4(1) p have i: "cs_inv R s" by simp
  from i show ?case using i 4(2) p by (cases rule: csalloc_cases) auto
next
  case (5 p q i)
  obtain s R where p: "p = (s, R)" by fastforce
  from 5(1) p have i: "cs_inv R s" by simp
  then have d: "distinct (cs_free s)" by (simp add: cs_inv_def)
  from i show ?case using d 5(2,3) p by (cases rule: csalloc_cases) auto
next
  case (6 p q)
  obtain s R where p: "p = (s, R)" by fastforce
  from 6(1) p have "cs_inv R s" by simp
  then show ?case using 6(2) p by (cases rule: csalloc_cases) auto
next
  case (7 p i)
  obtain s R where p: "p = (s, R)" by fastforce
  from 7 p have "cs_inv R s" "i \<in> R" "i \<notin> set (cs_free s)" by auto
  from csfree_spec [OF this] p show ?case by auto
qed

text \<open>Slots handed out in a row are distinct, and none of them was in use.\<close>

lemma slots_distinct:
  assumes "cs_inv R s" and "slots.alloc_run n (s, R) = Some (q, is)"
  shows "distinct is \<and> length is = n \<and> set is \<subseteq> set (cs_free s)"
  using slots.alloc_run_distinct [of "(s, R)" n q "is"] assms by auto

lemma csalloc_init_inv:
  assumes "0 < start" and "start \<le> end1" and "end1 < 2 ^ 29"
  shows "\<exists>t. csalloc_init (\<lambda>_. True) start end1 s = Some t \<and> cs_inv {start..<end1} t \<and> cs_free t = [start..<end1]"
proof -
  let ?n = "end1 - start"
  have sz: "u32i (int end1 - int start) = ?n" using assms by (auto simp: u32i_def)
  have n4: "u32 (4 * ?n) = 4 * ?n" using assms by (auto simp: u32_def)
  have m: "map (\<lambda>i. u32 (start + i)) [0..<?n] = [start..<end1]"
    using assms by (intro nth_equalityI) (auto simp: u32_def)
  let ?t = "(csalloc_deinit s)\<lparr>cspaceFreeList := Some [start..<end1], cspaceFreeListNum := ?n, cspaceStaticAllocated := False\<rparr>"
  have "csalloc_init (\<lambda>_. True) start end1 s = Some ?t" by (simp add: csalloc_init_def sz n4 m)
  moreover have f: "cs_free ?t = [start..<end1]" by (simp add: cs_free_def)
  moreover have "cs_inv {start..<end1} ?t" unfolding cs_inv_def f using assms by auto
  ultimately show ?thesis by blast
qed

section \<open>Windows\<close>

text \<open>
  The abstract state \<open>M\<close> maps the first page of each live window to its number of pages and its capability.  \<open>in_window M p k\<close>: page
  \<open>k\<close> belongs to the window at page \<open>p\<close>.
\<close>

type_synonym windows = "nat \<rightharpoonup> nat \<times> nat"

definition in_window :: "windows \<Rightarrow> nat \<Rightarrow> nat \<Rightarrow> bool" where
  "in_window M p k \<longleftrightarrow> (case M p of None \<Rightarrow> False | Some (n, c) \<Rightarrow> p \<le> k \<and> k < p + n)"

definition covered :: "windows \<Rightarrow> nat \<Rightarrow> bool" where
  "covered M k \<longleftrightarrow> (\<exists>p. in_window M p k)"

text \<open>The geometry of the windows, and their capabilities among the slots \<open>R\<close> in use.\<close>

definition windows_ok :: "nat set \<Rightarrow> nat \<Rightarrow> windows \<Rightarrow> bool" where
  "windows_ok live npages M \<longleftrightarrow>
     (\<forall>p n c. M p = Some (n, c) \<longrightarrow> 0 < n \<and> p + n \<le> npages \<and> c \<in> live) \<and>
     (\<forall>p q n m c. M p = Some (n, c) \<longrightarrow> M q = Some (m, c) \<longrightarrow> p = q) \<and>
     (\<forall>p q k. in_window M p k \<longrightarrow> in_window M q k \<longrightarrow> p = q)"

text \<open>The last page of the region may be marked as used without belonging to a window.\<close>

definition pool_ok :: "windows \<Rightarrow> cbpool \<Rightarrow> bool" where
  "pool_ok M pool \<longleftrightarrow> (\<forall>k. covered M k \<longrightarrow> cb_used pool k) \<and>
     (\<forall>k. k + 1 < cb_size pool \<longrightarrow> cb_used pool k \<longrightarrow> covered M k)"

definition wa_inv :: "nat set \<Rightarrow> windows \<Rightarrow> walloc_state \<Rightarrow> cspace \<Rightarrow> bool" where
  "wa_inv R M ws cs \<longleftrightarrow> ws_initialised ws \<and> ws_magic ws = WALLOC_MAGIC \<and> 0 < ws_startAddr ws \<and>
     ws_startAddr ws mod REFOS_PAGE_SIZE = 0 \<and> ws_endAddr ws = ws_startAddr ws + ws_npages ws * REFOS_PAGE_SIZE \<and>
     ws_endAddr ws < 2 ^ 32 \<and> cb_inv (ws_pool ws) \<and> cb_size (ws_pool ws) = ws_npages ws \<and> ch_inv (ws_windowCptrMap ws) \<and>
     ch_lookup (ws_windowCptrMap ws) = map_option snd \<circ> M \<and> cs_inv R cs \<and>
     windows_ok (R - set (cs_free cs)) (ws_npages ws) M \<and> pool_ok M (ws_pool ws)"

lemma in_window_upd [simp]:
  "in_window (M(p \<mapsto> (n, c))) q k \<longleftrightarrow> (if q = p then p \<le> k \<and> k < p + n else in_window M q k)"
  "in_window (M(p := None)) q k \<longleftrightarrow> q \<noteq> p \<and> in_window M q k"
  by (simp_all add: in_window_def)

lemma covered_upd:
  assumes "M p = None"
  shows "covered (M(p \<mapsto> (n, c))) k \<longleftrightarrow> p \<le> k \<and> k < p + n \<or> covered M k"
proof -
  have "\<not> in_window M p k" using assms by (simp add: in_window_def)
  then show ?thesis unfolding covered_def in_window_upd by metis
qed

lemma windows_ok_add:
  assumes "windows_ok live np M" and "0 < n" and "p + n \<le> np" and "c \<in> live'" and "live \<subseteq> live'" and "c \<notin> live"
    and free: "\<And>k. p \<le> k \<Longrightarrow> k < p + n \<Longrightarrow> \<not> covered M k"
  shows "windows_ok live' np (M(p \<mapsto> (n, c)))"
proof -
  have c: "m \<noteq> c" if "M q = Some (l, m)" for q l m using assms(1,6) that by (auto simp: windows_ok_def)
  show ?thesis
    unfolding windows_ok_def
  proof (intro conjI allI impI)
    fix q r k assume "in_window (M(p \<mapsto> (n, c))) q k" "in_window (M(p \<mapsto> (n, c))) r k"
    then show "q = r"
      using free [of k] assms(1) by (auto simp: covered_def windows_ok_def split: if_splits)
  next
    fix q r l m d assume "(M(p \<mapsto> (n, c))) q = Some (l, d)" "(M(p \<mapsto> (n, c))) r = Some (m, d)"
    then show "q = r" using c assms(1) unfolding windows_ok_def by (auto split: if_splits)
  qed (use assms in \<open>auto simp: windows_ok_def split: if_splits\<close>)
qed

lemma windows_ok_del:
  assumes ok: "windows_ok live np M" and m: "M p = Some (n, c)"
  shows "windows_ok (live - {c}) np (M(p := None))"
  unfolding windows_ok_def
proof (intro conjI allI impI)
  fix q l d assume q: "(M(p := None)) q = Some (l, d)"
  then have "q \<noteq> p" "M q = Some (l, d)" by (auto split: if_splits)
  with ok m show "0 < l" "q + l \<le> np" "d \<in> live - {c}" unfolding windows_ok_def by blast+
qed (use ok in \<open>auto simp: windows_ok_def split: if_splits\<close>)

lemma pool_free_spec:
  assumes "cb_inv pool" and "p + n \<le> cb_size pool" and "0 < n"
  shows "\<exists>q. cbpool_free pool p n = Some q \<and> cb_inv q \<and> cb_size q = cb_size pool \<and>
    (\<forall>x. cb_used q x \<longrightarrow> cb_used pool x) \<and> (\<forall>x. \<not> (p \<le> x \<and> x < p + n) \<longrightarrow> cb_used pool x \<longrightarrow> cb_used q x) \<and>
    (\<forall>x. p \<le> x \<and> x < p + n \<and> x + 1 < cb_size pool \<longrightarrow> \<not> cb_used q x)"
proof (cases "p + n = cb_size pool")
  case True
  from cbpool_free_tail [OF assms(1) True assms(3)] True show ?thesis by auto
next
  case False
  then have "p + n < cb_size pool" using assms(2) by simp
  from cbpool_free_inside [OF assms(1) this] show ?thesis by auto
qed

text \<open>
  The promise of the stub: for whole pages inside \<open>[lo, hi)\<close> the server creates the window, and its capability is copied out of the
  receive slot.
\<close>

definition window_stub_ok :: "nat \<Rightarrow> nat \<Rightarrow> window_stub \<Rightarrow> bool" where
  "window_stub_ok lo hi internal \<longleftrightarrow> (\<forall>a sz perm flags cs. lo \<le> a \<longrightarrow> a + sz \<le> hi \<longrightarrow> 0 < sz \<longrightarrow> a mod REFOS_PAGE_SIZE = 0 \<longrightarrow>
     sz mod REFOS_PAGE_SIZE = 0 \<longrightarrow>
     (\<exists>v. v \<noteq> 0 \<and> internal a sz perm flags cs = map_option (\<lambda>(t, c). (t, c, ESUCCESS)) (rpc_copyout_cptr v cs)))"

definition page_addr :: "walloc_state \<Rightarrow> nat \<Rightarrow> nat" where
  "page_addr ws p = ws_startAddr ws + p * REFOS_PAGE_SIZE"

lemma cs_free_calls [simp]: "cs_free (s\<lparr>cs_calls := x\<rparr>) = cs_free s"
  by (cases "cspaceFreeList s") (simp_all add: cs_free_def)

lemma cs_inv_calls [simp]: "cs_inv R (s\<lparr>cs_calls := x\<rparr>) = cs_inv R s"
  by (simp add: cs_inv_def)

lemma copyout_spec:
  assumes "cs_inv R cs" and "cs_free cs \<noteq> []" and "v \<noteq> 0"
  shows "\<exists>t c. rpc_copyout_cptr v cs = Some (t, c) \<and> cs_inv R t \<and> cs_free cs = cs_free t @ [c] \<and> c \<in> R \<and> c \<noteq> 0 \<and>
    cs_calls t = cs_calls cs @ [CNode_Move c v]"
  using assms(1)
proof (cases rule: csalloc_cases)
  case full
  with assms show ?thesis by simp
next
  case (slot c)
  with assms(3) show ?thesis by (simp add: rpc_copyout_cptr_def)
qed

lemma window_stub_spec:
  assumes ok: "window_stub_ok (ws_startAddr ws) (ws_endAddr ws) internal" and inv: "wa_inv R M ws cs" and "cs_free cs \<noteq> []"
    and p: "0 < n" "p + n \<le> ws_npages ws"
  shows "\<exists>v t c. proc_create_mem_window_ext internal (page_addr ws p) (n * REFOS_PAGE_SIZE) perm flags cs = Some (t, c, ESUCCESS) \<and>
    cs_inv R t \<and> cs_free cs = cs_free t @ [c] \<and> c \<in> R \<and> c \<noteq> 0 \<and> v \<noteq> 0 \<and> cs_calls t = cs_calls cs @ [CNode_Move c v]"
proof -
  have "page_addr ws p + n * REFOS_PAGE_SIZE = ws_startAddr ws + (p + n) * REFOS_PAGE_SIZE"
    by (simp add: page_addr_def algebra_simps)
  also have "\<dots> \<le> ws_endAddr ws" using inv p by (simp add: wa_inv_def)
  finally have "page_addr ws p + n * REFOS_PAGE_SIZE \<le> ws_endAddr ws" .
  moreover have "page_addr ws p mod REFOS_PAGE_SIZE = 0" "ws_startAddr ws \<le> page_addr ws p" "0 < n * REFOS_PAGE_SIZE"
    using inv p by (auto simp: page_addr_def wa_inv_def REFOS_PAGE_SIZE_def)
  ultimately obtain v where v: "v \<noteq> 0"
    "internal (page_addr ws p) (n * REFOS_PAGE_SIZE) perm flags cs = map_option (\<lambda>(t, c). (t, c, ESUCCESS)) (rpc_copyout_cptr v cs)"
    using ok unfolding window_stub_ok_def by (metis mod_mult_self2_is_0)
  have "cs_inv R cs" using inv by (simp add: wa_inv_def)
  from copyout_spec [OF this assms(3) v(1)] v show ?thesis
    by (fastforce simp: proc_create_mem_window_ext_def)
qed

lemma pool_ok_add:
  assumes "pool_ok M pool" and "cb_alloc_spec pool n q p" and "cb_fits pool n a" and "M p = None"
  shows "pool_ok (M(p \<mapsto> (n, c))) q"
  using assms unfolding pool_ok_def cb_alloc_spec_def by (auto simp: covered_upd split: if_splits)

lemma pool_not_full:
  assumes "pool_ok M pool" and "\<nexists>a. cb_fits pool n a" and "a + n < cb_size pool"
  shows "\<exists>k. a \<le> k \<and> k < a + n \<and> covered M k"
proof -
  from assms(2,3) obtain k where "a \<le> k" "k < a + n" "cb_used pool k" by (metis cb_fits_def less_imp_le)
  with assms(1,3) show ?thesis by (auto simp: pool_ok_def)
qed

lemma walloc_step:
  assumes inv: "wa_inv R M ws cs" and ok: "window_stub_ok (ws_startAddr ws) (ws_endAddr ws) internal"
    and n: "0 < n" "n < 2 ^ 31" and cs: "cs_free cs \<noteq> []"
  obtains (full) "walloc_ext heap_ok True internal (int n) perm flags ws cs = Some (ws, cs, None, 0)"
      "\<And>a. a + n < ws_npages ws \<Longrightarrow> \<exists>k. a \<le> k \<and> k < a + n \<and> covered M k"
  | (window) p c us ds where "walloc_ext heap_ok True internal (int n) perm flags ws cs = Some (us, ds, Some c, page_addr ws p)"
      "p + n \<le> ws_npages ws" "\<And>k. p \<le> k \<Longrightarrow> k < p + n \<Longrightarrow> \<not> covered M k" "cs_free cs = cs_free ds @ [c]"
      "wa_inv R (M(p \<mapsto> (n, c))) us ds" "page_addr us = page_addr ws"
proof -
  from inv have i: "cb_inv (ws_pool ws)" "cb_size (ws_pool ws) = ws_npages ws" "pool_ok M (ws_pool ws)" "ws_initialised ws"
    "ws_magic ws = WALLOC_MAGIC" "ch_inv (ws_windowCptrMap ws)" by (auto simp: wa_inv_def)
  from cbpool_alloc_first_fit [OF i(1) n] obtain pool p where
    a: "cbpool_alloc (ws_pool ws) n = Some (pool, p)" "cb_alloc_spec (ws_pool ws) n pool p" by blast
  have u: "u32i (int n) = n" using n by simp
  show thesis
  proof (cases "\<exists>a. cb_fits (ws_pool ws) n a")
    case False
    with a(2) have "pool = ws_pool ws" "p = CBPOOL_INVALID" by (auto simp: cb_alloc_spec_def)
    with i a(1) n u have "walloc_ext heap_ok True internal (int n) perm flags ws cs = Some (ws, cs, None, 0)"
      by (simp add: walloc_ext_def walloc_list_ext_def)
    with pool_not_full [OF i(3) False] i(2) show thesis by (intro full) simp_all
  next
    case True
    with a(2) have f: "p + n \<le> ws_npages ws" "cb_inv pool" "cb_size pool = ws_npages ws"
      and unused: "\<And>k. p \<le> k \<Longrightarrow> k < p + n \<Longrightarrow> \<not> cb_used (ws_pool ws) k"
      by (auto simp: cb_alloc_spec_def cb_fits_def i(2))
    then have free: "\<not> covered M k" if "p \<le> k" "k < p + n" for k using i(3) that by (auto simp: pool_ok_def)
    from inv have wok: "windows_ok (R - set (cs_free cs)) (ws_npages ws) M" by (simp add: wa_inv_def)
    have new: "M p = None"
    proof (rule ccontr)
      assume "M p \<noteq> None"
      then obtain m d where "M p = Some (m, d)" by auto
      with wok have "in_window M p p" by (auto simp: windows_ok_def in_window_def)
      with free [of p] n(1) show False by (auto simp: covered_def)
    qed
    from window_stub_spec [OF ok inv cs n(1) f(1), of perm flags] obtain v t c where
      s: "proc_create_mem_window_ext internal (page_addr ws p) (n * REFOS_PAGE_SIZE) perm flags cs = Some (t, c, ESUCCESS)"
      "cs_inv R t" "cs_free cs = cs_free t @ [c]" "c \<in> R" "c \<noteq> 0" by blast
    from chash_set_lookup [OF i(6), of p c] obtain h where
      h: "chash_set heap_ok True (ws_windowCptrMap ws) p c = Some (h, 0)" "ch_inv h" "ch_lookup h = (ch_lookup (ws_windowCptrMap ws))(p \<mapsto> c)"
      by blast
    let ?us = "ws\<lparr>ws_pool := pool, ws_windowCptrMap := h\<rparr>"
    have small: "page_addr ws p < 2 ^ 32" "page_addr ws p mod REFOS_PAGE_SIZE = 0" "p < ws_npages ws" "p \<noteq> CBPOOL_INVALID"
      "n * REFOS_PAGE_SIZE < 2 ^ 32"
      using inv f(1) n by (auto simp: wa_inv_def page_addr_def REFOS_PAGE_SIZE_def CBPOOL_INVALID_def)
    have "u32i (int n * int REFOS_PAGE_SIZE) = n * REFOS_PAGE_SIZE"
      using small(5) by (simp flip: of_nat_mult)
    moreover have "u32 (ws_startAddr ws + p * REFOS_PAGE_SIZE) = page_addr ws p" using small(1) by (simp add: page_addr_def)
    ultimately have run: "walloc_ext heap_ok True internal (int n) perm flags ws cs = Some (?us, t, Some c, page_addr ws p)"
      using i a(1) n u s h small by (simp add: walloc_ext_def walloc_list_ext_def)
    have dist: "distinct (cs_free cs)" using inv by (simp add: wa_inv_def cs_inv_def)
    have "windows_ok (R - set (cs_free t)) (ws_npages ws) (M(p \<mapsto> (n, c)))"
      using windows_ok_add [OF wok n(1) f(1) _ _ _ free, of c "R - set (cs_free t)"] s dist by auto
    moreover have "pool_ok (M(p \<mapsto> (n, c))) pool" using pool_ok_add [OF i(3) a(2)] True new by blast
    moreover have "ch_lookup h = map_option snd \<circ> M(p \<mapsto> (n, c))"
      using h(3) inv by (auto simp: wa_inv_def)
    ultimately have "wa_inv R (M(p \<mapsto> (n, c))) ?us t" using inv s h f by (simp add: wa_inv_def)
    moreover have "page_addr ?us = page_addr ws" by (simp add: page_addr_def fun_eq_iff)
    ultimately show thesis using run f(1) free s(3) by (intro window)
  qed
qed

lemma window_start_page:
  assumes inv: "wa_inv R M ws cs" and "p < ws_npages ws" and "o1 < REFOS_PAGE_SIZE"
  shows "walloc_list_get_start_page ws (page_addr ws p + o1) = Some p"
proof -
  have "p * REFOS_PAGE_SIZE + o1 < Suc p * REFOS_PAGE_SIZE" using assms(3) by simp
  also have "\<dots> \<le> ws_npages ws * REFOS_PAGE_SIZE" using assms(2) by (intro mult_le_mono1) simp
  finally have "p * REFOS_PAGE_SIZE + o1 < ws_npages ws * REFOS_PAGE_SIZE" .
  moreover have "(p * REFOS_PAGE_SIZE + o1) div REFOS_PAGE_SIZE = p" using assms(3) by simp
  ultimately show ?thesis
    using inv assms(2) by (simp add: walloc_list_get_start_page_def page_addr_def wa_inv_def add.assoc)
qed

text \<open>The lookup knows the first page of a window only.\<close>

lemma window_at_vaddr:
  assumes inv: "wa_inv R M ws cs" and "p < ws_npages ws" and "o1 < REFOS_PAGE_SIZE"
  shows "walloc_get_window_at_vaddr ws (page_addr ws p + o1) = Some (case M p of None \<Rightarrow> 0 | Some (n, c) \<Rightarrow> c)"
proof -
  have "chash_get (ws_windowCptrMap ws) p = Some (map_option snd (M p))"
    using inv chash_get_lookup [of "ws_windowCptrMap ws" p] by (simp add: wa_inv_def)
  then show ?thesis
    using inv window_start_page [OF assms]
    by (simp add: walloc_defs walloc_list_get_window_at_vaddr_def wa_inv_def split: option.split)
qed

lemma pool_ok_del:
  assumes ok: "pool_ok M pool" and w: "windows_ok live (cb_size pool) M" "M p = Some (n, c)"
    and q: "\<And>x. cb_used q x \<Longrightarrow> cb_used pool x"
      "\<And>x. \<not> (p \<le> x \<and> x < p + n) \<Longrightarrow> cb_used pool x \<Longrightarrow> cb_used q x"
      "\<And>x. p \<le> x \<Longrightarrow> x < p + n \<Longrightarrow> x + 1 < cb_size pool \<Longrightarrow> \<not> cb_used q x" "cb_size q = cb_size pool"
  shows "pool_ok (M(p := None)) q"
proof -
  have own: "in_window M p k \<longleftrightarrow> p \<le> k \<and> k < p + n" for k using w(2) by (simp add: in_window_def)
  have only: "r = p" if "in_window M r k" "in_window M p k" for r k using w(1) that unfolding windows_ok_def by blast
  have cov: "covered (M(p := None)) k \<longleftrightarrow> covered M k \<and> \<not> in_window M p k" for k
    unfolding covered_def in_window_upd using only by metis
  show ?thesis
    unfolding pool_ok_def cov own
  proof (intro conjI allI impI)
    fix k assume "covered M k \<and> \<not> (p \<le> k \<and> k < p + n)"
    then show "cb_used q k" using ok q(2) by (auto simp: pool_ok_def)
  next
    fix k assume "k + 1 < cb_size q" "cb_used q k"
    then show "covered M k" "\<not> (p \<le> k \<and> k < p + n)" using ok q by (auto simp: pool_ok_def)
  qed
qed

lemma walloc_free_step:
  assumes inv: "wa_inv R M ws cs" and m: "M p = Some (n, c)"
  shows "\<exists>us ds. walloc_free heap_ok (page_addr ws p) (int n) ws cs = Some (us, ds) \<and> wa_inv R (M(p := None)) us ds \<and>
    cs_free ds = cs_free cs @ [c] \<and> cs_calls ds = cs_calls cs @ [Mem_Window_Delete c, CNode_Revoke c, CNode_Delete c] \<and>
    page_addr us = page_addr ws"
proof -
  from inv have i: "cb_inv (ws_pool ws)" "cb_size (ws_pool ws) = ws_npages ws" "pool_ok M (ws_pool ws)" "ws_initialised ws"
    "ws_magic ws = WALLOC_MAGIC" "ch_inv (ws_windowCptrMap ws)" "cs_inv R cs" "windows_ok (R - set (cs_free cs)) (ws_npages ws) M"
    "ch_lookup (ws_windowCptrMap ws) = map_option snd \<circ> M" by (auto simp: wa_inv_def)
  from i(8) m have w: "0 < n" "p + n \<le> ws_npages ws" "c \<in> R" "c \<notin> set (cs_free cs)" by (auto simp: windows_ok_def)
  have c0: "c \<noteq> 0" using w(3) i(7) by (metis cs_inv_def)
  from pool_free_spec [OF i(1) _ w(1), of p] w(2) i(2) obtain pool where
    pool: "cbpool_free (ws_pool ws) p n = Some pool" "cb_inv pool" "cb_size pool = ws_npages ws"
    "\<And>x. cb_used pool x \<Longrightarrow> cb_used (ws_pool ws) x"
    "\<And>x. \<not> (p \<le> x \<and> x < p + n) \<Longrightarrow> cb_used (ws_pool ws) x \<Longrightarrow> cb_used pool x"
    "\<And>x. p \<le> x \<Longrightarrow> x < p + n \<Longrightarrow> x + 1 < ws_npages ws \<Longrightarrow> \<not> cb_used pool x" by auto
  let ?cs = "cs\<lparr>cs_calls := cs_calls cs @ [Mem_Window_Delete c, CNode_Revoke c]\<rparr>"
  from csfree_spec [of R ?cs c] i(7) w(3,4) obtain t where
    t: "csfree_delete c ?cs = Some (t\<lparr>cs_calls := cs_calls ?cs @ [CNode_Delete c]\<rparr>)" "cs_inv R t" "cs_free t = cs_free cs @ [c]"
    by auto
  from chash_remove_lookup [OF i(6), of p] obtain h where
    h: "chash_remove heap_ok (ws_windowCptrMap ws) p = Some h" "ch_inv h"
    "ch_lookup h = (ch_lookup (ws_windowCptrMap ws))(p := None)" by blast
  have ppos: "p < ws_npages ws" "0 < REFOS_PAGE_SIZE" using w by (auto simp: REFOS_PAGE_SIZE_def)
  have pg: "walloc_list_get_start_page (ws\<lparr>ws_pool := x\<rparr>) = walloc_list_get_start_page ws" for x
    by (simp add: walloc_list_get_start_page_def fun_eq_iff)
  have at: "walloc_list_get_window_at_vaddr (ws\<lparr>ws_pool := x\<rparr>) = walloc_list_get_window_at_vaddr ws" for x
    by (simp add: walloc_list_get_window_at_vaddr_def pg fun_eq_iff)
  have sp: "walloc_list_get_start_page ws (page_addr ws p) = Some p" using window_start_page [OF inv ppos] by simp
  have wa: "walloc_list_get_window_at_vaddr ws (page_addr ws p) = Some c"
    using window_at_vaddr [OF inv ppos] m by (simp add: walloc_defs)
  have "u32i (int n) = n" using w(2) i(1,2) by (simp add: cb_inv_def)
  then have run: "walloc_free heap_ok (page_addr ws p) (int n) ws cs =
      Some (ws\<lparr>ws_pool := pool, ws_windowCptrMap := h\<rparr>, t\<lparr>cs_calls := cs_calls ?cs @ [CNode_Delete c]\<rparr>)"
    using i(4,5) w(1) c0 pool(1) t(1) h(1) by (simp add: walloc_free_def walloc_list_free_def pg at sp wa)
  have live: "R - set (cs_free t) = R - set (cs_free cs) - {c}" using t(3) by auto
  have "windows_ok (R - set (cs_free t)) (ws_npages ws) (M(p := None))"
    unfolding live using windows_ok_del [OF i(8) m] .
  moreover have "pool_ok (M(p := None)) pool"
    by (rule pool_ok_del [OF i(3), unfolded i(2), OF i(8) m pool(4-6) pool(3)])
  moreover have "ch_lookup h = map_option snd \<circ> M(p := None)" using h(3) i(9) by auto
  ultimately have "wa_inv R (M(p := None)) (ws\<lparr>ws_pool := pool, ws_windowCptrMap := h\<rparr>)
      (t\<lparr>cs_calls := cs_calls ?cs @ [CNode_Delete c]\<rparr>)"
    using inv t h pool by (simp add: wa_inv_def)
  then show ?thesis using run t(3) by (simp add: page_addr_def fun_eq_iff)
qed

lemma walloc_init_inv:
  assumes "0 < start" and "start mod REFOS_PAGE_SIZE = 0" and "start + n * REFOS_PAGE_SIZE < 2 ^ 32" and "cs_inv R cs"
  shows "\<exists>ws. walloc_init heap_ok start (start + n * REFOS_PAGE_SIZE) = Some ws \<and> wa_inv R Map.empty ws cs \<and> ws_npages ws = n \<and>
    ws_startAddr ws = start"
proof -
  have n: "n < 2 ^ 31" using assms(3) by (simp add: REFOS_PAGE_SIZE_def)
  from cbpool_init_used [OF n] obtain pool where
    pool: "cbpool_init heap_ok n = Some pool" "cb_inv pool" "cb_size pool = n" "\<And>j. j \<le> n \<Longrightarrow> \<not> cb_used pool j" by auto
  from chash_init_empty [of WALLOC_WINDOW_CPTR_MAP_HASHSIZE] obtain h :: "nat chash" where
    h: "chash_init heap_ok WALLOC_WINDOW_CPTR_MAP_HASHSIZE = Some h" "ch_inv h" "ch_lookup h = Map.empty"
    by (auto simp: WALLOC_WINDOW_CPTR_MAP_HASHSIZE_def)
  have sz: "u32i (int n * int REFOS_PAGE_SIZE) = n * REFOS_PAGE_SIZE" using assms(3) by (simp flip: of_nat_mult)
  have pos: "0 < REFOS_PAGE_SIZE" by (simp add: REFOS_PAGE_SIZE_def)
  have c: "\<not> covered Map.empty k" for k by (simp add: covered_def in_window_def)
  have "pool_ok Map.empty pool" using pool(3,4) by (auto simp: pool_ok_def c)
  moreover have "windows_ok L n Map.empty" for L by (simp add: windows_ok_def in_window_def)
  ultimately show ?thesis
    using assms pool(1-3) h pos by (simp add: walloc_init_def walloc_list_init_def sz Let_def wa_inv_def comp_def)
qed

section \<open>The contract\<close>

text \<open>What one call of \<open>walloc_ext\<close> and one of \<open>walloc_free\<close> do to the windows \<open>M\<close> and to the free slots.\<close>

definition walloc_spec ::
  "nat set \<Rightarrow> windows \<Rightarrow> nat \<Rightarrow> walloc_state \<Rightarrow> cspace \<Rightarrow> walloc_state \<Rightarrow> cspace \<Rightarrow> nat option \<Rightarrow> nat \<Rightarrow> bool" where
  "walloc_spec R M n ws cs us ds window addr \<longleftrightarrow> (case window of
     None \<Rightarrow> us = ws \<and> ds = cs \<and> addr = 0 \<and> (\<forall>a. a + n < ws_npages ws \<longrightarrow> (\<exists>k. a \<le> k \<and> k < a + n \<and> covered M k))
   | Some c \<Rightarrow> \<exists>p. addr = page_addr ws p \<and> p + n \<le> ws_npages ws \<and> (\<forall>k. p \<le> k \<longrightarrow> k < p + n \<longrightarrow> \<not> covered M k) \<and>
       cs_free cs = cs_free ds @ [c] \<and> wa_inv R (M(p \<mapsto> (n, c))) us ds \<and> page_addr us = page_addr ws)"


definition demo_stub :: window_stub where
  "demo_stub a sz perm flags cs = map_option (\<lambda>(t, c). (t, c, ESUCCESS)) (rpc_copyout_cptr 9 cs)"


end
