(* ===== verification/Rpc.thy ===== *)
theory Rpc
  imports Walloc
begin

text \<open>
  The backend of the generated stubs (\<open>rpc.c\<close>, \<open>rpc_refos.c\<close> and \<open>rpc.h\<close> of \<open>librefos\<close>): arguments are packed into the message
  registers of the IPC buffer, and the server unpacks strings and arrays into blocks of a static pool.  The IPC buffer has the
  arrays of the kernel interface; an access behind their end is \<open>None\<close>.  The kernel is an argument of the operation that calls it.
\<close>

section \<open>Data\<close>

definition seL4_MsgMaxLength :: nat where "seL4_MsgMaxLength = 120"
definition RPC_MAX_TRACKED_OBJS :: nat where "RPC_MAX_TRACKED_OBJS = 32"
definition RPC_STATIC_MEMPOOL_OBJ_SIZE :: nat where "RPC_STATIC_MEMPOOL_OBJ_SIZE = 4096"

record msginfo =
  mi_capsUnwrapped :: nat
  mi_extraCaps :: nat
  mi_length :: nat

datatype rpc_action = Rpc_Delete nat nat nat | Rpc_Send nat msginfo | Rpc_Reply msginfo

text \<open>
  The global variables of \<open>rpc.c\<close> and the thread's IPC buffer.  The pool is one array of bytes; a pointer into it is an offset.
\<close>

record rpc_state =
  ipc_msg :: "nat list"
  ipc_caps :: "nat list"
  ipc_receive :: "nat \<times> nat \<times> nat"
  rpc_static_mempool :: "nat list"
  rpc_static_mempool_table :: "bool list"
  rpc_mr :: nat
  rpc_cp :: nat
  rpc_recv_cslot :: nat
  rpc_dest_ep :: nat
  rpc_minfo :: msginfo
  rpc_label :: nat
  rpc_actions :: "rpc_action list"

record rpc_client_state =
  rc_minfo :: msginfo
  rc_obj :: "int list"
  rc_num_obj :: nat
  rc_skip_reply :: bool
  rc_reply :: nat

record rpc_buffer =
  rbuf_data :: nat
  rbuf_count :: nat

definition seL4_SetMR :: "nat \<Rightarrow> nat \<Rightarrow> rpc_state \<Rightarrow> rpc_state option" where
  "seL4_SetMR i w s = do { m \<leftarrow> wr (ipc_msg s) i w; Some (s\<lparr>ipc_msg := m\<rparr>) }"
definition seL4_GetMR :: "nat \<Rightarrow> rpc_state \<Rightarrow> nat option" where
  "seL4_GetMR i s = rd (ipc_msg s) i"
definition seL4_SetCap :: "nat \<Rightarrow> nat \<Rightarrow> rpc_state \<Rightarrow> rpc_state option" where
  "seL4_SetCap i c s = do { m \<leftarrow> wr (ipc_caps s) i c; Some (s\<lparr>ipc_caps := m\<rparr>) }"
definition seL4_SetCapReceivePath :: "nat \<Rightarrow> nat \<Rightarrow> nat \<Rightarrow> rpc_state \<Rightarrow> rpc_state" where
  "seL4_SetCapReceivePath cnode i depth s = s\<lparr>ipc_receive := (cnode, i, depth)\<rparr>"

section \<open>Helpers\<close>

definition rpc_malloc :: "nat \<Rightarrow> rpc_state \<Rightarrow> (rpc_state \<times> nat) option" where
  "rpc_malloc sz s = do {
     c_assert (sz \<le> RPC_STATIC_MEMPOOL_OBJ_SIZE);
     r \<leftarrow> for_find (rd (rpc_static_mempool_table s)) Not 0 RPC_MAX_TRACKED_OBJS;
     i \<leftarrow> r;
     t \<leftarrow> wr (rpc_static_mempool_table s) i True;
     Some (s\<lparr>rpc_static_mempool_table := t\<rparr>, i * RPC_STATIC_MEMPOOL_OBJ_SIZE)
   }"

text \<open>Division of C rounds towards 0.\<close>

definition rpc_free :: "int \<Rightarrow> rpc_state \<Rightarrow> rpc_state option" where
  "rpc_free addr s = do {
     let n = int RPC_STATIC_MEMPOOL_OBJ_SIZE;
     let i = (if addr < 0 then - ((- addr) div n) else addr div n);
     c_assert (i \<ge> 0 \<and> i < int RPC_MAX_TRACKED_OBJS);
     b \<leftarrow> rd (rpc_static_mempool_table s) (nat i);
     c_assert b;
     t \<leftarrow> wr (rpc_static_mempool_table s) (nat i) False;
     Some (s\<lparr>rpc_static_mempool_table := t\<rparr>)
   }"

text \<open>The loop over whole words, \<open>k\<close> rounds; \<open>str\<close> is the memory from the pointer on.\<close>

primrec marshall_words :: "nat \<Rightarrow> nat \<Rightarrow> nat list \<Rightarrow> rpc_state \<Rightarrow> (rpc_state \<times> nat) option" where
  "marshall_words 0 cur_mr str s = Some (s, cur_mr)"
| "marshall_words (Suc k) cur_mr str s = do {
     c_assert (4 \<le> length str);
     s \<leftarrow> seL4_SetMR cur_mr (le_value (take 4 str)) s;
     marshall_words k (u32 (cur_mr + 1)) (drop 4 str) s
   }"

definition rpc_marshall :: "nat \<Rightarrow> nat list option \<Rightarrow> nat \<Rightarrow> rpc_state \<Rightarrow> (rpc_state \<times> nat) option" where
  "rpc_marshall cur_mr ptr slen s = do {
     str \<leftarrow> ptr;
     if slen = 0 then Some (s, cur_mr)
     else do {
       (s, cur_mr) \<leftarrow> marshall_words (slen div 4) cur_mr str s;
       let i = slen div 4 * 4;
       if i \<noteq> slen then do {
         w \<leftarrow> copy_bytes [0, 0, 0, 0] 0 (drop i str) (slen - i);
         s \<leftarrow> seL4_SetMR cur_mr (le_value w) s;
         Some (s, u32 (cur_mr + 1))
       }
       else Some (s, cur_mr)
     }
   }"

text \<open>The other direction; the target is memory and an offset in it.\<close>

primrec unmarshall_words :: "nat \<Rightarrow> nat \<Rightarrow> nat list \<Rightarrow> nat \<Rightarrow> rpc_state \<Rightarrow> (nat list \<times> nat) option" where
  "unmarshall_words 0 cur_mr mem p s = Some (mem, cur_mr)"
| "unmarshall_words (Suc k) cur_mr mem p s = do {
     w \<leftarrow> seL4_GetMR cur_mr s;
     mem \<leftarrow> copy_bytes mem p (le_bytes w) 4;
     unmarshall_words k (u32 (cur_mr + 1)) mem (p + 4) s
   }"

definition rpc_unmarshall :: "nat \<Rightarrow> (nat list \<times> nat) option \<Rightarrow> nat \<Rightarrow> rpc_state \<Rightarrow> (nat list \<times> nat) option" where
  "rpc_unmarshall cur_mr ptr slen s = do {
     (mem, p) \<leftarrow> ptr;
     if slen = 0 then Some (mem, cur_mr)
     else do {
       (mem, cur_mr) \<leftarrow> unmarshall_words (slen div 4) cur_mr mem p s;
       let i = slen div 4 * 4;
       if i \<noteq> slen then do {
         w \<leftarrow> seL4_GetMR cur_mr s;
         mem \<leftarrow> copy_bytes mem (p + i) (le_bytes w) (slen - i);
         Some (mem, u32 (cur_mr + 1))
       }
       else Some (mem, cur_mr)
     }
   }"

definition rpc_setup_recv_cspace :: "nat \<Rightarrow> nat \<Rightarrow> nat \<Rightarrow> rpc_state \<Rightarrow> rpc_state option" where
  "rpc_setup_recv_cspace cspace1 recv_cslot depth s = do {
     c_assert (recv_cslot \<noteq> 0);
     Some ((seL4_SetCapReceivePath cspace1 recv_cslot depth s)\<lparr>rpc_recv_cslot := recv_cslot\<rparr>)
   }"

definition rpc_setup_recv :: "nat \<Rightarrow> rpc_state \<Rightarrow> rpc_state option" where
  "rpc_setup_recv recv_cslot s = do {
     c_assert (recv_cslot \<noteq> 0);
     Some ((seL4_SetCapReceivePath REFOS_CSPACE recv_cslot REFOS_CSPACE_DEPTH s)\<lparr>rpc_recv_cslot := recv_cslot\<rparr>)
   }"

definition rpc_reset_contents :: "rpc_state \<Rightarrow> rpc_state" where
  "rpc_reset_contents s = s\<lparr>rpc_mr := 1, rpc_cp := 0\<rparr>"

section \<open>The client side\<close>

definition rpc_get_endpoint :: "rpc_state \<Rightarrow> nat option" where
  "rpc_get_endpoint s = (if rpc_dest_ep s \<noteq> 0 then Some (rpc_dest_ep s) else None)"

definition rpc_init :: "int \<Rightarrow> rpc_state \<Rightarrow> rpc_state option" where
  "rpc_init label s = do {
     let s = rpc_reset_contents (s\<lparr>rpc_label := u32i label\<rparr>);
     s \<leftarrow> seL4_SetMR 0 (u32i label) s;
     if rpc_recv_cslot s = 0 then rpc_setup_recv REFOS_THREAD_CAP_RECV s
     else if mi_extraCaps (rpc_minfo s) > 0
       then Some (s\<lparr>rpc_actions := rpc_actions s @ [Rpc_Delete REFOS_CSPACE (rpc_recv_cslot s) REFOS_CSPACE_DEPTH]\<rparr>)
     else Some s
   }"

definition rpc_push_uint :: "nat \<Rightarrow> rpc_state \<Rightarrow> rpc_state option" where
  "rpc_push_uint v s = do {
     s \<leftarrow> seL4_SetMR (rpc_mr s) v s;
     Some (s\<lparr>rpc_mr := u32 (rpc_mr s + 1)\<rparr>)
   }"

text \<open>\<open>strlen\<close> of memory without a terminator reads behind it.\<close>

definition c_strlen :: "nat list \<Rightarrow> nat option" where
  "c_strlen v = (if 0 \<in> set v then Some (length (takeWhile (\<lambda>c. c \<noteq> 0) v)) else None)"

definition rpc_push_str :: "nat list \<Rightarrow> rpc_state \<Rightarrow> rpc_state option" where
  "rpc_push_str v s = do {
     slen \<leftarrow> c_strlen v;
     s \<leftarrow> rpc_push_uint slen s;
     (s, mr) \<leftarrow> rpc_marshall (rpc_mr s) (Some v) slen s;
     Some (s\<lparr>rpc_mr := mr\<rparr>)
   }"

definition rpc_push_buf :: "nat list option \<Rightarrow> nat \<Rightarrow> rpc_state \<Rightarrow> rpc_state option" where
  "rpc_push_buf v sz s =
     (if sz = 0 then Some s
      else do {
        let sz = (if v = None then 0 else sz);
        (s, mr) \<leftarrow> rpc_marshall (rpc_mr s) v sz s;
        Some (s\<lparr>rpc_mr := mr\<rparr>)
      })"

definition rpc_push_buf_array :: "nat list option \<Rightarrow> nat \<Rightarrow> nat \<Rightarrow> rpc_state \<Rightarrow> rpc_state option" where
  "rpc_push_buf_array v sz count s = do {
     s \<leftarrow> rpc_push_uint count s;
     for_each [0..<count] (\<lambda>i. rpc_push_buf (map_option (drop (u32 (i * sz))) v) sz) s
   }"

definition rpc_push_cptr :: "nat \<Rightarrow> rpc_state \<Rightarrow> rpc_state option" where
  "rpc_push_cptr v s = do {
     s \<leftarrow> seL4_SetCap (rpc_cp s) v s;
     Some (s\<lparr>rpc_cp := u32 (rpc_cp s + 1)\<rparr>)
   }"

definition rpc_set_dest :: "nat \<Rightarrow> rpc_state \<Rightarrow> rpc_state" where
  "rpc_set_dest dest s = s\<lparr>rpc_dest_ep := dest\<rparr>"

definition rpc_pop_uint :: "rpc_state \<Rightarrow> (rpc_state \<times> nat) option" where
  "rpc_pop_uint s = do {
     v \<leftarrow> seL4_GetMR (rpc_mr s) s;
     Some (s\<lparr>rpc_mr := u32 (rpc_mr s + 1)\<rparr>, v)
   }"

text \<open>\<open>v\<close> is the caller's memory; the result has its new content.\<close>

definition rpc_pop_str :: "nat list \<Rightarrow> rpc_state \<Rightarrow> (rpc_state \<times> nat list) option" where
  "rpc_pop_str v s = do {
     (s, slen) \<leftarrow> rpc_pop_uint s;
     (v, mr) \<leftarrow> rpc_unmarshall (rpc_mr s) (Some (v, 0)) slen s;
     v \<leftarrow> wr v slen 0;
     Some (s\<lparr>rpc_mr := mr\<rparr>, v)
   }"

definition rpc_pop_buf :: "(nat list \<times> nat) option \<Rightarrow> nat \<Rightarrow> rpc_state \<Rightarrow> (rpc_state \<times> nat list) option" where
  "rpc_pop_buf v sz s =
     (if sz = 0 then Some (s, case v of None \<Rightarrow> [] | Some (mem, p) \<Rightarrow> mem)
      else do {
        (mem, mr) \<leftarrow> rpc_unmarshall (rpc_mr s) v sz s;
        Some (s\<lparr>rpc_mr := mr\<rparr>, mem)
      })"

definition rpc_pop_cptr :: "rpc_state \<Rightarrow> nat option" where
  "rpc_pop_cptr s = do {
     c_assert (rpc_recv_cslot s \<noteq> 0);
     Some (if mi_extraCaps (rpc_minfo s) < 1 then 0 else rpc_recv_cslot s)
   }"

definition rpc_pop_buf_array :: "nat list \<Rightarrow> nat \<Rightarrow> nat \<Rightarrow> rpc_state \<Rightarrow> (rpc_state \<times> nat list) option" where
  "rpc_pop_buf_array v sz count s = do {
     (s, cn) \<leftarrow> rpc_pop_uint s;
     c_assert (cn \<le> count);
     for_each [0..<cn] (\<lambda>i (s, mem). rpc_pop_buf (Some (mem, u32 (i * sz))) sz s) (s, v)
   }"

text \<open>
  \<open>call\<close> is the kernel: it gives the message to the endpoint and returns the answer, with the contents of the IPC buffer.
\<close>

definition rpc_call_server ::
  "(nat \<Rightarrow> msginfo \<Rightarrow> nat list \<Rightarrow> nat list \<Rightarrow> msginfo \<times> nat list \<times> nat list) \<Rightarrow> rpc_state \<Rightarrow> (rpc_state \<times> int) option" where
  "rpc_call_server call s = do {
     let tag = \<lparr>mi_capsUnwrapped = 0, mi_extraCaps = rpc_cp s, mi_length = rpc_mr s\<rparr>;
     ept \<leftarrow> rpc_get_endpoint s;
     let (minfo, msg, caps) = call ept tag (ipc_msg s) (ipc_caps s);
     Some (rpc_reset_contents (s\<lparr>rpc_minfo := minfo, ipc_msg := msg, ipc_caps := caps\<rparr>), 0)
   }"

definition rpc_release :: "rpc_state \<Rightarrow> rpc_state" where
  "rpc_release s = s\<lparr>rpc_dest_ep := 0\<rparr>"

section \<open>The server side\<close>

definition rpc_sv_init :: "rpc_client_state option \<Rightarrow> rpc_state \<Rightarrow> (rpc_state \<times> rpc_client_state option) option" where
  "rpc_sv_init cl s = do {
     let s = rpc_reset_contents s;
     s \<leftarrow> (if rpc_recv_cslot s = 0 then rpc_setup_recv REFOS_THREAD_CAP_RECV s else Some s);
     Some (s, map_option (\<lambda>c. c\<lparr>rc_num_obj := 0, rc_skip_reply := False\<rparr>) cl)
   }"

definition rpc_sv_pop_uint :: "rpc_state \<Rightarrow> (rpc_state \<times> nat) option" where
  "rpc_sv_pop_uint s = do {
     v \<leftarrow> seL4_GetMR (rpc_mr s) s;
     Some (s\<lparr>rpc_mr := u32 (rpc_mr s + 1)\<rparr>, v)
   }"

definition rpc_sv_pop_str :: "rpc_state \<Rightarrow> (rpc_state \<times> nat) option" where
  "rpc_sv_pop_str s = do {
     (s, slen) \<leftarrow> rpc_sv_pop_uint s;
     (s, str) \<leftarrow> rpc_malloc (u32 (slen + 1)) s;
     (mem, mr) \<leftarrow> rpc_unmarshall (rpc_mr s) (Some (rpc_static_mempool s, str)) slen s;
     mem \<leftarrow> wr mem (str + slen) 0;
     Some (s\<lparr>rpc_mr := mr, rpc_static_mempool := mem\<rparr>, str)
   }"

text \<open>\<open>v\<close> points into the pool.\<close>

definition rpc_sv_pop_buf :: "nat \<Rightarrow> nat \<Rightarrow> rpc_state \<Rightarrow> rpc_state option" where
  "rpc_sv_pop_buf v sz s =
     (if sz = 0 then Some s
      else do {
        (mem, mr) \<leftarrow> rpc_unmarshall (rpc_mr s) (Some (rpc_static_mempool s, v)) sz s;
        Some (s\<lparr>rpc_mr := mr, rpc_static_mempool := mem\<rparr>)
      })"

definition rpc_sv_pop_buf_array :: "nat \<Rightarrow> rpc_state \<Rightarrow> (rpc_state \<times> rpc_buffer) option" where
  "rpc_sv_pop_buf_array sz s = do {
     (s, count) \<leftarrow> rpc_sv_pop_uint s;
     (s, v) \<leftarrow> rpc_malloc (u32 (count * sz)) s;
     s \<leftarrow> for_each [0..<count] (\<lambda>i s. do {
            (mem, mr) \<leftarrow> rpc_unmarshall (rpc_mr s) (Some (rpc_static_mempool s, v + u32 (i * sz))) sz s;
            Some (s\<lparr>rpc_mr := mr, rpc_static_mempool := mem\<rparr>)
          }) s;
     Some (s, \<lparr>rbuf_data = v, rbuf_count = count\<rparr>)
   }"

text \<open>\<open>badge\<close> takes the badge out of a word of the kernel.\<close>

definition rpc_sv_pop_cptr :: "(nat \<Rightarrow> nat) \<Rightarrow> rpc_client_state \<Rightarrow> rpc_state \<Rightarrow> (rpc_state \<times> nat) option" where
  "rpc_sv_pop_cptr badge c s =
     (if rpc_cp s \<ge> mi_extraCaps (rc_minfo c) then Some (s, 0)
      else if bit (mi_capsUnwrapped (rc_minfo c)) (rpc_cp s) then do {
        w \<leftarrow> rd (ipc_caps s) (rpc_cp s);
        Some (s\<lparr>rpc_cp := u32 (rpc_cp s + 1)\<rparr>, badge w)
      }
      else do {
        c_assert (rpc_recv_cslot s \<noteq> 0);
        Some (s\<lparr>rpc_cp := u32 (rpc_cp s + 1)\<rparr>, rpc_recv_cslot s)
      })"

definition rpc_sv_push_uint :: "nat \<Rightarrow> rpc_state \<Rightarrow> rpc_state option" where
  "rpc_sv_push_uint v s = do {
     s \<leftarrow> seL4_SetMR (rpc_mr s) v s;
     Some (s\<lparr>rpc_mr := u32 (rpc_mr s + 1)\<rparr>)
   }"

definition rpc_sv_push_buf :: "nat list option \<Rightarrow> nat \<Rightarrow> rpc_state \<Rightarrow> rpc_state option" where
  "rpc_sv_push_buf v sz s =
     (if sz = 0 then Some s
      else do {
        (s, mr) \<leftarrow> rpc_marshall (rpc_mr s) v sz s;
        Some (s\<lparr>rpc_mr := mr\<rparr>)
      })"

definition rpc_sv_push_cptr :: "nat \<Rightarrow> rpc_state \<Rightarrow> rpc_state option" where
  "rpc_sv_push_cptr v s =
     (if v = 0 then Some s
      else do {
        s \<leftarrow> seL4_SetCap (rpc_cp s) v s;
        Some (s\<lparr>rpc_cp := u32 (rpc_cp s + 1)\<rparr>)
      })"

text \<open>The data of the buffer are in the pool.\<close>

definition rpc_sv_push_buf_array :: "rpc_buffer \<Rightarrow> nat \<Rightarrow> rpc_state \<Rightarrow> rpc_state option" where
  "rpc_sv_push_buf_array v sz s = do {
     s \<leftarrow> rpc_sv_push_uint (rbuf_count v) s;
     for_each [0..<rbuf_count v] (\<lambda>i s.
       rpc_sv_push_buf (Some (drop (rbuf_data v + u32 (i * sz)) (rpc_static_mempool s))) sz s) s
   }"

definition rpc_sv_get_reply_endpoint :: "rpc_client_state option \<Rightarrow> nat" where
  "rpc_sv_get_reply_endpoint cl = (case cl of None \<Rightarrow> 0 | Some c \<Rightarrow> rc_reply c)"

definition rpc_sv_skip_reply :: "rpc_client_state option \<Rightarrow> bool" where
  "rpc_sv_skip_reply cl = (case cl of None \<Rightarrow> False | Some c \<Rightarrow> rc_skip_reply c)"

definition rpc_sv_reply :: "rpc_client_state option \<Rightarrow> rpc_state \<Rightarrow> rpc_state" where
  "rpc_sv_reply cl s =
     (if rpc_sv_skip_reply cl then s
      else
        (let reply_endpoint = rpc_sv_get_reply_endpoint cl;
             reply = \<lparr>mi_capsUnwrapped = 0, mi_extraCaps = rpc_cp s, mi_length = rpc_mr s\<rparr>
         in if reply_endpoint \<noteq> 0 then s\<lparr>rpc_actions := rpc_actions s @ [Rpc_Send reply_endpoint reply]\<rparr>
            else s\<lparr>rpc_actions := rpc_actions s @ [Rpc_Reply reply]\<rparr>))"

definition rpc_sv_release :: "rpc_client_state \<Rightarrow> rpc_state \<Rightarrow> rpc_state" where
  "rpc_sv_release c s =
     (let s = s\<lparr>rpc_dest_ep := 0\<rparr>
      in if mi_extraCaps (rc_minfo c) > 0
         then s\<lparr>rpc_actions := rpc_actions s @ [Rpc_Delete REFOS_CSPACE (rpc_recv_cslot s) REFOS_CSPACE_DEPTH]\<rparr>
         else s)"

definition rpc_sv_track_obj :: "int \<Rightarrow> rpc_client_state \<Rightarrow> rpc_client_state option" where
  "rpc_sv_track_obj addr c = do {
     c_assert (rc_num_obj c < RPC_MAX_TRACKED_OBJS - 1);
     objs \<leftarrow> wr (rc_obj c) (rc_num_obj c) addr;
     Some (c\<lparr>rc_obj := objs, rc_num_obj := rc_num_obj c + 1\<rparr>)
   }"

definition rpc_sv_free_tracked_objs :: "rpc_client_state \<Rightarrow> rpc_state \<Rightarrow> (rpc_state \<times> rpc_client_state) option" where
  "rpc_sv_free_tracked_objs c s = do {
     s \<leftarrow> for_each [0..<rc_num_obj c] (\<lambda>i s. do { a \<leftarrow> rd (rc_obj c) i; rpc_free a s }) s;
     Some (s, c\<lparr>rc_num_obj := 0\<rparr>)
   }"

definition rpc_helper_client_release ::
  "rpc_client_state option \<Rightarrow> cspace \<Rightarrow> (rpc_client_state option \<times> cspace) option" where
  "rpc_helper_client_release cl cs =
     (case cl of
        None \<Rightarrow> Some (cl, cs)
      | Some c \<Rightarrow> do {
          c_assert (rc_num_obj c = 0);
          if rc_reply c \<noteq> 0 then do {
            let cs = cs\<lparr>cs_calls := cs_calls cs @ [CNode_Revoke (rc_reply c)]\<rparr>;
            cs \<leftarrow> csfree_delete (rc_reply c) cs;
            Some (Some (c\<lparr>rc_reply := 0\<rparr>), cs)
          }
          else Some (cl, cs)
        })"

section \<open>Parts of an array\<close>

text \<open>\<open>ys\<close> written over \<open>xs\<close> at \<open>p\<close>, and the part of length \<open>n\<close> at \<open>p\<close>.\<close>

definition overlay :: "'a list \<Rightarrow> nat \<Rightarrow> 'a list \<Rightarrow> 'a list" where
  "overlay xs p ys = take p xs @ ys @ drop (p + length ys) xs"

definition part :: "'a list \<Rightarrow> nat \<Rightarrow> nat \<Rightarrow> 'a list" where
  "part xs p n = take n (drop p xs)"

lemma overlay_Nil [simp]: "overlay xs p [] = xs"
  by (simp add: overlay_def)

lemma length_overlay [simp]: "p + length ys \<le> length xs \<Longrightarrow> length (overlay xs p ys) = length xs"
  by (simp add: overlay_def)

lemma overlay_single: "p < length xs \<Longrightarrow> overlay xs p [y] = xs[p := y]"
  by (simp add: overlay_def upd_conv_take_nth_drop)

lemma overlay_append:
  "p + length ys + length zs \<le> length xs \<Longrightarrow> overlay (overlay xs p ys) (p + length ys) zs = overlay xs p (ys @ zs)"
  by (simp add: overlay_def add.commute add.left_commute)

lemma nth_overlay:
  assumes "p + length ys \<le> length xs" and "i < length xs"
  shows "overlay xs p ys ! i = (if p \<le> i \<and> i < p + length ys then ys ! (i - p) else xs ! i)"
  using assms by (auto simp: overlay_def nth_append min_def)

lemma length_part [simp]: "p + n \<le> length xs \<Longrightarrow> length (part xs p n) = n"
  by (simp add: part_def)

lemma nth_part: "p + n \<le> length xs \<Longrightarrow> i < n \<Longrightarrow> part xs p n ! i = xs ! (p + i)"
  by (simp add: part_def)

lemma part_overlay: "p + length ys \<le> length xs \<Longrightarrow> part (overlay xs p ys) p (length ys) = ys"
  by (simp add: part_def overlay_def)

lemma part_overlay_other:
  assumes "p + length ys \<le> length xs" and "q + n \<le> length xs" and "q + n \<le> p \<or> p + length ys \<le> q"
  shows "part (overlay xs p ys) q n = part xs q n"
  using assms by (intro nth_equalityI) (auto simp: nth_part nth_overlay)

lemma part_append:
  assumes "p + length (ys @ zs) \<le> length xs"
  shows "part xs p (length (ys @ zs)) = ys @ zs \<longleftrightarrow> part xs p (length ys) = ys \<and> part xs (p + length ys) (length zs) = zs"
proof -
  have "part xs p (length ys + length zs) = part xs p (length ys) @ part xs (p + length ys) (length zs)"
    by (simp add: part_def take_add add.commute)
  moreover have "length (part xs p (length ys)) = length ys" using assms by simp
  ultimately show ?thesis by simp
qed

lemma copy_bytes_overlay:
  "p + n \<le> length dst \<Longrightarrow> n \<le> length src \<Longrightarrow> copy_bytes dst p src n = Some (overlay dst p (take n src))"
  by (simp add: copy_bytes_def overlay_def)

section \<open>Words\<close>

text \<open>Bytes as message words, the last word padded with zeros.\<close>

function words_of :: "nat list \<Rightarrow> nat list" where
  "words_of bs = (if bs = [] then [] else le_value (take 4 bs) # words_of (drop 4 bs))"
  by pat_completeness auto
termination by (relation "measure length") auto

declare words_of.simps [simp del]

lemma words_of_Nil [simp]: "words_of [] = []" by (simp add: words_of.simps)

lemma words_of_step: "bs \<noteq> [] \<Longrightarrow> words_of bs = le_value (take 4 bs) # words_of (drop 4 bs)"
  by (simp add: words_of.simps)

definition byte_list :: "nat list \<Rightarrow> bool" where
  "byte_list bs \<longleftrightarrow> (\<forall>b \<in> set bs. b < 256)"

lemma byte_list_drop [simp]: "byte_list bs \<Longrightarrow> byte_list (drop k bs)"
  by (auto simp: byte_list_def dest: in_set_dropD)

lemma byte_list_take [simp]: "byte_list bs \<Longrightarrow> byte_list (take k bs)"
  by (auto simp: byte_list_def dest: in_set_takeD)

lemma length_words_of: "length (words_of bs) = (length bs + 3) div 4"
proof (induction bs rule: words_of.induct)
  case (1 bs)
  show ?case
  proof (cases "bs = []")
    case False
    then have "length bs - 4 + 3 = length bs + 3 - 4 \<or> length bs < 4" "0 < length bs" by auto
    moreover have "length bs < 4 \<Longrightarrow> (length bs + 3) div 4 = 1" using False by (cases bs) auto
    ultimately show ?thesis using 1 [OF False] False by (auto simp: words_of_step)
  qed simp
qed

lemma le_value_less: "byte_list bs \<Longrightarrow> le_value bs < 256 ^ length bs"
proof (induction bs)
  case (Cons b bs)
  then have "le_value bs + 1 \<le> 256 ^ length bs" "b < 256" by (auto simp: byte_list_def)
  then have "256 * (le_value bs + 1) \<le> 256 * 256 ^ length bs" by (intro mult_le_mono2)
  with \<open>b < 256\<close> show ?case by simp
qed simp

lemma le_value_zeros [simp]: "le_value (bs @ replicate k 0) = le_value bs"
proof (induction bs)
  case Nil
  show ?case by (induction k) auto
qed simp

lemma le_bytes_value:
  assumes "byte_list bs" and "length bs \<le> 4"
  shows "le_bytes (le_value bs) = bs @ replicate (4 - length bs) 0"
proof -
  have four: "le_bytes (le_value [a, b, c, d]) = [a, b, c, d]" if "a < 256" "b < 256" "c < 256" "d < 256" for a b c d
  proof -
    have e: "le_value [a, b, c, d] = a + 256 * (b + 256 * (c + 256 * d))" by simp
    have 1: "(a + 256 * x) mod 256 = a" "(a + 256 * x) div 256 = x" for x using that by simp_all
    have 2: "(b + 256 * x) mod 256 = b" "(b + 256 * x) div 256 = x" for x using that by simp_all
    have 3: "(c + 256 * x) mod 256 = c" "(c + 256 * x) div 256 = x" for x using that by simp_all
    have q: "n div 65536 = n div 256 div 256" "n div 16777216 = n div 256 div 256 div 256" for n :: nat
      by (simp_all add: div_mult2_eq [symmetric])
    show ?thesis unfolding le_bytes_def e q 1 2 3 using that by simp
  qed
  let ?xs = "bs @ replicate (4 - length bs) 0"
  have "length ?xs = 4" using assms(2) by simp
  moreover have "\<exists>a b c d. xs = [a, b, c, d]" if "length xs = 4" for xs :: "nat list"
    using that by (auto simp: length_Suc_conv numeral_eq_Suc)
  ultimately obtain a b c d where xs: "?xs = [a, b, c, d]" by blast
  have "\<forall>x \<in> set ?xs. x < 256" using assms(1) by (auto simp: byte_list_def)
  then have "a < 256" "b < 256" "c < 256" "d < 256" unfolding xs by auto
  from four [OF this] show ?thesis unfolding xs [symmetric] by simp
qed


section \<open>Marshalling\<close>

lemma words_of_append:
  assumes "length xs = 4 * k"
  shows "words_of (xs @ ys) = words_of xs @ words_of ys"
  using assms
proof (induction k arbitrary: xs)
  case 0
  then show ?case by simp
next
  case (Suc k)
  then have "xs \<noteq> []" "4 \<le> length xs" "length (drop 4 xs) = 4 * k" by auto
  with Suc.IH [of "drop 4 xs"] show ?case by (simp add: words_of_step)
qed

lemma words_of_short: "bs \<noteq> [] \<Longrightarrow> length bs \<le> 4 \<Longrightarrow> words_of bs = [le_value bs]"
  by (simp add: words_of_step)

lemma words_of_split:
  assumes "slen \<le> length str"
  shows "words_of (take slen str) = words_of (take (4 * (slen div 4)) str) @
    (if slen mod 4 = 0 then [] else [le_value (take (slen mod 4) (drop (4 * (slen div 4)) str))])"
proof -
  let ?k = "4 * (slen div 4)"
  have "take slen str = take ?k str @ take (slen mod 4) (drop ?k str)"
    by (metis mult_div_mod_eq take_add)
  moreover have "length (take ?k str) = 4 * (slen div 4)"
    using assms mult_div_mod_eq [of 4 slen] by simp
  moreover have "words_of (take (slen mod 4) (drop ?k str)) = [le_value (take (slen mod 4) (drop ?k str))]" if "slen mod 4 \<noteq> 0"
  proof (rule words_of_short)
    show "length (take (slen mod 4) (drop ?k str)) \<le> 4" by (auto intro: le_trans [OF min.cobounded2])
    have "?k < length str" using that assms mult_div_mod_eq [of 4 slen] by linarith
    then show "take (slen mod 4) (drop ?k str) \<noteq> []" using that by simp
  qed
  ultimately show ?thesis by (simp add: words_of_append)
qed

lemma marshall_words_spec:
  assumes "4 * k \<le> length str" and "mr + k \<le> length (ipc_msg s)" and "length (ipc_msg s) < 2 ^ 32"
  shows "marshall_words k mr str s = Some (s\<lparr>ipc_msg := overlay (ipc_msg s) mr (words_of (take (4 * k) str))\<rparr>, mr + k)"
  using assms
proof (induction k arbitrary: mr str s)
  case 0
  then show ?case by simp
next
  case (Suc k)
  let ?s = "s\<lparr>ipc_msg := (ipc_msg s)[mr := le_value (take 4 str)]\<rparr>"
  have str: "4 \<le> length str" "4 * k \<le> length (drop 4 str)" "str \<noteq> []" using Suc.prems by auto
  have "take (4 * Suc k) str = take 4 str @ take (4 * k) (drop 4 str)" by (simp add: take_add)
  then have "words_of (take (4 * Suc k) str) = [le_value (take 4 str)] @ words_of (take (4 * k) (drop 4 str))"
    using str by (simp add: words_of_append [of "take 4 str" 1] words_of_short)
  moreover have "length (words_of (take (4 * k) (drop 4 str))) = k"
    using str by (simp add: length_words_of)
  moreover have "overlay (overlay (ipc_msg s) mr [w]) (Suc mr) ws = overlay (ipc_msg s) mr (w # ws)"
    if "length ws = k" for w ws using overlay_append [of mr "[w]" ws "ipc_msg s"] that Suc.prems by simp
  moreover have "overlay (ipc_msg s) mr [w] = (ipc_msg s)[mr := w]" for w using Suc.prems by (intro overlay_single) simp
  ultimately show ?case
    using Suc.IH [of "drop 4 str" "Suc mr" ?s] Suc.prems str by (simp add: seL4_SetMR_def)
qed

lemma rpc_marshall_spec:
  assumes "slen \<le> length str" and "mr + length (words_of (take slen str)) \<le> length (ipc_msg s)" and "length (ipc_msg s) < 2 ^ 32"
  shows "rpc_marshall mr (Some str) slen s =
    Some (s\<lparr>ipc_msg := overlay (ipc_msg s) mr (words_of (take slen str))\<rparr>, mr + length (words_of (take slen str)))"
proof (cases "slen = 0")
  case True
  then show ?thesis by (simp add: rpc_marshall_def)
next
  case False
  let ?k = "slen div 4" let ?ws = "words_of (take (4 * ?k) str)"
  have k: "4 * ?k + slen mod 4 = slen" "4 * ?k \<le> length str" "length ?ws = ?k"
    using assms(1) mult_div_mod_eq [of 4 slen] by (auto simp: length_words_of)
  note ws = words_of_split [OF assms(1)]
  have mr: "mr + ?k \<le> length (ipc_msg s)" using assms(2) k(3) unfolding ws by simp
  note m = marshall_words_spec [OF k(2) mr assms(3)]
  show ?thesis
  proof (cases "slen mod 4 = 0")
    case True
    with k False m show ?thesis unfolding ws by (simp add: rpc_marshall_def mult.commute)
  next
    case r: False
    let ?r = "take (slen mod 4) (drop (4 * ?k) str)"
    have "slen mod 4 \<le> length str - 4 * ?k" using assms(1) k(1) by linarith
    then have len: "length ?r = slen mod 4" "slen mod 4 < 4" "slen - 4 * ?k = slen mod 4"
      using assms(1) k(1) by (simp_all add: minus_mult_div_eq_mod)
    have "copy_bytes [0, 0, 0, 0] 0 (drop (4 * ?k) str) (slen mod 4) = Some (?r @ replicate (4 - slen mod 4) 0)"
    proof -
      have "drop n [0 :: nat, 0, 0, 0] = replicate (4 - n) 0" for n
        using drop_replicate [of n 4 "0 :: nat"] by (simp add: numeral_eq_Suc)
      then show ?thesis using len assms(1) k(1) by (simp add: copy_bytes_overlay overlay_def)
    qed
    moreover have "mr + ?k < length (ipc_msg s)" using assms(2) k(3) r unfolding ws by simp
    moreover have "overlay (overlay (ipc_msg s) mr ?ws) (mr + ?k) [w] = overlay (ipc_msg s) mr (?ws @ [w])" for w
      using overlay_append [of mr ?ws "[w]" "ipc_msg s"] k(3) calculation(2) by simp
    moreover have "overlay (overlay (ipc_msg s) mr ?ws) (mr + ?k) [w] = (overlay (ipc_msg s) mr ?ws)[mr + ?k := w]" for w
      using calculation(2) k(3) by (intro overlay_single) simp
    moreover have "4 * ?k \<noteq> slen" using r k(1) by linarith
    ultimately show ?thesis
      using k(3) False m r len(3) assms(3) unfolding ws by (simp add: rpc_marshall_def mult.commute seL4_SetMR_def)
  qed
qed

text \<open>The words of \<open>bs\<close> in the registers from \<open>mr\<close> on give \<open>bs\<close> back.\<close>

lemma unmarshall_words_spec:
  assumes "length bs = 4 * k" and "byte_list bs" and "mr + k \<le> length (ipc_msg s)" and "length (ipc_msg s) < 2 ^ 32"
    and "part (ipc_msg s) mr k = words_of bs" and "p + 4 * k \<le> length mem"
  shows "unmarshall_words k mr mem p s = Some (overlay mem p bs, mr + k)"
  using assms
proof (induction k arbitrary: mr bs mem p)
  case 0
  then show ?case by simp
next
  case (Suc k)
  have bs: "bs \<noteq> []" "length (take 4 bs) = 4" "length (drop 4 bs) = 4 * k" using Suc.prems(1) by auto
  have w: "ipc_msg s ! mr = le_value (take 4 bs)" "part (ipc_msg s) (Suc mr) k = words_of (drop 4 bs)"
  proof -
    have "part (ipc_msg s) mr (Suc k) = ipc_msg s ! mr # part (ipc_msg s) (Suc mr) k"
      using Suc.prems(3) by (simp add: part_def Cons_nth_drop_Suc [symmetric])
    with Suc.prems(5) bs(1) show "ipc_msg s ! mr = le_value (take 4 bs)" "part (ipc_msg s) (Suc mr) k = words_of (drop 4 bs)"
      by (simp_all add: words_of_step)
  qed
  have "le_bytes (le_value (take 4 bs)) = take 4 bs" using Suc.prems(2) bs(2) by (simp add: le_bytes_value)
  moreover have "overlay (overlay mem p (take 4 bs)) (p + 4) (drop 4 bs) = overlay mem p bs"
    using overlay_append [of p "take 4 bs" "drop 4 bs" mem] bs Suc.prems(6) by simp
  moreover have "unmarshall_words k (Suc mr) (overlay mem p (take 4 bs)) (p + 4) s =
      Some (overlay (overlay mem p (take 4 bs)) (p + 4) (drop 4 bs), Suc mr + k)"
    using Suc.prems bs w by (intro Suc.IH) simp_all
  ultimately show ?case
    using Suc.prems(3,4,6) w(1) bs(2) by (simp add: seL4_GetMR_def copy_bytes_overlay)
qed

lemma rpc_unmarshall_spec:
  assumes "byte_list bs" and "length bs = slen" and "mr + length (words_of bs) \<le> length (ipc_msg s)" and "length (ipc_msg s) < 2 ^ 32"
    and p: "part (ipc_msg s) mr (length (words_of bs)) = words_of bs" and "p + slen \<le> length mem"
  shows "rpc_unmarshall mr (Some (mem, p)) slen s = Some (overlay mem p bs, mr + length (words_of bs))"
proof (cases "slen = 0")
  case True
  with assms(2) show ?thesis by (simp add: rpc_unmarshall_def)
next
  case False
  let ?k = "slen div 4" let ?bs = "take (4 * ?k) bs" let ?r = "drop (4 * ?k) bs"
  have k: "4 * ?k + slen mod 4 = slen" "length ?bs = 4 * ?k" "length ?r = slen mod 4" "length (words_of ?bs) = ?k"
    using assms(2) mult_div_mod_eq [of 4 slen] by (auto simp: length_words_of minus_mult_div_eq_mod)
  have ws: "words_of bs = words_of ?bs @ words_of ?r" using words_of_append [OF k(2), of ?r] by simp
  have q: "part (ipc_msg s) mr ?k = words_of ?bs" "part (ipc_msg s) (mr + ?k) (length (words_of ?r)) = words_of ?r"
    using part_append [of mr "words_of ?bs" "words_of ?r" "ipc_msg s"] p assms(3) k(4) unfolding ws by auto
  have "p + 4 * ?k \<le> length mem" using assms(6) k(1) by linarith
  then have m: "unmarshall_words ?k mr mem p s = Some (overlay mem p ?bs, mr + ?k)"
    using assms(1,3,4) k(2,4) q(1) unfolding ws by (intro unmarshall_words_spec) simp_all
  show ?thesis
  proof (cases "slen mod 4 = 0")
    case True
    then have "?r = []" "?bs = bs" "4 * ?k = slen" using k assms(2) by auto
    with m False k(4) show ?thesis by (simp add: rpc_unmarshall_def mult.commute)
  next
    case r: False
    have wr: "words_of ?r = [le_value ?r]" using r k(3) by (intro words_of_short) (auto intro: less_imp_le)
    have mr: "mr + ?k < length (ipc_msg s)" using assms(3) k(4) unfolding ws wr by simp
    have "part (ipc_msg s) (mr + ?k) 1 = [ipc_msg s ! (mr + ?k)]"
      using mr by (simp add: part_def Cons_nth_drop_Suc [symmetric])
    then have "ipc_msg s ! (mr + ?k) = le_value ?r" using q(2) unfolding wr by simp
    moreover have "take (slen mod 4) (le_bytes (le_value ?r)) = ?r"
      using k(3) assms(1) by (subst le_bytes_value) (auto intro: less_imp_le)
    moreover have "slen mod 4 \<le> 4" by (simp add: less_imp_le)
    moreover have "overlay (overlay mem p ?bs) (p + 4 * ?k) ?r = overlay mem p bs"
      using overlay_append [of p ?bs ?r mem] k(1-3) assms(6) by simp
    moreover have "4 * ?k \<noteq> slen" "slen - 4 * ?k = slen mod 4" "p + 4 * ?k + slen mod 4 \<le> length mem" using r k(1) assms(6) by linarith+
    moreover have "length (overlay mem p ?bs) = length mem" using k(1,2) assms(6) by simp
    ultimately show ?thesis
      using False m mr assms(4) k(4) unfolding ws wr
      by (simp add: rpc_unmarshall_def mult.commute seL4_GetMR_def copy_bytes_overlay)
  qed
qed

section \<open>Arguments\<close>

text \<open>
  An argument of a call as the interface description has it: a number, a string, an object, an array of objects of one size.  The
  generated client pushes them in order; the generated server pops them by their types.
\<close>

datatype rpc_arg = Arg_uint nat | Arg_str "nat list" | Arg_buf "nat list" | Arg_array nat "nat list list"

fun arg_ok :: "rpc_arg \<Rightarrow> bool" where
  "arg_ok (Arg_uint v) \<longleftrightarrow> v < 2 ^ 32"
| "arg_ok (Arg_str bs) \<longleftrightarrow> byte_list bs \<and> 0 \<notin> set bs"
| "arg_ok (Arg_buf bs) \<longleftrightarrow> byte_list bs"
| "arg_ok (Arg_array sz xs) \<longleftrightarrow> length xs < 2 ^ 32 \<and> (\<forall>x \<in> set xs. length x = sz \<and> byte_list x)"

fun arg_words :: "rpc_arg \<Rightarrow> nat list" where
  "arg_words (Arg_uint v) = [v]"
| "arg_words (Arg_str bs) = length bs # words_of bs"
| "arg_words (Arg_buf bs) = words_of bs"
| "arg_words (Arg_array sz xs) = length xs # concat (map words_of xs)"

fun push_arg :: "rpc_arg \<Rightarrow> rpc_state \<Rightarrow> rpc_state option" where
  "push_arg (Arg_uint v) = rpc_push_uint v"
| "push_arg (Arg_str bs) = rpc_push_str (bs @ [0])"
| "push_arg (Arg_buf bs) = rpc_push_buf (Some bs) (length bs)"
| "push_arg (Arg_array sz xs) = rpc_push_buf_array (Some (concat xs)) sz (length xs)"

definition pushed :: "nat list \<Rightarrow> rpc_state \<Rightarrow> rpc_state" where
  "pushed ws s = s\<lparr>ipc_msg := overlay (ipc_msg s) (rpc_mr s) ws, rpc_mr := rpc_mr s + length ws\<rparr>"

definition room :: "nat list \<Rightarrow> rpc_state \<Rightarrow> bool" where
  "room ws s \<longleftrightarrow> rpc_mr s + length ws \<le> seL4_MsgMaxLength \<and> length (ipc_msg s) = seL4_MsgMaxLength"

lemma pushed_Nil [simp]: "pushed [] s = s" by (simp add: pushed_def)

lemma pushed_pushed:
  assumes "room (ws @ vs) s"
  shows "pushed vs (pushed ws s) = pushed (ws @ vs) s" and "room vs (pushed ws s)" and "room ws s"
  using assms by (simp_all add: pushed_def room_def overlay_append)

lemma push_uint_spec: "room [v] s \<Longrightarrow> rpc_push_uint v s = Some (pushed [v] s)"
  by (simp add: rpc_push_uint_def seL4_SetMR_def pushed_def room_def overlay_single seL4_MsgMaxLength_def)

lemma push_bytes_spec:
  assumes "slen \<le> length str" and "room (words_of (take slen str)) s"
  shows "rpc_marshall (rpc_mr s) (Some str) slen s =
    Some (s\<lparr>ipc_msg := overlay (ipc_msg s) (rpc_mr s) (words_of (take slen str))\<rparr>, rpc_mr s + length (words_of (take slen str)))"
  using assms by (intro rpc_marshall_spec) (simp_all add: room_def seL4_MsgMaxLength_def)

lemma push_buf_spec:
  assumes "slen \<le> length str" and "room (words_of (take slen str)) s"
  shows "rpc_push_buf (Some str) slen s = Some (pushed (words_of (take slen str)) s)"
  using push_bytes_spec [OF assms] by (simp add: rpc_push_buf_def pushed_def)

lemma concat_block:
  assumes "\<forall>x \<in> set xs. length x = sz" and "i < length xs"
  shows "take sz (drop (i * sz) (concat xs)) = xs ! i"
  using assms
proof (induction xs arbitrary: i)
  case (Cons x xs)
  then show ?case by (cases i) simp_all
qed simp

lemma length_concat_blocks: "\<forall>x \<in> set xs. length x = sz \<Longrightarrow> length (concat xs) = length xs * sz"
  by (induction xs) auto

lemma bytes_le_words: "length bs \<le> 4 * length (words_of bs)"
  unfolding length_words_of by presburger

lemma blocks_le_words:
  "\<forall>x \<in> set xs. length x = sz \<Longrightarrow> length xs * sz \<le> 4 * length (concat (map words_of xs))"
proof (induction xs)
  case (Cons x xs)
  then show ?case using bytes_le_words [of x] by simp
qed simp

lemma push_array_loop:
  assumes xs: "\<forall>x \<in> set xs. length x = sz" and small: "length xs * sz < 2 ^ 32" and "i \<le> length xs"
    and "room (concat (map words_of (drop i xs))) s"
  shows "for_each [i..<length xs] (\<lambda>i. rpc_push_buf (map_option (drop (u32 (i * sz))) (Some (concat xs))) sz) s =
    Some (pushed (concat (map words_of (drop i xs))) s)"
  using assms(3,4)
proof (induction "length xs - i" arbitrary: i s)
  case 0
  then show ?case by simp
next
  case (Suc n)
  then have i: "i < length xs" by simp
  then have d: "drop i xs = xs ! i # drop (Suc i) xs" by (simp add: Cons_nth_drop_Suc)
  have "Suc i * sz \<le> length xs * sz" using i by (intro mult_le_mono1) simp
  then have le: "i * sz + sz \<le> length xs * sz" by simp
  with small have u: "u32 (i * sz) = i * sz" by simp
  have t: "take sz (drop (i * sz) (concat xs)) = xs ! i" using concat_block [OF xs i] .
  note r = pushed_pushed [of "words_of (xs ! i)" "concat (map words_of (drop (Suc i) xs))" s]
  have rm: "room (words_of (xs ! i) @ concat (map words_of (drop (Suc i) xs))) s" using Suc.prems(2) by (simp add: d)
  have "rpc_push_buf (Some (drop (i * sz) (concat xs))) sz s = Some (pushed (words_of (xs ! i)) s)"
    using push_buf_spec [of sz "drop (i * sz) (concat xs)" s] r(3) [OF rm] t le length_concat_blocks [OF xs] by simp
  with Suc.hyps(1) [of "Suc i" "pushed (words_of (xs ! i)) s"] Suc.hyps(2) i r [OF rm]
  show ?case by (simp add: upt_conv_Cons u d)
qed

lemma push_arg_spec:
  assumes "arg_ok a" and "room (arg_words a) s"
  shows "push_arg a s = Some (pushed (arg_words a) s)"
proof (cases a)
  case (Arg_uint v)
  with assms show ?thesis by (simp add: push_uint_spec)
next
  case (Arg_str bs)
  note r = pushed_pushed [of "[length bs]" "words_of bs" s]
  have rm: "room ([length bs] @ words_of bs) s" using assms(2) Arg_str by simp
  have z: "0 \<notin> set bs" using assms(1) Arg_str by simp
  then have "\<forall>c \<in> set bs. c \<noteq> 0" by metis
  then have "takeWhile (\<lambda>c. c \<noteq> 0) (bs @ [0]) = bs" by simp
  then have "c_strlen (bs @ [0]) = Some (length bs)" by (simp add: c_strlen_def)
  moreover have "pushed (words_of bs) (pushed [length bs] s) = pushed (length bs # words_of bs) s" using r(1) [OF rm] by simp
  ultimately show ?thesis
    using Arg_str r(2,3) [OF rm] push_bytes_spec [of "length bs" "bs @ [0]" "pushed [length bs] s"]
    by (simp add: rpc_push_str_def push_uint_spec) (simp add: pushed_def)
next
  case (Arg_buf bs)
  with assms push_buf_spec [of "length bs" bs s] show ?thesis by simp
next
  case (Arg_array sz xs)
  note r = pushed_pushed [of "[length xs]" "concat (map words_of xs)" s]
  have rm: "room ([length xs] @ concat (map words_of xs)) s" using assms(2) Arg_array by simp
  have xs: "\<forall>x \<in> set xs. length x = sz" using assms(1) Arg_array by simp
  have "length xs * sz < 2 ^ 32"
    using blocks_le_words [OF xs] rm by (simp add: room_def seL4_MsgMaxLength_def)
  from push_array_loop [OF xs this, of 0] r [OF rm] Arg_array show ?thesis
    by (simp add: rpc_push_buf_array_def push_uint_spec)
qed

section \<open>The pool\<close>

definition sv_ok :: "rpc_state \<Rightarrow> bool" where
  "sv_ok s \<longleftrightarrow> length (ipc_msg s) = seL4_MsgMaxLength \<and> length (rpc_static_mempool_table s) = RPC_MAX_TRACKED_OBJS \<and>
     length (rpc_static_mempool s) = RPC_MAX_TRACKED_OBJS * RPC_STATIC_MEMPOOL_OBJ_SIZE"

definition free_blocks :: "rpc_state \<Rightarrow> nat set" where
  "free_blocks s = {i. i < RPC_MAX_TRACKED_OBJS \<and> \<not> rpc_static_mempool_table s ! i}"

abbreviation block :: "nat list \<Rightarrow> nat \<Rightarrow> nat list" where
  "block mem j \<equiv> part mem (j * RPC_STATIC_MEMPOOL_OBJ_SIZE) RPC_STATIC_MEMPOOL_OBJ_SIZE"

lemma rpc_malloc_spec:
  assumes "sv_ok s" and "free_blocks s \<noteq> {}" and "sz \<le> RPC_STATIC_MEMPOOL_OBJ_SIZE"
  shows "\<exists>i \<in> free_blocks s. rpc_malloc sz s =
    Some (s\<lparr>rpc_static_mempool_table := (rpc_static_mempool_table s)[i := True]\<rparr>, i * RPC_STATIC_MEMPOOL_OBJ_SIZE)"
proof -
  have g: "k < RPC_MAX_TRACKED_OBJS \<Longrightarrow> rd (rpc_static_mempool_table s) k = Some (rpc_static_mempool_table s ! k)" for k
    using assms(1) by (simp add: sv_ok_def)
  show ?thesis
  proof (rule for_find_cases [of RPC_MAX_TRACKED_OBJS "rd (rpc_static_mempool_table s)" "rpc_static_mempool_table s" Not])
    assume "\<forall>k < RPC_MAX_TRACKED_OBJS. \<not> \<not> rpc_static_mempool_table s ! k"
    with assms(2) show ?thesis by (auto simp: free_blocks_def)
  next
    fix i assume "for_find (rd (rpc_static_mempool_table s)) Not 0 RPC_MAX_TRACKED_OBJS = Some (Some i)" "i < RPC_MAX_TRACKED_OBJS"
      "\<not> rpc_static_mempool_table s ! i"
    with assms(1,3) show ?thesis by (intro bexI [of _ i]) (simp_all add: rpc_malloc_def sv_ok_def free_blocks_def)
  qed (rule g)
qed

lemma rpc_free_spec:
  assumes "sv_ok s" and "i < RPC_MAX_TRACKED_OBJS" and "rpc_static_mempool_table s ! i"
  shows "rpc_free (int (i * RPC_STATIC_MEMPOOL_OBJ_SIZE)) s =
    Some (s\<lparr>rpc_static_mempool_table := (rpc_static_mempool_table s)[i := False]\<rparr>)"
proof -
  have "int (i * RPC_STATIC_MEMPOOL_OBJ_SIZE) div int RPC_STATIC_MEMPOOL_OBJ_SIZE = int i"
    by (simp add: RPC_STATIC_MEMPOOL_OBJ_SIZE_def)
  moreover have "\<not> int (i * RPC_STATIC_MEMPOOL_OBJ_SIZE) < 0" by (simp only: of_nat_less_0_iff not_False_eq_True)
  ultimately show ?thesis
    unfolding rpc_free_def Let_def using assms by (simp add: sv_ok_def)
qed

lemma block_bound:
  assumes "i < RPC_MAX_TRACKED_OBJS" and "n \<le> RPC_STATIC_MEMPOOL_OBJ_SIZE"
  shows "i * RPC_STATIC_MEMPOOL_OBJ_SIZE + n \<le> RPC_MAX_TRACKED_OBJS * RPC_STATIC_MEMPOOL_OBJ_SIZE"
proof -
  have "i * RPC_STATIC_MEMPOOL_OBJ_SIZE + n \<le> Suc i * RPC_STATIC_MEMPOOL_OBJ_SIZE" using assms(2) by simp
  also have "\<dots> \<le> RPC_MAX_TRACKED_OBJS * RPC_STATIC_MEMPOOL_OBJ_SIZE" using assms(1) by (intro mult_le_mono1) simp
  finally show ?thesis .
qed

text \<open>Writing into one block leaves the others.\<close>

lemma block_overlay_other:
  assumes "i < RPC_MAX_TRACKED_OBJS" and "j < RPC_MAX_TRACKED_OBJS" and "i \<noteq> j" and "o1 + length bs \<le> RPC_STATIC_MEMPOOL_OBJ_SIZE"
    and "length mem = RPC_MAX_TRACKED_OBJS * RPC_STATIC_MEMPOOL_OBJ_SIZE"
  shows "block (overlay mem (i * RPC_STATIC_MEMPOOL_OBJ_SIZE + o1) bs) j = block mem j"
proof (rule part_overlay_other)
  show "i * RPC_STATIC_MEMPOOL_OBJ_SIZE + o1 + length bs \<le> length mem"
    using block_bound [OF assms(1,4)] assms(5) by (simp add: add.assoc)
  show "j * RPC_STATIC_MEMPOOL_OBJ_SIZE + RPC_STATIC_MEMPOOL_OBJ_SIZE \<le> length mem"
    using block_bound [OF assms(2) order_refl] assms(5) by simp
  consider "Suc j \<le> i" | "Suc i \<le> j" using assms(3) by linarith
  then show "j * RPC_STATIC_MEMPOOL_OBJ_SIZE + RPC_STATIC_MEMPOOL_OBJ_SIZE \<le> i * RPC_STATIC_MEMPOOL_OBJ_SIZE + o1 \<or>
    i * RPC_STATIC_MEMPOOL_OBJ_SIZE + o1 + length bs \<le> j * RPC_STATIC_MEMPOOL_OBJ_SIZE"
  proof cases
    case 1
    then have "Suc j * RPC_STATIC_MEMPOOL_OBJ_SIZE \<le> i * RPC_STATIC_MEMPOOL_OBJ_SIZE" by (rule mult_le_mono1)
    then show ?thesis by simp
  next
    case 2
    then have "Suc i * RPC_STATIC_MEMPOOL_OBJ_SIZE \<le> j * RPC_STATIC_MEMPOOL_OBJ_SIZE" by (rule mult_le_mono1)
    then show ?thesis using assms(4) by simp
  qed
qed

lemma part_take: "n \<le> m \<Longrightarrow> part xs p n = take n (part xs p m)"
  by (simp add: part_def min_def)

section \<open>The server's arguments\<close>

datatype rpc_type = Type_uint | Type_str | Type_buf nat | Type_array nat
datatype rpc_value = Val_uint nat | Val_ptr nat | Val_array rpc_buffer

fun type_of :: "rpc_arg \<Rightarrow> rpc_type" where
  "type_of (Arg_uint v) = Type_uint"
| "type_of (Arg_str bs) = Type_str"
| "type_of (Arg_buf bs) = Type_buf (length bs)"
| "type_of (Arg_array sz xs) = Type_array sz"

fun pop_arg :: "rpc_type \<Rightarrow> rpc_state \<Rightarrow> (rpc_state \<times> rpc_value) option" where
  "pop_arg Type_uint s = map_option (\<lambda>(s, v). (s, Val_uint v)) (rpc_sv_pop_uint s)"
| "pop_arg Type_str s = map_option (\<lambda>(s, p). (s, Val_ptr p)) (rpc_sv_pop_str s)"
| "pop_arg (Type_buf sz) s = do { (s, p) \<leftarrow> rpc_malloc sz s; s \<leftarrow> rpc_sv_pop_buf p sz s; Some (s, Val_ptr p) }"
| "pop_arg (Type_array sz) s = map_option (\<lambda>(s, b). (s, Val_array b)) (rpc_sv_pop_buf_array sz s)"

text \<open>The bytes of an argument in the pool, and the blocks a value uses.\<close>

fun arg_bytes :: "rpc_arg \<Rightarrow> nat list" where
  "arg_bytes (Arg_uint v) = []"
| "arg_bytes (Arg_str bs) = bs @ [0]"
| "arg_bytes (Arg_buf bs) = bs"
| "arg_bytes (Arg_array sz xs) = concat xs"

fun val_ptrs :: "rpc_value \<Rightarrow> nat list" where
  "val_ptrs (Val_uint v) = []"
| "val_ptrs (Val_ptr p) = [p]"
| "val_ptrs (Val_array b) = [rbuf_data b]"

definition arg_at :: "nat list \<Rightarrow> rpc_arg \<Rightarrow> rpc_value \<Rightarrow> bool" where
  "arg_at mem a v \<longleftrightarrow> (\<forall>p \<in> set (val_ptrs v). part mem p (length (arg_bytes a)) = arg_bytes a) \<and>
     (case a of Arg_uint n \<Rightarrow> v = Val_uint n
      | Arg_str bs \<Rightarrow> (\<exists>p. v = Val_ptr p)
      | Arg_buf bs \<Rightarrow> (\<exists>p. v = Val_ptr p)
      | Arg_array sz xs \<Rightarrow> (\<exists>p. v = Val_array \<lparr>rbuf_data = p, rbuf_count = length xs\<rparr>))"

text \<open>The step from \<open>s\<close> to \<open>t\<close> reads \<open>ws\<close> and fills the blocks \<open>js\<close>, free before.\<close>

definition popped :: "nat list \<Rightarrow> nat list \<Rightarrow> rpc_state \<Rightarrow> rpc_state \<Rightarrow> bool" where
  "popped ws js s t \<longleftrightarrow> sv_ok t \<and> ipc_msg t = ipc_msg s \<and> rpc_mr t = rpc_mr s + length ws \<and> distinct js \<and> set js \<subseteq> free_blocks s \<and>
     free_blocks t = free_blocks s - set js \<and>
     (\<forall>j < RPC_MAX_TRACKED_OBJS. j \<notin> set js \<longrightarrow> block (rpc_static_mempool t) j = block (rpc_static_mempool s) j)"

lemma free_blocks_alloc:
  "sv_ok s \<Longrightarrow> i \<in> free_blocks s \<Longrightarrow>
   free_blocks (s\<lparr>rpc_static_mempool_table := (rpc_static_mempool_table s)[i := True]\<rparr>) = free_blocks s - {i}"
  by (auto simp: free_blocks_def sv_ok_def nth_list_update split: if_splits)

lemma pop_uint_spec:
  assumes "room (w # ws) s" and "part (ipc_msg s) (rpc_mr s) (length (w # ws)) = w # ws"
  shows "rpc_sv_pop_uint s = Some (s\<lparr>rpc_mr := rpc_mr s + 1\<rparr>, w)"
    and "room ws (s\<lparr>rpc_mr := rpc_mr s + 1\<rparr>)" and "part (ipc_msg s) (rpc_mr s + 1) (length ws) = ws"
proof -
  have mr: "rpc_mr s < length (ipc_msg s)" "length (ipc_msg s) < 4294967296" using assms(1) by (auto simp: room_def seL4_MsgMaxLength_def)
  then have "part (ipc_msg s) (rpc_mr s) (length (w # ws)) = ipc_msg s ! rpc_mr s # part (ipc_msg s) (rpc_mr s + 1) (length ws)"
    by (simp add: part_def Cons_nth_drop_Suc [symmetric])
  with assms(2) mr show "rpc_sv_pop_uint s = Some (s\<lparr>rpc_mr := rpc_mr s + 1\<rparr>, w)" "part (ipc_msg s) (rpc_mr s + 1) (length ws) = ws"
    by (simp_all add: rpc_sv_pop_uint_def seL4_GetMR_def)
  show "room ws (s\<lparr>rpc_mr := rpc_mr s + 1\<rparr>)" using assms(1) by (simp add: room_def)
qed

lemma pop_bytes_spec:
  assumes "room (words_of bs) s" and "part (ipc_msg s) (rpc_mr s) (length (words_of bs)) = words_of bs" and "byte_list bs"
    and "p + length bs \<le> length mem"
  shows "rpc_unmarshall (rpc_mr s) (Some (mem, p)) (length bs) s = Some (overlay mem p bs, rpc_mr s + length (words_of bs))"
  using assms by (intro rpc_unmarshall_spec) (simp_all add: room_def seL4_MsgMaxLength_def)

text \<open>A block is taken and \<open>bs\<close> written to it.\<close>

lemma popped_block:
  assumes "sv_ok s" and "i \<in> free_blocks s" and "length bs \<le> RPC_STATIC_MEMPOOL_OBJ_SIZE"
    and "t = s\<lparr>rpc_static_mempool_table := (rpc_static_mempool_table s)[i := True],
      rpc_static_mempool := overlay (rpc_static_mempool s) (i * RPC_STATIC_MEMPOOL_OBJ_SIZE) bs, rpc_mr := rpc_mr s + length ws\<rparr>"
  shows "popped ws [i] s t" and "part (rpc_static_mempool t) (i * RPC_STATIC_MEMPOOL_OBJ_SIZE) (length bs) = bs"
proof -
  from assms(2) have i: "i < RPC_MAX_TRACKED_OBJS" by (simp add: free_blocks_def)
  have le: "i * RPC_STATIC_MEMPOOL_OBJ_SIZE + length bs \<le> length (rpc_static_mempool s)"
    using block_bound [OF i assms(3)] assms(1) by (simp add: sv_ok_def)
  then show "part (rpc_static_mempool t) (i * RPC_STATIC_MEMPOOL_OBJ_SIZE) (length bs) = bs"
    unfolding assms(4) by (simp add: part_overlay)
  have "free_blocks t = free_blocks s - {i}" using free_blocks_alloc [OF assms(1,2)] by (simp add: assms(4) free_blocks_def)
  moreover have "block (rpc_static_mempool t) j = block (rpc_static_mempool s) j" if "j < RPC_MAX_TRACKED_OBJS" "j \<noteq> i" for j
    using block_overlay_other [OF i that(1) not_sym [OF that(2)], of 0 bs "rpc_static_mempool s"] assms(1,3)
    by (simp add: assms(4) sv_ok_def)
  moreover have "sv_ok t" using assms(1) le by (simp add: assms(4) sv_ok_def)
  ultimately show "popped ws [i] s t" using assms(2) by (simp add: popped_def) (simp add: assms(4))
qed

lemma words_small:
  assumes "room ws s" and "n \<le> 4 * length ws"
  shows "n < RPC_STATIC_MEMPOOL_OBJ_SIZE"
  using assms by (auto simp: room_def seL4_MsgMaxLength_def RPC_STATIC_MEMPOOL_OBJ_SIZE_def)

lemma sv_ok_mr [simp]: "sv_ok (s\<lparr>rpc_mr := m\<rparr>) = sv_ok s" "free_blocks (s\<lparr>rpc_mr := m\<rparr>) = free_blocks s"
  by (simp_all add: sv_ok_def free_blocks_def)

lemma pop_str_spec:
  assumes ok: "sv_ok s" "free_blocks s \<noteq> {}" and bs: "byte_list bs"
    and room: "room (length bs # words_of bs) s"
    and msg: "part (ipc_msg s) (rpc_mr s) (length (length bs # words_of bs)) = length bs # words_of bs"
  shows "\<exists>t i. rpc_sv_pop_str s = Some (t, i * RPC_STATIC_MEMPOOL_OBJ_SIZE) \<and> popped (length bs # words_of bs) [i] s t \<and>
    part (rpc_static_mempool t) (i * RPC_STATIC_MEMPOOL_OBJ_SIZE) (length (bs @ [0])) = bs @ [0]"
proof -
  note u = pop_uint_spec [OF room msg]
  have small: "length bs < RPC_STATIC_MEMPOOL_OBJ_SIZE" using words_small [OF u(2) bytes_le_words] .
  then have sz: "u32 (length bs + 1) = length bs + 1" by (simp add: RPC_STATIC_MEMPOOL_OBJ_SIZE_def)
  from rpc_malloc_spec [of "s\<lparr>rpc_mr := rpc_mr s + 1\<rparr>" "length bs + 1"] ok small obtain i where i: "i \<in> free_blocks s"
    "rpc_malloc (length bs + 1) (s\<lparr>rpc_mr := rpc_mr s + 1\<rparr>) =
       Some (s\<lparr>rpc_mr := rpc_mr s + 1, rpc_static_mempool_table := (rpc_static_mempool_table s)[i := True]\<rparr>, i * RPC_STATIC_MEMPOOL_OBJ_SIZE)"
    by auto
  let ?s = "s\<lparr>rpc_mr := rpc_mr s + 1, rpc_static_mempool_table := (rpc_static_mempool_table s)[i := True]\<rparr>"
  let ?p = "i * RPC_STATIC_MEMPOOL_OBJ_SIZE" and ?m = "rpc_static_mempool s"
  have le: "?p + length (bs @ [0]) \<le> length ?m"
    using block_bound [of i "length bs + 1"] i(1) small ok(1) by (simp add: sv_ok_def free_blocks_def)
  have "rpc_unmarshall (rpc_mr ?s) (Some (?m, ?p)) (length bs) ?s = Some (overlay ?m ?p bs, rpc_mr ?s + length (words_of bs))"
    using u(2,3) bs le by (intro pop_bytes_spec) (simp_all add: room_def)
  moreover have "(overlay ?m ?p bs)[?p + length bs := 0] = overlay ?m ?p (bs @ [0])"
    using overlay_append [of ?p bs "[0]" ?m] overlay_single [of "?p + length bs" "overlay ?m ?p bs" 0] le by simp
  ultimately have "rpc_sv_pop_str s = Some (s\<lparr>rpc_static_mempool_table := (rpc_static_mempool_table s)[i := True],
      rpc_static_mempool := overlay ?m ?p (bs @ [0]), rpc_mr := rpc_mr s + length (length bs # words_of bs)\<rparr>, ?p)"
    using le sz i(2) u(1) by (simp add: rpc_sv_pop_str_def)
  moreover have "length (bs @ [0]) \<le> RPC_STATIC_MEMPOOL_OBJ_SIZE" using small by simp
  ultimately show ?thesis using popped_block [OF ok(1) i(1) _ refl] by blast
qed

lemma pop_buf_spec:
  assumes ok: "sv_ok s" "free_blocks s \<noteq> {}" and bs: "byte_list bs" and room: "room (words_of bs) s"
    and msg: "part (ipc_msg s) (rpc_mr s) (length (words_of bs)) = words_of bs"
  shows "\<exists>t i. pop_arg (Type_buf (length bs)) s = Some (t, Val_ptr (i * RPC_STATIC_MEMPOOL_OBJ_SIZE)) \<and> popped (words_of bs) [i] s t \<and>
    part (rpc_static_mempool t) (i * RPC_STATIC_MEMPOOL_OBJ_SIZE) (length bs) = bs"
proof -
  have small: "length bs \<le> RPC_STATIC_MEMPOOL_OBJ_SIZE" using words_small [OF room bytes_le_words] by simp
  from rpc_malloc_spec [OF ok small] obtain i where i: "i \<in> free_blocks s"
    "rpc_malloc (length bs) s = Some (s\<lparr>rpc_static_mempool_table := (rpc_static_mempool_table s)[i := True]\<rparr>, i * RPC_STATIC_MEMPOOL_OBJ_SIZE)"
    by blast
  let ?s = "s\<lparr>rpc_static_mempool_table := (rpc_static_mempool_table s)[i := True]\<rparr>"
  let ?p = "i * RPC_STATIC_MEMPOOL_OBJ_SIZE" and ?m = "rpc_static_mempool s"
  have le: "?p + length bs \<le> length ?m"
    using block_bound [of i "length bs"] i(1) small ok(1) by (simp add: sv_ok_def free_blocks_def)
  have "rpc_unmarshall (rpc_mr ?s) (Some (?m, ?p)) (length bs) ?s = Some (overlay ?m ?p bs, rpc_mr ?s + length (words_of bs))"
    using room msg bs le by (intro pop_bytes_spec) (simp_all add: room_def)
  then have "pop_arg (Type_buf (length bs)) s = Some (s\<lparr>rpc_static_mempool_table := (rpc_static_mempool_table s)[i := True],
      rpc_static_mempool := overlay ?m ?p bs, rpc_mr := rpc_mr s + length (words_of bs)\<rparr>, Val_ptr ?p)"
    using i(2) by (simp add: rpc_sv_pop_buf_def)
  then show ?thesis using popped_block [OF ok(1) i(1) small refl] by blast
qed

lemma pop_array_loop:
  assumes xs: "\<forall>x \<in> set xs. length x = sz \<and> byte_list x" and small: "length xs * sz < 2 ^ 32"
    and "i \<le> length xs" and "room (concat (map words_of (drop i xs))) s"
    and "part (ipc_msg s) (rpc_mr s) (length (concat (map words_of (drop i xs)))) = concat (map words_of (drop i xs))"
    and "v + length xs * sz \<le> length (rpc_static_mempool s)"
  shows "for_each [i..<length xs] (\<lambda>i s. do {
        (mem, mr) \<leftarrow> rpc_unmarshall (rpc_mr s) (Some (rpc_static_mempool s, v + u32 (i * sz))) sz s;
        Some (s\<lparr>rpc_mr := mr, rpc_static_mempool := mem\<rparr>)
      }) s =
    Some (s\<lparr>rpc_mr := rpc_mr s + length (concat (map words_of (drop i xs))),
      rpc_static_mempool := overlay (rpc_static_mempool s) (v + i * sz) (concat (drop i xs))\<rparr>)"
  using assms(3-)
proof (induction "length xs - i" arbitrary: i s)
  case 0
  then show ?case by simp
next
  case (Suc n)
  then have i: "i < length xs" by simp
  then have d: "drop i xs = xs ! i # drop (Suc i) xs" by (simp add: Cons_nth_drop_Suc)
  have x: "length (xs ! i) = sz" "byte_list (xs ! i)" using xs i by simp_all
  have "Suc i * sz \<le> length xs * sz" using i by (intro mult_le_mono1) simp
  then have le: "i * sz + sz \<le> length xs * sz" by simp
  with small have u: "u32 (i * sz) = i * sz" by simp
  let ?ws = "words_of (xs ! i)" and ?vs = "concat (map words_of (drop (Suc i) xs))" and ?m = "rpc_static_mempool s"
  have r: "room ?ws s" "room ?vs (s\<lparr>rpc_mr := rpc_mr s + length ?ws\<rparr>)" using Suc.prems(2) by (simp_all add: d room_def)
  have le2: "rpc_mr s + length (?ws @ ?vs) \<le> length (ipc_msg s)" using Suc.prems(2) by (simp add: d room_def)
  have p: "part (ipc_msg s) (rpc_mr s) (length ?ws) = ?ws" "part (ipc_msg s) (rpc_mr s + length ?ws) (length ?vs) = ?vs"
    using part_append [OF le2] Suc.prems(3) by (simp_all add: d)
  let ?s = "s\<lparr>rpc_mr := rpc_mr s + length ?ws, rpc_static_mempool := overlay ?m (v + i * sz) (xs ! i)\<rparr>"
  have run: "rpc_unmarshall (rpc_mr s) (Some (?m, v + i * sz)) sz s = Some (overlay ?m (v + i * sz) (xs ! i), rpc_mr s + length ?ws)"
    using pop_bytes_spec [OF r(1) p(1) x(2), of "v + i * sz" ?m] x(1) le Suc.prems(4) by simp
  have lc: "length (concat (drop (Suc i) xs)) = (length xs - Suc i) * sz"
    using length_concat_blocks [of "drop (Suc i) xs" sz] xs by (auto dest: in_set_dropD)
  from i obtain k where k: "length xs = i + Suc k" using less_imp_Suc_add by fastforce
  then have tot: "i * sz + sz + (length xs - Suc i) * sz = length xs * sz" by (simp add: algebra_simps)
  have "overlay (overlay ?m (v + i * sz) (xs ! i)) (v + i * sz + sz) (concat (drop (Suc i) xs)) =
      overlay ?m (v + i * sz) (xs ! i @ concat (drop (Suc i) xs))"
    using overlay_append [of "v + i * sz" "xs ! i" "concat (drop (Suc i) xs)" ?m] x(1) lc tot Suc.prems(4) by simp
  moreover have "v + length xs * sz \<le> length (rpc_static_mempool ?s)" using x(1) le Suc.prems(4) by simp
  ultimately show ?case
    using Suc.hyps(1) [of "Suc i" ?s] Suc.hyps(2) i r(2) p(2) run u
    by (simp add: upt_conv_Cons d room_def add.assoc add.commute [of sz])
qed

lemma pop_array_spec:
  assumes ok: "sv_ok s" "free_blocks s \<noteq> {}" and xs: "\<forall>x \<in> set xs. length x = sz \<and> byte_list x"
    and room: "room (length xs # concat (map words_of xs)) s"
    and msg: "part (ipc_msg s) (rpc_mr s) (length (length xs # concat (map words_of xs))) = length xs # concat (map words_of xs)"
  shows "\<exists>t i. rpc_sv_pop_buf_array sz s = Some (t, \<lparr>rbuf_data = i * RPC_STATIC_MEMPOOL_OBJ_SIZE, rbuf_count = length xs\<rparr>) \<and>
    popped (length xs # concat (map words_of xs)) [i] s t \<and>
    part (rpc_static_mempool t) (i * RPC_STATIC_MEMPOOL_OBJ_SIZE) (length (concat xs)) = concat xs"
proof -
  note u = pop_uint_spec [OF room msg]
  have len: "length (concat xs) = length xs * sz" using xs by (intro length_concat_blocks) simp
  have small: "length xs * sz < RPC_STATIC_MEMPOOL_OBJ_SIZE"
    using words_small [OF u(2) blocks_le_words [of xs sz]] xs by simp
  then have sz: "u32 (length xs * sz) = length xs * sz" "length xs * sz < 2 ^ 32" by (simp_all add: RPC_STATIC_MEMPOOL_OBJ_SIZE_def)
  from rpc_malloc_spec [of "s\<lparr>rpc_mr := rpc_mr s + 1\<rparr>" "length xs * sz"] ok small obtain i where i: "i \<in> free_blocks s"
    "rpc_malloc (length xs * sz) (s\<lparr>rpc_mr := rpc_mr s + 1\<rparr>) =
       Some (s\<lparr>rpc_mr := rpc_mr s + 1, rpc_static_mempool_table := (rpc_static_mempool_table s)[i := True]\<rparr>, i * RPC_STATIC_MEMPOOL_OBJ_SIZE)"
    by auto
  let ?s = "s\<lparr>rpc_mr := rpc_mr s + 1, rpc_static_mempool_table := (rpc_static_mempool_table s)[i := True]\<rparr>"
  let ?p = "i * RPC_STATIC_MEMPOOL_OBJ_SIZE" and ?m = "rpc_static_mempool s"
  have le: "?p + length xs * sz \<le> length ?m"
    using block_bound [of i "length xs * sz"] i(1) small ok(1) by (simp add: sv_ok_def free_blocks_def)
  have "room (concat (map words_of (drop 0 xs))) ?s" using u(2) by (simp add: room_def)
  from pop_array_loop [OF xs sz(2) _ this, of ?p] u(1,3) le sz(1) i(2)
  have "rpc_sv_pop_buf_array sz s = Some (s\<lparr>rpc_static_mempool_table := (rpc_static_mempool_table s)[i := True],
      rpc_static_mempool := overlay ?m ?p (concat xs), rpc_mr := rpc_mr s + length (length xs # concat (map words_of xs))\<rparr>,
      \<lparr>rbuf_data = ?p, rbuf_count = length xs\<rparr>)"
    by (simp add: rpc_sv_pop_buf_array_def)
  moreover have "length (concat xs) \<le> RPC_STATIC_MEMPOOL_OBJ_SIZE" using small len by simp
  ultimately show ?thesis using popped_block [OF ok(1) i(1) _ refl] by blast
qed

definition needs_block :: "rpc_arg \<Rightarrow> nat" where
  "needs_block a = (case a of Arg_uint v \<Rightarrow> 0 | _ \<Rightarrow> 1)"

abbreviation block_ptrs :: "nat list \<Rightarrow> nat list" where
  "block_ptrs js \<equiv> map (\<lambda>j. j * RPC_STATIC_MEMPOOL_OBJ_SIZE) js"

lemma pop_arg_spec:
  assumes ok: "sv_ok s" "arg_ok a" and free: "needs_block a \<le> card (free_blocks s)" and room: "room (arg_words a) s"
    and msg: "part (ipc_msg s) (rpc_mr s) (length (arg_words a)) = arg_words a"
  shows "\<exists>t v js. pop_arg (type_of a) s = Some (t, v) \<and> popped (arg_words a) js s t \<and> arg_at (rpc_static_mempool t) a v \<and>
    val_ptrs v = block_ptrs js \<and> length js = needs_block a"
proof (cases a)
  case (Arg_uint n)
  with pop_uint_spec(1) [of n "[]" s] room msg ok(1) show ?thesis
    by (intro exI [of _ "s\<lparr>rpc_mr := rpc_mr s + 1\<rparr>"] exI [of _ "Val_uint n"] exI [of _ "[]"])
      (simp add: popped_def arg_at_def needs_block_def)
next
  case (Arg_str bs)
  with free have "free_blocks s \<noteq> {}" by (auto simp: needs_block_def)
  from pop_str_spec [OF ok(1) this, of bs] Arg_str ok(2) room msg obtain t i where
    "rpc_sv_pop_str s = Some (t, i * RPC_STATIC_MEMPOOL_OBJ_SIZE)" "popped (length bs # words_of bs) [i] s t"
    "part (rpc_static_mempool t) (i * RPC_STATIC_MEMPOOL_OBJ_SIZE) (length (bs @ [0])) = bs @ [0]" by auto
  with Arg_str show ?thesis
    by (intro exI [of _ t] exI [of _ "Val_ptr (i * RPC_STATIC_MEMPOOL_OBJ_SIZE)"] exI [of _ "[i]"]) (simp add: arg_at_def needs_block_def)
next
  case (Arg_buf bs)
  with free have "free_blocks s \<noteq> {}" by (auto simp: needs_block_def)
  from pop_buf_spec [OF ok(1) this, of bs] Arg_buf ok(2) room msg obtain t i where
    "pop_arg (Type_buf (length bs)) s = Some (t, Val_ptr (i * RPC_STATIC_MEMPOOL_OBJ_SIZE))" "popped (words_of bs) [i] s t"
    "part (rpc_static_mempool t) (i * RPC_STATIC_MEMPOOL_OBJ_SIZE) (length bs) = bs" by auto
  with Arg_buf show ?thesis
    by (intro exI [of _ t] exI [of _ "Val_ptr (i * RPC_STATIC_MEMPOOL_OBJ_SIZE)"] exI [of _ "[i]"]) (simp add: arg_at_def needs_block_def)
next
  case (Arg_array sz xs)
  with free have "free_blocks s \<noteq> {}" by (auto simp: needs_block_def)
  from pop_array_spec [OF ok(1) this, of xs sz] Arg_array ok(2) room msg obtain t i where
    "rpc_sv_pop_buf_array sz s = Some (t, \<lparr>rbuf_data = i * RPC_STATIC_MEMPOOL_OBJ_SIZE, rbuf_count = length xs\<rparr>)"
    "popped (length xs # concat (map words_of xs)) [i] s t"
    "part (rpc_static_mempool t) (i * RPC_STATIC_MEMPOOL_OBJ_SIZE) (length (concat xs)) = concat xs" by auto
  with Arg_array show ?thesis
    by (intro exI [of _ t] exI [of _ "Val_array \<lparr>rbuf_data = i * RPC_STATIC_MEMPOOL_OBJ_SIZE, rbuf_count = length xs\<rparr>"] exI [of _ "[i]"])
      (simp add: arg_at_def needs_block_def)
qed

lemma popped_trans:
  assumes "popped ws js s t" and "popped vs ks t u"
  shows "popped (ws @ vs) (js @ ks) s u"
  using assms by (auto simp: popped_def)

lemma arg_bytes_small:
  assumes "arg_ok a" and "room (arg_words a) s"
  shows "length (arg_bytes a) \<le> RPC_STATIC_MEMPOOL_OBJ_SIZE"
proof (cases a)
  case (Arg_str bs)
  with assms words_small [of "words_of bs" s "length bs"] bytes_le_words [of bs] show ?thesis by (simp add: room_def)
next
  case (Arg_buf bs)
  with assms words_small [of "words_of bs" s "length bs"] bytes_le_words [of bs] show ?thesis by (simp add: room_def)
next
  case (Arg_array sz xs)
  then have xs: "\<forall>x \<in> set xs. length x = sz" using assms(1) by simp
  from Arg_array assms words_small [of "concat (map words_of xs)" s, OF _ blocks_le_words [OF xs]] length_concat_blocks [OF xs]
  show ?thesis by (simp add: room_def)
qed simp

lemma arg_at_keep:
  assumes "arg_at (rpc_static_mempool t) a v" and "popped vs ks t u" and "val_ptrs v = block_ptrs js"
    and "set js \<inter> set ks = {}" and "set js \<subseteq> {..<RPC_MAX_TRACKED_OBJS}" and "length (arg_bytes a) \<le> RPC_STATIC_MEMPOOL_OBJ_SIZE"
  shows "arg_at (rpc_static_mempool u) a v"
proof -
  have "part (rpc_static_mempool u) p (length (arg_bytes a)) = part (rpc_static_mempool t) p (length (arg_bytes a))"
    if "p \<in> set (val_ptrs v)" for p
  proof -
    from that assms(3) obtain j where j: "j \<in> set js" "p = j * RPC_STATIC_MEMPOOL_OBJ_SIZE" by auto
    with assms(4,5) have "j < RPC_MAX_TRACKED_OBJS" "j \<notin> set ks" by auto
    with assms(2) have "block (rpc_static_mempool u) j = block (rpc_static_mempool t) j" by (simp add: popped_def)
    then show ?thesis unfolding j(2) part_take [OF assms(6)] by simp
  qed
  with assms(1) show ?thesis by (auto simp: arg_at_def)
qed

fun pop_args :: "rpc_type list \<Rightarrow> rpc_state \<Rightarrow> (rpc_state \<times> rpc_value list) option" where
  "pop_args [] s = Some (s, [])"
| "pop_args (ty # tys) s = do { (s, v) \<leftarrow> pop_arg ty s; (s, vs) \<leftarrow> pop_args tys s; Some (s, v # vs) }"

abbreviation args_words :: "rpc_arg list \<Rightarrow> nat list" where
  "args_words as \<equiv> concat (map arg_words as)"

lemma free_blocks_finite [simp]: "finite (free_blocks s)" by (simp add: free_blocks_def)

lemma pop_args_spec:
  assumes "sv_ok s" and "\<forall>a \<in> set as. arg_ok a" and "sum_list (map needs_block as) \<le> card (free_blocks s)"
    and "room (args_words as) s" and "part (ipc_msg s) (rpc_mr s) (length (args_words as)) = args_words as"
  shows "\<exists>t vs js. pop_args (map type_of as) s = Some (t, vs) \<and> popped (args_words as) js s t \<and>
    list_all2 (arg_at (rpc_static_mempool t)) as vs \<and> concat (map val_ptrs vs) = block_ptrs js \<and>
    length js = sum_list (map needs_block as)"
  using assms
proof (induction "as" arbitrary: s)
  case Nil
  then show ?case by (simp add: popped_def)
next
  case (Cons a "as")
  let ?ws = "arg_words a" and ?vs = "args_words as"
  have le: "rpc_mr s + length (?ws @ ?vs) \<le> length (ipc_msg s)" using Cons.prems(4) by (simp add: room_def)
  have p: "part (ipc_msg s) (rpc_mr s) (length ?ws) = ?ws" "part (ipc_msg s) (rpc_mr s + length ?ws) (length ?vs) = ?vs"
    using part_append [OF le] Cons.prems(5) by simp_all
  have ra: "room ?ws s" "arg_ok a" using Cons.prems(2,4) by (simp_all add: room_def)
  from pop_arg_spec [OF Cons.prems(1) ra(2) _ ra(1) p(1)] Cons.prems(3) obtain t v js where
    t: "pop_arg (type_of a) s = Some (t, v)" "popped ?ws js s t" "arg_at (rpc_static_mempool t) a v" "val_ptrs v = block_ptrs js"
    "length js = needs_block a" by auto
  have tt: "sv_ok t" "ipc_msg t = ipc_msg s" "rpc_mr t = rpc_mr s + length ?ws" "distinct js" "set js \<subseteq> free_blocks s"
    "free_blocks t = free_blocks s - set js" using t(2) by (auto simp: popped_def)
  have "card (free_blocks t) = card (free_blocks s) - needs_block a"
    using tt(4-6) t(5) by (simp add: card_Diff_subset distinct_card)
  then have "sum_list (map needs_block as) \<le> card (free_blocks t)" using Cons.prems(3) by simp
  moreover have "room ?vs t" using Cons.prems(4) tt(2,3) by (simp add: room_def)
  ultimately obtain u vs ks where
    u: "pop_args (map type_of as) t = Some (u, vs)" "popped ?vs ks t u" "list_all2 (arg_at (rpc_static_mempool u)) as vs"
    "concat (map val_ptrs vs) = block_ptrs ks" "length ks = sum_list (map needs_block as)"
    using Cons.IH [OF tt(1)] Cons.prems(2) p(2) tt(2,3) by auto
  have "set ks \<subseteq> free_blocks t" using u(2) by (simp add: popped_def)
  then have "set js \<inter> set ks = {}" using tt(6) by auto
  moreover have "set js \<subseteq> {..<RPC_MAX_TRACKED_OBJS}" using tt(5) by (auto simp: free_blocks_def)
  ultimately have "arg_at (rpc_static_mempool u) a v"
    using arg_at_keep [OF t(3) u(2) t(4)] arg_bytes_small [OF ra(2,1)] by simp
  with t u popped_trans [OF t(2) u(2)] show ?case by (intro exI [of _ u] exI [of _ "v # vs"] exI [of _ "js @ ks"]) simp
qed

section \<open>One request\<close>

lemma push_args_spec:
  assumes "\<forall>a \<in> set as. arg_ok a" and "room (args_words as) s"
  shows "for_each as push_arg s = Some (pushed (args_words as) s)"
  using assms
proof (induction "as" arbitrary: s)
  case (Cons a "as")
  have rm: "room (arg_words a @ args_words as) s" using Cons.prems(2) by simp
  from push_arg_spec [of a s] pushed_pushed [OF rm] Cons show ?case by simp
qed simp

lemma track_spec:
  assumes "rc_num_obj c + length ps < RPC_MAX_TRACKED_OBJS" and "length (rc_obj c) = RPC_MAX_TRACKED_OBJS"
  shows "\<exists>d. for_each ps (\<lambda>p. rpc_sv_track_obj (int p)) c = Some d \<and> rc_num_obj d = rc_num_obj c + length ps \<and>
    length (rc_obj d) = RPC_MAX_TRACKED_OBJS \<and> take (rc_num_obj d) (rc_obj d) = take (rc_num_obj c) (rc_obj c) @ map int ps"
  using assms
proof (induction ps arbitrary: c)
  case (Cons p ps)
  let ?d = "c\<lparr>rc_obj := (rc_obj c)[rc_num_obj c := int p], rc_num_obj := Suc (rc_num_obj c)\<rparr>"
  have "rpc_sv_track_obj (int p) c = Some ?d" using Cons.prems by (simp add: rpc_sv_track_obj_def RPC_MAX_TRACKED_OBJS_def)
  moreover have "take (rc_num_obj ?d) (rc_obj ?d) = take (rc_num_obj c) (rc_obj c) @ [int p]"
    using Cons.prems by (simp add: take_Suc_conv_app_nth)
  ultimately show ?case using Cons.IH [of ?d] Cons.prems by simp
qed simp

lemma free_loop:
  assumes "sv_ok s" and "distinct js" and "set js \<subseteq> {..<RPC_MAX_TRACKED_OBJS} - free_blocks s"
  shows "\<exists>t. for_each (block_ptrs js) (\<lambda>p. rpc_free (int p)) s = Some t \<and> sv_ok t \<and> free_blocks t = free_blocks s \<union> set js"
  using assms
proof (induction js arbitrary: s)
  case (Cons j js)
  let ?t = "s\<lparr>rpc_static_mempool_table := (rpc_static_mempool_table s)[j := False]\<rparr>"
  have "rpc_free (int (j * RPC_STATIC_MEMPOOL_OBJ_SIZE)) s = Some ?t"
    using Cons.prems by (intro rpc_free_spec) (auto simp: free_blocks_def)
  moreover have "free_blocks ?t = insert j (free_blocks s)"
    using Cons.prems(1,3) by (auto simp: free_blocks_def sv_ok_def nth_list_update)
  moreover have "sv_ok ?t" using Cons.prems(1) by (simp add: sv_ok_def)
  moreover have "set js \<subseteq> {..<RPC_MAX_TRACKED_OBJS} - insert j (free_blocks s)" using Cons.prems(2,3) by auto
  ultimately obtain u where "for_each (block_ptrs js) (\<lambda>p. rpc_free (int p)) ?t = Some u" "sv_ok u"
    "free_blocks u = insert j (free_blocks s) \<union> set js"
    using Cons.IH [of ?t] Cons.prems(2) by auto
  then show ?case using \<open>rpc_free _ s = Some ?t\<close> by simp
qed simp

lemma for_each_rd:
  "n \<le> length xs \<Longrightarrow> for_each [0..<n] (\<lambda>i s. do { a \<leftarrow> rd xs i; f a s }) s = for_each (take n xs) f s"
proof (induction n)
  case (Suc n)
  then have "take (Suc n) xs = take n xs @ [xs ! n]" by (simp add: take_Suc_conv_app_nth)
  moreover have "for_each [n] (\<lambda>i s. do { a \<leftarrow> rd xs i; f a s }) = for_each [xs ! n] f" using Suc.prems by (intro ext) (simp split: option.split)
  ultimately show ?case using Suc by (simp add: for_each_append del: for_each.simps)
qed simp

lemma for_each_map: "for_each (map g xs) f s = for_each xs (\<lambda>x. f (g x)) s"
  by (induction xs arbitrary: s) (auto split: option.splits)

lemma free_tracked_spec:
  assumes "sv_ok s" and "distinct js" and "set js \<subseteq> {..<RPC_MAX_TRACKED_OBJS} - free_blocks s"
    and "rc_num_obj c \<le> length (rc_obj c)" and "take (rc_num_obj c) (rc_obj c) = map int (block_ptrs js)"
  shows "\<exists>t. rpc_sv_free_tracked_objs c s = Some (t, c\<lparr>rc_num_obj := 0\<rparr>) \<and> sv_ok t \<and> free_blocks t = free_blocks s \<union> set js"
proof -
  from free_loop [OF assms(1-3)] obtain t where
    "for_each (block_ptrs js) (\<lambda>p. rpc_free (int p)) s = Some t" "sv_ok t" "free_blocks t = free_blocks s \<union> set js" by blast
  then show ?thesis
    by (simp add: rpc_sv_free_tracked_objs_def for_each_rd [OF assms(4)] assms(5) for_each_map del: map_map)
qed

lemma table_eqI:
  assumes "sv_ok s" and "sv_ok t" and "free_blocks s = free_blocks t"
  shows "rpc_static_mempool_table s = rpc_static_mempool_table t"
proof (rule nth_equalityI)
  show "length (rpc_static_mempool_table s) = length (rpc_static_mempool_table t)" using assms(1,2) by (simp add: sv_ok_def)
  fix i assume "i < length (rpc_static_mempool_table s)"
  then have i: "i < RPC_MAX_TRACKED_OBJS" using assms(1) by (simp add: sv_ok_def)
  have "i \<in> free_blocks s \<longleftrightarrow> i \<in> free_blocks t" using assms(3) by simp
  with i show "rpc_static_mempool_table s ! i = rpc_static_mempool_table t ! i" by (simp add: free_blocks_def)
qed


text \<open>
  What the server does with a request of the label \<open>label\<close> and the arguments \<open>as\<close>: it pops them, tracks the blocks, and
  releases them after the answer, in a state with the same table.
\<close>

definition served :: "nat \<Rightarrow> rpc_arg list \<Rightarrow> rpc_state \<Rightarrow> rpc_client_state \<Rightarrow> bool" where
  "served label as s cl \<longleftrightarrow> ipc_msg s ! 0 = label \<and> (\<exists>s1 cl1 t vs cl2.
     rpc_sv_init (Some cl) s = Some (s1, Some cl1) \<and> pop_args (map type_of as) s1 = Some (t, vs) \<and>
     list_all2 (arg_at (rpc_static_mempool t)) as vs \<and> distinct (concat (map val_ptrs vs)) \<and>
     for_each (concat (map val_ptrs vs)) (\<lambda>p. rpc_sv_track_obj (int p)) cl1 = Some cl2 \<and>
     (\<forall>r. sv_ok r \<longrightarrow> rpc_static_mempool_table r = rpc_static_mempool_table t \<longrightarrow>
       (\<exists>u. rpc_sv_free_tracked_objs cl2 r = Some (u, cl2\<lparr>rc_num_obj := 0\<rparr>) \<and>
         rpc_static_mempool_table u = rpc_static_mempool_table s)))"

lemma sv_init_spec:
  assumes "sv_ok s"
  shows "\<exists>t. rpc_sv_init (Some cl) s = Some (t, Some (cl\<lparr>rc_num_obj := 0, rc_skip_reply := False\<rparr>)) \<and> sv_ok t \<and>
    free_blocks t = free_blocks s \<and> ipc_msg t = ipc_msg s \<and> rpc_mr t = 1"
proof -
  let ?s = "rpc_reset_contents s"
  let ?t = "if rpc_recv_cslot s = 0 then (seL4_SetCapReceivePath REFOS_CSPACE REFOS_THREAD_CAP_RECV REFOS_CSPACE_DEPTH ?s)\<lparr>rpc_recv_cslot := REFOS_THREAD_CAP_RECV\<rparr> else ?s"
  have "rpc_sv_init (Some cl) s = Some (?t, Some (cl\<lparr>rc_num_obj := 0, rc_skip_reply := False\<rparr>))"
    by (simp add: rpc_sv_init_def rpc_setup_recv_def REFOS_THREAD_CAP_RECV_def rpc_reset_contents_def)
  moreover have "sv_ok ?t" "free_blocks ?t = free_blocks s" "ipc_msg ?t = ipc_msg s" "rpc_mr ?t = 1"
    using assms by (simp_all add: sv_ok_def free_blocks_def rpc_reset_contents_def seL4_SetCapReceivePath_def)
  ultimately show ?thesis by blast
qed

lemma block_ptrs_distinct: "distinct js \<Longrightarrow> distinct (block_ptrs js)"
  by (simp add: distinct_map inj_on_def RPC_STATIC_MEMPOOL_OBJ_SIZE_def)

lemma serve_spec:
  assumes s: "sv_ok s" and "as": "\<forall>a \<in> set as. arg_ok a" "length (args_words as) < seL4_MsgMaxLength"
    and n: "sum_list (map needs_block as) \<le> card (free_blocks s)" "sum_list (map needs_block as) < RPC_MAX_TRACKED_OBJS"
    and msg: "take (1 + length (args_words as)) (ipc_msg s) = label # args_words as" and cl: "length (rc_obj cl) = RPC_MAX_TRACKED_OBJS"
  shows "served label as s cl"
proof -
  let ?cl = "cl\<lparr>rc_num_obj := 0, rc_skip_reply := False\<rparr>"
  from sv_init_spec [OF s, of cl] obtain s1 where
    s1: "rpc_sv_init (Some cl) s = Some (s1, Some ?cl)" "sv_ok s1" "free_blocks s1 = free_blocks s" "ipc_msg s1 = ipc_msg s" "rpc_mr s1 = 1" by blast
  have room: "room (args_words as) s1" using "as"(2) s1(2,5) by (simp add: room_def sv_ok_def)
  from msg obtain ms where m: "ipc_msg s = label # ms" "take (length (args_words as)) ms = args_words as"
    by (cases "ipc_msg s") auto
  then have "part (ipc_msg s1) (rpc_mr s1) (length (args_words as)) = args_words as" by (simp add: s1 part_def)
  from pop_args_spec [OF s1(2) "as"(1) _ room this] n(1) s1(3) obtain t vs js where
    t: "pop_args (map type_of as) s1 = Some (t, vs)" "popped (args_words as) js s1 t" "list_all2 (arg_at (rpc_static_mempool t)) as vs"
    "concat (map val_ptrs vs) = block_ptrs js" "length js = sum_list (map needs_block as)" by auto
  from track_spec [of ?cl "block_ptrs js"] n(2) cl t(5) obtain cl2 where
    c: "for_each (block_ptrs js) (\<lambda>p. rpc_sv_track_obj (int p)) ?cl = Some cl2" "rc_num_obj cl2 = length js"
    "length (rc_obj cl2) = RPC_MAX_TRACKED_OBJS" "take (rc_num_obj cl2) (rc_obj cl2) = map int (block_ptrs js)" by auto
  have js: "distinct js" "set js \<subseteq> free_blocks s" "free_blocks t = free_blocks s - set js" using t(2) s1(3) by (auto simp: popped_def)
  have "\<exists>u. rpc_sv_free_tracked_objs cl2 r = Some (u, cl2\<lparr>rc_num_obj := 0\<rparr>) \<and> rpc_static_mempool_table u = rpc_static_mempool_table s"
    if r: "sv_ok r" "rpc_static_mempool_table r = rpc_static_mempool_table t" for r
  proof -
    have f: "free_blocks r = free_blocks s - set js" using r(2) js(3) by (simp add: free_blocks_def)
    have "set js \<subseteq> {..<RPC_MAX_TRACKED_OBJS} - free_blocks r" using js(2) f by (auto simp: free_blocks_def)
    from free_tracked_spec [OF r(1) js(1) this, of cl2] c n(2) t(5) obtain u where
      u: "rpc_sv_free_tracked_objs cl2 r = Some (u, cl2\<lparr>rc_num_obj := 0\<rparr>)" "sv_ok u" "free_blocks u = free_blocks r \<union> set js" by auto
    then have "free_blocks u = free_blocks s" using f js(2) by auto
    from table_eqI [OF u(2) s this] u(1) show ?thesis by blast
  qed
  with s1(1) t c(1) block_ptrs_distinct [OF js(1)] m(1) show ?thesis unfolding served_def by (intro conjI) (simp, fastforce)
qed

lemma init_spec:
  assumes "length (ipc_msg c) = seL4_MsgMaxLength"
  shows "\<exists>d. rpc_init label c = Some d \<and> ipc_msg d = (ipc_msg c)[0 := u32i label] \<and> rpc_mr d = 1"
proof -
  have "0 < length (ipc_msg c)" using assms by (simp add: seL4_MsgMaxLength_def)
  then show ?thesis
    by (simp add: rpc_init_def rpc_reset_contents_def seL4_SetMR_def rpc_setup_recv_def seL4_SetCapReceivePath_def
        REFOS_THREAD_CAP_RECV_def Let_def)
qed

text \<open>
  C28 (a request carries its arguments).  A client packs any list of numbers, strings, objects and arrays that fits the message
  registers.  A server that finds these registers in its own buffer, as many as the message is long, and has a block for each
  argument that needs one, reads the label and exactly the arguments, each in a block of its own that later arguments do not disturb;
  releasing the tracked blocks after the answer restores the table of the pool.
\<close>

theorem rpc_request_roundtrip:
  assumes "as": "\<forall>a \<in> set as. arg_ok a" "length (args_words as) < seL4_MsgMaxLength" and c: "length (ipc_msg c) = seL4_MsgMaxLength"
  shows "\<exists>d e. rpc_init label c = Some d \<and> for_each as push_arg d = Some e \<and> rpc_mr e = 1 + length (args_words as) \<and>
    (\<forall>s cl. sv_ok s \<longrightarrow> take (rpc_mr e) (ipc_msg s) = take (rpc_mr e) (ipc_msg e) \<longrightarrow>
       sum_list (map needs_block as) \<le> card (free_blocks s) \<longrightarrow> sum_list (map needs_block as) < RPC_MAX_TRACKED_OBJS \<longrightarrow>
       length (rc_obj cl) = RPC_MAX_TRACKED_OBJS \<longrightarrow> served (u32i label) as s cl)"
proof -
  from init_spec [OF c, of label] obtain d where
    d: "rpc_init label c = Some d" "ipc_msg d = (ipc_msg c)[0 := u32i label]" "rpc_mr d = 1" by blast
  let ?e = "pushed (args_words as) d"
  have "room (args_words as) d" using "as"(2) c d by (simp add: room_def)
  from push_args_spec [OF "as"(1) this] have e: "for_each as push_arg d = Some ?e" .
  have "take 1 (ipc_msg d) = [u32i label]" using d(2) c by (cases "ipc_msg c") (simp_all add: seL4_MsgMaxLength_def)
  then have m: "take (1 + length (args_words as)) (ipc_msg ?e) = u32i label # args_words as"
    using d(3) by (simp add: pushed_def overlay_def)
  have "served (u32i label) as s cl" if "sv_ok s" "take (rpc_mr ?e) (ipc_msg s) = take (rpc_mr ?e) (ipc_msg ?e)"
    "sum_list (map needs_block as) \<le> card (free_blocks s)" "sum_list (map needs_block as) < RPC_MAX_TRACKED_OBJS"
    "length (rc_obj cl) = RPC_MAX_TRACKED_OBJS" for s cl
  proof -
    have "rpc_mr ?e = 1 + length (args_words as)" using d(3) by (simp add: pushed_def)
    with m that(2) have "take (1 + length (args_words as)) (ipc_msg s) = u32i label # args_words as" by simp
    from serve_spec [OF that(1) "as" that(3,4) this that(5)] show ?thesis .
  qed
  with d(1,3) e show ?thesis by (intro exI [of _ d] exI [of _ ?e]) (simp add: pushed_def)
qed

definition demo_rpc :: rpc_state where
  "demo_rpc = \<lparr>ipc_msg = replicate 120 0, ipc_caps = [0, 0, 0], ipc_receive = (0, 0, 0),
     rpc_static_mempool = replicate (RPC_MAX_TRACKED_OBJS * RPC_STATIC_MEMPOOL_OBJ_SIZE) 0, rpc_static_mempool_table = replicate 32 False,
     rpc_mr = 0, rpc_cp = 0, rpc_recv_cslot = 0, rpc_dest_ep = 0,
     rpc_minfo = \<lparr>mi_capsUnwrapped = 0, mi_extraCaps = 0, mi_length = 0\<rparr>, rpc_label = 0, rpc_actions = []\<rparr>"

definition demo_args :: "rpc_arg list" where
  "demo_args = [Arg_uint 7, Arg_str [47, 102, 115], Arg_array 4 [[1, 2, 3, 4], [5, 6, 7, 8]]]"

lemma demo_rpc_ok: "sv_ok (demo_rpc\<lparr>ipc_msg := m\<rparr>) \<longleftrightarrow> length m = 120" "free_blocks (demo_rpc\<lparr>ipc_msg := m\<rparr>) = {..<32}"
  by (auto simp: sv_ok_def demo_rpc_def RPC_MAX_TRACKED_OBJS_def seL4_MsgMaxLength_def free_blocks_def)

lemma demo_args_ok:
  "(\<forall>a \<in> set demo_args. arg_ok a) \<and> length (args_words demo_args) = 6 \<and> sum_list (map needs_block demo_args) = 2"
  by (simp add: demo_args_def byte_list_def length_words_of needs_block_def)

theorem rpc_request_roundtrip_witness:
  "\<exists>d e. rpc_init 3 demo_rpc = Some d \<and> for_each demo_args push_arg d = Some e \<and> rpc_mr e = 7 \<and>
     served 3 demo_args (demo_rpc\<lparr>ipc_msg := ipc_msg e\<rparr>)
       \<lparr>rc_minfo = \<lparr>mi_capsUnwrapped = 0, mi_extraCaps = 0, mi_length = 7\<rparr>, rc_obj = replicate 32 0, rc_num_obj = 0,
         rc_skip_reply = False, rc_reply = 0\<rparr>"
proof -
  have c: "length (ipc_msg demo_rpc) = seL4_MsgMaxLength" by (simp add: demo_rpc_def seL4_MsgMaxLength_def)
  have small: "length (args_words demo_args) < seL4_MsgMaxLength" using demo_args_ok by (simp add: seL4_MsgMaxLength_def)
  from rpc_request_roundtrip [OF conjunct1 [OF demo_args_ok] small c, of 3] obtain d e where
    e: "rpc_init 3 demo_rpc = Some d" "for_each demo_args push_arg d = Some e" "rpc_mr e = 1 + length (args_words demo_args)"
    "\<forall>s cl. sv_ok s \<longrightarrow> take (rpc_mr e) (ipc_msg s) = take (rpc_mr e) (ipc_msg e) \<longrightarrow>
       sum_list (map needs_block demo_args) \<le> card (free_blocks s) \<longrightarrow> sum_list (map needs_block demo_args) < RPC_MAX_TRACKED_OBJS \<longrightarrow>
       length (rc_obj cl) = RPC_MAX_TRACKED_OBJS \<longrightarrow> served (u32i 3) demo_args s cl" by blast
  have "length (ipc_msg e) = 120"
  proof -
    from init_spec [OF c, of 3] e(1) have d: "length (ipc_msg d) = 120" "rpc_mr d = 1" using c by (auto simp: seL4_MsgMaxLength_def)
    then have "room (args_words demo_args) d" using demo_args_ok by (simp add: room_def seL4_MsgMaxLength_def)
    from push_args_spec [OF conjunct1 [OF demo_args_ok] this] e(2) d demo_args_ok show ?thesis by (simp add: pushed_def)
  qed
  then have "served (u32i 3) demo_args (demo_rpc\<lparr>ipc_msg := ipc_msg e\<rparr>)
       \<lparr>rc_minfo = \<lparr>mi_capsUnwrapped = 0, mi_extraCaps = 0, mi_length = 7\<rparr>, rc_obj = replicate 32 0, rc_num_obj = 0,
         rc_skip_reply = False, rc_reply = 0\<rparr>"
    using e(4) demo_args_ok demo_rpc_ok [of "ipc_msg e"] by (simp add: RPC_MAX_TRACKED_OBJS_def)
  with e(1-3) demo_args_ok show ?thesis by (auto simp: u32i_def)
qed

section \<open>Malformed requests\<close>

lemma unmarshall_words_overrun:
  assumes "length (ipc_msg s) < mr + k" and "length (ipc_msg s) < 2 ^ 32 - 1" and "mr \<le> length (ipc_msg s)"
  shows "unmarshall_words k mr mem p s = None"
  using assms
proof (induction k arbitrary: mr mem p)
  case (Suc k)
  show ?case
  proof (cases "mr < length (ipc_msg s)")
    case True
    with Suc show ?thesis by (auto simp: seL4_GetMR_def bind_eq_None_conv)
  qed (use Suc.prems in \<open>simp add: seL4_GetMR_def\<close>)
qed simp

text \<open>
  The length of a string comes from the client.  A server that meets one longer than the message registers hold stops: the assertion
  on the size of a block fails, or registers behind the buffer are read.
\<close>

lemma sv_pop_str_overlong:
  assumes "length (ipc_msg s) = seL4_MsgMaxLength" and "rpc_mr s < seL4_MsgMaxLength" and "ipc_msg s ! rpc_mr s = slen"
    and "4 * seL4_MsgMaxLength \<le> slen"
  shows "rpc_sv_pop_str s = None"
proof -
  have "rpc_unmarshall (Suc (rpc_mr s)) (Some (mem, p)) slen t = None" if "ipc_msg t = ipc_msg s" for mem p t
  proof -
    have "seL4_MsgMaxLength \<le> slen div 4" using assms(4) by simp
    then have "unmarshall_words (slen div 4) (Suc (rpc_mr s)) mem p t = None"
      using assms(1,2) that by (intro unmarshall_words_overrun) (simp_all add: seL4_MsgMaxLength_def)
    then show ?thesis using assms(4) by (simp add: rpc_unmarshall_def seL4_MsgMaxLength_def)
  qed
  moreover have "ipc_msg t = ipc_msg s \<and> rpc_mr t = rpc_mr s" if "rpc_malloc n s = Some (t, q)" for n s t q
    using that by (auto simp: rpc_malloc_def split: bind_splits)
  ultimately show ?thesis
    using assms by (fastforce simp: rpc_sv_pop_str_def rpc_sv_pop_uint_def seL4_GetMR_def seL4_MsgMaxLength_def split: bind_splits)
qed

text \<open>A null object is meant to be skipped, but the assertion of \<open>rpc_marshall\<close> stops the client.\<close>

lemma push_null_buf: "0 < sz \<Longrightarrow> rpc_push_buf None sz s = None"
  by (simp add: rpc_push_buf_def rpc_marshall_def)

end
