(* ===== verification/Device_Irq.thy ===== *)
theory Device_Irq
  imports Walloc
begin

text \<open>
  The interrupt library of \<open>librefos\<close> for device servers (\<open>device_irq.c\<close>, and \<open>srv_mint\<close> of \<open>serv_common.c\<close>).  Interrupts are
  spread over channels; the kernel sets one bit of the badge per channel.  A callback is its address, 0 for none; the calls of
  callbacks are part of the result.  The answers of the kernel are arguments.
\<close>

unbundle bit_operations_syntax

section \<open>Model\<close>

definition DEVICE_MAX_IRQ :: nat where "DEVICE_MAX_IRQ = 256"
definition DEVICE_IRQ_BADGE_MAX_CHANNELS :: nat where "DEVICE_IRQ_BADGE_MAX_CHANNELS = 28"
definition DEVICE_IRQ_MAGIC :: nat where "DEVICE_IRQ_MAGIC = 0x6220E130"

text \<open>The enumeration of \<open>serv_common.h\<close>, with a prefix.\<close>

datatype srv_dispatch = SRV_DISPATCH_ERROR | SRV_DISPATCH_PASS | SRV_DISPATCH_SUCCESS

record dev_irq_handler =
  ih_handler :: nat
  ih_callback :: nat
  ih_cookie :: nat

text \<open>The function of the configuration is applied to its cookie; a null pointer is \<open>None\<close>.\<close>

record dev_irq_config =
  ic_numIRQChannels :: int
  ic_badgeBaseBit :: int
  ic_badgeTopBit :: int
  ic_badgeMaskBits :: nat
  ic_notifyAsyncEP :: nat
  ic_getIRQHandlerEndpoint :: "(nat \<Rightarrow> nat) option"

record dev_irq_state =
  is_magic :: nat
  is_cfg :: dev_irq_config
  is_handler :: "dev_irq_handler list"
  is_channel :: "nat cvector list"
  is_nextIRQChannel :: nat

datatype irq_event = Callback nat nat nat | Ack nat

definition zero_irq_state :: dev_irq_state where
  "zero_irq_state = \<lparr>is_magic = 0,
     is_cfg = \<lparr>ic_numIRQChannels = 0, ic_badgeBaseBit = 0, ic_badgeTopBit = 0, ic_badgeMaskBits = 0, ic_notifyAsyncEP = 0,
       ic_getIRQHandlerEndpoint = None\<rparr>,
     is_handler = replicate DEVICE_MAX_IRQ \<lparr>ih_handler = 0, ih_callback = 0, ih_cookie = 0\<rparr>,
     is_channel = replicate DEVICE_IRQ_BADGE_MAX_CHANNELS \<lparr>cv_data = [], cv_size = 0, cv_count = 0, cv_nextResize = 0\<rparr>,
     is_nextIRQChannel = 0\<rparr>"

definition dev_irq_init :: "dev_irq_config \<Rightarrow> dev_irq_state option" where
  "dev_irq_init config =
     (if ic_numIRQChannels config \<le> 0 \<or> ic_numIRQChannels config \<ge> int DEVICE_IRQ_BADGE_MAX_CHANNELS then Some zero_irq_state
      else if ic_getIRQHandlerEndpoint config = None then Some zero_irq_state
      else if ic_notifyAsyncEP config = 0 then Some zero_irq_state
      else do {
        st \<leftarrow> for_each [0..<nat (ic_numIRQChannels config)] (\<lambda>i st. do {
                ch \<leftarrow> wr (is_channel st) i cvector_init;
                Some (st\<lparr>is_channel := ch\<rparr>)
              }) zero_irq_state;
        Some (st\<lparr>is_cfg := config, is_magic := DEVICE_IRQ_MAGIC\<rparr>)
      })"

definition srv_mint :: "bool \<Rightarrow> nat \<Rightarrow> nat \<Rightarrow> cspace \<Rightarrow> (cspace \<times> nat) option" where
  "srv_mint mint_ok badge ep cs = do {
     c_assert (ep \<noteq> 0);
     (cs, mintEP) \<leftarrow> csalloc cs;
     if mintEP = 0 then Some (cs, 0)
     else do {
       let cs = cs\<lparr>cs_calls := cs_calls cs @ [CNode_Mint mintEP ep badge]\<rparr>;
       if \<not> mint_ok then do { cs \<leftarrow> csfree mintEP cs; Some (cs, 0) }
       else Some (cs, mintEP)
     }
   }"

text \<open>A shift by more than 31 is undefined.\<close>

definition dev_handle_irq ::
  "(nat \<Rightarrow> bool) \<Rightarrow> bool \<Rightarrow> bool \<Rightarrow> nat \<Rightarrow> nat \<Rightarrow> nat \<Rightarrow> dev_irq_state \<Rightarrow> cspace \<Rightarrow>
   (dev_irq_state \<times> cspace \<times> refos_error) option" where
  "dev_handle_irq mem mint_ok set_ok irq callback cookie st cs = do {
     c_assert (is_magic st = DEVICE_IRQ_MAGIC);
     c_assert (irq < DEVICE_MAX_IRQ);
     h \<leftarrow> rd (is_handler st) irq;
     hcap \<leftarrow> (if ih_handler h = 0 then do { get \<leftarrow> ic_getIRQHandlerEndpoint (is_cfg st); Some (get irq) } else Some (ih_handler h));
     hs \<leftarrow> wr (is_handler st) irq (h\<lparr>ih_handler := hcap\<rparr>);
     let st = st\<lparr>is_handler := hs\<rparr>;
     if hcap = 0 then Some (st, cs, EINVALID)
     else do {
       let nextChannel = u32i (ic_badgeBaseBit (is_cfg st) + int (is_nextIRQChannel st));
       ch \<leftarrow> rd (is_channel st) (is_nextIRQChannel st);
       (ch, idx) \<leftarrow> cvector_add mem ch irq;
       chs \<leftarrow> wr (is_channel st) (is_nextIRQChannel st) ch;
       let n = u32i (ic_numIRQChannels (is_cfg st));
       c_assert (n \<noteq> 0);
       let st = st\<lparr>is_channel := chs, is_nextIRQChannel := u32 (is_nextIRQChannel st + 1) mod n\<rparr>;
       c_assert (ic_notifyAsyncEP (is_cfg st) \<noteq> 0);
       c_assert (nextChannel < 32);
       (cs, irqBadge) \<leftarrow> srv_mint mint_ok (2 ^ nextChannel OR ic_badgeMaskBits (is_cfg st)) (ic_notifyAsyncEP (is_cfg st)) cs;
       if irqBadge = 0 then Some (st, cs, EINVALID)
       else do {
         let cs = cs\<lparr>cs_calls := cs_calls cs @ [IRQ_SetEndpoint hcap irqBadge]\<rparr>;
         if \<not> set_ok then do { cs \<leftarrow> csfree_delete irqBadge cs; Some (st, cs, EINVALID) }
         else do {
           let cs = cs\<lparr>cs_calls := cs_calls cs @ [IRQ_Ack hcap]\<rparr>;
           hs \<leftarrow> wr (is_handler st) irq \<lparr>ih_handler = hcap, ih_callback = callback, ih_cookie = cookie\<rparr>;
           cs \<leftarrow> csfree_delete irqBadge cs;
           Some (st\<lparr>is_handler := hs\<rparr>, cs, ESUCCESS)
         }
       }
     }
   }"

text \<open>The inner loop over the interrupts of channel \<open>i\<close>.\<close>

definition dispatch_channel :: "dev_irq_state \<Rightarrow> nat \<Rightarrow> irq_event list \<Rightarrow> irq_event list option" where
  "dispatch_channel st i ev = do {
     ch \<leftarrow> rd (is_channel st) i;
     for_each [0..<cvector_count ch] (\<lambda>j ev. do {
       irq \<leftarrow> cvector_get ch j;
       c_assert (irq < DEVICE_MAX_IRQ);
       h \<leftarrow> rd (is_handler st) irq;
       let ev = (if ih_callback h \<noteq> 0 then ev @ [Callback (ih_callback h) (ih_cookie h) irq] else ev);
       Some (if ih_handler h \<noteq> 0 then ev @ [Ack (ih_handler h)] else ev)
     }) ev
   }"

definition dev_dispatch_interrupt :: "dev_irq_state \<Rightarrow> nat \<Rightarrow> (srv_dispatch \<times> irq_event list) option" where
  "dev_dispatch_interrupt st badge = do {
     c_assert (is_magic st = DEVICE_IRQ_MAGIC);
     if badge AND ic_badgeMaskBits (is_cfg st) = 0 then Some (SRV_DISPATCH_PASS, [])
     else do {
       (found, ev) \<leftarrow> for_each [0..<nat (ic_numIRQChannels (is_cfg st))] (\<lambda>i (found, ev). do {
           c_assert (ic_badgeBaseBit (is_cfg st) + int i \<in> {0..<32});
           if bit badge (nat (ic_badgeBaseBit (is_cfg st) + int i)) then do {
             ev \<leftarrow> dispatch_channel st i ev;
             Some (True, ev)
           }
           else Some (found, ev)
         }) (False, []);
       Some (if \<not> found then SRV_DISPATCH_PASS else SRV_DISPATCH_SUCCESS, ev)
     }
   }"

section \<open>Invariant\<close>

definition irq_events :: "dev_irq_state \<Rightarrow> nat \<Rightarrow> irq_event list" where
  "irq_events st irq = (let h = is_handler st ! irq in
     (if ih_callback h \<noteq> 0 then [Callback (ih_callback h) (ih_cookie h) irq] else []) @
     (if ih_handler h \<noteq> 0 then [Ack (ih_handler h)] else []))"

definition channel_irqs :: "dev_irq_state \<Rightarrow> nat \<Rightarrow> nat list" where
  "channel_irqs st i = cv_list (is_channel st ! i)"

definition cfg_ok :: "dev_irq_config \<Rightarrow> bool" where
  "cfg_ok cfg \<longleftrightarrow> 0 < ic_numIRQChannels cfg \<and> ic_numIRQChannels cfg < int DEVICE_IRQ_BADGE_MAX_CHANNELS \<and>
     0 \<le> ic_badgeBaseBit cfg \<and> ic_badgeBaseBit cfg + ic_numIRQChannels cfg \<le> 32 \<and> ic_notifyAsyncEP cfg \<noteq> 0 \<and>
     ic_getIRQHandlerEndpoint cfg \<noteq> None"

text \<open>\<open>B\<close> gives the channel the kernel signals for an interrupt.\<close>

definition irq_inv :: "(nat \<rightharpoonup> nat) \<Rightarrow> dev_irq_state \<Rightarrow> bool" where
  "irq_inv B st \<longleftrightarrow> is_magic st = DEVICE_IRQ_MAGIC \<and> cfg_ok (is_cfg st) \<and> length (is_handler st) = DEVICE_MAX_IRQ \<and>
     length (is_channel st) = DEVICE_IRQ_BADGE_MAX_CHANNELS \<and> is_nextIRQChannel st < nat (ic_numIRQChannels (is_cfg st)) \<and>
     (\<forall>i < nat (ic_numIRQChannels (is_cfg st)). cv_inv (is_channel st ! i) \<and> set (channel_irqs st i) \<subseteq> {..<DEVICE_MAX_IRQ}) \<and>
     (\<forall>irq c. B irq = Some c \<longrightarrow> c < nat (ic_numIRQChannels (is_cfg st)) \<and> irq \<in> set (channel_irqs st c) \<and>
        ih_handler (is_handler st ! irq) \<noteq> 0)"

lemma for_each_concat:
  assumes "\<And>x ev. x \<in> set xs \<Longrightarrow> f x ev = Some (ev @ g x)"
  shows "for_each xs f ev = Some (ev @ concat (map g xs))"
  using assms by (induction xs arbitrary: ev) auto

lemma dispatch_channel_spec:
  assumes inv: "irq_inv B st" and i: "i < nat (ic_numIRQChannels (is_cfg st))"
  shows "dispatch_channel st i ev = Some (ev @ concat (map (irq_events st) (channel_irqs st i)))"
proof -
  from inv i have ch: "cv_inv (is_channel st ! i)" "set (channel_irqs st i) \<subseteq> {..<DEVICE_MAX_IRQ}" "i < length (is_channel st)"
    "length (is_handler st) = DEVICE_MAX_IRQ"
    by (auto simp: irq_inv_def cfg_ok_def DEVICE_IRQ_BADGE_MAX_CHANNELS_def)
  let ?irqs = "channel_irqs st i"
  have n: "cvector_count (is_channel st ! i) = length ?irqs" using cvector_count_list [OF ch(1)] by (simp add: channel_irqs_def)
  have m: "map (irq_events st) ?irqs = map (\<lambda>j. irq_events st (?irqs ! j)) [0..<length ?irqs]"
    by (intro nth_equalityI) auto
  have g: "cvector_get (is_channel st ! i) j = Some (?irqs ! j)" "?irqs ! j < DEVICE_MAX_IRQ" if "j < length ?irqs" for j
  proof -
    show "cvector_get (is_channel st ! i) j = Some (?irqs ! j)"
      using that cvector_get_list [OF ch(1), of j] by (simp add: channel_irqs_def)
    show "?irqs ! j < DEVICE_MAX_IRQ" using ch(2) nth_mem [OF that] by blast
  qed
  show ?thesis
    unfolding dispatch_channel_def m using ch(3,4)
    by (simp add: n) (rule for_each_concat, simp add: g irq_events_def Let_def)
qed


lemma for_each_found:
  assumes "\<And>x b ev. x \<in> set xs \<Longrightarrow> f x (b, ev) = Some (b \<or> P x, ev @ g x)"
  shows "for_each xs f (b, ev) = Some (b \<or> (\<exists>x \<in> set xs. P x), ev @ concat (map g xs))"
  using assms by (induction xs arbitrary: b ev) auto

definition channel_bit :: "dev_irq_state \<Rightarrow> nat \<Rightarrow> nat" where
  "channel_bit st i = nat (ic_badgeBaseBit (is_cfg st) + int i)"

text \<open>The channels a badge signals, in order.\<close>

definition signalled :: "dev_irq_state \<Rightarrow> nat \<Rightarrow> nat list" where
  "signalled st badge = filter (\<lambda>i. bit badge (channel_bit st i)) [0..<nat (ic_numIRQChannels (is_cfg st))]"

lemma concat_if_filter: "concat (map (\<lambda>x. if P x then g x else []) xs) = concat (map g (filter P xs))"
  by (induction xs) auto

lemma concat_map_concat: "concat (map g (concat (map h xs))) = concat (map (\<lambda>x. concat (map g (h x))) xs)"
  by (induction xs) auto

lemma dispatch_spec:
  assumes inv: "irq_inv B st"
  shows "dev_dispatch_interrupt st badge = Some (if badge AND ic_badgeMaskBits (is_cfg st) = 0 \<or> signalled st badge = []
      then (SRV_DISPATCH_PASS, [])
      else (SRV_DISPATCH_SUCCESS, concat (map (irq_events st) (concat (map (channel_irqs st) (signalled st badge))))))"
proof -
  let ?n = "nat (ic_numIRQChannels (is_cfg st))" and ?bit = "\<lambda>i. bit badge (channel_bit st i)"
  let ?g = "\<lambda>i. if ?bit i then concat (map (irq_events st) (channel_irqs st i)) else []"
  let ?f = "\<lambda>i (found, ev). do {
      c_assert (ic_badgeBaseBit (is_cfg st) + int i \<in> {0..<32});
      if bit badge (nat (ic_badgeBaseBit (is_cfg st) + int i)) then do { ev \<leftarrow> dispatch_channel st i ev; Some (True, ev) }
      else Some (found, ev) }"
  have cfg: "cfg_ok (is_cfg st)" "is_magic st = DEVICE_IRQ_MAGIC" using inv by (auto simp: irq_inv_def)
  have "?f i (b, ev) = Some (b \<or> ?bit i, ev @ ?g i)" if "i \<in> set [0..<?n]" for i b ev
  proof -
    have "ic_badgeBaseBit (is_cfg st) + int i \<in> {0..<32}" using that cfg(1) by (auto simp: cfg_ok_def)
    then show ?thesis using dispatch_channel_spec [OF inv, of i] that by (simp add: channel_bit_def)
  qed
  then have "for_each [0..<?n] ?f (False, []) = Some (False \<or> (\<exists>i \<in> set [0..<?n]. ?bit i), [] @ concat (map ?g [0..<?n]))"
    by (rule for_each_found)
  then have "for_each [0..<?n] ?f (False, []) = Some (signalled st badge \<noteq> [],
      concat (map (irq_events st) (concat (map (channel_irqs st) (signalled st badge)))))"
    by (auto simp: concat_if_filter signalled_def filter_empty_conv concat_map_concat)
  then show ?thesis using cfg(2) by (simp add: dev_dispatch_interrupt_def)
qed

section \<open>Registration\<close>

text \<open>The capability of the handler: the one kept, else the one the server supplies.\<close>

definition handler_cap :: "dev_irq_state \<Rightarrow> nat \<Rightarrow> nat" where
  "handler_cap st irq = (let h = ih_handler (is_handler st ! irq) in
     if h = 0 then the (ic_getIRQHandlerEndpoint (is_cfg st)) irq else h)"

definition next_badge :: "dev_irq_state \<Rightarrow> nat" where
  "next_badge st = 2 ^ channel_bit st (is_nextIRQChannel st) OR ic_badgeMaskBits (is_cfg st)"

lemma irq_inv_register:
  assumes inv: "irq_inv B st" and irq: "irq < DEVICE_MAX_IRQ" and h: "hcap \<noteq> 0"
    and ch: "cv_inv ch" "cv_list ch = cv_list (is_channel st ! is_nextIRQChannel st) @ [irq]"
    and t: "t = st\<lparr>is_handler := (is_handler st)[irq := \<lparr>ih_handler = hcap, ih_callback = cb, ih_cookie = ck\<rparr>],
      is_channel := (is_channel st)[is_nextIRQChannel st := ch],
      is_nextIRQChannel := (is_nextIRQChannel st + 1) mod nat (ic_numIRQChannels (is_cfg st))\<rparr>"
  shows "irq_inv (B(irq \<mapsto> is_nextIRQChannel st)) t"
proof -
  let ?n = "nat (ic_numIRQChannels (is_cfg st))" and ?k = "is_nextIRQChannel st"
  have len: "?k < ?n" "?n < length (is_channel st)" "length (is_handler st) = DEVICE_MAX_IRQ"
    using inv by (auto simp: irq_inv_def cfg_ok_def)
  have c: "channel_irqs t i = (if i = ?k then channel_irqs st ?k @ [irq] else channel_irqs st i)" if "i < ?n" for i
    using that len ch(2) by (simp add: channel_irqs_def t)
  have v: "cv_inv (is_channel t ! i)" if "i < ?n" for i
    using that len ch(1) inv by (cases "i = ?k") (simp_all add: t irq_inv_def)
  have "c < ?n \<and> x \<in> set (channel_irqs t c) \<and> ih_handler (is_handler t ! x) \<noteq> 0" if "(B(irq \<mapsto> ?k)) x = Some c" for x c
  proof (cases "x = irq")
    case True
    with that c [OF len(1)] len irq h show ?thesis by (auto simp: t)
  next
    case False
    with that inv have x: "c < ?n" "x \<in> set (channel_irqs st c)" "ih_handler (is_handler st ! x) \<noteq> 0" by (auto simp: irq_inv_def)
    with False c [OF x(1)] show ?thesis by (auto simp: t)
  qed
  moreover have "set (channel_irqs t i) \<subseteq> {..<DEVICE_MAX_IRQ}" if "i < ?n" for i
    using c [OF that] that inv irq len(1) by (auto simp: irq_inv_def)
  moreover have "(?k + 1) mod ?n < ?n" using len(1) by (intro mod_less_divisor) simp
  ultimately show ?thesis using v inv unfolding irq_inv_def by (simp add: t)
qed

lemma mint_and_free:
  assumes "cs_inv R cs" and "cs_free cs \<noteq> []" and "ep \<noteq> 0"
  shows "\<exists>cs1 c. srv_mint True badge ep cs = Some (cs1, c) \<and> c \<noteq> 0 \<and> c \<in> set (cs_free cs) \<and>
    cs_calls cs1 = cs_calls cs @ [CNode_Mint c ep badge] \<and>
    (\<forall>calls. \<exists>t. csfree_delete c (cs1\<lparr>cs_calls := calls\<rparr>) = Some t \<and> cs_inv R t \<and> cs_free t = cs_free cs \<and>
       cs_calls t = calls @ [CNode_Delete c])"
  using assms(1)
proof (cases rule: csalloc_cases)
  case full
  with assms(2) show ?thesis by simp
next
  case (slot c)
  let ?cs = "cs\<lparr>cspaceFreeListNum := cspaceFreeListNum cs - 1\<rparr>"
  have d: "distinct (cs_free cs)" using assms(1) by (simp add: cs_inv_def)
  then have c: "c \<notin> set (cs_free ?cs)" using slot(2) by (metis distinct_append disjoint_iff list.set_intros(1))
  have "\<exists>t. csfree_delete c (?cs\<lparr>cs_calls := calls\<rparr>) = Some t \<and> cs_inv R t \<and> cs_free t = cs_free cs \<and> cs_calls t = calls @ [CNode_Delete c]"
    for calls
  proof -
    from csfree_spec [of R "?cs\<lparr>cs_calls := calls\<rparr>" c] slot(3,4) c obtain t where
      "csfree_delete c (?cs\<lparr>cs_calls := calls\<rparr>) = Some (t\<lparr>cs_calls := calls @ [CNode_Delete c]\<rparr>)" "cs_inv R t"
      "cs_free t = cs_free ?cs @ [c]" by auto
    with slot(2) show ?thesis by (intro exI [of _ "t\<lparr>cs_calls := calls @ [CNode_Delete c]\<rparr>"]) simp
  qed
  moreover have "c \<in> set (cs_free cs)" using slot(2) by (metis in_set_conv_decomp)
  ultimately show ?thesis using slot(1,5) assms(3)
    by (intro exI [of _ "?cs\<lparr>cs_calls := cs_calls cs @ [CNode_Mint c ep badge]\<rparr>"] exI [of _ c]) (simp add: srv_mint_def)
qed

lemma register_spec:
  assumes inv: "irq_inv B st" and cs: "cs_inv R cs" "cs_free cs \<noteq> []" and irq: "irq < DEVICE_MAX_IRQ" and h: "handler_cap st irq \<noteq> 0"
  shows "\<exists>t ds c. dev_handle_irq heap_ok True True irq cb ck st cs = Some (t, ds, ESUCCESS) \<and>
    irq_inv (B(irq \<mapsto> is_nextIRQChannel st)) t \<and> is_cfg t = is_cfg st \<and>
    is_nextIRQChannel t = (is_nextIRQChannel st + 1) mod nat (ic_numIRQChannels (is_cfg st)) \<and>
    is_handler t = (is_handler st)[irq := \<lparr>ih_handler = handler_cap st irq, ih_callback = cb, ih_cookie = ck\<rparr>] \<and>
    cs_inv R ds \<and> cs_free ds = cs_free cs \<and> cs_calls ds = cs_calls cs @
      [CNode_Mint c (ic_notifyAsyncEP (is_cfg st)) (next_badge st), IRQ_SetEndpoint (handler_cap st irq) c, IRQ_Ack (handler_cap st irq), CNode_Delete c]"
proof -
  let ?n = "nat (ic_numIRQChannels (is_cfg st))" and ?k = "is_nextIRQChannel st" and ?h = "handler_cap st irq"
  have cfg: "cfg_ok (is_cfg st)" "is_magic st = DEVICE_IRQ_MAGIC" "length (is_handler st) = DEVICE_MAX_IRQ" "?k < ?n"
    "cv_inv (is_channel st ! ?k)" "length (is_channel st) = DEVICE_IRQ_BADGE_MAX_CHANNELS"
    using inv by (auto simp: irq_inv_def)
  then have k: "?k < length (is_channel st)" "?k < 28" "0 < ?n" "?n < 28" by (auto simp: cfg_ok_def DEVICE_IRQ_BADGE_MAX_CHANNELS_def)
  have ep: "ic_notifyAsyncEP (is_cfg st) \<noteq> 0" using cfg(1) by (simp add: cfg_ok_def)
  obtain get where get: "ic_getIRQHandlerEndpoint (is_cfg st) = Some get" using cfg(1) by (auto simp: cfg_ok_def)
  from cvector_add_list [OF cfg(5), of irq] obtain ch m where
    ch: "cvector_add heap_ok (is_channel st ! ?k) irq = Some (ch, m)" "cv_inv ch" "cv_list ch = cv_list (is_channel st ! ?k) @ [irq]" by blast
  have bit: "u32i (ic_badgeBaseBit (is_cfg st) + int ?k) = channel_bit st ?k" "channel_bit st ?k < 32"
    using cfg(1,4) by (auto simp: u32i_def channel_bit_def cfg_ok_def)
  have n: "u32i (ic_numIRQChannels (is_cfg st)) = ?n" "u32 (?k + 1) = ?k + 1"
    using cfg(1) k by (auto simp: u32i_def cfg_ok_def DEVICE_IRQ_BADGE_MAX_CHANNELS_def)
  from mint_and_free [OF cs ep, of "next_badge st"] obtain cs1 c where
    c: "srv_mint True (next_badge st) (ic_notifyAsyncEP (is_cfg st)) cs = Some (cs1, c)" "c \<noteq> 0"
    "cs_calls cs1 = cs_calls cs @ [CNode_Mint c (ic_notifyAsyncEP (is_cfg st)) (next_badge st)]"
    "\<forall>calls. \<exists>t. csfree_delete c (cs1\<lparr>cs_calls := calls\<rparr>) = Some t \<and> cs_inv R t \<and> cs_free t = cs_free cs \<and>
       cs_calls t = calls @ [CNode_Delete c]" by blast
  from c(4) obtain ds where ds: "csfree_delete c (cs1\<lparr>cs_calls := cs_calls cs1 @ [IRQ_SetEndpoint ?h c, IRQ_Ack ?h]\<rparr>) = Some ds"
    "cs_inv R ds" "cs_free ds = cs_free cs" "cs_calls ds = cs_calls cs1 @ [IRQ_SetEndpoint ?h c, IRQ_Ack ?h, CNode_Delete c]" by fastforce
  let ?t = "st\<lparr>is_handler := (is_handler st)[irq := \<lparr>ih_handler = ?h, ih_callback = cb, ih_cookie = ck\<rparr>],
      is_channel := (is_channel st)[?k := ch], is_nextIRQChannel := (?k + 1) mod ?n\<rparr>"
  have "(if ih_handler (is_handler st ! irq) = 0 then do { get \<leftarrow> ic_getIRQHandlerEndpoint (is_cfg st); Some (get irq) }
      else Some (ih_handler (is_handler st ! irq))) = Some ?h"
    using get by (simp add: handler_cap_def)
  then have "dev_handle_irq heap_ok True True irq cb ck st cs = Some (?t, ds, ESUCCESS)"
    using cfg(2,3) irq h k ch(1) ep bit n c(1,2) ds(1) by (simp add: dev_handle_irq_def Let_def next_badge_def [symmetric])
  moreover have "irq_inv (B(irq \<mapsto> ?k)) ?t" using irq_inv_register [OF inv irq h ch(2,3) refl] .
  ultimately show ?thesis using ds c(3) by (intro exI [of _ ?t] exI [of _ ds] exI [of _ c]) simp
qed

lemma init_loop:
  "n \<le> length chs \<Longrightarrow> for_each [0..<n] (\<lambda>i st. do { ch \<leftarrow> wr (is_channel st) i cvector_init; Some (st\<lparr>is_channel := ch\<rparr>) }) (st\<lparr>is_channel := chs\<rparr>) =
     Some (st\<lparr>is_channel := replicate n cvector_init @ drop n chs\<rparr>)"
proof (induction n)
  case (Suc n)
  then have "(replicate n cvector_init @ drop n chs)[n := cvector_init] = replicate (Suc n) cvector_init @ drop (Suc n) chs"
    by (simp add: list_update_append Cons_nth_drop_Suc [symmetric] replicate_append_same)
  with Suc show ?case by (simp add: for_each_append)
qed simp

lemma irq_init_inv:
  assumes "cfg_ok cfg"
  shows "\<exists>st. dev_irq_init cfg = Some st \<and> irq_inv Map.empty st \<and> is_cfg st = cfg \<and> is_nextIRQChannel st = 0 \<and>
    (\<forall>irq < DEVICE_MAX_IRQ. ih_handler (is_handler st ! irq) = 0)"
proof -
  let ?n = "nat (ic_numIRQChannels cfg)"
  let ?chs = "replicate DEVICE_IRQ_BADGE_MAX_CHANNELS \<lparr>cv_data = [], cv_size = 0, cv_count = 0, cv_nextResize = 0\<rparr>"
  let ?st = "zero_irq_state\<lparr>is_channel := replicate ?n cvector_init @ drop ?n ?chs, is_cfg := cfg, is_magic := DEVICE_IRQ_MAGIC\<rparr>"
  have n: "0 < ?n" "?n < DEVICE_IRQ_BADGE_MAX_CHANNELS" using assms by (auto simp: cfg_ok_def)
  have "zero_irq_state\<lparr>is_channel := ?chs\<rparr> = zero_irq_state" by (simp add: zero_irq_state_def)
  then have "dev_irq_init cfg = Some ?st"
    using init_loop [of ?n ?chs zero_irq_state] n assms by (auto simp: dev_irq_init_def cfg_ok_def)
  moreover have "irq_inv Map.empty ?st"
    using assms n by (simp add: irq_inv_def zero_irq_state_def channel_irqs_def nth_append)
  moreover have "\<forall>irq < DEVICE_MAX_IRQ. ih_handler (is_handler ?st ! irq) = 0" by (simp add: zero_irq_state_def)
  ultimately show ?thesis by (intro exI [of _ ?st]) (simp add: zero_irq_state_def)
qed

section \<open>Delivery\<close>

text \<open>A server registers a list of interrupts, each with its callback and cookie.\<close>

definition register_all ::
  "(nat \<times> nat \<times> nat) list \<Rightarrow> dev_irq_state \<times> cspace \<Rightarrow> (dev_irq_state \<times> cspace) option" where
  "register_all regs = for_each regs (\<lambda>(irq, callback, cookie) (st, cs). do {
     (st, cs, err) \<leftarrow> dev_handle_irq heap_ok True True irq callback cookie st cs;
     c_assert (err = ESUCCESS);
     Some (st, cs)
   })"

definition registered :: "(nat \<Rightarrow> nat) \<Rightarrow> nat \<Rightarrow> (nat \<times> nat \<times> nat) list \<Rightarrow> (nat \<rightharpoonup> nat) \<Rightarrow> dev_irq_state \<Rightarrow> bool" where
  "registered get n regs B st \<longleftrightarrow> irq_inv B st \<and> is_nextIRQChannel st = length regs mod n \<and>
     (\<forall>j < length regs. case regs ! j of (irq, cb, ck) \<Rightarrow>
        B irq = Some (j mod n) \<and> is_handler st ! irq = \<lparr>ih_handler = get irq, ih_callback = cb, ih_cookie = ck\<rparr>) \<and>
     (\<forall>irq < DEVICE_MAX_IRQ. irq \<notin> fst ` set regs \<longrightarrow> ih_handler (is_handler st ! irq) = 0)"


definition regs_ok :: "(nat \<Rightarrow> nat) \<Rightarrow> (nat \<times> nat \<times> nat) list \<Rightarrow> bool" where
  "regs_ok get regs \<longleftrightarrow> distinct (map fst regs) \<and> (\<forall>(irq, cb, ck) \<in> set regs. irq < DEVICE_MAX_IRQ \<and> get irq \<noteq> 0 \<and> cb \<noteq> 0)"

lemma register_all_spec:
  assumes cfg: "cfg_ok cfg" "ic_getIRQHandlerEndpoint cfg = Some get" and regs: "regs_ok get regs"
    and cs: "cs_inv R cs" "cs_free cs \<noteq> []" and init: "registered get (nat (ic_numIRQChannels cfg)) [] Map.empty st" "is_cfg st = cfg"
  shows "\<exists>t ds B. register_all regs (st, cs) = Some (t, ds) \<and> registered get (nat (ic_numIRQChannels cfg)) regs B t \<and> is_cfg t = cfg \<and>
    cs_inv R ds \<and> cs_free ds = cs_free cs"
  using regs
proof (induction regs rule: rev_induct)
  case Nil
  with init cs show ?case by (auto simp: register_all_def)
next
  case (snoc r regs)
  let ?n = "nat (ic_numIRQChannels cfg)"
  obtain irq cb ck where r: "r = (irq, cb, ck)" by (cases r)
  have ok: "regs_ok get regs" "irq < DEVICE_MAX_IRQ" "get irq \<noteq> 0" "irq \<notin> fst ` set regs" using snoc.prems r by (auto simp: regs_ok_def)
  from snoc.IH [OF ok(1)] obtain t ds B where
    t: "register_all regs (st, cs) = Some (t, ds)" "registered get ?n regs B t" "is_cfg t = cfg" "cs_inv R ds" "cs_free ds = cs_free cs" by blast
  have inv: "irq_inv B t" "is_nextIRQChannel t = length regs mod ?n" "handler_cap t irq = get irq"
    using t(2,3) ok(2,4) cfg(2) by (auto simp: registered_def handler_cap_def)
  have "cs_free ds \<noteq> []" "handler_cap t irq \<noteq> 0" using t(5) cs(2) inv(3) ok(3) by simp_all
  from register_spec [OF inv(1) t(4) this(1) ok(2) this(2), of cb ck, unfolded inv(2,3) t(3,5)] obtain u es where
    u: "dev_handle_irq heap_ok True True irq cb ck t ds = Some (u, es, ESUCCESS)" "irq_inv (B(irq \<mapsto> length regs mod ?n)) u" "is_cfg u = cfg"
    "is_nextIRQChannel u = (length regs mod ?n + 1) mod ?n"
    "is_handler u = (is_handler t)[irq := \<lparr>ih_handler = get irq, ih_callback = cb, ih_cookie = ck\<rparr>]" "cs_inv R es" "cs_free es = cs_free cs"
    by (elim exE conjE) (rule that; assumption)
  have next1: "is_nextIRQChannel u = Suc (length regs) mod ?n" using u(4) by (simp add: mod_Suc_eq)
  have "irq < length (is_handler t)" using inv(1) ok(2) by (simp add: irq_inv_def)
  moreover have "fst (regs ! j) \<noteq> irq" if "j < length regs" for j using ok(4) nth_mem [OF that] by force
  ultimately have "registered get ?n (regs @ [r]) (B(irq \<mapsto> length regs mod ?n)) u"
    using t(2) u(2,5) next1 unfolding registered_def by (fastforce simp: nth_append less_Suc_eq r split: prod.splits)
  with t(1) u show ?case by (auto simp: register_all_def for_each_append r)
qed

lemma dispatch_bound:
  assumes inv: "irq_inv B st" and b: "B irq = Some c" and badge: "bit badge (channel_bit st c)" "badge AND ic_badgeMaskBits (is_cfg st) \<noteq> 0"
  shows "\<exists>ev. dev_dispatch_interrupt st badge = Some (SRV_DISPATCH_SUCCESS, ev) \<and> set (irq_events st irq) \<subseteq> set ev \<and>
    (\<forall>e \<in> set ev. \<exists>i \<in> set (signalled st badge). \<exists>x \<in> set (channel_irqs st i). e \<in> set (irq_events st x))"
proof -
  from inv b have c: "c < nat (ic_numIRQChannels (is_cfg st))" "irq \<in> set (channel_irqs st c)" by (auto simp: irq_inv_def)
  then have s: "c \<in> set (signalled st badge)" using badge(1) by (simp add: signalled_def)
  then have "signalled st badge \<noteq> []" by auto
  with dispatch_spec [OF inv, of badge] badge(2) s c(2) show ?thesis by auto
qed

lemma bit_badge: "bit ((2 :: nat) ^ k OR m) k"
  by (simp add: bit_or_iff bit_exp_iff)


definition demo_irq_cfg :: dev_irq_config where
  "demo_irq_cfg = \<lparr>ic_numIRQChannels = 2, ic_badgeBaseBit = 1, ic_badgeTopBit = 2, ic_badgeMaskBits = 0x80000, ic_notifyAsyncEP = 7,
     ic_getIRQHandlerEndpoint = Some (\<lambda>irq. irq + 100)\<rparr>"

definition demo_regs :: "(nat \<times> nat \<times> nat) list" where
  "demo_regs = [(27, 500, 1), (28, 600, 2), (29, 700, 3)]"


text \<open>Without a mask no notification is ever taken for an interrupt.\<close>

lemma no_mask_no_interrupts:
  assumes "irq_inv B st" and "ic_badgeMaskBits (is_cfg st) = 0"
  shows "dev_dispatch_interrupt st badge = Some (SRV_DISPATCH_PASS, [])"
  using dispatch_spec [OF assms(1), of badge] assms(2) by simp

end
