(* ===== verification/Sync.thy ===== *)
theory Sync
  imports Walloc
begin

text \<open>
  The mutex of \<open>librefos\<close> (\<open>sync.c\<close>) on the asynchronous endpoint of the kernel (\<open>asyncendpoint.c\<close>), which it is built from.  The
  kernel part has the endpoint, the states of the threads and the register with the badge; which runnable thread runs next is left
  open, so the scheduling calls of the kernel have no counterpart.
\<close>

unbundle bit_operations_syntax

section \<open>The asynchronous endpoint\<close>

datatype aep_state = AEPState_Idle | AEPState_Waiting | AEPState_Active

datatype thread_state = ThreadState_Inactive | ThreadState_Running | ThreadState_Restart | ThreadState_BlockedOnReceive
  | ThreadState_BlockedOnSend | ThreadState_BlockedOnReply | ThreadState_BlockedOnAsyncEvent | ThreadState_RunningVM
  | ThreadState_IdleThreadState

text \<open>Threads are numbers; the queue is the list from its head on.\<close>

record kernel =
  aep_st :: aep_state
  aepQueue :: "nat list"
  aepMsgIdentifier :: nat
  aepBoundTCB :: "nat option"
  tsType :: "nat \<Rightarrow> thread_state"
  badgeRegister :: "nat \<Rightarrow> nat"

definition aep_set_active :: "nat \<Rightarrow> kernel \<Rightarrow> kernel" where
  "aep_set_active badge k = k\<lparr>aep_st := AEPState_Active, aepMsgIdentifier := badge\<rparr>"

definition setThreadState :: "nat \<Rightarrow> thread_state \<Rightarrow> kernel \<Rightarrow> kernel" where
  "setThreadState t ts k = k\<lparr>tsType := (tsType k)(t := ts)\<rparr>"

definition setBadge :: "nat \<Rightarrow> nat \<Rightarrow> kernel \<Rightarrow> kernel" where
  "setBadge t badge k = k\<lparr>badgeRegister := (badgeRegister k)(t := badge)\<rparr>"

text \<open>
  \<open>cancel\<close> is \<open>ipcCancel\<close>, which takes a thread off the queue of another endpoint, and \<open>leave\<close> is \<open>Arch_leaveVMAsyncTransfer\<close>.
\<close>

definition sendAsyncIPC :: "(nat \<Rightarrow> kernel \<Rightarrow> kernel) \<Rightarrow> (nat \<Rightarrow> kernel \<Rightarrow> kernel) \<Rightarrow> nat \<Rightarrow> kernel \<Rightarrow> kernel option" where
  "sendAsyncIPC cancel leave badge k =
     (case aep_st k of
        AEPState_Idle \<Rightarrow>
          (case aepBoundTCB k of
             Some tcb \<Rightarrow>
               (if tsType k tcb = ThreadState_BlockedOnReceive
                then Some (setBadge tcb badge (setThreadState tcb ThreadState_Running (cancel tcb k)))
                else if tsType k tcb = ThreadState_RunningVM
                then Some (leave tcb (setBadge tcb badge (setThreadState tcb ThreadState_Running k)))
                else Some (aep_set_active badge k))
           | None \<Rightarrow> Some (aep_set_active badge k))
      | AEPState_Waiting \<Rightarrow>
          (case aepQueue k of
             [] \<Rightarrow> None
           | dest # q \<Rightarrow>
               (let k = k\<lparr>aepQueue := q\<rparr>;
                    k = (if q = [] then k\<lparr>aep_st := AEPState_Idle\<rparr> else k)
                in Some (setBadge dest badge (setThreadState dest ThreadState_Running k))))
      | AEPState_Active \<Rightarrow> Some (k\<lparr>aepMsgIdentifier := aepMsgIdentifier k OR badge\<rparr>))"

definition doPollFailedTransfer :: "nat \<Rightarrow> kernel \<Rightarrow> kernel" where
  "doPollFailedTransfer t k = setBadge t 0 k"

definition receiveAsyncIPC :: "nat \<Rightarrow> bool \<Rightarrow> kernel \<Rightarrow> kernel" where
  "receiveAsyncIPC thread isBlocking k =
     (if aep_st k = AEPState_Active
      then (setBadge thread (aepMsgIdentifier k) k)\<lparr>aep_st := AEPState_Idle\<rparr>
      else if isBlocking
      then (setThreadState thread ThreadState_BlockedOnAsyncEvent k)\<lparr>aepQueue := aepQueue k @ [thread], aep_st := AEPState_Waiting\<rparr>
      else doPollFailedTransfer thread k)"

section \<open>The mutex\<close>

definition SYNC_ASYNC_BADGE_MAGIC :: nat where "SYNC_ASYNC_BADGE_MAGIC = 0x4188A"

definition proc_del_async_endpoint :: "nat \<Rightarrow> cspace \<Rightarrow> cspace option" where
  "proc_del_async_endpoint ep cs = csfree ep (cs\<lparr>cs_calls := cs_calls cs @ [CNode_Delete ep]\<rparr>)"

text \<open>The stub \<open>proc_new_async_endpoint_internal\<close> is an argument; the last component of a result is the error number.\<close>

type_synonym endpoint_stub = "cspace \<Rightarrow> (cspace \<times> nat \<times> refos_error) option"

definition proc_new_async_endpoint :: "endpoint_stub \<Rightarrow> endpoint_stub" where
  "proc_new_async_endpoint internal cs = do {
     (cs, tcap, errnoRetVal) \<leftarrow> internal cs;
     if errnoRetVal \<noteq> ESUCCESS \<or> tcap = 0 then Some (cs, 0, errnoRetVal)
     else Some (cs, tcap, ESUCCESS)
   }"

definition proc_new_async_endpoint_badged :: "endpoint_stub \<Rightarrow> bool \<Rightarrow> nat \<Rightarrow> endpoint_stub" where
  "proc_new_async_endpoint_badged internal mint_ok badge cs = do {
     (cs, tcap, err) \<leftarrow> proc_new_async_endpoint internal cs;
     if tcap = 0 then Some (cs, 0, err)
     else do {
       (cs, bgcap) \<leftarrow> csalloc cs;
       if bgcap = 0 then do { cs \<leftarrow> proc_del_async_endpoint tcap cs; Some (cs, 0, ENOMEM) }
       else do {
         let cs = cs\<lparr>cs_calls := cs_calls cs @ [CNode_Mint bgcap tcap badge]\<rparr>;
         cs \<leftarrow> proc_del_async_endpoint tcap cs;
         Some (if mint_ok then (cs, bgcap, ESUCCESS) else (cs, 0, EINVALID))
       }
     }
   }"

text \<open>
  The result has the capability the new mutex keeps; \<open>k\<close> has the new endpoint.  The library binds the endpoint of a mutex to no
  thread, so the two arguments of \<open>sendAsyncIPC\<close> for bound threads are not used.
\<close>

definition sync_create_mutex ::
  "bool \<Rightarrow> endpoint_stub \<Rightarrow> bool \<Rightarrow> kernel \<Rightarrow> cspace \<Rightarrow> (kernel \<times> cspace \<times> nat option) option" where
  "sync_create_mutex mem internal mint_ok k cs =
     (if \<not> mem then Some (k, cs, None)
      else do {
        (cs, mapping, err) \<leftarrow> proc_new_async_endpoint_badged internal mint_ok SYNC_ASYNC_BADGE_MAGIC cs;
        if err \<noteq> ESUCCESS \<or> mapping = 0 then Some (k, cs, None)
        else do {
          k \<leftarrow> sendAsyncIPC (\<lambda>_ k. k) (\<lambda>_ k. k) SYNC_ASYNC_BADGE_MAGIC k;
          Some (k, cs, Some mapping)
        }
      })"

definition sync_destroy_mutex :: "nat \<Rightarrow> cspace \<Rightarrow> cspace option" where
  "sync_destroy_mutex mapping cs = proc_del_async_endpoint mapping cs"

text \<open>\<open>sync_acquire\<close> in two parts: the system call, and what follows its return.\<close>

definition sync_acquire_wait :: "nat \<Rightarrow> kernel \<Rightarrow> kernel" where
  "sync_acquire_wait t k = receiveAsyncIPC t True k"

definition sync_acquire_return :: "nat \<Rightarrow> kernel \<Rightarrow> kernel option" where
  "sync_acquire_return t k = do { c_assert (badgeRegister k t = SYNC_ASYNC_BADGE_MAGIC); Some k }"

definition sync_release :: "kernel \<Rightarrow> kernel option" where
  "sync_release k = sendAsyncIPC (\<lambda>_ k. k) (\<lambda>_ k. k) SYNC_ASYNC_BADGE_MAGIC k"

definition sync_try_acquire :: "nat \<Rightarrow> kernel \<Rightarrow> kernel \<times> bool" where
  "sync_try_acquire t k =
     (let k = receiveAsyncIPC t False k in (k, badgeRegister k t = SYNC_ASYNC_BADGE_MAGIC))"

section \<open>Threads\<close>

text \<open>
  Any number of threads use the mutex in the way of a lock: a thread outside may acquire or try, one inside may release.  The steps of
  the threads are interleaved in any order; a thread that waits goes on when the kernel has made it runnable.
\<close>

datatype place = Outside | Acquiring | Inside

record sync_state =
  sy_kernel :: kernel
  sy_place :: "nat \<Rightarrow> place"

definition at_place :: "nat \<Rightarrow> place \<Rightarrow> kernel \<Rightarrow> sync_state \<Rightarrow> sync_state" where
  "at_place t p k s = s\<lparr>sy_kernel := k, sy_place := (sy_place s)(t := p)\<rparr>"

inductive sync_step :: "sync_state \<Rightarrow> sync_state \<Rightarrow> bool" where
  acquire: "sy_place s t = Outside \<Longrightarrow> sync_step s (at_place t Acquiring (sync_acquire_wait t (sy_kernel s)) s)"
| enter: "sy_place s t = Acquiring \<Longrightarrow> tsType (sy_kernel s) t = ThreadState_Running \<Longrightarrow>
    sync_acquire_return t (sy_kernel s) = Some k \<Longrightarrow> sync_step s (at_place t Inside k s)"
| release: "sy_place s t = Inside \<Longrightarrow> sync_release (sy_kernel s) = Some k \<Longrightarrow> sync_step s (at_place t Outside k s)"
| attempt: "sy_place s t = Outside \<Longrightarrow> sync_try_acquire t (sy_kernel s) = (k, b) \<Longrightarrow>
    sync_step s (at_place t (if b then Inside else Outside) k s)"

inductive_cases sync_stepE: "sync_step s s'"

text \<open>A new mutex, with every thread running outside.\<close>

definition sync_start :: "kernel \<Rightarrow> bool" where
  "sync_start k \<longleftrightarrow> aep_st k = AEPState_Idle \<and> aepQueue k = [] \<and> aepBoundTCB k = None \<and> (\<forall>t. tsType k t = ThreadState_Running)"

inductive sync_reach :: "sync_state \<Rightarrow> bool" where
  start: "sync_start k \<Longrightarrow> sync_create_mutex mem internal mint_ok k cs = Some (k', cs', Some m) \<Longrightarrow>
    sync_reach \<lparr>sy_kernel = k', sy_place = (\<lambda>_. Outside)\<rparr>"
| step: "sync_reach s \<Longrightarrow> sync_step s s' \<Longrightarrow> sync_reach s'"

section \<open>Invariant\<close>

text \<open>The threads that hold the mutex: those inside, and those the kernel has woken and that have not returned yet.\<close>

definition owners :: "sync_state \<Rightarrow> nat set" where
  "owners s = {t. sy_place s t = Inside \<or> sy_place s t = Acquiring \<and> tsType (sy_kernel s) t = ThreadState_Running}"

definition sync_inv :: "sync_state \<Rightarrow> bool" where
  "sync_inv s \<longleftrightarrow> (let k = sy_kernel s in
     aepBoundTCB k = None \<and> distinct (aepQueue k) \<and>
     set (aepQueue k) = {t. sy_place s t = Acquiring \<and> tsType k t = ThreadState_BlockedOnAsyncEvent} \<and>
     (\<forall>t. tsType k t = ThreadState_Running \<or> t \<in> set (aepQueue k)) \<and>
     (\<forall>t. sy_place s t = Acquiring \<longrightarrow> tsType k t = ThreadState_Running \<longrightarrow> badgeRegister k t = SYNC_ASYNC_BADGE_MAGIC) \<and>
     (aep_st k = AEPState_Waiting \<longleftrightarrow> aepQueue k \<noteq> []) \<and>
     (if aep_st k = AEPState_Active then owners s = {} \<and> aepMsgIdentifier k = SYNC_ASYNC_BADGE_MAGIC else \<exists>t. owners s = {t}))"

lemmas sync_ops = sync_acquire_wait_def sync_acquire_return_def sync_release_def sync_try_acquire_def receiveAsyncIPC_def
  sendAsyncIPC_def setBadge_def setThreadState_def aep_set_active_def doPollFailedTransfer_def at_place_def

lemma owners_at_place:
  "owners (at_place t p k s) = {x. if x = t then p = Inside \<or> p = Acquiring \<and> tsType k t = ThreadState_Running
     else sy_place s x = Inside \<or> sy_place s x = Acquiring \<and> tsType k x = ThreadState_Running}"
  by (auto simp: owners_def at_place_def)

lemma acquire_inv:
  assumes inv: "sync_inv s" and t: "sy_place s t = Outside"
  shows "sync_inv (at_place t Acquiring (sync_acquire_wait t (sy_kernel s)) s)"
proof (cases "aep_st (sy_kernel s) = AEPState_Active")
  case True
  have "t \<notin> set (aepQueue (sy_kernel s))" using inv t by (auto simp: sync_inv_def Let_def)
  then have run: "tsType (sy_kernel s) t = ThreadState_Running" using inv by (auto simp: sync_inv_def Let_def)
  have "owners (at_place t Acquiring (sync_acquire_wait t (sy_kernel s)) s) = {t}"
    using inv True run unfolding owners_at_place by (auto simp: sync_inv_def Let_def owners_def sync_ops)
  with inv True run t show ?thesis by (auto simp: sync_inv_def Let_def sync_ops)
next
  case False
  have q: "t \<notin> set (aepQueue (sy_kernel s))" using inv t by (auto simp: sync_inv_def Let_def)
  have "owners (at_place t Acquiring (sync_acquire_wait t (sy_kernel s)) s) = owners s"
    using False t unfolding owners_at_place by (auto simp: owners_def sync_ops)
  with inv False q t show ?thesis by (auto simp: sync_inv_def Let_def sync_ops)
qed

lemma enter_inv:
  assumes inv: "sync_inv s" and t: "sy_place s t = Acquiring" "tsType (sy_kernel s) t = ThreadState_Running"
    and k: "sync_acquire_return t (sy_kernel s) = Some k"
  shows "sync_inv (at_place t Inside k s)"
proof -
  have "k = sy_kernel s" using k by (cases "badgeRegister (sy_kernel s) t = SYNC_ASYNC_BADGE_MAGIC") (simp_all add: sync_acquire_return_def)
  moreover have "owners (at_place t Inside (sy_kernel s) s) = owners s"
    unfolding owners_at_place using t by (auto simp: owners_def)
  ultimately show ?thesis using inv t by (auto simp: sync_inv_def Let_def at_place_def)
qed

lemma release_inv:
  assumes inv: "sync_inv s" and t: "sy_place s t = Inside" and k: "sync_release (sy_kernel s) = Some k"
  shows "sync_inv (at_place t Outside k s)"
proof -
  have "t \<in> owners s" using t by (simp add: owners_def)
  then have o: "owners s = {t}" "aep_st (sy_kernel s) \<noteq> AEPState_Active"
    using inv by (auto simp: sync_inv_def Let_def split: if_splits)
  show ?thesis
  proof (cases "aepQueue (sy_kernel s)")
    case Nil
    then have k: "k = aep_set_active SYNC_ASYNC_BADGE_MAGIC (sy_kernel s)" "aep_st (sy_kernel s) = AEPState_Idle"
      using inv k o(2) by (auto simp: sync_inv_def Let_def sync_release_def sendAsyncIPC_def split: aep_state.splits)
    have "owners (at_place t Outside k s) = {}"
      using o(1) unfolding owners_at_place k(1) by (auto simp: owners_def aep_set_active_def)
    with inv Nil k t show ?thesis by (auto simp: sync_inv_def Let_def aep_set_active_def at_place_def)
  next
    case (Cons d q)
    let ?k = "setBadge d SYNC_ASYNC_BADGE_MAGIC (setThreadState d ThreadState_Running
      (if q = [] then (sy_kernel s)\<lparr>aepQueue := q, aep_st := AEPState_Idle\<rparr> else (sy_kernel s)\<lparr>aepQueue := q\<rparr>))"
    have k: "k = ?k" "aep_st (sy_kernel s) = AEPState_Waiting"
      using inv k Cons by (auto simp: sync_inv_def Let_def sync_release_def sendAsyncIPC_def)
    have "d \<in> set (aepQueue (sy_kernel s))" using Cons by simp
    then have a: "sy_place s d = Acquiring" using inv unfolding sync_inv_def Let_def by blast
    have "d \<noteq> t" using a t by auto
    moreover have "d \<notin> set q" using inv Cons by (simp add: sync_inv_def Let_def)
    ultimately have d: "sy_place s d = Acquiring" "d \<noteq> t" "d \<notin> set q" using a by simp_all
    have "owners (at_place t Outside k s) = {d}"
      using o(1) d unfolding owners_at_place k(1) by (auto simp: owners_def setBadge_def setThreadState_def)
    then have own: "owners (at_place t Outside k s) = {d}" .
    have q: "set q = {x. sy_place s x = Acquiring \<and> tsType (sy_kernel s) x = ThreadState_BlockedOnAsyncEvent} - {d}"
      using inv Cons d(3) by (auto simp: sync_inv_def Let_def)
    have f: "aepQueue k = q" "aep_st k = (if q = [] then AEPState_Idle else AEPState_Waiting)" "aepBoundTCB k = aepBoundTCB (sy_kernel s)"
      "tsType k = (tsType (sy_kernel s))(d := ThreadState_Running)"
      "badgeRegister k = (badgeRegister (sy_kernel s))(d := SYNC_ASYNC_BADGE_MAGIC)" "sy_place (at_place t Outside k s) = (sy_place s)(t := Outside)"
      "sy_kernel (at_place t Outside k s) = k"
      using k by (simp_all add: setBadge_def setThreadState_def at_place_def)
    have i: "aepBoundTCB (sy_kernel s) = None" "distinct q" "\<And>x. tsType (sy_kernel s) x = ThreadState_Running \<or> x \<in> set (d # q)"
      "\<And>x. sy_place s x = Acquiring \<Longrightarrow> tsType (sy_kernel s) x = ThreadState_Running \<Longrightarrow> badgeRegister (sy_kernel s) x = SYNC_ASYNC_BADGE_MAGIC"
    proof -
      show "aepBoundTCB (sy_kernel s) = None" "distinct q" using inv Cons by (simp_all add: sync_inv_def Let_def)
      show "tsType (sy_kernel s) x = ThreadState_Running \<or> x \<in> set (d # q)" for x
        using inv unfolding sync_inv_def Let_def Cons by blast
      show "badgeRegister (sy_kernel s) x = SYNC_ASYNC_BADGE_MAGIC"
        if "sy_place s x = Acquiring" "tsType (sy_kernel s) x = ThreadState_Running" for x
        using inv that unfolding sync_inv_def Let_def by blast
    qed
    show ?thesis
      unfolding sync_inv_def Let_def f own
    proof (intro conjI allI impI)
      show "set q = {x. ((sy_place s)(t := Outside)) x = Acquiring \<and>
          ((tsType (sy_kernel s))(d := ThreadState_Running)) x = ThreadState_BlockedOnAsyncEvent}"
        unfolding q using t by auto
    next
      fix x show "((tsType (sy_kernel s))(d := ThreadState_Running)) x = ThreadState_Running \<or> x \<in> set q" using i(3) [of x] by auto
    next
      fix x assume "((sy_place s)(t := Outside)) x = Acquiring" "((tsType (sy_kernel s))(d := ThreadState_Running)) x = ThreadState_Running"
      then show "((badgeRegister (sy_kernel s))(d := SYNC_ASYNC_BADGE_MAGIC)) x = SYNC_ASYNC_BADGE_MAGIC"
        using i(4) [of x] by (auto split: if_splits)
    qed (use i in auto)
  qed
qed

lemma try_inv:
  assumes inv: "sync_inv s" and t: "sy_place s t = Outside" and k: "sync_try_acquire t (sy_kernel s) = (k, b)"
  shows "sync_inv (at_place t (if b then Inside else Outside) k s)"
proof (cases "aep_st (sy_kernel s) = AEPState_Active")
  case True
  have q: "t \<notin> set (aepQueue (sy_kernel s))" using inv t by (auto simp: sync_inv_def Let_def)
  have b: "b" "k = (setBadge t SYNC_ASYNC_BADGE_MAGIC (sy_kernel s))\<lparr>aep_st := AEPState_Idle\<rparr>"
    using inv k True by (auto simp: sync_inv_def Let_def sync_try_acquire_def receiveAsyncIPC_def setBadge_def)
  have "owners (at_place t Inside k s) = {t}"
    using inv True unfolding owners_at_place b(2) by (auto simp: sync_inv_def Let_def owners_def setBadge_def)
  with inv True b q t show ?thesis by (auto simp: sync_inv_def Let_def setBadge_def at_place_def)
next
  case False
  have b: "\<not> b" "k = setBadge t 0 (sy_kernel s)"
    using k False by (auto simp: sync_try_acquire_def receiveAsyncIPC_def doPollFailedTransfer_def setBadge_def SYNC_ASYNC_BADGE_MAGIC_def Let_def)
  have "owners (at_place t Outside k s) = owners s"
    using t unfolding owners_at_place b(2) by (auto simp: owners_def setBadge_def)
  with inv False b t show ?thesis by (auto simp: sync_inv_def Let_def setBadge_def at_place_def)
qed

lemma start_inv:
  assumes k: "sync_start k" and c: "sync_create_mutex mem internal mint_ok k cs = Some (k', cs', Some m)"
  shows "sync_inv \<lparr>sy_kernel = k', sy_place = (\<lambda>_. Outside)\<rparr>"
proof -
  have "k' = aep_set_active SYNC_ASYNC_BADGE_MAGIC k"
    using k c by (auto simp: sync_create_mutex_def sync_start_def sendAsyncIPC_def bind_eq_Some_conv split: if_splits)
  with k show ?thesis by (auto simp: sync_inv_def Let_def sync_start_def aep_set_active_def owners_def)
qed

lemma sync_step_inv: "sync_step s s' \<Longrightarrow> sync_inv s \<Longrightarrow> sync_inv s'"
  by (induction rule: sync_step.induct) (simp_all only: acquire_inv enter_inv release_inv try_inv)

lemma sync_reach_inv: "sync_reach s \<Longrightarrow> sync_inv s"
  by (induction rule: sync_reach.induct) (blast intro: start_inv sync_step_inv)+

lemma sync_invD:
  assumes "sync_inv s"
  shows "\<And>t u. t \<in> owners s \<Longrightarrow> u \<in> owners s \<Longrightarrow> t = u"
    and "\<And>t. t \<in> owners s \<Longrightarrow> aep_st (sy_kernel s) \<noteq> AEPState_Active"
    and "owners s = {} \<Longrightarrow> aep_st (sy_kernel s) = AEPState_Active"
    and "aep_st (sy_kernel s) = AEPState_Waiting \<longleftrightarrow> aepQueue (sy_kernel s) \<noteq> []" and "aepBoundTCB (sy_kernel s) = None"
    and "\<And>t. sy_place s t = Outside \<Longrightarrow> tsType (sy_kernel s) t = ThreadState_Running"
  using assms by (auto simp: sync_inv_def Let_def split: if_splits)

text \<open>
  C27 (the mutex).  Threads acquire, try and release the mutex in any interleaving, on the kernel's asynchronous endpoint.  At most one
  thread is inside.  The assertion after the wait never fails, and a release always returns; it hands the mutex to the thread that
  has waited longest, and to nobody else, and without a waiter it leaves the mutex free.  While the mutex is free no thread waits,
  and the next one that acquires does not block.
\<close>

theorem mutex_exclusion:
  assumes r: "sync_reach s"
  shows "(\<forall>t u. sy_place s t = Inside \<longrightarrow> sy_place s u = Inside \<longrightarrow> t = u) \<and>
    (\<forall>t. sy_place s t = Acquiring \<longrightarrow> tsType (sy_kernel s) t = ThreadState_Running \<longrightarrow>
       sync_acquire_return t (sy_kernel s) = Some (sy_kernel s)) \<and>
    (\<forall>t. sy_place s t = Inside \<longrightarrow> (\<exists>k. sync_release (sy_kernel s) = Some k \<and>
       owners (at_place t Outside k s) = set (take 1 (aepQueue (sy_kernel s))) \<and> aepQueue k = drop 1 (aepQueue (sy_kernel s)) \<and>
       (aepQueue (sy_kernel s) = [] \<longrightarrow> aep_st k = AEPState_Active))) \<and>
    (owners s = {} \<longrightarrow> aepQueue (sy_kernel s) = [] \<and> (\<forall>t. sy_place s t = Outside \<longrightarrow>
       tsType (sync_acquire_wait t (sy_kernel s)) t = ThreadState_Running))"
proof -
  note inv = sync_reach_inv [OF r] and d = sync_invD [OF sync_reach_inv [OF r]]
  have "t = u" if "sy_place s t = Inside" "sy_place s u = Inside" for t u using d(1) [of t u] that by (simp add: owners_def)
  moreover have "sync_acquire_return t (sy_kernel s) = Some (sy_kernel s)"
    if "sy_place s t = Acquiring" "tsType (sy_kernel s) t = ThreadState_Running" for t
    using inv that by (simp add: sync_inv_def Let_def sync_acquire_return_def)
  moreover have "\<exists>k. sync_release (sy_kernel s) = Some k \<and> owners (at_place t Outside k s) = set (take 1 (aepQueue (sy_kernel s))) \<and>
      aepQueue k = drop 1 (aepQueue (sy_kernel s)) \<and> (aepQueue (sy_kernel s) = [] \<longrightarrow> aep_st k = AEPState_Active)"
    if t: "sy_place s t = Inside" for t
  proof -
    have o: "t \<in> owners s" using t by (simp add: owners_def)
    then have own: "owners s = {t}" using d(1) by blast
    show ?thesis
    proof (cases "aepQueue (sy_kernel s)")
      case Nil
      then have "aep_st (sy_kernel s) = AEPState_Idle" using d(2) [OF o] d(4) by (cases "aep_st (sy_kernel s)") auto
      then have "sync_release (sy_kernel s) = Some (aep_set_active SYNC_ASYNC_BADGE_MAGIC (sy_kernel s))"
        using d(5) by (simp add: sync_release_def sendAsyncIPC_def)
      moreover have "owners (at_place t Outside (aep_set_active SYNC_ASYNC_BADGE_MAGIC (sy_kernel s)) s) = {}"
        using own unfolding owners_at_place by (auto simp: owners_def aep_set_active_def)
      ultimately show ?thesis using Nil by (simp add: aep_set_active_def)
    next
      case (Cons w q)
      let ?k = "setBadge w SYNC_ASYNC_BADGE_MAGIC (setThreadState w ThreadState_Running
        (if q = [] then (sy_kernel s)\<lparr>aepQueue := q, aep_st := AEPState_Idle\<rparr> else (sy_kernel s)\<lparr>aepQueue := q\<rparr>))"
      have run: "sync_release (sy_kernel s) = Some ?k" using Cons d(4) by (simp add: sync_release_def sendAsyncIPC_def Let_def)
      have "w \<in> set (aepQueue (sy_kernel s))" using Cons by simp
      then have "sy_place s w = Acquiring" using inv unfolding sync_inv_def Let_def by blast
      then have "owners (at_place t Outside ?k s) = {w}"
        using own t unfolding owners_at_place by (auto simp: owners_def setBadge_def setThreadState_def)
      with run Cons show ?thesis by (simp add: setBadge_def setThreadState_def)
    qed
  qed
  moreover have "aepQueue (sy_kernel s) = []" "tsType (sync_acquire_wait t (sy_kernel s)) t = ThreadState_Running"
    if "owners s = {}" "sy_place s t = Outside" for t
    using d(3) [OF that(1)] d(4) d(6) [OF that(2)] by (auto simp: sync_acquire_wait_def receiveAsyncIPC_def setBadge_def)
  moreover have "aepQueue (sy_kernel s) = []" if "owners s = {}" using d(3) [OF that] d(4) by auto
  ultimately show ?thesis by blast
qed

definition demo_kernel :: kernel where
  "demo_kernel = \<lparr>aep_st = AEPState_Idle, aepQueue = [], aepMsgIdentifier = 0, aepBoundTCB = None,
     tsType = (\<lambda>_. ThreadState_Running), badgeRegister = (\<lambda>_. 0)\<rparr>"

text \<open>A stub that answers with the capability in slot 5, and three free slots.\<close>

definition demo_stub_ep :: endpoint_stub where "demo_stub_ep cs = Some (cs, 5, ESUCCESS)"

definition demo_cspace :: cspace where
  "demo_cspace = \<lparr>cspaceFreeList = Some [6, 7, 8, 0], cspaceFreeListNum = 3, cspaceStaticAllocated = False, cs_calls = []\<rparr>"

text \<open>Thread 1 is inside, thread 2 waits.\<close>

definition demo_sync :: sync_state where
  "demo_sync =
     (let k0 = aep_set_active SYNC_ASYNC_BADGE_MAGIC demo_kernel;
          s0 = \<lparr>sy_kernel = k0, sy_place = (\<lambda>_. Outside)\<rparr>;
          s1 = at_place 1 Acquiring (sync_acquire_wait 1 k0) s0;
          s2 = at_place 2 Acquiring (sync_acquire_wait 2 (sy_kernel s1)) s1
      in at_place 1 Inside (sy_kernel s2) s2)"

lemma demo_sync_reach: "sync_reach demo_sync"
proof -
  let ?k = "aep_set_active SYNC_ASYNC_BADGE_MAGIC demo_kernel"
  let ?s0 = "\<lparr>sy_kernel = ?k, sy_place = (\<lambda>_. Outside)\<rparr>"
  let ?s1 = "at_place 1 Acquiring (sync_acquire_wait 1 ?k) ?s0"
  let ?s2 = "at_place 2 Acquiring (sync_acquire_wait 2 (sy_kernel ?s1)) ?s1"
  have "\<exists>cs. sync_create_mutex True demo_stub_ep True demo_kernel demo_cspace = Some (?k, cs, Some 8)"
    by (simp add: sync_create_mutex_def proc_new_async_endpoint_badged_def proc_new_async_endpoint_def proc_del_async_endpoint_def
        demo_stub_ep_def csalloc_def csfree_def demo_cspace_def demo_kernel_def sendAsyncIPC_def)
  moreover have "sync_start demo_kernel" by (simp add: sync_start_def demo_kernel_def)
  ultimately have "sync_reach ?s0" using sync_reach.start by blast
  then have "sync_reach ?s1" using sync_step.acquire [of ?s0 1] by (auto intro: sync_reach.step)
  then have "sync_reach ?s2" using sync_step.acquire [of ?s1 2] by (auto intro: sync_reach.step simp: at_place_def)
  moreover have "sync_step ?s2 (at_place 1 Inside (sy_kernel ?s2) ?s2)"
    by (rule sync_step.enter) (simp_all add: sync_ops demo_kernel_def)
  ultimately show ?thesis by (auto simp: demo_sync_def Let_def intro: sync_reach.step)
qed

theorem mutex_exclusion_witness:
  "sync_reach demo_sync \<and> sy_place demo_sync 1 = Inside \<and> aepQueue (sy_kernel demo_sync) = [2] \<and>
   (\<exists>k. sync_release (sy_kernel demo_sync) = Some k \<and> owners (at_place 1 Outside k demo_sync) = {2})"
proof -
  have d: "sy_place demo_sync 1 = Inside" "aepQueue (sy_kernel demo_sync) = [2]"
    by (simp_all add: demo_sync_def Let_def sync_ops demo_kernel_def)
  from mutex_exclusion [OF demo_sync_reach, THEN conjunct2, THEN conjunct2, THEN conjunct1, rule_format, OF d(1)] obtain k where
    k: "sync_release (sy_kernel demo_sync) = Some k" "owners (at_place 1 Outside k demo_sync) = set (take 1 (aepQueue (sy_kernel demo_sync)))"
    by (elim exE conjE) (rule that; assumption)
  from k(2) have "owners (at_place 1 Outside k demo_sync) = {2}" unfolding d(2) by simp
  with d k(1) demo_sync_reach show ?thesis by (intro conjI exI [of _ k])
qed

end
