(* ===== verification/Spec2Isabelle.thy ===== *)
theory Spec2Isabelle
  imports Cqueue Cbpool Proc_Server Port Nameserv Proc_Syscall Memserv_Calls Apex Share Rpc Device_Irq Sync
begin

text \<open>
  Partitioned RefOS on seL4: a verification of the process server and of the library of data
  structures it is built on.

  \<^bold>\<open>The program.\<close>  RefOS runs on the seL4 microkernel.  Its process server
  (\<open>src/projects/refos/impl/apps/process_server/src\<close>) owns all memory: it creates processes with their
  address spaces and threads, hands out memory as dataspaces and windows, answers page faults and
  keeps the names of the other servers.  This repository adds an ARINC-653 style partition layer
  (\<open>system/partition\<close>): a static configuration of partitions, a cyclic schedule of slots with
  round-robin inside a slot, and sampling ports.  A timer tick and the messages of the clients
  drive the server; each message goes to one handler of \<open>dispatchers\<close>, and an action after the
  reply removes a process that asked to exit.  The containers are those of \<open>libdatastruct\<close>.

  \<^bold>\<open>Conventions.\<close>  A C function is a function that returns \<open>None\<close> when the code would stop: a failed
  assertion (\<open>c_assert\<close>), an access out of bounds (\<open>rd\<close>, \<open>wr\<close>), a read through a null pointer or a freed
  object.  Error codes are values of the result.  Unsigned C integers are natural numbers with the
  wrap-around written out (\<open>u8\<close>, \<open>u32\<close>, \<open>u64\<close>, \<open>u32i\<close>), signed ones are integers (\<open>s32\<close>).  What the
  allocators, the loader and the kernel answer is an argument of the operation, and the calls on
  capabilities and threads are a trace in the state.  \<open>Prelude\<close> holds these conventions, the
  loops (\<open>for_each\<close>, \<open>for_find\<close>) and the shared lemmas, \<open>Interfaces\<close> the locales: a vector, a
  pool of identifiers, a bounded queue, a key store and a cyclic slot table,
  each interpreted on the model's own operations where they are defined.

  \<^bold>\<open>Containers.\<close>  \<open>Cvector\<close>, \<open>Cqueue\<close>, \<open>Cpool\<close>, \<open>Cbpool\<close>, \<open>Chash\<close> and \<open>Coat\<close> model the files of the same names.  Each
  refines its abstract counterpart: list, bounded queue, set of identifiers, bitmap, finite map, table of objects.

  \<^bold>\<open>Partition layer.\<close>  \<open>Deployment\<close> has the configuration and the structures of \<open>deployment.h\<close>, \<open>partition.h\<close> and \<open>sched.h\<close>,
  \<open>Sched\<close> the scheduler (\<open>sched.c\<close>), \<open>Partition\<close> initialisation, mode changes and thread creation
  (\<open>partition.c\<close>, \<open>partinit.c\<close>), \<open>Proc_Server\<close> the message loop (\<open>main.c\<close>), \<open>Port\<close> the sampling ports
  (\<open>port.c\<close>).  The state is the record \<open>sched_state\<close>; \<open>reach n s\<close> holds of the states after \<open>n\<close> ticks with any
  messages between them.  The theorems below show that the schedule is the configured one, that at
  most the current thread runs, that a message touches only the partition of its sender and that a
  tick always returns; \<open>n + 4000 < 2 ^ 64\<close> keeps the tick counter from wrapping.

  \<^bold>\<open>Memory server.\<close>  \<open>Refos\<close> has the error codes, the page arithmetic and the badges (\<open>badge.h\<close>), \<open>Dataspace\<close> the pages and
  the content initialisation of \<open>dataspace.c\<close>, \<open>Ringbuffer\<close> \<open>ringbuffer.c\<close>, \<open>Window_Assoc\<close> the window lists of
  \<open>window.c\<close>, \<open>Pagedir\<close> \<open>pagedir.c\<close>, \<open>Pid\<close> \<open>pid.c\<close>, \<open>Watch\<close> \<open>proc_client_watch.c\<close>.  \<open>Memserv\<close> puts the tables of dataspaces,
  windows and processes together in the record \<open>memserv\<close>; \<open>Memserv_Refs\<close> proves that reference counts are exact
  (\<open>ms_inv\<close>) and that the operations keep them.  Deleting a dataspace empties its windows, which drops
  references, so the code is recursive; the model bounds the nesting by 2, and \<open>unref_depth\<close> shows that on
  states of the invariant the bound does not matter.  \<open>Transfers\<close> shows that every transfer returns, for
  dataspaces of fewer than \<open>2 ^ 20\<close> pages, which is every dataspace a 32-bit size describes.

  \<^bold>\<open>Handlers.\<close>  \<open>Data_Syscall\<close> (\<open>dispatcher.c\<close>, \<open>data_syscall.c\<close>), \<open>Vspace\<close> (\<open>vspace.c\<close>), \<open>Mem_Syscall\<close> (\<open>mem_syscall.c\<close>), \<open>Fault\<close>
  (\<open>fault_handler.c\<close>), \<open>Nameserv\<close> (\<open>name_syscall.c\<close> and \<open>nameserv.c\<close> of \<open>librefos\<close>), \<open>Process\<close> (\<open>process.c\<close>, \<open>thread.c\<close>, the set-up
  and release of \<open>vspace.c\<close>), \<open>Process_Exit\<close> and \<open>Proc_Syscall\<close> (\<open>proc_syscall.c\<close>).  Closing a dataspace leaves no
  reference to it; a fault maps the right page; a registered name resolves; the exit of a process
  completes, releases what it held and leaves the others alone, after any sequence of process
  calls.  \<open>Memserv_Calls\<close> has the step relation of the dataspace and window calls and shows the reference counts exact
  after any sequence of them; the calls that resize a window or map pages are not among its steps.

  \<^bold>\<open>Client side.\<close>  \<open>Apex\<close> is the library \<open>libapex\<close> that the partitions' processes call: each service with its guards, its return
  code and the message it sends.  The generated stubs of its queries are an argument (\<open>apex_rpc\<close>); \<open>server_rpc\<close> puts the handlers of
  \<open>Proc_Syscall\<close> behind them, and \<open>apex_step\<close> runs the scheduler under ticks, thread creation and the library's messages.
  A thread that was suspended this way never runs again.  From \<open>librefos\<close>, \<open>Share\<close> has the ring buffer two processes share
  (\<open>share.c\<close>) and \<open>Walloc\<close> the allocators of capability slots and of windows (\<open>cspace.c\<close>, \<open>walloc.c\<close>); they refine a bounded
  queue of bytes and a map of disjoint windows.  \<open>Rpc\<close> is the backend of the generated stubs (\<open>rpc.c\<close>, \<open>rpc_refos.c\<close>): the arguments a
  client packs into the message registers are those the server unpacks.  \<open>Device_Irq\<close> (\<open>device_irq.c\<close>) spreads interrupts over
  channels and calls their handlers; \<open>Sync\<close> (\<open>sync.c\<close>) is the mutex, on the asynchronous endpoint of the kernel
  (\<open>asyncendpoint.c\<close>): under any interleaving of the threads at most one is inside.

  \<^bold>\<open>Flaws.\<close>  Where the code does not do what it means to, the theorem states what it does:
  a sampling port is never read successfully, thread creation reads past its tables, the permissions of a window
  are ignored, the last identifier of an object table cannot be used, no thread can be resumed or started.

  \<^bold>\<open>Not modelled.\<close>  The seL4 kernel, but for its asynchronous endpoint, and its libraries, the C library, the ELF and CPIO libraries and libvterm are not this
  program's code; the boot-time set-up of the allocators (\<open>state.c\<close>, \<open>main.c\<close>) only calls them.  The client side
  (the rest of \<open>librefos\<close>, \<open>librefossys\<close>) sets up connections and wraps the generated stubs; the console, file and timer servers are
  separate processes; the games and the tests are left out.  Processors other than the ARM board KZM
  (I/O ports of the PC) are not modelled, and names that are only printed are dropped.
\<close>

section \<open>Concrete inputs for the witnesses\<close>

definition demo_load :: loader where
  "demo_load = (\<lambda>name prio args parent perms. 0)"

definition demo_tcb :: tcb_table where
  "demo_tcb p t = Some (100 * p + t + 1)"

definition demo_state :: sched_state where
  "demo_state = the (system_init demo_load demo_tcb boot_state)"

lemma demo_boot: "system_init demo_load demo_tcb boot_state = Some demo_state"
  using system_init_inv [where load = demo_load and tcb = demo_tcb and c = 301 and d = 401]
  by (auto simp: demo_state_def demo_tcb_def demo_load_def loads_ok_def)

lemma demo_reach: "reach 0 demo_state"
  using reach.boot [of demo_load demo_tcb 301 401 demo_state] demo_boot
  by (simp add: demo_tcb_def demo_load_def loads_ok_def)

text \<open>
  C1 (time partitioning).  In every state reachable after \<open>n\<close> timer ticks, whatever messages
  were handled between them, the current partition is the one the slot table gives to time
  \<open>n\<close>, and the slot, its deadline and the end of the major frame are those of time \<open>n\<close>.
\<close>

theorem time_partitioning:
  assumes "reach n s" and "n + 4000 < 2 ^ 64"
  shows "current_partition s = pok_sched_slots_allocation ! (n div 1000 mod 2) \<and>
    current_slot s = n div 1000 mod 2 \<and> next_deadline s = (n div 1000 + 1) * 1000 \<and>
    next_major_frame s = (n div 2000 + 1) * 2000"
  using reach_sys_inv [OF assms(1)] assms(2) by (simp add: sys_inv_def timeline_def)

theorem time_partitioning_witness:
  "reach 0 demo_state \<and> current_partition demo_state = 0 \<and> next_deadline demo_state = 1000"
  using demo_reach time_partitioning [OF demo_reach] by (simp add: pok_sched_slots_allocation_def)


text \<open>
  C3 (isolation).  Handling a message, the creation of a thread included, changes neither the
  record of a partition that is not current nor the record of any of its threads.
\<close>

theorem partition_isolation:
  assumes "reach n s" and "n + 4000 < 2 ^ 64"
    and "dispatch = dispatch_none \<or> dispatch = dispatch_clone tcb"
    and "proc_server_handle_message dispatch msg s = Some s'"
    and "q < POK_CONFIG_NB_PARTITIONS" and "q \<noteq> current_partition s"
  shows "part_array s' ! q = part_array s ! q \<and>
    (\<forall>j \<in> thread_ids q. proc_array s' ! j = proc_array s ! j)"
proof -
  note inv = reach_sys_inv [OF assms(1)]
  have "part_untouched q s t" if "dispatch s = Some t" for t
    using that assms(3,5,6) create_isolation [OF inv] part_untouched_refl [of q s]
    by (auto simp: dispatch_none_def)
  from message_isolation [OF inv assms(2,4-6) this] show ?thesis by (simp add: part_untouched_def)
qed

definition stop_msg :: message where
  "stop_msg = \<lparr>mr0 = SYS_STOP_SELF, mr1 = 0, mr2 = 0\<rparr>"

definition demo_stopped :: sched_state where
  "demo_stopped = the (proc_server_handle_message dispatch_none stop_msg demo_state)"

lemma demo_stop: "proc_server_handle_message dispatch_none stop_msg demo_state = Some demo_stopped"
  using handle_message_total [OF reach_sys_inv [OF demo_reach], of dispatch_none stop_msg]
    reach_sys_inv [OF demo_reach]
  by (auto simp: dispatch_none_def demo_stopped_def stop_msg_def sys_labels)

lemma demo_current: "current_partition demo_state = 0"
  using reach_sys_inv [OF demo_reach]
  by (simp add: sys_inv_def timeline_def pok_sched_slots_allocation_def)

theorem partition_isolation_witness:
  "proc_server_handle_message dispatch_none stop_msg demo_state = Some demo_stopped \<and>
   proc_array demo_stopped ! 2 = proc_array demo_state ! 2"
  using demo_stop partition_isolation [OF demo_reach _ _ demo_stop, of demo_tcb 1]
  by (simp add: demo_current POK_CONFIG_NB_PARTITIONS_def)


section \<open>A running system for the witnesses\<close>

text \<open>
  Partition 0 in mode \<open>mode\<close> at time 0, with the elected thread \<open>cur\<close>; thread 1 has \<open>rem\<close> ticks
  of its budget left.
\<close>

definition run_part :: "pok_partition_mode_t \<Rightarrow> nat \<Rightarrow> nat \<Rightarrow> partition" where
  "run_part mode cur i = zero_partition\<lparr>part_index := i, part_mode := mode, part_low := cfg_low i,
     part_high := cfg_high i, part_nthreads := POK_CONFIG_PARTITIONS_NTHREADS ! i,
     part_thread_index := 1, part_sched := POK_SCHED_RR, part_sched_func := Fn_pok_sched_part_rr,
     part_thread_main := main_array ! i, part_prev_thread := main_array ! i,
     part_current_thread := (if i = 0 then cur else IDLE_THREAD)\<rparr>"

definition run_state :: "pok_partition_mode_t \<Rightarrow> nat \<Rightarrow> nat \<Rightarrow> sched_state" where
  "run_state mode cur rem = \<lparr>part_array = map (run_part mode cur) [0..<POK_CONFIG_NB_PARTITIONS],
     proc_array = (replicate (POK_CONFIG_NB_THREADS + 2) zero_process)
       [1 := zero_process\<lparr>proc_status := POK_STATE_RUNNABLE, proc_remaining := rem, proc_timecap := rem,
               proc_period := 1000, proc_ktcb := 401\<rparr>],
     current_partition = 0, pok_tick_counter = 0, next_deadline = 1000, next_major_frame = 2000,
     current_slot = 0, current_thread = cur, kcalls = []\<rparr>"

lemma run_state_inv:
  assumes "init_mode mode \<and> cur = 0 \<or> mode = PART_MODE_NORMAL \<and> cur < 2"
  shows "sys_inv 0 (run_state mode cur rem)"
proof -
  let ?s = "run_state mode cur rem"
  have parts: "part_ok i (run_part mode cur i)" if "i < POK_CONFIG_NB_PARTITIONS" for i
    using assms partition_cases [OF that]
    by (auto simp: part_ok_def run_part_def main_array_def IDLE_THREAD_def)
  have "sched_inv ?s"
    using parts assms
    by (auto simp: sched_inv_def run_state_def running_ok_def idle_ok_def IDLE_THREAD_def
        zero_process_def POK_CONFIG_NB_THREADS_def POK_CONFIG_NB_PARTITIONS_def run_part_def main_array_def init_mode_def)
  moreover have "only_current ?s" by (simp add: only_current_def active_tcbs_def run_state_def)
  moreover have "timeline 0 ?s" by (simp add: timeline_def run_state_def pok_sched_slots_allocation_def)
  ultimately show ?thesis by (simp add: sys_inv_def run_state_def)
qed

lemma run_state_fields [simp]:
  "current_thread (run_state mode cur rem) = cur" "current_partition (run_state mode cur rem) = 0"
  "part_array (run_state mode cur rem) ! 0 = run_part mode cur 0"
  "part_mode (run_part mode cur i) = mode" "part_thread_main (run_part mode cur i) = main_array ! i"
  "proc_remaining (proc_array (run_state mode cur rem) ! 1) = rem"
  by (simp_all add: run_state_def run_part_def POK_CONFIG_NB_PARTITIONS_def POK_CONFIG_NB_THREADS_def)

text \<open>
  C4 (the scheduler makes progress).  From every reachable state the next timer tick returns a
  scheduling decision, so the loops of the election and of the round-robin policy end, and the
  system goes on in a reachable state.
\<close>

theorem scheduler_progress:
  assumes "reach n s"
  shows "\<exists>s'. scheduler_tick s = Some s' \<and> reach (Suc n) s'"
  using sys_inv_tick [OF reach_sys_inv [OF assms]] reach.tick [OF assms] by blast


text \<open>
  C8 (change of mode).  \<open>pok_partition_set_mode\<close> refuses every mode but normal and every caller
  but the main thread, with the state unchanged; otherwise it answers \<open>OK\<close>, keeps the invariant,
  leaves the partition in normal mode and does not touch any other partition.
\<close>

theorem set_mode_spec:
  assumes inv: "sys_inv n s" and n: "n + 4000 < 2 ^ 64"
  shows "if mode = PART_MODE_NORMAL \<and> current_thread s = part_thread_main (part_array s ! current_partition s)
    then \<exists>s'. pok_partition_set_mode (current_partition s) mode s = Some (s', POK_ERRNO_OK) \<and> sys_inv n s' \<and>
      part_mode (part_array s' ! current_partition s) = PART_MODE_NORMAL \<and>
      (\<forall>q < POK_CONFIG_NB_PARTITIONS. q \<noteq> current_partition s \<longrightarrow> part_untouched q s s')
    else pok_partition_set_mode (current_partition s) mode s = Some (s, POK_ERRNO_PARTITION_MODE)"
proof -
  let ?p = "current_partition s"
  have si: "sched_inv s" using inv by (simp add: sys_inv_def)
  have "\<exists>s'. pok_partition_set_mode ?p PART_MODE_NORMAL s = Some (s', POK_ERRNO_OK) \<and> sys_inv n s' \<and>
      part_mode (part_array s' ! ?p) = PART_MODE_NORMAL \<and>
      (\<forall>q < POK_CONFIG_NB_PARTITIONS. q \<noteq> ?p \<longrightarrow> part_untouched q s s')"
    if main: "current_thread s = part_thread_main (part_array s ! ?p)"
  proof -
    from set_mode_prepared [OF inv main] obtain t where
      t: "\<And>s'. pok_sched t = Some s' \<Longrightarrow> pok_partition_set_mode ?p PART_MODE_NORMAL s = Some (s', POK_ERRNO_OK)"
        "sys_inv n t" "current_partition t = ?p" "part_mode (part_array t ! ?p) = PART_MODE_NORMAL"
        "\<forall>q < POK_CONFIG_NB_PARTITIONS. q \<noteq> ?p \<longrightarrow> part_untouched q s t" by blast
    from sys_inv_sched [OF t(2)] obtain s' where s': "pok_sched t = Some s'" "sys_inv n s'" by blast
    have ti: "sched_inv t" "timeline (pok_tick_counter t) t" using t(2) n by (simp_all add: sys_inv_def)
    have "part_untouched q s s'" if "q < POK_CONFIG_NB_PARTITIONS" "q \<noteq> ?p" for q
      using that t(3,5) pok_sched_isolation [OF ti s'(1), of q] part_untouched_trans by metis
    with t(1) [OF s'(1)] t(4) s'(2) pok_sched_mode [OF ti(1) s'(1)] show ?thesis by metis
  qed
  with set_mode_refused [OF si, of mode ?p] show ?thesis by auto
qed

theorem set_mode_spec_witness:
  "\<exists>s'. pok_partition_set_mode 0 PART_MODE_NORMAL (run_state PART_MODE_COLD_START 0 5) = Some (s', POK_ERRNO_OK)"
  using set_mode_spec [OF run_state_inv [of PART_MODE_COLD_START 0 5], of PART_MODE_NORMAL]
  by (auto simp: init_mode_def main_array_def)

text \<open>
  C6 (work conservation).  A decision in a partition in normal mode elects a thread of the
  partition that can run; it elects the idle thread only when no thread of the partition can.
\<close>

theorem work_conserving:
  assumes "sys_inv n s" and "scheduler_tick s = Some s'"
    and "part_mode (part_array s ! current_partition s') = PART_MODE_NORMAL"
  shows "if current_thread s' = IDLE_THREAD
    then \<forall>j \<in> thread_ids (current_partition s'). \<not> runnable (proc_array s') j
    else current_thread s' \<in> thread_ids (current_partition s') \<and>
      runnable (proc_array s') (current_thread s')"
proof -
  let ?t = "s\<lparr>pok_tick_counter := u64 (pok_tick_counter s + 1)\<rparr>"
  have "sched_inv s" using assms(1) by (simp add: sys_inv_def)
  then have t: "sched_inv ?t" by (subst sched_inv_cong [of ?t s]) simp_all
  have "sched_inv s'" using sys_inv_tick [OF assms(1)] assms(2) by (auto simp: sys_inv_def)
  with pok_sched_elects_runnable [OF t] assms(2,3) show ?thesis
    by (auto simp: scheduler_tick_def sched_inv_def running_ok_def Let_def)
qed

text \<open>
  A thread that stops itself is charged for the running tick
  before the next decision: with at most one tick of budget left it ends up waiting for its next
  activation, which wakes it up again, instead of stopped.
\<close>

theorem stop_self_lost:
  assumes "sys_inv n s" and "n + 4000 < 2 ^ 64"
    and "mr0 msg = SYS_STOP_SELF \<or> mr0 msg = SYS_SUSPEND_SELF"
    and "part_mode (part_array s ! current_partition s) = PART_MODE_NORMAL"
    and "current_thread s \<noteq> IDLE_THREAD"
    and "current_thread s \<noteq> part_thread_main (part_array s ! current_partition s)"
  shows "\<exists>s'. proc_server_handle_message dispatch_none msg s = Some s' \<and>
    proc_status (proc_array s' ! current_thread s) =
      (if proc_remaining (proc_array s ! current_thread s) \<le> 1
       then POK_STATE_WAIT_NEXT_ACTIVATION else POK_STATE_STOPPED)"
proof -
  have "mr0 msg \<noteq> SYS_SET_PARTITION_MODE" using assms(3) by (auto simp: sys_labels)
  with handle_message_total [OF assms(1), of dispatch_none msg] assms(1) obtain s' where
    "proc_server_handle_message dispatch_none msg s = Some s'" by (auto simp: dispatch_none_def)
  with stop_self_status [OF assms this] show ?thesis by blast
qed

theorem stop_self_lost_witness:
  "\<exists>s'. proc_server_handle_message dispatch_none \<lparr>mr0 = SYS_STOP_SELF, mr1 = 0, mr2 = 0\<rparr>
      (run_state PART_MODE_NORMAL 1 1) = Some s' \<and>
    proc_status (proc_array s' ! 1) = POK_STATE_WAIT_NEXT_ACTIVATION"
  using stop_self_lost [OF run_state_inv [of PART_MODE_NORMAL 1 1],
      of "\<lparr>mr0 = SYS_STOP_SELF, mr1 = 0, mr2 = 0\<rparr>"] run_state_fields(6) [of PART_MODE_NORMAL 1 1]
  by (auto simp: main_array_def IDLE_THREAD_def POK_CONFIG_NB_THREADS_def)

text \<open>
  C9 (creation of a thread).  A thread is created only in a partition that is starting up.  The new
  thread is one of the partition, it is not the running thread, it can run as soon as it is elected
  but its TCB is suspended, and nothing else changes but the number of threads; a refused creation
  changes nothing.
\<close>

theorem create_spec:
  assumes "sys_inv n s" and "p < POK_CONFIG_NB_PARTITIONS"
    and "pok_partition_thread_create tcb p s = Some (s', ret, r)"
  shows "sys_inv n s' \<and>
    (if ret = POK_ERRNO_OK
     then \<exists>i c. r = Some i \<and> i \<in> thread_ids p \<and> i \<noteq> current_thread s \<and>
       init_mode (part_mode (part_array s ! p)) \<and> runnable (proc_array s') i \<and>
       kcalls s' = kcalls s @ [TCB_Suspend c] \<and> proc_ktcb (proc_array s' ! i) = c \<and>
       (\<forall>j. j \<noteq> i \<longrightarrow> proc_array s' ! j = proc_array s ! j) \<and>
       (\<forall>q. q \<noteq> p \<longrightarrow> part_array s' ! q = part_array s ! q)
     else s' = s \<and> r = None)"
proof -
  have si: "sched_inv s" using assms(1) by (simp add: sys_inv_def)
  show ?thesis
  proof (cases rule: create_cases [OF si assms(2,3)])
    case 1
    with assms(1) show ?thesis by auto
  next
    case (2 i c)
    have "i < length (proc_array s)"
      using thread_ids_bound [OF assms(2) 2(3)] sched_invD(2) [OF si] by simp
    with 2(1-3,5,7) sys_inv_create [OF assms] show ?thesis
      unfolding 2(8) by (simp add: runnable_def created_def)
  qed
qed

text \<open>
  The guard of the creation counts from the wrong thread.  It compares the number of
  threads of the partition, counted from its first thread, with the number of its last thread,
  counted from thread 0.  In a partition that does not start at thread 0 it lets a creation through
  whose index lies behind the configuration tables.
\<close>

theorem create_reads_past_tables:
  assumes "sched_inv s" and "p < POK_CONFIG_NB_PARTITIONS"
    and "init_mode (part_mode (part_array s ! p))"
    and "part_thread_index (part_array s ! p) = POK_CONFIG_PARTITIONS_NTHREADS ! p"
  shows "pok_partition_thread_create tcb p s =
    (if p = 0 then Some (s, POK_ERRNO_TOOMANY, None) else None)"
proof -
  have ok: "part_ok p (part_array s ! p)" by (rule sched_invD(3) [OF assms(1,2)])
  note cfg = cfg_low_def cfg_high_def POK_CONFIG_PARTITIONS_NTHREADS_def POK_CONFIG_NB_THREADS_def
  from partition_cases [OF assms(2)] show ?thesis
  proof
    assume "p = 0"
    with ok assms sched_invD(1) [OF assms(1)] show ?thesis
      by (simp add: create_refused(2) part_ok_def cfg)
  next
    assume "p = 1"
    with ok assms(4) create_out_of_table [OF assms(1-3)] show ?thesis by (simp add: part_ok_def cfg)
  qed
qed

theorem create_reads_past_tables_witness:
  "pok_partition_thread_create demo_tcb 1
     (run_state PART_MODE_COLD_START 0 5\<lparr>part_array := map (\<lambda>i. (run_part PART_MODE_COLD_START 0 i)
        \<lparr>part_thread_index := POK_CONFIG_PARTITIONS_NTHREADS ! i\<rparr>) [0..<POK_CONFIG_NB_PARTITIONS]\<rparr>) = None"
proof -
  let ?s = "run_state PART_MODE_COLD_START 0 5"
  let ?t = "?s\<lparr>part_array := map (\<lambda>i. (run_part PART_MODE_COLD_START 0 i)
     \<lparr>part_thread_index := POK_CONFIG_PARTITIONS_NTHREADS ! i\<rparr>) [0..<POK_CONFIG_NB_PARTITIONS]\<rparr>"
  have "sched_inv ?s" using run_state_inv [of PART_MODE_COLD_START 0 5] by (simp add: init_mode_def sys_inv_def)
  then have "sched_inv ?t"
    by (auto simp: sched_inv_def part_ok_def running_ok_def run_state_def POK_CONFIG_NB_PARTITIONS_def
        POK_CONFIG_PARTITIONS_NTHREADS_def less_Suc_eq numeral_2_eq_2)
  from create_reads_past_tables [OF this, of 1 demo_tcb] show ?thesis
    by (simp add: POK_CONFIG_NB_PARTITIONS_def run_part_def init_mode_def)
qed

lemma create_run:
  "\<exists>s'. pok_partition_thread_create demo_tcb 0 (run_state PART_MODE_COLD_START 0 5) =
     Some (s', POK_ERRNO_OK, Some 1)"
proof -
  let ?s = "run_state PART_MODE_COLD_START 0 5"
  have "part_thread_index (part_array ?s ! 0) = 1" "part_low (part_array ?s ! 0) = 0"
    "part_high (part_array ?s ! 0) = 1" "length (part_array ?s) = 2" "length (proc_array ?s) = 7"
    by (simp_all add: run_state_def run_part_def POK_CONFIG_NB_PARTITIONS_def POK_CONFIG_NB_THREADS_def
        cfg_low_def cfg_high_def POK_CONFIG_PARTITIONS_NTHREADS_def)
  then show ?thesis
    using create_eval [of 0 ?s 1 0 demo_tcb]
    by (simp add: init_mode_def demo_tcb_def POK_CONFIG_NB_THREADS_def CONFIG_PCB_OFFSET_def)
qed

theorem create_spec_witness:
  "\<exists>s'. pok_partition_thread_create demo_tcb 0 (run_state PART_MODE_COLD_START 0 5) =
     Some (s', POK_ERRNO_OK, Some 1) \<and> sys_inv 0 s' \<and> runnable (proc_array s') 1"
proof -
  from create_run obtain s' where s': "pok_partition_thread_create demo_tcb 0
    (run_state PART_MODE_COLD_START 0 5) = Some (s', POK_ERRNO_OK, Some 1)" by blast
  have "sys_inv 0 (run_state PART_MODE_COLD_START 0 5)" by (rule run_state_inv) (simp add: init_mode_def)
  from create_spec [OF this _ s'] s' show ?thesis by (simp add: POK_CONFIG_NB_PARTITIONS_def)
qed

lemma run_tick:
  "\<exists>s'. scheduler_tick (run_state PART_MODE_NORMAL 1 5) = Some s' \<and> current_partition s' = 0"
proof -
  have inv: "sys_inv 0 (run_state PART_MODE_NORMAL 1 5)" by (rule run_state_inv) simp
  from sys_inv_tick [OF inv] obtain s' where
    "scheduler_tick (run_state PART_MODE_NORMAL 1 5) = Some s'" "sys_inv 1 s'" by auto
  then show ?thesis by (auto simp: sys_inv_def timeline_def pok_sched_slots_allocation_def)
qed

theorem work_conserving_witness:
  "\<exists>s'. scheduler_tick (run_state PART_MODE_NORMAL 1 5) = Some s' \<and>
     (current_thread s' = IDLE_THREAD \<or> runnable (proc_array s') (current_thread s'))"
proof -
  from run_tick obtain s' where
    s': "scheduler_tick (run_state PART_MODE_NORMAL 1 5) = Some s'" "current_partition s' = 0" by blast
  have "sys_inv 0 (run_state PART_MODE_NORMAL 1 5)" by (rule run_state_inv) simp
  from work_conserving [OF this s'(1)] s' show ?thesis by (auto split: if_splits)
qed

theorem scheduler_progress_witness:
  "\<exists>s'. scheduler_tick demo_state = Some s' \<and> reach 1 s'"
  using scheduler_progress [OF demo_reach] by simp



text \<open>A process of partition 0 asks about its threads.\<close>

definition ask_state :: sched_state where
  "ask_state = (run_state PART_MODE_NORMAL 0 5)\<lparr>proc_array :=
     (proc_array (run_state PART_MODE_NORMAL 0 5))[0 := zero_process\<lparr>proc_part := Some 0\<rparr>]\<rparr>"

definition ask_ms :: memserv where
  "ask_ms = demo_ms\<lparr>ms_pids := (ms_pids demo_ms)\<lparr>pl_pcbs := (replicate 2048 None)[1 := Some (demo_client\<lparr>cl_proc := Some 0\<rparr>)]\<rparr>\<rparr>"

lemma ask_client: "client_of ask_ms 1 = Some (demo_client\<lparr>cl_proc := Some 0\<rparr>)"
proof -
  have "pid_inv (ms_pids ask_ms)"
    by (auto simp: ask_ms_def demo_ms_def pid_inv_def cp_defs PID_START_def PID_MAX_def nth_list_update)
  then show ?thesis
    by (auto simp: client_of_eq pid_pcb_def ask_ms_def demo_ms_def PID_MAX_def nth_list_update)
qed

lemma ask_suspend: "SUSPEND (server_rpc addr ask_state ask_ms 1) 1 = Some (Some [0xf005, 1], NO_ERROR)"
proof -
  have p: "caller_part ask_state ask_ms 1 = Some (run_part PART_MODE_NORMAL 0 0)"
    unfolding caller_part_def ask_client
    by (simp add: ask_state_def run_state_def POK_CONFIG_NB_THREADS_def POK_CONFIG_NB_PARTITIONS_def rd_def)
  have q: "thread_query f ask_state ask_ms 1 1 = Some (f (proc_array (run_state PART_MODE_NORMAL 0 5) ! 1))" for f
    unfolding thread_query_def p
    by (simp add: outside_part_def run_part_def u32i_def cfg_low_def cfg_high_def POK_CONFIG_PARTITIONS_NTHREADS_def)
      (simp add: ask_state_def run_state_def POK_CONFIG_NB_THREADS_def rd_def)
  have t: "proc_array (run_state PART_MODE_NORMAL 0 5) ! 1 = zero_process\<lparr>proc_status := POK_STATE_RUNNABLE, proc_remaining := 5,
      proc_timecap := 5, proc_period := 1000, proc_ktcb := 401\<rparr>" by (simp add: run_state_def POK_CONFIG_NB_THREADS_def)
  have "rpc_get_status_from_pid (server_rpc addr ask_state ask_ms 1) 1 = Some 1"
    unfolding server_rpc_def apex_rpc.select_convs proc_get_status_from_pid_handler_def q t by simp
  moreover have "rpc_get_period_from_pid (server_rpc addr ask_state ask_ms 1) 1 = Some 1000"
    unfolding server_rpc_def apex_rpc.select_convs proc_get_period_from_pid_handler_def q t by (simp add: s32_def)
  ultimately show ?thesis by (simp add: SUSPEND_def apex_defs u32i_def RPC_NBSend2_def sys_labels)
qed


text \<open>
  Resuming is impossible.  In every reachable state \<open>RESUME\<close> and \<open>START\<close> send no message and return \<open>INVALID_MODE\<close> or
  \<open>NO_ACTION\<close>, whatever thread they are given: they wait for a state of the thread that the server never sets, the number 3 being
  \<open>WAITING\<close> for the library and \<open>POK_STATE_LOCK\<close> for the server.
\<close>

theorem resume_never_sends:
  assumes "reach n g"
  shows "RESUME (server_rpc addr g ms user) pid \<in> {None, Some (None, INVALID_MODE), Some (None, NO_ACTION)} \<and>
    START (server_rpc addr g ms user) pid \<in> {None, Some (None, INVALID_MODE), Some (None, NO_ACTION)}"
proof -
  have "RESUME (server_rpc addr g ms user) pid \<in> {None, Some (None, INVALID_MODE), Some (None, NO_ACTION)}"
    using resume_silent [OF assms, of addr ms user pid] by (cases "RESUME (server_rpc addr g ms user) pid") force+
  then show ?thesis by (simp add: START_def)
qed

theorem resume_never_sends_witness:
  "reach 0 demo_state \<and> RESUME (server_rpc (\<lambda>_. 0) demo_state ask_ms 1) 1 \<in>
    {None, Some (None, INVALID_MODE), Some (None, NO_ACTION)}"
  using demo_reach resume_never_sends [OF demo_reach, of "\<lambda>_. 0" ask_ms 1 1] by blast

end
